(* ===== verification/Prelude.thy ===== *)
theory Prelude
  imports Main "HOL-Library.Multiset"
begin

text \<open>
  What every component of the WiseOrder development shares: the Python exceptions the code
  raises or catches, the effect type of a coroutine (state passing with exceptions, where the
  state survives a raise as it does in Python), its combinators (\<open>return\<close>, \<open>raise\<close>,
  sequencing, \<open>try/except\<close>, \<open>try/finally\<close>, loops), a weakest-precondition calculus for
  them, and generic facts on lists and options.
\<close>

named_theorems wp_ops \<open>weakest-precondition rules of the operations of the components\<close>
named_theorems view_simps \<open>how the operations change the views of the world\<close>

section \<open>Exceptions\<close>

text \<open>
  The exception classes the sources raise or name in an \<^verbatim>\<open>except\<close> clause.
  \<open>LlmTransient\<close> is any of litellm's RateLimitError, APIConnectionError and
  ServiceUnavailableError, \<open>ServiceError\<close> any other exception of a library or a service;
  both carry the text \<^verbatim>\<open>str(e)\<close>.
\<close>

datatype exn =
    ValueError string
  | TypeError string
  | AttributeError string
  | KeyError string
  | IndexError string
  | RuntimeError string
  | TimeoutError
  | FileNotFoundError string
  | CalledProcessError string
  | JSONDecodeError string
  | HTTPException int string
  | LlmTransient string
  | ServiceError string
  | NoResultFound
  | MultipleResultsFound
  | CancelledError

text \<open>
  \<^verbatim>\<open>str(e)\<close>: a TimeoutError raised by \<^verbatim>\<open>asyncio.wait_for\<close> and a
  CancelledError carry no argument, so their text is empty.
\<close>

fun str_exn :: "exn \<Rightarrow> string" where
  "str_exn (ValueError s) = s"
| "str_exn (TypeError s) = s"
| "str_exn (AttributeError s) = s"
| "str_exn (KeyError s) = s"
| "str_exn (IndexError s) = s"
| "str_exn (RuntimeError s) = s"
| "str_exn TimeoutError = ''''"
| "str_exn (FileNotFoundError s) = s"
| "str_exn (CalledProcessError s) = s"
| "str_exn (JSONDecodeError s) = s"
| "str_exn (HTTPException n s) = s"
| "str_exn (LlmTransient s) = s"
| "str_exn (ServiceError s) = s"
| "str_exn NoResultFound = ''No row was found when one was required''"
| "str_exn MultipleResultsFound = ''Multiple rows were found when exactly one was required''"
| "str_exn CancelledError = ''''"

text \<open>
  \<^verbatim>\<open>except Exception\<close> catches everything but \<^verbatim>\<open>asyncio.CancelledError\<close>, which
  derives from BaseException.
\<close>

fun is_Exception :: "exn \<Rightarrow> bool" where
  "is_Exception CancelledError = False"
| "is_Exception _ = True"

lemma is_Exception_iff [simp]: "is_Exception e \<longleftrightarrow> e \<noteq> CancelledError"
  by (cases e) auto

section \<open>Effects\<close>

text \<open>
  A coroutine that returns \<open>'a\<close>: a function of the world that gives an outcome (\<open>Inl\<close> the
  exception, \<open>Inr\<close> the value) and the world afterwards, also when it raised.
\<close>

type_synonym ('w, 'a) io = "'w \<Rightarrow> (exn + 'a) \<times> 'w"

definition ret :: "'a \<Rightarrow> ('w, 'a) io" where
  "ret a = (\<lambda>w. (Inr a, w))"

definition raise :: "exn \<Rightarrow> ('w, 'a) io" where
  "raise e = (\<lambda>w. (Inl e, w))"

definition bnd :: "('w, 'a) io \<Rightarrow> ('a \<Rightarrow> ('w, 'b) io) \<Rightarrow> ('w, 'b) io" where
  "bnd m k = (\<lambda>w. case m w of (Inl e, w') \<Rightarrow> (Inl e, w') | (Inr a, w') \<Rightarrow> k a w')"

definition thn :: "('w, 'a) io \<Rightarrow> ('w, 'b) io \<Rightarrow> ('w, 'b) io" where
  "thn m k = bnd m (\<lambda>_. k)"

definition asks :: "('w \<Rightarrow> 'a) \<Rightarrow> ('w, 'a) io" where
  "asks f = (\<lambda>w. (Inr (f w), w))"

definition modifies :: "('w \<Rightarrow> 'w) \<Rightarrow> ('w, unit) io" where
  "modifies f = (\<lambda>w. (Inr (), f w))"

text \<open>\<^verbatim>\<open>try: m  except C as e: h e\<close>, for the exceptions of the class \<open>C\<close>.\<close>

definition catching :: "(exn \<Rightarrow> bool) \<Rightarrow> ('w, 'a) io \<Rightarrow> (exn \<Rightarrow> ('w, 'a) io) \<Rightarrow> ('w, 'a) io" where
  "catching c m h =
     (\<lambda>w. case m w of (Inl e, w') \<Rightarrow> (if c e then h e w' else (Inl e, w')) | (Inr a, w') \<Rightarrow> (Inr a, w'))"

abbreviation try_except :: "('w, 'a) io \<Rightarrow> (exn \<Rightarrow> ('w, 'a) io) \<Rightarrow> ('w, 'a) io" where
  "try_except \<equiv> catching is_Exception"

text \<open>\<^verbatim>\<open>try: m  finally: c\<close>: an exception of \<open>c\<close> replaces the outcome of \<open>m\<close>.\<close>

definition finally_do :: "('w, 'a) io \<Rightarrow> ('w, unit) io \<Rightarrow> ('w, 'a) io" where
  "finally_do m c =
     (\<lambda>w. case m w of (r, w') \<Rightarrow>
        (case c w' of (Inl e, w'') \<Rightarrow> (Inl e, w'') | (Inr _, w'') \<Rightarrow> (r, w'')))"

text \<open>A \<^verbatim>\<open>for\<close> loop, and a comprehension whose element expression has effects.\<close>

fun for_each :: "'x list \<Rightarrow> ('x \<Rightarrow> ('w, unit) io) \<Rightarrow> ('w, unit) io" where
  "for_each [] f = ret ()"
| "for_each (x # xs) f = thn (f x) (for_each xs f)"

fun collect_each :: "'x list \<Rightarrow> ('x \<Rightarrow> ('w, 'a) io) \<Rightarrow> ('w, 'a list) io" where
  "collect_each [] f = ret []"
| "collect_each (x # xs) f = bnd (f x) (\<lambda>y. bnd (collect_each xs f) (\<lambda>ys. ret (y # ys)))"

text \<open>Lifting a computation that already is an outcome.\<close>

definition lift_sum :: "exn + 'a \<Rightarrow> ('w, 'a) io" where
  "lift_sum r = (case r of Inl e \<Rightarrow> raise e | Inr a \<Rightarrow> ret a)"

lemmas io_defs = ret_def raise_def bnd_def thn_def asks_def modifies_def catching_def
  finally_do_def lift_sum_def

section \<open>Weakest preconditions\<close>

text \<open>
  \<open>wp m Q X w\<close>: run from \<open>w\<close>, the computation \<open>m\<close> establishes \<open>Q\<close> of its value and final
  world when it returns and \<open>X\<close> of its exception and final world when it raises. Every
  computation is a total function, so this is total correctness.
\<close>

definition wp :: "('w, 'a) io \<Rightarrow> ('a \<Rightarrow> 'w \<Rightarrow> bool) \<Rightarrow> (exn \<Rightarrow> 'w \<Rightarrow> bool) \<Rightarrow> 'w \<Rightarrow> bool" where
  "wp m Q X w \<longleftrightarrow> (case m w of (Inl e, w') \<Rightarrow> X e w' | (Inr a, w') \<Rightarrow> Q a w')"

lemma wp_ret [simp]: "wp (ret a) Q X w \<longleftrightarrow> Q a w"
  by (simp add: wp_def ret_def)

lemma wp_raise [simp]: "wp (raise e) Q X w \<longleftrightarrow> X e w"
  by (simp add: wp_def raise_def)

lemma wp_bnd [simp]: "wp (bnd m k) Q X w \<longleftrightarrow> wp m (\<lambda>a. wp (k a) Q X) X w"
  by (auto simp: wp_def bnd_def split: prod.splits sum.splits)

lemma wp_thn [simp]: "wp (thn m k) Q X w \<longleftrightarrow> wp m (\<lambda>_. wp k Q X) X w"
  by (simp add: thn_def)

lemma wp_asks [simp]: "wp (asks f) Q X w \<longleftrightarrow> Q (f w) w"
  by (simp add: wp_def asks_def)

lemma wp_modifies [simp]: "wp (modifies f) Q X w \<longleftrightarrow> Q () (f w)"
  by (simp add: wp_def modifies_def)

lemma wp_catching [simp]:
  "wp (catching c m h) Q X w \<longleftrightarrow> wp m Q (\<lambda>e w'. if c e then wp (h e) Q X w' else X e w') w"
  by (auto simp: wp_def catching_def split: prod.splits sum.splits)

lemma wp_finally [simp]:
  "wp (finally_do m c) Q X w \<longleftrightarrow> wp m (\<lambda>a. wp c (\<lambda>_. Q a) X) (\<lambda>e. wp c (\<lambda>_. X e) X) w"
  by (auto simp: wp_def finally_do_def split: prod.splits sum.splits)

lemma wp_lift_sum [simp]:
  "wp (lift_sum r) Q X w \<longleftrightarrow> (case r of Inl e \<Rightarrow> X e w | Inr a \<Rightarrow> Q a w)"
  by (simp add: lift_sum_def split: sum.splits)

lemma wp_mono:
  assumes "wp m Q X w" and "\<And>a w'. Q a w' \<Longrightarrow> Q' a w'" and "\<And>e w'. X e w' \<Longrightarrow> X' e w'"
  shows "wp m Q' X' w"
  using assms by (auto simp: wp_def split: prod.splits sum.splits)

lemma wp_conj:
  assumes "wp m Q X w" and "wp m Q' X' w"
  shows "wp m (\<lambda>a w'. Q a w' \<and> Q' a w') (\<lambda>e w'. X e w' \<and> X' e w') w"
  using assms by (auto simp: wp_def split: prod.splits sum.splits)

lemma wp_returns: "wp m Q X w \<Longrightarrow> m w = (Inr a, w') \<Longrightarrow> Q a w'"
  by (simp add: wp_def)

lemma wp_raises: "wp m Q X w \<Longrightarrow> m w = (Inl e, w') \<Longrightarrow> X e w'"
  by (simp add: wp_def)

lemma wp_returns_iff: "wp m (\<lambda>a w'. a = b \<and> w' = v) (\<lambda>_ _. False) w \<longleftrightarrow> m w = (Inr b, v)"
  by (auto simp: wp_def split: prod.splits sum.splits)

text \<open>The rule of a \<^verbatim>\<open>for\<close> loop: an invariant of the items done and those left.\<close>

lemma wp_for_each:
  assumes step: "\<And>xs x ys w. zs = xs @ x # ys \<Longrightarrow> I xs w \<Longrightarrow> wp (f x) (\<lambda>_. I (xs @ [x])) X w"
    and start: "I [] w"
    and post: "\<And>w'. I zs w' \<Longrightarrow> Q () w'"
  shows "wp (for_each zs f) Q X w"
proof -
  have "wp (for_each ys f) (\<lambda>_. I zs) X w" if "zs = xs @ ys" "I xs w" for xs ys w
    using that
  proof (induction ys arbitrary: xs w)
    case Nil
    then show ?case by simp
  next
    case (Cons y ys)
    have "wp (f y) (\<lambda>_. I (xs @ [y])) X w"
      using Cons.prems by (intro step)
    moreover have "wp (for_each ys f) (\<lambda>_. I zs) X w'" if "I (xs @ [y]) w'" for w'
      using Cons.prems(1) that by (intro Cons.IH [of "xs @ [y]"]) auto
    ultimately show ?case by (auto intro: wp_mono)
  qed
  from this [of "[]" zs w] start have "wp (for_each zs f) (\<lambda>_. I zs) X w" by simp
  then show ?thesis by (rule wp_mono) (auto intro: post)
qed

lemma bnd_ret [simp]: "bnd (ret a) k = k a"
  by (simp add: bnd_def ret_def)

lemma bnd_assoc: "bnd (bnd m k) h = bnd m (\<lambda>a. bnd (k a) h)"
  by (auto simp: bnd_def fun_eq_iff split: prod.splits sum.splits)

section \<open>Frames\<close>

text \<open>What a computation leaves alone, whether it returns or raises.\<close>

definition keeps :: "('w \<Rightarrow> 'x) \<Rightarrow> ('w, 'a) io \<Rightarrow> bool" where
  "keeps f m \<longleftrightarrow> (\<forall>w. f (snd (m w)) = f w)"

lemma keeps_wp: "keeps f m \<Longrightarrow> wp m (\<lambda>_ w'. f w' = f w) (\<lambda>_ w'. f w' = f w) w"
  by (cases "m w"; cases "fst (m w)") (auto simp: wp_def keeps_def dest: spec [of _ w])

lemma keepsI: "(\<And>w. wp m (\<lambda>_ w'. f w' = f w) (\<lambda>_ w'. f w' = f w) w) \<Longrightarrow> keeps f m"
  unfolding keeps_def wp_def
proof
  fix w assume "\<And>w. case m w of (Inl e, w') \<Rightarrow> f w' = f w | (Inr a, w') \<Rightarrow> f w' = f w"
  from this [of w] show "f (snd (m w)) = f w"
    by (cases "m w"; cases "fst (m w)") auto
qed

lemma keepsD: "keeps f m \<Longrightarrow> m w = (r, w') \<Longrightarrow> f w' = f w"
  unfolding keeps_def by (metis snd_conv)

lemma keeps_ret [wp_ops]: "keeps f (ret a)"
  by (simp add: keeps_def ret_def)

lemma keeps_raise [wp_ops]: "keeps f (raise e)"
  by (simp add: keeps_def raise_def)

lemma keeps_asks [wp_ops]: "keeps f (asks g)"
  by (simp add: keeps_def asks_def)

lemma keeps_lift_sum [wp_ops]: "keeps f (lift_sum r)"
  by (simp add: lift_sum_def keeps_ret keeps_raise split: sum.splits)

lemma keeps_modifies: "(\<And>w. f (g w) = f w) \<Longrightarrow> keeps f (modifies g)"
  by (simp add: keeps_def modifies_def)

lemma keeps_bnd [wp_ops]:
  assumes "keeps f m" and "\<And>a. keeps f (k a)"
  shows "keeps f (bnd m k)"
  unfolding keeps_def
proof
  fix w
  obtain r w1 where m: "m w = (r, w1)" by force
  with assms(1) have "f w1 = f w" by (rule keepsD)
  with m assms(2) show "f (snd (bnd m k w)) = f w"
    by (cases r) (auto simp: bnd_def keeps_def)
qed

lemma keeps_thn [wp_ops]: "keeps f m \<Longrightarrow> keeps f k \<Longrightarrow> keeps f (thn m k)"
  unfolding thn_def by (rule keeps_bnd)

lemma keeps_catching [wp_ops]:
  assumes "keeps f m" and "\<And>e. keeps f (h e)"
  shows "keeps f (catching c m h)"
  unfolding keeps_def
proof
  fix w
  obtain r w1 where m: "m w = (r, w1)" by force
  with assms(1) have "f w1 = f w" by (rule keepsD)
  with m assms(2) show "f (snd (catching c m h w)) = f w"
    by (cases r) (auto simp: catching_def keeps_def)
qed

lemma keeps_finally [wp_ops]:
  assumes "keeps f m" and "keeps f c"
  shows "keeps f (finally_do m c)"
  unfolding keeps_def
proof
  fix w
  obtain r w1 r' w2 where m: "m w = (r, w1)" and c: "c w1 = (r', w2)" by force
  have "f w2 = f w1" "f w1 = f w"
    by (rule keepsD [OF assms(2) c], rule keepsD [OF assms(1) m])
  with m c show "f (snd (finally_do m c w)) = f w"
    by (cases r') (auto simp: finally_do_def)
qed

lemma keeps_if [wp_ops]: "keeps f m \<Longrightarrow> keeps f m' \<Longrightarrow> keeps f (if b then m else m')"
  by simp

lemma keeps_for_each [wp_ops]: "(\<And>x. keeps f (g x)) \<Longrightarrow> keeps f (for_each xs g)"
  by (induction xs) (auto intro: keeps_ret keeps_thn)

lemma keeps_collect [wp_ops]: "(\<And>x. keeps f (g x)) \<Longrightarrow> keeps f (collect_each xs g)"
  by (induction xs) (auto intro!: keeps_ret keeps_bnd)

section \<open>Lists\<close>

text \<open>\<^verbatim>\<open>xs[-n:]\<close>: the last \<open>n\<close> elements, all of them when there are fewer.\<close>

definition last_n :: "nat \<Rightarrow> 'a list \<Rightarrow> 'a list" where
  "last_n n xs = drop (length xs - n) xs"

lemma length_last_n [simp]: "length (last_n n xs) = min n (length xs)"
  by (simp add: last_n_def min_def)

lemma last_n_all [simp]: "length xs \<le> n \<Longrightarrow> last_n n xs = xs"
  by (simp add: last_n_def)

lemma last_n_suffix: "\<exists>ys. xs = ys @ last_n n xs"
  by (metis append_take_drop_id last_n_def)

lemma last_n_last_n [simp]: "last_n n (last_n m xs) = last_n (min n m) xs"
proof (cases "m \<le> length xs")
  case True
  then have "length xs - (length xs - m + min n m) + (length xs - m) = length xs - min n m"
    by linarith
  with True show ?thesis by (auto simp: last_n_def min_def)
qed (auto simp: last_n_def min_def)

lemma last_n_0 [simp]: "last_n 0 xs = []"
  by (simp add: last_n_def)

lemma last_n_snoc [simp]: "last_n (Suc n) (xs @ [x]) = last_n n xs @ [x]"
  by (auto simp: last_n_def)

lemma last_n_last_n_snoc:
  "n \<le> m \<Longrightarrow> last_n n (last_n m xs @ [x]) = last_n n (xs @ [x])"
  by (cases n) (auto simp: min_def)

lemma map_if_id: "(\<And>x. x \<in> set xs \<Longrightarrow> P x \<Longrightarrow> f x = x) \<Longrightarrow> map (\<lambda>x. if P x then f x else x) xs = xs"
  by (rule map_idI) auto

lemma count_mset_filter_one:
  assumes "distinct (map f xs)" and "x \<in> set xs"
  shows "filter (\<lambda>y. f y = f x) xs = [x]"
  using assms by (induction xs) (auto simp: filter_empty_conv image_iff)

end
