(* ===== verification/PyText.thy ===== *)
theory PyText
  imports Prelude "HOL-Library.Sublist"
begin

text \<open>
  The string operations of Python that the sources use. A Python string is a \<open>string\<close>, one
  \<open>char\<close> for each code point, so \<open>length\<close> is \<^verbatim>\<open>len\<close>; the repertoire is the 256
  characters of Isabelle's \<open>char\<close>. Two literals of the sources lie outside Latin-1: the em
  dash and the bullet of the approval cards. They are the characters \<open>em_dash\<close> and
  \<open>bullet\<close> here (their codes in the Windows code page), one code point each as in the code.
\<close>

definition em_dash :: char where "em_dash = CHR 0x97"
definition bullet :: char where "bullet = CHR 0x95"
definition newline :: char where "newline = CHR 0x0A"
definition dquote :: char where "dquote = CHR 0x22"
definition squote :: char where "squote = CHR 0x27"
definition backslash :: char where "backslash = CHR 0x5C"

lemmas char_consts = em_dash_def bullet_def newline_def dquote_def squote_def backslash_def

abbreviation code :: "char \<Rightarrow> nat" where "code \<equiv> of_char"

section \<open>Case, white space, slices\<close>

text \<open>
  \<^verbatim>\<open>s.lower()\<close>, \<^verbatim>\<open>s.upper()\<close>: exact on ASCII, other characters are kept. The
  sources only compare the result with ASCII words or search it for ASCII words.
\<close>

definition lower_char :: "char \<Rightarrow> char" where
  "lower_char c = (if 65 \<le> code c \<and> code c \<le> 90 then char_of (code c + 32) else c)"

definition upper_char :: "char \<Rightarrow> char" where
  "upper_char c = (if 97 \<le> code c \<and> code c \<le> 122 then char_of (code c - 32) else c)"

definition py_lower :: "string \<Rightarrow> string" where "py_lower s = map lower_char s"
definition py_upper :: "string \<Rightarrow> string" where "py_upper s = map upper_char s"

text \<open>\<^verbatim>\<open>str.isspace\<close> on the repertoire, and \<^verbatim>\<open>s.strip()\<close>.\<close>

definition is_space :: "char \<Rightarrow> bool" where
  "is_space c \<longleftrightarrow> code c \<in> {9, 10, 11, 12, 13, 28, 29, 30, 31, 32, 133, 160}"

definition strip_if :: "(char \<Rightarrow> bool) \<Rightarrow> string \<Rightarrow> string" where
  "strip_if p s = rev (dropWhile p (rev (dropWhile p s)))"

definition py_strip :: "string \<Rightarrow> string" where "py_strip s = strip_if is_space s"

definition strip_char :: "char \<Rightarrow> string \<Rightarrow> string" where "strip_char c s = strip_if (\<lambda>x. x = c) s"

lemma length_strip_if: "length (strip_if p s) \<le> length s"
proof -
  have "length (dropWhile p (rev (dropWhile p s))) \<le> length (rev (dropWhile p s))"
    by (rule length_dropWhile_le)
  also have "\<dots> \<le> length s" by (simp add: length_dropWhile_le)
  finally show ?thesis by (simp add: strip_if_def)
qed

lemma strip_if_id:
  assumes "s \<noteq> []" and "\<not> p (hd s)" and "\<not> p (last s)"
  shows "strip_if p s = s"
proof -
  from assms(1,2) have "dropWhile p s = s" by (cases s) auto
  moreover from assms(1,3) have "dropWhile p (rev s) = rev s" by (cases s rule: rev_cases) auto
  ultimately show ?thesis by (simp add: strip_if_def)
qed

lemma strip_if_ends:
  assumes "strip_if p s \<noteq> []"
  shows "\<not> p (hd (strip_if p s))" and "\<not> p (last (strip_if p s))"
proof -
  let ?t = "dropWhile p s"
  from assms have ne: "dropWhile p (rev ?t) \<noteq> []" by (simp add: strip_if_def)
  from ne show "\<not> p (last (strip_if p s))"
    by (simp add: strip_if_def last_rev hd_dropWhile)
  from ne have tne: "?t \<noteq> []" by force
  obtain ws where ws: "rev ?t = ws @ dropWhile p (rev ?t)"
    by (metis takeWhile_dropWhile_id)
  then have "?t = rev (dropWhile p (rev ?t)) @ rev ws" by (metis rev_append rev_rev_ident)
  then have "hd ?t = hd (rev (dropWhile p (rev ?t)))"
    by (metis hd_append2 ne rev_is_Nil_conv)
  with hd_dropWhile [OF tne] show "\<not> p (hd (strip_if p s))" by (simp add: strip_if_def)
qed

lemma strip_if_idem [simp]: "strip_if p (strip_if p s) = strip_if p s"
proof (cases "strip_if p s = []")
  case True
  then show ?thesis by (simp add: strip_if_def [of p "[]"])
next
  case False
  show ?thesis
    by (rule strip_if_id [OF False strip_if_ends(1) [OF False] strip_if_ends(2) [OF False]])
qed

section \<open>Search, replace, split, join\<close>

text \<open>\<^verbatim>\<open>needle in s\<close>.\<close>

fun contains :: "string \<Rightarrow> string \<Rightarrow> bool" where
  "contains needle [] \<longleftrightarrow> needle = []"
| "contains needle (c # cs) \<longleftrightarrow> prefix needle (c # cs) \<or> contains needle cs"

lemma contains_iff: "contains needle s \<longleftrightarrow> (\<exists>xs ys. s = xs @ needle @ ys)"
proof
  show "contains needle s \<Longrightarrow> \<exists>xs ys. s = xs @ needle @ ys"
  proof (induction s)
    case Nil
    then show ?case by simp
  next
    case (Cons c cs)
    then show ?case
      by (metis append_Cons append_Nil contains.simps(2) prefixE)
  qed
next
  assume "\<exists>xs ys. s = xs @ needle @ ys"
  then obtain xs ys where "s = xs @ needle @ ys" by blast
  moreover have "contains needle (needle @ ys)"
    by (cases "needle @ ys") (auto simp: prefix_def intro: sym)
  then have "contains needle (xs @ needle @ ys)" by (induction xs) auto
  ultimately show "contains needle s" by simp
qed

lemma contains_append: "contains needle s \<Longrightarrow> contains needle (xs @ s @ ys)"
  unfolding contains_iff by (metis append.assoc)

text \<open>
  \<^verbatim>\<open>s.replace(old, new)\<close> for a non-empty \<open>old\<close>: left to right, without rescanning what
  was inserted. (The sources replace placeholders only; the empty \<open>old\<close> keeps the text.)
\<close>

function replace_all :: "string \<Rightarrow> string \<Rightarrow> string \<Rightarrow> string" where
  "replace_all old new [] = []"
| "replace_all old new (c # cs) =
     (if old \<noteq> [] \<and> prefix old (c # cs)
      then new @ replace_all old new (drop (length old) (c # cs))
      else c # replace_all old new cs)"
  by pat_completeness auto
termination
  by (relation "measure (\<lambda>(_, _, s). length s)") (auto simp: Suc_le_eq)

lemma replace_all_absent: "\<not> contains old s \<Longrightarrow> replace_all old new s = s"
  by (induction old new s rule: replace_all.induct) auto

text \<open>\<^verbatim>\<open>s.split(c)\<close> for a one-character separator, and \<^verbatim>\<open>sep.join(xs)\<close>.\<close>

fun split_on :: "char \<Rightarrow> string \<Rightarrow> string list" where
  "split_on c [] = [[]]"
| "split_on c (x # xs) =
     (if x = c then [] # split_on c xs
      else (case split_on c xs of [] \<Rightarrow> [[x]] | y # ys \<Rightarrow> (x # y) # ys))"

fun join :: "string \<Rightarrow> string list \<Rightarrow> string" where
  "join sep [] = []"
| "join sep [x] = x"
| "join sep (x # y # ys) = x @ sep @ join sep (y # ys)"

lemma split_on_nonempty [simp]: "split_on c s \<noteq> []"
  by (induction s) (auto split: list.splits)

lemma join_Cons: "xs \<noteq> [] \<Longrightarrow> join sep (x # xs) = x @ sep @ join sep xs"
  by (cases xs) auto

lemma join_split_on: "join [c] (split_on c s) = s"
proof (induction s)
  case Nil
  then show ?case by simp
next
  case (Cons x xs)
  obtain y ys where y: "split_on c xs = y # ys" by (cases "split_on c xs") auto
  with Cons show ?case by (cases ys) (auto simp: join_Cons)
qed

lemma split_on_no_sep: "t \<in> set (split_on c s) \<Longrightarrow> c \<notin> set t"
  by (induction s arbitrary: t) (auto split: list.splits if_splits)

section \<open>Decimal numbers\<close>

definition digit_char :: "nat \<Rightarrow> char" where "digit_char n = char_of (48 + n)"

definition is_digit :: "char \<Rightarrow> bool" where "is_digit c \<longleftrightarrow> 48 \<le> code c \<and> code c \<le> 57"

definition digit_val :: "char \<Rightarrow> nat" where "digit_val c = code c - 48"

fun str_of_nat :: "nat \<Rightarrow> string" where
  "str_of_nat n = (if n < 10 then [digit_char n] else str_of_nat (n div 10) @ [digit_char (n mod 10)])"

declare str_of_nat.simps [simp del]

text \<open>\<^verbatim>\<open>str(i)\<close> of an int.\<close>

definition str_of_int :: "int \<Rightarrow> string" where
  "str_of_int i = (if i < 0 then CHR ''-'' # str_of_nat (nat (- i)) else str_of_nat (nat i))"

text \<open>The value of a run of decimal digits, as \<^verbatim>\<open>int(s)\<close> reads it.\<close>

definition nat_of_digits :: "string \<Rightarrow> nat" where
  "nat_of_digits s = foldl (\<lambda>a c. 10 * a + digit_val c) 0 s"

lemma code_digit_char: "n < 10 \<Longrightarrow> code (digit_char n) = 48 + n"
  by (simp add: digit_char_def)

lemma is_digit_digit_char [simp]: "n < 10 \<Longrightarrow> is_digit (digit_char n)"
  by (simp add: is_digit_def code_digit_char)

lemma digit_val_digit_char [simp]: "n < 10 \<Longrightarrow> digit_val (digit_char n) = n"
  by (simp add: digit_val_def code_digit_char)

lemma str_of_nat_nonempty [simp]: "str_of_nat n \<noteq> []"
  by (subst str_of_nat.simps) simp

lemma str_of_nat_digits: "c \<in> set (str_of_nat n) \<Longrightarrow> is_digit c"
proof (induction n rule: str_of_nat.induct)
  case (1 n)
  then show ?case by (cases "n < 10") (auto simp: str_of_nat.simps [of n])
qed

lemma nat_of_digits_snoc [simp]: "nat_of_digits (s @ [c]) = 10 * nat_of_digits s + digit_val c"
  by (simp add: nat_of_digits_def)

lemma nat_of_digits_str [simp]: "nat_of_digits (str_of_nat n) = n"
proof (induction n rule: str_of_nat.induct)
  case (1 n)
  show ?case
  proof (cases "n < 10")
    case True
    then show ?thesis by (simp add: str_of_nat.simps [of n] nat_of_digits_def)
  next
    case False
    then have "str_of_nat n = str_of_nat (n div 10) @ [digit_char (n mod 10)]"
      by (simp add: str_of_nat.simps [of n])
    with "1" [OF False] show ?thesis by simp
  qed
qed

lemma str_of_nat_inj [simp]: "str_of_nat m = str_of_nat n \<longleftrightarrow> m = n"
  by (metis nat_of_digits_str)

lemma hd_str_of_nat_digit: "is_digit (hd (str_of_nat n))"
  by (rule str_of_nat_digits [of _ n]) simp

text \<open>No leading zero, except for zero itself.\<close>

lemma hd_str_of_nat_zero: "hd (str_of_nat n) = CHR ''0'' \<Longrightarrow> n = 0"
proof (induction n rule: str_of_nat.induct)
  case (1 n)
  show ?case
  proof (cases "n < 10")
    case True
    with "1.prems" have "digit_val (digit_char n) = 0"
      by (simp add: str_of_nat.simps [of n] digit_val_def)
    with True show ?thesis by simp
  next
    case False
    with "1.prems" have "hd (str_of_nat (n div 10)) = CHR ''0''"
      by (simp add: str_of_nat.simps [of n])
    with "1.IH" [OF False] False show ?thesis by linarith
  qed
qed

lemma digit_chars:
  "digit_char 0 = CHR ''0''" "digit_char 1 = CHR ''1''" "digit_char 2 = CHR ''2''"
  "digit_char 3 = CHR ''3''" "digit_char 4 = CHR ''4''" "digit_char 5 = CHR ''5''"
  "digit_char 6 = CHR ''6''" "digit_char 7 = CHR ''7''" "digit_char 8 = CHR ''8''"
  "digit_char 9 = CHR ''9''"
  by code_simp+

text \<open>What evaluates \<open>str\<close> of a numeral by simplification.\<close>

lemmas str_eval = str_of_int_def str_of_nat.simps [of "numeral n" for n] str_of_nat.simps [of 0]
  str_of_nat.simps [of 1] str_of_nat.simps [of "Suc 0"] digit_chars digit_chars(2) [unfolded One_nat_def]

lemma str_of_nat_zero_iff: "str_of_nat n = [CHR ''0''] \<longleftrightarrow> n = 0"
  using hd_str_of_nat_zero [of n]
  by (auto simp: str_of_nat.simps [of 0] digit_chars(1))

text \<open>
  \<^verbatim>\<open>s.isdigit()\<close>: besides the decimal digits the three superscript digits of the
  repertoire, which \<^verbatim>\<open>int\<close> refuses with a ValueError.
\<close>

definition py_isdigit :: "string \<Rightarrow> bool" where
  "py_isdigit s \<longleftrightarrow> s \<noteq> [] \<and> (\<forall>c\<in>set s. is_digit c \<or> code c \<in> {178, 179, 185})"

definition int_of_isdigit :: "string \<Rightarrow> exn + int" where
  "int_of_isdigit s =
     (if \<forall>c\<in>set s. is_digit c then Inr (int (nat_of_digits s))
      else Inl (ValueError (''invalid literal for int() with base 10: '' @ s)))"

lemma py_isdigit_str_of_int: "0 \<le> i \<Longrightarrow> py_isdigit (str_of_int i)"
  by (auto simp: py_isdigit_def str_of_int_def dest: str_of_nat_digits)

lemma int_of_isdigit_str_of_int: "0 \<le> i \<Longrightarrow> int_of_isdigit (str_of_int i) = Inr i"
  by (auto simp: int_of_isdigit_def str_of_int_def dest: str_of_nat_digits)

section \<open>repr\<close>

definition hex_digit :: "nat \<Rightarrow> char" where
  "hex_digit n = (if n < 10 then char_of (48 + n) else char_of (87 + n))"

definition hex2 :: "nat \<Rightarrow> string" where "hex2 n = [hex_digit (n div 16), hex_digit (n mod 16)]"

text \<open>
  \<^verbatim>\<open>repr(s)\<close> of a str: single quotes unless the text holds a single and no double quote;
  backslash escapes for the quote, the backslash, newline, tab and carriage return, and
  hexadecimal escapes for the other characters that are not printable.
\<close>

definition repr_char :: "char \<Rightarrow> char \<Rightarrow> string" where
  "repr_char q c =
     (if c = q \<or> c = backslash then [backslash, c]
      else if c = newline then [backslash, CHR ''n'']
      else if code c = 13 then [backslash, CHR ''r'']
      else if code c = 9 then [backslash, CHR ''t'']
      else if code c < 32 \<or> (127 \<le> code c \<and> code c < 161) \<or> code c = 173
           then [backslash, CHR ''x''] @ hex2 (code c)
      else [c])"

definition py_repr :: "string \<Rightarrow> string" where
  "py_repr s =
     (let q = (if squote \<in> set s \<and> dquote \<notin> set s then dquote else squote)
      in [q] @ concat (map (repr_char q) s) @ [q])"

text \<open>\<^verbatim>\<open>repr\<close> of a list of str, as it appears in an f-string.\<close>

definition repr_str_list :: "string list \<Rightarrow> string" where
  "repr_str_list xs = ''['' @ join '', '' (map py_repr xs) @ '']''"

end
