(* ===== verification/PyTime.thy ===== *)
theory PyTime
  imports PyText
begin

text \<open>
  UTC datetimes. A timezone-aware datetime in UTC is the number of microseconds since
  1970-01-01T00:00:00Z, so the comparisons of the sources are comparisons of integers and
  \<^verbatim>\<open>timedelta(seconds=n)\<close> is \<open>seconds n\<close>. \<open>iso_date\<close> is
  \<^verbatim>\<open>strftime("%Y-%m-%d")\<close> and \<open>isoformat\<close> is \<^verbatim>\<open>datetime.isoformat()\<close>.
\<close>

type_synonym datetime = int

definition us_per_s :: int where "us_per_s = 1000000"
definition us_per_day :: int where "us_per_day = 86400 * us_per_s"

definition seconds :: "int \<Rightarrow> int" where "seconds n = n * us_per_s"

lemmas time_defs = us_per_s_def us_per_day_def seconds_def

text \<open>The day since the epoch, and the microsecond within the day.\<close>

definition day_of :: "datetime \<Rightarrow> int" where "day_of t = t div us_per_day"
definition us_of_day :: "datetime \<Rightarrow> int" where "us_of_day t = t mod us_per_day"

text \<open>
  The proleptic Gregorian calendar: year, month and day of a day number, counted in eras of
  400 years that start on the first of March.
\<close>

definition year_of_era :: "int \<Rightarrow> int" where
  "year_of_era doe = (doe - doe div 1460 + doe div 36524 - doe div 146096) div 365"

definition day_of_year :: "int \<Rightarrow> int \<Rightarrow> int" where
  "day_of_year doe yoe = doe - (365 * yoe + yoe div 4 - yoe div 100)"

definition month_day :: "int \<Rightarrow> int \<Rightarrow> int \<Rightarrow> int \<times> int \<times> int" where
  "month_day y doy mp =
     (if mp < 10 then (y, mp + 3, doy - (153 * mp + 2) div 5 + 1)
      else (y + 1, mp - 9, doy - (153 * mp + 2) div 5 + 1))"

definition date_of_year :: "int \<Rightarrow> int \<Rightarrow> int \<times> int \<times> int" where
  "date_of_year y doy = month_day y doy ((5 * doy + 2) div 153)"

definition date_of_era :: "int \<Rightarrow> int \<Rightarrow> int \<Rightarrow> int \<times> int \<times> int" where
  "date_of_era era doe yoe = date_of_year (400 * era + yoe) (day_of_year doe yoe)"

definition civil_of_day :: "int \<Rightarrow> int \<times> int \<times> int" where
  "civil_of_day n =
     date_of_era ((n + 719468) div 146097) ((n + 719468) mod 146097)
       (year_of_era ((n + 719468) mod 146097))"

definition zpad :: "nat \<Rightarrow> int \<Rightarrow> string" where
  "zpad w i = replicate (w - length (str_of_int i)) (CHR ''0'') @ str_of_int i"

definition iso_date :: "datetime \<Rightarrow> string" where
  "iso_date t =
     (case civil_of_day (day_of t) of
        (y, m, d) \<Rightarrow> zpad 4 y @ ''-'' @ zpad 2 m @ ''-'' @ zpad 2 d)"

definition iso_time :: "int \<Rightarrow> int \<Rightarrow> string" where
  "iso_time s f =
     zpad 2 (s div 3600) @ '':'' @ zpad 2 (s div 60 mod 60) @ '':'' @ zpad 2 (s mod 60)
       @ (if f = 0 then [] else ''.'' @ zpad 6 f)"

definition isoformat :: "datetime \<Rightarrow> string" where
  "isoformat t =
     iso_date t @ ''T'' @ iso_time (us_of_day t div us_per_s) (us_of_day t mod us_per_s) @ ''+00:00''"

lemma day_split: "t = day_of t * us_per_day + us_of_day t"
  by (simp add: day_of_def us_of_day_def)

lemma us_of_day_bounds: "0 \<le> us_of_day t" "us_of_day t < us_per_day"
  by (simp_all add: us_of_day_def time_defs)

lemma iso_date_same_day: "day_of s = day_of t \<Longrightarrow> iso_date s = iso_date t"
  by (simp add: iso_date_def)

lemma isoformat_date_prefix: "prefix (iso_date t) (isoformat t)"
  by (simp add: isoformat_def)

text \<open>What evaluates a timestamp by simplification.\<close>

lemma replicate_few:
  "replicate 2 x = [x, x]" "replicate 3 x = [x, x, x]" "replicate 4 x = [x, x, x, x]"
  "replicate 5 x = [x, x, x, x, x]"
  by (simp_all add: numeral_eq_Suc)

lemmas time_eval = time_defs day_of_def us_of_day_def civil_of_day_def date_of_era_def
  date_of_year_def month_day_def day_of_year_def year_of_era_def iso_date_def iso_time_def
  isoformat_def zpad_def str_eval replicate_few

lemma iso_date_epoch: "iso_date 0 = ''1970-01-01''"
  by (simp add: time_eval)

lemma isoformat_example: "isoformat 1779753600500000 = ''2026-05-26T00:00:00.500000+00:00''"
  by (simp add: time_eval)

end
