(* ===== verification/PyJson.thy ===== *)
theory PyJson
  imports PyText "HOL-Library.AList"
begin

text \<open>
  JSON values, \<^verbatim>\<open>json.dumps\<close> with its default separators and ASCII escapes, and
  \<^verbatim>\<open>json.loads\<close> as the scanner of the standard library reads a text: white space,
  strict strings, the number grammar, the three literals and the three float constants, objects
  built as a dict (a repeated key keeps its first position and takes its last value).

  A dict is an association list in insertion order. A float is kept as the literal it was read
  from, since the sources never compute with one. An escape that names a code point above 255
  is refused, because the texts of the model cannot hold it.
\<close>

datatype json =
    JNull
  | JBool bool
  | JInt int
  | JFloat string
  | JStr string
  | JList "json list"
  | JObj "(string \<times> json) list"

type_synonym dict = "(string \<times> json) list"

section \<open>Python views of a value\<close>

text \<open>\<^verbatim>\<open>d.get(k, default)\<close> and \<^verbatim>\<open>k in d\<close>.\<close>

definition get_or :: "dict \<Rightarrow> string \<Rightarrow> json \<Rightarrow> json" where
  "get_or d k dflt = (case map_of d k of None \<Rightarrow> dflt | Some v \<Rightarrow> v)"

definition has_key :: "dict \<Rightarrow> string \<Rightarrow> bool" where
  "has_key d k \<longleftrightarrow> map_of d k \<noteq> None"

fun type_name :: "json \<Rightarrow> string" where
  "type_name JNull = ''NoneType''"
| "type_name (JBool b) = ''bool''"
| "type_name (JInt i) = ''int''"
| "type_name (JFloat l) = ''float''"
| "type_name (JStr s) = ''str''"
| "type_name (JList xs) = ''list''"
| "type_name (JObj kvs) = ''dict''"

text \<open>\<^verbatim>\<open>bool(v)\<close>. A float literal is false when its mantissa has no other digit than zero.\<close>

fun truthy :: "json \<Rightarrow> bool" where
  "truthy JNull \<longleftrightarrow> False"
| "truthy (JBool b) \<longleftrightarrow> b"
| "truthy (JInt i) \<longleftrightarrow> i \<noteq> 0"
| "truthy (JFloat l) \<longleftrightarrow>
     (\<exists>c\<in>set (takeWhile (\<lambda>c. c \<noteq> CHR ''e'' \<and> c \<noteq> CHR ''E'') l).
        c \<noteq> CHR ''0'' \<and> c \<noteq> CHR ''.'' \<and> c \<noteq> CHR ''-'')"
| "truthy (JStr s) \<longleftrightarrow> s \<noteq> []"
| "truthy (JList xs) \<longleftrightarrow> xs \<noteq> []"
| "truthy (JObj kvs) \<longleftrightarrow> kvs \<noteq> []"

text \<open>\<^verbatim>\<open>repr(v)\<close> and \<^verbatim>\<open>str(v)\<close>, which an f-string uses.\<close>

fun repr_json :: "json \<Rightarrow> string"
  and repr_items :: "json list \<Rightarrow> string list"
  and repr_entries :: "(string \<times> json) list \<Rightarrow> string list" where
  "repr_json JNull = ''None''"
| "repr_json (JBool b) = (if b then ''True'' else ''False'')"
| "repr_json (JInt i) = str_of_int i"
| "repr_json (JFloat l) = l"
| "repr_json (JStr s) = py_repr s"
| "repr_json (JList xs) = ''['' @ join '', '' (repr_items xs) @ '']''"
| "repr_json (JObj kvs) = ''{'' @ join '', '' (repr_entries kvs) @ ''}''"
| "repr_items [] = []"
| "repr_items (x # xs) = repr_json x # repr_items xs"
| "repr_entries [] = []"
| "repr_entries ((k, v) # kvs) = (py_repr k @ '': '' @ repr_json v) # repr_entries kvs"

fun py_str :: "json \<Rightarrow> string" where
  "py_str (JStr s) = s"
| "py_str v = repr_json v"

text \<open>An optional value: \<^verbatim>\<open>None\<close> is the null of JSON.\<close>

definition json_of_option :: "('a \<Rightarrow> json) \<Rightarrow> 'a option \<Rightarrow> json" where
  "json_of_option f x = (case x of None \<Rightarrow> JNull | Some a \<Rightarrow> f a)"

section \<open>dumps\<close>

definition esc_char :: "char \<Rightarrow> string" where
  "esc_char c =
     (if c = dquote \<or> c = backslash then [backslash, c]
      else if code c = 10 then [backslash, CHR ''n'']
      else if code c = 13 then [backslash, CHR ''r'']
      else if code c = 9 then [backslash, CHR ''t'']
      else if code c = 12 then [backslash, CHR ''f'']
      else if code c = 8 then [backslash, CHR ''b'']
      else if code c < 32 \<or> 126 < code c then [backslash, CHR ''u'', CHR ''0'', CHR ''0''] @ hex2 (code c)
      else [c])"

definition dumps_str :: "string \<Rightarrow> string" where
  "dumps_str s = dquote # concat (map esc_char s) @ [dquote]"

definition float_text :: "string \<Rightarrow> string" where
  "float_text l =
     (if l = ''nan'' then ''NaN'' else if l = ''inf'' then ''Infinity''
      else if l = ''-inf'' then ''-Infinity'' else l)"

fun dumps :: "json \<Rightarrow> string"
  and dumps_items :: "json list \<Rightarrow> string"
  and dumps_entries :: "(string \<times> json) list \<Rightarrow> string" where
  "dumps JNull = ''null''"
| "dumps (JBool b) = (if b then ''true'' else ''false'')"
| "dumps (JInt i) = str_of_int i"
| "dumps (JFloat l) = float_text l"
| "dumps (JStr s) = dumps_str s"
| "dumps (JList xs) = ''['' @ dumps_items xs @ '']''"
| "dumps (JObj kvs) = ''{'' @ dumps_entries kvs @ ''}''"
| "dumps_items [] = []"
| "dumps_items [x] = dumps x"
| "dumps_items (x # y # ys) = dumps x @ '', '' @ dumps_items (y # ys)"
| "dumps_entries [] = []"
| "dumps_entries [(k, v)] = dumps_str k @ '': '' @ dumps v"
| "dumps_entries ((k, v) # e # es) = dumps_str k @ '': '' @ dumps v @ '', '' @ dumps_entries (e # es)"

section \<open>loads\<close>

definition is_ws :: "char \<Rightarrow> bool" where "is_ws c \<longleftrightarrow> code c \<in> {9, 10, 13, 32}"

definition skip_ws :: "string \<Rightarrow> string" where "skip_ws s = dropWhile is_ws s"

definition hex_val :: "char \<Rightarrow> nat option" where
  "hex_val c =
     (if 48 \<le> code c \<and> code c \<le> 57 then Some (code c - 48)
      else if 97 \<le> code c \<and> code c \<le> 102 then Some (code c - 87)
      else if 65 \<le> code c \<and> code c \<le> 70 then Some (code c - 55)
      else None)"

text \<open>The four hexadecimal digits after \<^verbatim>\<open>\u\<close>, when they name a code point below 256.\<close>

definition hex4_char :: "char \<Rightarrow> char \<Rightarrow> char \<Rightarrow> char \<Rightarrow> char option" where
  "hex4_char a b c d =
     (case (hex_val a, hex_val b, hex_val c, hex_val d) of
        (Some 0, Some 0, Some m, Some n) \<Rightarrow> Some (char_of (16 * m + n))
      | _ \<Rightarrow> None)"

definition unescape :: "char \<Rightarrow> char option" where
  "unescape c =
     (if c = dquote \<or> c = backslash \<or> c = CHR ''/'' then Some c
      else if c = CHR ''b'' then Some (CHR 0x08)
      else if c = CHR ''f'' then Some (CHR 0x0C)
      else if c = CHR ''n'' then Some (CHR 0x0A)
      else if c = CHR ''r'' then Some (CHR 0x0D)
      else if c = CHR ''t'' then Some (CHR 0x09)
      else None)"

text \<open>The characters of a string literal up to its closing quote, and what follows it.\<close>

fun scan_str :: "string \<Rightarrow> (string \<times> string) option" where
  "scan_str [] = None"
| "scan_str (c # cs) =
     (if c = dquote then Some ([], cs)
      else if c = backslash then
        (case cs of
           [] \<Rightarrow> None
         | e # es \<Rightarrow>
             if e = CHR ''u'' then
               (case es of
                  h1 # h2 # h3 # h4 # r \<Rightarrow>
                    (case hex4_char h1 h2 h3 h4 of
                       None \<Rightarrow> None
                     | Some x \<Rightarrow> map_option (apfst ((#) x)) (scan_str r))
                | _ \<Rightarrow> None)
             else
               (case unescape e of
                  None \<Rightarrow> None
                | Some x \<Rightarrow> map_option (apfst ((#) x)) (scan_str es)))
      else if code c < 32 then None
      else map_option (apfst ((#) c)) (scan_str cs))"

text \<open>The fraction and the exponent of a number, and what follows them.\<close>

definition scan_frac :: "string \<Rightarrow> string \<times> string" where
  "scan_frac s =
     (case s of
        p # d # ds \<Rightarrow>
          if p = CHR ''.'' \<and> is_digit d
          then (p # takeWhile is_digit (d # ds), dropWhile is_digit (d # ds)) else ([], s)
      | _ \<Rightarrow> ([], s))"

definition scan_exp :: "string \<Rightarrow> string \<times> string" where
  "scan_exp s =
     (case s of
        [] \<Rightarrow> ([], s)
      | e # r \<Rightarrow>
          if e = CHR ''e'' \<or> e = CHR ''E'' then
            (let sg = (case r of c # _ \<Rightarrow> if c = CHR ''+'' \<or> c = CHR ''-'' then [c] else [] | [] \<Rightarrow> []);
                 r' = drop (length sg) r;
                 ds = takeWhile is_digit r'
             in if ds = [] then ([], s) else (e # sg @ ds, dropWhile is_digit r'))
          else ([], s))"

definition finish_number :: "string \<Rightarrow> string \<Rightarrow> string \<Rightarrow> json \<times> string" where
  "finish_number sign ds r =
     (case scan_frac r of (fr, r1) \<Rightarrow>
       (case scan_exp r1 of (ex, r2) \<Rightarrow>
         (if fr = [] \<and> ex = []
          then (JInt (if sign = [] then int (nat_of_digits ds) else - int (nat_of_digits ds)), r2)
          else (JFloat (sign @ ds @ fr @ ex), r2))))"

definition scan_unsigned :: "string \<Rightarrow> string \<Rightarrow> (json \<times> string) option" where
  "scan_unsigned sign s =
     (case s of
        [] \<Rightarrow> None
      | c # cs \<Rightarrow>
          if c = CHR ''0'' then Some (finish_number sign [c] cs)
          else if is_digit c then Some (finish_number sign (c # takeWhile is_digit cs) (dropWhile is_digit cs))
          else None)"

definition scan_number :: "string \<Rightarrow> (json \<times> string) option" where
  "scan_number s =
     (case s of
        [] \<Rightarrow> None
      | c # cs \<Rightarrow> if c = CHR ''-'' then scan_unsigned [c] cs else scan_unsigned [] s)"

definition scan_atom :: "string \<Rightarrow> (json \<times> string) option" where
  "scan_atom s =
     (if prefix ''null'' s then Some (JNull, drop 4 s)
      else if prefix ''true'' s then Some (JBool True, drop 4 s)
      else if prefix ''false'' s then Some (JBool False, drop 5 s)
      else if prefix ''NaN'' s then Some (JFloat ''nan'', drop 3 s)
      else if prefix ''Infinity'' s then Some (JFloat ''inf'', drop 8 s)
      else if prefix ''-Infinity'' s then Some (JFloat ''-inf'', drop 9 s)
      else scan_number s)"

text \<open>\<^verbatim>\<open>dict(pairs)\<close>.\<close>

definition dict_of_pairs :: "(string \<times> json) list \<Rightarrow> dict" where
  "dict_of_pairs kvs = foldl (\<lambda>d (k, v). AList.update k v d) [] kvs"

text \<open>
  The recursive scanner. Its first argument bounds the depth of the recursion; \<open>loads\<close> gives
  it twice the length of the text and two more, which is always enough (\<open>scan_fuel\<close> below).
\<close>

fun scan_value :: "nat \<Rightarrow> string \<Rightarrow> (json \<times> string) option"
  and scan_items :: "nat \<Rightarrow> string \<Rightarrow> (json list \<times> string) option"
  and scan_entries :: "nat \<Rightarrow> string \<Rightarrow> ((string \<times> json) list \<times> string) option" where
  "scan_value 0 s = None"
| "scan_value (Suc n) s =
     (case s of
        [] \<Rightarrow> None
      | c # cs \<Rightarrow>
          if c = dquote then map_option (apfst JStr) (scan_str cs)
          else if c = CHR ''{'' then
            (case skip_ws cs of
               [] \<Rightarrow> None
             | d # ds \<Rightarrow>
                 if d = CHR ''}'' then Some (JObj [], ds)
                 else map_option (apfst (\<lambda>kvs. JObj (dict_of_pairs kvs))) (scan_entries n (d # ds)))
          else if c = CHR ''['' then
            (case skip_ws cs of
               [] \<Rightarrow> None
             | d # ds \<Rightarrow>
                 if d = CHR '']'' then Some (JList [], ds)
                 else map_option (apfst JList) (scan_items n (d # ds)))
          else scan_atom s)"
| "scan_items 0 s = None"
| "scan_items (Suc n) s =
     (case scan_value n s of
        None \<Rightarrow> None
      | Some (v, r) \<Rightarrow>
          (case skip_ws r of
             [] \<Rightarrow> None
           | d # ds \<Rightarrow>
               if d = CHR '']'' then Some ([v], ds)
               else if d = CHR '','' then map_option (apfst ((#) v)) (scan_items n (skip_ws ds))
               else None))"
| "scan_entries 0 s = None"
| "scan_entries (Suc n) s =
     (case s of
        [] \<Rightarrow> None
      | c # cs \<Rightarrow>
          if c \<noteq> dquote then None
          else
            (case scan_str cs of
               None \<Rightarrow> None
             | Some (k, r) \<Rightarrow>
                 (case skip_ws r of
                    [] \<Rightarrow> None
                  | d # ds \<Rightarrow>
                      if d \<noteq> CHR '':'' then None
                      else
                        (case scan_value n (skip_ws ds) of
                           None \<Rightarrow> None
                         | Some (v, r') \<Rightarrow>
                             (case skip_ws r' of
                                [] \<Rightarrow> None
                              | e # es \<Rightarrow>
                                  if e = CHR ''}'' then Some ([(k, v)], es)
                                  else if e = CHR '',''
                                  then map_option (apfst ((#) (k, v))) (scan_entries n (skip_ws es))
                                  else None)))))"

definition scan_fuel :: "string \<Rightarrow> nat" where "scan_fuel s = 2 * length s + 2"

definition loads :: "string \<Rightarrow> json option" where
  "loads s =
     (case scan_value (scan_fuel s) (skip_ws s) of
        None \<Rightarrow> None
      | Some (v, r) \<Rightarrow> if skip_ws r = [] then Some v else None)"

text \<open>\<^verbatim>\<open>json.loads\<close>, where it raises.\<close>

definition loads_or_raise :: "string \<Rightarrow> exn + json" where
  "loads_or_raise s =
     (case loads s of None \<Rightarrow> Inl (JSONDecodeError ''invalid JSON'') | Some v \<Rightarrow> Inr v)"

section \<open>The scanner consumes its input and its fuel is enough\<close>

lemma length_skip_ws [simp]: "length (skip_ws s) \<le> length s"
  by (simp add: skip_ws_def length_dropWhile_le)

lemma skip_ws_idem [simp]: "skip_ws (skip_ws s) = skip_ws s"
  by (simp add: skip_ws_def)

lemma skip_ws_Cons_le: "skip_ws s = c # cs \<Longrightarrow> length cs < length s"
  using length_skip_ws [of s] by simp

lemma scan_str_less: "scan_str s = Some (t, r) \<Longrightarrow> length r < length s"
proof (induction s arbitrary: t r rule: scan_str.induct)
  case 1
  then show ?case by simp
next
  case (2 c cs)
  then show ?case
    by (fastforce split: if_splits list.splits option.splits simp: apfst_def map_prod_def)
qed

lemma length_dropWhile_digits: "length (dropWhile is_digit s) \<le> length s"
  by (rule length_dropWhile_le)

lemma scan_frac_le: "scan_frac s = (a, r) \<Longrightarrow> length r \<le> length s"
  using length_dropWhile_digits
  by (auto simp: scan_frac_def split: list.splits if_splits intro: le_SucI)

lemma scan_exp_le: "scan_exp s = (a, r) \<Longrightarrow> length r \<le> length s"
  by (auto simp: scan_exp_def Let_def split: list.splits if_splits
      intro: le_SucI order_trans [OF length_dropWhile_digits])

lemma finish_number_le: "finish_number sg ds s = (v, r) \<Longrightarrow> length r \<le> length s"
  by (auto simp: finish_number_def split: prod.splits if_splits
      dest!: scan_frac_le scan_exp_le)

lemma scan_unsigned_less: "scan_unsigned sg s = Some (v, r) \<Longrightarrow> length r < length s"
  by (auto simp: scan_unsigned_def less_Suc_eq_le split: list.splits if_splits
      dest!: finish_number_le intro: order_trans [OF _ length_dropWhile_digits])

lemma scan_number_less: "scan_number s = Some (v, r) \<Longrightarrow> length r < length s"
  by (auto simp: scan_number_def split: list.splits if_splits dest!: scan_unsigned_less)

lemma scan_atom_less: "scan_atom s = Some (v, r) \<Longrightarrow> length r < length s"
  by (auto simp: scan_atom_def split: if_splits dest!: scan_number_less prefix_length_le)

lemma scan_less:
  "scan_value n s = Some (v, r) \<Longrightarrow> length r < length s"
  "scan_items n s = Some (vs, r) \<Longrightarrow> length r < length s"
  "scan_entries n s = Some (kvs, r) \<Longrightarrow> length r < length s"
proof (induction n arbitrary: s v vs kvs r)
  case (Suc n)
  {
    case 1
    then show ?case using Suc.IH(2,3) length_skip_ws
      by (force split: list.splits if_splits simp: apfst_def map_prod_def
          dest: scan_str_less scan_atom_less skip_ws_Cons_le)
  next
    case 2
    then obtain x r1 where x: "scan_value n s = Some (x, r1)"
      by (auto split: option.splits)
    with 2 obtain d ds where d: "skip_ws r1 = d # ds"
      by (auto split: list.splits)
    have "length ds < length s"
      using Suc.IH(1) [OF x] skip_ws_Cons_le [OF d] by linarith
    moreover from 2 have "r = ds \<or> (\<exists>vs'. scan_items n (skip_ws ds) = Some (vs', r))"
      by (auto simp: x d apfst_def map_prod_def split: if_splits)
    ultimately show ?case
      using Suc.IH(2) [of "skip_ws ds" _ r] length_skip_ws [of ds] by (meson le_less_trans less_le_trans less_imp_le)
  next
    case 3
    then obtain q qs where s: "s = q # qs"
      by (auto split: list.splits)
    with 3 obtain k r1 where k: "scan_str qs = Some (k, r1)"
      by (auto split: option.splits if_splits)
    with 3 s obtain c cs where c: "skip_ws r1 = c # cs"
      by (auto split: list.splits if_splits)
    with 3 s k obtain x r2 where x: "scan_value n (skip_ws cs) = Some (x, r2)"
      by (auto split: option.splits if_splits)
    with 3 s k c obtain d ds where d: "skip_ws r2 = d # ds"
      by (auto split: list.splits if_splits)
    have "length ds < length s"
      using scan_str_less [OF k] skip_ws_Cons_le [OF c] Suc.IH(1) [OF x] skip_ws_Cons_le [OF d]
        length_skip_ws [of cs] unfolding s length_Cons by linarith
    moreover from 3 have "r = ds \<or> (\<exists>kvs'. scan_entries n (skip_ws ds) = Some (kvs', r))"
      by (auto simp: s k c x d apfst_def map_prod_def split: if_splits)
    ultimately show ?case
      using Suc.IH(3) [of "skip_ws ds" _ r] length_skip_ws [of ds] by (meson le_less_trans less_le_trans less_imp_le)
  }
qed simp_all

text \<open>Beyond a bound on the length of the text, one more unit of fuel changes nothing.\<close>

lemma scan_fuel_step:
  "2 * length s + 1 \<le> n \<Longrightarrow> scan_value n s = scan_value (Suc n) s"
  "2 * length s + 2 \<le> n \<Longrightarrow> scan_items n s = scan_items (Suc n) s"
  "2 * length s + 2 \<le> n \<Longrightarrow> scan_entries n s = scan_entries (Suc n) s"
proof (induction n arbitrary: s)
  case (Suc n)
  {
    case 1
    have inner: "scan_items n (d # ds) = scan_items (Suc n) (d # ds)
        \<and> scan_entries n (d # ds) = scan_entries (Suc n) (d # ds)"
      if "s = c # cs" "skip_ws cs = d # ds" for c cs d ds
    proof -
      from that length_skip_ws [of cs] have "length (d # ds) < length s" by simp
      with 1 have "2 * length (d # ds) + 2 \<le> n" by linarith
      with Suc.IH(2,3) show ?thesis by blast
    qed
    then show ?case
      by (simp only: scan_value.simps split: list.splits) (auto simp del: scan_items.simps scan_entries.simps)
  next
    case 2
    then have v: "scan_value n s = scan_value (Suc n) s" by (intro Suc.IH(1)) simp
    have rest: "scan_items n (skip_ws ds) = scan_items (Suc n) (skip_ws ds)"
      if "scan_value (Suc n) s = Some (x, r)" "skip_ws r = d # ds" for x r d ds
    proof -
      have "length (skip_ws ds) < length s"
        using scan_less(1) [OF that(1)] skip_ws_Cons_le [OF that(2)] length_skip_ws [of ds] by linarith
      with 2 show ?thesis by (intro Suc.IH(2)) linarith
    qed
    show ?case
      unfolding scan_items.simps(2) [of n s] scan_items.simps(2) [of "Suc n" s] v
      by (auto split: option.splits list.splits simp del: scan_value.simps scan_items.simps
          simp: rest)
  next
    case 3
    have rest: "scan_value n (skip_ws ds) = scan_value (Suc n) (skip_ws ds)
        \<and> (\<forall>v r' e es. scan_value (Suc n) (skip_ws ds) = Some (v, r') \<longrightarrow> skip_ws r' = e # es \<longrightarrow>
             scan_entries n (skip_ws es) = scan_entries (Suc n) (skip_ws es))"
      if "s = c # cs" "scan_str cs = Some (k, r)" "skip_ws r = d # ds" for c cs k r d ds
    proof -
      have len: "length (skip_ws ds) < length s"
        using scan_str_less [OF that(2)] skip_ws_Cons_le [OF that(3)] length_skip_ws [of ds]
        unfolding that(1) length_Cons by linarith
      have "scan_entries n (skip_ws es) = scan_entries (Suc n) (skip_ws es)"
        if "scan_value (Suc n) (skip_ws ds) = Some (v, r')" "skip_ws r' = e # es" for v r' e es
      proof -
        have "length (skip_ws es) < length s"
          using scan_less(1) [OF that(1)] skip_ws_Cons_le [OF that(2)] length_skip_ws [of es] len
          by linarith
        with 3 show ?thesis by (intro Suc.IH(3)) linarith
      qed
      moreover have "scan_value n (skip_ws ds) = scan_value (Suc n) (skip_ws ds)"
        using len 3 by (intro Suc.IH(1)) linarith
      ultimately show ?thesis by blast
    qed
    show ?case
      unfolding scan_entries.simps(2) [of n s] scan_entries.simps(2) [of "Suc n" s]
      by (auto split: option.splits list.splits simp del: scan_value.simps scan_entries.simps
          simp: rest)
  }
qed simp_all

lemma scan_value_enough:
  assumes "2 * length s + 1 \<le> m" and "m \<le> n"
  shows "scan_value n s = scan_value m s"
  using assms(2)
proof (induction n rule: dec_induct)
  case base
  show ?case ..
next
  case (step n)
  with assms(1) scan_fuel_step(1) [of s n] show ?case by simp
qed

section \<open>Round trip\<close>

text \<open>
  The values whose text reads back as the same value: no float, and no repeated key in an
  object, which a Python dict cannot hold anyway.
\<close>

fun plain :: "json \<Rightarrow> bool" where
  "plain (JFloat l) \<longleftrightarrow> False"
| "plain (JList xs) \<longleftrightarrow> (\<forall>x\<in>set xs. plain x)"
| "plain (JObj kvs) \<longleftrightarrow> distinct (map fst kvs) \<and> (\<forall>e\<in>set kvs. plain (snd e))"
| "plain _ \<longleftrightarrow> True"

lemma code_hex_digit: "n < 16 \<Longrightarrow> code (hex_digit n) = (if n < 10 then 48 + n else 87 + n)"
  by (simp add: hex_digit_def)

lemma hex_val_hex_digit: "n < 16 \<Longrightarrow> hex_val (hex_digit n) = Some n"
  by (auto simp: hex_val_def code_hex_digit)

lemma hex_val_0: "hex_val (CHR ''0'') = Some 0"
  by code_simp

lemma code_less_256: "code c < 256"
  using of_char_of [of "code c :: nat"] of_char_mod_256 [of c] by (metis mod_less_divisor zero_less_numeral)

lemma hex4_char_hex2:
  "hex4_char (CHR ''0'') (CHR ''0'') (hex_digit (code c div 16)) (hex_digit (code c mod 16)) = Some c"
proof -
  have "code c div 16 < 16" using code_less_256 [of c] by (simp add: less_mult_imp_div_less)
  moreover have "code c mod 16 < 16" by simp
  ultimately show ?thesis
    by (simp add: hex4_char_def hex_val_hex_digit hex_val_0)
qed

lemma code_eq: "code c = k \<Longrightarrow> c = char_of k"
  by (metis char_of_char)

lemma scan_str_esc: "scan_str (esc_char c @ t) = map_option (apfst ((#) c)) (scan_str t)"
proof -
  have eqs: "char_of (10::nat) = CHR 0x0A" "char_of (13::nat) = CHR 0x0D" "char_of (9::nat) = CHR 0x09"
      "char_of (12::nat) = CHR 0x0C" "char_of (8::nat) = CHR 0x08"
    by code_simp+
  consider "c = dquote" | "c = backslash" | "c \<noteq> dquote" "c \<noteq> backslash" by blast
  then show ?thesis
  proof cases
    case 3
    then show ?thesis
      by (auto simp: esc_char_def char_consts unescape_def hex2_def hex4_char_hex2 eqs dest!: code_eq)
  qed (simp_all add: esc_char_def char_consts unescape_def)
qed

lemma scan_str_dumps_str: "scan_str (concat (map esc_char s) @ dquote # r) = Some (s, r)"
  by (induction s) (simp_all add: scan_str_esc)

text \<open>What may follow a number: not a digit, a point or an exponent.\<close>

definition ends_number :: "string \<Rightarrow> bool" where
  "ends_number r \<longleftrightarrow> (case r of [] \<Rightarrow> True
     | c # _ \<Rightarrow> \<not> is_digit c \<and> c \<noteq> CHR ''.'' \<and> c \<noteq> CHR ''e'' \<and> c \<noteq> CHR ''E'')"

lemma digits_then_end:
  assumes "\<forall>c\<in>set ds. is_digit c" and "ends_number r"
  shows "takeWhile is_digit (ds @ r) = ds" and "dropWhile is_digit (ds @ r) = r"
proof -
  have "takeWhile is_digit r = []" "dropWhile is_digit r = r"
    using assms(2) by (auto simp: ends_number_def split: list.splits)
  with assms(1) show "takeWhile is_digit (ds @ r) = ds" "dropWhile is_digit (ds @ r) = r"
    by (simp_all add: takeWhile_append2 dropWhile_append2)
qed

lemma finish_number_end:
  "ends_number r \<Longrightarrow> finish_number sg ds r =
     (JInt (if sg = [] then int (nat_of_digits ds) else - int (nat_of_digits ds)), r)"
  by (auto simp: finish_number_def scan_frac_def scan_exp_def ends_number_def
      split: list.splits)

lemma scan_unsigned_str:
  assumes "ends_number r"
  shows "scan_unsigned sg (str_of_nat n @ r) =
    Some (JInt (if sg = [] then int n else - int n), r)"
proof -
  obtain c cs where c: "str_of_nat n = c # cs" by (cases "str_of_nat n") auto
  have ds: "\<forall>x\<in>set (c # cs). is_digit x" using str_of_nat_digits [of _ n] c by auto
  have val: "nat_of_digits (c # cs) = n" using c by (metis nat_of_digits_str)
  show ?thesis
  proof (cases "c = CHR ''0''")
    case True
    then have "n = 0" using hd_str_of_nat_zero [of n] c by simp
    with c have "cs = []" by (auto simp: str_of_nat_zero_iff str_of_nat.simps [of 0])
    with True c assms val show ?thesis
      by (simp add: scan_unsigned_def finish_number_end)
  next
    case False
    with c ds assms val digits_then_end [of cs r] show ?thesis
      by (simp add: scan_unsigned_def finish_number_end)
  qed
qed

lemma is_digit_minus [simp]: "\<not> is_digit (CHR ''-'')"
  by (simp add: is_digit_def)

lemma scan_number_str:
  assumes "ends_number r"
  shows "scan_number (str_of_int i @ r) = Some (JInt i, r)"
proof (cases "i < 0")
  case True
  then show ?thesis
    by (simp add: str_of_int_def scan_number_def scan_unsigned_str [OF assms])
next
  case False
  obtain c cs where c: "str_of_nat (nat i) = c # cs" by (cases "str_of_nat (nat i)") auto
  then have "is_digit c" using hd_str_of_nat_digit [of "nat i"] by simp
  then have "c \<noteq> CHR ''-''" by auto
  with False c scan_unsigned_str [OF assms, of "[]" "nat i"] show ?thesis
    by (simp add: str_of_int_def scan_number_def)
qed

text \<open>The first character of a value's text.\<close>

definition starts_value :: "char \<Rightarrow> bool" where
  "starts_value c \<longleftrightarrow>
     is_digit c \<or> c = CHR ''-'' \<or> c = CHR ''n'' \<or> c = CHR ''t'' \<or> c = CHR ''f'' \<or> c = dquote
     \<or> c = CHR ''['' \<or> c = CHR ''{''"

lemma starts_value_no_ws: "starts_value c \<Longrightarrow> \<not> is_ws c \<and> c \<noteq> CHR '']'' \<and> c \<noteq> CHR ''}''"
  by (auto simp: starts_value_def is_ws_def is_digit_def char_consts)

lemma dumps_starts: "plain v \<Longrightarrow> \<exists>c cs. dumps v = c # cs \<and> starts_value c"
proof (cases v)
  case (JInt i)
  obtain c cs where "str_of_nat (nat \<bar>i\<bar>) = c # cs" by (cases "str_of_nat (nat \<bar>i\<bar>)") auto
  moreover from this have "is_digit c" using hd_str_of_nat_digit [of "nat \<bar>i\<bar>"] by simp
  ultimately show ?thesis using JInt
    by (auto simp: str_of_int_def starts_value_def abs_if split: if_splits)
qed (auto simp: starts_value_def dumps_str_def)

lemma skip_ws_dumps [simp]: "plain v \<Longrightarrow> skip_ws (dumps v @ r) = dumps v @ r"
  using dumps_starts [of v] by (auto simp: skip_ws_def dest: starts_value_no_ws)

lemma ends_number_seps [simp]:
  "ends_number []" "ends_number (CHR '','' # r)" "ends_number (CHR '']'' # r)"
  "ends_number (CHR ''}'' # r)"
  by (simp_all add: ends_number_def is_digit_def)

lemma scan_atom_int:
  assumes "ends_number r"
  shows "scan_atom (str_of_int i @ r) = Some (JInt i, r)"
proof -
  obtain c cs where c: "str_of_nat (nat \<bar>i\<bar>) = c # cs" by (cases "str_of_nat (nat \<bar>i\<bar>)") auto
  then have d: "is_digit c" using hd_str_of_nat_digit [of "nat \<bar>i\<bar>"] by simp
  then have "c \<noteq> CHR ''n''" "c \<noteq> CHR ''t''" "c \<noteq> CHR ''f''" "c \<noteq> CHR ''N''" "c \<noteq> CHR ''I''" "c \<noteq> CHR ''-''"
    by (auto simp: is_digit_def)
  with c scan_number_str [OF assms, of i] show ?thesis
    by (cases "i < 0") (auto simp: scan_atom_def str_of_int_def)
qed

lemma scan_value_int:
  assumes "ends_number r"
  shows "scan_value (Suc 0) (str_of_int i @ r) = Some (JInt i, r)"
proof -
  obtain c cs where c: "str_of_int i @ r = c # cs" and "c = CHR ''-'' \<or> is_digit c"
    using hd_str_of_nat_digit [of "nat i"]
    by (cases "i < 0"; cases "str_of_nat (nat i)") (auto simp: str_of_int_def)
  then have "c \<noteq> dquote" "c \<noteq> CHR ''{''" "c \<noteq> CHR ''[''"
    by (auto simp: char_consts is_digit_def)
  with c scan_atom_int [OF assms, of i] show ?thesis by simp
qed

lemma dict_of_pairs_append:
  "distinct (map fst (d @ kvs)) \<Longrightarrow> foldl (\<lambda>d (k, v). AList.update k v d) d kvs = d @ kvs"
proof (induction kvs arbitrary: d)
  case Nil
  then show ?case by simp
next
  case (Cons e kvs)
  obtain k v where e: "e = (k, v)" by force
  with Cons.prems have "k \<notin> fst ` set d" by auto
  then have "AList.update k v d = d @ [(k, v)]"
    by (induction d) auto
  with Cons.IH [of "d @ [(k, v)]"] Cons.prems e show ?case by simp
qed

lemma dict_of_pairs_distinct: "distinct (map fst kvs) \<Longrightarrow> dict_of_pairs kvs = kvs"
  using dict_of_pairs_append [of "[]" kvs] by (simp add: dict_of_pairs_def)

lemma scan_mono_Suc:
  "scan_value n s = Some x \<Longrightarrow> scan_value (Suc n) s = Some x"
  "scan_items n s = Some y \<Longrightarrow> scan_items (Suc n) s = Some y"
  "scan_entries n s = Some z \<Longrightarrow> scan_entries (Suc n) s = Some z"
proof (induction n arbitrary: s x y z)
  case (Suc n)
  {
    case 1
    then show ?case unfolding scan_value.simps(2) [of n s] scan_value.simps(2) [of "Suc n" s]
      by (auto split: list.splits if_splits simp del: scan_items.simps scan_entries.simps
          simp: Suc.IH)
  next
    case 2
    then show ?case unfolding scan_items.simps(2) [of n s] scan_items.simps(2) [of "Suc n" s]
      by (auto split: option.splits list.splits if_splits simp del: scan_items.simps scan_value.simps
          simp: Suc.IH dest!: Suc.IH(1))
  next
    case 3
    then show ?case unfolding scan_entries.simps(2) [of n s] scan_entries.simps(2) [of "Suc n" s]
      by (auto split: option.splits list.splits if_splits simp del: scan_entries.simps scan_value.simps
          simp: Suc.IH dest!: Suc.IH(1))
  }
qed simp_all

lemma scan_mono:
  "scan_value n s = Some x \<Longrightarrow> n \<le> m \<Longrightarrow> scan_value m s = Some x"
  "scan_items n s = Some y \<Longrightarrow> n \<le> m \<Longrightarrow> scan_items m s = Some y"
  "scan_entries n s = Some z \<Longrightarrow> n \<le> m \<Longrightarrow> scan_entries m s = Some z"
proof -
  show "scan_value n s = Some x \<Longrightarrow> n \<le> m \<Longrightarrow> scan_value m s = Some x"
    by (induction m) (auto simp: le_Suc_eq simp del: scan_value.simps intro: scan_mono_Suc)
  show "scan_items n s = Some y \<Longrightarrow> n \<le> m \<Longrightarrow> scan_items m s = Some y"
    by (induction m) (auto simp: le_Suc_eq simp del: scan_items.simps intro: scan_mono_Suc)
  show "scan_entries n s = Some z \<Longrightarrow> n \<le> m \<Longrightarrow> scan_entries m s = Some z"
    by (induction m) (auto simp: le_Suc_eq simp del: scan_entries.simps intro: scan_mono_Suc)
qed

lemma scan_dumps:
  shows "plain v \<Longrightarrow> ends_number r \<Longrightarrow> \<exists>n. scan_value n (dumps v @ r) = Some (v, r)"
    and "\<forall>x\<in>set xs. plain x \<Longrightarrow> xs \<noteq> [] \<Longrightarrow>
           \<exists>n. scan_items n (dumps_items xs @ CHR '']'' # r) = Some (xs, r)"
    and "\<forall>e\<in>set kvs. plain (snd e) \<Longrightarrow> kvs \<noteq> [] \<Longrightarrow>
           \<exists>n. scan_entries n (dumps_entries kvs @ CHR ''}'' # r) = Some (kvs, r)"
proof (induction v and xs and kvs arbitrary: r and r and r
    rule: dumps_dumps_items_dumps_entries.induct)
  case (3 i)
  have "scan_value (Suc 0) (dumps (JInt i) @ r) = Some (JInt i, r)"
    using scan_value_int [OF 3(2)] by simp
  then show ?case by blast
next
  case (5 s)
  have "scan_value (Suc 0) (dumps (JStr s) @ r) = Some (JStr s, r)"
    by (simp add: dumps_str_def scan_str_dumps_str)
  then show ?case by blast
next
  case (6 xs)
  show ?case
  proof (cases "xs = []")
    case True
    have "scan_value (Suc 0) (dumps (JList xs) @ r) = Some (JList xs, r)"
      by (simp add: True char_consts skip_ws_def is_ws_def)
    then show ?thesis by blast
  next
    case False
    with 6 obtain n where n: "scan_items n (dumps_items xs @ CHR '']'' # r) = Some (xs, r)"
      by auto
    from False 6 obtain y ys where xs: "xs = y # ys" "plain y" by (cases xs) auto
    obtain c cs where c: "dumps_items xs @ CHR '']'' # r = c # cs" "starts_value c"
      using dumps_starts [OF xs(2)] xs(1) by (cases ys) auto
    then have "skip_ws (dumps_items xs @ CHR '']'' # r) = c # cs" "c \<noteq> CHR '']''"
      using starts_value_no_ws [of c] by (auto simp: skip_ws_def)
    with n c have "scan_value (Suc n) (dumps (JList xs) @ r) = Some (JList xs, r)"
      by (simp add: char_consts)
    then show ?thesis by blast
  qed
next
  case (7 kvs)
  show ?case
  proof (cases "kvs = []")
    case True
    have "scan_value (Suc 0) (dumps (JObj kvs) @ r) = Some (JObj kvs, r)"
      by (simp add: True char_consts skip_ws_def is_ws_def)
    then show ?thesis by blast
  next
    case False
    with 7 obtain n where n: "scan_entries n (dumps_entries kvs @ CHR ''}'' # r) = Some (kvs, r)"
      by auto
    from False obtain k v ys where kvs: "kvs = (k, v) # ys" by (cases kvs) auto
    obtain cs where c: "dumps_entries kvs @ CHR ''}'' # r = dquote # cs"
      by (cases ys) (auto simp: kvs dumps_str_def)
    then have "skip_ws (dumps_entries kvs @ CHR ''}'' # r) = dquote # cs"
      by (simp add: skip_ws_def is_ws_def char_consts)
    with n c 7 have "scan_value (Suc n) (dumps (JObj kvs) @ r) = Some (JObj kvs, r)"
      by (simp add: char_consts dict_of_pairs_distinct)
    then show ?thesis by blast
  qed
next
  case (9 x)
  then obtain n where "scan_value n (dumps x @ CHR '']'' # r) = Some (x, CHR '']'' # r)"
    by (metis ends_number_seps(3) list.set_intros(1))
  then have "scan_items (Suc n) (dumps_items [x] @ CHR '']'' # r) = Some ([x], r)"
    by (simp add: skip_ws_def is_ws_def)
  then show ?case by blast
next
  case (10 x y ys)
  let ?tl = "dumps_items (y # ys) @ CHR '']'' # r"
  from 10 obtain n where "scan_value n (dumps x @ '', '' @ ?tl) = Some (x, '', '' @ ?tl)"
    by (metis append_Cons ends_number_seps(2) list.set_intros(1))
  moreover from "10.IH"(2) [of r] "10.prems" obtain m where "scan_items m ?tl = Some (y # ys, r)"
    by auto
  moreover have "skip_ws ?tl = ?tl"
    using 10 dumps_starts [of y] starts_value_no_ws by (cases ys) (auto simp: skip_ws_def)
  moreover define k where "k = max n m"
  ultimately have v: "scan_value k (dumps x @ '', '' @ ?tl) = Some (x, '', '' @ ?tl)"
    and i: "scan_items k ?tl = Some (y # ys, r)" and w: "skip_ws ?tl = ?tl"
    by (auto intro: scan_mono)
  from w have "skip_ws (CHR '' '' # ?tl) = ?tl" by (simp add: skip_ws_def is_ws_def)
  with v i have "scan_items (Suc k) (dumps_items (x # y # ys) @ CHR '']'' # r) = Some (x # y # ys, r)"
    by (simp add: skip_ws_def [of "CHR '','' # t" for t] is_ws_def)
  then show ?case by blast
next
  case (12 k v)
  then obtain n where "scan_value n (dumps v @ CHR ''}'' # r) = Some (v, CHR ''}'' # r)"
    by (metis ends_number_seps(4) list.set_intros(1) snd_conv)
  moreover have "skip_ws (CHR '' '' # dumps v @ CHR ''}'' # r) = dumps v @ CHR ''}'' # r"
    using skip_ws_dumps [of v "CHR ''}'' # r"] 12 by (simp add: skip_ws_def is_ws_def)
  ultimately have "scan_entries (Suc n) (dumps_entries [(k, v)] @ CHR ''}'' # r) = Some ([(k, v)], r)"
    by (simp add: dumps_str_def scan_str_dumps_str skip_ws_def [of "CHR '':'' # t" for t]
        skip_ws_def [of "CHR ''}'' # t" for t] is_ws_def)
  then show ?case by blast
next
  case (13 k v e es)
  let ?tl = "dumps_entries (e # es) @ CHR ''}'' # r"
  from 13 obtain n where "scan_value n (dumps v @ '', '' @ ?tl) = Some (v, '', '' @ ?tl)"
    by (metis append_Cons ends_number_seps(2) list.set_intros(1) snd_conv)
  moreover from "13.IH"(2) [of r] "13.prems" obtain m where "scan_entries m ?tl = Some (e # es, r)"
    by auto
  moreover define j where "j = max n m"
  ultimately have v: "scan_value j (dumps v @ '', '' @ ?tl) = Some (v, '', '' @ ?tl)"
    and i: "scan_entries j ?tl = Some (e # es, r)"
    by (auto intro: scan_mono)
  have "skip_ws (CHR '' '' # ?tl) = ?tl"
    by (cases e; cases es) (auto simp: skip_ws_def is_ws_def dumps_str_def char_consts)
  moreover have "skip_ws (CHR '' '' # dumps v @ '', '' @ ?tl) = dumps v @ '', '' @ ?tl"
    using skip_ws_dumps [of v "'', '' @ ?tl"] 13 by (simp add: skip_ws_def is_ws_def)
  ultimately have "scan_entries (Suc j) (dumps_entries ((k, v) # e # es) @ CHR ''}'' # r) = Some ((k, v) # e # es, r)"
    using v i
    by (simp add: dumps_str_def scan_str_dumps_str skip_ws_def [of "CHR '':'' # t" for t]
        skip_ws_def [of "CHR '','' # t" for t] is_ws_def)
  then show ?case by blast
qed (auto intro: exI [of _ "Suc 0"] simp: scan_atom_def char_consts)

theorem loads_dumps: "plain v \<Longrightarrow> loads (dumps v) = Some v"
proof -
  assume v: "plain v"
  then obtain n where n: "scan_value n (dumps v) = Some (v, [])"
    using scan_dumps(1) [of v "[]"] by auto
  let ?m = "max n (scan_fuel (dumps v))"
  have "scan_value ?m (dumps v) = Some (v, [])" using n by (rule scan_mono) simp
  then have "scan_value (scan_fuel (dumps v)) (dumps v) = Some (v, [])"
    using scan_value_enough [of "dumps v" "scan_fuel (dumps v)" ?m] by (simp add: scan_fuel_def)
  with skip_ws_dumps [OF v, of "[]"] show ?thesis by (simp add: loads_def skip_ws_def)
qed

end
