(* ===== verification/Models.thy ===== *)
theory Models
  imports PyTime PyJson
begin

text \<open>
  \<^verbatim>\<open>core/memory/models.py\<close>: the rows of the four tables. A new row has the columns the
  constructor call of the source gives it and the column defaults for the others; its primary key
  and its \<^verbatim>\<open>created_at\<close> are assigned by the server (\<open>stamp_\<dots>\<close>) when it is inserted.
\<close>

record task =
  task_id :: int
  task_type :: string
  task_status :: string
  task_payload :: json
  task_result :: "json option"
  task_error :: "string option"
  task_workflow_id :: "int option"
  task_created_at :: datetime
  task_started_at :: "datetime option"
  task_completed_at :: "datetime option"

record workflow =
  wf_id :: int
  workflow_name :: string
  wf_task_chain :: "json list"
  wf_status :: string
  wf_logs :: "json list"
  wf_created_at :: datetime
  wf_completed_at :: "datetime option"

record memory_row =
  mem_id :: int
  mem_category :: string
  mem_content :: string
  mem_embedding_id :: "string option"
  mem_meta :: dict
  mem_created_at :: datetime

record approval =
  apr_id :: int
  apr_workflow_id :: "int option"
  apr_task_id :: "int option"
  apr_summary :: string
  apr_outputs :: dict
  apr_affected :: "string list"
  apr_risk_level :: string
  apr_decision :: "string option"
  apr_delivered_via :: "string option"
  apr_created_at :: datetime
  apr_decided_at :: "datetime option"

text \<open>The rows with the defaults of their columns.\<close>

definition blank_task :: "string \<Rightarrow> task" where
  "blank_task ty =
     \<lparr>task_id = 0, task_type = ty, task_status = ''pending'', task_payload = JObj [],
      task_result = None, task_error = None, task_workflow_id = None, task_created_at = 0,
      task_started_at = None, task_completed_at = None\<rparr>"

definition blank_workflow :: "string \<Rightarrow> workflow" where
  "blank_workflow nm =
     \<lparr>wf_id = 0, workflow_name = nm, wf_task_chain = [], wf_status = ''pending'', wf_logs = [],
      wf_created_at = 0, wf_completed_at = None\<rparr>"

definition blank_memory :: "string \<Rightarrow> string \<Rightarrow> memory_row" where
  "blank_memory cat txt =
     \<lparr>mem_id = 0, mem_category = cat, mem_content = txt, mem_embedding_id = None, mem_meta = [],
      mem_created_at = 0\<rparr>"

definition blank_approval :: "string \<Rightarrow> approval" where
  "blank_approval smry =
     \<lparr>apr_id = 0, apr_workflow_id = None, apr_task_id = None, apr_summary = smry, apr_outputs = [],
      apr_affected = [], apr_risk_level = ''low'', apr_decision = None, apr_delivered_via = None,
      apr_created_at = 0, apr_decided_at = None\<rparr>"

text \<open>The columns the server assigns.\<close>

definition stamp_task :: "int \<Rightarrow> datetime \<Rightarrow> task \<Rightarrow> task" where
  "stamp_task i t r = r\<lparr>task_id := i, task_created_at := t\<rparr>"

definition stamp_workflow :: "int \<Rightarrow> datetime \<Rightarrow> workflow \<Rightarrow> workflow" where
  "stamp_workflow i t r = r\<lparr>wf_id := i, wf_created_at := t\<rparr>"

definition stamp_memory :: "int \<Rightarrow> datetime \<Rightarrow> memory_row \<Rightarrow> memory_row" where
  "stamp_memory i t r = r\<lparr>mem_id := i, mem_created_at := t\<rparr>"

definition stamp_approval :: "int \<Rightarrow> datetime \<Rightarrow> approval \<Rightarrow> approval" where
  "stamp_approval i t r = r\<lparr>apr_id := i, apr_created_at := t\<rparr>"

lemmas blank_defs = blank_task_def blank_workflow_def blank_memory_def blank_approval_def
lemmas stamp_defs = stamp_task_def stamp_workflow_def stamp_memory_def stamp_approval_def

lemma stamp_key [simp]:
  "task_id (stamp_task i t r) = i" "wf_id (stamp_workflow i t w) = i"
  "mem_id (stamp_memory i t m) = i" "apr_id (stamp_approval i t a) = i"
  by (simp_all add: stamp_defs)

text \<open>The contents of the database: the rows of each table, in the order they were inserted.\<close>

record tables =
  tasks :: "task list"
  workflows :: "workflow list"
  memories :: "memory_row list"
  approvals :: "approval list"

text \<open>
  Primary keys are unique in every table, and the workflow ids of tasks and approvals name
  workflows.
\<close>

definition refers :: "int option list \<Rightarrow> int list \<Rightarrow> bool" where
  "refers xs ids \<longleftrightarrow> (\<forall>i. Some i \<in> set xs \<longrightarrow> i \<in> set ids)"

definition tables_ok :: "tables \<Rightarrow> bool" where
  "tables_ok t \<longleftrightarrow>
     distinct (map task_id (tasks t)) \<and> distinct (map wf_id (workflows t)) \<and>
     distinct (map mem_id (memories t)) \<and> distinct (map apr_id (approvals t)) \<and>
     refers (map task_workflow_id (tasks t)) (map wf_id (workflows t)) \<and>
     refers (map apr_workflow_id (approvals t)) (map wf_id (workflows t))"

text \<open>The rows a key names, for reading off states.\<close>

definition workflow_row :: "tables \<Rightarrow> int \<Rightarrow> workflow option" where
  "workflow_row t i = find (\<lambda>r. wf_id r = i) (workflows t)"

definition task_row :: "tables \<Rightarrow> int \<Rightarrow> task option" where
  "task_row t i = find (\<lambda>r. task_id r = i) (tasks t)"

definition approval_row :: "tables \<Rightarrow> int \<Rightarrow> approval option" where
  "approval_row t i = find (\<lambda>r. apr_id r = i) (approvals t)"

end
