(* ===== verification/Services.thy ===== *)
theory Services
  imports Config Models
begin

text \<open>
  What is not in the repository: Redis, Postgres behind SQLAlchemy, Chroma, the LLM provider, the
  webhooks, the clock, uuid4 and SHA-256. They are parameters: a record of operations on a state
  of their own type, bundled in \<open>env\<close>, which every definition that calls them takes as an
  argument. Their documented behaviour is \<open>redis_laws\<close> and \<open>pg_laws\<close>; the
  theorems that rely on it have these predicates as hypotheses. Every operation may raise.

  The fields whose names start with \<open>vw_\<close> are not operations: they name the contents of the
  service's state, the abstract data its documentation talks about, and only the laws and the
  theorems mention them.
\<close>

section \<open>Redis\<close>

record 'r redis_ops =
  rd_set_nx_ex :: "string \<Rightarrow> string \<Rightarrow> int \<Rightarrow> 'r \<Rightarrow> (exn + bool) \<times> 'r"
  rd_set_ex :: "string \<Rightarrow> string \<Rightarrow> int \<Rightarrow> 'r \<Rightarrow> (exn + unit) \<times> 'r"
  rd_get :: "string \<Rightarrow> 'r \<Rightarrow> (exn + string option) \<times> 'r"
  rd_delete :: "string \<Rightarrow> 'r \<Rightarrow> (exn + unit) \<times> 'r"
  rd_rpush :: "string \<Rightarrow> string \<Rightarrow> 'r \<Rightarrow> (exn + unit) \<times> 'r"
  rd_blpop :: "string list \<Rightarrow> 'r \<Rightarrow> (exn + (string \<times> string) option) \<times> 'r"
  rd_llen :: "string \<Rightarrow> 'r \<Rightarrow> (exn + int) \<times> 'r"
  rd_lrange :: "string \<Rightarrow> int \<Rightarrow> int \<Rightarrow> 'r \<Rightarrow> (exn + string list) \<times> 'r"
  rd_ping :: "'r \<Rightarrow> (exn + bool) \<times> 'r"
  vw_lists :: "'r \<Rightarrow> string \<Rightarrow> string list"
  vw_keys :: "'r \<Rightarrow> string \<Rightarrow> (string \<times> int) option"
  vw_time :: "'r \<Rightarrow> int"

text \<open>The value a key holds at a time of the server: an entry lives until its expiry time.\<close>

definition live :: "'r redis_ops \<Rightarrow> 'r \<Rightarrow> string \<Rightarrow> string option" where
  "live R r k = (case vw_keys R r k of None \<Rightarrow> None | Some (v, e) \<Rightarrow> if vw_time R r < e then Some v else None)"

text \<open>
  LRANGE: both indices inclusive, negative ones counted from the end, then clipped to the list.
\<close>

definition lrange :: "'a list \<Rightarrow> int \<Rightarrow> int \<Rightarrow> 'a list" where
  "lrange xs a b =
     (let n = int (length xs);
          i = max 0 (if a < 0 then n + a else a);
          j = (if b < 0 then n + b else b)
      in take (nat (j - i + 1)) (drop (nat i) xs))"

text \<open>
  A command that succeeds runs at one instant of the server, which its reply's state records, and
  the server's clock never runs backwards. Nothing is said of a command that raises: the
  connection may have been lost before or after the server ran it.
\<close>

definition redis_laws :: "'r redis_ops \<Rightarrow> bool" where
  "redis_laws R \<longleftrightarrow>
     (\<forall>k v ttl r won r'. rd_set_nx_ex R k v ttl r = (Inr won, r') \<longrightarrow>
        vw_time R r \<le> vw_time R r' \<and> vw_lists R r' = vw_lists R r \<and>
        (won \<longleftrightarrow> (\<forall>x e. vw_keys R r k = Some (x, e) \<longrightarrow> e \<le> vw_time R r')) \<and>
        vw_keys R r' = (if won then (vw_keys R r)(k \<mapsto> (v, vw_time R r' + ttl)) else vw_keys R r)) \<and>
     (\<forall>k v ttl r r'. rd_set_ex R k v ttl r = (Inr (), r') \<longrightarrow>
        vw_time R r \<le> vw_time R r' \<and> vw_lists R r' = vw_lists R r \<and>
        vw_keys R r' = (vw_keys R r)(k \<mapsto> (v, vw_time R r' + ttl))) \<and>
     (\<forall>k r x r'. rd_get R k r = (Inr x, r') \<longrightarrow>
        vw_time R r \<le> vw_time R r' \<and> vw_lists R r' = vw_lists R r \<and> vw_keys R r' = vw_keys R r \<and>
        x = live R r' k) \<and>
     (\<forall>k r r'. rd_delete R k r = (Inr (), r') \<longrightarrow>
        vw_time R r \<le> vw_time R r' \<and> vw_lists R r' = vw_lists R r \<and>
        vw_keys R r' = (vw_keys R r)(k := None)) \<and>
     (\<forall>k v r r'. rd_rpush R k v r = (Inr (), r') \<longrightarrow>
        vw_time R r \<le> vw_time R r' \<and> vw_keys R r' = vw_keys R r \<and>
        vw_lists R r' = (vw_lists R r)(k := vw_lists R r k @ [v])) \<and>
     (\<forall>ks r r'. rd_blpop R ks r = (Inr None, r') \<longrightarrow>
        vw_time R r \<le> vw_time R r' \<and> vw_keys R r' = vw_keys R r \<and> vw_lists R r' = vw_lists R r \<and>
        (\<forall>k\<in>set ks. vw_lists R r k = [])) \<and>
     (\<forall>ks r k v r'. rd_blpop R ks r = (Inr (Some (k, v)), r') \<longrightarrow>
        vw_time R r \<le> vw_time R r' \<and> vw_keys R r' = vw_keys R r \<and>
        find (\<lambda>k. vw_lists R r k \<noteq> []) ks = Some k \<and>
        vw_lists R r k = v # vw_lists R r' k \<and>
        (\<forall>k'. k' \<noteq> k \<longrightarrow> vw_lists R r' k' = vw_lists R r k')) \<and>
     (\<forall>k r n r'. rd_llen R k r = (Inr n, r') \<longrightarrow>
        vw_time R r \<le> vw_time R r' \<and> vw_keys R r' = vw_keys R r \<and> vw_lists R r' = vw_lists R r \<and>
        n = int (length (vw_lists R r k))) \<and>
     (\<forall>k a b r xs r'. rd_lrange R k a b r = (Inr xs, r') \<longrightarrow>
        vw_time R r \<le> vw_time R r' \<and> vw_keys R r' = vw_keys R r \<and> vw_lists R r' = vw_lists R r \<and>
        xs = lrange (vw_lists R r k) a b)"

section \<open>Postgres through SQLAlchemy\<close>

text \<open>
  A table: \<^verbatim>\<open>session.add(row); await session.flush()\<close> inserts a row and gives its key;
  \<^verbatim>\<open>select(T).where(P).order_by(..).limit(n)\<close> gives rows; assigning attributes of a row
  (flushed at the latest by the commit) and \<^verbatim>\<open>update(T).where(P).values(..)\<close> change the
  rows that satisfy a condition; \<open>tb_count_by\<close> is a grouped count.
\<close>

datatype order = Unordered | Id_Asc | Id_Desc

record ('row, 'd) table_ops =
  tb_add :: "'row \<Rightarrow> 'd \<Rightarrow> (exn + int) \<times> 'd"
  tb_select :: "('row \<Rightarrow> bool) \<Rightarrow> order \<Rightarrow> nat option \<Rightarrow> 'd \<Rightarrow> (exn + 'row list) \<times> 'd"
  tb_update :: "('row \<Rightarrow> bool) \<Rightarrow> ('row \<Rightarrow> 'row) \<Rightarrow> 'd \<Rightarrow> (exn + unit) \<times> 'd"
  tb_count_by :: "('row \<Rightarrow> bool) \<Rightarrow> ('row \<Rightarrow> string option) \<Rightarrow> bool \<Rightarrow> nat option \<Rightarrow> 'd \<Rightarrow>
    (exn + (string option \<times> int) list) \<times> 'd"

text \<open>
  A session: opened on the committed contents, it sees its own pending changes; a commit makes
  them the committed contents, a rollback drops them.
\<close>

record 'd pg_ops =
  pg_begin :: "'d \<Rightarrow> 'd"
  pg_commit :: "'d \<Rightarrow> (exn + unit) \<times> 'd"
  pg_rollback :: "'d \<Rightarrow> (exn + unit) \<times> 'd"
  pg_ping :: "'d \<Rightarrow> (exn + unit) \<times> 'd"
  pg_tasks :: "(task, 'd) table_ops"
  pg_workflows :: "(workflow, 'd) table_ops"
  pg_memories :: "(memory_row, 'd) table_ops"
  pg_approvals :: "(approval, 'd) table_ops"
  vw_committed :: "'d \<Rightarrow> tables"
  vw_pending :: "'d \<Rightarrow> tables"

text \<open>What a select may answer.\<close>

definition take_limit :: "nat option \<Rightarrow> 'a list \<Rightarrow> 'a list" where
  "take_limit lmt xs = (case lmt of None \<Rightarrow> xs | Some n \<Rightarrow> take n xs)"

definition selects :: "('row \<Rightarrow> int) \<Rightarrow> ('row \<Rightarrow> bool) \<Rightarrow> order \<Rightarrow> nat option \<Rightarrow> 'row list \<Rightarrow> 'row list \<Rightarrow> bool" where
  "selects key P ord lmt tbl rows \<longleftrightarrow>
     (\<exists>ys. mset ys = mset (filter P tbl) \<and> rows = take_limit lmt ys \<and>
        (ord = Id_Asc \<longrightarrow> sorted (map key ys)) \<and> (ord = Id_Desc \<longrightarrow> sorted (rev (map key ys))))"

text \<open>What a grouped count may answer: each value of the column once, with its number of rows.\<close>

definition counts_by :: "('row \<Rightarrow> bool) \<Rightarrow> ('row \<Rightarrow> string option) \<Rightarrow> bool \<Rightarrow> nat option \<Rightarrow> 'row list \<Rightarrow>
    (string option \<times> int) list \<Rightarrow> bool" where
  "counts_by P f desc lmt tbl res \<longleftrightarrow>
     (\<exists>ys. distinct (map fst ys) \<and> fst ` set ys = f ` set (filter P tbl) \<and>
        (\<forall>(k, n)\<in>set ys. n = int (length (filter (\<lambda>r. P r \<and> f r = k) tbl))) \<and>
        (desc \<longrightarrow> sorted (rev (map snd ys))) \<and> res = take_limit lmt ys)"

definition table_laws ::
  "'d pg_ops \<Rightarrow> ('row, 'd) table_ops \<Rightarrow> (tables \<Rightarrow> 'row list) \<Rightarrow> (('row list \<Rightarrow> 'row list) \<Rightarrow> tables \<Rightarrow> tables) \<Rightarrow>
   ('row \<Rightarrow> int) \<Rightarrow> (int \<Rightarrow> datetime \<Rightarrow> 'row \<Rightarrow> 'row) \<Rightarrow> bool" where
  "table_laws D T rows upd key stamp \<longleftrightarrow>
     (\<forall>row d i d'. tb_add T row d = (Inr i, d') \<longrightarrow>
        0 < i \<and> i \<notin> key ` set (rows (vw_pending D d)) \<and>
        (\<exists>ts. vw_pending D d' = upd (\<lambda>rs. rs @ [stamp i ts row]) (vw_pending D d))) \<and>
     (\<forall>P ord lmt d rs d'. tb_select T P ord lmt d = (Inr rs, d') \<longrightarrow>
        vw_pending D d' = vw_pending D d \<and> selects key P ord lmt (rows (vw_pending D d)) rs) \<and>
     (\<forall>P f d d'. tb_update T P f d = (Inr (), d') \<longrightarrow>
        vw_pending D d' = upd (map (\<lambda>r. if P r then f r else r)) (vw_pending D d)) \<and>
     (\<forall>P f desc lmt d res d'. tb_count_by T P f desc lmt d = (Inr res, d') \<longrightarrow>
        vw_pending D d' = vw_pending D d \<and> counts_by P f desc lmt (rows (vw_pending D d)) res) \<and>
     (\<forall>row d. vw_committed D (snd (tb_add T row d)) = vw_committed D d) \<and>
     (\<forall>P ord lmt d. vw_committed D (snd (tb_select T P ord lmt d)) = vw_committed D d) \<and>
     (\<forall>P f d. vw_committed D (snd (tb_update T P f d)) = vw_committed D d) \<and>
     (\<forall>P f desc lmt d. vw_committed D (snd (tb_count_by T P f desc lmt d)) = vw_committed D d)"

definition pg_laws :: "'d pg_ops \<Rightarrow> bool" where
  "pg_laws D \<longleftrightarrow>
     (\<forall>d. vw_committed D (pg_begin D d) = vw_committed D d \<and> vw_pending D (pg_begin D d) = vw_committed D d) \<and>
     (\<forall>d d'. pg_commit D d = (Inr (), d') \<longrightarrow> vw_committed D d' = vw_pending D d) \<and>
     (\<forall>d e d'. pg_commit D d = (Inl e, d') \<longrightarrow> vw_committed D d' = vw_committed D d) \<and>
     (\<forall>d. vw_committed D (snd (pg_rollback D d)) = vw_committed D d) \<and>
     (\<forall>d. vw_committed D (snd (pg_ping D d)) = vw_committed D d) \<and>
     table_laws D (pg_tasks D) tasks tasks_update task_id stamp_task \<and>
     table_laws D (pg_workflows D) workflows workflows_update wf_id stamp_workflow \<and>
     table_laws D (pg_memories D) memories memories_update mem_id stamp_memory \<and>
     table_laws D (pg_approvals D) approvals approvals_update apr_id stamp_approval"

section \<open>The other services\<close>

text \<open>Chroma: a collection of documents under ids.\<close>

record chroma_result =
  cr_ids :: "string list list option"
  cr_documents :: "string list list option"
  cr_metadatas :: "dict list list option"
  cr_distances :: "rat list list option"

record 'v chroma_ops =
  ch_upsert :: "string list \<Rightarrow> string list \<Rightarrow> dict list \<Rightarrow> 'v \<Rightarrow> (exn + unit) \<times> 'v"
  ch_query :: "string \<Rightarrow> int \<Rightarrow> 'v \<Rightarrow> (exn + chroma_result) \<times> 'v"
  ch_count :: "'v \<Rightarrow> (exn + int) \<times> 'v"
  ch_delete :: "string list \<Rightarrow> 'v \<Rightarrow> (exn + unit) \<times> 'v"

text \<open>What \<^verbatim>\<open>_llm_call\<close> hands to \<^verbatim>\<open>acompletion\<close> under \<^verbatim>\<open>asyncio.wait_for\<close>.\<close>

record llm_request =
  rq_model :: string
  rq_prompt :: string
  rq_temperature :: rat
  rq_max_tokens :: int
  rq_timeout :: rat

text \<open>
  The environment. \<open>clock\<close>, \<open>uuid4\<close>, \<open>acompletion\<close>, \<open>http_post\<close> and \<open>append_file\<close>
  answer by the number of the call (\<open>w_tick\<close> counts them), since each call may answer
  differently. \<open>acompletion\<close> gives the message content of the reply
  (\<^verbatim>\<open>resp["choices"][0]["message"]["content"]\<close>) or what the call or the timeout raised;
  \<open>http_post\<close> the status and the text of the reply.
\<close>

record ('r, 'd, 'v) env =
  cfg :: settings
  clock :: "nat \<Rightarrow> datetime"
  uuid4 :: "nat \<Rightarrow> string"
  sha256_hex :: "string \<Rightarrow> string"
  redis :: "'r redis_ops"
  pg :: "'d pg_ops"
  chroma :: "'v chroma_ops"
  eng_template :: "exn + string"
  social_template :: "exn + string"
  acompletion :: "llm_request \<Rightarrow> nat \<Rightarrow> exn + json"
  http_post :: "string \<Rightarrow> json \<Rightarrow> nat \<Rightarrow> exn + (int \<times> string)"
  append_file :: "string \<Rightarrow> string \<Rightarrow> nat \<Rightarrow> exn + unit"

text \<open>
  The calls that leave the process, in the order they are made: the ghost trace that orderings
  are stated over.
\<close>

datatype call =
    Llm_Call string
  | Http_Post string json
  | File_Append string string
  | Slept int

text \<open>
  The world a coroutine runs in: the states of the services, the number of environment calls so
  far, the lines of \<^verbatim>\<open>logs/approvals.jsonl\<close>, the context variables and the trace.
\<close>

record ('r, 'd, 'v) world =
  w_redis :: 'r
  w_pg :: 'd
  w_vec :: 'v
  w_tick :: nat
  w_file :: "string list"
  w_ctx :: context_vars
  w_trace :: "call list"

type_synonym ('r, 'd, 'v, 'a) act = "(('r, 'd, 'v) world, 'a) io"

section \<open>Calls\<close>

definition on_redis :: "('r \<Rightarrow> (exn + 'a) \<times> 'r) \<Rightarrow> ('r, 'd, 'v, 'a) act" where
  "on_redis f = (\<lambda>w. case f (w_redis w) of (x, r) \<Rightarrow> (x, w\<lparr>w_redis := r\<rparr>))"

definition on_pg :: "('d \<Rightarrow> (exn + 'a) \<times> 'd) \<Rightarrow> ('r, 'd, 'v, 'a) act" where
  "on_pg f = (\<lambda>w. case f (w_pg w) of (x, d) \<Rightarrow> (x, w\<lparr>w_pg := d\<rparr>))"

definition on_vec :: "('v \<Rightarrow> (exn + 'a) \<times> 'v) \<Rightarrow> ('r, 'd, 'v, 'a) act" where
  "on_vec f = (\<lambda>w. case f (w_vec w) of (x, v) \<Rightarrow> (x, w\<lparr>w_vec := v\<rparr>))"

definition fresh_tick :: "('r, 'd, 'v, nat) act" where
  "fresh_tick = (\<lambda>w. (Inr (w_tick w), w\<lparr>w_tick := Suc (w_tick w)\<rparr>))"

definition record_call :: "call \<Rightarrow> ('r, 'd, 'v, unit) act" where
  "record_call c = modifies (\<lambda>w. w\<lparr>w_trace := w_trace w @ [c]\<rparr>)"

text \<open>\<^verbatim>\<open>datetime.now(timezone.utc)\<close>\<close>

definition utc_now :: "('r, 'd, 'v) env \<Rightarrow> ('r, 'd, 'v, datetime) act" where
  "utc_now E = bnd fresh_tick (\<lambda>n. ret (clock E n))"

lemmas call_defs = on_redis_def on_pg_def on_vec_def fresh_tick_def record_call_def utc_now_def

lemma wp_on_redis [simp]:
  "wp (on_redis f) Q X w \<longleftrightarrow>
     (case f (w_redis w) of (Inl e, r) \<Rightarrow> X e (w\<lparr>w_redis := r\<rparr>) | (Inr a, r) \<Rightarrow> Q a (w\<lparr>w_redis := r\<rparr>))"
  by (auto simp: wp_def on_redis_def split: prod.splits sum.splits)

lemma wp_on_pg [simp]:
  "wp (on_pg f) Q X w \<longleftrightarrow>
     (case f (w_pg w) of (Inl e, d) \<Rightarrow> X e (w\<lparr>w_pg := d\<rparr>) | (Inr a, d) \<Rightarrow> Q a (w\<lparr>w_pg := d\<rparr>))"
  by (auto simp: wp_def on_pg_def split: prod.splits sum.splits)

lemma wp_on_vec [simp]:
  "wp (on_vec f) Q X w \<longleftrightarrow>
     (case f (w_vec w) of (Inl e, v) \<Rightarrow> X e (w\<lparr>w_vec := v\<rparr>) | (Inr a, v) \<Rightarrow> Q a (w\<lparr>w_vec := v\<rparr>))"
  by (auto simp: wp_def on_vec_def split: prod.splits sum.splits)

lemma wp_fresh_tick [simp]:
  "wp fresh_tick Q X w \<longleftrightarrow> Q (w_tick w) (w\<lparr>w_tick := Suc (w_tick w)\<rparr>)"
  by (simp add: wp_def fresh_tick_def)

lemma wp_record_call [simp]:
  "wp (record_call c) Q X w \<longleftrightarrow> Q () (w\<lparr>w_trace := w_trace w @ [c]\<rparr>)"
  by (simp add: record_call_def)

lemma wp_utc_now [simp]:
  "wp (utc_now E) Q X w \<longleftrightarrow> Q (clock E (w_tick w)) (w\<lparr>w_tick := Suc (w_tick w)\<rparr>)"
  by (simp add: utc_now_def)

text \<open>The contents of the database and of Redis, as a world shows them.\<close>

definition db :: "('r, 'd, 'v) env \<Rightarrow> ('r, 'd, 'v) world \<Rightarrow> tables" where
  "db E w = vw_committed (pg E) (w_pg w)"

definition in_session :: "('r, 'd, 'v) env \<Rightarrow> ('r, 'd, 'v) world \<Rightarrow> tables" where
  "in_session E w = vw_pending (pg E) (w_pg w)"

text \<open>
  What lies beside the database: Redis and the context variables. The statements, the clock, the
  vector store and the calls that leave the process keep it; and everything but the statements
  keeps the tables.
\<close>

definition beside_db :: "('r, 'd, 'v) world \<Rightarrow> 'r \<times> context_vars" where
  "beside_db w = (w_redis w, w_ctx w)"

lemma keeps_calls [wp_ops]:
  "keeps beside_db (on_pg f)" "keeps beside_db (on_vec g)" "keeps beside_db fresh_tick"
  "keeps beside_db (record_call c)" "keeps beside_db (utc_now E)"
  "keeps (db E) (on_vec g)" "keeps (db E) (on_redis h)" "keeps (db E) fresh_tick"
  "keeps (db E) (record_call c)" "keeps (db E) (utc_now E)"
  by (auto intro!: keepsI simp: beside_db_def db_def split: prod.splits sum.splits)

end
