(* ===== verification/Store.thy ===== *)
theory Store
  imports Services
begin

text \<open>
  \<^verbatim>\<open>core/memory/db.py\<close>: the statements the sources issue on the four tables and
  \<^verbatim>\<open>session_scope\<close>, with the weakest-precondition rules that turn the laws of Postgres
  into facts about the committed tables. A session scope is atomic: its statements become visible
  together when it returns, and when it raises the committed tables are what they were.
\<close>

section \<open>Statements\<close>

definition add_task :: "('r, 'd, 'v) env \<Rightarrow> task \<Rightarrow> ('r, 'd, 'v, int) act" where
  "add_task E row = on_pg (tb_add (pg_tasks (pg E)) row)"

definition add_workflow :: "('r, 'd, 'v) env \<Rightarrow> workflow \<Rightarrow> ('r, 'd, 'v, int) act" where
  "add_workflow E row = on_pg (tb_add (pg_workflows (pg E)) row)"

definition add_memory :: "('r, 'd, 'v) env \<Rightarrow> memory_row \<Rightarrow> ('r, 'd, 'v, int) act" where
  "add_memory E row = on_pg (tb_add (pg_memories (pg E)) row)"

definition add_approval :: "('r, 'd, 'v) env \<Rightarrow> approval \<Rightarrow> ('r, 'd, 'v, int) act" where
  "add_approval E row = on_pg (tb_add (pg_approvals (pg E)) row)"

definition select_tasks :: "('r, 'd, 'v) env \<Rightarrow> (task \<Rightarrow> bool) \<Rightarrow> order \<Rightarrow> nat option \<Rightarrow> ('r, 'd, 'v, task list) act" where
  "select_tasks E P ord n = on_pg (tb_select (pg_tasks (pg E)) P ord n)"

definition select_workflows :: "('r, 'd, 'v) env \<Rightarrow> (workflow \<Rightarrow> bool) \<Rightarrow> order \<Rightarrow> nat option \<Rightarrow> ('r, 'd, 'v, workflow list) act" where
  "select_workflows E P ord n = on_pg (tb_select (pg_workflows (pg E)) P ord n)"

definition select_memories :: "('r, 'd, 'v) env \<Rightarrow> (memory_row \<Rightarrow> bool) \<Rightarrow> order \<Rightarrow> nat option \<Rightarrow> ('r, 'd, 'v, memory_row list) act" where
  "select_memories E P ord n = on_pg (tb_select (pg_memories (pg E)) P ord n)"

definition select_approvals :: "('r, 'd, 'v) env \<Rightarrow> (approval \<Rightarrow> bool) \<Rightarrow> order \<Rightarrow> nat option \<Rightarrow> ('r, 'd, 'v, approval list) act" where
  "select_approvals E P ord n = on_pg (tb_select (pg_approvals (pg E)) P ord n)"

definition update_tasks :: "('r, 'd, 'v) env \<Rightarrow> (task \<Rightarrow> bool) \<Rightarrow> (task \<Rightarrow> task) \<Rightarrow> ('r, 'd, 'v, unit) act" where
  "update_tasks E P f = on_pg (tb_update (pg_tasks (pg E)) P f)"

definition update_workflows :: "('r, 'd, 'v) env \<Rightarrow> (workflow \<Rightarrow> bool) \<Rightarrow> (workflow \<Rightarrow> workflow) \<Rightarrow> ('r, 'd, 'v, unit) act" where
  "update_workflows E P f = on_pg (tb_update (pg_workflows (pg E)) P f)"

definition update_memories :: "('r, 'd, 'v) env \<Rightarrow> (memory_row \<Rightarrow> bool) \<Rightarrow> (memory_row \<Rightarrow> memory_row) \<Rightarrow> ('r, 'd, 'v, unit) act" where
  "update_memories E P f = on_pg (tb_update (pg_memories (pg E)) P f)"

definition update_approvals :: "('r, 'd, 'v) env \<Rightarrow> (approval \<Rightarrow> bool) \<Rightarrow> (approval \<Rightarrow> approval) \<Rightarrow> ('r, 'd, 'v, unit) act" where
  "update_approvals E P f = on_pg (tb_update (pg_approvals (pg E)) P f)"

lemmas statement_defs = add_task_def add_workflow_def add_memory_def add_approval_def
  select_tasks_def select_workflows_def select_memories_def select_approvals_def
  update_tasks_def update_workflows_def update_memories_def update_approvals_def

text \<open>\<^verbatim>\<open>result.scalar_one()\<close> and \<^verbatim>\<open>result.scalar_one_or_none()\<close>.\<close>

definition scalar_one :: "'a list \<Rightarrow> exn + 'a" where
  "scalar_one rows =
     (case rows of [] \<Rightarrow> Inl NoResultFound | [r] \<Rightarrow> Inr r | _ \<Rightarrow> Inl MultipleResultsFound)"

definition scalar_one_or_none :: "'a list \<Rightarrow> exn + 'a option" where
  "scalar_one_or_none rows =
     (case rows of [] \<Rightarrow> Inr None | [r] \<Rightarrow> Inr (Some r) | _ \<Rightarrow> Inl MultipleResultsFound)"

text \<open>
  The row with a given key: \<^verbatim>\<open>(await session.execute(select(T).where(T.id == i))).scalar_one()\<close>.
\<close>

definition fetch_task :: "('r, 'd, 'v) env \<Rightarrow> int \<Rightarrow> ('r, 'd, 'v, task) act" where
  "fetch_task E i = bnd (select_tasks E (\<lambda>r. task_id r = i) Unordered None) (\<lambda>rows. lift_sum (scalar_one rows))"

definition fetch_workflow :: "('r, 'd, 'v) env \<Rightarrow> int \<Rightarrow> ('r, 'd, 'v, workflow) act" where
  "fetch_workflow E i = bnd (select_workflows E (\<lambda>r. wf_id r = i) Unordered None) (\<lambda>rows. lift_sum (scalar_one rows))"

definition fetch_approval :: "('r, 'd, 'v) env \<Rightarrow> int \<Rightarrow> ('r, 'd, 'v, approval) act" where
  "fetch_approval E i = bnd (select_approvals E (\<lambda>r. apr_id r = i) Unordered None) (\<lambda>rows. lift_sum (scalar_one rows))"

definition find_approval :: "('r, 'd, 'v) env \<Rightarrow> int \<Rightarrow> ('r, 'd, 'v, approval option) act" where
  "find_approval E i =
     bnd (select_approvals E (\<lambda>r. apr_id r = i) Unordered None) (\<lambda>rows. lift_sum (scalar_one_or_none rows))"

lemmas fetch_defs = fetch_task_def fetch_workflow_def fetch_approval_def find_approval_def

section \<open>session_scope\<close>

text \<open>
  The session is opened on the committed contents; the body runs in it; a return commits, an
  Exception of the body or of the commit rolls back and is raised again. An exception outside
  Exception (a cancellation) passes without a commit, and leaving the session drops its changes.
\<close>

definition session_scope :: "('r, 'd, 'v) env \<Rightarrow> ('r, 'd, 'v, 'a) act \<Rightarrow> ('r, 'd, 'v, 'a) act" where
  "session_scope E body =
     thn (modifies (\<lambda>w. w\<lparr>w_pg := pg_begin (pg E) (w_pg w)\<rparr>))
       (try_except
          (bnd body (\<lambda>a. thn (on_pg (pg_commit (pg E))) (ret a)))
          (\<lambda>e. thn (on_pg (pg_rollback (pg E))) (raise e)))"

text \<open>\<^verbatim>\<open>ping\<close>: whether a trivial query goes through.\<close>

definition db_ping :: "('r, 'd, 'v) env \<Rightarrow> ('r, 'd, 'v, bool) act" where
  "db_ping E = try_except (thn (on_pg (pg_ping (pg E))) (ret True)) (\<lambda>_. ret False)"

section \<open>What the laws give\<close>

text \<open>Two worlds that differ at most in the database and the number of environment calls.\<close>

definition only_db :: "('r, 'd, 'v) world \<Rightarrow> ('r, 'd, 'v) world \<Rightarrow> bool" where
  "only_db w w' \<longleftrightarrow>
     w_redis w' = w_redis w \<and> w_vec w' = w_vec w \<and> w_file w' = w_file w \<and> w_ctx w' = w_ctx w \<and>
     w_trace w' = w_trace w"

lemma only_db_refl [simp]: "only_db w w"
  by (simp add: only_db_def)

lemma only_db_trans [trans]: "only_db u v \<Longrightarrow> only_db v w \<Longrightarrow> only_db u w"
  by (simp add: only_db_def)

lemma only_db_pg [simp]: "only_db w (w'\<lparr>w_pg := d\<rparr>) = only_db w w'"
  by (simp add: only_db_def)

lemma only_db_tick [simp]: "only_db w (w'\<lparr>w_tick := n\<rparr>) = only_db w w'"
  by (simp add: only_db_def)

lemma db_simps [simp]:
  "db E (w\<lparr>w_tick := n\<rparr>) = db E w" "db E (w\<lparr>w_redis := r\<rparr>) = db E w"
  "db E (w\<lparr>w_vec := v\<rparr>) = db E w" "db E (w\<lparr>w_file := f\<rparr>) = db E w"
  "db E (w\<lparr>w_ctx := c\<rparr>) = db E w" "db E (w\<lparr>w_trace := t\<rparr>) = db E w"
  "in_session E (w\<lparr>w_tick := n\<rparr>) = in_session E w"
  by (simp_all add: db_def in_session_def)

text \<open>
  A body of a session, described by how it changes the session's tables: it leaves the committed
  tables alone, and when it returns the value and the session's tables are related by \<open>R\<close>.
\<close>

definition session_body ::
  "('r, 'd, 'v) env \<Rightarrow> ('r, 'd, 'v, 'a) act \<Rightarrow> (tables \<Rightarrow> 'a \<Rightarrow> tables \<Rightarrow> bool) \<Rightarrow> bool" where
  "session_body E m R \<longleftrightarrow>
     (\<forall>w. wp m (\<lambda>a w'. only_db w w' \<and> db E w' = db E w \<and> R (in_session E w) a (in_session E w'))
           (\<lambda>e w'. only_db w w' \<and> db E w' = db E w) w)"

lemma session_bodyI:
  "(\<And>w. wp m (\<lambda>a w'. only_db w w' \<and> db E w' = db E w \<and> R (in_session E w) a (in_session E w'))
           (\<lambda>e w'. only_db w w' \<and> db E w' = db E w) w) \<Longrightarrow> session_body E m R"
  by (simp add: session_body_def)

lemma session_body_bnd:
  assumes "session_body E m R" and "\<And>a. session_body E (k a) (S a)"
  shows "session_body E (bnd m k) (\<lambda>t b t''. \<exists>a t'. R t a t' \<and> S a t' b t'')"
proof (rule session_bodyI)
  fix w :: "('a, 'b, 'c) world"
  have k: "wp (k a) (\<lambda>b w''. only_db w w'' \<and> db E w'' = db E w \<and>
        (\<exists>a t'. R (in_session E w) a t' \<and> S a t' b (in_session E w'')))
      (\<lambda>e w''. only_db w w'' \<and> db E w'' = db E w) w'"
    if "only_db w w'" "db E w' = db E w" "R (in_session E w) a (in_session E w')" for a w'
    by (rule wp_mono [OF assms(2) [of a, unfolded session_body_def, THEN spec, of w']])
      (use that in \<open>auto intro: only_db_trans\<close>)
  show "wp (bnd m k) (\<lambda>b w''. only_db w w'' \<and> db E w'' = db E w \<and>
        (\<exists>a t'. R (in_session E w) a t' \<and> S a t' b (in_session E w'')))
      (\<lambda>e w''. only_db w w'' \<and> db E w'' = db E w) w"
    unfolding wp_bnd
    by (rule wp_mono [OF assms(1) [unfolded session_body_def, THEN spec, of w]]) (auto intro: k)
qed

lemma session_body_weaken:
  "session_body E m R \<Longrightarrow> (\<And>t a t'. R t a t' \<Longrightarrow> S t a t') \<Longrightarrow> session_body E m S"
  unfolding session_body_def by (fast intro: wp_mono)

lemma session_body_ret: "session_body E (ret a) (\<lambda>t b t'. b = a \<and> t' = t)"
  by (simp add: session_body_def)

lemma session_body_now: "session_body E (utc_now E) (\<lambda>t _ t'. t' = t)"
  by (simp add: session_body_def)

lemma session_body_lift: "session_body E (lift_sum r) (\<lambda>t a t'. r = Inr a \<and> t' = t)"
  by (simp add: session_body_def split: sum.splits)

lemma session_body_thn:
  "session_body E m R \<Longrightarrow> session_body E k S \<Longrightarrow>
     session_body E (thn m k) (\<lambda>t b t''. \<exists>a t'. R t a t' \<and> S t' b t'')"
  unfolding thn_def by (rule session_body_bnd)

text \<open>The rule of a session scope.\<close>

theorem wp_session_scope:
  assumes laws: "pg_laws (pg E)" and body: "session_body E m R"
    and ret: "\<And>a w'. only_db w w' \<Longrightarrow> R (db E w) a (db E w') \<Longrightarrow> Q a w'"
    and exc: "\<And>e w'. only_db w w' \<Longrightarrow> db E w' = db E w \<Longrightarrow> X e w'"
  shows "wp (session_scope E m) Q X w"
proof -
  let ?D = "pg E" and ?b = "w\<lparr>w_pg := pg_begin (pg E) (w_pg w)\<rparr>"
  note L = laws [unfolded pg_laws_def]
  have b: "db E ?b = db E w" "in_session E ?b = db E w"
    using L by (simp_all add: db_def in_session_def)
  have commit_ok: "vw_committed ?D d' = vw_pending ?D d" if "pg_commit ?D d = (Inr (), d')" for d d'
    using L that by blast
  have commit_err: "vw_committed ?D d' = vw_committed ?D d" if "pg_commit ?D d = (Inl e, d')" for d d' e
    using L that by blast
  have rollback: "vw_committed ?D d' = vw_committed ?D d" if "pg_rollback ?D d = (x, d')" for d d' x
    using L that by (metis snd_conv)
  have "wp m (\<lambda>a w'. only_db w w' \<and> db E w' = db E w \<and> R (db E w) a (in_session E w'))
      (\<lambda>e w'. only_db w w' \<and> db E w' = db E w) ?b"
    by (rule wp_mono [OF body [unfolded session_body_def, THEN spec, of ?b]])
      (use b in \<open>auto simp: only_db_def\<close>)
  then show ?thesis
    unfolding session_scope_def wp_thn wp_modifies wp_catching wp_bnd
    by (rule wp_mono)
      (auto split: prod.splits sum.splits simp: db_def in_session_def
        dest!: commit_ok commit_err rollback intro!: ret exc)
qed

section \<open>The statements under the laws\<close>

lemma table_lawsD:
  assumes "table_laws D T rows upd key stamp"
  shows "tb_add T row d = (Inr i, d') \<Longrightarrow> 0 < i \<and> i \<notin> key ` set (rows (vw_pending D d)) \<and>
        (\<exists>ts. vw_pending D d' = upd (\<lambda>rs. rs @ [stamp i ts row]) (vw_pending D d))"
    and "tb_select T P ord n d = (Inr rs, d') \<Longrightarrow>
        vw_pending D d' = vw_pending D d \<and> selects key P ord n (rows (vw_pending D d)) rs"
    and "tb_update T P f d = (Inr (), d') \<Longrightarrow>
        vw_pending D d' = upd (map (\<lambda>r. if P r then f r else r)) (vw_pending D d)"
    and "tb_count_by T P g desc n d = (Inr res, d') \<Longrightarrow>
        vw_pending D d' = vw_pending D d \<and> counts_by P g desc n (rows (vw_pending D d)) res"
    and "tb_add T row d = (x, d') \<Longrightarrow> vw_committed D d' = vw_committed D d"
    and "tb_select T P ord n d = (y, d') \<Longrightarrow> vw_committed D d' = vw_committed D d"
    and "tb_update T P f d = (z, d') \<Longrightarrow> vw_committed D d' = vw_committed D d"
    and "tb_count_by T P g desc n d = (c, d') \<Longrightarrow> vw_committed D d' = vw_committed D d"
proof -
  note L = assms [unfolded table_laws_def]
  from L have add: "\<forall>row d i d'. tb_add T row d = (Inr i, d') \<longrightarrow>
        0 < i \<and> i \<notin> key ` set (rows (vw_pending D d)) \<and>
        (\<exists>ts. vw_pending D d' = upd (\<lambda>rs. rs @ [stamp i ts row]) (vw_pending D d))"
    by (rule conjunct1)
  from L have frames: "\<forall>row d. vw_committed D (snd (tb_add T row d)) = vw_committed D d"
    "\<forall>P ord n d. vw_committed D (snd (tb_select T P ord n d)) = vw_committed D d"
    "\<forall>P f d. vw_committed D (snd (tb_update T P f d)) = vw_committed D d"
    "\<forall>P f desc n d. vw_committed D (snd (tb_count_by T P f desc n d)) = vw_committed D d"
    by simp_all
  show "tb_add T row d = (Inr i, d') \<Longrightarrow> 0 < i \<and> i \<notin> key ` set (rows (vw_pending D d)) \<and>
        (\<exists>ts. vw_pending D d' = upd (\<lambda>rs. rs @ [stamp i ts row]) (vw_pending D d))"
    using add by blast
  show "tb_select T P ord n d = (Inr rs, d') \<Longrightarrow>
        vw_pending D d' = vw_pending D d \<and> selects key P ord n (rows (vw_pending D d)) rs"
    using L by simp
  show "tb_update T P f d = (Inr (), d') \<Longrightarrow>
        vw_pending D d' = upd (map (\<lambda>r. if P r then f r else r)) (vw_pending D d)"
    using L by simp
  show "tb_count_by T P g desc n d = (Inr res, d') \<Longrightarrow>
        vw_pending D d' = vw_pending D d \<and> counts_by P g desc n (rows (vw_pending D d)) res"
    using L by simp
  show "tb_add T row d = (x, d') \<Longrightarrow> vw_committed D d' = vw_committed D d"
    and "tb_select T P ord n d = (y, d') \<Longrightarrow> vw_committed D d' = vw_committed D d"
    and "tb_update T P f d = (z, d') \<Longrightarrow> vw_committed D d' = vw_committed D d"
    and "tb_count_by T P g desc n d = (c, d') \<Longrightarrow> vw_committed D d' = vw_committed D d"
    using frames by (metis snd_conv)+
qed

lemma pg_laws_tables:
  assumes "pg_laws D"
  shows "table_laws D (pg_tasks D) tasks tasks_update task_id stamp_task"
    and "table_laws D (pg_workflows D) workflows workflows_update wf_id stamp_workflow"
    and "table_laws D (pg_memories D) memories memories_update mem_id stamp_memory"
    and "table_laws D (pg_approvals D) approvals approvals_update apr_id stamp_approval"
  using assms unfolding pg_laws_def by blast+

lemma session_body_add:
  assumes "table_laws (pg E) T rows upd key stamp"
  shows "session_body E (on_pg (tb_add T row))
    (\<lambda>t i t'. 0 < i \<and> i \<notin> key ` set (rows t) \<and> (\<exists>ts. t' = upd (\<lambda>rs. rs @ [stamp i ts row]) t))"
  by (rule session_bodyI)
    (auto split: prod.splits sum.splits simp: db_def in_session_def
      dest: table_lawsD(1,5) [OF assms])

lemma session_body_select:
  assumes "table_laws (pg E) T rows upd key stamp"
  shows "session_body E (on_pg (tb_select T P ord n)) (\<lambda>t rs t'. t' = t \<and> selects key P ord n (rows t) rs)"
  by (rule session_bodyI)
    (auto split: prod.splits sum.splits simp: db_def in_session_def
      dest: table_lawsD(2,6) [OF assms])

lemma session_body_update:
  assumes "table_laws (pg E) T rows upd key stamp"
  shows "session_body E (on_pg (tb_update T P f)) (\<lambda>t _ t'. t' = upd (map (\<lambda>r. if P r then f r else r)) t)"
  by (rule session_bodyI)
    (auto split: prod.splits sum.splits simp: db_def in_session_def
      dest: table_lawsD(3,7) [OF assms])

lemmas session_body_statements =
  session_body_add [OF pg_laws_tables(1), folded add_task_def]
  session_body_add [OF pg_laws_tables(2), folded add_workflow_def]
  session_body_add [OF pg_laws_tables(3), folded add_memory_def]
  session_body_add [OF pg_laws_tables(4), folded add_approval_def]
  session_body_select [OF pg_laws_tables(1), folded select_tasks_def]
  session_body_select [OF pg_laws_tables(2), folded select_workflows_def]
  session_body_select [OF pg_laws_tables(3), folded select_memories_def]
  session_body_select [OF pg_laws_tables(4), folded select_approvals_def]
  session_body_update [OF pg_laws_tables(1), folded update_tasks_def]
  session_body_update [OF pg_laws_tables(2), folded update_workflows_def]
  session_body_update [OF pg_laws_tables(3), folded update_memories_def]
  session_body_update [OF pg_laws_tables(4), folded update_approvals_def]

text \<open>What the row queries give.\<close>

lemma scalar_one_Inr: "scalar_one rows = Inr r \<longleftrightarrow> rows = [r]"
  by (auto simp: scalar_one_def split: list.splits)

lemma scalar_one_or_none_Inr:
  "scalar_one_or_none rows = Inr x \<longleftrightarrow> (case x of None \<Rightarrow> rows = [] | Some r \<Rightarrow> rows = [r])"
  by (auto simp: scalar_one_or_none_def split: list.splits option.splits)

lemma mset_single_filter: "{#x#} = filter_mset P (mset ys) \<longleftrightarrow> filter P ys = [x]"
  by (metis mset_filter mset_single_iff_right mset.simps)

lemma selects_all [simp]: "selects key P Unordered None tbl rows \<longleftrightarrow> mset rows = mset (filter P tbl)"
  by (auto simp: selects_def take_limit_def)

lemma selects_one: "selects key P Unordered None tbl rows \<Longrightarrow> filter P tbl = [r] \<Longrightarrow> rows = [r]"
  by (simp del: mset_filter)

lemma session_body_fetch_task:
  assumes "pg_laws (pg E)"
  shows "session_body E (fetch_task E i) (\<lambda>t r t'. t' = t \<and> filter (\<lambda>r. task_id r = i) (tasks t) = [r])"
  unfolding fetch_task_def
  by (rule session_body_weaken [OF session_body_bnd [OF session_body_statements(5) [OF assms] session_body_lift]])
    (auto simp: scalar_one_Inr mset_single_filter)

lemma session_body_fetch_workflow:
  assumes "pg_laws (pg E)"
  shows "session_body E (fetch_workflow E i) (\<lambda>t r t'. t' = t \<and> filter (\<lambda>r. wf_id r = i) (workflows t) = [r])"
  unfolding fetch_workflow_def
  by (rule session_body_weaken [OF session_body_bnd [OF session_body_statements(6) [OF assms] session_body_lift]])
    (auto simp: scalar_one_Inr mset_single_filter)

lemma session_body_fetch_approval:
  assumes "pg_laws (pg E)"
  shows "session_body E (fetch_approval E i) (\<lambda>t r t'. t' = t \<and> filter (\<lambda>r. apr_id r = i) (approvals t) = [r])"
  unfolding fetch_approval_def
  by (rule session_body_weaken [OF session_body_bnd [OF session_body_statements(8) [OF assms] session_body_lift]])
    (auto simp: scalar_one_Inr mset_single_filter)

lemma session_body_find_approval:
  assumes "pg_laws (pg E)"
  shows "session_body E (find_approval E i)
    (\<lambda>t x t'. t' = t \<and> filter (\<lambda>r. apr_id r = i) (approvals t) = (case x of None \<Rightarrow> [] | Some r \<Rightarrow> [r]))"
  unfolding find_approval_def
  by (rule session_body_weaken [OF session_body_bnd [OF session_body_statements(8) [OF assms] session_body_lift]])
    (auto simp: scalar_one_or_none_Inr mset_single_filter split: option.splits)

lemmas session_body_rules = session_body_bnd session_body_thn session_body_ret session_body_now
  session_body_lift session_body_statements session_body_fetch_task session_body_fetch_workflow
  session_body_fetch_approval session_body_find_approval

section \<open>A database that answers\<close>

text \<open>
  The laws allow any call to raise. A database is healthy when its calls return: then a session
  whose row queries find their row returns as well, and commits.
\<close>

definition table_healthy :: "('row, 'd) table_ops \<Rightarrow> bool" where
  "table_healthy T \<longleftrightarrow>
     (\<forall>row d. \<exists>i d'. tb_add T row d = (Inr i, d')) \<and>
     (\<forall>P ord n d. \<exists>rs d'. tb_select T P ord n d = (Inr rs, d')) \<and>
     (\<forall>P f d. \<exists>d'. tb_update T P f d = (Inr (), d'))"

definition pg_healthy :: "'d pg_ops \<Rightarrow> bool" where
  "pg_healthy D \<longleftrightarrow>
     table_healthy (pg_tasks D) \<and> table_healthy (pg_workflows D) \<and> table_healthy (pg_memories D) \<and>
     table_healthy (pg_approvals D) \<and> (\<forall>d. \<exists>d'. pg_commit D d = (Inr (), d')) \<and>
     (\<forall>d. \<exists>d'. pg_rollback D d = (Inr (), d'))"

text \<open>A body that returns from every session contents satisfying \<open>P\<close>.\<close>

definition session_total ::
  "('r, 'd, 'v) env \<Rightarrow> (tables \<Rightarrow> bool) \<Rightarrow> ('r, 'd, 'v, 'a) act \<Rightarrow> (tables \<Rightarrow> 'a \<Rightarrow> tables \<Rightarrow> bool) \<Rightarrow> bool" where
  "session_total E P m R \<longleftrightarrow>
     (\<forall>w. P (in_session E w) \<longrightarrow>
       wp m (\<lambda>a w'. only_db w w' \<and> db E w' = db E w \<and> R (in_session E w) a (in_session E w')) (\<lambda>_ _. False) w)"

lemma session_total_weaken:
  "session_total E P m R \<Longrightarrow> (\<And>t. Q t \<Longrightarrow> P t) \<Longrightarrow> (\<And>t a t'. Q t \<Longrightarrow> R t a t' \<Longrightarrow> S t a t') \<Longrightarrow> session_total E Q m S"
  unfolding session_total_def by (blast intro: wp_mono)

lemma session_total_bnd:
  assumes "session_total E P m R" and "\<And>a. session_total E (\<lambda>t'. \<exists>t. P t \<and> R t a t') (k a) (S a)"
  shows "session_total E P (bnd m k) (\<lambda>t b t''. \<exists>a t'. R t a t' \<and> S a t' b t'')"
  unfolding session_total_def wp_bnd
proof (intro allI impI)
  fix w :: "('a, 'b, 'c) world" assume P: "P (in_session E w)"
  have k: "wp (k a) (\<lambda>b w''. only_db w w'' \<and> db E w'' = db E w \<and>
        (\<exists>a t'. R (in_session E w) a t' \<and> S a t' b (in_session E w''))) (\<lambda>e w''. False) w'"
    if "only_db w w'" "db E w' = db E w" "R (in_session E w) a (in_session E w')" for a w'
    by (rule wp_mono [OF assms(2) [of a, unfolded session_total_def, THEN spec, THEN mp, of w']])
      (use that P in \<open>auto intro: only_db_trans\<close>)
  show "wp m (\<lambda>a. wp (k a) (\<lambda>b w''. only_db w w'' \<and> db E w'' = db E w \<and>
        (\<exists>a t'. R (in_session E w) a t' \<and> S a t' b (in_session E w''))) (\<lambda>e w''. False)) (\<lambda>e w''. False) w"
    by (rule wp_mono [OF assms(1) [unfolded session_total_def, THEN spec, THEN mp, OF P]]) (auto intro: k)
qed

lemma session_total_ret: "session_total E P (ret a) (\<lambda>t b t'. b = a \<and> t' = t)"
  by (simp add: session_total_def)

lemma session_total_now: "session_total E P (utc_now E) (\<lambda>t _ t'. t' = t)"
  by (simp add: session_total_def)

lemma session_total_of_body:
  assumes "session_body E m R" and "\<And>w. P (in_session E w) \<Longrightarrow> wp m (\<lambda>_ _. True) (\<lambda>_ _. False) w"
  shows "session_total E P m R"
  unfolding session_total_def
proof (intro allI impI)
  fix w :: "('a, 'b, 'c) world" assume P: "P (in_session E w)"
  show "wp m (\<lambda>a w'. only_db w w' \<and> db E w' = db E w \<and> R (in_session E w) a (in_session E w')) (\<lambda>_ _. False) w"
    using wp_conj [OF assms(1) [unfolded session_body_def, THEN spec] assms(2) [OF P]] by simp
qed

lemma wp_on_pg_total: "\<exists>a d'. f (w_pg w) = (Inr a, d') \<Longrightarrow> wp (on_pg f) (\<lambda>_ _. True) (\<lambda>_ _. False) w"
  by auto

lemma session_total_add:
  assumes "table_laws (pg E) T rows upd key stamp" and "table_healthy T"
  shows "session_total E P (on_pg (tb_add T row))
    (\<lambda>t i t'. 0 < i \<and> i \<notin> key ` set (rows t) \<and> (\<exists>ts. t' = upd (\<lambda>rs. rs @ [stamp i ts row]) t))"
  by (rule session_total_of_body [OF session_body_add [OF assms(1)]])
    (use assms(2) in \<open>simp add: table_healthy_def wp_on_pg_total del: wp_on_pg\<close>)

lemma session_total_select:
  assumes "table_laws (pg E) T rows upd key stamp" and "table_healthy T"
  shows "session_total E P (on_pg (tb_select T C ord n)) (\<lambda>t rs t'. t' = t \<and> selects key C ord n (rows t) rs)"
  by (rule session_total_of_body [OF session_body_select [OF assms(1)]])
    (use assms(2) in \<open>simp add: table_healthy_def wp_on_pg_total del: wp_on_pg\<close>)

lemma session_total_update:
  assumes "table_laws (pg E) T rows upd key stamp" and "table_healthy T"
  shows "session_total E P (on_pg (tb_update T C f)) (\<lambda>t _ t'. t' = upd (map (\<lambda>r. if C r then f r else r)) t)"
  by (rule session_total_of_body [OF session_body_update [OF assms(1)]])
    (use assms(2) in \<open>simp add: table_healthy_def wp_on_pg_total del: wp_on_pg\<close>)

lemma session_total_fetch:
  assumes "table_laws (pg E) T rows upd key stamp" and "table_healthy T"
  shows "session_total E (\<lambda>t. \<exists>r. filter C (rows t) = [r])
    (bnd (on_pg (tb_select T C Unordered None)) (\<lambda>rows. lift_sum (scalar_one rows)))
    (\<lambda>t r t'. t' = t \<and> filter C (rows t) = [r])"
proof (rule session_total_weaken [OF session_total_bnd [OF session_total_select [OF assms], where k = "\<lambda>rows. lift_sum (scalar_one rows)"]])
  show "session_total E (\<lambda>t'. \<exists>t. (\<exists>r. filter C (rows t) = [r]) \<and> t' = t \<and> selects key C Unordered None (rows t) a)
     (lift_sum (scalar_one a)) (\<lambda>t r t'. t' = t \<and> a = [r])" for a
    by (auto simp: session_total_def scalar_one_def simp del: selects_all dest: selects_one)
qed (auto simp: mset_single_filter)

lemma pg_healthyD:
  assumes "pg_healthy D"
  shows "table_healthy (pg_tasks D)" and "table_healthy (pg_workflows D)"
    and "table_healthy (pg_memories D)" and "table_healthy (pg_approvals D)"
  using assms by (simp_all add: pg_healthy_def)

lemmas session_total_statements =
  session_total_add [OF pg_laws_tables(1) pg_healthyD(1), folded add_task_def]
  session_total_add [OF pg_laws_tables(2) pg_healthyD(2), folded add_workflow_def]
  session_total_add [OF pg_laws_tables(4) pg_healthyD(4), folded add_approval_def]
  session_total_update [OF pg_laws_tables(1) pg_healthyD(1), folded update_tasks_def]
  session_total_update [OF pg_laws_tables(2) pg_healthyD(2), folded update_workflows_def]
  session_total_update [OF pg_laws_tables(4) pg_healthyD(4), folded update_approvals_def]
  session_total_fetch [OF pg_laws_tables(1) pg_healthyD(1), where C = "\<lambda>r. task_id r = i" for i,
    folded select_tasks_def, folded fetch_task_def]
  session_total_fetch [OF pg_laws_tables(2) pg_healthyD(2), where C = "\<lambda>r. wf_id r = i" for i,
    folded select_workflows_def, folded fetch_workflow_def]
  session_total_fetch [OF pg_laws_tables(4) pg_healthyD(4), where C = "\<lambda>r. apr_id r = i" for i,
    folded select_approvals_def, folded fetch_approval_def]

lemmas session_total_memories =
  session_total_add [OF pg_laws_tables(3) pg_healthyD(3), folded add_memory_def]

text \<open>In a healthy database a session whose body returns commits.\<close>

theorem wp_session_scope_total:
  assumes laws: "pg_laws (pg E)" and healthy: "pg_healthy (pg E)" and body: "session_total E P m R"
    and pre: "P (db E w)"
    and ret: "\<And>a w'. only_db w w' \<Longrightarrow> R (db E w) a (db E w') \<Longrightarrow> Q a w'"
  shows "wp (session_scope E m) Q X w"
proof -
  let ?D = "pg E" and ?b = "w\<lparr>w_pg := pg_begin (pg E) (w_pg w)\<rparr>"
  note L = laws [unfolded pg_laws_def]
  have b: "db E ?b = db E w" "in_session E ?b = db E w"
    using L by (simp_all add: db_def in_session_def)
  have commit: "\<exists>d'. pg_commit ?D d = (Inr (), d') \<and> vw_committed ?D d' = vw_pending ?D d" for d
    using L healthy unfolding pg_healthy_def by metis
  have m: "wp m (\<lambda>a w'. only_db w w' \<and> R (db E w) a (in_session E w')) (\<lambda>_ _. False) ?b"
    by (rule wp_mono [OF body [unfolded session_total_def, THEN spec, THEN mp, of ?b]])
      (use b pre in \<open>auto simp: only_db_def\<close>)
  have Q: "wp (thn (on_pg (pg_commit ?D)) (ret a)) Q Y w'"
    if "only_db w w'" "R (db E w) a (in_session E w')" for a w' Y
    using commit [of "w_pg w'"] that by (auto simp: db_def in_session_def intro!: ret)
  show ?thesis
    unfolding session_scope_def wp_thn [of "modifies _"] wp_modifies wp_catching wp_bnd
    by (rule wp_mono [OF m]) (auto intro: Q simp del: wp_thn)
qed

text \<open>In a healthy database a session raises what its body raises.\<close>

lemma wp_session_scope_raises:
  assumes "pg_healthy (pg E)" and "\<And>w. wp m (\<lambda>_ _. True) (\<lambda>e _. B e) w"
  shows "wp (session_scope E m) (\<lambda>_ _. True) (\<lambda>e _. B e) w"
proof -
  have commit: "wp (on_pg (pg_commit (pg E))) (\<lambda>_ _. True) Y w'" for w' Y
    using assms(1) by (intro wp_mono [OF wp_on_pg_total]) (auto simp: pg_healthy_def)
  have rollback: "wp (on_pg (pg_rollback (pg E))) Q Y w'" if "\<And>u w''. Q u w''" for w' Y Q
    using assms(1) that by (intro wp_mono [OF wp_on_pg_total]) (auto simp: pg_healthy_def)
  show ?thesis
    unfolding session_scope_def wp_thn wp_modifies wp_catching wp_bnd wp_ret
    by (rule wp_mono [OF assms(2)]) (auto intro!: commit rollback simp del: wp_on_pg)
qed

text \<open>
  A body described on both exits: from session contents satisfying \<open>P\<close> it returns with \<open>R\<close> or
  raises an exception that \<open>B\<close> allows. On a healthy database its session scope ends the same way.
\<close>

definition session_ends ::
  "('r, 'd, 'v) env \<Rightarrow> (tables \<Rightarrow> bool) \<Rightarrow> ('r, 'd, 'v, 'a) act \<Rightarrow> (tables \<Rightarrow> 'a \<Rightarrow> tables \<Rightarrow> bool) \<Rightarrow>
    (tables \<Rightarrow> exn \<Rightarrow> bool) \<Rightarrow> bool" where
  "session_ends E P m R B \<longleftrightarrow>
     (\<forall>w. P (in_session E w) \<longrightarrow>
       wp m (\<lambda>a w'. only_db w w' \<and> db E w' = db E w \<and> R (in_session E w) a (in_session E w'))
         (\<lambda>e w'. only_db w w' \<and> db E w' = db E w \<and> B (in_session E w) e) w)"

lemma session_ends_total: "session_total E P m R \<Longrightarrow> session_ends E P m R B"
  unfolding session_total_def session_ends_def by (blast intro: wp_mono)

lemma session_ends_weaken:
  "session_ends E P m R B \<Longrightarrow> (\<And>t. Q t \<Longrightarrow> P t) \<Longrightarrow> (\<And>t a t'. Q t \<Longrightarrow> R t a t' \<Longrightarrow> S t a t') \<Longrightarrow>
     (\<And>t e. Q t \<Longrightarrow> B t e \<Longrightarrow> C t e) \<Longrightarrow> session_ends E Q m S C"
  unfolding session_ends_def by (blast intro: wp_mono)

lemma session_ends_lift:
  "session_ends E P (lift_sum r) (\<lambda>t a t'. r = Inr a \<and> t' = t) (\<lambda>t e. r = Inl e)"
  by (simp add: session_ends_def split: sum.splits)

lemma session_ends_ret: "session_ends E P (ret a) (\<lambda>t b t'. b = a \<and> t' = t) B"
  by (rule session_ends_total [OF session_total_ret])

lemma session_ends_raise: "session_ends E P (raise x) R (\<lambda>t e. e = x)"
  by (simp add: session_ends_def)

lemma session_ends_bnd:
  assumes "session_ends E P m R B" and "\<And>a. session_ends E (\<lambda>t'. \<exists>t. P t \<and> R t a t') (k a) (S a) (C a)"
  shows "session_ends E P (bnd m k) (\<lambda>t b t''. \<exists>a t'. R t a t' \<and> S a t' b t'')
    (\<lambda>t e. B t e \<or> (\<exists>a t'. R t a t' \<and> C a t' e))"
  unfolding session_ends_def wp_bnd
proof (intro allI impI)
  fix w :: "('a, 'b, 'c) world" assume P: "P (in_session E w)"
  have k: "wp (k a) (\<lambda>b w''. only_db w w'' \<and> db E w'' = db E w \<and>
        (\<exists>a t'. R (in_session E w) a t' \<and> S a t' b (in_session E w'')))
      (\<lambda>e w''. only_db w w'' \<and> db E w'' = db E w \<and>
        (B (in_session E w) e \<or> (\<exists>a t'. R (in_session E w) a t' \<and> C a t' e))) w'"
    if "only_db w w'" "db E w' = db E w" "R (in_session E w) a (in_session E w')" for a w'
    by (rule wp_mono [OF assms(2) [of a, unfolded session_ends_def, THEN spec, THEN mp, of w']])
      (use that P in \<open>auto intro: only_db_trans\<close>)
  show "wp m (\<lambda>a. wp (k a) (\<lambda>b w''. only_db w w'' \<and> db E w'' = db E w \<and>
        (\<exists>a t'. R (in_session E w) a t' \<and> S a t' b (in_session E w'')))
      (\<lambda>e w''. only_db w w'' \<and> db E w'' = db E w \<and>
        (B (in_session E w) e \<or> (\<exists>a t'. R (in_session E w) a t' \<and> C a t' e))))
      (\<lambda>e w''. only_db w w'' \<and> db E w'' = db E w \<and>
        (B (in_session E w) e \<or> (\<exists>a t'. R (in_session E w) a t' \<and> C a t' e))) w"
    by (rule wp_mono [OF assms(1) [unfolded session_ends_def, THEN spec, THEN mp, OF P]]) (auto intro: k)
qed

theorem wp_session_scope_ends:
  assumes laws: "pg_laws (pg E)" and healthy: "pg_healthy (pg E)" and body: "session_ends E P m R B"
    and pre: "P (db E w)"
    and ret: "\<And>a w'. only_db w w' \<Longrightarrow> R (db E w) a (db E w') \<Longrightarrow> Q a w'"
    and exc: "\<And>e w'. only_db w w' \<Longrightarrow> db E w' = db E w \<Longrightarrow> B (db E w) e \<Longrightarrow> X e w'"
  shows "wp (session_scope E m) Q X w"
proof -
  let ?D = "pg E" and ?b = "w\<lparr>w_pg := pg_begin (pg E) (w_pg w)\<rparr>"
  note L = laws [unfolded pg_laws_def]
  have b: "db E ?b = db E w" "in_session E ?b = db E w"
    using L by (simp_all add: db_def in_session_def)
  have commit: "\<exists>d'. pg_commit ?D d = (Inr (), d') \<and> vw_committed ?D d' = vw_pending ?D d" for d
    using L healthy unfolding pg_healthy_def by metis
  have rollback: "\<exists>d'. pg_rollback ?D d = (Inr (), d') \<and> vw_committed ?D d' = vw_committed ?D d" for d
    using L healthy unfolding pg_healthy_def by (metis snd_conv)
  have m: "wp m (\<lambda>a w'. only_db w w' \<and> R (db E w) a (in_session E w'))
      (\<lambda>e w'. only_db w w' \<and> db E w' = db E w \<and> B (db E w) e) ?b"
    by (rule wp_mono [OF body [unfolded session_ends_def, THEN spec, THEN mp, of ?b]])
      (use b pre in \<open>auto simp: only_db_def\<close>)
  have Q: "wp (thn (on_pg (pg_commit ?D)) (ret a)) Q Y w'"
    if "only_db w w'" "R (db E w) a (in_session E w')" for a w' Y
    using commit [of "w_pg w'"] that by (auto simp: db_def in_session_def intro!: ret)
  have X: "wp (thn (on_pg (pg_rollback ?D)) (raise e)) Z X w'"
    if "only_db w w'" "db E w' = db E w" "B (db E w) e" for e w' Z
    using rollback [of "w_pg w'"] that by (auto simp: db_def intro!: exc)
  show ?thesis
    unfolding session_scope_def wp_thn [of "modifies _"] wp_modifies wp_catching wp_bnd
    by (rule wp_mono [OF m]) (auto intro: Q X exc simp del: wp_thn)
qed

text \<open>
  Both views of a body at once: what it does when it returns, and that it returns from the
  contents satisfying \<open>P\<close> when the database is healthy.
\<close>

definition session_op ::
  "('r, 'd, 'v) env \<Rightarrow> (tables \<Rightarrow> bool) \<Rightarrow> ('r, 'd, 'v, 'a) act \<Rightarrow> (tables \<Rightarrow> 'a \<Rightarrow> tables \<Rightarrow> bool) \<Rightarrow> bool" where
  "session_op E P m R \<longleftrightarrow> session_body E m R \<and> (pg_healthy (pg E) \<longrightarrow> session_total E P m R)"

lemma session_op_bnd:
  "session_op E P m R \<Longrightarrow> (\<And>a. session_op E (\<lambda>t'. \<exists>t. P t \<and> R t a t') (k a) (S a)) \<Longrightarrow>
     session_op E P (bnd m k) (\<lambda>t b t''. \<exists>a t'. R t a t' \<and> S a t' b t'')"
  unfolding session_op_def by (blast intro: session_body_bnd session_total_bnd)

lemma session_op_weaken:
  "session_op E P m R \<Longrightarrow> (\<And>t. Q t \<Longrightarrow> P t) \<Longrightarrow> (\<And>t a t'. R t a t' \<Longrightarrow> S t a t') \<Longrightarrow> session_op E Q m S"
  unfolding session_op_def by (blast intro: session_body_weaken session_total_weaken)

lemma session_op_any: "session_op E (\<lambda>_. True) m R \<Longrightarrow> session_op E P m R"
  by (rule session_op_weaken) simp_all

lemma session_op_ret: "session_op E P (ret a) (\<lambda>t b t'. b = a \<and> t' = t)"
  by (simp add: session_op_def session_body_ret session_total_ret)

lemma session_op_now: "session_op E P (utc_now E) (\<lambda>t _ t'. t' = t)"
  by (simp add: session_op_def session_body_now session_total_now)

lemma session_op_statements:
  assumes "pg_laws (pg E)"
  shows "session_op E P (add_task E row)
      (\<lambda>t i t'. 0 < i \<and> i \<notin> task_id ` set (tasks t) \<and> (\<exists>ts. t' = tasks_update (\<lambda>rs. rs @ [stamp_task i ts row]) t))"
    and "session_op E P (add_workflow E wrow)
      (\<lambda>t i t'. 0 < i \<and> i \<notin> wf_id ` set (workflows t) \<and>
        (\<exists>ts. t' = workflows_update (\<lambda>rs. rs @ [stamp_workflow i ts wrow]) t))"
    and "session_op E P (update_tasks E C f) (\<lambda>t _ t'. t' = tasks_update (map (\<lambda>r. if C r then f r else r)) t)"
    and "session_op E P (update_workflows E CW g)
      (\<lambda>t _ t'. t' = workflows_update (map (\<lambda>r. if CW r then g r else r)) t)"
    and "session_op E (\<lambda>t. \<exists>r. filter (\<lambda>r. task_id r = i) (tasks t) = [r]) (fetch_task E i)
      (\<lambda>t r t'. t' = t \<and> filter (\<lambda>r. task_id r = i) (tasks t) = [r])"
    and "session_op E (\<lambda>t. \<exists>r. filter (\<lambda>r. wf_id r = i) (workflows t) = [r]) (fetch_workflow E i)
      (\<lambda>t r t'. t' = t \<and> filter (\<lambda>r. wf_id r = i) (workflows t) = [r])"
    and "session_op E P (select_workflows E CW ord n)
      (\<lambda>t rs t'. t' = t \<and> selects wf_id CW ord n (workflows t) rs)"
  unfolding session_op_def
  by (blast intro: session_body_statements [OF assms] session_body_fetch_task [OF assms]
      session_body_fetch_workflow [OF assms] session_total_statements [OF assms]
      session_total_select [OF pg_laws_tables(2) [OF assms] pg_healthyD(2), folded select_workflows_def])+

text \<open>A loop in a session, with a relation between its start and where it stands.\<close>

lemma session_op_for_each:
  fixes E :: "('r, 'd, 'v) env"
  assumes body: "\<And>x. session_op E (\<lambda>_. True) (f x) (S x)"
    and start: "\<And>t. I [] t t"
    and step: "\<And>ys x zs t0 t u t'. xs = ys @ x # zs \<Longrightarrow> I ys t0 t \<Longrightarrow> S x t u t' \<Longrightarrow> I (ys @ [x]) t0 t'"
  shows "session_op E (\<lambda>_. True) (for_each xs f) (\<lambda>t _ t'. I xs t t')"
proof -
  have "session_op E (\<lambda>_. True) (for_each zs f) (\<lambda>t _ t'. \<forall>t0. I ys t0 t \<longrightarrow> I xs t0 t')" if "xs = ys @ zs" for ys zs
    using that
  proof (induction zs arbitrary: ys)
    case Nil
    then show ?case by (simp add: session_op_def session_body_def session_total_def)
  next
    case (Cons z zs)
    from Cons.prems have "xs = (ys @ [z]) @ zs" by simp
    note IH = Cons.IH [OF this, THEN session_op_any]
    have "session_op E (\<lambda>_. True) (thn (f z) (for_each zs f)) (\<lambda>t _ t'. \<forall>t0. I ys t0 t \<longrightarrow> I xs t0 t')"
      unfolding thn_def
      by (rule session_op_weaken [OF session_op_bnd [OF body IH]]) (use step [OF Cons.prems] in blast)+
    then show ?case by simp
  qed
  from this [of "[]" xs] show ?thesis
    by (rule session_op_weaken) (auto intro: start)
qed

text \<open>The rule of a session scope for both cases.\<close>

theorem wp_session_scope_op:
  assumes laws: "pg_laws (pg E)" and body: "session_op E P m R" and pre: "P (db E w)"
    and ret: "\<And>a w'. only_db w w' \<Longrightarrow> R (db E w) a (db E w') \<Longrightarrow> Q a w'"
    and exc: "\<And>e w'. \<not> pg_healthy (pg E) \<Longrightarrow> only_db w w' \<Longrightarrow> db E w' = db E w \<Longrightarrow> X e w'"
  shows "wp (session_scope E m) Q X w"
proof (cases "pg_healthy (pg E)")
  case True
  with body show ?thesis
    unfolding session_op_def
    by (intro wp_session_scope_total [OF laws True, where P = P and R = R]) (auto intro: ret pre)
next
  case False
  with body show ?thesis
    unfolding session_op_def by (intro wp_session_scope [OF laws, where R = R]) (auto intro: ret exc)
qed

lemma wp_db_ping:
  assumes "pg_laws (pg E)"
    and "\<And>b w'. only_db w w' \<Longrightarrow> db E w' = db E w \<Longrightarrow> Q b w'"
    and "\<And>w'. only_db w w' \<Longrightarrow> db E w' = db E w \<Longrightarrow> X CancelledError w'"
  shows "wp (db_ping E) Q X w"
proof -
  have "vw_committed (pg E) d' = vw_committed (pg E) d" if "pg_ping (pg E) d = (x, d')" for x d d'
    using assms(1) that unfolding pg_laws_def by (metis snd_conv)
  with assms(2,3) show ?thesis
    by (auto simp: db_ping_def db_def split: prod.splits sum.splits)
qed

text \<open>Statements and sessions keep what lies beside the database.\<close>

lemma keeps_statements [wp_ops]:
  "keeps beside_db (add_task E r1)" "keeps beside_db (add_workflow E r2)" "keeps beside_db (add_memory E r3)"
  "keeps beside_db (add_approval E r4)" "keeps beside_db (select_tasks E P1 ord n)"
  "keeps beside_db (select_workflows E P2 ord n)" "keeps beside_db (select_memories E P3 ord n)"
  "keeps beside_db (select_approvals E P4 ord n)" "keeps beside_db (update_tasks E P1 f1)"
  "keeps beside_db (update_workflows E P2 f2)" "keeps beside_db (update_memories E P3 f3)"
  "keeps beside_db (update_approvals E P4 f4)"
  unfolding statement_defs by (rule keeps_calls)+

lemma keeps_fetch [wp_ops]:
  "keeps beside_db (fetch_task E i)" "keeps beside_db (fetch_workflow E i)"
  "keeps beside_db (fetch_approval E i)" "keeps beside_db (find_approval E i)"
  unfolding fetch_defs by (intro wp_ops)+

lemma keeps_session_scope [wp_ops]: "keeps beside_db m \<Longrightarrow> keeps beside_db (session_scope E m)"
  unfolding session_scope_def by (intro wp_ops keeps_modifies) (simp_all add: beside_db_def)

end
