(* ===== verification/Reference_Services.thy ===== *)
theory Reference_Services
  imports Store
begin

text \<open>
  Concrete services that satisfy the laws: an in-memory Redis whose clock advances by one second
  with each command, and an in-memory Postgres with snapshot sessions. They show that the
  hypotheses \<open>redis_laws\<close> and \<open>pg_laws\<close> can hold, and the witnesses of the properties
  run the program on them. Nothing else depends on them.
\<close>

section \<open>Redis\<close>

record mem_redis_state =
  mr_lists :: "string \<Rightarrow> string list"
  mr_keys :: "string \<Rightarrow> (string \<times> int) option"
  mr_time :: int

definition mr_tick :: "mem_redis_state \<Rightarrow> mem_redis_state" where
  "mr_tick r = r\<lparr>mr_time := mr_time r + 1\<rparr>"

definition mr_live :: "mem_redis_state \<Rightarrow> string \<Rightarrow> string option" where
  "mr_live r k = (case mr_keys r k of None \<Rightarrow> None | Some (v, e) \<Rightarrow> if mr_time r < e then Some v else None)"

definition mr_set_nx_ex :: "string \<Rightarrow> string \<Rightarrow> int \<Rightarrow> mem_redis_state \<Rightarrow> (exn + bool) \<times> mem_redis_state" where
  "mr_set_nx_ex k v ttl r =
     (if mr_live (mr_tick r) k = None
      then (Inr True, (mr_tick r)\<lparr>mr_keys := (mr_keys r)(k \<mapsto> (v, mr_time r + 1 + ttl))\<rparr>)
      else (Inr False, mr_tick r))"

definition mr_blpop :: "string list \<Rightarrow> mem_redis_state \<Rightarrow> (exn + (string \<times> string) option) \<times> mem_redis_state" where
  "mr_blpop ks r =
     (case find (\<lambda>k. mr_lists r k \<noteq> []) ks of
        None \<Rightarrow> (Inr None, mr_tick r)
      | Some k \<Rightarrow> (Inr (Some (k, hd (mr_lists r k))),
          (mr_tick r)\<lparr>mr_lists := (mr_lists r)(k := tl (mr_lists r k))\<rparr>))"

definition mem_redis :: "mem_redis_state redis_ops" where
  "mem_redis =
     \<lparr>rd_set_nx_ex = mr_set_nx_ex,
      rd_set_ex = (\<lambda>k v ttl r. (Inr (), (mr_tick r)\<lparr>mr_keys := (mr_keys r)(k \<mapsto> (v, mr_time r + 1 + ttl))\<rparr>)),
      rd_get = (\<lambda>k r. (Inr (mr_live (mr_tick r) k), mr_tick r)),
      rd_delete = (\<lambda>k r. (Inr (), (mr_tick r)\<lparr>mr_keys := (mr_keys r)(k := None)\<rparr>)),
      rd_rpush = (\<lambda>k v r. (Inr (), (mr_tick r)\<lparr>mr_lists := (mr_lists r)(k := mr_lists r k @ [v])\<rparr>)),
      rd_blpop = mr_blpop,
      rd_llen = (\<lambda>k r. (Inr (int (length (mr_lists r k))), mr_tick r)),
      rd_lrange = (\<lambda>k a b r. (Inr (lrange (mr_lists r k) a b), mr_tick r)),
      rd_ping = (\<lambda>r. (Inr True, mr_tick r)),
      vw_lists = mr_lists, vw_keys = mr_keys, vw_time = mr_time\<rparr>"

lemmas mem_redis_eval = mem_redis_def mr_set_nx_ex_def mr_blpop_def mr_live_def mr_tick_def

lemma find_Some_prop: "find P xs = Some x \<Longrightarrow> P x"
  by (induction xs) (auto split: if_splits)

lemma mem_redis_laws [simp]: "redis_laws mem_redis"
proof -
  have pop: "find (\<lambda>k. mr_lists r k \<noteq> []) ks = Some k \<Longrightarrow> mr_lists r k = hd (mr_lists r k) # tl (mr_lists r k)"
    for r ks k by (drule find_Some_prop) simp
  show ?thesis
    unfolding redis_laws_def
    by (intro conjI allI impI)
      (auto simp: mem_redis_eval live_def find_None_iff split: option.splits if_splits dest: pop)
qed

section \<open>Postgres\<close>

record mem_pg_state =
  mp_committed :: tables
  mp_pending :: tables

text \<open>The next key of a table, and what a table answers.\<close>

definition next_key :: "('row \<Rightarrow> int) \<Rightarrow> 'row list \<Rightarrow> int" where
  "next_key key rows = foldr (\<lambda>r m. max (key r) m) rows 0 + 1"

definition in_order :: "('row \<Rightarrow> int) \<Rightarrow> order \<Rightarrow> 'row list \<Rightarrow> 'row list" where
  "in_order key ord rows =
     (case ord of Unordered \<Rightarrow> rows | Id_Asc \<Rightarrow> sort_key key rows | Id_Desc \<Rightarrow> rev (sort_key key rows))"

definition group_counts :: "('row \<Rightarrow> bool) \<Rightarrow> ('row \<Rightarrow> string option) \<Rightarrow> 'row list \<Rightarrow> (string option \<times> int) list" where
  "group_counts P f rows =
     map (\<lambda>k. (k, int (length (filter (\<lambda>r. P r \<and> f r = k) rows)))) (remdups (map f (filter P rows)))"

definition mem_table :: "(tables \<Rightarrow> 'row list) \<Rightarrow> (('row list \<Rightarrow> 'row list) \<Rightarrow> tables \<Rightarrow> tables) \<Rightarrow>
    ('row \<Rightarrow> int) \<Rightarrow> (int \<Rightarrow> datetime \<Rightarrow> 'row \<Rightarrow> 'row) \<Rightarrow> ('row, mem_pg_state) table_ops" where
  "mem_table rows upd key stamp =
     \<lparr>tb_add = (\<lambda>row d. let i = next_key key (rows (mp_pending d)) in
        (Inr i, d\<lparr>mp_pending := upd (\<lambda>rs. rs @ [stamp i 0 row]) (mp_pending d)\<rparr>)),
      tb_select = (\<lambda>P ord n d. (Inr (take_limit n (in_order key ord (filter P (rows (mp_pending d))))), d)),
      tb_update = (\<lambda>P f d. (Inr (), d\<lparr>mp_pending := upd (map (\<lambda>r. if P r then f r else r)) (mp_pending d)\<rparr>)),
      tb_count_by = (\<lambda>P f desc n d.
        (Inr (take_limit n
           (let c = group_counts P f (rows (mp_pending d)) in if desc then rev (sort_key snd c) else c)), d))\<rparr>"

definition mem_pg :: "mem_pg_state pg_ops" where
  "mem_pg =
     \<lparr>pg_begin = (\<lambda>d. d\<lparr>mp_pending := mp_committed d\<rparr>),
      pg_commit = (\<lambda>d. (Inr (), d\<lparr>mp_committed := mp_pending d\<rparr>)),
      pg_rollback = (\<lambda>d. (Inr (), d\<lparr>mp_pending := mp_committed d\<rparr>)),
      pg_ping = (\<lambda>d. (Inr (), d)),
      pg_tasks = mem_table tasks tasks_update task_id stamp_task,
      pg_workflows = mem_table workflows workflows_update wf_id stamp_workflow,
      pg_memories = mem_table memories memories_update mem_id stamp_memory,
      pg_approvals = mem_table approvals approvals_update apr_id stamp_approval,
      vw_committed = mp_committed, vw_pending = mp_pending\<rparr>"

lemma next_key_pos: "0 < next_key key rows" and next_key_fresh: "r \<in> set rows \<Longrightarrow> key r < next_key key rows"
proof -
  have "0 \<le> foldr (\<lambda>r m. max (key r) m) rows (0::int)" by (induction rows) auto
  then show "0 < next_key key rows" by (simp add: next_key_def)
  have "r \<in> set rows \<Longrightarrow> key r \<le> foldr (\<lambda>r m. max (key r) m) rows (0::int)" by (induction rows) auto
  then show "r \<in> set rows \<Longrightarrow> key r < next_key key rows" by (simp add: next_key_def)
qed

lemma in_order_selects: "selects key P ord n rows (take_limit n (in_order key ord (filter P rows)))"
  unfolding selects_def in_order_def
  by (rule exI [of _ "in_order key ord (filter P rows)"])
    (auto simp: in_order_def rev_map split: order.splits)

lemma group_counts_ok:
  "counts_by P f desc n rows
     (take_limit n (let c = group_counts P f rows in if desc then rev (sort_key snd c) else c))"
  unfolding counts_by_def
  by (rule exI [of _ "let c = group_counts P f rows in if desc then rev (sort_key snd c) else c"])
    (auto simp: group_counts_def Let_def comp_def rev_map distinct_map inj_on_def image_iff
      split: if_splits)

lemma mem_table_laws:
  assumes "\<And>f t. mem_rows (upd f t) = f (mem_rows t)"
  shows "table_laws mem_pg (mem_table mem_rows upd key stamp) mem_rows upd key stamp"
  unfolding table_laws_def
  by (intro conjI allI impI)
    (auto simp: mem_table_def mem_pg_def Let_def in_order_selects next_key_pos
      group_counts_ok [unfolded Let_def] dest: next_key_fresh [of _ _ key])

lemma mem_pg_laws [simp]: "pg_laws mem_pg"
proof -
  have "table_laws mem_pg (mem_table tasks tasks_update task_id stamp_task) tasks tasks_update task_id stamp_task"
    "table_laws mem_pg (mem_table workflows workflows_update wf_id stamp_workflow) workflows workflows_update wf_id stamp_workflow"
    "table_laws mem_pg (mem_table memories memories_update mem_id stamp_memory) memories memories_update mem_id stamp_memory"
    "table_laws mem_pg (mem_table approvals approvals_update apr_id stamp_approval) approvals approvals_update apr_id stamp_approval"
    by (rule mem_table_laws, simp)+
  then show ?thesis
    unfolding pg_laws_def by (simp add: mem_pg_def)
qed

lemma mem_pg_healthy [simp]: "pg_healthy mem_pg"
  by (simp add: pg_healthy_def table_healthy_def mem_pg_def mem_table_def Let_def)

lemmas mem_pg_eval = mem_pg_def mem_table_def next_key_def in_order_def group_counts_def
  take_limit_def stamp_defs

section \<open>An environment\<close>

text \<open>
  Calls are one second apart, ids are the call's number, the digest of a text is the text, the
  prompt templates hold the placeholders only, and the outcomes of the LLM, the webhooks and the
  file are arguments.
\<close>

definition mem_env ::
  "settings \<Rightarrow> (llm_request \<Rightarrow> nat \<Rightarrow> exn + json) \<Rightarrow> (string \<Rightarrow> json \<Rightarrow> nat \<Rightarrow> exn + (int \<times> string)) \<Rightarrow>
   (string \<Rightarrow> string \<Rightarrow> nat \<Rightarrow> exn + unit) \<Rightarrow> (mem_redis_state, mem_pg_state, unit) env" where
  "mem_env s llm http app =
     \<lparr>cfg = s,
      clock = (\<lambda>n. seconds (int n)),
      uuid4 = (\<lambda>n. str_of_nat n),
      sha256_hex = (\<lambda>t. t),
      redis = mem_redis,
      pg = mem_pg,
      chroma = \<lparr>ch_upsert = (\<lambda>ids docs metas v. (Inr (), v)),
                ch_query = (\<lambda>t n v. (Inr \<lparr>cr_ids = None, cr_documents = None, cr_metadatas = None, cr_distances = None\<rparr>, v)),
                ch_count = (\<lambda>v. (Inr 0, v)),
                ch_delete = (\<lambda>ids v. (Inr (), v))\<rparr>,
      eng_template = Inr ''{{subject}}|{{author}}|{{sha}}|{{diff}}'',
      social_template = Inr ''{{summary}}|{{changelog}}|{{risk_level}}'',
      acompletion = llm,
      http_post = http,
      append_file = app\<rparr>"

definition empty_tables :: tables where
  "empty_tables = \<lparr>tasks = [], workflows = [], memories = [], approvals = []\<rparr>"

definition mem_world :: "tables \<Rightarrow> (mem_redis_state, mem_pg_state, unit) world" where
  "mem_world t =
     \<lparr>w_redis = \<lparr>mr_lists = (\<lambda>_. []), mr_keys = (\<lambda>_. None), mr_time = 0\<rparr>,
      w_pg = \<lparr>mp_committed = t, mp_pending = t\<rparr>,
      w_vec = (),
      w_tick = 0,
      w_file = [],
      w_ctx = \<lparr>current_workflow_id = None, current_job_id = None\<rparr>,
      w_trace = []\<rparr>"

lemma mem_env_laws [simp]:
  "redis_laws (redis (mem_env s llm http app))" "pg_laws (pg (mem_env s llm http app))"
  by (simp_all add: mem_env_def mem_redis_laws mem_pg_laws)

text \<open>The components of the environment and of the world, for running the program on them.\<close>

lemma mem_env_sel [simp]:
  "cfg (mem_env s llm http app) = s" "clock (mem_env s llm http app) n = seconds (int n)"
  "uuid4 (mem_env s llm http app) n = str_of_nat n" "sha256_hex (mem_env s llm http app) t = t"
  "redis (mem_env s llm http app) = mem_redis" "pg (mem_env s llm http app) = mem_pg"
  "eng_template (mem_env s llm http app) = Inr ''{{subject}}|{{author}}|{{sha}}|{{diff}}''"
  "social_template (mem_env s llm http app) = Inr ''{{summary}}|{{changelog}}|{{risk_level}}''"
  "acompletion (mem_env s llm http app) = llm" "http_post (mem_env s llm http app) = http"
  "append_file (mem_env s llm http app) = app"
  by (simp_all add: mem_env_def)

lemma mem_world_sel [simp]:
  "mr_lists (w_redis (mem_world t)) k = []" "mr_keys (w_redis (mem_world t)) k = None"
  "mr_time (w_redis (mem_world t)) = 0"
  "mp_committed (w_pg (mem_world t)) = t" "w_tick (mem_world t) = 0" "w_file (mem_world t) = []"
  "w_trace (mem_world t) = []" "current_workflow_id (w_ctx (mem_world t)) = None"
  by (simp_all add: mem_world_def)

lemma mem_redis_view [simp]:
  "vw_lists mem_redis r = mr_lists r" "vw_keys mem_redis r = mr_keys r" "vw_time mem_redis r = mr_time r"
  by (simp_all add: mem_redis_def)

lemma db_mem [simp]: "db (mem_env s llm http app) w = mp_committed (w_pg w)"
  by (simp add: db_def mem_pg_def)

text \<open>Commands of the in-memory Redis never raise.\<close>

lemma mem_redis_run:
  "rd_rpush mem_redis k v r = (Inr (), (mr_tick r)\<lparr>mr_lists := (mr_lists r)(k := mr_lists r k @ [v])\<rparr>)"
  "rd_blpop mem_redis ks r = mr_blpop ks r"
  "rd_llen mem_redis k r = (Inr (int (length (mr_lists r k))), mr_tick r)"
  "rd_lrange mem_redis k a b r = (Inr (lrange (mr_lists r k) a b), mr_tick r)"
  "rd_set_nx_ex mem_redis k v n r = mr_set_nx_ex k v n r"
  "rd_set_ex mem_redis k v n r = (Inr (), (mr_tick r)\<lparr>mr_keys := (mr_keys r)(k \<mapsto> (v, mr_time r + 1 + n))\<rparr>)"
  "rd_get mem_redis k r = (Inr (mr_live (mr_tick r) k), mr_tick r)"
  "rd_delete mem_redis k r = (Inr (), (mr_tick r)\<lparr>mr_keys := (mr_keys r)(k := None)\<rparr>)"
  by (simp_all add: mem_redis_def)

lemmas mem_run = on_redis_def bnd_def thn_def ret_def raise_def lift_sum_def modifies_def catching_def
  fresh_tick_def utc_now_def mem_redis_run

lemma mem_pg_tables:
  "pg_tasks mem_pg = mem_table tasks tasks_update task_id stamp_task"
  "pg_workflows mem_pg = mem_table workflows workflows_update wf_id stamp_workflow"
  "pg_memories mem_pg = mem_table memories memories_update mem_id stamp_memory"
  "pg_approvals mem_pg = mem_table approvals approvals_update apr_id stamp_approval"
  "pg_begin mem_pg d = d\<lparr>mp_pending := mp_committed d\<rparr>"
  "pg_commit mem_pg d = (Inr (), d\<lparr>mp_committed := mp_pending d\<rparr>)"
  "pg_rollback mem_pg d = (Inr (), d\<lparr>mp_pending := mp_committed d\<rparr>)"
  "pg_ping mem_pg d = (Inr (), d)"
  by (simp_all add: mem_pg_def)

lemma mem_table_run:
  "tb_add (mem_table rows upd key stamp) row d =
     (Inr (next_key key (rows (mp_pending d))),
      d\<lparr>mp_pending := upd (\<lambda>rs. rs @ [stamp (next_key key (rows (mp_pending d))) 0 row]) (mp_pending d)\<rparr>)"
  "tb_select (mem_table rows upd key stamp) P ord n d =
     (Inr (take_limit n (in_order key ord (filter P (rows (mp_pending d))))), d)"
  "tb_update (mem_table rows upd key stamp) P f d =
     (Inr (), d\<lparr>mp_pending := upd (map (\<lambda>r. if P r then f r else r)) (mp_pending d)\<rparr>)"
  by (simp_all add: mem_table_def Let_def)

lemmas mem_db_run = on_pg_def mem_pg_tables mem_table_run session_scope_def statement_defs
  next_key_def in_order_def take_limit_def stamp_defs blank_defs

text \<open>The environment with the default settings, no LLM, and channels that accept everything.\<close>

abbreviation quiet_env :: "(mem_redis_state, mem_pg_state, unit) env" where
  "quiet_env \<equiv> mem_env (default_settings ''/srv'') (\<lambda>_ _. Inl TimeoutError) (\<lambda>_ _ _. Inr (200, [])) (\<lambda>_ _ _. Inr ())"

end
