(* ===== verification/Queue.thy ===== *)
theory Queue
  imports Reference_Services
begin

text \<open>
  \<^verbatim>\<open>core/queues/redis_queue.py\<close>: jobs, their JSON form, and the queue operations over the
  three Redis lists. The interface the workers and the API rely on is the locale \<open>job_queue\<close>;
  its client lemma says that any script of enqueues and dequeues behaves as the same script over
  plain lists, and \<open>rq\<close> interprets it on the operations of this file.
\<close>

section \<open>Queue names and jobs\<close>

datatype queue_name = HIGH | NORMAL | FAILED

fun queue_value :: "queue_name \<Rightarrow> string" where
  "queue_value HIGH = ''wiseorder:queue:high_priority''"
| "queue_value NORMAL = ''wiseorder:queue:normal_priority''"
| "queue_value FAILED = ''wiseorder:queue:failed_jobs''"

text \<open>\<^verbatim>\<open>q.name.lower()\<close>, the key of a queue in the depth report.\<close>

fun queue_label :: "queue_name \<Rightarrow> string" where
  "queue_label HIGH = ''high''"
| "queue_label NORMAL = ''normal''"
| "queue_label FAILED = ''failed''"

lemma queue_value_inj [simp]: "queue_value p = queue_value q \<longleftrightarrow> p = q"
  by (cases p; cases q) (simp_all add: queue_value.simps)

declare queue_value.simps [simp del]

text \<open>
  The members of the enumeration in the order of the class: \<^verbatim>\<open>for q in QueueName\<close> goes
  through \<open>enum\<close>, and the order is the one in which a worker serves the queues.
\<close>

instantiation queue_name :: enum
begin

definition "enum_queue_name = [HIGH, NORMAL, FAILED]"
definition "enum_all_queue_name P \<longleftrightarrow> P HIGH \<and> P NORMAL \<and> P FAILED"
definition "enum_ex_queue_name P \<longleftrightarrow> P HIGH \<or> P NORMAL \<or> P FAILED"

instance
proof
  show "UNIV = set (Enum.enum :: queue_name list)"
    by (auto simp: enum_queue_name_def intro: queue_name.exhaust)
  show "Enum.enum_all P \<longleftrightarrow> Ball UNIV P" for P :: "queue_name \<Rightarrow> bool"
    by (metis UNIV_I enum_all_queue_name_def queue_name.exhaust)
  show "Enum.enum_ex P \<longleftrightarrow> Bex UNIV P" for P :: "queue_name \<Rightarrow> bool"
    by (metis UNIV_I enum_ex_queue_name_def queue_name.exhaust)
qed (simp add: enum_queue_name_def)

end

lemma queue_names: "(Enum.enum :: queue_name list) = [HIGH, NORMAL, FAILED]"
  by (rule enum_queue_name_def)

fun queue_rank :: "queue_name \<Rightarrow> nat" where
  "queue_rank HIGH = 0"
| "queue_rank NORMAL = 1"
| "queue_rank FAILED = 2"

instantiation queue_name :: linorder
begin

definition "p \<le> q \<longleftrightarrow> queue_rank p \<le> queue_rank q"
definition "p < q \<longleftrightarrow> queue_rank p < queue_rank q"

instance
proof
  show "p = q" if "p \<le> q" and "q \<le> p" for p q :: queue_name
    using that by (cases p; cases q) (simp_all add: less_eq_queue_name_def)
qed (auto simp: less_eq_queue_name_def less_queue_name_def)

end

lemma below_failed: "q < FAILED \<longleftrightarrow> q = HIGH \<or> q = NORMAL"
  by (cases q) (simp_all add: less_queue_name_def)

lemma queue_names_sorted: "sorted (Enum.enum :: queue_name list)"
  by (simp add: queue_names less_eq_queue_name_def)

record job =
  job_id :: string
  job_type :: string
  job_payload :: dict
  job_created_at :: string
  job_attempt :: int
  job_workflow_id :: "int option"
  job_parent_id :: "string option"
  job_notes :: "string list"

definition job_new :: "('r, 'd, 'v) env \<Rightarrow> string \<Rightarrow> dict \<Rightarrow> int option \<Rightarrow> string option \<Rightarrow> ('r, 'd, 'v, job) act" where
  "job_new E ty payload wfid parent =
     bnd fresh_tick (\<lambda>n.
     bnd (utc_now E) (\<lambda>t.
     ret \<lparr>job_id = uuid4 E n, job_type = ty, job_payload = payload, job_created_at = isoformat t,
          job_attempt = 0, job_workflow_id = wfid, job_parent_id = parent, job_notes = []\<rparr>))"

text \<open>\<^verbatim>\<open>json.dumps(asdict(self))\<close>\<close>

definition dict_of_job :: "job \<Rightarrow> dict" where
  "dict_of_job j =
     [(''id'', JStr (job_id j)),
      (''type'', JStr (job_type j)),
      (''payload'', JObj (job_payload j)),
      (''created_at'', JStr (job_created_at j)),
      (''attempt'', JInt (job_attempt j)),
      (''workflow_id'', json_of_option JInt (job_workflow_id j)),
      (''parent_job_id'', json_of_option JStr (job_parent_id j)),
      (''notes'', JList (map JStr (job_notes j)))]"

definition to_json :: "job \<Rightarrow> string" where
  "to_json j = dumps (JObj (dict_of_job j))"

text \<open>
  \<^verbatim>\<open>cls(**json.loads(blob))\<close>. A value that is no mapping, a missing required field and an
  unknown field are the TypeError of the call. The dataclass does not check the types of the
  fields; the record does, and a blob whose fields have other types than \<open>to_json\<close> writes (no
  such blob comes from this program) is the TypeError as well.
\<close>

definition opt_int :: "json \<Rightarrow> int option option" where
  "opt_int v = (case v of JNull \<Rightarrow> Some None | JInt i \<Rightarrow> Some (Some i) | _ \<Rightarrow> None)"

definition opt_str :: "json \<Rightarrow> string option option" where
  "opt_str v = (case v of JNull \<Rightarrow> Some None | JStr s \<Rightarrow> Some (Some s) | _ \<Rightarrow> None)"

fun str_items :: "json list \<Rightarrow> string list option" where
  "str_items [] = Some []"
| "str_items (JStr s # xs) = map_option ((#) s) (str_items xs)"
| "str_items (_ # xs) = None"

definition job_field_names :: "string list" where
  "job_field_names = [''id'', ''type'', ''payload'', ''created_at'', ''attempt'', ''workflow_id'',
     ''parent_job_id'', ''notes'']"

definition job_of_dict :: "dict \<Rightarrow> exn + job" where
  "job_of_dict d =
     (if \<exists>k\<in>set (map fst d). k \<notin> set job_field_names
      then Inl (TypeError ''Job.__init__() got an unexpected keyword argument'')
      else if \<exists>k\<in>set (take 4 job_field_names). \<not> has_key d k
      then Inl (TypeError ''Job.__init__() missing required positional arguments'')
      else
        (case (get_or d ''id'' JNull, get_or d ''type'' JNull, get_or d ''payload'' JNull,
               get_or d ''created_at'' JNull, get_or d ''attempt'' (JInt 0),
               opt_int (get_or d ''workflow_id'' JNull), opt_str (get_or d ''parent_job_id'' JNull),
               get_or d ''notes'' (JList [])) of
           (JStr i, JStr ty, JObj p, JStr c, JInt n, Some wfid, Some par, JList ns) \<Rightarrow>
             (case str_items ns of
                Some notes \<Rightarrow>
                  Inr \<lparr>job_id = i, job_type = ty, job_payload = p, job_created_at = c, job_attempt = n,
                       job_workflow_id = wfid, job_parent_id = par, job_notes = notes\<rparr>
              | None \<Rightarrow> Inl (TypeError ''Job fields''))
         | _ \<Rightarrow> Inl (TypeError ''Job fields'')))"

definition from_json :: "string \<Rightarrow> exn + job" where
  "from_json blob =
     (case loads_or_raise blob of
        Inl e \<Rightarrow> Inl e
      | Inr (JObj d) \<Rightarrow> job_of_dict d
      | Inr _ \<Rightarrow> Inl (TypeError ''Job() argument after ** must be a mapping''))"

section \<open>Operations\<close>

definition enqueue :: "('r, 'd, 'v) env \<Rightarrow> job \<Rightarrow> queue_name \<Rightarrow> ('r, 'd, 'v, unit) act" where
  "enqueue E j q = on_redis (rd_rpush (redis E) (queue_value q) (to_json j))"

text \<open>\<^verbatim>\<open>queues or [HIGH, NORMAL]\<close>: no list and the empty list both mean the default.\<close>

definition dequeue :: "('r, 'd, 'v) env \<Rightarrow> queue_name list \<Rightarrow> ('r, 'd, 'v, job option) act" where
  "dequeue E queues =
     bnd (on_redis (rd_blpop (redis E) (map queue_value (if queues = [] then [HIGH, NORMAL] else queues)))) (\<lambda>res.
       case res of
         None \<Rightarrow> ret None
       | Some (_, blob) \<Rightarrow> bnd (lift_sum (from_json blob)) (\<lambda>j. ret (Some j)))"

text \<open>The job as \<^verbatim>\<open>fail\<close> changes it in place.\<close>

definition mark_failed :: "datetime \<Rightarrow> string \<Rightarrow> job \<Rightarrow> job" where
  "mark_failed t err j =
     j\<lparr>job_attempt := job_attempt j + 1,
       job_notes := job_notes j @
         [isoformat t @ '' failed (attempt='' @ str_of_int (job_attempt j + 1) @ ''): '' @ err]\<rparr>"

definition fail_job :: "('r, 'd, 'v) env \<Rightarrow> job \<Rightarrow> string \<Rightarrow> ('r, 'd, 'v, unit) act" where
  "fail_job E j err =
     bnd (utc_now E) (\<lambda>t.
       on_redis (rd_rpush (redis E) (queue_value FAILED) (to_json (mark_failed t err j))))"

definition depth :: "('r, 'd, 'v) env \<Rightarrow> queue_name \<Rightarrow> ('r, 'd, 'v, int) act" where
  "depth E q = on_redis (rd_llen (redis E) (queue_value q))"

definition all_depths :: "('r, 'd, 'v) env \<Rightarrow> ('r, 'd, 'v, (string \<times> int) list) act" where
  "all_depths E =
     collect_each Enum.enum (\<lambda>q. bnd (depth E q) (\<lambda>n. ret (queue_label q, n)))"

definition peek_failed :: "('r, 'd, 'v) env \<Rightarrow> int \<Rightarrow> ('r, 'd, 'v, job list) act" where
  "peek_failed E limit =
     bnd (on_redis (rd_lrange (redis E) (queue_value FAILED) 0 (limit - 1))) (\<lambda>items.
       collect_each items (\<lambda>x. lift_sum (from_json x)))"

definition queue_ping :: "('r, 'd, 'v) env \<Rightarrow> ('r, 'd, 'v, bool) act" where
  "queue_ping E = try_except (on_redis (rd_ping (redis E))) (\<lambda>_. ret False)"

section \<open>Round trip of jobs\<close>

definition job_ok :: "job \<Rightarrow> bool" where
  "job_ok j \<longleftrightarrow> plain (JObj (job_payload j))"

lemma str_items_map [simp]: "str_items (map JStr xs) = Some xs"
  by (induction xs) simp_all

lemma opt_json [simp]: "opt_int (json_of_option JInt x) = Some x" "opt_str (json_of_option JStr y) = Some y"
  by (auto simp: opt_int_def opt_str_def json_of_option_def split: option.splits)

lemma job_of_dict_of_job: "job_of_dict (dict_of_job j) = Inr j"
  by (simp add: job_of_dict_def dict_of_job_def job_field_names_def has_key_def get_or_def)

lemma plain_dict_of_job: "job_ok j \<Longrightarrow> plain (JObj (dict_of_job j))"
  by (auto simp: job_ok_def dict_of_job_def json_of_option_def split: option.splits)

lemma from_to_json: "job_ok j \<Longrightarrow> from_json (to_json j) = Inr j"
  using loads_dumps [OF plain_dict_of_job [of j]]
  by (simp add: from_json_def to_json_def loads_or_raise_def job_of_dict_of_job)

lemma to_json_inj: "job_ok i \<Longrightarrow> job_ok j \<Longrightarrow> to_json i = to_json j \<longleftrightarrow> i = j"
  by (metis from_to_json sum.inject(2))

lemma job_ok_mark_failed [simp]: "job_ok (mark_failed t err j) = job_ok j"
  by (simp add: job_ok_def mark_failed_def)

section \<open>What the Redis laws give\<close>

lemma redis_set_nx:
  "redis_laws R \<Longrightarrow> rd_set_nx_ex R k v ttl r = (Inr won, r') \<Longrightarrow>
     vw_time R r \<le> vw_time R r' \<and> vw_lists R r' = vw_lists R r \<and>
     (won \<longleftrightarrow> (\<forall>x e. vw_keys R r k = Some (x, e) \<longrightarrow> e \<le> vw_time R r')) \<and>
     vw_keys R r' = (if won then (vw_keys R r)(k \<mapsto> (v, vw_time R r' + ttl)) else vw_keys R r)"
  unfolding redis_laws_def by (elim conjE) simp

lemma redis_set:
  "redis_laws R \<Longrightarrow> rd_set_ex R k v ttl r = (Inr (), r') \<Longrightarrow>
     vw_time R r \<le> vw_time R r' \<and> vw_lists R r' = vw_lists R r \<and>
     vw_keys R r' = (vw_keys R r)(k \<mapsto> (v, vw_time R r' + ttl))"
  unfolding redis_laws_def by (elim conjE) simp

lemma redis_get:
  "redis_laws R \<Longrightarrow> rd_get R k r = (Inr x, r') \<Longrightarrow>
     vw_time R r \<le> vw_time R r' \<and> vw_lists R r' = vw_lists R r \<and> vw_keys R r' = vw_keys R r \<and>
     x = live R r' k"
  unfolding redis_laws_def by (elim conjE) simp

lemma redis_delete:
  "redis_laws R \<Longrightarrow> rd_delete R k r = (Inr (), r') \<Longrightarrow>
     vw_time R r \<le> vw_time R r' \<and> vw_lists R r' = vw_lists R r \<and> vw_keys R r' = (vw_keys R r)(k := None)"
  unfolding redis_laws_def by (elim conjE) simp

lemma redis_rpush:
  "redis_laws R \<Longrightarrow> rd_rpush R k v r = (Inr (), r') \<Longrightarrow>
     vw_time R r \<le> vw_time R r' \<and> vw_keys R r' = vw_keys R r \<and>
     vw_lists R r' = (vw_lists R r)(k := vw_lists R r k @ [v])"
  unfolding redis_laws_def by (elim conjE) simp

lemma redis_blpop_None:
  "redis_laws R \<Longrightarrow> rd_blpop R ks r = (Inr None, r') \<Longrightarrow>
     vw_time R r \<le> vw_time R r' \<and> vw_keys R r' = vw_keys R r \<and> vw_lists R r' = vw_lists R r \<and>
     (\<forall>k\<in>set ks. vw_lists R r k = [])"
  unfolding redis_laws_def by (elim conjE) simp

lemma redis_blpop_Some:
  "redis_laws R \<Longrightarrow> rd_blpop R ks r = (Inr (Some (k, v)), r') \<Longrightarrow>
     vw_time R r \<le> vw_time R r' \<and> vw_keys R r' = vw_keys R r \<and>
     find (\<lambda>k. vw_lists R r k \<noteq> []) ks = Some k \<and> vw_lists R r k = v # vw_lists R r' k \<and>
     (\<forall>k'. k' \<noteq> k \<longrightarrow> vw_lists R r' k' = vw_lists R r k')"
  unfolding redis_laws_def by (elim conjE) simp

lemma redis_llen:
  "redis_laws R \<Longrightarrow> rd_llen R k r = (Inr n, r') \<Longrightarrow>
     vw_time R r \<le> vw_time R r' \<and> vw_keys R r' = vw_keys R r \<and> vw_lists R r' = vw_lists R r \<and>
     n = int (length (vw_lists R r k))"
  unfolding redis_laws_def by (elim conjE) simp

lemma redis_lrange:
  "redis_laws R \<Longrightarrow> rd_lrange R k a b r = (Inr xs, r') \<Longrightarrow>
     vw_time R r \<le> vw_time R r' \<and> vw_keys R r' = vw_keys R r \<and> vw_lists R r' = vw_lists R r \<and>
     xs = lrange (vw_lists R r k) a b"
  unfolding redis_laws_def by (elim conjE) simp

section \<open>The queue interface\<close>

text \<open>
  What a client of the queues may rely on: \<open>holds e w c\<close> says that in world \<open>w\<close> queue
  \<open>q\<close> holds exactly the jobs \<open>c q\<close>, in order. An operation that raises promises nothing.
\<close>

datatype ('j, 'q) queue_op = Enq 'j 'q | Deq "'q list"

fun run_script ::
  "('j \<Rightarrow> 'q \<Rightarrow> ('w, unit) io) \<Rightarrow> ('q list \<Rightarrow> ('w, 'j option) io) \<Rightarrow> ('j, 'q) queue_op list \<Rightarrow> ('w, 'j list) io" where
  "run_script enq deq [] = ret []"
| "run_script enq deq (Enq j q # ops) = thn (enq j q) (run_script enq deq ops)"
| "run_script enq deq (Deq qs # ops) =
     bnd (deq qs) (\<lambda>x. bnd (run_script enq deq ops) (\<lambda>js. ret (case x of None \<Rightarrow> js | Some j \<Rightarrow> j # js)))"

text \<open>The same script over plain lists: the first non-empty queue gives its oldest job.\<close>

definition list_deq :: "'q list \<Rightarrow> ('q \<Rightarrow> 'j list) \<Rightarrow> 'j option \<times> ('q \<Rightarrow> 'j list)" where
  "list_deq qs c =
     (case find (\<lambda>q. c q \<noteq> []) qs of None \<Rightarrow> (None, c) | Some q \<Rightarrow> (Some (hd (c q)), c(q := tl (c q))))"

fun list_script :: "('j, 'q) queue_op list \<Rightarrow> ('q \<Rightarrow> 'j list) \<Rightarrow> 'j list \<times> ('q \<Rightarrow> 'j list)" where
  "list_script [] c = ([], c)"
| "list_script (Enq j q # ops) c = list_script ops (c(q := c q @ [j]))"
| "list_script (Deq qs # ops) c =
     (case list_deq qs c of (x, c') \<Rightarrow>
       (case list_script ops c' of (js, c'') \<Rightarrow> (case x of None \<Rightarrow> js | Some j \<Rightarrow> j # js, c'')))"

fun enqueued :: "('j, 'q) queue_op list \<Rightarrow> 'j list" where
  "enqueued [] = []"
| "enqueued (Enq j q # ops) = j # enqueued ops"
| "enqueued (Deq qs # ops) = enqueued ops"

locale job_queue =
  fixes ok :: "'e \<Rightarrow> bool"
    and good :: "'j \<Rightarrow> bool"
    and enq :: "'e \<Rightarrow> 'j \<Rightarrow> 'q \<Rightarrow> ('w, unit) io"
    and deq :: "'e \<Rightarrow> 'q list \<Rightarrow> ('w, 'j option) io"
    and holds :: "'e \<Rightarrow> 'w \<Rightarrow> ('q \<Rightarrow> 'j list) \<Rightarrow> bool"
  assumes enq_holds: "ok e \<Longrightarrow> good j \<Longrightarrow> holds e w c \<Longrightarrow> enq e j q w = (Inr (), w') \<Longrightarrow>
      holds e w' (c(q := c q @ [j]))"
    and deq_holds: "ok e \<Longrightarrow> holds e w c \<Longrightarrow> qs \<noteq> [] \<Longrightarrow> deq e qs w = (Inr x, w') \<Longrightarrow>
      x = fst (list_deq qs c) \<and> holds e w' (snd (list_deq qs c))"
begin

lemma script_refines:
  assumes "ok e" and "\<forall>j\<in>set (enqueued ops). good j" and "\<forall>qs. Deq qs \<in> set ops \<longrightarrow> qs \<noteq> []"
    and "holds e w c" and "run_script (enq e) (deq e) ops w = (Inr js, w')"
  shows "js = fst (list_script ops c) \<and> holds e w' (snd (list_script ops c))"
  using assms(2-5)
proof (induction ops arbitrary: w c js rule: enqueued.induct)
  case 1
  then show ?case by (simp add: ret_def)
next
  case (2 j q ops)
  then obtain w1 where "enq e j q w = (Inr (), w1)" "run_script (enq e) (deq e) ops w1 = (Inr js, w')"
    by (auto simp: thn_def bnd_def split: prod.splits sum.splits)
  moreover from this(1) 2 have "holds e w1 (c(q := c q @ [j]))"
    by (intro enq_holds [OF assms(1)]) simp_all
  ultimately show ?case using 2 by simp
next
  case (3 qs ops)
  then obtain x w1 js1 where x: "deq e qs w = (Inr x, w1)"
    and r: "run_script (enq e) (deq e) ops w1 = (Inr js1, w')"
    and js: "js = (case x of None \<Rightarrow> js1 | Some j \<Rightarrow> j # js1)"
    by (auto simp: bnd_def ret_def split: prod.splits sum.splits)
  from deq_holds [OF assms(1) 3(4) _ x] 3(3)
  have d: "x = fst (list_deq qs c)" "holds e w1 (snd (list_deq qs c))" by simp_all
  from 3(1) [OF _ _ d(2) r] 3(2,3)
  have "js1 = fst (list_script ops (snd (list_deq qs c)))"
    "holds e w' (snd (list_script ops (snd (list_deq qs c))))" by simp_all
  with d js show ?case
    by (cases "list_deq qs c"; cases "list_script ops (snd (list_deq qs c))") (simp split: option.splits)
qed

end

text \<open>
  What is taken out of plain lists and what is left is what was in and what was put in, for any
  finite set of queues that covers the ones the script names.
\<close>

definition contents :: "'q list \<Rightarrow> ('q \<Rightarrow> 'j list) \<Rightarrow> 'j multiset" where
  "contents qs c = (\<Sum>q\<leftarrow>qs. mset (c q))"

lemma contents_upd:
  "distinct qs \<Longrightarrow> q \<in> set qs \<Longrightarrow> contents qs (c(q := xs)) + mset (c q) = contents qs c + mset xs"
proof (induction qs)
  case Nil
  then show ?case by simp
next
  case (Cons p qs)
  show ?case
  proof (cases "p = q")
    case True
    then have "contents qs (c(q := xs)) = contents qs c"
      using Cons.prems unfolding contents_def by (intro arg_cong [of _ _ sum_list] map_cong) auto
    with True show ?thesis by (simp add: contents_def)
  next
    case False
    with Cons show ?thesis by (simp add: contents_def)
  qed
qed

lemma list_deq_contents:
  assumes "distinct all" and "set qs \<subseteq> set all" and "list_deq qs c = (x, c')"
  shows "mset (case x of None \<Rightarrow> [] | Some j \<Rightarrow> [j]) + contents all c' = contents all c"
proof (cases "find (\<lambda>q. c q \<noteq> []) qs")
  case None
  with assms(3) show ?thesis by (simp add: list_deq_def)
next
  case (Some q)
  then have q: "q \<in> set qs" "c q \<noteq> []"
    by (auto simp: find_Some_iff)
  with assms(2) contents_upd [OF assms(1), of q c "tl (c q)"]
  have "contents all (c(q := tl (c q))) + mset (c q) = contents all c + mset (tl (c q))" by auto
  moreover have "mset (c q) = {#hd (c q)#} + mset (tl (c q))" using q(2) by (cases "c q") simp_all
  ultimately have "contents all (c(q := tl (c q))) + {#hd (c q)#} = contents all c" by simp
  with assms(3) Some show ?thesis by (auto simp: list_deq_def)
qed

lemma list_script_conserves:
  assumes "distinct all" and "\<forall>j q. Enq j q \<in> set ops \<longrightarrow> q \<in> set all"
    and "\<forall>qs. Deq qs \<in> set ops \<longrightarrow> set qs \<subseteq> set all"
  shows "mset (fst (list_script ops c)) + contents all (snd (list_script ops c)) =
    contents all c + mset (enqueued ops)"
  using assms(2,3)
proof (induction ops arbitrary: c rule: enqueued.induct)
  case 1
  then show ?case by simp
next
  case (2 j q ops)
  then have "contents all (c(q := c q @ [j])) + mset (c q) = contents all c + mset (c q @ [j])"
    by (intro contents_upd assms(1)) auto
  with 2 show ?case by simp
next
  case (3 qs ops)
  obtain x c' where x: "list_deq qs c = (x, c')" by force
  from 3 have "mset (fst (list_script ops c')) + contents all (snd (list_script ops c')) =
    contents all c' + mset (enqueued ops)" by simp
  moreover from 3 have "mset (case x of None \<Rightarrow> [] | Some j \<Rightarrow> [j]) + contents all c' = contents all c"
    by (intro list_deq_contents [OF assms(1) _ x]) simp
  ultimately show ?case using x
    by (auto split: prod.splits option.splits)
qed

section \<open>The Redis queues provide the interface\<close>

text \<open>The lists hold the texts of the jobs, and every job has a payload that JSON carries.\<close>

definition holds_jobs :: "('r, 'd, 'v) env \<Rightarrow> ('r, 'd, 'v) world \<Rightarrow> (queue_name \<Rightarrow> job list) \<Rightarrow> bool" where
  "holds_jobs E w c \<longleftrightarrow>
     (\<forall>q. vw_lists (redis E) (w_redis w) (queue_value q) = map to_json (c q) \<and> (\<forall>j\<in>set (c q). job_ok j))"

lemma find_map_jobs:
  "(\<forall>q. v (queue_value q) = map to_json (c q)) \<Longrightarrow>
     find (\<lambda>k. v k \<noteq> []) (map queue_value qs) = map_option queue_value (find (\<lambda>q. c q \<noteq> []) qs)"
  by (induction qs) auto

lemma enqueue_holds:
  assumes "redis_laws (redis E)" and "job_ok j" and "holds_jobs E w c" and "enqueue E j q w = (Inr (), w')"
  shows "holds_jobs E w' (c(q := c q @ [j]))"
proof -
  from assms(4) obtain r where r: "rd_rpush (redis E) (queue_value q) (to_json j) (w_redis w) = (Inr (), r)"
    "w_redis w' = r"
    by (auto simp: enqueue_def on_redis_def split: prod.splits)
  from redis_rpush [OF assms(1) r(1)] r(2) assms(2,3) show ?thesis
    by (simp add: holds_jobs_def)
qed

definition served :: "queue_name list \<Rightarrow> queue_name list" where
  "served qs = (if qs = [] then [HIGH, NORMAL] else qs)"

lemma dequeue_holds:
  assumes "redis_laws (redis E)" and "holds_jobs E w c" and "dequeue E qs w = (Inr x, w')"
  shows "x = fst (list_deq (served qs) c) \<and> holds_jobs E w' (snd (list_deq (served qs) c))"
proof -
  let ?ks = "map queue_value (served qs)" and ?R = "redis E"
  from assms(2) have c: "\<forall>q. vw_lists ?R (w_redis w) (queue_value q) = map to_json (c q)"
    and good: "\<And>q j. j \<in> set (c q) \<Longrightarrow> job_ok j"
    by (auto simp: holds_jobs_def)
  from assms(3) obtain res r where r: "rd_blpop ?R ?ks (w_redis w) = (Inr res, r)" "w_redis w' = r"
    and x: "case res of None \<Rightarrow> x = None | Some (_, blob) \<Rightarrow> \<exists>j. from_json blob = Inr j \<and> x = Some j"
    by (auto simp: dequeue_def served_def on_redis_def bnd_def ret_def lift_sum_def raise_def
        split: prod.splits sum.splits option.splits)
  show ?thesis
  proof (cases res)
    case None
    from redis_blpop_None [OF assms(1) r(1) [unfolded None]]
    have e: "\<forall>k\<in>set ?ks. vw_lists ?R (w_redis w) k = []" and "vw_lists ?R r = vw_lists ?R (w_redis w)"
      by simp_all
    moreover from e c have "\<forall>q\<in>set (served qs). c q = []" by simp
    moreover from this have "find (\<lambda>q. c q \<noteq> []) (served qs) = None"
      by (simp add: find_None_iff)
    ultimately show ?thesis using None x r assms(2) by (simp add: list_deq_def holds_jobs_def)
  next
    case (Some kb)
    obtain k blob where kb: "kb = (k, blob)" by force
    from redis_blpop_Some [OF assms(1) r(1) [unfolded Some kb]]
    have f: "find (\<lambda>k. vw_lists ?R (w_redis w) k \<noteq> []) ?ks = Some k"
      and k: "vw_lists ?R (w_redis w) k = blob # vw_lists ?R r k"
      and other: "\<forall>k'. k' \<noteq> k \<longrightarrow> vw_lists ?R r k' = vw_lists ?R (w_redis w) k'" by simp_all
    from f find_map_jobs [OF c, of "served qs"] obtain q
      where q: "find (\<lambda>q. c q \<noteq> []) (served qs) = Some q" "k = queue_value q" by auto
    with k c obtain j js where j: "c q = j # js" "blob = to_json j" "vw_lists ?R r k = map to_json js"
      by (cases "c q") auto
    with good [of j q] have "from_json blob = Inr j" by (simp add: from_to_json)
    with x Some kb have "x = Some j" by simp
    moreover have "job_ok i" if "i \<in> set js" for i
      using good [of i q] j(1) that by simp
    with other c good j(1,3) have "holds_jobs E w' (c(q := js))"
      using q(2) r(2) unfolding holds_jobs_def by (auto simp: j)
    ultimately show ?thesis using q j by (simp add: list_deq_def)
  qed
qed

interpretation rq: job_queue "\<lambda>E. redis_laws (redis E)" job_ok enqueue dequeue holds_jobs
proof
  fix E :: "('r, 'd, 'v) env" and j w c q w' assume "redis_laws (redis E)" "job_ok j" "holds_jobs E w c"
    "enqueue E j q w = (Inr (), w')"
  then show "holds_jobs E w' (c(q := c q @ [j]))" by (rule enqueue_holds)
next
  fix E :: "('r, 'd, 'v) env" and w c x w' and qs :: "queue_name list"
  assume "redis_laws (redis E)" "holds_jobs E w c" "qs \<noteq> []" "dequeue E qs w = (Inr x, w')"
  then show "x = fst (list_deq qs c) \<and> holds_jobs E w' (snd (list_deq qs c))"
    using dequeue_holds [of E w c qs] by (simp add: served_def)
qed

section \<open>Failing and inspecting\<close>

lemma holds_jobsD:
  "holds_jobs E w c \<Longrightarrow> vw_lists (redis E) (w_redis w) (queue_value q) = map to_json (c q)"
  "holds_jobs E w c \<Longrightarrow> j \<in> set (c q) \<Longrightarrow> job_ok j"
  by (auto simp: holds_jobs_def)

lemma fail_job_holds:
  assumes "redis_laws (redis E)" and "job_ok j" and "holds_jobs E w c" and "fail_job E j err w = (Inr (), w')"
  shows "holds_jobs E w' (c(FAILED := c FAILED @ [mark_failed (clock E (w_tick w)) err j]))"
proof -
  let ?w = "w\<lparr>w_tick := Suc (w_tick w)\<rparr>" and ?j = "mark_failed (clock E (w_tick w)) err j"
  have "holds_jobs E ?w c" using assms(3) by (simp add: holds_jobs_def)
  moreover from assms(4) have "enqueue E ?j FAILED ?w = (Inr (), w')"
    by (simp add: fail_job_def enqueue_def bnd_def utc_now_def fresh_tick_def ret_def)
  ultimately show ?thesis using enqueue_holds [OF assms(1), of ?j ?w c FAILED w'] assms(2) by simp
qed

lemma lrange_from_0:
  "lrange xs 0 (n - 1) = (if 0 < n then take (nat n) xs else take (nat (int (length xs) + n)) xs)"
  by (auto simp: lrange_def Let_def algebra_simps)

lemma collect_from_json:
  "\<forall>j\<in>set js. job_ok j \<Longrightarrow> collect_each (map to_json js) (\<lambda>x. lift_sum (from_json x)) w = (Inr js, w)"
  by (induction js) (simp_all add: ret_def bnd_def lift_sum_def from_to_json)

lemma peek_failed_reads:
  assumes "redis_laws (redis E)" and "holds_jobs E w c" and "peek_failed E n w = (x, w')"
    and "\<And>e r. rd_lrange (redis E) (queue_value FAILED) 0 (n - 1) (w_redis w) \<noteq> (Inl e, r)"
  shows "x = Inr (if 0 < n then take (nat n) (c FAILED) else take (nat (int (length (c FAILED)) + n)) (c FAILED))"
    and "holds_jobs E w' c"
proof -
  let ?xs = "if 0 < n then take (nat n) (c FAILED) else take (nat (int (length (c FAILED)) + n)) (c FAILED)"
  obtain y r where r: "rd_lrange (redis E) (queue_value FAILED) 0 (n - 1) (w_redis w) = (Inr y, r)"
    using assms(4) by (metis prod.exhaust sum.exhaust)
  from redis_lrange [OF assms(1) r] have l: "vw_lists (redis E) r = vw_lists (redis E) (w_redis w)"
    and y: "y = map to_json ?xs"
    by (simp_all add: holds_jobsD(1) [OF assms(2)] lrange_from_0 take_map)
  have "\<forall>j\<in>set ?xs. job_ok j"
    using holds_jobsD(2) [OF assms(2)] by (auto dest: in_set_takeD)
  then have "peek_failed E n w = (Inr ?xs, w\<lparr>w_redis := r\<rparr>)"
    by (simp add: peek_failed_def bnd_def on_redis_def r y collect_from_json)
  with assms(3) have x: "x = Inr ?xs" and w: "w' = w\<lparr>w_redis := r\<rparr>" by simp_all
  show "x = Inr ?xs" by (rule x)
  show "holds_jobs E w' c" using assms(2) l w by (simp add: holds_jobs_def)
qed

section \<open>Properties\<close>


definition sample_job :: job where
  "sample_job = \<lparr>job_id = ''7'', job_type = ''commit'', job_payload = [(''sha'', JStr ''ab\"''), (''n'', JInt (-3))],
     job_created_at = ''t'', job_attempt = 0, job_workflow_id = Some 4, job_parent_id = None, job_notes = [''x'']\<rparr>"

lemma sample_job_ok [simp]: "job_ok sample_job"
  by (simp add: job_ok_def sample_job_def)


text \<open>The Redis queues implement lists: a script of enqueues and dequeues whose commands
  all succeed returns the jobs the same script returns over plain lists (the first non-empty queue
  of each dequeue gives its oldest job), leaves the queues with what the lists hold, and no job is
  lost, duplicated or made up.\<close>

theorem queue_script_refines_lists:
  assumes "redis_laws (redis E)" and "\<forall>j\<in>set (enqueued ops). job_ok j"
    and "\<forall>qs. Deq qs \<in> set ops \<longrightarrow> qs \<noteq> []" and "holds_jobs E w c"
    and "run_script (enqueue E) (dequeue E) ops w = (Inr js, w')"
  shows "\<exists>c'. list_script ops c = (js, c') \<and> holds_jobs E w' c' \<and>
    mset js + contents [HIGH, NORMAL, FAILED] c' = contents [HIGH, NORMAL, FAILED] c + mset (enqueued ops)"
proof (intro exI conjI)
  let ?c' = "snd (list_script ops c)"
  from rq.script_refines [OF assms]
  show s: "list_script ops c = (js, ?c')" and "holds_jobs E w' ?c'"
    by (simp_all add: prod_eq_iff)
  have all: "q \<in> set [HIGH, NORMAL, FAILED]" for q
    using UNIV_enum [where 'a = queue_name] by (auto simp: queue_names)
  from list_script_conserves [of "[HIGH, NORMAL, FAILED]" ops c] all
  have "mset (fst (list_script ops c)) + contents [HIGH, NORMAL, FAILED] ?c' =
    contents [HIGH, NORMAL, FAILED] c + mset (enqueued ops)" by auto
  with s show "mset js + contents [HIGH, NORMAL, FAILED] ?c' =
    contents [HIGH, NORMAL, FAILED] c + mset (enqueued ops)" by (metis fst_conv)
qed

lemma holds_jobs_empty [simp]: "holds_jobs (mem_env s llm http app) (mem_world t) (\<lambda>_. [])"
  by (simp add: holds_jobs_def)

theorem queue_script_refines_lists_witness:
  "\<exists>c'. list_script [Enq sample_job NORMAL, Deq [HIGH, NORMAL]] (\<lambda>_. []) = ([sample_job], c')"
proof -
  let ?ops = "[Enq sample_job NORMAL, Deq [HIGH, NORMAL]]"
  obtain w' where r: "run_script (enqueue quiet_env) (dequeue quiet_env) ?ops (mem_world empty_tables) = (Inr [sample_job], w')"
    by (simp add: enqueue_def dequeue_def mem_run mem_redis_eval from_to_json)
  show ?thesis
    using queue_script_refines_lists [OF _ _ _ holds_jobs_empty r] by auto
qed

text \<open>The queues of a dequeue in ascending order: the job comes from the least one that is not
  empty.\<close>

definition busy :: "('q \<Rightarrow> 'j list) \<Rightarrow> 'q set \<Rightarrow> 'q set" where
  "busy c Q = {q \<in> Q. c q \<noteq> []}"

lemma find_sorted:
  fixes qs :: "'q::linorder list"
  assumes "sorted qs"
  shows "find P qs = (if {q \<in> set qs. P q} = {} then None else Some (Min {q \<in> set qs. P q}))"
  using assms
proof (induction qs)
  case (Cons q qs)
  then have le: "\<forall>p\<in>set qs. q \<le> p" by simp
  show ?case
  proof (cases "P q")
    case True
    with le have "Min {p \<in> set (q # qs). P p} = q" by (intro Min_eqI) auto
    with True show ?thesis by auto
  next
    case False
    then have "{p \<in> set (q # qs). P p} = {p \<in> set qs. P p}" by auto
    with False Cons show ?thesis by simp
  qed
qed simp

lemma list_deq_sorted:
  fixes qs :: "'q::linorder list"
  assumes "sorted qs"
  shows "list_deq qs c =
    (if busy c (set qs) = {} then (None, c)
     else (Some (hd (c (Min (busy c (set qs))))), c(Min (busy c (set qs)) := tl (c (Min (busy c (set qs)))))))"
  using find_sorted [OF assms, of "\<lambda>q. c q \<noteq> []"] by (simp add: list_deq_def busy_def)

text \<open>A dequeue with the default queues serves them by priority: with \<open>q\<close> the least queue
  below \<open>FAILED\<close> that holds a job, it returns the oldest job of \<open>q\<close>, which is gone from
  \<open>q\<close> while every other job stays; it returns nothing exactly when no such queue holds a job, and
  then nothing changes; so no dead letter is ever returned.\<close>

theorem dequeue_serves_least:
  assumes "redis_laws (redis E)" and "holds_jobs E w c" and "dequeue E [] w = (Inr x, w')"
  shows "(if busy c {..< FAILED} = {} then x = None \<and> holds_jobs E w' c
     else \<exists>q \<in> {..< FAILED}. q = Min (busy c {..< FAILED}) \<and> x = Some (hd (c q)) \<and> holds_jobs E w' (c(q := tl (c q))))"
proof -
  have s: "sorted (served [])" and u: "set (served []) = {..< FAILED}"
    by (auto simp: served_def less_eq_queue_name_def below_failed)
  have sub: "busy c {..< FAILED} \<subseteq> {..< FAILED}" by (auto simp: busy_def)
  have "finite {..< FAILED}" by (metis u List.finite_set)
  with sub have "finite (busy c {..< FAILED})" by (rule finite_subset)
  from Min_in [OF this] sub have m: "busy c {..< FAILED} \<noteq> {} \<Longrightarrow> Min (busy c {..< FAILED}) \<in> {..< FAILED}" by blast
  show ?thesis
  proof (cases "busy c {..< FAILED} = {}")
    case True
    with dequeue_holds [OF assms] show ?thesis by (simp add: list_deq_sorted [OF s] u)
  next
    case False
    with dequeue_holds [OF assms] m show ?thesis by (simp add: list_deq_sorted [OF s] u)
  qed
qed

theorem dequeue_serves_least_witness:
  "busy (\<lambda>_. []) {..< FAILED} = {} \<and> fst (dequeue quiet_env [] (mem_world empty_tables)) = Inr None"
proof -
  obtain x w' where r: "dequeue quiet_env [] (mem_world empty_tables) = (Inr x, w')"
    by (simp add: dequeue_def mem_run mem_redis_eval)
  have b: "busy (\<lambda>_. []) {..< FAILED} = {}" by (simp add: busy_def)
  from dequeue_serves_least [OF _ holds_jobs_empty r] have "x = None" by (simp add: b)
  with b r show ?thesis by simp
qed

text \<open>A failed job becomes the newest dead letter and nothing else changes: its attempt
  count is one higher, the error is its last note, the rest of the job is what it was, and peeking
  with a positive limit shows the oldest dead letters, this one last when the limit allows.\<close>

theorem fail_is_dead_letter:
  assumes "redis_laws (redis E)" and "job_ok j" and "holds_jobs E w c"
    and "fail_job E j err w = (Inr (), w')" and "0 < n" and "peek_failed E n w' = (Inr js, w'')"
  shows "js = take (nat n) (c FAILED @ [mark_failed (clock E (w_tick w)) err j]) \<and>
    holds_jobs E w'' (c(FAILED := c FAILED @ [mark_failed (clock E (w_tick w)) err j]))"
proof -
  let ?c = "c(FAILED := c FAILED @ [mark_failed (clock E (w_tick w)) err j])"
  have h: "holds_jobs E w' ?c" by (rule fail_job_holds [OF assms(1-4)])
  have "rd_lrange (redis E) (queue_value FAILED) 0 (n - 1) (w_redis w') \<noteq> (Inl e, r)" for e r
    using assms(6) by (auto simp: peek_failed_def bnd_def on_redis_def)
  from peek_failed_reads [OF assms(1) h assms(6) this] assms(5) show ?thesis by simp
qed

theorem fail_is_dead_letter_witness:
  "\<exists>w' w''. fail_job quiet_env sample_job ''boom'' (mem_world empty_tables) = (Inr (), w') \<and>
     peek_failed quiet_env 20 w' = (Inr [mark_failed 0 ''boom'' sample_job], w'')"
proof -
  obtain w' where f: "fail_job quiet_env sample_job ''boom'' (mem_world empty_tables) = (Inr (), w')"
    by (simp add: fail_job_def mem_run mem_redis_eval)
  have "rd_lrange (redis quiet_env) (queue_value FAILED) 0 (20 - 1) (w_redis w') \<noteq> (Inl e, r)" for e r
    by (simp add: mem_redis_run)
  from peek_failed_reads(1) [OF _ fail_job_holds [OF _ sample_job_ok holds_jobs_empty f] _ this]
  obtain js w'' where p: "peek_failed quiet_env 20 w' = (Inr js, w'')"
    by (cases "peek_failed quiet_env 20 w'") simp
  from fail_is_dead_letter [OF _ sample_job_ok holds_jobs_empty f _ p] f p show ?thesis
    by (simp add: seconds_def)
qed

text \<open>Peeking with limit 0 does not give an empty answer: the index \<open>limit - 1\<close> is then -1,
  which Redis counts from the end, so the whole dead-letter list comes back.\<close>

theorem peek_failed_zero_returns_all:
  assumes "redis_laws (redis E)" and "holds_jobs E w c" and "peek_failed E 0 w = (Inr js, w')"
  shows "js = c FAILED"
proof -
  have "rd_lrange (redis E) (queue_value FAILED) 0 (0 - 1) (w_redis w) \<noteq> (Inl e, r)" for e r
    using assms(3) by (auto simp: peek_failed_def bnd_def on_redis_def)
  from peek_failed_reads(1) [OF assms this] show ?thesis by simp
qed

theorem peek_failed_zero_returns_all_witness:
  "\<exists>w'. peek_failed quiet_env 0 (mem_world empty_tables) = (Inr [], w')"
proof -
  obtain js w' where p: "peek_failed quiet_env 0 (mem_world empty_tables) = (Inr js, w')"
    by (simp add: peek_failed_def mem_run mem_redis_eval lrange_def)
  from peek_failed_zero_returns_all [OF _ holds_jobs_empty p] p show ?thesis by simp
qed

end
