(* ===== verification/Dedup.thy ===== *)
theory Dedup
  imports Queue
begin

text \<open>
  \<^verbatim>\<open>core/queues/dedup.py\<close>: the idempotency guard of commit runs. A claim is a Redis key
  derived from the repository and the commit, with an expiry time. The interface the commit
  pipeline relies on is the locale \<open>claim_guard\<close>: what each operation does to the claims, with
  mutual exclusion over arbitrary sequences of operations as its client lemma; \<open>rc\<close> interprets
  it on the operations of this file.
\<close>

section \<open>Keys and operations\<close>

definition key_prefix :: string where
  "key_prefix = ''wiseorder:dedup:commit_pipeline''"

definition pending_mark :: string where
  "pending_mark = ''PENDING''"

record claim_result =
  acquired :: bool
  existing_value :: "string option"

text \<open>The digest is taken of the repository, a NUL and the commit.\<close>

definition dedup_preimage :: "string \<Rightarrow> string \<Rightarrow> string" where
  "dedup_preimage repo sha = repo @ [CHR 0x00] @ sha"

definition dedup_key :: "('r, 'd, 'v) env \<Rightarrow> string \<Rightarrow> string \<Rightarrow> string" where
  "dedup_key E repo sha = key_prefix @ '':'' @ sha256_hex E (dedup_preimage repo sha)"

definition acquire :: "('r, 'd, 'v) env \<Rightarrow> string \<Rightarrow> string \<Rightarrow> ('r, 'd, 'v, claim_result) act" where
  "acquire E repo sha =
     bnd (on_redis (rd_set_nx_ex (redis E) (dedup_key E repo sha) pending_mark (dedup_ttl_seconds (cfg E)))) (\<lambda>won.
       if won then ret \<lparr>acquired = True, existing_value = None\<rparr>
       else
         bnd (on_redis (rd_get (redis E) (dedup_key E repo sha))) (\<lambda>existing.
         ret \<lparr>acquired = False, existing_value = existing\<rparr>))"

definition attach_workflow_id :: "('r, 'd, 'v) env \<Rightarrow> string \<Rightarrow> string \<Rightarrow> int \<Rightarrow> ('r, 'd, 'v, unit) act" where
  "attach_workflow_id E repo sha wfid =
     on_redis (rd_set_ex (redis E) (dedup_key E repo sha) (str_of_int wfid) (dedup_ttl_seconds (cfg E)))"

definition release :: "('r, 'd, 'v) env \<Rightarrow> string \<Rightarrow> string \<Rightarrow> ('r, 'd, 'v, unit) act" where
  "release E repo sha = on_redis (rd_delete (redis E) (dedup_key E repo sha))"

definition peek :: "('r, 'd, 'v) env \<Rightarrow> string \<Rightarrow> string \<Rightarrow> ('r, 'd, 'v, string option) act" where
  "peek E repo sha = on_redis (rd_get (redis E) (dedup_key E repo sha))"

section \<open>The interface\<close>

text \<open>A claim: its value and the time it expires. It counts at a time before that.\<close>

type_synonym claim = "string \<times> int"

definition held :: "claim option \<Rightarrow> int \<Rightarrow> string option" where
  "held c t = (case c of None \<Rightarrow> None | Some (v, e) \<Rightarrow> if t < e then Some v else None)"

lemma held_None: "held c t = None \<longleftrightarrow> (\<forall>v x. c = Some (v, x) \<longrightarrow> x \<le> t)"
  by (auto simp: held_def split: option.splits)

datatype 'k claim_op = Acquire 'k | Attach 'k int | Release 'k | Peek 'k

text \<open>
  The outcomes of the acquires of a sequence of operations. The sequence stands for the
  operations of any number of workers, in the order the server ran them.
\<close>

fun run_claims ::
  "('k \<Rightarrow> ('w, claim_result) io) \<Rightarrow> ('k \<Rightarrow> int \<Rightarrow> ('w, unit) io) \<Rightarrow> ('k \<Rightarrow> ('w, unit) io) \<Rightarrow>
   ('k \<Rightarrow> ('w, string option) io) \<Rightarrow> 'k claim_op list \<Rightarrow> ('w, ('k \<times> bool) list) io" where
  "run_claims acq att rel pk [] = ret []"
| "run_claims acq att rel pk (Acquire k # ops) =
     bnd (acq k) (\<lambda>r. bnd (run_claims acq att rel pk ops) (\<lambda>outs. ret ((k, acquired r) # outs)))"
| "run_claims acq att rel pk (Attach k i # ops) = thn (att k i) (run_claims acq att rel pk ops)"
| "run_claims acq att rel pk (Release k # ops) = thn (rel k) (run_claims acq att rel pk ops)"
| "run_claims acq att rel pk (Peek k # ops) = bnd (pk k) (\<lambda>_. run_claims acq att rel pk ops)"

locale claim_guard =
  fixes ok :: "'e \<Rightarrow> bool"
    and ttl :: "'e \<Rightarrow> int"
    and slot :: "'e \<Rightarrow> 'k \<Rightarrow> 's"
    and now :: "'e \<Rightarrow> 'w \<Rightarrow> int"
    and claims :: "'e \<Rightarrow> 'w \<Rightarrow> 's \<Rightarrow> claim option"
    and acq :: "'e \<Rightarrow> 'k \<Rightarrow> ('w, claim_result) io"
    and att :: "'e \<Rightarrow> 'k \<Rightarrow> int \<Rightarrow> ('w, unit) io"
    and rel :: "'e \<Rightarrow> 'k \<Rightarrow> ('w, unit) io"
    and pk :: "'e \<Rightarrow> 'k \<Rightarrow> ('w, string option) io"
  assumes acq_law: "ok e \<Longrightarrow> acq e k w = (Inr r, w') \<Longrightarrow>
      \<exists>t. now e w \<le> t \<and> t \<le> now e w' \<and> (acquired r \<longleftrightarrow> held (claims e w (slot e k)) t = None) \<and>
        claims e w' = (if acquired r then (claims e w)(slot e k \<mapsto> (pending_mark, t + ttl e)) else claims e w) \<and>
        existing_value r = (if acquired r then None else held (claims e w (slot e k)) (now e w'))"
    and att_law: "ok e \<Longrightarrow> att e k i w = (Inr (), w') \<Longrightarrow>
      now e w \<le> now e w' \<and> claims e w' = (claims e w)(slot e k \<mapsto> (str_of_int i, now e w' + ttl e))"
    and rel_law: "ok e \<Longrightarrow> rel e k w = (Inr (), w') \<Longrightarrow>
      now e w \<le> now e w' \<and> claims e w' = (claims e w)(slot e k := None)"
    and pk_law: "ok e \<Longrightarrow> pk e k w = (Inr x, w') \<Longrightarrow>
      now e w \<le> now e w' \<and> claims e w' = claims e w \<and> x = held (claims e w (slot e k)) (now e w')"
begin

abbreviation run :: "'e \<Rightarrow> 'k claim_op list \<Rightarrow> ('w, ('k \<times> bool) list) io" where
  "run e \<equiv> run_claims (acq e) (att e) (rel e) (pk e)"

text \<open>Inversion of a run, one operation at a time.\<close>

lemma run_Acquire:
  "run e (Acquire k # ops) w = (Inr outs, w') \<Longrightarrow>
     \<exists>r w1 outs1. acq e k w = (Inr r, w1) \<and> run e ops w1 = (Inr outs1, w') \<and> outs = (k, acquired r) # outs1"
  by (auto simp: bnd_def ret_def split: prod.splits sum.splits)

lemma run_Attach:
  "run e (Attach k i # ops) w = (Inr outs, w') \<Longrightarrow> \<exists>w1. att e k i w = (Inr (), w1) \<and> run e ops w1 = (Inr outs, w')"
  by (auto simp: thn_def bnd_def split: prod.splits sum.splits)

lemma run_Release:
  "run e (Release k # ops) w = (Inr outs, w') \<Longrightarrow> \<exists>w1. rel e k w = (Inr (), w1) \<and> run e ops w1 = (Inr outs, w')"
  by (auto simp: thn_def bnd_def split: prod.splits sum.splits)

lemma run_Peek:
  "run e (Peek k # ops) w = (Inr outs, w') \<Longrightarrow> \<exists>x w1. pk e k w = (Inr x, w1) \<and> run e ops w1 = (Inr outs, w')"
  by (auto simp: bnd_def split: prod.splits sum.splits)

lemma acq_time: "ok e \<Longrightarrow> acq e k w = (Inr r, w') \<Longrightarrow> now e w \<le> now e w'"
  by (drule (1) acq_law) auto

lemma run_time: "ok e \<Longrightarrow> run e ops w = (Inr outs, w') \<Longrightarrow> now e w \<le> now e w'"
proof (induction ops arbitrary: w outs)
  case Nil
  then show ?case by (simp add: ret_def)
next
  case (Cons op ops)
  show ?case
  proof (cases op)
    case (Acquire k)
    with Cons show ?thesis by (meson acq_time order_trans run_Acquire)
  next
    case (Attach k i)
    with Cons show ?thesis by (meson att_law order_trans run_Attach)
  next
    case (Release k)
    with Cons show ?thesis by (meson rel_law order_trans run_Release)
  next
    case (Peek k)
    with Cons show ?thesis by (meson pk_law order_trans run_Peek)
  qed
qed

text \<open>While a claim stands and nobody releases it, every acquire of its slot loses.\<close>

lemma standing_claim_excludes:
  assumes "ok e" and "run e ops w = (Inr outs, w')"
    and "\<forall>k'. Release k' \<in> set ops \<longrightarrow> slot e k' \<noteq> s"
    and "claims e w s = Some (v, x)" and "now e w' < x" and "x \<le> now e w + ttl e"
    and "(k', b) \<in> set outs" and "slot e k' = s"
  shows "\<not> b"
  using assms(2-7)
proof (induction ops arbitrary: w outs v x)
  case Nil
  then show ?case by (simp add: ret_def)
next
  case (Cons op ops)
  show ?case
  proof (cases op)
    case (Acquire k)
    with run_Acquire Cons.prems(1) obtain r w1 outs1 where a: "acq e k w = (Inr r, w1)"
      and r: "run e ops w1 = (Inr outs1, w')" and o: "outs = (k, acquired r) # outs1" by metis
    from acq_law [OF assms(1) a] obtain t where t: "now e w \<le> t" "t \<le> now e w1"
      "acquired r \<longleftrightarrow> held (claims e w (slot e k)) t = None"
      "claims e w1 = (if acquired r then (claims e w)(slot e k \<mapsto> (pending_mark, t + ttl e)) else claims e w)"
      by auto
    from run_time [OF assms(1) r] t(2) Cons.prems(4) have "t < x" by simp
    with t(3) Cons.prems(3) have lost: "slot e k = s \<Longrightarrow> \<not> acquired r" by (auto simp: held_def)
    with t(4) Cons.prems(3) have c: "claims e w1 s = Some (v, x)" by auto
    show ?thesis
    proof (cases "(k', b) \<in> set outs1")
      case True
      show ?thesis
        by (rule Cons.IH [OF r _ c Cons.prems(4) _ True]) (use Cons.prems(2,5) t in auto)
    next
      case False
      with o Cons.prems(6) lost assms(8) show ?thesis by auto
    qed
  next
    case (Attach k i)
    with run_Attach Cons.prems(1) obtain w1 where a: "att e k i w = (Inr (), w1)"
      and r: "run e ops w1 = (Inr outs, w')" by metis
    from att_law [OF assms(1) a] have t: "now e w \<le> now e w1"
      "claims e w1 = (claims e w)(slot e k \<mapsto> (str_of_int i, now e w1 + ttl e))" by simp_all
    show ?thesis
    proof (cases "slot e k = s")
      case True
      with t have c: "claims e w1 s = Some (str_of_int i, now e w1 + ttl e)" by simp
      show ?thesis
        by (rule Cons.IH [OF r _ c _ _ Cons.prems(6)]) (use Cons.prems(2,4,5) t(1) in auto)
    next
      case False
      with t Cons.prems(3) have c: "claims e w1 s = Some (v, x)" by simp
      show ?thesis
        by (rule Cons.IH [OF r _ c Cons.prems(4) _ Cons.prems(6)]) (use Cons.prems(2,5) t(1) in auto)
    qed
  next
    case (Release k)
    with run_Release Cons.prems(1) obtain w1 where a: "rel e k w = (Inr (), w1)"
      and r: "run e ops w1 = (Inr outs, w')" by metis
    from rel_law [OF assms(1) a] Cons.prems(2,3) Release
    have t: "now e w \<le> now e w1" and c: "claims e w1 s = Some (v, x)" by auto
    show ?thesis
      by (rule Cons.IH [OF r _ c Cons.prems(4) _ Cons.prems(6)]) (use Cons.prems(2,5) t in auto)
  next
    case (Peek k)
    with run_Peek Cons.prems(1) obtain y w1 where a: "pk e k w = (Inr y, w1)"
      and r: "run e ops w1 = (Inr outs, w')" by metis
    from pk_law [OF assms(1) a] Cons.prems(3)
    have t: "now e w \<le> now e w1" and c: "claims e w1 s = Some (v, x)" by auto
    show ?thesis
      by (rule Cons.IH [OF r _ c Cons.prems(4) _ Cons.prems(6)]) (use Cons.prems(2,5) t in auto)
  qed
qed

lemma one_winner:
  assumes "ok e" and "acq e k w = (Inr r, w1)" and "acquired r" and "run e ops w1 = (Inr outs, w2)"
    and "\<forall>k'. Release k' \<in> set ops \<longrightarrow> slot e k' \<noteq> slot e k" and "now e w2 < now e w + ttl e"
    and "(k', b) \<in> set outs" and "slot e k' = slot e k"
  shows "\<not> b"
proof -
  from acq_law [OF assms(1,2)] assms(3) obtain t where t: "now e w \<le> t" "t \<le> now e w1"
    "claims e w1 (slot e k) = Some (pending_mark, t + ttl e)" by auto
  show ?thesis
    by (rule standing_claim_excludes [OF assms(1,4,5) t(3) _ _ assms(7,8)]) (use assms(6) t in auto)
qed

lemma expired_or_free_wins:
  assumes "ok e" and "acq e k w = (Inr r, w')" and "held (claims e w (slot e k)) (now e w) = None"
  shows "acquired r"
proof -
  from acq_law [OF assms(1,2)] obtain t where "now e w \<le> t"
    and "acquired r \<longleftrightarrow> held (claims e w (slot e k)) t = None" by (elim exE conjE)
  moreover from assms(3) have "x \<le> now e w" if "claims e w (slot e k) = Some (v, x)" for v x
    using that by (simp add: held_None)
  ultimately show ?thesis by (simp add: held_None) (meson order_trans)
qed

lemma acquire_after_release:
  assumes "ok e" and "rel e k w = (Inr (), w1)" and "acq e k w1 = (Inr r, w2)"
  shows "acquired r"
  using rel_law [OF assms(1,2)] expired_or_free_wins [OF assms(1,3)] by (simp add: held_def)

lemma duplicate_sees_attached_id:
  assumes "ok e" and "att e k i w = (Inr (), w1)" and "acq e k w1 = (Inr r, w2)"
    and "now e w2 < now e w1 + ttl e"
  shows "r = \<lparr>acquired = False, existing_value = Some (str_of_int i)\<rparr>"
  using att_law [OF assms(1,2)] acq_law [OF assms(1,3)] assms(4) by (cases r) (auto simp: held_def)

end

section \<open>The Redis guard provides the interface\<close>

definition key_of :: "('r, 'd, 'v) env \<Rightarrow> string \<times> string \<Rightarrow> string" where
  "key_of E k = dedup_key E (fst k) (snd k)"

definition redis_now :: "('r, 'd, 'v) env \<Rightarrow> ('r, 'd, 'v) world \<Rightarrow> int" where
  "redis_now E w = vw_time (redis E) (w_redis w)"

definition redis_claims :: "('r, 'd, 'v) env \<Rightarrow> ('r, 'd, 'v) world \<Rightarrow> string \<Rightarrow> claim option" where
  "redis_claims E w = vw_keys (redis E) (w_redis w)"

lemmas redis_view_defs = key_of_def redis_now_def redis_claims_def

lemma live_held: "live R r k = held (vw_keys R r k) (vw_time R r)"
  by (simp add: live_def held_def split: option.splits)

lemma acquire_claims:
  assumes "redis_laws (redis E)" and "acquire E repo sha w = (Inr r, w')"
  shows "\<exists>t. redis_now E w \<le> t \<and> t \<le> redis_now E w' \<and>
    (acquired r \<longleftrightarrow> held (redis_claims E w (dedup_key E repo sha)) t = None) \<and>
    redis_claims E w' = (if acquired r
      then (redis_claims E w)(dedup_key E repo sha \<mapsto> (pending_mark, t + dedup_ttl_seconds (cfg E)))
      else redis_claims E w) \<and>
    existing_value r = (if acquired r then None else held (redis_claims E w (dedup_key E repo sha)) (redis_now E w'))"
proof -
  let ?k = "dedup_key E repo sha" and ?R = "redis E"
  from assms(2) obtain won r1 where s: "rd_set_nx_ex ?R ?k pending_mark (dedup_ttl_seconds (cfg E)) (w_redis w) = (Inr won, r1)"
    by (auto simp: acquire_def bnd_def on_redis_def split: prod.splits sum.splits)
  note nx = redis_set_nx [OF assms(1) s]
  have won: "won \<longleftrightarrow> held (vw_keys ?R (w_redis w) ?k) (vw_time ?R r1) = None"
    using nx by (auto simp: held_def split: option.splits)
  show ?thesis
  proof (cases won)
    case True
    with assms(2) s have "r = \<lparr>acquired = True, existing_value = None\<rparr>" "w_redis w' = r1"
      by (auto simp: acquire_def bnd_def on_redis_def ret_def)
    with True nx won show ?thesis
      by (intro exI [of _ "vw_time ?R r1"]) (simp add: redis_view_defs)
  next
    case False
    with assms(2) s obtain x r2 where g: "rd_get ?R ?k r1 = (Inr x, r2)" and r: "w_redis w' = r2"
      "r = \<lparr>acquired = False, existing_value = x\<rparr>"
      by (auto simp: acquire_def bnd_def on_redis_def ret_def split: prod.splits sum.splits)
    from redis_get [OF assms(1) g] False nx won r show ?thesis
      by (intro exI [of _ "vw_time ?R r1"]) (simp add: redis_view_defs live_held)
  qed
qed

lemma attach_claims:
  assumes "redis_laws (redis E)" and "attach_workflow_id E repo sha i w = (Inr (), w')"
  shows "redis_now E w \<le> redis_now E w' \<and>
    redis_claims E w' = (redis_claims E w)(dedup_key E repo sha \<mapsto>
      (str_of_int i, redis_now E w' + dedup_ttl_seconds (cfg E)))"
  using assms(2)
  by (auto simp: attach_workflow_id_def on_redis_def redis_view_defs split: prod.splits
      dest!: redis_set [OF assms(1)])

lemma release_claims:
  assumes "redis_laws (redis E)" and "release E repo sha w = (Inr (), w')"
  shows "redis_now E w \<le> redis_now E w' \<and>
    redis_claims E w' = (redis_claims E w)(dedup_key E repo sha := None)"
  using assms(2)
  by (auto simp: release_def on_redis_def redis_view_defs split: prod.splits
      dest!: redis_delete [OF assms(1)])

lemma peek_claims:
  assumes "redis_laws (redis E)" and "peek E repo sha w = (Inr x, w')"
  shows "redis_now E w \<le> redis_now E w' \<and> redis_claims E w' = redis_claims E w \<and>
    x = held (redis_claims E w (dedup_key E repo sha)) (redis_now E w')"
  using assms(2)
  by (auto simp: peek_def on_redis_def redis_view_defs live_held split: prod.splits
      dest!: redis_get [OF assms(1)])

interpretation rc: claim_guard "\<lambda>E. redis_laws (redis E)" "\<lambda>E. dedup_ttl_seconds (cfg E)" key_of
  redis_now redis_claims "\<lambda>E (repo, sha). acquire E repo sha" "\<lambda>E (repo, sha). attach_workflow_id E repo sha"
  "\<lambda>E (repo, sha). release E repo sha" "\<lambda>E (repo, sha). peek E repo sha"
  by unfold_locales
    (auto simp only: split_beta key_of_def dest: acquire_claims attach_claims release_claims peek_claims)

section \<open>Properties\<close>

abbreviation redis_script :: "('r, 'd, 'v) env \<Rightarrow> (string \<times> string) claim_op list \<Rightarrow> ('r, 'd, 'v, ((string \<times> string) \<times> bool) list) act" where
  "redis_script E \<equiv> run_claims (\<lambda>(repo, sha). acquire E repo sha) (\<lambda>(repo, sha). attach_workflow_id E repo sha)
     (\<lambda>(repo, sha). release E repo sha) (\<lambda>(repo, sha). peek E repo sha)"

text \<open>C16: a commit is claimed once: after an acquire has won, no acquire of the same commit
  wins again within the TTL, whatever acquires, attaches and peeks any workers run in between, as
  long as nobody releases the claim.\<close>

theorem commit_claimed_once:
  assumes "redis_laws (redis E)" and "acquire E repo sha w = (Inr r, w1)" and "acquired r"
    and "redis_script E ops w1 = (Inr outs, w2)"
    and "\<forall>k. Release k \<in> set ops \<longrightarrow> key_of E k \<noteq> dedup_key E repo sha"
    and "redis_now E w2 < redis_now E w + dedup_ttl_seconds (cfg E)"
    and "((repo', sha'), b) \<in> set outs" and "dedup_key E repo' sha' = dedup_key E repo sha"
  shows "\<not> b"
  using rc.one_winner [of E "(repo, sha)" w r w1 ops outs w2 "(repo', sha')" b] assms
  by (simp add: key_of_def)

lemma mem_held [simp]: "redis_now (mem_env s llm http app) w = mr_time (w_redis w)"
  "redis_claims (mem_env s llm http app) w = mr_keys (w_redis w)"
  by (simp_all add: redis_view_defs)

lemmas dedup_run = acquire_def attach_workflow_id_def release_def peek_def dedup_key_def key_of_def
  mem_run mem_redis_eval

theorem commit_claimed_once_witness:
  "\<exists>r w1 outs w2. acquire quiet_env ''/r'' ''ab'' (mem_world empty_tables) = (Inr r, w1) \<and> acquired r \<and>
     redis_script quiet_env [Peek (''/r'', ''ab''), Attach (''/r'', ''ab'') 7, Acquire (''/r'', ''ab'')] w1 = (Inr outs, w2) \<and>
     outs = [((''/r'', ''ab''), False)]"
proof -
  let ?ops = "[Peek (''/r'', ''ab''), Attach (''/r'', ''ab'') 7, Acquire (''/r'', ''ab'')]"
  obtain r w1 where a: "acquire quiet_env ''/r'' ''ab'' (mem_world empty_tables) = (Inr r, w1)" "acquired r"
    and t: "mr_time (w_redis w1) = 1" "mr_keys (w_redis w1) (dedup_key quiet_env ''/r'' ''ab'') = Some (pending_mark, 3601)"
    by (simp add: dedup_run default_settings_def)
  obtain outs w2 where s: "redis_script quiet_env ?ops w1 = (Inr outs, w2)"
    and o: "map fst outs = [(''/r'', ''ab'')]" and t2: "mr_time (w_redis w2) \<le> 5"
    using t by (simp add: dedup_run default_settings_def split: if_splits)
  from o obtain b where b: "outs = [((''/r'', ''ab''), b)]" by auto
  have "\<not> b"
    using commit_claimed_once [OF _ a s, of "''/r''" "''ab''" b] t2 b by (simp add: default_settings_def)
  with a s b show ?thesis by auto
qed

text \<open>A duplicate event resolves to the run that handles the commit: an acquire that comes
  within the TTL of an attach loses and hands out exactly the attached workflow id, as digits that
  parse back to it.\<close>

theorem duplicate_gets_workflow_id:
  assumes "redis_laws (redis E)" and "attach_workflow_id E repo sha i w = (Inr (), w1)"
    and "acquire E repo sha w1 = (Inr r, w2)" and "0 \<le> i"
    and "redis_now E w2 < redis_now E w1 + dedup_ttl_seconds (cfg E)"
  shows "r = \<lparr>acquired = False, existing_value = Some (str_of_int i)\<rparr> \<and>
    py_isdigit (str_of_int i) \<and> int_of_isdigit (str_of_int i) = Inr i"
  using rc.duplicate_sees_attached_id [of E "(repo, sha)" i w w1 r w2] assms
  by (simp add: py_isdigit_str_of_int int_of_isdigit_str_of_int)

theorem duplicate_gets_workflow_id_witness:
  "\<exists>w2. acquire quiet_env ''/r'' ''ab'' (snd (attach_workflow_id quiet_env ''/r'' ''ab'' 7 (mem_world empty_tables))) =
     (Inr \<lparr>acquired = False, existing_value = Some (str_of_int 7)\<rparr>, w2)"
proof -
  obtain w1 where a: "attach_workflow_id quiet_env ''/r'' ''ab'' 7 (mem_world empty_tables) = (Inr (), w1)"
    and t: "mr_time (w_redis w1) = 1" "mr_keys (w_redis w1) (dedup_key quiet_env ''/r'' ''ab'') = Some (str_of_int 7, 3601)"
    by (simp add: dedup_run default_settings_def)
  obtain r w2 where q: "acquire quiet_env ''/r'' ''ab'' w1 = (Inr r, w2)" and t2: "mr_time (w_redis w2) \<le> 3"
    using t by (simp add: dedup_run default_settings_def)
  from duplicate_gets_workflow_id [OF _ a q] t t2 q a show ?thesis
    by (simp add: default_settings_def)
qed

text \<open>A commit can be claimed again as soon as its claim is gone: an acquire right after a
  release wins, and so does one that starts when the claim has expired, so a crashed claimant does
  not block the commit for longer than the TTL.\<close>

theorem claim_can_be_taken_again:
  assumes "redis_laws (redis E)"
    and "release E repo sha w0 = (Inr (), w) \<or> held (redis_claims E w (dedup_key E repo sha)) (redis_now E w) = None"
    and "acquire E repo sha w = (Inr r, w')"
  shows "r = \<lparr>acquired = True, existing_value = None\<rparr> \<and>
    (\<exists>x. redis_claims E w' (dedup_key E repo sha) = Some (pending_mark, x) \<and>
         redis_now E w + dedup_ttl_seconds (cfg E) \<le> x \<and> x \<le> redis_now E w' + dedup_ttl_seconds (cfg E))"
proof -
  have free: "held (redis_claims E w (dedup_key E repo sha)) (redis_now E w) = None"
    using assms(2) release_claims [OF assms(1)] by (auto simp: held_def)
  then have "acquired r"
    using rc.expired_or_free_wins [of E "(repo, sha)" w r w'] assms(1,3) by (simp add: key_of_def)
  with acquire_claims [OF assms(1,3)] show ?thesis by (cases r) auto
qed

theorem claim_can_be_taken_again_witness:
  "\<exists>w'. acquire quiet_env ''/r'' ''ab'' (snd (release quiet_env ''/r'' ''ab'' (mem_world empty_tables))) =
     (Inr \<lparr>acquired = True, existing_value = None\<rparr>, w')"
proof -
  obtain w1 where a: "release quiet_env ''/r'' ''ab'' (mem_world empty_tables) = (Inr (), w1)"
    and t: "mr_keys (w_redis w1) (dedup_key quiet_env ''/r'' ''ab'') = None"
    by (simp add: dedup_run)
  obtain r w2 where q: "acquire quiet_env ''/r'' ''ab'' w1 = (Inr r, w2)"
    using t by (simp add: dedup_run)
  from claim_can_be_taken_again [OF _ disjI1 [OF a] q] q a show ?thesis by simp
qed

text \<open>Attaching the workflow id restarts the claim's lifetime: the claim then expires one TTL
  after the attach, which is later than the expiry set by the acquire as soon as the server's clock
  has moved. (The docstring says that the original TTL is preserved and the lifetime not
  extended.)\<close>

theorem attach_restarts_ttl:
  assumes "redis_laws (redis E)" and "acquire E repo sha w = (Inr r, w1)" and "acquired r"
    and "attach_workflow_id E repo sha i w1 = (Inr (), w2)" and "redis_now E w1 < redis_now E w2"
  shows "\<exists>v1 x1 x2. redis_claims E w1 (dedup_key E repo sha) = Some (v1, x1) \<and>
    redis_claims E w2 (dedup_key E repo sha) = Some (str_of_int i, x2) \<and>
    x2 = redis_now E w2 + dedup_ttl_seconds (cfg E) \<and> x1 < x2"
  using acquire_claims [OF assms(1,2)] attach_claims [OF assms(1,4)] assms(3,5) by auto

theorem attach_restarts_ttl_witness:
  "\<exists>w1 w2. attach_workflow_id quiet_env ''/r'' ''ab'' 7 w1 = (Inr (), w2) \<and>
     redis_claims quiet_env w2 (dedup_key quiet_env ''/r'' ''ab'') = Some (str_of_int 7, 3602)"
proof -
  obtain r w1 where a: "acquire quiet_env ''/r'' ''ab'' (mem_world empty_tables) = (Inr r, w1)" "acquired r"
    and t: "mr_time (w_redis w1) = 1"
    by (simp add: dedup_run default_settings_def)
  obtain w2 where b: "attach_workflow_id quiet_env ''/r'' ''ab'' 7 w1 = (Inr (), w2)" and t2: "mr_time (w_redis w2) = 2"
    using t by (simp add: dedup_run default_settings_def)
  from attach_restarts_ttl [OF _ a b] t t2 b show ?thesis by (auto simp: default_settings_def)
qed

text \<open>Two different commits are different slots: for repositories whose path holds no NUL,
  the texts that are hashed into the keys agree only for the same repository and the same commit,
  so the keys agree only when the digests of different texts collide.\<close>

theorem dedup_preimage_injective:
  assumes "CHR 0x00 \<notin> set repo" and "CHR 0x00 \<notin> set repo'"
    and "inj_on (sha256_hex E) {dedup_preimage repo sha, dedup_preimage repo' sha'}"
  shows "dedup_key E repo sha = dedup_key E repo' sha' \<longleftrightarrow> repo = repo' \<and> sha = sha'"
proof -
  have "dedup_preimage repo sha = dedup_preimage repo' sha' \<longleftrightarrow> repo = repo' \<and> sha = sha'"
    using assms(1,2)
  proof (induction repo arbitrary: repo')
    case Nil
    then show ?case by (cases repo') (auto simp: dedup_preimage_def)
  next
    case (Cons c cs)
    then show ?case by (cases repo') (auto simp: dedup_preimage_def)
  qed
  with assms(3) show ?thesis by (auto simp: dedup_key_def dest: inj_onD)
qed

theorem dedup_preimage_injective_witness:
  "dedup_key quiet_env ''/a'' ''bc'' \<noteq> dedup_key quiet_env ''/ab'' ''c''"
  using dedup_preimage_injective [of "''/a''" "''/ab''" quiet_env "''bc''" "''c''"] by simp

end
