(* ===== verification/Agents.thy ===== *)
theory Agents
  imports Reference_Services
begin

text \<open>
  \<^verbatim>\<open>agents/engineering/summarizer.py\<close> and \<^verbatim>\<open>agents/social/post_generator.py\<close>: the
  bounded LLM call, the tolerant JSON parser, the risk normalisation, the summary and the draft.
  The provider is the parameter \<open>acompletion\<close>; every call and every back-off is recorded in the
  trace. A cancellation that arrives during a back-off is not modelled, nor are the interpreter's
  limits on nesting depth and on the digits of an int.
\<close>

section \<open>The bounded LLM call\<close>

text \<open>The exceptions the loop retries on: a timeout, and litellm's three transient errors.\<close>

fun transient :: "exn \<Rightarrow> bool" where
  "transient (LlmTransient m) = True"
| "transient _ = False"

definition retryable :: "exn \<Rightarrow> bool" where
  "retryable e \<longleftrightarrow> e = TimeoutError \<or> transient e"

text \<open>\<^verbatim>\<open>resp["choices"][0]["message"]["content"].strip()\<close>: the content may be null.\<close>

definition stripped_content :: "exn + json \<Rightarrow> exn + string" where
  "stripped_content r =
     (case r of
        Inl e \<Rightarrow> Inl e
      | Inr (JStr s) \<Rightarrow> Inr (py_strip s)
      | Inr v \<Rightarrow> Inl (AttributeError (squote # type_name v @ [squote] @ '' object has no attribute '' @ [squote] @ ''strip'' @ [squote])))"

definition llm_attempt :: "('r, 'd, 'v) env \<Rightarrow> llm_request \<Rightarrow> ('r, 'd, 'v, string) act" where
  "llm_attempt E rq =
     thn (record_call (Llm_Call (rq_prompt rq)))
       (bnd fresh_tick (\<lambda>n. lift_sum (stripped_content (acompletion E rq n))))"

text \<open>The loop, from the number of attempts made so far.\<close>

function llm_loop :: "('r, 'd, 'v) env \<Rightarrow> llm_request \<Rightarrow> int \<Rightarrow> nat \<Rightarrow> ('r, 'd, 'v, string) act" where
  "llm_loop E rq max_retries made w =
     (let attempt = made + 1 in
      case llm_attempt E rq w of
        (Inr s, w1) \<Rightarrow> (Inr s, w1)
      | (Inl e, w1) \<Rightarrow>
          if e = TimeoutError then
            if int attempt > max_retries then (Inl e, w1) else llm_loop E rq max_retries attempt w1
          else if transient e then
            if int attempt > max_retries then (Inl e, w1)
            else llm_loop E rq max_retries attempt (w1\<lparr>w_trace := w_trace w1 @ [Slept (min (2 ^ attempt) 30)]\<rparr>)
          else (Inl e, w1))"
  by pat_completeness auto
termination
  by (relation "measure (\<lambda>(E, rq, max_retries, made, w). nat (max_retries + 1 - int made))") auto

declare llm_loop.simps [simp del]

definition llm_call :: "('r, 'd, 'v) env \<Rightarrow> llm_request \<Rightarrow> int \<Rightarrow> ('r, 'd, 'v, string) act" where
  "llm_call E rq max_retries = llm_loop E rq max_retries 0"

section \<open>Parsing the reply\<close>

definition fence :: string where "fence = [CHR 0x60, CHR 0x60, CHR 0x60]"

text \<open>
  The regular expression of a fenced object: three back quotes, an optional \<^verbatim>\<open>json\<close>, white
  space, an opening brace, the shortest text up to a closing brace that only white space separates
  from three back quotes. \<open>close_fence\<close> reads what follows the opening brace, \<open>fence_at\<close> a
  match at the start of the text, \<open>find_fence\<close> the first one.
\<close>

fun close_fence :: "string \<Rightarrow> string option" where
  "close_fence [] = None"
| "close_fence (c # cs) =
     (if c = CHR ''}'' \<and> prefix fence (dropWhile is_space cs) then Some [c]
      else map_option ((#) c) (close_fence cs))"

definition fence_at :: "string \<Rightarrow> string option" where
  "fence_at s =
     (if prefix fence s then
        let r = drop 3 s; r1 = (if prefix ''json'' r then drop 4 r else r) in
        (case dropWhile is_space r1 of
           c # cs \<Rightarrow> if c = CHR ''{'' then map_option ((#) c) (close_fence cs) else None
         | [] \<Rightarrow> None)
      else None)"

fun find_fence :: "string \<Rightarrow> string option" where
  "find_fence [] = None"
| "find_fence (c # cs) = (case fence_at (c # cs) of Some g \<Rightarrow> Some g | None \<Rightarrow> find_fence cs)"

text \<open>The other expression: from the first opening brace to the last closing brace.\<close>

definition find_braces :: "string \<Rightarrow> string option" where
  "find_braces s =
     (case dropWhile (\<lambda>c. c \<noteq> CHR ''{'') s of
        [] \<Rightarrow> None
      | c # cs \<Rightarrow>
          if CHR ''}'' \<in> set cs then Some (c # rev (dropWhile (\<lambda>x. x \<noteq> CHR ''}'') (rev cs))) else None)"

definition extract_object :: "string \<Rightarrow> string" where
  "extract_object content =
     (case find_fence content of
        Some g \<Rightarrow> g
      | None \<Rightarrow> (case find_braces content of Some g \<Rightarrow> g | None \<Rightarrow> content))"

definition parse_reply :: "string \<Rightarrow> json" where
  "parse_reply content =
     (let c = extract_object content in
      case loads c of
        Some v \<Rightarrow> v
      | None \<Rightarrow>
          JObj [(''summary'', JStr (take 500 c)), (''changed_files'', JList []),
                (''changelog'', JStr []), (''risk_level'', JStr ''low'')])"

definition normalize_risk :: "json \<Rightarrow> string" where
  "normalize_risk v =
     (let s = py_lower (py_strip (py_str v))
      in if s \<in> {''low'', ''medium'', ''high''} then s else ''low'')"

section \<open>The summarizer\<close>

record engineering_summary =
  es_summary :: string
  es_changed_files :: "string list"
  es_changelog :: string
  es_risk_level :: string

definition summary_to_dict :: "engineering_summary \<Rightarrow> dict" where
  "summary_to_dict s =
     [(''summary'', JStr (es_summary s)), (''changed_files'', JList (map JStr (es_changed_files s))),
      (''changelog'', JStr (es_changelog s)), (''risk_level'', JStr (es_risk_level s))]"

text \<open>\<^verbatim>\<open>s.replace(old, v)\<close> for a value of any type.\<close>

definition replace_value :: "string \<Rightarrow> json \<Rightarrow> string \<Rightarrow> exn + string" where
  "replace_value old v s =
     (case v of
        JStr new \<Rightarrow> Inr (replace_all old new s)
      | _ \<Rightarrow> Inl (TypeError (''replace() argument 2 must be str, not '' @ type_name v)))"

text \<open>\<^verbatim>\<open>[str(x) for x in v]\<close>: a list, the characters of a str, the keys of a dict.\<close>

definition str_each :: "json \<Rightarrow> exn + string list" where
  "str_each v =
     (case v of
        JList xs \<Rightarrow> Inr (map py_str xs)
      | JStr s \<Rightarrow> Inr (map (\<lambda>c. [c]) s)
      | JObj kvs \<Rightarrow> Inr (map fst kvs)
      | _ \<Rightarrow> Inl (TypeError (squote # type_name v @ [squote] @ '' object is not iterable'')))"

definition summary_of_reply :: "json \<Rightarrow> exn + engineering_summary" where
  "summary_of_reply data =
     (case data of
        JObj d \<Rightarrow>
          (case str_each (get_or d ''changed_files'' (JList [])) of
             Inl e \<Rightarrow> Inl e
           | Inr files \<Rightarrow>
               Inr \<lparr>es_summary = py_strip (py_str (get_or d ''summary'' (JStr []))),
                    es_changed_files = files,
                    es_changelog = py_strip (py_str (get_or d ''changelog'' (JStr []))),
                    es_risk_level = normalize_risk (get_or d ''risk_level'' (JStr ''low''))\<rparr>)
      | _ \<Rightarrow> Inl (AttributeError (squote # type_name data @ [squote] @ '' object has no attribute '' @ [squote] @ ''get'' @ [squote])))"

text \<open>
  \<^verbatim>\<open>EngineeringSummarizer()\<close> reads the template; \<open>summarize\<close> gets it as an argument.
\<close>

definition new_summarizer :: "('r, 'd, 'v) env \<Rightarrow> ('r, 'd, 'v, string) act" where
  "new_summarizer E = lift_sum (eng_template E)"

definition eng_request :: "('r, 'd, 'v) env \<Rightarrow> string \<Rightarrow> llm_request" where
  "eng_request E prompt =
     \<lparr>rq_model = llm_model (cfg E), rq_prompt = prompt, rq_temperature = 2 / 10, rq_max_tokens = 1024,
      rq_timeout = llm_timeout_seconds (cfg E)\<rparr>"

definition summarize ::
  "('r, 'd, 'v) env \<Rightarrow> string \<Rightarrow> json \<Rightarrow> json \<Rightarrow> json \<Rightarrow> json \<Rightarrow> ('r, 'd, 'v, engineering_summary) act" where
  "summarize E template subject author sha diff =
     bnd (lift_sum (replace_value ''{{subject}}'' subject template)) (\<lambda>p1.
     bnd (lift_sum (replace_value ''{{author}}'' author p1)) (\<lambda>p2.
     bnd (lift_sum (replace_value ''{{sha}}'' sha p2)) (\<lambda>p3.
     bnd (lift_sum (replace_value ''{{diff}}'' diff p3)) (\<lambda>prompt.
     bnd (llm_call E (eng_request E prompt) (llm_max_retries (cfg E))) (\<lambda>content.
     lift_sum (summary_of_reply (parse_reply content)))))))"

section \<open>The drafter\<close>

definition new_drafter :: "('r, 'd, 'v) env \<Rightarrow> ('r, 'd, 'v, string) act" where
  "new_drafter E = lift_sum (social_template E)"

definition social_request :: "('r, 'd, 'v) env \<Rightarrow> string \<Rightarrow> llm_request" where
  "social_request E prompt =
     \<lparr>rq_model = llm_model (cfg E), rq_prompt = prompt, rq_temperature = 3 / 10, rq_max_tokens = 320,
      rq_timeout = llm_timeout_seconds (cfg E)\<rparr>"

definition clip_post :: "string \<Rightarrow> string" where
  "clip_post content =
     (let c = py_strip (strip_char squote (strip_char dquote content))
      in if length c > 280 then take 277 c @ ''...'' else c)"

definition draft_post ::
  "('r, 'd, 'v) env \<Rightarrow> string \<Rightarrow> string \<Rightarrow> string \<Rightarrow> string \<Rightarrow> ('r, 'd, 'v, string) act" where
  "draft_post E template smry changelog risk =
     bnd (llm_call E
            (social_request E
              (replace_all ''{{risk_level}}'' risk
                (replace_all ''{{changelog}}'' changelog (replace_all ''{{summary}}'' smry template))))
            (llm_max_retries (cfg E))) (\<lambda>content.
     ret (clip_post content))"

section \<open>How the LLM call behaves\<close>

definition retries_at :: "('r, 'd, 'v) env \<Rightarrow> llm_request \<Rightarrow> nat \<Rightarrow> bool" where
  "retries_at E rq n \<longleftrightarrow> (\<exists>e. stripped_content (acompletion E rq n) = Inl e \<and> retryable e)"

text \<open>What an attempt leaves in the trace when the loop goes on after it.\<close>

definition retry_calls :: "('r, 'd, 'v) env \<Rightarrow> llm_request \<Rightarrow> nat \<Rightarrow> nat \<Rightarrow> call list" where
  "retry_calls E rq n attempt =
     Llm_Call (rq_prompt rq) #
       (if \<exists>e. stripped_content (acompletion E rq n) = Inl e \<and> transient e
        then [Slept (min (2 ^ attempt) 30)] else [])"

lemma llm_attempt_run:
  "llm_attempt E rq w =
     (stripped_content (acompletion E rq (w_tick w)),
      w\<lparr>w_tick := Suc (w_tick w), w_trace := w_trace w @ [Llm_Call (rq_prompt rq)]\<rparr>)"
  by (simp add: llm_attempt_def record_call_def thn_def bnd_def modifies_def fresh_tick_def
      lift_sum_def ret_def raise_def split: sum.splits)

lemma llm_loop_step:
  "llm_loop E rq max_retries made w =
     (if retries_at E rq (w_tick w) \<and> int made + 1 \<le> max_retries
      then llm_loop E rq max_retries (Suc made)
        (w\<lparr>w_tick := Suc (w_tick w), w_trace := w_trace w @ retry_calls E rq (w_tick w) (Suc made)\<rparr>)
      else (stripped_content (acompletion E rq (w_tick w)),
            w\<lparr>w_tick := Suc (w_tick w), w_trace := w_trace w @ [Llm_Call (rq_prompt rq)]\<rparr>))"
  by (subst llm_loop.simps)
    (auto simp: llm_attempt_run retries_at_def retryable_def retry_calls_def split: sum.splits)

lemma llm_loop_spec:
  "\<exists>n. n \<le> nat (max_retries - int made) \<and>
     (\<forall>i<n. retries_at E rq (w_tick w + i)) \<and>
     (n < nat (max_retries - int made) \<longrightarrow> \<not> retries_at E rq (w_tick w + n)) \<and>
     llm_loop E rq max_retries made w =
       (stripped_content (acompletion E rq (w_tick w + n)),
        w\<lparr>w_tick := w_tick w + n + 1,
          w_trace := w_trace w @
            concat (map (\<lambda>i. retry_calls E rq (w_tick w + i) (made + i + 1)) [0..<n]) @ [Llm_Call (rq_prompt rq)]\<rparr>)"
proof (induction "nat (max_retries - int made)" arbitrary: made w)
  case 0
  then show ?case by (auto simp: llm_loop_step [of E rq max_retries made])
next
  case (Suc k)
  let ?w = "w\<lparr>w_tick := Suc (w_tick w), w_trace := w_trace w @ retry_calls E rq (w_tick w) (Suc made)\<rparr>"
  show ?case
  proof (cases "retries_at E rq (w_tick w)")
    case False
    then show ?thesis
      by (intro exI [of _ 0]) (simp add: llm_loop_step [of E rq max_retries made])
  next
    case True
    have le: "int made + 1 \<le> max_retries" using Suc(2) by linarith
    have k: "k = nat (max_retries - int (Suc made))" using Suc(2) by linarith
    from Suc(1) [OF k, of ?w] obtain n where n: "n \<le> k"
      "\<forall>i<n. retries_at E rq (w_tick w + Suc i)"
      "n < k \<longrightarrow> \<not> retries_at E rq (w_tick w + Suc n)"
      "llm_loop E rq max_retries (Suc made) ?w =
       (stripped_content (acompletion E rq (w_tick w + Suc n)),
        w\<lparr>w_tick := w_tick w + Suc n + 1,
          w_trace := w_trace w @ retry_calls E rq (w_tick w) (Suc made) @
            concat (map (\<lambda>i. retry_calls E rq (w_tick w + Suc i) (made + Suc i + 1)) [0..<n]) @ [Llm_Call (rq_prompt rq)]\<rparr>)"
      unfolding k by auto
    have "llm_loop E rq max_retries made w = llm_loop E rq max_retries (Suc made) ?w"
      using True le by (subst llm_loop_step) simp
    with n show ?thesis
      using True Suc(2) by (intro exI [of _ "Suc n"]) (auto simp: map_upt_Suc All_less_Suc2 simp del: upt_Suc)
  qed
qed

text \<open>The attempts a bounded call makes: at most one more than the retries, and at least one.\<close>

lemma llm_call_outcome:
  assumes "llm_call E rq m w = (r, w')"
  shows "r = stripped_content (acompletion E rq (w_tick w' - 1))"
  using llm_loop_spec [of m 0 E rq w] assms by (auto simp: llm_call_def)

definition is_llm_call :: "call \<Rightarrow> bool" where
  "is_llm_call c = (case c of Llm_Call _ \<Rightarrow> True | _ \<Rightarrow> False)"

lemma count_llm_calls:
  "length (filter is_llm_call (concat (map (\<lambda>i. retry_calls E rq (f i) (g i)) xs))) = length xs"
  by (induction xs) (auto simp: retry_calls_def is_llm_call_def)

definition backoff_ok :: "call \<Rightarrow> bool" where
  "backoff_ok c = (case c of Slept n \<Rightarrow> 2 \<le> n \<and> n \<le> 30 | _ \<Rightarrow> True)"

lemma retry_calls_backoff: "1 \<le> k \<Longrightarrow> c \<in> set (retry_calls E rq n k) \<Longrightarrow> backoff_ok c"
proof -
  assume k: "1 \<le> k" and c: "c \<in> set (retry_calls E rq n k)"
  from k have "(2::int) ^ 1 \<le> 2 ^ k" by (intro power_increasing) auto
  with c show ?thesis by (auto simp: retry_calls_def backoff_ok_def split: if_splits)
qed

text \<open>The agents touch neither the database nor what lies beside it.\<close>

lemma keeps_llm_call [wp_ops]: "keeps (db E) (llm_call E rq m)" "keeps beside_db (llm_call E rq m)"
proof -
  have k: "db E (snd (llm_call E rq m w)) = db E w \<and> beside_db (snd (llm_call E rq m w)) = beside_db w" for w
    using llm_loop_spec [of m 0 E rq w] by (auto simp: llm_call_def beside_db_def)
  then show "keeps (db E) (llm_call E rq m)" "keeps beside_db (llm_call E rq m)"
    by (simp_all add: keeps_def)
qed

lemma keeps_agents [wp_ops]:
  "keeps (db E) (new_summarizer E)" "keeps (db E) (new_drafter E)"
  "keeps (db E) (summarize E t s a h d)" "keeps (db E) (draft_post E t sm cl risk)"
  "keeps beside_db (new_summarizer E)" "keeps beside_db (new_drafter E)"
  "keeps beside_db (summarize E t s a h d)" "keeps beside_db (draft_post E t sm cl risk)"
  unfolding new_summarizer_def new_drafter_def summarize_def draft_post_def by (intro wp_ops)+

section \<open>What the parser extracts\<close>

lemma length_fence [simp]: "length fence = 3"
  by (simp add: fence_def)

lemma find_fence_hit: "fence_at s = Some g \<Longrightarrow> find_fence s = Some g"
  by (cases s) (auto simp: fence_at_def fence_def)

lemma close_fence_body:
  assumes "\<not> contains fence bs" and "\<forall>c\<in>set ws. is_space c"
  shows "close_fence (bs @ CHR ''}'' # ws @ fence @ r) = Some (bs @ ''}'')"
  using assms(1)
proof (induction bs)
  case Nil
  have "dropWhile is_space (ws @ fence @ r) = fence @ r"
    using assms(2) by (simp add: dropWhile_append2 fence_def is_space_def)
  then show ?case by simp
next
  case (Cons b bs)
  have drop_space: "\<exists>us vs. bs = us @ vs \<and> dropWhile is_space (bs @ CHR ''}'' # t) = vs @ CHR ''}'' # t" for bs t
  proof (induction bs)
    case Nil
    show ?case by (simp add: is_space_def)
  next
    case (Cons b bs)
    then obtain us vs where "bs = us @ vs" "dropWhile is_space (bs @ CHR ''}'' # t) = vs @ CHR ''}'' # t"
      by blast
    then show ?case
      by (cases "is_space b") (auto intro: exI [of _ "b # us"])
  qed
  from drop_space obtain us vs where v: "bs = us @ vs"
    "dropWhile is_space (bs @ CHR ''}'' # ws @ fence @ r) = vs @ CHR ''}'' # ws @ fence @ r" by blast
  have "\<not> prefix fence (vs @ CHR ''}'' # ws @ fence @ r)"
  proof
    assume "prefix fence (vs @ CHR ''}'' # ws @ fence @ r)"
    then have "prefix fence vs"
      by (cases vs; cases "tl vs"; cases "tl (tl vs)") (auto simp: fence_def)
    then have "contains fence (b # bs)" unfolding contains_iff v(1)
      by (metis append_Cons append_assoc prefixE)
    with Cons.prems show False by simp
  qed
  moreover have "\<not> contains fence bs"
    using Cons.prems unfolding contains_iff by (metis append_Cons)
  ultimately show ?case using Cons.IH v(2) by simp
qed

lemma find_fence_absent: "\<not> contains fence s \<Longrightarrow> find_fence s = None"
proof (induction s)
  case Nil
  then show ?case by simp
next
  case (Cons c cs)
  then show ?case by (auto simp: fence_at_def)
qed

lemma contains_fence_after: "CHR 0x60 \<notin> set ys \<Longrightarrow> contains fence (s @ ys) \<Longrightarrow> contains fence s"
proof (induction s)
  case Nil
  then show ?case by (induction ys) (auto simp: fence_def)
next
  case (Cons c cs)
  have "prefix fence (c # cs)" if "prefix fence ((c # cs) @ ys)"
  proof -
    from that have "prefix fence (c # cs) \<or> (\<exists>us. fence = (c # cs) @ us \<and> prefix us ys)"
      by (subst (asm) prefix_append)
    then show ?thesis
    proof
      assume "\<exists>us. fence = (c # cs) @ us \<and> prefix us ys"
      then obtain us where us: "fence = (c # cs) @ us" "prefix us ys" by blast
      have "x = CHR 0x60" if "x \<in> set us" for x
      proof -
        from that have "x \<in> set ((c # cs) @ us)" by simp
        then have "x \<in> set fence" by (simp only: us(1))
        then show ?thesis by (simp add: fence_def)
      qed
      moreover have "set us \<subseteq> set ys" using us(2) by (rule set_mono_prefix)
      ultimately have "us = []" using Cons.prems(1) by (cases us) auto
      with us(1) show ?thesis by simp
    qed
  qed
  with Cons show ?case by auto
qed

lemma contains_fence_before: "CHR 0x60 \<notin> set xs \<Longrightarrow> contains fence (xs @ s) \<Longrightarrow> contains fence s"
  by (induction xs) (auto simp: fence_def)

lemma find_braces_around:
  assumes "CHR ''{'' \<notin> set before" and "CHR ''}'' \<notin> set after"
  shows "find_braces (before @ ''{'' @ body @ ''}'' @ after) = Some (''{'' @ body @ ''}'')"
proof -
  have d: "dropWhile (\<lambda>c. c \<noteq> CHR ''{'') (before @ ''{'' @ body @ ''}'' @ after) = ''{'' @ body @ ''}'' @ after"
    using assms(1) by (subst dropWhile_append2) auto
  have "dropWhile (\<lambda>x. x \<noteq> CHR ''}'') (rev after @ CHR ''}'' # rev body) = CHR ''}'' # rev body"
    using assms(2) by (subst dropWhile_append2) auto
  with d show ?thesis by (simp add: find_braces_def)
qed

lemma parse_bare_object:
  assumes "plain (JObj d)" and "CHR ''{'' \<notin> set before" and "CHR ''}'' \<notin> set after"
    and "\<not> contains fence (before @ dumps (JObj d) @ after)"
  shows "parse_reply (before @ dumps (JObj d) @ after) = JObj d"
proof -
  let ?body = "dumps_entries d"
  have b: "dumps (JObj d) = ''{'' @ ?body @ ''}''" by simp
  from find_fence_absent [OF assms(4)] find_braces_around [OF assms(2,3), of ?body]
  have "extract_object (before @ dumps (JObj d) @ after) = dumps (JObj d)"
    unfolding b extract_object_def by simp
  with loads_dumps [OF assms(1)] show ?thesis
    by (simp add: parse_reply_def Let_def del: dumps.simps)
qed

lemma fence_at_block:
  assumes "\<not> contains fence (dumps (JObj d))" and "tag = [] \<or> tag = ''json''"
    and "\<forall>c\<in>set ws1. is_space c" and "\<forall>c\<in>set ws2. is_space c"
  shows "fence_at (fence @ tag @ ws1 @ dumps (JObj d) @ ws2 @ fence @ r) = Some (dumps (JObj d))"
proof -
  let ?body = "dumps_entries d"
  have b: "dumps (JObj d) = ''{'' @ ?body @ ''}''" by simp
  from assms(1) have nb: "\<not> contains fence ?body"
    unfolding b contains_iff by (metis append.assoc append_Cons append_Nil)
  have sp: "dropWhile is_space (ws1 @ CHR ''{'' # t) = CHR ''{'' # t" for t
    using assms(3) by (subst dropWhile_append2) (auto simp: is_space_def)
  have nj: "\<not> prefix ''json'' (ws1 @ CHR ''{'' # t)" for t
    using assms(3) by (cases ws1) (auto simp: is_space_def)
  have p: "prefix fence (fence @ t)" "drop 3 fence = []" for t by simp_all
  show ?thesis
    using assms(2) close_fence_body [OF nb assms(4), of r]
    by (auto simp: fence_at_def p Let_def b sp nj)
qed

lemma parse_fenced_object:
  assumes "plain (JObj d)" and "\<not> contains fence (dumps (JObj d))" and "tag = [] \<or> tag = ''json''"
    and "\<forall>c\<in>set ws1. is_space c" and "\<forall>c\<in>set ws2. is_space c" and "CHR 0x60 \<notin> set before"
  shows "parse_reply (before @ fence @ tag @ ws1 @ dumps (JObj d) @ ws2 @ fence @ r) = JObj d"
proof -
  have "find_fence (before @ fence @ tag @ ws1 @ dumps (JObj d) @ ws2 @ fence @ r) = Some (dumps (JObj d))"
    using assms(6)
  proof (induction before)
    case Nil
    from find_fence_hit [OF fence_at_block [OF assms(2-5), of r]] show ?case
      by (simp del: dumps.simps)
  next
    case (Cons c cs)
    then have "fence_at (c # t) = None" for t by (auto simp: fence_at_def fence_def)
    with Cons show ?case by simp
  qed
  with loads_dumps [OF assms(1)] show ?thesis
    by (simp add: parse_reply_def extract_object_def Let_def del: dumps.simps)
qed

section \<open>Properties\<close>

text \<open>C21: the LLM call is bounded and makes exactly the attempts it must: it always comes back,
  after at most \<open>max_retries\<close> retries; every attempt before the last one failed with a timeout
  or a transient error, the last one answered, failed for good, or used up the retries, and its
  outcome is the outcome of the call; each back-off sleeps between 2 and 30 seconds, and nothing
  of the world changes but the clock and the trace of calls.\<close>

theorem llm_call_bounded:
  "\<exists>n calls. n \<le> nat max_retries \<and>
     (\<forall>i<n. retries_at E rq (w_tick w + i)) \<and>
     (n = nat max_retries \<or> \<not> retries_at E rq (w_tick w + n)) \<and>
     llm_call E rq max_retries w =
       (stripped_content (acompletion E rq (w_tick w + n)),
        w\<lparr>w_tick := w_tick w + n + 1, w_trace := w_trace w @ calls\<rparr>) \<and>
     length (filter is_llm_call calls) = n + 1 \<and> list_all backoff_ok calls"
proof -
  obtain n where n: "n \<le> nat max_retries" "\<forall>i<n. retries_at E rq (w_tick w + i)"
    "n < nat max_retries \<longrightarrow> \<not> retries_at E rq (w_tick w + n)"
    "llm_call E rq max_retries w =
       (stripped_content (acompletion E rq (w_tick w + n)),
        w\<lparr>w_tick := w_tick w + n + 1,
          w_trace := w_trace w @
            concat (map (\<lambda>i. retry_calls E rq (w_tick w + i) (i + 1)) [0..<n]) @ [Llm_Call (rq_prompt rq)]\<rparr>)"
    using llm_loop_spec [of max_retries 0 E rq w] by (auto simp: llm_call_def)
  have "length (filter is_llm_call [Llm_Call (rq_prompt rq)]) = 1" "backoff_ok (Llm_Call (rq_prompt rq))"
    by (simp_all add: is_llm_call_def backoff_ok_def)
  with n show ?thesis
    by (intro exI [of _ n] exI [of _ "concat (map (\<lambda>i. retry_calls E rq (w_tick w + i) (i + 1)) [0..<n]) @ [Llm_Call (rq_prompt rq)]"])
      (auto simp: count_llm_calls list_all_iff dest: retry_calls_backoff [rotated])
qed

theorem llm_call_bounded_witness:
  "fst (llm_call quiet_env (eng_request quiet_env ''p'') 2 (mem_world empty_tables)) = Inl TimeoutError \<and>
   w_tick (snd (llm_call quiet_env (eng_request quiet_env ''p'') 2 (mem_world empty_tables))) = 3"
proof -
  have r: "retries_at quiet_env (eng_request quiet_env ''p'') n" for n
    by (simp add: retries_at_def stripped_content_def retryable_def)
  from llm_call_bounded [of 2 quiet_env "eng_request quiet_env ''p''" "mem_world empty_tables"] r
  show ?thesis by (auto simp: stripped_content_def)
qed

text \<open>C40: the parser finds the object in either shape a model replies in: inside a fenced block
  (with or without the \<open>json\<close> tag and with any white space), or bare between prose without braces
  of its own; what comes out is the value whose JSON text was put in.\<close>

theorem parse_reply_finds_object:
  assumes "plain (JObj d)" and "\<not> contains fence (dumps (JObj d))" and "list_all is_space ws"
    and "tag \<in> {[], ''json''}"
    and "\<forall>c\<in>{CHR 0x60, CHR ''{'', CHR ''}''}. c \<notin> set before \<and> c \<notin> set after"
  shows "parse_reply (before @ fence @ tag @ ws @ dumps (JObj d) @ ws @ fence @ after) = JObj d \<and>
    parse_reply (before @ dumps (JObj d) @ after) = JObj d"
proof -
  have "\<not> contains fence (before @ dumps (JObj d) @ after)"
    using contains_fence_before [of before "dumps (JObj d) @ after"]
      contains_fence_after [of after "dumps (JObj d)"] assms(2,5) by blast
  with parse_fenced_object [OF assms(1,2), of tag ws ws before after] parse_bare_object [OF assms(1), of before after]
    assms(3-5) show ?thesis by (auto simp: list_all_iff)
qed

theorem parse_reply_finds_object_witness:
  "parse_reply (''Sure: '' @ fence @ ''json'' @ [newline] @ dumps (JObj [(''risk_level'', JStr ''high'')]) @ [newline] @ fence @ ''!'') =
     JObj [(''risk_level'', JStr ''high'')]"
proof -
  let ?d = "[(''risk_level'', JStr ''high'')]"
  have "\<not> contains fence (dumps (JObj ?d))"
    by (simp add: fence_def dumps_str_def esc_char_def char_consts)
  from parse_reply_finds_object [OF _ this, of "[newline]" "''json''" "''Sure: ''" "''!''"]
  show ?thesis by (simp add: is_space_def newline_def)
qed

text \<open>What the summarizer makes of a reply, case by case: a JSON object gives a summary
  whose texts are trimmed and whose risk is low, medium or high (anything else counts as low),
  unless its \<open>changed_files\<close> cannot be iterated; a text that is no JSON gives a summary of at most
  500 characters of it with risk low, and no exception; but a reply that is valid JSON and no
  object (a list, a number, a string) raises an AttributeError.\<close>

theorem summary_of_any_reply:
  "case loads (extract_object reply) of
     None \<Rightarrow> summary_of_reply (parse_reply reply) =
       Inr \<lparr>es_summary = py_strip (take 500 (extract_object reply)), es_changed_files = [], es_changelog = [],
            es_risk_level = ''low''\<rparr>
   | Some (JObj d) \<Rightarrow>
       (case str_each (get_or d ''changed_files'' (JList [])) of
          Inl e \<Rightarrow> summary_of_reply (parse_reply reply) = Inl e
        | Inr files \<Rightarrow>
            \<exists>s. summary_of_reply (parse_reply reply) = Inr s \<and> es_changed_files s = files \<and>
              es_risk_level s \<in> {''low'', ''medium'', ''high''} \<and>
              py_strip (es_summary s) = es_summary s \<and> py_strip (es_changelog s) = es_changelog s)
   | Some _ \<Rightarrow> \<exists>m. summary_of_reply (parse_reply reply) = Inl (AttributeError m)"
proof -
  have risk: "normalize_risk v \<in> {''low'', ''medium'', ''high''}" for v
    by (simp add: normalize_risk_def Let_def)
  have low: "normalize_risk (JStr ''low'') = ''low''"
    by (simp add: normalize_risk_def Let_def py_strip_def strip_if_def is_space_def py_lower_def lower_char_def)
  have strip [simp]: "py_strip (py_strip t) = py_strip t" "py_strip [] = []" for t
    by (simp_all add: py_strip_def) (simp add: strip_if_def)
  show ?thesis
    using risk low
    by (auto simp: parse_reply_def Let_def summary_of_reply_def get_or_def str_each_def
        split: option.splits json.splits sum.splits)
qed

text \<open>A post fits: whatever the model replies, the draft has at most 280 characters; a reply
  that fits is kept whole once its quotes and outer white space are removed, a longer one is its
  first 277 characters and an ellipsis.\<close>

theorem draft_fits:
  assumes "draft_post E template smry changelog risk w = (Inr post, w')"
  shows "length post \<le> 280 \<and>
    (\<exists>content text. stripped_content (acompletion E (social_request E
         (replace_all ''{{risk_level}}'' risk
           (replace_all ''{{changelog}}'' changelog (replace_all ''{{summary}}'' smry template)))) (w_tick w' - 1)) = Inr content \<and>
       text = py_strip (strip_char squote (strip_char dquote content)) \<and>
       post = (if length text \<le> 280 then text else take 277 text @ ''...''))"
proof -
  let ?rq = "social_request E (replace_all ''{{risk_level}}'' risk
    (replace_all ''{{changelog}}'' changelog (replace_all ''{{summary}}'' smry template)))"
  obtain r w1 where c: "llm_call E ?rq (llm_max_retries (cfg E)) w = (r, w1)" by force
  with assms obtain content where "r = Inr content" "w1 = w'" "post = clip_post content"
    by (cases r) (simp_all add: draft_post_def bnd_def ret_def)
  with llm_call_outcome [OF c] have "stripped_content (acompletion E ?rq (w_tick w' - 1)) = Inr content"
    "post = clip_post content" by simp_all
  then show ?thesis by (auto simp: clip_post_def Let_def)
qed

theorem draft_fits_witness:
  "\<exists>w'. draft_post (mem_env (default_settings ''/srv'') (\<lambda>_ _. Inr (JStr ''\"hi\"'')) (\<lambda>_ _ _. Inr (200, [])) (\<lambda>_ _ _. Inr ()))
     ''t'' ''s'' ''c'' ''low'' (mem_world empty_tables) = (Inr ''hi'', w')"
proof -
  let ?E = "mem_env (default_settings ''/srv'') (\<lambda>_ _. Inr (JStr ''\"hi\"'')) (\<lambda>_ _ _. Inr (200, [])) (\<lambda>_ _ _. Inr ())"
  have k: "stripped_content (Inr (JStr ''\"hi\"'')) = Inr ''\"hi\"''"
    by (simp add: stripped_content_def py_strip_def strip_if_def is_space_def)
  have "\<not> retries_at ?E rq n" for rq n using k by (simp add: retries_at_def)
  then obtain post w' where d: "draft_post ?E ''t'' ''s'' ''c'' ''low'' (mem_world empty_tables) = (Inr post, w')"
    by (simp add: draft_post_def bnd_def ret_def llm_call_def llm_loop_step k)
  from draft_fits [OF d] k d show ?thesis
    by (auto simp: strip_char_def py_strip_def strip_if_def is_space_def char_consts)
qed

end
