(* ===== verification/Gateway.thy ===== *)
theory Gateway
  imports Reference_Services
begin

text \<open>
  \<^verbatim>\<open>core/approvals/gateway.py\<close>: the approval request, its persistence and best-effort
  delivery to the file, Discord and Telegram, the operator's decision, and the two message
  formats. The lemmas say what a send leaves in the database whichever channel fails, and bound the
  sizes of the messages.
\<close>

section \<open>Requests and records\<close>

record approval_request =
  ar_summary :: string
  ar_outputs :: dict
  ar_affected :: "string list"
  ar_risk :: string
  ar_workflow_id :: "int option"
  ar_task_id :: "int option"

text \<open>The dictionary \<^verbatim>\<open>record\<close> of a send.\<close>

record approval_note =
  an_id :: int
  an_ts :: string
  an_summary :: string
  an_outputs :: dict
  an_affected :: "string list"
  an_risk :: string
  an_workflow_id :: "int option"
  an_task_id :: "int option"

definition note_to_dict :: "approval_note \<Rightarrow> dict" where
  "note_to_dict n =
     [(''approval_id'', JInt (an_id n)),
      (''ts'', JStr (an_ts n)),
      (''summary'', JStr (an_summary n)),
      (''outputs'', JObj (an_outputs n)),
      (''affected'', JList (map JStr (an_affected n))),
      (''risk_level'', JStr (an_risk n)),
      (''workflow_id'', json_of_option JInt (an_workflow_id n)),
      (''task_id'', json_of_option JInt (an_task_id n))]"

definition note_of :: "approval_request \<Rightarrow> int \<Rightarrow> datetime \<Rightarrow> approval_note" where
  "note_of req i t =
     \<lparr>an_id = i, an_ts = isoformat t, an_summary = ar_summary req, an_outputs = ar_outputs req,
      an_affected = ar_affected req, an_risk = ar_risk req, an_workflow_id = ar_workflow_id req,
      an_task_id = ar_task_id req\<rparr>"

definition approval_of :: "approval_request \<Rightarrow> approval" where
  "approval_of req =
     (blank_approval (ar_summary req))
       \<lparr>apr_workflow_id := ar_workflow_id req, apr_task_id := ar_task_id req,
        apr_outputs := ar_outputs req, apr_affected := ar_affected req,
        apr_risk_level := ar_risk req, apr_delivered_via := None\<rparr>"

section \<open>Message formats\<close>

definition trim :: "string \<Rightarrow> nat \<Rightarrow> string" where
  "trim s n = (if length s \<le> n then s else take (n - 3) s @ ''...'')"

text \<open>
  \<^verbatim>\<open>_trim\<close> of an output, which may be any JSON value: a short list or dict passes as it is,
  a long one and a number raise a TypeError.
\<close>

definition trim_value :: "json \<Rightarrow> nat \<Rightarrow> exn + json" where
  "trim_value v n =
     (case v of
        JStr s \<Rightarrow> Inr (JStr (trim s n))
      | JList xs \<Rightarrow> if length xs \<le> n then Inr v else Inl (TypeError ''can only concatenate list to list'')
      | JObj kvs \<Rightarrow> if length kvs \<le> n then Inr v else Inl (TypeError ''unhashable type: slice'')
      | _ \<Rightarrow> Inl (TypeError (''object of type '' @ type_name v @ '' has no len()'')))"

definition risk_color :: "string \<Rightarrow> int" where
  "risk_color risk =
     (if risk = ''low'' then 0x2ECC71 else if risk = ''medium'' then 0xF1C40F
      else if risk = ''high'' then 0xE74C3C else 0x95A5A6)"

definition bullets :: "string list \<Rightarrow> string" where
  "bullets paths = join [newline] (map (\<lambda>p. bullet # '' '' @ p) (take 10 paths))"

definition embed_field :: "string \<Rightarrow> json \<Rightarrow> json" where
  "embed_field nm v = JObj [(''name'', JStr nm), (''value'', v), (''inline'', JBool False)]"

text \<open>An optional part: nothing for a false value, else what \<open>f\<close> makes of the trimmed value.\<close>

definition optional_part :: "json \<Rightarrow> nat \<Rightarrow> (json \<Rightarrow> 'a list) \<Rightarrow> exn + 'a list" where
  "optional_part v n f =
     (if truthy v then (case trim_value v n of Inl e \<Rightarrow> Inl e | Inr t \<Rightarrow> Inr (f t)) else Inr [])"

definition discord_fields :: "approval_note \<Rightarrow> exn + json list" where
  "discord_fields n =
     (let affected = (let b = bullets (an_affected n) in if b = [] then ''(none listed)'' else b) in
      case optional_part (get_or (an_outputs n) ''engineering_summary'' (JStr [])) 1024
             (\<lambda>t. [embed_field ''Engineering summary'' t]) of
        Inl e \<Rightarrow> Inl e
      | Inr eng \<Rightarrow>
          (case optional_part (get_or (an_outputs n) ''social_post'' (JStr [])) 1024
                  (\<lambda>t. [embed_field ''Social draft'' t]) of
             Inl e \<Rightarrow> Inl e
           | Inr social \<Rightarrow>
               Inr (eng @ social @ [embed_field ''Affected files'' (JStr (trim affected 1024))])))"

definition format_discord :: "approval_note \<Rightarrow> exn + json" where
  "format_discord n =
     (case discord_fields n of
        Inl e \<Rightarrow> Inl e
      | Inr fs \<Rightarrow>
          Inr (JObj
            [(''username'', JStr ''WiseOrder''),
             (''embeds'', JList [JObj
               [(''title'', JStr (''Approval #'' @ str_of_int (an_id n) @ '' '' @ [em_dash] @ '' '' @ py_upper (an_risk n))),
                (''description'', JStr (trim (an_summary n) 2048)),
                (''color'', JInt (risk_color (an_risk n))),
                (''fields'', JList fs),
                (''timestamp'', JStr (an_ts n))]])]))"

text \<open>\<^verbatim>\<open>"\n".join(parts)\<close>, which takes strings only.\<close>

fun texts_of :: "json list \<Rightarrow> exn + string list" where
  "texts_of [] = Inr []"
| "texts_of (JStr s # vs) = (case texts_of vs of Inl e \<Rightarrow> Inl e | Inr ss \<Rightarrow> Inr (s # ss))"
| "texts_of (v # vs) = Inl (TypeError (''sequence item: expected str instance, '' @ type_name v @ '' found''))"

definition telegram_parts :: "approval_note \<Rightarrow> exn + json list" where
  "telegram_parts n =
     (case optional_part (get_or (an_outputs n) ''engineering_summary'' (JStr [])) 1500
             (\<lambda>t. [JStr [], JStr ''*Engineering summary*'', t]) of
        Inl e \<Rightarrow> Inl e
      | Inr eng \<Rightarrow>
          (case optional_part (get_or (an_outputs n) ''social_post'' (JStr [])) 1000
                  (\<lambda>t. [JStr [], JStr ''*Social draft*'', t]) of
             Inl e \<Rightarrow> Inl e
           | Inr social \<Rightarrow>
               Inr ([JStr (''*Approval #'' @ str_of_int (an_id n) @ ''* '' @ [em_dash] @ '' '' @ [CHR 0x60] @ an_risk n @ [CHR 0x60]),
                     JStr [], JStr (an_summary n)] @ eng @ social @
                    (if an_affected n = [] then []
                     else [JStr [], JStr ''*Affected files*'', JStr (bullets (an_affected n))]))))"

definition format_telegram :: "approval_note \<Rightarrow> exn + string" where
  "format_telegram n =
     (case telegram_parts n of
        Inl e \<Rightarrow> Inl e
      | Inr parts \<Rightarrow> (case texts_of parts of Inl e \<Rightarrow> Inl e | Inr ss \<Rightarrow> Inr (take 4000 (join [newline] ss))))"

section \<open>Sending\<close>

text \<open>The three channels: each gives the name of the channel when it delivered.\<close>

definition approvals_path :: "('r, 'd, 'v) env \<Rightarrow> string" where
  "approvals_path E = log_dir (cfg E) @ ''/approvals.jsonl''"

definition deliver_file :: "('r, 'd, 'v) env \<Rightarrow> approval_note \<Rightarrow> ('r, 'd, 'v, string list) act" where
  "deliver_file E n =
     (let line = dumps (JObj (note_to_dict n)) @ [newline] in
      try_except
        (thn (record_call (File_Append (approvals_path E) line))
          (bnd fresh_tick (\<lambda>k.
           bnd (lift_sum (append_file E (approvals_path E) line k)) (\<lambda>_.
           thn (modifies (\<lambda>w. w\<lparr>w_file := w_file w @ [line]\<rparr>)) (ret [''file''])))))
        (\<lambda>e. ret []))"

definition post_json :: "('r, 'd, 'v) env \<Rightarrow> string \<Rightarrow> json \<Rightarrow> ('r, 'd, 'v, int \<times> string) act" where
  "post_json E url body =
     thn (record_call (Http_Post url body)) (bnd fresh_tick (\<lambda>k. lift_sum (http_post E url body k)))"

definition deliver_discord :: "('r, 'd, 'v) env \<Rightarrow> approval_note \<Rightarrow> ('r, 'd, 'v, string list) act" where
  "deliver_discord E n =
     (if discord_webhook_url (cfg E) = [] then ret []
      else
        try_except
          (bnd (lift_sum (format_discord n)) (\<lambda>body.
           bnd (post_json E (discord_webhook_url (cfg E)) body) (\<lambda>r.
           ret (if fst r < 300 then [''discord''] else []))))
          (\<lambda>e. ret []))"

definition deliver_telegram :: "('r, 'd, 'v) env \<Rightarrow> approval_note \<Rightarrow> ('r, 'd, 'v, string list) act" where
  "deliver_telegram E n =
     (if telegram_bot_token (cfg E) = [] \<or> telegram_chat_id (cfg E) = [] then ret []
      else
        try_except
          (bnd (lift_sum (format_telegram n)) (\<lambda>t.
           bnd (post_json E (''https://api.telegram.org/bot'' @ telegram_bot_token (cfg E) @ ''/sendMessage'')
                 (JObj [(''chat_id'', JStr (telegram_chat_id (cfg E))), (''text'', JStr t),
                        (''parse_mode'', JStr ''Markdown'')])) (\<lambda>r.
           ret (if fst r < 300 then [''telegram''] else []))))
          (\<lambda>e. ret []))"

definition delivered_text :: "string list \<Rightarrow> string option" where
  "delivered_text ds = (if ds = [] then None else Some (join '','' ds))"

definition send :: "('r, 'd, 'v) env \<Rightarrow> approval_request \<Rightarrow> ('r, 'd, 'v, int) act" where
  "send E req =
     bnd (session_scope E (add_approval E (approval_of req))) (\<lambda>i.
     bnd (utc_now E) (\<lambda>t.
     bnd (deliver_file E (note_of req i t)) (\<lambda>ds1.
     bnd (deliver_discord E (note_of req i t)) (\<lambda>ds2.
     bnd (deliver_telegram E (note_of req i t)) (\<lambda>ds3.
     bnd (session_scope E
       (bnd (fetch_approval E i) (\<lambda>_.
        update_approvals E (\<lambda>r. apr_id r = i) (\<lambda>r. r\<lparr>apr_delivered_via := delivered_text (ds1 @ ds2 @ ds3)\<rparr>)))) (\<lambda>_.
     ret i))))))"

definition decide :: "('r, 'd, 'v) env \<Rightarrow> int \<Rightarrow> string \<Rightarrow> ('r, 'd, 'v, bool) act" where
  "decide E i decision =
     (if decision \<notin> {''approved'', ''rejected''} then raise (ValueError (''decision must be '' @ py_repr ''approved'' @ '' or '' @ py_repr ''rejected''))
      else
        session_scope E
          (bnd (find_approval E i) (\<lambda>row.
             case row of
               None \<Rightarrow> ret False
             | Some _ \<Rightarrow>
                 bnd (utc_now E) (\<lambda>t.
                 bnd (update_approvals E (\<lambda>r. apr_id r = i)
                       (\<lambda>r. r\<lparr>apr_decision := Some decision, apr_decided_at := Some t\<rparr>)) (\<lambda>_.
                 ret True)))))"

section \<open>Delivery touches nothing but the outside\<close>

text \<open>Two worlds that differ at most in the clock, the approvals file and the trace, which grows.\<close>

definition only_out :: "('r, 'd, 'v) world \<Rightarrow> ('r, 'd, 'v) world \<Rightarrow> bool" where
  "only_out w w' \<longleftrightarrow>
     w_redis w' = w_redis w \<and> w_pg w' = w_pg w \<and> w_vec w' = w_vec w \<and> w_ctx w' = w_ctx w \<and>
     prefix (w_trace w) (w_trace w')"

lemma only_out_refl [simp]: "only_out w w"
  by (simp add: only_out_def)

lemma only_out_trans [trans]: "only_out u v \<Longrightarrow> only_out v w \<Longrightarrow> only_out u w"
  by (auto simp: only_out_def intro: prefix_order.trans)

lemma only_out_steps [simp]:
  "only_out w (w'\<lparr>w_tick := n\<rparr>) = only_out w w'"
  "only_out w (w'\<lparr>w_file := f\<rparr>) = only_out w w'"
  by (simp_all add: only_out_def)

lemma only_out_trace [intro]: "only_out w w' \<Longrightarrow> only_out w (w'\<lparr>w_trace := w_trace w' @ cs\<rparr>)"
  by (simp add: only_out_def)

lemma only_out_db: "only_out w w' \<Longrightarrow> db E w' = db E w"
  by (simp add: only_out_def db_def)

text \<open>
  A delivery never raises an Exception: it returns the channel's name or nothing, and only a
  cancellation of the call passes.
\<close>

definition delivers :: "string \<Rightarrow> ('r, 'd, 'v, string list) act \<Rightarrow> bool" where
  "delivers ch m \<longleftrightarrow>
     (\<forall>w. wp m (\<lambda>ds w'. ds \<in> {[], [ch]} \<and> only_out w w') (\<lambda>e w'. e = CancelledError \<and> only_out w w') w)"

lemma deliver_file_delivers: "delivers ''file'' (deliver_file E n)"
  by (auto simp: delivers_def deliver_file_def Let_def split: sum.splits)

lemma deliver_discord_delivers: "delivers ''discord'' (deliver_discord E n)"
  by (auto simp: delivers_def deliver_discord_def post_json_def split: sum.splits)

lemma deliver_telegram_delivers: "delivers ''telegram'' (deliver_telegram E n)"
  by (auto simp: delivers_def deliver_telegram_def post_json_def split: sum.splits)

section \<open>What a send leaves behind\<close>

text \<open>The contents after a send that got as far as its row: the row, with its delivery noted.\<close>

definition with_approval :: "approval_request \<Rightarrow> int \<Rightarrow> datetime \<Rightarrow> string option \<Rightarrow> tables \<Rightarrow> tables" where
  "with_approval req i ts via t =
     approvals_update (\<lambda>rs. rs @ [(stamp_approval i ts (approval_of req))\<lparr>apr_delivered_via := via\<rparr>]) t"

definition delivery_notes :: "string option set" where
  "delivery_notes =
     delivered_text ` {a @ b @ c |a b c. a \<in> {[], [''file'']} \<and> b \<in> {[], [''discord'']} \<and> c \<in> {[], [''telegram'']}}"

lemma body_add_approval:
  assumes "pg_laws (pg E)"
  shows "session_body E (add_approval E (approval_of req))
    (\<lambda>t i t'. 0 < i \<and> i \<notin> apr_id ` set (approvals t) \<and> (\<exists>ts. t' = with_approval req i ts None t))"
  by (rule session_body_weaken [OF session_body_statements(4) [OF assms]])
    (auto simp: with_approval_def approval_of_def blank_approval_def stamp_approval_def)

lemma body_note_delivery:
  assumes "pg_laws (pg E)"
  shows "session_body E
      (bnd (fetch_approval E i) (\<lambda>_.
        update_approvals E (\<lambda>r. apr_id r = i) (\<lambda>r. r\<lparr>apr_delivered_via := via\<rparr>)))
    (\<lambda>t u t'. t' = approvals_update (map (\<lambda>r. if apr_id r = i then r\<lparr>apr_delivered_via := via\<rparr> else r)) t)"
  by (rule session_body_weaken [OF session_body_bnd [OF session_body_fetch_approval [OF assms]
        session_body_statements(12) [OF assms]]]) auto

lemma note_with_approval:
  assumes "i \<notin> apr_id ` set (approvals t)"
  shows "approvals_update (map (\<lambda>r. if apr_id r = i then r\<lparr>apr_delivered_via := via\<rparr> else r))
      (with_approval req i ts None t) = with_approval req i ts via t"
proof -
  from assms have "map (\<lambda>r. if apr_id r = i then r\<lparr>apr_delivered_via := via\<rparr> else r) (approvals t) = approvals t"
    by (intro map_idI) auto
  then show ?thesis by (simp add: with_approval_def stamp_approval_def)
qed

text \<open>What the rest of the world keeps in a send: Redis, the vectors, the context, the trace so far.\<close>

definition kept :: "('r, 'd, 'v) world \<Rightarrow> ('r, 'd, 'v) world \<Rightarrow> bool" where
  "kept w w' \<longleftrightarrow> w_redis w' = w_redis w \<and> w_vec w' = w_vec w \<and> w_ctx w' = w_ctx w \<and> prefix (w_trace w) (w_trace w')"

lemma kept_refl [simp]: "kept w w"
  by (simp add: kept_def)

lemma kept_trans [trans]: "kept u v \<Longrightarrow> kept v w \<Longrightarrow> kept u w"
  by (auto simp: kept_def intro: prefix_order.trans)

lemma kept_tick [simp]: "kept w (w'\<lparr>w_tick := n\<rparr>) = kept w w'"
  by (simp add: kept_def)

lemma only_db_kept: "only_db w w' \<Longrightarrow> kept w w'"
  by (simp add: only_db_def kept_def)

lemma only_out_kept: "only_out w w' \<Longrightarrow> kept w w'"
  by (simp add: only_out_def kept_def)

text \<open>The rule of a delivery in a sequence.\<close>

lemma wp_delivers:
  assumes "delivers ch m"
    and "\<And>ds w'. ds \<in> {[], [ch]} \<Longrightarrow> kept w w' \<Longrightarrow> db E w' = db E w \<Longrightarrow> Q ds w'"
    and "\<And>w'. kept w w' \<Longrightarrow> db E w' = db E w \<Longrightarrow> X CancelledError w'"
  shows "wp m Q X w"
  by (rule wp_mono [OF assms(1) [unfolded delivers_def, THEN spec]])
    (auto intro: assms(2,3) dest: only_out_kept only_out_db)

lemma wp_send:
  fixes E :: "('r, 'd, 'v) env" and w :: "('r, 'd, 'v) world"
  assumes laws: "pg_laws (pg E)"
    and ret: "\<And>i ts via w'. 0 < i \<Longrightarrow> i \<notin> apr_id ` set (approvals (db E w)) \<Longrightarrow> via \<in> delivery_notes \<Longrightarrow>
      db E w' = with_approval req i ts via (db E w) \<Longrightarrow> kept w w' \<Longrightarrow> Q i w'"
    and exc: "\<And>e w'. db E w' = db E w \<or> (\<exists>i ts. i \<notin> apr_id ` set (approvals (db E w)) \<and>
      db E w' = with_approval req i ts None (db E w)) \<Longrightarrow> kept w w' \<Longrightarrow> X e w'"
  shows "wp (send E req) Q X w"
  unfolding send_def wp_bnd wp_utc_now wp_ret
proof (rule wp_session_scope [OF laws body_add_approval [OF laws]], elim conjE exE)
  fix i ts and w1 :: "('r, 'd, 'v) world"
  let ?w1 = "w1\<lparr>w_tick := Suc (w_tick w1)\<rparr>" and ?n = "note_of req i (clock E (w_tick w1))"
  assume w1: "only_db w w1" and i: "0 < i" "i \<notin> apr_id ` set (approvals (db E w))"
    "db E w1 = with_approval req i ts None (db E w)"
  then have k1: "kept w ?w1" by (simp add: only_db_kept)
  from i have x: "X e w'" if "kept ?w1 w'" "db E w' = with_approval req i ts None (db E w)" for e w'
    using that by (intro exc) (auto intro: kept_trans [OF k1])
  show "wp (deliver_file E ?n) (\<lambda>ds1. wp (deliver_discord E ?n) (\<lambda>ds2. wp (deliver_telegram E ?n)
      (\<lambda>ds3. wp (session_scope E (bnd (fetch_approval E i) (\<lambda>_.
        update_approvals E (\<lambda>r. apr_id r = i) (\<lambda>r. r\<lparr>apr_delivered_via := delivered_text (ds1 @ ds2 @ ds3)\<rparr>))))
        (\<lambda>_. Q i) X) X) X) X ?w1"
  proof (intro wp_delivers [OF deliver_file_delivers, where E = E]
      wp_delivers [OF deliver_discord_delivers, where E = E]
      wp_delivers [OF deliver_telegram_delivers, where E = E]
      wp_session_scope [OF laws body_note_delivery [OF laws]])
    fix ds1 ds2 ds3 a and w2 w3 w4 w5 :: "('r, 'd, 'v) world"
    assume ds: "ds1 \<in> {[], [''file'']}" "ds2 \<in> {[], [''discord'']}" "ds3 \<in> {[], [''telegram'']}"
      and k: "kept ?w1 w2" "kept w2 w3" "kept w3 w4" "only_db w4 w5"
      and d: "db E w2 = db E ?w1" "db E w3 = db E w2" "db E w4 = db E w3"
        "db E w5 = approvals_update (map (\<lambda>r. if apr_id r = i then r\<lparr>apr_delivered_via := delivered_text (ds1 @ ds2 @ ds3)\<rparr> else r)) (db E w4)"
    show "Q i w5"
    proof (rule ret [OF i(1,2)])
      show "delivered_text (ds1 @ ds2 @ ds3) \<in> delivery_notes"
        using ds unfolding delivery_notes_def by blast
      show "db E w5 = with_approval req i ts (delivered_text (ds1 @ ds2 @ ds3)) (db E w)"
        using d i(3) by (simp add: note_with_approval [OF i(2)])
      show "kept w w5"
        using k1 k only_db_kept by (meson kept_trans)
    qed
  qed (auto intro!: x simp: i(3) intro: kept_trans only_db_kept kept_trans [OF kept_trans] kept_trans [OF kept_trans [OF kept_trans]])
qed (auto intro!: exc dest: only_db_kept)

text \<open>A send keeps what lies beside the database.\<close>

lemma keeps_send [wp_ops]: "keeps beside_db (send E req)"
proof -
  have "keeps beside_db (modifies (\<lambda>w. w\<lparr>w_file := w_file w @ [l]\<rparr>))" for l
    by (rule keeps_modifies) (simp add: beside_db_def)
  then show ?thesis
    unfolding send_def deliver_file_def deliver_discord_def deliver_telegram_def post_json_def Let_def
    by (intro wp_ops)
qed

text \<open>When no channel call is cancelled, a delivery returns.\<close>

definition uncancelled :: "('r, 'd, 'v) env \<Rightarrow> bool" where
  "uncancelled E \<longleftrightarrow>
     (\<forall>p t k. append_file E p t k \<noteq> Inl CancelledError) \<and> (\<forall>u b k. http_post E u b k \<noteq> Inl CancelledError)"

definition delivers_surely :: "('r, 'd, 'v) env \<Rightarrow> ('r, 'd, 'v, string list) act \<Rightarrow> bool" where
  "delivers_surely E m \<longleftrightarrow> (\<forall>w. wp m (\<lambda>_ w'. db E w' = db E w) (\<lambda>_ _. False) w)"

lemma trim_value_error: "trim_value v n = Inl e \<Longrightarrow> e \<noteq> CancelledError"
  by (auto simp: trim_value_def split: json.splits if_splits)

lemma texts_of_error: "texts_of vs = Inl e \<Longrightarrow> e \<noteq> CancelledError"
  by (induction vs rule: texts_of.induct) (auto split: sum.splits)

lemma optional_part_error: "optional_part v n f = Inl e \<Longrightarrow> e \<noteq> CancelledError"
  by (auto simp: optional_part_def split: sum.splits if_splits dest: trim_value_error)

lemma format_discord_error: "format_discord n = Inl e \<Longrightarrow> e \<noteq> CancelledError"
  by (auto simp: format_discord_def discord_fields_def Let_def split: sum.splits dest: optional_part_error)

lemma format_telegram_error: "format_telegram n = Inl e \<Longrightarrow> e \<noteq> CancelledError"
  by (auto simp: format_telegram_def telegram_parts_def split: sum.splits if_splits
      dest: optional_part_error texts_of_error)

lemma deliveries_surely:
  assumes "uncancelled E"
  shows "delivers_surely E (deliver_file E n)" and "delivers_surely E (deliver_discord E n)"
    and "delivers_surely E (deliver_telegram E n)"
  using assms format_discord_error [of n] format_telegram_error [of n]
  by (auto simp: delivers_surely_def uncancelled_def deliver_file_def deliver_discord_def
      deliver_telegram_def post_json_def Let_def split: sum.splits)

lemma wp_delivers_surely:
  "delivers_surely E m \<Longrightarrow> (\<And>ds w'. db E w' = db E w \<Longrightarrow> Q ds w') \<Longrightarrow> wp m Q X w"
  unfolding delivers_surely_def by (blast intro: wp_mono)

lemma total_note_delivery:
  assumes "pg_laws (pg E)" and "pg_healthy (pg E)"
  shows "session_total E (\<lambda>t. \<exists>r. filter (\<lambda>r. apr_id r = i) (approvals t) = [r])
      (bnd (fetch_approval E i) (\<lambda>_. update_approvals E (\<lambda>r. apr_id r = i) (\<lambda>r. r\<lparr>apr_delivered_via := via\<rparr>)))
      (\<lambda>_ _ _. True)"
  by (rule session_total_weaken [OF session_total_bnd [OF session_total_statements(9) [OF assms]
        session_total_statements(6) [OF assms]]]) auto

lemma wp_send_total:
  fixes E :: "('r, 'd, 'v) env" and w :: "('r, 'd, 'v) world"
  assumes laws: "pg_laws (pg E)" and healthy: "pg_healthy (pg E)" and u: "uncancelled E"
  shows "wp (send E req) (\<lambda>_ _. True) (\<lambda>_ _. False) w"
  unfolding send_def wp_bnd wp_utc_now wp_ret
proof (rule wp_session_scope_total [OF laws healthy session_total_weaken [OF session_total_statements(3) [OF laws healthy]]], simp, assumption, simp, elim conjE exE)
  fix i ts and w1 :: "('r, 'd, 'v) world"
  let ?w1 = "w1\<lparr>w_tick := Suc (w_tick w1)\<rparr>" and ?n = "note_of req i (clock E (w_tick w1))"
  assume i: "i \<notin> apr_id ` set (approvals (db E w))"
    and w1: "db E w1 = approvals_update (\<lambda>rs. rs @ [stamp_approval i ts (approval_of req)]) (db E w)"
  then have one: "\<exists>r. filter (\<lambda>r. apr_id r = i) (approvals (db E w1)) = [r]"
    by (auto simp: filter_empty_conv)
  show "wp (deliver_file E ?n) (\<lambda>ds1. wp (deliver_discord E ?n) (\<lambda>ds2. wp (deliver_telegram E ?n)
      (\<lambda>ds3. wp (session_scope E (bnd (fetch_approval E i) (\<lambda>_.
        update_approvals E (\<lambda>r. apr_id r = i) (\<lambda>r. r\<lparr>apr_delivered_via := delivered_text (ds1 @ ds2 @ ds3)\<rparr>))))
        (\<lambda>_ _. True) (\<lambda>_ _. False)) (\<lambda>_ _. False)) (\<lambda>_ _. False)) (\<lambda>_ _. False) ?w1"
    by (intro wp_delivers_surely [OF deliveries_surely(1) [OF u]] wp_delivers_surely [OF deliveries_surely(2) [OF u]]
        wp_delivers_surely [OF deliveries_surely(3) [OF u]] wp_session_scope_total [OF laws healthy total_note_delivery [OF laws healthy]])
      (use one in simp_all)
qed

section \<open>Deciding\<close>

definition decided :: "int \<Rightarrow> string \<Rightarrow> datetime \<Rightarrow> tables \<Rightarrow> tables" where
  "decided i decision t =
     approvals_update (map (\<lambda>r. if apr_id r = i then r\<lparr>apr_decision := Some decision, apr_decided_at := Some t\<rparr> else r))"

lemma body_decide:
  assumes "pg_laws (pg E)"
  shows "session_body E
     (bnd (find_approval E i) (\<lambda>row. case row of None \<Rightarrow> ret False
        | Some _ \<Rightarrow> bnd (utc_now E) (\<lambda>t. bnd (update_approvals E (\<lambda>r. apr_id r = i)
              (\<lambda>r. r\<lparr>apr_decision := Some decision, apr_decided_at := Some t\<rparr>)) (\<lambda>_. ret True))))
     (\<lambda>t b t'. if b then (\<exists>r. filter (\<lambda>r. apr_id r = i) (approvals t) = [r]) \<and> (\<exists>ts. t' = decided i decision ts t)
        else i \<notin> apr_id ` set (approvals t) \<and> t' = t)"
proof -
  let ?upd = "bnd (utc_now E) (\<lambda>t. bnd (update_approvals E (\<lambda>r. apr_id r = i)
    (\<lambda>r. r\<lparr>apr_decision := Some decision, apr_decided_at := Some t\<rparr>)) (\<lambda>_. ret True))"
  have upd: "session_body E ?upd (\<lambda>t b t'. b \<and> (\<exists>ts. t' = decided i decision ts t))"
    by (rule session_body_weaken [OF session_body_bnd [OF session_body_now session_body_bnd
          [OF session_body_statements(12) [OF assms] session_body_ret]]]) (auto simp: decided_def)
  have k: "session_body E (case row of None \<Rightarrow> ret False | Some _ \<Rightarrow> ?upd)
    (\<lambda>t b t'. if row = None then \<not> b \<and> t' = t else b \<and> (\<exists>ts. t' = decided i decision ts t))" for row
    using upd by (cases row) (auto intro: session_body_weaken [OF session_body_ret])
  show ?thesis
    by (rule session_body_weaken [OF session_body_bnd [OF session_body_find_approval [OF assms] k]])
      (auto simp: filter_empty_conv split: if_splits option.splits)
qed

section \<open>Sizes of the messages\<close>

lemma length_trim: "3 \<le> n \<Longrightarrow> length (trim s n) \<le> n"
  by (auto simp: trim_def)

lemma trim_keeps: "length s \<le> n \<Longrightarrow> trim s n = s"
  by (simp add: trim_def)

text \<open>The size of the text of an embed field, and of a JSON text.\<close>

fun text_size :: "json \<Rightarrow> nat" where
  "text_size (JStr s) = length s"
| "text_size v = 0"

definition field_value :: "json \<Rightarrow> json" where
  "field_value f = (case f of JObj d \<Rightarrow> get_or d ''value'' JNull | _ \<Rightarrow> JNull)"

lemma trim_value_size: "3 \<le> n \<Longrightarrow> trim_value v n = Inr t \<Longrightarrow> text_size t \<le> n"
  by (auto simp: trim_value_def length_trim split: json.splits if_splits)

lemma field_value_embed [simp]: "field_value (embed_field nm v) = v"
  by (simp add: field_value_def embed_field_def get_or_def)

lemma optional_field_size:
  "optional_part v n (\<lambda>t. [embed_field nm t]) = Inr fs \<Longrightarrow> 3 \<le> n \<Longrightarrow>
     length fs \<le> 1 \<and> (\<forall>f\<in>set fs. text_size (field_value f) \<le> n)"
  by (auto simp: optional_part_def trim_value_size split: if_splits sum.splits)

lemma discord_fields_size:
  assumes "discord_fields n = Inr fs"
  shows "length fs \<le> 3 \<and> (\<forall>f\<in>set fs. text_size (field_value f) \<le> 1024)"
proof -
  from assms obtain a b c where fs: "fs = a @ b @ [embed_field ''Affected files'' (JStr (trim c 1024))]"
    and a: "length a \<le> 1" "\<forall>f\<in>set a. text_size (field_value f) \<le> 1024"
    and b: "length b \<le> 1" "\<forall>f\<in>set b. text_size (field_value f) \<le> 1024"
    by (auto simp: discord_fields_def Let_def split: sum.splits dest!: optional_field_size)
  from a(1) b(1) have "length fs \<le> 3" unfolding fs by simp
  with a(2) b(2) show ?thesis unfolding fs by (auto simp: length_trim)
qed

section \<open>Properties\<close>


definition sample_request :: approval_request where
  "sample_request = \<lparr>ar_summary = ''Commit ab'', ar_outputs = [(''engineering_summary'', JStr ''s'')],
     ar_affected = [''a.py''], ar_risk = ''low'', ar_workflow_id = Some 3, ar_task_id = None\<rparr>"

lemma stamped_approval:
  "stamp_approval i ts (approval_of req) =
     \<lparr>apr_id = i, apr_workflow_id = ar_workflow_id req, apr_task_id = ar_task_id req, apr_summary = ar_summary req,
      apr_outputs = ar_outputs req, apr_affected = ar_affected req, apr_risk_level = ar_risk req,
      apr_decision = None, apr_delivered_via = None, apr_created_at = ts, apr_decided_at = None\<rparr>"
  by (simp add: stamp_approval_def approval_of_def blank_approval_def)


text \<open>No channel can fail a send: while the database answers and nothing is cancelled, a send
  returns, whatever the file system and the webhooks raise, and whatever the outputs of the request
  are (also outputs the message formats cannot handle).\<close>

theorem send_survives_channels:
  assumes "pg_laws (pg E)" and "pg_healthy (pg E)" and "uncancelled E"
  shows "\<exists>i w'. send E req w = (Inr i, w')"
  using wp_send_total [OF assms, of req w] by (auto simp: wp_def split: prod.splits sum.splits)

theorem send_survives_channels_witness:
  "\<exists>i w'. send (mem_env ((default_settings ''/srv'')\<lparr>discord_webhook_url := ''d''\<rparr>) (\<lambda>_ _. Inl TimeoutError)
      (\<lambda>_ _ _. Inl TimeoutError) (\<lambda>_ _ _. Inl (FileNotFoundError ''logs'')))
    (sample_request\<lparr>ar_outputs := [(''social_post'', JInt 5)]\<rparr>) (mem_world empty_tables) = (Inr i, w')"
  by (rule send_survives_channels) (simp_all add: uncancelled_def)

text \<open>C20: a decision is recorded on its approval and nowhere else: any other word than
  \<open>approved\<close> and \<open>rejected\<close> is a ValueError before the database is touched; an unknown approval
  gives False and changes nothing; otherwise the row of that id gets the decision and its time and
  every other row stays. A raise leaves the tables as they were.\<close>

theorem decide_updates_one_row:
  assumes "pg_laws (pg E)" and "decide E i decision w = (r, w')"
  shows "if decision \<notin> {''approved'', ''rejected''} then (\<exists>m. r = Inl (ValueError m)) \<and> w' = w
    else (case r of
        Inl e \<Rightarrow> db E w' = db E w
      | Inr False \<Rightarrow> db E w' = db E w \<and> i \<notin> apr_id ` set (approvals (db E w))
      | Inr True \<Rightarrow> (\<exists>row. filter (\<lambda>r. apr_id r = i) (approvals (db E w)) = [row]) \<and>
          (\<exists>ts. db E w' = decided i decision ts (db E w)))"
proof (cases "decision \<in> {''approved'', ''rejected''}")
  case True
  then have "wp (decide E i decision)
      (\<lambda>b w'. if b then (\<exists>row. filter (\<lambda>r. apr_id r = i) (approvals (db E w)) = [row]) \<and>
            (\<exists>ts. db E w' = decided i decision ts (db E w))
        else i \<notin> apr_id ` set (approvals (db E w)) \<and> db E w' = db E w)
      (\<lambda>e w'. db E w' = db E w) w"
    unfolding decide_def by (auto intro!: wp_session_scope [OF assms(1) body_decide [OF assms(1)]])
  with assms(2) True show ?thesis by (auto simp: wp_def split: sum.splits bool.splits)
next
  case False
  with assms(2) show ?thesis by (auto simp: decide_def raise_def)
qed

definition one_approval :: tables where
  "one_approval = empty_tables\<lparr>approvals := [stamp_approval 1 0 (approval_of sample_request)]\<rparr>"

theorem decide_updates_one_row_witness:
  "\<exists>w' t. decide quiet_env 1 ''approved'' (mem_world one_approval) = (Inr True, w') \<and>
     map apr_decision (approvals (db quiet_env w')) = [Some ''approved''] \<and>
     db quiet_env w' = decided 1 ''approved'' t one_approval"
proof -
  obtain w' where d: "decide quiet_env 1 ''approved'' (mem_world one_approval) = (Inr True, w')"
    by (simp add: decide_def fetch_defs mem_run mem_db_run scalar_one_or_none_def one_approval_def
        mem_world_def empty_tables_def approval_of_def)
  from decide_updates_one_row [OF _ d] d show ?thesis
    by (auto simp: decided_def one_approval_def stamp_approval_def)
qed

text \<open>The messages respect the services' limits for every request: a Telegram text has at
  most 4000 characters; a Discord embed has at most three fields of at most 1024 characters each
  and a description of at most 2048, and a text within its limit is not changed.\<close>

theorem messages_within_limits:
  "(case format_telegram n of Inr t \<Rightarrow> length t \<le> 4000 | Inl e \<Rightarrow> \<exists>m. e = TypeError m) \<and>
   (case discord_fields n of
      Inr fs \<Rightarrow> length fs \<le> 3 \<and> list_all (\<lambda>f. text_size (field_value f) \<le> 1024) fs
    | Inl e \<Rightarrow> \<exists>m. e = TypeError m) \<and>
   length (trim (an_summary n) 2048) \<le> 2048 \<and> (2048 < length (an_summary n) \<or> trim (an_summary n) 2048 = an_summary n)"
proof -
  have tv: "trim_value v k = Inl e \<Longrightarrow> \<exists>m. e = TypeError m" for v k e
    by (auto simp: trim_value_def split: json.splits if_splits)
  have tx: "texts_of vs = Inl e \<Longrightarrow> \<exists>m. e = TypeError m" for vs e
    by (induction vs rule: texts_of.induct) (auto split: sum.splits)
  have op: "optional_part v k f = Inl e \<Longrightarrow> \<exists>m. e = TypeError m" for v k e and f :: "json \<Rightarrow> json list"
    by (auto simp: optional_part_def split: if_splits sum.splits dest: tv)
  have "case format_telegram n of Inr t \<Rightarrow> length t \<le> 4000 | Inl e \<Rightarrow> \<exists>m. e = TypeError m"
    by (auto simp: format_telegram_def telegram_parts_def split: sum.splits dest: op tx)
  moreover have "case discord_fields n of Inr fs \<Rightarrow> length fs \<le> 3 \<and> list_all (\<lambda>f. text_size (field_value f) \<le> 1024) fs
    | Inl e \<Rightarrow> \<exists>m. e = TypeError m"
  proof (cases "discord_fields n")
    case (Inl e)
    then show ?thesis by (auto simp: discord_fields_def Let_def split: sum.splits dest: op)
  next
    case (Inr fs)
    then show ?thesis using discord_fields_size [OF Inr] by (simp add: list_all_iff)
  qed
  moreover have "2048 < length (an_summary n) \<or> trim (an_summary n) 2048 = an_summary n"
    by (cases "length (an_summary n) \<le> 2048") (simp_all add: trim_keeps)
  ultimately show ?thesis by (simp add: length_trim)
qed

end
