(* ===== verification/Workflow_Store.thy ===== *)
theory Workflow_Store
  imports Gateway
begin

text \<open>
  The rows a workflow leaves while it runs: the helpers \<^verbatim>\<open>_create_task\<close>,
  \<^verbatim>\<open>_complete_task\<close>, \<^verbatim>\<open>_fail_task\<close>, \<^verbatim>\<open>_append_log\<close>, \<^verbatim>\<open>_fail_workflow\<close> and
  \<^verbatim>\<open>_log_entry\<close> of \<^verbatim>\<open>workflows/commit_pipeline.py\<close> and the final update of its
  workflow row. What the pipeline's steps rely on is the locale \<open>run_store\<close>: the effect of each
  helper on the view of one run; its client lemma is the guarded step, the pattern that the pipeline
  repeats four times. \<open>rs\<close> interprets it on the helpers of this file.
\<close>

section \<open>Operations\<close>

definition log_entry :: "('r, 'd, 'v) env \<Rightarrow> string \<Rightarrow> dict \<Rightarrow> ('r, 'd, 'v, json) act" where
  "log_entry E event data =
     bnd (utc_now E) (\<lambda>t.
     ret (JObj [(''ts'', JStr (isoformat t)), (''event'', JStr event), (''data'', JObj data)]))"

definition append_log :: "('r, 'd, 'v) env \<Rightarrow> int \<Rightarrow> json \<Rightarrow> ('r, 'd, 'v, unit) act" where
  "append_log E i entry =
     session_scope E
       (bnd (fetch_workflow E i) (\<lambda>row.
        update_workflows E (\<lambda>r. wf_id r = i) (\<lambda>r. r\<lparr>wf_logs := wf_logs row @ [entry]\<rparr>)))"

definition create_task :: "('r, 'd, 'v) env \<Rightarrow> string \<Rightarrow> int \<Rightarrow> dict \<Rightarrow> ('r, 'd, 'v, int) act" where
  "create_task E ty i payload =
     session_scope E
       (bnd (utc_now E) (\<lambda>t.
        add_task E ((blank_task ty)
          \<lparr>task_status := ''running'', task_payload := JObj payload, task_workflow_id := Some i,
           task_started_at := Some t\<rparr>)))"

definition complete_task :: "('r, 'd, 'v) env \<Rightarrow> int \<Rightarrow> dict \<Rightarrow> ('r, 'd, 'v, unit) act" where
  "complete_task E k result =
     session_scope E
       (bnd (fetch_task E k) (\<lambda>_.
        bnd (utc_now E) (\<lambda>t.
        update_tasks E (\<lambda>r. task_id r = k)
          (\<lambda>r. r\<lparr>task_status := ''completed'', task_result := Some (JObj result), task_completed_at := Some t\<rparr>))))"

definition fail_task :: "('r, 'd, 'v) env \<Rightarrow> int \<Rightarrow> string \<Rightarrow> ('r, 'd, 'v, unit) act" where
  "fail_task E k err =
     session_scope E
       (bnd (fetch_task E k) (\<lambda>_.
        bnd (utc_now E) (\<lambda>t.
        update_tasks E (\<lambda>r. task_id r = k)
          (\<lambda>r. r\<lparr>task_status := ''failed'', task_error := Some err, task_completed_at := Some t\<rparr>))))"

definition fail_workflow :: "('r, 'd, 'v) env \<Rightarrow> int \<Rightarrow> string \<Rightarrow> ('r, 'd, 'v, unit) act" where
  "fail_workflow E i err =
     session_scope E
       (bnd (fetch_workflow E i) (\<lambda>row.
        bnd (log_entry E ''workflow_failed'' [(''error'', JStr err)]) (\<lambda>entry.
        bnd (utc_now E) (\<lambda>t.
        update_workflows E (\<lambda>r. wf_id r = i)
          (\<lambda>r. r\<lparr>wf_status := ''failed'', wf_logs := wf_logs row @ [entry], wf_completed_at := Some t\<rparr>)))))"

text \<open>The last session of \<^verbatim>\<open>_run_pipeline_steps\<close>.\<close>

definition finish_workflow :: "('r, 'd, 'v) env \<Rightarrow> int \<Rightarrow> ('r, 'd, 'v, unit) act" where
  "finish_workflow E i =
     session_scope E
       (bnd (fetch_workflow E i) (\<lambda>row.
        bnd (utc_now E) (\<lambda>t.
        bnd (log_entry E ''workflow_completed'' []) (\<lambda>entry.
        update_workflows E (\<lambda>r. wf_id r = i)
          (\<lambda>r. r\<lparr>wf_status := ''completed'', wf_completed_at := Some t, wf_logs := wf_logs row @ [entry]\<rparr>)))))"

lemma keeps_log_entry [wp_ops]: "keeps (db E) (log_entry E ev d)" "keeps beside_db (log_entry E ev d)"
  unfolding log_entry_def by (intro wp_ops)+

lemma keeps_run_ops [wp_ops]:
  "keeps beside_db (append_log E i entry)" "keeps beside_db (create_task E ty i p)"
  "keeps beside_db (complete_task E k r)" "keeps beside_db (fail_task E k m)"
  "keeps beside_db (fail_workflow E i m)" "keeps beside_db (finish_workflow E i)"
  unfolding append_log_def create_task_def complete_task_def fail_task_def fail_workflow_def finish_workflow_def
  by (intro wp_ops)+

text \<open>
  The pattern of a step: \<^verbatim>\<open>try: body  except Exception as e: _fail_task; _fail_workflow; raise\<close>.
\<close>

definition guard_step ::
  "(int \<Rightarrow> string \<Rightarrow> ('w, unit) io) \<Rightarrow> (int \<Rightarrow> string \<Rightarrow> ('w, unit) io) \<Rightarrow> int \<Rightarrow> int \<Rightarrow> string \<Rightarrow>
   ('w, 'a) io \<Rightarrow> ('w, 'a) io" where
  "guard_step failt failw k i label body =
     try_except body
       (\<lambda>e. thn (failt k (str_exn e)) (thn (failw i (label @ str_exn e)) (raise e)))"

section \<open>The interface\<close>

text \<open>
  The view of one run: its status, the events of its log, its tasks (id, type and status) in the
  order they were created, and the ids of its approvals.
\<close>

record run_view =
  rv_status :: string
  rv_events :: "string list"
  rv_steps :: "(int \<times> string \<times> string) list"
  rv_approvals :: "int list"

definition event_of :: "json \<Rightarrow> string" where
  "event_of v = (case v of JObj d \<Rightarrow> (case get_or d ''event'' JNull of JStr s \<Rightarrow> s | _ \<Rightarrow> []) | _ \<Rightarrow> [])"

locale run_store =
  fixes ok :: "'e \<Rightarrow> bool"
    and up :: "'e \<Rightarrow> bool"
    and view :: "'e \<Rightarrow> int \<Rightarrow> 'w \<Rightarrow> run_view option"
    and create :: "'e \<Rightarrow> string \<Rightarrow> int \<Rightarrow> dict \<Rightarrow> ('w, int) io"
    and complete :: "'e \<Rightarrow> int \<Rightarrow> dict \<Rightarrow> ('w, unit) io"
    and failt :: "'e \<Rightarrow> int \<Rightarrow> string \<Rightarrow> ('w, unit) io"
    and append :: "'e \<Rightarrow> int \<Rightarrow> json \<Rightarrow> ('w, unit) io"
    and failw :: "'e \<Rightarrow> int \<Rightarrow> string \<Rightarrow> ('w, unit) io"
    and finish :: "'e \<Rightarrow> int \<Rightarrow> ('w, unit) io"
    and failed_event :: string
    and done_event :: string
  assumes create_law: "ok e \<Longrightarrow> view e i w = Some v \<Longrightarrow>
      wp (create e ty i p)
        (\<lambda>k w'. k \<notin> fst ` set (rv_steps v) \<and> view e i w' = Some (v\<lparr>rv_steps := rv_steps v @ [(k, ty, ''running'')]\<rparr>))
        (\<lambda>x w'. \<not> up e \<and> view e i w' = Some v) w"
    and complete_law: "ok e \<Longrightarrow> view e i w = Some v \<Longrightarrow> rv_steps v = ts @ [(k, ty, s)] \<Longrightarrow> k \<notin> fst ` set ts \<Longrightarrow>
      wp (complete e k r)
        (\<lambda>_ w'. view e i w' = Some (v\<lparr>rv_steps := ts @ [(k, ty, ''completed'')]\<rparr>))
        (\<lambda>x w'. \<not> up e \<and> view e i w' = Some v) w"
    and failt_law: "ok e \<Longrightarrow> view e i w = Some v \<Longrightarrow> rv_steps v = ts @ [(k, ty, s)] \<Longrightarrow> k \<notin> fst ` set ts \<Longrightarrow>
      wp (failt e k m)
        (\<lambda>_ w'. view e i w' = Some (v\<lparr>rv_steps := ts @ [(k, ty, ''failed'')]\<rparr>))
        (\<lambda>x w'. \<not> up e \<and> view e i w' = Some v) w"
    and append_law: "ok e \<Longrightarrow> view e i w = Some v \<Longrightarrow>
      wp (append e i entry)
        (\<lambda>_ w'. view e i w' = Some (v\<lparr>rv_events := rv_events v @ [event_of entry]\<rparr>))
        (\<lambda>x w'. \<not> up e \<and> view e i w' = Some v) w"
    and failw_law: "ok e \<Longrightarrow> view e i w = Some v \<Longrightarrow>
      wp (failw e i m)
        (\<lambda>_ w'. view e i w' = Some (v\<lparr>rv_status := ''failed'', rv_events := rv_events v @ [failed_event]\<rparr>))
        (\<lambda>x w'. \<not> up e \<and> view e i w' = Some v) w"
    and finish_law: "ok e \<Longrightarrow> view e i w = Some v \<Longrightarrow>
      wp (finish e i)
        (\<lambda>_ w'. view e i w' = Some (v\<lparr>rv_status := ''completed'', rv_events := rv_events v @ [done_event]\<rparr>))
        (\<lambda>x w'. \<not> up e \<and> view e i w' = Some v) w"
begin

text \<open>
  Where a step that raised has left the run: it never counts as completed, its earlier tasks are
  untouched, and when the store works and the exception is an Exception, both the last task and the
  run are marked failed.
\<close>

definition stopped :: "'e \<Rightarrow> int \<Rightarrow> (int \<times> string \<times> string) list \<Rightarrow> string \<Rightarrow> exn \<Rightarrow> 'w \<Rightarrow> bool" where
  "stopped e i before ty x w \<longleftrightarrow>
     (\<exists>v. view e i w = Some v \<and> rv_status v \<in> {''running'', ''failed''} \<and>
        (rv_steps v = before \<or> (\<exists>k s. rv_steps v = before @ [(k, ty, s)] \<and> k \<notin> fst ` set before \<and>
           s \<in> {''running'', ''completed'', ''failed''})) \<and>
        (up e \<and> x \<noteq> CancelledError \<longrightarrow>
           rv_status v = ''failed'' \<and> (\<exists>k. rv_steps v = before @ [(k, ty, ''failed'')])))"

text \<open>The state inside a step, while its task is the last one.\<close>

definition inside :: "'e \<Rightarrow> int \<Rightarrow> (int \<times> string \<times> string) list \<Rightarrow> int \<Rightarrow> string \<Rightarrow> 'w \<Rightarrow> bool" where
  "inside e i before k ty w \<longleftrightarrow>
     (\<exists>v s. view e i w = Some v \<and> rv_status v = ''running'' \<and> rv_steps v = before @ [(k, ty, s)] \<and>
        k \<notin> fst ` set before \<and> s \<in> {''running'', ''completed''})"

lemma guard_stops:
  assumes "ok e" and "inside e i before k ty w"
  shows "wp (thn (failt e k m) (thn (failw e i m') (raise x))) (\<lambda>_ _. False) (stopped e i before ty) w"
proof -
  from assms(2) obtain v s where v: "view e i w = Some v" "rv_status v = ''running''"
    "rv_steps v = before @ [(k, ty, s)]" "k \<notin> fst ` set before" "s \<in> {''running'', ''completed''}"
    unfolding inside_def by blast
  show ?thesis
    unfolding wp_thn
  proof (rule wp_mono [OF failt_law [OF assms(1) v(1,3,4)]])
    fix w1 assume w1: "view e i w1 = Some (v\<lparr>rv_steps := before @ [(k, ty, ''failed'')]\<rparr>)"
    show "wp (failw e i m') (\<lambda>_. wp (raise x) (\<lambda>_ _. False) (stopped e i before ty)) (stopped e i before ty) w1"
      by (rule wp_mono [OF failw_law [OF assms(1) w1]]) (use v in \<open>auto simp: stopped_def\<close>)
  qed (use v in \<open>auto simp: stopped_def\<close>)
qed

text \<open>The rule of a guarded step.\<close>

lemma guarded_step:
  assumes ok: "ok e" and v: "view e i w = Some v" and running: "rv_status v = ''running''"
    and body: "\<And>k w1. k \<notin> fst ` set (rv_steps v) \<Longrightarrow>
      view e i w1 = Some (v\<lparr>rv_steps := rv_steps v @ [(k, ty, ''running'')]\<rparr>) \<Longrightarrow>
      wp (body k) (G k) (\<lambda>x w2. inside e i (rv_steps v) k ty w2) w1"
    and next_step: "\<And>k a w'. G k a w' \<Longrightarrow> wp (rest k a) Q X w'"
    and stop: "\<And>x w'. stopped e i (rv_steps v) ty x w' \<Longrightarrow> X x w'"
  shows "wp (bnd (create e ty i p) (\<lambda>k. bnd (guard_step (failt e) (failw e) k i label (body k)) (rest k))) Q X w"
  unfolding wp_bnd
proof (rule wp_mono [OF create_law [OF ok v]], elim conjE)
  fix k w1 assume k: "k \<notin> fst ` set (rv_steps v)"
    and w1: "view e i w1 = Some (v\<lparr>rv_steps := rv_steps v @ [(k, ty, ''running'')]\<rparr>)"
  have stops: "wp (thn (failt e k m) (thn (failw e i m') (raise x))) Q' X w2"
    if "inside e i (rv_steps v) k ty w2" for m m' x w2 Q'
    by (rule wp_mono [OF guard_stops [OF ok that]]) (auto intro: stop)
  have cancelled: "X CancelledError w2" if "inside e i (rv_steps v) k ty w2" for w2
    using that by (intro stop) (auto simp: inside_def stopped_def)
  show "wp (guard_step (failt e) (failw e) k i label (body k)) (\<lambda>a. wp (rest k a) Q X) X w1"
    unfolding guard_step_def wp_catching
    by (rule wp_mono [OF body [OF k w1]]) (auto intro: next_step stops cancelled simp del: wp_thn)
qed (use running in \<open>auto intro!: stop simp: stopped_def v\<close>)

end

section \<open>The view of a run in the tables\<close>

definition step_of :: "task \<Rightarrow> int \<times> string \<times> string" where
  "step_of r = (task_id r, task_type r, task_status r)"

definition run_of :: "tables \<Rightarrow> int \<Rightarrow> run_view option" where
  "run_of t i =
     (if tables_ok t then
        map_option (\<lambda>r.
          \<lparr>rv_status = wf_status r,
           rv_events = map event_of (wf_logs r),
           rv_steps = map step_of (filter (\<lambda>k. task_workflow_id k = Some i) (tasks t)),
           rv_approvals = map apr_id (filter (\<lambda>a. apr_workflow_id a = Some i) (approvals t))\<rparr>)
          (workflow_row t i)
      else None)"

lemma run_of_Some:
  "run_of t i = Some v \<longleftrightarrow>
     tables_ok t \<and> (\<exists>r. workflow_row t i = Some r \<and>
       v = \<lparr>rv_status = wf_status r, rv_events = map event_of (wf_logs r),
            rv_steps = map step_of (filter (\<lambda>k. task_workflow_id k = Some i) (tasks t)),
            rv_approvals = map apr_id (filter (\<lambda>a. apr_workflow_id a = Some i) (approvals t))\<rparr>)"
  by (auto simp: run_of_def)

lemma workflow_row_filter:
  assumes "tables_ok t" and "workflow_row t i = Some r"
  shows "filter (\<lambda>r. wf_id r = i) (workflows t) = [r]"
proof -
  from assms(2) have "r \<in> set (workflows t)" "wf_id r = i"
    by (auto simp: workflow_row_def find_Some_iff)
  with count_mset_filter_one [of wf_id "workflows t" r] assms(1) show ?thesis
    by (simp add: tables_ok_def)
qed

lemma find_map_same:
  "(\<And>r. P (f r) = P r) \<Longrightarrow> find P (map f rs) = map_option f (find P rs)"
  by (induction rs) auto

lemma tables_ok_task_add:
  "tables_ok t \<Longrightarrow> task_id r \<notin> task_id ` set (tasks t) \<Longrightarrow> task_workflow_id r = Some i \<Longrightarrow>
     workflow_row t i = Some row \<Longrightarrow> tables_ok (tasks_update (\<lambda>rs. rs @ [r]) t)"
  by (auto simp: tables_ok_def refers_def workflow_row_def find_Some_iff)

lemma map_key_same: "(\<And>r. key (f r) = key r) \<Longrightarrow> map (key \<circ> (\<lambda>r. if P r then f r else r)) rs = map key rs"
  by (induction rs) auto

lemma tables_ok_update:
  "(\<And>r. task_id (f r) = task_id r) \<Longrightarrow> (\<And>r. task_workflow_id (f r) = task_workflow_id r) \<Longrightarrow>
     tables_ok (tasks_update (map (\<lambda>r. if P r then f r else r)) t) = tables_ok t"
  "(\<And>r. wf_id (g r) = wf_id r) \<Longrightarrow> tables_ok (workflows_update (map (\<lambda>r. if Q r then g r else r)) t) = tables_ok t"
  by (simp_all add: tables_ok_def map_key_same)

lemma run_of_add_task:
  assumes "run_of t i = Some v" and "task_id r \<notin> task_id ` set (tasks t)" and "task_workflow_id r = Some i"
  shows "run_of (tasks_update (\<lambda>rs. rs @ [r]) t) i = Some (v\<lparr>rv_steps := rv_steps v @ [step_of r]\<rparr>)"
    and "task_id r \<notin> fst ` set (rv_steps v)"
proof -
  from assms show "run_of (tasks_update (\<lambda>rs. rs @ [r]) t) i = Some (v\<lparr>rv_steps := rv_steps v @ [step_of r]\<rparr>)"
    by (auto simp: run_of_Some tables_ok_task_add workflow_row_def)
  from assms show "task_id r \<notin> fst ` set (rv_steps v)"
    by (auto simp: run_of_Some step_of_def)
qed

lemma map_filter_update:
  assumes "\<And>r. C (f r) = C r" and "\<And>r. r \<in> set rs \<Longrightarrow> C r \<Longrightarrow> g (if P r then f r else r) = h (g r)"
  shows "map g (filter C (map (\<lambda>r. if P r then f r else r) rs)) = map h (map g (filter C rs))"
  using assms by (induction rs) auto

text \<open>Setting the status of the run's last task.\<close>

lemma run_of_task_status:
  assumes run: "run_of t i = Some v" and steps: "rv_steps v = ts @ [(k, ty, s)]" and fresh: "k \<notin> fst ` set ts"
    and f: "\<And>r. step_of (f r) = (task_id r, task_type r, s')" "\<And>r. task_workflow_id (f r) = task_workflow_id r"
  shows "run_of (tasks_update (map (\<lambda>r. if task_id r = k then f r else r)) t) i =
      Some (v\<lparr>rv_steps := ts @ [(k, ty, s')]\<rparr>)"
    and "\<exists>r. filter (\<lambda>r. task_id r = k) (tasks t) = [r]"
proof -
  let ?C = "\<lambda>r. task_workflow_id r = Some i" and ?h = "\<lambda>(k', ty', s0). (k', ty', if k' = k then s' else s0)"
  from run have ok: "tables_ok t" and vs: "rv_steps v = map step_of (filter ?C (tasks t))"
    by (auto simp: run_of_Some)
  have id: "task_id (f r) = task_id r" for r
    using f(1) [of r] by (simp add: step_of_def)
  have "map step_of (filter ?C (map (\<lambda>r. if task_id r = k then f r else r) (tasks t))) =
    map ?h (map step_of (filter ?C (tasks t)))"
    by (rule map_filter_update) (use f in \<open>auto simp: step_of_def\<close>)
  also have "\<dots> = map ?h (ts @ [(k, ty, s)])" using vs steps by simp
  also have "\<dots> = ts @ [(k, ty, s')]"
    using fresh by (auto intro!: map_idI simp: image_iff)
  finally show "run_of (tasks_update (map (\<lambda>r. if task_id r = k then f r else r)) t) i =
      Some (v\<lparr>rv_steps := ts @ [(k, ty, s')]\<rparr>)"
    using run by (auto simp: run_of_Some tables_ok_update(1) [of f, OF id f(2)] workflow_row_def)
  have "(k, ty, s) \<in> set (rv_steps v)" by (simp add: steps)
  with vs obtain r where "r \<in> set (tasks t)" "task_id r = k" by (auto simp: step_of_def)
  with ok count_mset_filter_one [of task_id "tasks t" r]
  show "\<exists>r. filter (\<lambda>r. task_id r = k) (tasks t) = [r]" by (auto simp: tables_ok_def)
qed

text \<open>Changing the run's own row.\<close>

lemma run_of_workflow_row:
  assumes run: "run_of t i = Some v" and row: "filter (\<lambda>r. wf_id r = i) (workflows t) = [row]"
    and f: "\<And>r. wf_id (f r) = wf_id r"
  shows "run_of (workflows_update (map (\<lambda>r. if wf_id r = i then f r else r)) t) i =
    Some (v\<lparr>rv_status := wf_status (f row), rv_events := map event_of (wf_logs (f row))\<rparr>)"
    and "rv_events v = map event_of (wf_logs row) \<and> rv_status v = wf_status row"
proof -
  from run obtain r where r: "workflow_row t i = Some r" and ok: "tables_ok t" by (auto simp: run_of_Some)
  with workflow_row_filter [of t i r] row have "r = row" by simp
  have "wf_id (if wf_id r = i then f r else r) = wf_id r" for r using f by simp
  then have "find (\<lambda>r. wf_id r = i) (map (\<lambda>r. if wf_id r = i then f r else r) (workflows t)) =
    map_option (\<lambda>r. if wf_id r = i then f r else r) (find (\<lambda>r. wf_id r = i) (workflows t))"
    by (intro find_map_same) simp
  moreover from row have "row \<in> set (filter (\<lambda>r. wf_id r = i) (workflows t))" by simp
  then have "wf_id row = i" by simp
  ultimately show "run_of (workflows_update (map (\<lambda>r. if wf_id r = i then f r else r)) t) i =
    Some (v\<lparr>rv_status := wf_status (f row), rv_events := map event_of (wf_logs (f row))\<rparr>)"
    using run r \<open>r = row\<close> by (auto simp: run_of_Some tables_ok_update(2) [of f, OF f] workflow_row_def)
  show "rv_events v = map event_of (wf_logs row) \<and> rv_status v = wf_status row"
    using run r \<open>r = row\<close> by (auto simp: run_of_Some)
qed

lemma run_of_row: "run_of t i = Some v \<Longrightarrow> \<exists>r. filter (\<lambda>r. wf_id r = i) (workflows t) = [r]"
  by (auto simp: run_of_Some dest: workflow_row_filter)

lemma run_of_memories [simp]: "run_of (memories_update f t) i = run_of t i" if "distinct (map mem_id (f (memories t))) = distinct (map mem_id (memories t))"
  using that by (auto simp: run_of_def tables_ok_def workflow_row_def)

section \<open>The operations provide the interface\<close>

definition view_of :: "('r, 'd, 'v) env \<Rightarrow> int \<Rightarrow> ('r, 'd, 'v) world \<Rightarrow> run_view option" where
  "view_of E i w = run_of (db E w) i"

lemma event_of_entry [simp]: "event_of (JObj [(''ts'', t), (''event'', JStr ev), (''data'', d)]) = ev"
  by (simp add: event_of_def get_or_def)

lemma session_op_log_entry:
  "session_op E P (log_entry E ev data) (\<lambda>t en t'. event_of en = ev \<and> t' = t)"
  unfolding log_entry_def
  by (rule session_op_weaken [OF session_op_bnd [OF session_op_now session_op_ret]]) (auto simp: event_of_def get_or_def)

lemma wp_create_task:
  assumes laws: "pg_laws (pg E)" and v: "view_of E i w = Some v"
  shows "wp (create_task E ty i p)
    (\<lambda>k w'. k \<notin> fst ` set (rv_steps v) \<and> view_of E i w' = Some (v\<lparr>rv_steps := rv_steps v @ [(k, ty, ''running'')]\<rparr>))
    (\<lambda>x w'. \<not> pg_healthy (pg E) \<and> view_of E i w' = Some v) w"
  unfolding create_task_def
proof (rule wp_session_scope_op [OF laws session_op_bnd [OF session_op_now session_op_statements(1) [OF laws]]])
  show "(\<lambda>_. True) (db E w)" by simp
next
  fix k w' assume "\<exists>now t'. t' = db E w \<and> 0 < k \<and> k \<notin> task_id ` set (tasks t') \<and>
    (\<exists>ts. db E w' = tasks_update (\<lambda>rs. rs @ [stamp_task k ts ((blank_task ty)
          \<lparr>task_status := ''running'', task_payload := JObj p, task_workflow_id := Some i, task_started_at := Some now\<rparr>)]) t')"
  then obtain now ts where k: "k \<notin> task_id ` set (tasks (db E w))"
    and d: "db E w' = tasks_update (\<lambda>rs. rs @ [stamp_task k ts ((blank_task ty)
          \<lparr>task_status := ''running'', task_payload := JObj p, task_workflow_id := Some i, task_started_at := Some now\<rparr>)]) (db E w)"
    by blast
  let ?r = "stamp_task k ts ((blank_task ty)
          \<lparr>task_status := ''running'', task_payload := JObj p, task_workflow_id := Some i, task_started_at := Some now\<rparr>)"
  have r: "task_id ?r = k" "task_workflow_id ?r = Some i" "step_of ?r = (k, ty, ''running'')"
    by (simp_all add: stamp_task_def blank_task_def step_of_def)
  from run_of_add_task [of "db E w" i v ?r] v r k
  show "k \<notin> fst ` set (rv_steps v) \<and> view_of E i w' = Some (v\<lparr>rv_steps := rv_steps v @ [(k, ty, ''running'')]\<rparr>)"
    by (simp add: view_of_def d)
qed (use v in \<open>simp add: view_of_def\<close>)

text \<open>Setting the status of a task, and rewriting the row of the workflow.\<close>

lemma wp_set_task:
  assumes laws: "pg_laws (pg E)" and v: "view_of E i w = Some v" and steps: "rv_steps v = ts @ [(k, ty, s)]"
    and fresh: "k \<notin> fst ` set ts"
    and f: "\<And>t r. step_of (f t r) = (task_id r, task_type r, s')" "\<And>t r. task_workflow_id (f t r) = task_workflow_id r"
  shows "wp (session_scope E (bnd (fetch_task E k) (\<lambda>_. bnd (utc_now E) (\<lambda>t. update_tasks E (\<lambda>r. task_id r = k) (f t)))))
    (\<lambda>_ w'. view_of E i w' = Some (v\<lparr>rv_steps := ts @ [(k, ty, s')]\<rparr>))
    (\<lambda>x w'. \<not> pg_healthy (pg E) \<and> view_of E i w' = Some v) w"
proof -
  from v have run: "run_of (db E w) i = Some v" by (simp add: view_of_def)
  note set = run_of_task_status [OF run steps fresh f]
  show ?thesis
    by (rule wp_session_scope_op [OF laws session_op_bnd [OF session_op_statements(5) [OF laws]
          session_op_bnd [OF session_op_now session_op_statements(3) [OF laws]]]])
      (use set v in \<open>auto simp: view_of_def\<close>)
qed

lemma wp_complete_task:
  assumes "pg_laws (pg E)" and "view_of E i w = Some v" and "rv_steps v = ts @ [(k, ty, s)]" and "k \<notin> fst ` set ts"
  shows "wp (complete_task E k r) (\<lambda>_ w'. view_of E i w' = Some (v\<lparr>rv_steps := ts @ [(k, ty, ''completed'')]\<rparr>))
    (\<lambda>x w'. \<not> pg_healthy (pg E) \<and> view_of E i w' = Some v) w"
  unfolding complete_task_def by (rule wp_set_task [OF assms]) (simp_all add: step_of_def)

lemma wp_fail_task:
  assumes "pg_laws (pg E)" and "view_of E i w = Some v" and "rv_steps v = ts @ [(k, ty, s)]" and "k \<notin> fst ` set ts"
  shows "wp (fail_task E k m) (\<lambda>_ w'. view_of E i w' = Some (v\<lparr>rv_steps := ts @ [(k, ty, ''failed'')]\<rparr>))
    (\<lambda>x w'. \<not> pg_healthy (pg E) \<and> view_of E i w' = Some v) w"
  unfolding fail_task_def by (rule wp_set_task [OF assms]) (simp_all add: step_of_def)

lemma wp_set_workflow:
  assumes laws: "pg_laws (pg E)" and v: "view_of E i w = Some v"
    and prep: "\<And>row P. session_op E P (prep row) (\<lambda>t a t'. good row a \<and> t' = t)"
    and f: "\<And>a r. wf_id (f a r) = wf_id r"
    and status: "\<And>a r. wf_status (f a r) = st (wf_status r)"
    and logs: "\<And>row a. good row a \<Longrightarrow> map event_of (wf_logs (f a row)) = map event_of (wf_logs row) @ [ev]"
  shows "wp (session_scope E (bnd (fetch_workflow E i) (\<lambda>row. bnd (prep row) (\<lambda>a. update_workflows E (\<lambda>r. wf_id r = i) (f a)))))
    (\<lambda>_ w'. view_of E i w' = Some (v\<lparr>rv_status := st (rv_status v), rv_events := rv_events v @ [ev]\<rparr>))
    (\<lambda>x w'. \<not> pg_healthy (pg E) \<and> view_of E i w' = Some v) w"
proof -
  from v have run: "run_of (db E w) i = Some v" by (simp add: view_of_def)
  have set: "run_of (workflows_update (map (\<lambda>r. if wf_id r = i then f a r else r)) (db E w)) i =
      Some (v\<lparr>rv_status := st (rv_status v), rv_events := rv_events v @ [ev]\<rparr>)"
    if "filter (\<lambda>r. wf_id r = i) (workflows (db E w)) = [row]" "good row a" for row a
    using run_of_workflow_row [OF run that(1), of "f a", OF f] status logs [OF that(2)] by simp
  show ?thesis
    by (rule wp_session_scope_op [OF laws session_op_bnd [OF session_op_statements(6) [OF laws]
          session_op_bnd [OF prep session_op_statements(4) [OF laws]]]])
      (use run_of_row [OF run] v set in \<open>auto simp: view_of_def\<close>)
qed

lemma wp_append_log:
  assumes "pg_laws (pg E)" and "view_of E i w = Some v"
  shows "wp (append_log E i en) (\<lambda>_ w'. view_of E i w' = Some (v\<lparr>rv_events := rv_events v @ [event_of en]\<rparr>))
    (\<lambda>x w'. \<not> pg_healthy (pg E) \<and> view_of E i w' = Some v) w"
  using wp_set_workflow [OF assms, where prep = ret and good = "\<lambda>row a. a = row" and st = "\<lambda>s. s"
      and f = "\<lambda>row r. r\<lparr>wf_logs := wf_logs row @ [en]\<rparr>" and ev = "event_of en"]
  by (simp add: append_log_def session_op_ret)

lemma session_op_entry_then_now:
  "session_op E P (bnd (log_entry E ev d) (\<lambda>en. bnd (utc_now E) (\<lambda>t. ret (row, en, t))))
     (\<lambda>t a t'. (fst a = row \<and> event_of (fst (snd a)) = ev) \<and> t' = t)"
  "session_op E P (bnd (utc_now E) (\<lambda>t. bnd (log_entry E ev d) (\<lambda>en. ret (row, en, t))))
     (\<lambda>t a t'. (fst a = row \<and> event_of (fst (snd a)) = ev) \<and> t' = t)"
  by (rule session_op_weaken [OF session_op_bnd [OF session_op_log_entry session_op_bnd [OF session_op_now session_op_ret]]],
      auto)
    (rule session_op_weaken [OF session_op_bnd [OF session_op_now session_op_bnd [OF session_op_log_entry session_op_ret]]],
      auto)

lemma wp_fail_workflow:
  assumes "pg_laws (pg E)" and "view_of E i w = Some v"
  shows "wp (fail_workflow E i m)
    (\<lambda>_ w'. view_of E i w' = Some (v\<lparr>rv_status := ''failed'', rv_events := rv_events v @ [''workflow_failed'']\<rparr>))
    (\<lambda>x w'. \<not> pg_healthy (pg E) \<and> view_of E i w' = Some v) w"
proof -
  have eq: "fail_workflow E i m = session_scope E (bnd (fetch_workflow E i) (\<lambda>row.
      bnd (bnd (log_entry E ''workflow_failed'' [(''error'', JStr m)]) (\<lambda>en. bnd (utc_now E) (\<lambda>t. ret (row, en, t))))
        (\<lambda>a. update_workflows E (\<lambda>r. wf_id r = i) (\<lambda>r. r\<lparr>wf_status := ''failed'',
          wf_logs := wf_logs (fst a) @ [fst (snd a)], wf_completed_at := Some (snd (snd a))\<rparr>))))"
    by (simp add: fail_workflow_def bnd_assoc)
  show ?thesis
    unfolding eq by (rule wp_set_workflow [OF assms session_op_entry_then_now(1)]) auto
qed

lemma wp_finish_workflow:
  assumes "pg_laws (pg E)" and "view_of E i w = Some v"
  shows "wp (finish_workflow E i)
    (\<lambda>_ w'. view_of E i w' = Some (v\<lparr>rv_status := ''completed'', rv_events := rv_events v @ [''workflow_completed'']\<rparr>))
    (\<lambda>x w'. \<not> pg_healthy (pg E) \<and> view_of E i w' = Some v) w"
proof -
  have eq: "finish_workflow E i = session_scope E (bnd (fetch_workflow E i) (\<lambda>row.
      bnd (bnd (utc_now E) (\<lambda>t. bnd (log_entry E ''workflow_completed'' []) (\<lambda>en. ret (row, en, t))))
        (\<lambda>a. update_workflows E (\<lambda>r. wf_id r = i) (\<lambda>r. r\<lparr>wf_status := ''completed'',
          wf_completed_at := Some (snd (snd a)), wf_logs := wf_logs (fst a) @ [fst (snd a)]\<rparr>))))"
    by (simp add: finish_workflow_def bnd_assoc)
  show ?thesis
    unfolding eq by (rule wp_set_workflow [OF assms session_op_entry_then_now(2)]) auto
qed

interpretation rs: run_store "\<lambda>E. pg_laws (pg E)" "\<lambda>E. pg_healthy (pg E)" view_of create_task complete_task
  fail_task append_log fail_workflow finish_workflow "''workflow_failed''" "''workflow_completed''"
  by unfold_locales
    (assumption | rule wp_create_task wp_complete_task wp_fail_task wp_append_log wp_fail_workflow wp_finish_workflow)+

end
