(* ===== verification/Vector.thy ===== *)
theory Vector
  imports Reference_Services
begin

text \<open>
  \<^verbatim>\<open>core/memory/vector.py\<close>: the wrapper around the Chroma collection. Chroma is a parameter;
  what the wrapper adds is the reshaping of a query's columns into rows.
\<close>

definition vec_upsert :: "('r, 'd, 'v) env \<Rightarrow> string list \<Rightarrow> string list \<Rightarrow> dict list \<Rightarrow> ('r, 'd, 'v, unit) act" where
  "vec_upsert E ids docs metas = on_vec (ch_upsert (chroma E) ids docs metas)"

record hit =
  hit_id :: "string option"
  hit_document :: string
  hit_metadata :: dict
  hit_distance :: "rat option"

text \<open>\<^verbatim>\<open>(res.get(k) or [[]])[0]\<close>: the answers to the only query, or nothing.\<close>

definition first_column :: "'a list list option \<Rightarrow> 'a list" where
  "first_column c = (case c of Some (xs # _) \<Rightarrow> xs | _ \<Rightarrow> [])"

definition nth_or :: "'a list \<Rightarrow> nat \<Rightarrow> 'a option" where
  "nth_or xs i = (if i < length xs then Some (xs ! i) else None)"

definition hits_of :: "chroma_result \<Rightarrow> hit list" where
  "hits_of res =
     (let ids = first_column (cr_ids res); docs = first_column (cr_documents res);
          metas = first_column (cr_metadatas res); dists = first_column (cr_distances res)
      in map (\<lambda>(i, doc).
            \<lparr>hit_id = nth_or ids i, hit_document = doc,
             hit_metadata = (case nth_or metas i of Some m \<Rightarrow> m | None \<Rightarrow> []),
             hit_distance = nth_or dists i\<rparr>)
          (enumerate 0 docs))"

definition vec_query :: "('r, 'd, 'v) env \<Rightarrow> string \<Rightarrow> int \<Rightarrow> ('r, 'd, 'v, hit list) act" where
  "vec_query E txt n = bnd (on_vec (ch_query (chroma E) txt n)) (\<lambda>res. ret (hits_of res))"

definition vec_count :: "('r, 'd, 'v) env \<Rightarrow> ('r, 'd, 'v, int) act" where
  "vec_count E = on_vec (ch_count (chroma E))"

definition vec_delete :: "('r, 'd, 'v) env \<Rightarrow> string list \<Rightarrow> ('r, 'd, 'v, unit) act" where
  "vec_delete E ids = on_vec (ch_delete (chroma E) ids)"

lemma nth_hits_of:
  assumes "i < length (first_column (cr_documents res))"
  shows "hits_of res ! i =
    \<lparr>hit_id = nth_or (first_column (cr_ids res)) i,
     hit_document = first_column (cr_documents res) ! i,
     hit_metadata = (case nth_or (first_column (cr_metadatas res)) i of Some m \<Rightarrow> m | None \<Rightarrow> []),
     hit_distance = nth_or (first_column (cr_distances res)) i\<rparr>"
  using assms by (simp add: hits_of_def Let_def nth_enumerate_eq)

lemma length_hits_of [simp]: "length (hits_of res) = length (first_column (cr_documents res))"
  by (simp add: hits_of_def Let_def)

section \<open>Properties\<close>

text \<open>A query gives one hit for each document the collection answered, in that order, and
  reads the other columns at the same position; a column that is missing or too short gives an
  absent id or distance and an empty metadata, never an index error.\<close>

theorem query_hits_follow_documents:
  assumes "vec_query E txt n w = (Inr hits, w')"
  shows "\<exists>res. ch_query (chroma E) txt n (w_vec w) = (Inr res, w_vec w') \<and>
    map hit_document hits = first_column (cr_documents res) \<and>
    list_all (\<lambda>i. hit_id (hits ! i) = nth_or (first_column (cr_ids res)) i \<and>
        hit_distance (hits ! i) = nth_or (first_column (cr_distances res)) i \<and>
        Some (hit_metadata (hits ! i)) \<in> {nth_or (first_column (cr_metadatas res)) i, Some []}) [0..<length hits]"
proof -
  from assms obtain res where res: "ch_query (chroma E) txt n (w_vec w) = (Inr res, w_vec w')" "hits = hits_of res"
    by (auto simp: vec_query_def on_vec_def bnd_def ret_def split: prod.splits sum.splits)
  then have "map hit_document hits = first_column (cr_documents res)"
    by (intro nth_equalityI) (simp_all add: nth_hits_of)
  with res show ?thesis
    by (auto simp: list_all_iff nth_hits_of split: option.splits)
qed

theorem query_hits_follow_documents_witness:
  "fst (vec_query quiet_env ''q'' 5 (mem_world empty_tables)) = Inr []"
proof -
  obtain hits w' where q: "vec_query quiet_env ''q'' 5 (mem_world empty_tables) = (Inr hits, w')"
    by (simp add: vec_query_def mem_run on_vec_def mem_env_def)
  from query_hits_follow_documents [OF q] q show ?thesis
    by (auto simp: mem_env_def first_column_def)
qed

end
