(* ===== verification/Commit_Pipeline.thy ===== *)
theory Commit_Pipeline
  imports Workflow_Store Dedup Agents Vector
begin

text \<open>
  \<^verbatim>\<open>workflows/commit_pipeline.py\<close>: the claim, the workflow row and the four guarded steps.
  The payload is the JSON object of the job, so its values may have any type; the strings the code
  builds from them follow the f-strings, and the operations that only strings have raise on the
  others. The lemmas say what a run leaves in the tables when it returns, when it skips and when it
  raises.
\<close>

section \<open>Pieces of text\<close>

text \<open>\<^verbatim>\<open>v[:8]\<close> inside an f-string, \<^verbatim>\<open>v.split('/')[-1]\<close>.\<close>

definition slice8 :: "json \<Rightarrow> exn + string" where
  "slice8 v =
     (case v of
        JStr s \<Rightarrow> Inr (take 8 s)
      | JList xs \<Rightarrow> Inr (py_str (JList (take 8 xs)))
      | JObj d \<Rightarrow> Inl (TypeError ''unhashable type: slice'')
      | _ \<Rightarrow> Inl (TypeError (squote # type_name v @ [squote] @ '' object is not subscriptable'')))"

definition last_part :: "json \<Rightarrow> exn + string" where
  "last_part v =
     (case v of
        JStr s \<Rightarrow> Inr (last (split_on (CHR ''/'') s))
      | _ \<Rightarrow> Inl (AttributeError (squote # type_name v @ [squote] @ '' object has no attribute '' @ [squote] @ ''split'' @ [squote])))"

definition memory_text :: "string \<Rightarrow> json \<Rightarrow> engineering_summary \<Rightarrow> string" where
  "memory_text sha8 subject eng =
     ''['' @ sha8 @ ''] '' @ py_str subject @ [newline, newline] @ es_summary eng @ [newline, newline] @
     ''Changelog: '' @ es_changelog eng @ [newline] @ ''Risk: '' @ es_risk_level eng @ [newline] @
     ''Files: '' @ join '', '' (es_changed_files eng)"

definition memory_meta :: "json \<Rightarrow> json \<Rightarrow> json \<Rightarrow> json \<Rightarrow> engineering_summary \<Rightarrow> dict" where
  "memory_meta repo sha subject author eng =
     [(''repo'', repo), (''sha'', sha), (''author'', author), (''risk'', JStr (es_risk_level eng)),
      (''changelog'', JStr (es_changelog eng)), (''files'', JList (map JStr (es_changed_files eng))),
      (''subject'', subject)]"

definition approval_summary :: "string \<Rightarrow> string \<Rightarrow> json \<Rightarrow> string" where
  "approval_summary sha8 repo_name subject =
     ''Commit '' @ sha8 @ '' in '' @ repo_name @ '': '' @
     (if truthy subject then py_str subject else ''(no subject)'')"

section \<open>The steps\<close>

definition summarize_body ::
  "('r, 'd, 'v) env \<Rightarrow> int \<Rightarrow> json \<Rightarrow> json \<Rightarrow> json \<Rightarrow> json \<Rightarrow> int \<Rightarrow> ('r, 'd, 'v, engineering_summary) act" where
  "summarize_body E wfid subject author sha diff k =
     bnd (new_summarizer E) (\<lambda>template.
     bnd (summarize E template subject author sha diff) (\<lambda>eng.
     bnd (complete_task E k (summary_to_dict eng)) (\<lambda>_.
     bnd (log_entry E ''summary_done'' [(''risk'', JStr (es_risk_level eng))]) (\<lambda>entry.
     bnd (append_log E wfid entry) (\<lambda>_.
     ret eng)))))"

definition draft_body ::
  "('r, 'd, 'v) env \<Rightarrow> int \<Rightarrow> engineering_summary \<Rightarrow> int \<Rightarrow> ('r, 'd, 'v, string) act" where
  "draft_body E wfid eng k =
     bnd (new_drafter E) (\<lambda>template.
     bnd (draft_post E template (es_summary eng) (es_changelog eng) (es_risk_level eng)) (\<lambda>post.
     bnd (complete_task E k [(''post'', JStr post)]) (\<lambda>_.
     bnd (log_entry E ''social_done'' [(''len'', JInt (int (length post)))]) (\<lambda>entry.
     bnd (append_log E wfid entry) (\<lambda>_.
     ret post)))))"

definition save_memory ::
  "('r, 'd, 'v) env \<Rightarrow> json \<Rightarrow> json \<Rightarrow> json \<Rightarrow> json \<Rightarrow> engineering_summary \<Rightarrow> ('r, 'd, 'v, int \<times> string) act" where
  "save_memory E repo sha subject author eng =
     session_scope E
       (bnd (lift_sum (slice8 sha)) (\<lambda>sha8.
        bnd (add_memory E ((blank_memory ''commit_summary'' (memory_text sha8 subject eng))
               \<lparr>mem_meta := memory_meta repo sha subject author eng\<rparr>)) (\<lambda>mid.
        ret (mid, memory_text sha8 subject eng))))"

text \<open>The vector index is best effort: whatever it raises is logged and dropped.\<close>

definition index_memory ::
  "('r, 'd, 'v) env \<Rightarrow> json \<Rightarrow> json \<Rightarrow> engineering_summary \<Rightarrow> int \<times> string \<Rightarrow> ('r, 'd, 'v, unit) act" where
  "index_memory E repo sha eng mem =
     try_except
       (bnd (vec_upsert E [''commit:'' @ py_str sha] [snd mem]
               [[(''repo'', repo), (''sha'', sha), (''risk'', JStr (es_risk_level eng))]]) (\<lambda>_.
        session_scope E
          (bnd (select_memories E (\<lambda>r. mem_id r = fst mem) Unordered None) (\<lambda>rows.
           bnd (lift_sum (scalar_one rows)) (\<lambda>_.
           update_memories E (\<lambda>r. mem_id r = fst mem) (\<lambda>r. r\<lparr>mem_embedding_id := Some (''commit:'' @ py_str sha)\<rparr>))))))
       (\<lambda>e. ret ())"

definition save_body ::
  "('r, 'd, 'v) env \<Rightarrow> json \<Rightarrow> json \<Rightarrow> json \<Rightarrow> json \<Rightarrow> engineering_summary \<Rightarrow> int \<Rightarrow> ('r, 'd, 'v, unit) act" where
  "save_body E repo sha subject author eng k =
     bnd (save_memory E repo sha subject author eng) (\<lambda>mem.
     bnd (index_memory E repo sha eng mem) (\<lambda>_.
     complete_task E k [(''memory_id'', JInt (fst mem))]))"

definition approval_body ::
  "('r, 'd, 'v) env \<Rightarrow> int \<Rightarrow> json \<Rightarrow> json \<Rightarrow> json \<Rightarrow> engineering_summary \<Rightarrow> string \<Rightarrow> int \<Rightarrow> ('r, 'd, 'v, int) act" where
  "approval_body E wfid repo sha subject eng post k =
     bnd (lift_sum (slice8 sha)) (\<lambda>sha8.
     bnd (lift_sum (last_part repo)) (\<lambda>repo_name.
     bnd (send E
       \<lparr>ar_summary = approval_summary sha8 repo_name subject,
        ar_outputs = [(''engineering_summary'', JStr (es_summary eng)), (''changelog'', JStr (es_changelog eng)),
                      (''social_post'', JStr post)],
        ar_affected = es_changed_files eng,
        ar_risk = es_risk_level eng,
        ar_workflow_id = Some wfid,
        ar_task_id = Some k\<rparr>) (\<lambda>aid.
     bnd (complete_task E k [(''approval_id'', JInt aid)]) (\<lambda>_.
     bnd (log_entry E ''approval_sent'' [(''id'', JInt aid)]) (\<lambda>entry.
     bnd (append_log E wfid entry) (\<lambda>_.
     ret aid))))))"

definition guarded ::
  "('r, 'd, 'v) env \<Rightarrow> int \<Rightarrow> string \<Rightarrow> (int \<Rightarrow> ('r, 'd, 'v, 'a) act) \<Rightarrow> int \<Rightarrow> ('r, 'd, 'v, 'a) act" where
  "guarded E wfid label body k = guard_step (fail_task E) (fail_workflow E) k wfid label (body k)"

definition run_pipeline_steps ::
  "('r, 'd, 'v) env \<Rightarrow> int \<Rightarrow> json \<Rightarrow> json \<Rightarrow> json \<Rightarrow> json \<Rightarrow> json \<Rightarrow> ('r, 'd, 'v, dict) act" where
  "run_pipeline_steps E wfid repo sha subject author diff =
     bnd (create_task E ''summarize'' wfid [(''sha'', sha), (''repo'', repo)]) (\<lambda>k1.
     bnd (guarded E wfid ''summarize failed: '' (summarize_body E wfid subject author sha diff) k1) (\<lambda>eng.
     bnd (create_task E ''draft_social'' wfid [(''sha'', sha)]) (\<lambda>k2.
     bnd (guarded E wfid ''draft failed: '' (draft_body E wfid eng) k2) (\<lambda>post.
     bnd (create_task E ''save'' wfid [(''sha'', sha)]) (\<lambda>k3.
     bnd (guarded E wfid ''save failed: '' (save_body E repo sha subject author eng) k3) (\<lambda>_.
     bnd (create_task E ''request_approval'' wfid [(''sha'', sha)]) (\<lambda>k4.
     bnd (guarded E wfid ''approval failed: '' (approval_body E wfid repo sha subject eng post) k4) (\<lambda>aid.
     bnd (finish_workflow E wfid) (\<lambda>_.
     ret [(''workflow_id'', JInt wfid), (''approval_id'', JInt aid),
          (''summary'', JObj (summary_to_dict eng)), (''social_post'', JStr post)])))))))))"

section \<open>The pipeline\<close>

definition require_keys :: "dict \<Rightarrow> string list \<Rightarrow> exn + unit" where
  "require_keys payload required =
     (let missing = filter (\<lambda>k. \<not> has_key payload k) required in
      if missing = [] then Inr ()
      else Inl (ValueError (''commit_pipeline payload missing required keys: '' @ repr_str_list missing)))"

text \<open>What a claim that somebody else holds answers.\<close>

definition skip_result :: "claim_result \<Rightarrow> exn + dict" where
  "skip_result claim =
     (let existing = (case existing_value claim of Some v \<Rightarrow> if v = [] then ''unknown'' else v | None \<Rightarrow> ''unknown'') in
      case (if py_isdigit existing then map_sum id Some (int_of_isdigit existing) else Inr None) of
        Inl e \<Rightarrow> Inl e
      | Inr wfid \<Rightarrow>
          Inr [(''workflow_id'', json_of_option JInt wfid), (''skipped'', JBool True),
               (''reason'', JStr (if existing = pending_mark then ''in_flight'' else ''duplicate_sha''))])"

definition create_workflow :: "('r, 'd, 'v) env \<Rightarrow> json \<Rightarrow> json \<Rightarrow> ('r, 'd, 'v, int) act" where
  "create_workflow E repo sha =
     session_scope E
       (bnd (log_entry E ''workflow_started'' [(''repo'', repo), (''sha'', sha)]) (\<lambda>entry.
        add_workflow E ((blank_workflow ''commit_pipeline'')
          \<lparr>wf_task_chain := [JStr ''summarize'', JStr ''draft_social'', JStr ''save'', JStr ''request_approval''],
           wf_status := ''running'', wf_logs := [entry]\<rparr>)))"

definition bind_workflow :: "int option \<Rightarrow> ('r, 'd, 'v, int option) act" where
  "bind_workflow x =
     bnd (asks (\<lambda>w. current_workflow_id (w_ctx w))) (\<lambda>old.
     thn (modifies (\<lambda>w. w\<lparr>w_ctx := (w_ctx w)\<lparr>current_workflow_id := x\<rparr>\<rparr>)) (ret old))"

definition reset_workflow :: "int option \<Rightarrow> ('r, 'd, 'v, unit) act" where
  "reset_workflow old = modifies (\<lambda>w. w\<lparr>w_ctx := (w_ctx w)\<lparr>current_workflow_id := old\<rparr>\<rparr>)"

definition run_commit_pipeline :: "('r, 'd, 'v) env \<Rightarrow> dict \<Rightarrow> ('r, 'd, 'v, dict) act" where
  "run_commit_pipeline E payload =
     bnd (lift_sum (require_keys payload [''repo'', ''sha''])) (\<lambda>_.
     let repo = get_or payload ''repo'' JNull; sha = get_or payload ''sha'' JNull;
         subject = get_or payload ''subject'' (JStr []); author = get_or payload ''author'' (JStr []);
         diff = get_or payload ''diff'' (JStr []) in
     bnd (acquire E (py_str repo) (py_str sha)) (\<lambda>claim.
       if \<not> acquired claim then lift_sum (skip_result claim)
       else
         bnd (create_workflow E repo sha) (\<lambda>wfid.
         bnd (attach_workflow_id E (py_str repo) (py_str sha) wfid) (\<lambda>_.
         bnd (bind_workflow (Some wfid)) (\<lambda>token.
         finally_do (run_pipeline_steps E wfid repo sha subject author diff) (reset_workflow token))))))"

section \<open>How the steps change the view of the run\<close>

lemma wp_same_view:
  assumes "keeps (db E) m"
    and "\<And>a w'. view_of E i w' = view_of E i w \<Longrightarrow> Q a w'"
    and "\<And>e w'. view_of E i w' = view_of E i w \<Longrightarrow> X e w'"
  shows "wp m Q X w"
  by (rule wp_mono [OF keeps_wp [OF assms(1)]]) (auto intro: assms(2,3) simp: view_of_def)

text \<open>A view of the run in which the given task is the last one and still runs.\<close>

definition at_task :: "run_view \<Rightarrow> (int \<times> string \<times> string) list \<Rightarrow> int \<Rightarrow> string \<Rightarrow> bool" where
  "at_task v before k ty \<longleftrightarrow>
     rv_status v = ''running'' \<and> rv_steps v = before @ [(k, ty, ''running'')] \<and> k \<notin> fst ` set before"

lemma at_task_inside: "at_task v before k ty \<Longrightarrow> view_of E i w = Some v \<Longrightarrow> rs.inside E i before k ty w"
  by (auto simp: at_task_def rs.inside_def)

lemma wp_complete_running:
  assumes laws: "pg_laws (pg E)" and v: "view_of E i w = Some v" and at: "at_task v before k ty"
    and ret: "\<And>w'. view_of E i w' = Some (v\<lparr>rv_steps := before @ [(k, ty, ''completed'')]\<rparr>) \<Longrightarrow> Q () w'"
    and exc: "\<And>x w'. \<not> pg_healthy (pg E) \<Longrightarrow> rs.inside E i before k ty w' \<Longrightarrow> X x w'"
  shows "wp (complete_task E k r) Q X w"
  by (rule wp_mono [OF wp_complete_task [OF laws v]])
    (use at in \<open>auto simp: at_task_def intro!: ret exc at_task_inside\<close>)

text \<open>The common end of a step: the task is completed and an event is logged.\<close>

lemma wp_close_step:
  fixes E :: "('r, 'd, 'v) env" and w :: "('r, 'd, 'v) world"
  assumes laws: "pg_laws (pg E)" and v: "view_of E i w = Some v" and at: "at_task v before k ty"
    and ret: "\<And>w'. view_of E i w' =
      Some (v\<lparr>rv_steps := before @ [(k, ty, ''completed'')], rv_events := rv_events v @ [ev]\<rparr>) \<Longrightarrow> Q a w'"
    and exc: "\<And>x w'. \<not> pg_healthy (pg E) \<Longrightarrow> rs.inside E i before k ty w' \<Longrightarrow> X x w'"
  shows "wp (bnd (complete_task E k r) (\<lambda>_. bnd (log_entry E ev d) (\<lambda>entry. bnd (append_log E i entry) (\<lambda>_. ret a)))) Q X w"
  unfolding wp_bnd wp_ret
proof (rule wp_complete_running [OF laws v at])
  fix w1 :: "('r, 'd, 'v) world"
  let ?v = "v\<lparr>rv_steps := before @ [(k, ty, ''completed'')]\<rparr>"
  assume w1: "view_of E i w1 = Some ?v"
  have in1: "rs.inside E i before k ty w'" if "view_of E i w' = Some ?v" for w'
    using that at by (auto simp: rs.inside_def at_task_def)
  show "wp (log_entry E ev d) (\<lambda>entry. wp (append_log E i entry) (\<lambda>_. Q a) X) X w1"
  proof -
    have "wp (log_entry E ev d) (\<lambda>entry w2. event_of entry = ev \<and> view_of E i w2 = Some ?v) (\<lambda>_ _. False) w1"
      by (simp add: log_entry_def w1 [unfolded view_of_def] view_of_def)
    then show ?thesis
    proof (rule wp_mono, elim conjE)
      fix entry w2 assume "event_of entry = ev" and w2: "view_of E i w2 = Some ?v"
      then show "wp (append_log E i entry) (\<lambda>_. Q a) X w2"
        by (intro wp_mono [OF wp_append_log [OF laws w2]]) (auto intro: ret exc in1)
    qed simp
  qed
qed (rule exc)

lemma wp_summarize_body:
  assumes laws: "pg_laws (pg E)" and v: "view_of E i w = Some v" and at: "at_task v before k ty"
  shows "wp (summarize_body E i subject author sha diff k)
    (\<lambda>_ w'. view_of E i w' =
      Some (v\<lparr>rv_steps := before @ [(k, ty, ''completed'')], rv_events := rv_events v @ [''summary_done'']\<rparr>))
    (\<lambda>_. rs.inside E i before k ty) w"
  unfolding summarize_body_def wp_bnd [of "new_summarizer E"] wp_bnd [of "summarize E _ _ _ _ _"]
  by (rule wp_same_view [OF keeps_agents(1), where i = i], rule wp_same_view [OF keeps_agents(3), where i = i],
      rule wp_close_step [OF laws _ at]) (simp_all add: v at_task_inside [OF at])

lemma wp_draft_body:
  assumes laws: "pg_laws (pg E)" and v: "view_of E i w = Some v" and at: "at_task v before k ty"
  shows "wp (draft_body E i eng k)
    (\<lambda>_ w'. view_of E i w' =
      Some (v\<lparr>rv_steps := before @ [(k, ty, ''completed'')], rv_events := rv_events v @ [''social_done'']\<rparr>))
    (\<lambda>_. rs.inside E i before k ty) w"
  unfolding draft_body_def wp_bnd [of "new_drafter E"] wp_bnd [of "draft_post E _ _ _ _"]
  by (rule wp_same_view [OF keeps_agents(2), where i = i], rule wp_same_view [OF keeps_agents(4), where i = i],
      rule wp_close_step [OF laws _ at]) (simp_all add: v at_task_inside [OF at])

lemma run_of_memory_changes:
  "mem_id r \<notin> mem_id ` set (memories t) \<Longrightarrow> run_of (memories_update (\<lambda>rs. rs @ [r]) t) i = run_of t i"
  "(\<And>r. mem_id (f r) = mem_id r) \<Longrightarrow> run_of (memories_update (map (\<lambda>r. if P r then f r else r)) t) i = run_of t i"
  by (auto simp: map_key_same intro!: run_of_memories)

lemma body_save_memory:
  assumes "pg_laws (pg E)"
  shows "session_body E
     (bnd (lift_sum (slice8 sha)) (\<lambda>sha8.
        bnd (add_memory E ((blank_memory ''commit_summary'' (memory_text sha8 subject eng))
               \<lparr>mem_meta := memory_meta repo sha subject author eng\<rparr>)) (\<lambda>mid.
        ret (mid, memory_text sha8 subject eng))))
     (\<lambda>t _ t'. run_of t' i = run_of t i)"
  by (rule session_body_weaken [OF session_body_bnd [OF session_body_lift session_body_bnd
        [OF session_body_statements(3) [OF assms] session_body_ret]]])
    (auto simp: run_of_memory_changes)

lemma wp_save_memory:
  assumes "pg_laws (pg E)"
    and "\<And>a w'. view_of E i w' = view_of E i w \<Longrightarrow> Q a w'" and "\<And>e w'. view_of E i w' = view_of E i w \<Longrightarrow> X e w'"
  shows "wp (save_memory E repo sha subject author eng) Q X w"
  unfolding save_memory_def
  by (rule wp_session_scope [OF assms(1) body_save_memory [OF assms(1), where i = i]])
    (auto simp: view_of_def intro!: assms(2,3))

lemma body_index_memory:
  assumes "pg_laws (pg E)"
  shows "session_body E
     (bnd (select_memories E (\<lambda>r. mem_id r = m) Unordered None) (\<lambda>rows.
           bnd (lift_sum (scalar_one rows)) (\<lambda>_.
           update_memories E (\<lambda>r. mem_id r = m) (\<lambda>r. r\<lparr>mem_embedding_id := x\<rparr>))))
     (\<lambda>t _ t'. run_of t' i = run_of t i)"
  by (rule session_body_weaken [OF session_body_bnd [OF session_body_statements(7) [OF assms]
        session_body_bnd [OF session_body_lift session_body_statements(11) [OF assms]]]])
    (auto simp: run_of_memory_changes)

lemma wp_index_memory:
  assumes "pg_laws (pg E)"
    and "\<And>w'. view_of E i w' = view_of E i w \<Longrightarrow> Q () w'" and "\<And>e w'. view_of E i w' = view_of E i w \<Longrightarrow> X e w'"
  shows "wp (index_memory E repo sha eng mem) Q X w"
proof -
  have vec: "keeps (db E) (vec_upsert E ids docs metas)" for ids docs metas
    unfolding vec_upsert_def by (rule wp_ops)
  show ?thesis
    unfolding index_memory_def wp_catching wp_bnd [of "vec_upsert E _ _ _"]
    by (rule wp_same_view [OF vec, where i = i],
        rule wp_session_scope [OF assms(1) body_index_memory [OF assms(1), where i = i]])
      (auto simp: view_of_def intro!: assms(2,3))
qed

lemma wp_save_body:
  assumes laws: "pg_laws (pg E)" and v: "view_of E i w = Some v" and at: "at_task v before k ty"
  shows "wp (save_body E repo sha subject author eng k)
    (\<lambda>_ w'. view_of E i w' = Some (v\<lparr>rv_steps := before @ [(k, ty, ''completed'')]\<rparr>))
    (\<lambda>_. rs.inside E i before k ty) w"
  unfolding save_body_def wp_bnd
  by (rule wp_save_memory [OF laws, where i = i], rule wp_index_memory [OF laws, where i = i],
      rule wp_complete_running [OF laws _ at]) (simp_all add: v at_task_inside [OF at])

lemma run_of_with_approval:
  assumes "run_of t i = Some v" and "a \<notin> apr_id ` set (approvals t)" and "ar_workflow_id req = Some i"
  shows "run_of (with_approval req a ts via t) i = Some (v\<lparr>rv_approvals := rv_approvals v @ [a]\<rparr>)"
  using assms
  by (auto simp: run_of_Some with_approval_def tables_ok_def refers_def stamped_approval workflow_row_def find_Some_iff)

lemma wp_approval_body:
  assumes laws: "pg_laws (pg E)" and v: "view_of E i w = Some v" and at: "at_task v before k ty"
  shows "wp (approval_body E i repo sha subject eng post k)
    (\<lambda>a w'. view_of E i w' = Some (v\<lparr>rv_approvals := rv_approvals v @ [a],
        rv_steps := before @ [(k, ty, ''completed'')], rv_events := rv_events v @ [''approval_sent'']\<rparr>))
    (\<lambda>_. rs.inside E i before k ty) w"
proof -
  have at': "at_task (v\<lparr>rv_approvals := as\<rparr>) before k ty" for as
    using at by (simp add: at_task_def)
  have send: "wp (send E req)
      (\<lambda>a w'. view_of E i w' = Some (v\<lparr>rv_approvals := rv_approvals v @ [a]\<rparr>))
      (\<lambda>_. rs.inside E i before k ty) w'"
    if w': "view_of E i w' = Some v" and req: "ar_workflow_id req = Some i" for req w'
  proof (rule wp_send [OF laws])
    fix a ts via w'' assume "a \<notin> apr_id ` set (approvals (db E w'))" "db E w'' = with_approval req a ts via (db E w')"
    with run_of_with_approval [OF w' [unfolded view_of_def] _ req]
    show "view_of E i w'' = Some (v\<lparr>rv_approvals := rv_approvals v @ [a]\<rparr>)" by (simp add: view_of_def)
  next
    fix e :: exn and w'' assume d: "db E w'' = db E w' \<or> (\<exists>a ts. a \<notin> apr_id ` set (approvals (db E w')) \<and>
        db E w'' = with_approval req a ts None (db E w'))"
    then show "rs.inside E i before k ty w''"
    proof (elim disjE exE conjE)
      assume "db E w'' = db E w'"
      with w' show ?thesis by (intro at_task_inside [OF at]) (simp add: view_of_def)
    next
      fix a ts assume "a \<notin> apr_id ` set (approvals (db E w'))" "db E w'' = with_approval req a ts None (db E w')"
      with run_of_with_approval [OF w' [unfolded view_of_def] _ req] show ?thesis
        by (intro at_task_inside [OF at']) (simp add: view_of_def)
    qed
  qed
  show ?thesis
    unfolding approval_body_def wp_bnd [of "lift_sum _"] wp_bnd [of "send E _"]
    by (rule wp_same_view [OF keeps_lift_sum, where E = E and i = i],
        rule wp_same_view [OF keeps_lift_sum, where E = E and i = i],
        rule wp_mono [OF send], simp_all add: v at_task_inside [OF at] del: wp_bnd)
      (rule wp_close_step [OF laws _ at'], simp_all)
qed

section \<open>The chain\<close>

definition chain :: "string list" where
  "chain = [''summarize'', ''draft_social'', ''save'', ''request_approval'']"

text \<open>The first \<open>n\<close> tasks of the chain, all completed.\<close>

definition finished :: "nat \<Rightarrow> (string \<times> string) list" where
  "finished n = map (\<lambda>ty. (ty, ''completed'')) (take n chain)"

text \<open>
  Where a run that raised stands: it is not completed, its tasks are a completed beginning of the
  chain and at most one more task, and on a healthy database an Exception has marked that task and
  the run as failed.
\<close>

definition halted :: "bool \<Rightarrow> exn \<Rightarrow> run_view \<Rightarrow> bool" where
  "halted healthy x v \<longleftrightarrow>
     rv_status v \<in> {''running'', ''failed''} \<and>
     (\<exists>n\<le>4. map snd (rv_steps v) = finished n \<or>
        (n < 4 \<and> (\<exists>s. s \<in> {''running'', ''completed'', ''failed''} \<and> map snd (rv_steps v) = finished n @ [(chain ! n, s)]))) \<and>
     (healthy \<and> x \<noteq> CancelledError \<longrightarrow>
        rv_status v = ''failed'' \<and> (\<exists>n<4. map snd (rv_steps v) = finished n @ [(chain ! n, ''failed'')]))"

lemma stopped_halted:
  assumes "rs.stopped E i before (chain ! n) x w" and "map snd before = finished n" and "n < 4"
  shows "\<exists>v. view_of E i w = Some v \<and> halted (pg_healthy (pg E)) x v"
proof -
  from assms(1) obtain v where v: "view_of E i w = Some v" "rv_status v \<in> {''running'', ''failed''}"
    "rv_steps v = before \<or> (\<exists>k s. rv_steps v = before @ [(k, chain ! n, s)] \<and> s \<in> {''running'', ''completed'', ''failed''})"
    "pg_healthy (pg E) \<and> x \<noteq> CancelledError \<longrightarrow>
       rv_status v = ''failed'' \<and> (\<exists>k. rv_steps v = before @ [(k, chain ! n, ''failed'')])"
    unfolding rs.stopped_def by blast
  have shape: "map snd (rv_steps v) = finished n \<or>
      (\<exists>s. s \<in> {''running'', ''completed'', ''failed''} \<and> map snd (rv_steps v) = finished n @ [(chain ! n, s)])"
    using v(3) assms(2) by (elim disjE exE conjE) simp_all
  have failed: "rv_status v = ''failed'' \<and> map snd (rv_steps v) = finished n @ [(chain ! n, ''failed'')]"
    if "pg_healthy (pg E) \<and> x \<noteq> CancelledError"
    using v(4) that assms(2) by (elim impE exE conjE) simp_all
  have "halted (pg_healthy (pg E)) x v"
    unfolding halted_def
  proof (intro conjI impI)
    show "\<exists>n\<le>4. map snd (rv_steps v) = finished n \<or>
        (n < 4 \<and> (\<exists>s. s \<in> {''running'', ''completed'', ''failed''} \<and> map snd (rv_steps v) = finished n @ [(chain ! n, s)]))"
      using shape assms(3) by (intro exI [of _ n]) simp
    show "\<exists>n<4. map snd (rv_steps v) = finished n @ [(chain ! n, ''failed'')]"
      if "pg_healthy (pg E) \<and> x \<noteq> CancelledError"
      using failed [OF that] assms(3) by blast
  qed (use v(2) failed in simp_all)
  with v(1) show ?thesis by blast
qed

lemma finished_eval:
  "finished 0 = []" "finished (Suc 0) = [(''summarize'', ''completed'')]"
  "finished 2 = [(''summarize'', ''completed''), (''draft_social'', ''completed'')]"
  "finished 3 = [(''summarize'', ''completed''), (''draft_social'', ''completed''), (''save'', ''completed'')]"
  "finished 4 = [(''summarize'', ''completed''), (''draft_social'', ''completed''), (''save'', ''completed''),
     (''request_approval'', ''completed'')]"
  by (simp_all add: finished_def chain_def numeral_eq_Suc)

lemma chain_nth:
  "chain ! 0 = ''summarize''" "chain ! Suc 0 = ''draft_social''" "chain ! 2 = ''save''" "chain ! 3 = ''request_approval''"
  by (simp_all add: chain_def numeral_eq_Suc)

text \<open>A run that returned: completed, with the four tasks, its events and its approval.\<close>

definition succeeded :: "int \<Rightarrow> string list \<Rightarrow> dict \<Rightarrow> run_view \<Rightarrow> bool" where
  "succeeded i evs r v \<longleftrightarrow>
     rv_status v = ''completed'' \<and> map snd (rv_steps v) = finished 4 \<and> distinct (map fst (rv_steps v)) \<and>
     rv_events v = evs @ [''summary_done'', ''social_done'', ''approval_sent'', ''workflow_completed''] \<and>
     (\<exists>a. rv_approvals v = [a] \<and> get_or r ''approval_id'' JNull = JInt a) \<and>
     get_or r ''workflow_id'' JNull = JInt i"

text \<open>A run that has completed its first \<open>n\<close> tasks and goes on.\<close>

definition reached :: "('r, 'd, 'v) env \<Rightarrow> int \<Rightarrow> nat \<Rightarrow> string list \<Rightarrow> int list \<Rightarrow> ('r, 'd, 'v) world \<Rightarrow> bool" where
  "reached E i n evs aprs w \<longleftrightarrow>
     (\<exists>v. view_of E i w = Some v \<and> rv_status v = ''running'' \<and> map snd (rv_steps v) = finished n \<and>
        distinct (map fst (rv_steps v)) \<and> rv_events v = evs \<and> rv_approvals v = aprs)"

text \<open>What a step's body does with its task: completes it, logs \<open>ev\<close> and requests \<open>ap\<close>.\<close>

definition step_body ::
  "('r, 'd, 'v) env \<Rightarrow> int \<Rightarrow> string \<Rightarrow> string list \<Rightarrow> ('a \<Rightarrow> int list) \<Rightarrow> (int \<Rightarrow> ('r, 'd, 'v, 'a) act) \<Rightarrow> bool" where
  "step_body E i ty ev ap body \<longleftrightarrow>
     (\<forall>v before k w. at_task v before k ty \<longrightarrow> view_of E i w = Some v \<longrightarrow>
        wp (body k)
          (\<lambda>a w'. \<exists>v'. view_of E i w' = Some v' \<and> rv_status v' = ''running'' \<and>
             rv_steps v' = before @ [(k, ty, ''completed'')] \<and> rv_events v' = rv_events v @ ev \<and>
             rv_approvals v' = rv_approvals v @ ap a)
          (\<lambda>_. rs.inside E i before k ty) w)"

lemma step_bodies:
  assumes "pg_laws (pg E)"
  shows "step_body E i ty [''summary_done''] (\<lambda>_. []) (summarize_body E i subject author sha diff)"
    and "step_body E i ty [''social_done''] (\<lambda>_. []) (draft_body E i eng)"
    and "step_body E i ty [] (\<lambda>_. []) (save_body E repo sha subject author eng)"
    and "step_body E i ty [''approval_sent''] (\<lambda>a. [a]) (approval_body E i repo sha subject eng post)"
  unfolding step_body_def
  by (intro allI impI, rule wp_mono, (rule wp_summarize_body wp_draft_body wp_save_body wp_approval_body, rule assms, assumption, assumption),
      simp add: at_task_def, assumption)+

lemma chain_step:
  fixes E :: "('r, 'd, 'v) env" and w :: "('r, 'd, 'v) world"
  assumes laws: "pg_laws (pg E)" and r: "reached E i n evs aprs w" and n: "n < 4" "ty = chain ! n"
    and body: "step_body E i ty ev ap body"
    and next_step: "\<And>k a w'. reached E i (Suc n) (evs @ ev) (aprs @ ap a) w' \<Longrightarrow> wp (rest k a) Q X w'"
    and stop: "\<And>x w' v. view_of E i w' = Some v \<Longrightarrow> halted (pg_healthy (pg E)) x v \<Longrightarrow> X x w'"
  shows "wp (bnd (create_task E ty i p) (\<lambda>k. bnd (guarded E i label body k) (rest k))) Q X w"
proof -
  from r obtain v where v: "view_of E i w = Some v" "rv_status v = ''running''" "map snd (rv_steps v) = finished n"
    "distinct (map fst (rv_steps v))" "rv_events v = evs" "rv_approvals v = aprs"
    unfolding reached_def by blast
  have Suc: "finished (Suc n) = finished n @ [(ty, ''completed'')]"
  proof -
    have "n < length chain" using n(1) by (simp add: chain_def)
    then show ?thesis by (simp add: finished_def take_Suc_conv_app_nth n(2))
  qed
  show ?thesis
    unfolding guarded_def
  proof (rule rs.guarded_step [OF laws v(1,2), where G = "\<lambda>k a w'. reached E i (Suc n) (evs @ ev) (aprs @ ap a) w'"])
    fix k w1 assume k: "k \<notin> fst ` set (rv_steps v)"
      and w1: "view_of E i w1 = Some (v\<lparr>rv_steps := rv_steps v @ [(k, ty, ''running'')]\<rparr>)"
    let ?v = "v\<lparr>rv_steps := rv_steps v @ [(k, ty, ''running'')]\<rparr>"
    have at: "at_task ?v (rv_steps v) k ty" using k v(2) by (simp add: at_task_def)
    show "wp (body k) (\<lambda>a. reached E i (Suc n) (evs @ ev) (aprs @ ap a)) (\<lambda>_. rs.inside E i (rv_steps v) k ty) w1"
      by (rule wp_mono [OF body [unfolded step_body_def, rule_format, OF at w1]])
        (use v k Suc in \<open>auto simp: reached_def image_iff\<close>)
  next
    fix x w' assume "rs.stopped E i (rv_steps v) ty x w'"
    then show "X x w'" using stopped_halted [of E i "rv_steps v" n x w'] v(3) n stop by auto
  qed (rule next_step)
qed

lemma chain_end:
  assumes laws: "pg_laws (pg E)" and r: "reached E i 4 (evs @ [''summary_done'', ''social_done'', ''approval_sent'']) [a] w"
    and d: "get_or d ''workflow_id'' JNull = JInt i" "get_or d ''approval_id'' JNull = JInt a"
    and ret: "\<And>r v w'. view_of E i w' = Some v \<Longrightarrow> succeeded i evs r v \<Longrightarrow> Q r w'"
    and stop: "\<And>x w' v. view_of E i w' = Some v \<Longrightarrow> halted (pg_healthy (pg E)) x v \<Longrightarrow> X x w'"
  shows "wp (bnd (finish_workflow E i) (\<lambda>_. ret d)) Q X w"
proof -
  from r obtain v where v: "view_of E i w = Some v" "rv_status v = ''running''" "map snd (rv_steps v) = finished 4"
    "distinct (map fst (rv_steps v))" "rv_events v = evs @ [''summary_done'', ''social_done'', ''approval_sent'']"
    "rv_approvals v = [a]"
    unfolding reached_def by blast
  show ?thesis
    unfolding wp_bnd wp_ret
  proof (rule wp_mono [OF wp_finish_workflow [OF laws v(1)]])
    fix w' assume w': "view_of E i w' = Some (v\<lparr>rv_status := ''completed'', rv_events := rv_events v @ [''workflow_completed'']\<rparr>)"
    show "Q d w'" by (rule ret [OF w']) (use v d in \<open>simp add: succeeded_def\<close>)
  next
    fix x w' assume "\<not> pg_healthy (pg E) \<and> view_of E i w' = Some v"
    then show "X x w'" using v by (intro stop [of w' v]) (auto simp: halted_def)
  qed
qed

theorem wp_run_pipeline_steps:
  assumes laws: "pg_laws (pg E)" and start: "reached E i 0 evs [] w"
    and ret: "\<And>r v w'. view_of E i w' = Some v \<Longrightarrow> succeeded i evs r v \<Longrightarrow> Q r w'"
    and stop: "\<And>x w' v. view_of E i w' = Some v \<Longrightarrow> halted (pg_healthy (pg E)) x v \<Longrightarrow> X x w'"
  shows "wp (run_pipeline_steps E i repo sha subject author diff) Q X w"
  unfolding run_pipeline_steps_def
  by (rule chain_step [OF laws start _ _ step_bodies(1) [OF laws]], simp, simp add: chain_def,
      rule chain_step [OF laws _ _ _ step_bodies(2) [OF laws]], assumption, simp, simp add: chain_def,
      rule chain_step [OF laws _ _ _ step_bodies(3) [OF laws]], assumption, simp, simp add: chain_def,
      rule chain_step [OF laws _ _ _ step_bodies(4) [OF laws]], assumption, simp, simp add: chain_def)
    (rule chain_end [OF laws, where i = i and evs = evs], simp add: numeral_eq_Suc,
     auto simp: get_or_def intro: ret stop)

section \<open>The whole pipeline\<close>

text \<open>A new workflow row starts a run without tasks and approvals.\<close>

lemma find_snoc_fresh: "\<forall>x\<in>set xs. \<not> P x \<Longrightarrow> P y \<Longrightarrow> find P (xs @ [y]) = Some y"
  by (induction xs) auto

lemma run_of_new_workflow:
  assumes ok: "tables_ok t" and fresh: "i \<notin> wf_id ` set (workflows t)" and row: "wf_id row = i"
  shows "run_of (workflows_update (\<lambda>rs. rs @ [row]) t) i =
    Some \<lparr>rv_status = wf_status row, rv_events = map event_of (wf_logs row), rv_steps = [], rv_approvals = []\<rparr>"
proof -
  have "find (\<lambda>r. wf_id r = i) (workflows t @ [row]) = Some row"
    by (rule find_snoc_fresh) (use fresh row in \<open>auto simp: image_iff\<close>)
  moreover have "filter (\<lambda>k. task_workflow_id k = Some i) (tasks t) = []"
    using ok fresh by (force simp: tables_ok_def refers_def filter_empty_conv)
  moreover have "filter (\<lambda>a. apr_workflow_id a = Some i) (approvals t) = []"
    using ok fresh by (force simp: tables_ok_def refers_def filter_empty_conv)
  ultimately show ?thesis
    using ok fresh row by (auto simp: run_of_Some workflow_row_def tables_ok_def refers_def)
qed

lemma wp_create_workflow:
  fixes E :: "('r, 'd, 'v) env" and w :: "('r, 'd, 'v) world"
  assumes laws: "pg_laws (pg E)" and ok: "tables_ok (db E w)"
    and ret: "\<And>i w'. only_db w w' \<Longrightarrow> i \<notin> wf_id ` set (workflows (db E w)) \<Longrightarrow> 0 < i \<Longrightarrow>
      reached E i 0 [''workflow_started''] [] w' \<Longrightarrow> Q i w'"
    and exc: "\<And>x w'. \<not> pg_healthy (pg E) \<Longrightarrow> only_db w w' \<Longrightarrow> db E w' = db E w \<Longrightarrow> X x w'"
  shows "wp (create_workflow E repo sha) Q X w"
  unfolding create_workflow_def
proof (rule wp_session_scope_op [OF laws session_op_bnd [OF session_op_log_entry session_op_statements(2) [OF laws]]])
  show "(\<lambda>_. True) (db E w)" by simp
next
  fix i and w' :: "('r, 'd, 'v) world"
  assume od: "only_db w w'" and "\<exists>entry t'. (event_of entry = ''workflow_started'' \<and> t' = db E w) \<and> 0 < i \<and>
    i \<notin> wf_id ` set (workflows t') \<and> (\<exists>ts. db E w' = workflows_update (\<lambda>rs. rs @ [stamp_workflow i ts
      ((blank_workflow ''commit_pipeline'')
          \<lparr>wf_task_chain := [JStr ''summarize'', JStr ''draft_social'', JStr ''save'', JStr ''request_approval''],
           wf_status := ''running'', wf_logs := [entry]\<rparr>)]) t')"
  then obtain entry ts where i: "0 < i" "i \<notin> wf_id ` set (workflows (db E w))" and e: "event_of entry = ''workflow_started''"
    and d: "db E w' = workflows_update (\<lambda>rs. rs @ [stamp_workflow i ts
      ((blank_workflow ''commit_pipeline'')
          \<lparr>wf_task_chain := [JStr ''summarize'', JStr ''draft_social'', JStr ''save'', JStr ''request_approval''],
           wf_status := ''running'', wf_logs := [entry]\<rparr>)]) (db E w)" by blast
  show "Q i w'"
  proof (rule ret [OF od i(2,1)])
    show "reached E i 0 [''workflow_started''] [] w'"
      unfolding reached_def view_of_def d
      by (subst run_of_new_workflow [OF ok i(2)]) (simp_all add: stamp_workflow_def blank_workflow_def e finished_eval)
  qed
qed (rule exc)

lemma reached_beside: "db E w' = db E w \<Longrightarrow> reached E i n evs aprs w' = reached E i n evs aprs w"
  by (simp add: reached_def view_of_def)

lemma keeps_index_memory [wp_ops]: "keeps beside_db (index_memory E repo sha eng mem)"
  unfolding index_memory_def vec_upsert_def by (intro wp_ops)

lemma keeps_run_pipeline_steps [wp_ops]: "keeps beside_db (run_pipeline_steps E i repo sha subject author diff)"
  unfolding run_pipeline_steps_def guarded_def guard_step_def summarize_body_def draft_body_def save_body_def
    save_memory_def approval_body_def
  by (intro wp_ops)

text \<open>What acquiring and attaching do, as rules.\<close>

definition only_redis :: "('r, 'd, 'v) world \<Rightarrow> ('r, 'd, 'v) world \<Rightarrow> bool" where
  "only_redis w w' \<longleftrightarrow> w' = w\<lparr>w_redis := w_redis w'\<rparr>"

lemma only_redis_on_redis: "on_redis f w = (x, w') \<Longrightarrow> only_redis w w'"
  by (auto simp: on_redis_def only_redis_def split: prod.splits)

lemma only_redis_trans [trans]: "only_redis u v \<Longrightarrow> only_redis v w \<Longrightarrow> only_redis u w"
  unfolding only_redis_def by (metis (no_types, lifting) world.surjective world.update_convs(1))

lemma only_redis_keeps:
  assumes "only_redis w w'"
  shows "db E w' = db E w" and "w_trace w' = w_trace w" and "w_ctx w' = w_ctx w"
  using assms by (auto simp: only_redis_def db_def) (metis world.select_convs(2,6,7) world.update_convs(1) world.surjective)+

lemma only_redis_acquire: "acquire E repo sha w = (x, w') \<Longrightarrow> only_redis w w'"
  unfolding acquire_def bnd_def ret_def
  by (auto split: prod.splits sum.splits if_splits dest!: only_redis_on_redis intro: only_redis_trans)

lemma only_redis_attach: "attach_workflow_id E repo sha i w = (x, w') \<Longrightarrow> only_redis w w'"
  unfolding attach_workflow_id_def by (rule only_redis_on_redis)

definition claim_key :: "('r, 'd, 'v) env \<Rightarrow> dict \<Rightarrow> string" where
  "claim_key E payload = dedup_key E (py_str (get_or payload ''repo'' JNull)) (py_str (get_or payload ''sha'' JNull))"

text \<open>The claim of a commit names its workflow, with a TTL that starts no earlier than the run.\<close>

definition attached :: "('r, 'd, 'v) env \<Rightarrow> dict \<Rightarrow> int \<Rightarrow> int \<Rightarrow> ('r, 'd, 'v) world \<Rightarrow> bool" where
  "attached E payload i t w \<longleftrightarrow>
     (\<exists>y. redis_claims E w (claim_key E payload) = Some (str_of_int i, y) \<and> t + dedup_ttl_seconds (cfg E) \<le> y)"

text \<open>The exits of a run that was not refused for its payload.\<close>

definition skipped :: "('r, 'd, 'v) env \<Rightarrow> dict \<Rightarrow> ('r, 'd, 'v) world \<Rightarrow> claim_result \<Rightarrow> ('r, 'd, 'v) world \<Rightarrow> bool" where
  "skipped E payload w c w' \<longleftrightarrow>
     only_redis w w' \<and> \<not> acquired c \<and> redis_claims E w' = redis_claims E w \<and>
     existing_value c = held (redis_claims E w (claim_key E payload)) (redis_now E w') \<and>
     held (redis_claims E w (claim_key E payload)) (redis_now E w) \<noteq> None"

text \<open>Whoever starts a run has found the commit unclaimed at some time during it.\<close>

definition unclaimed :: "('r, 'd, 'v) env \<Rightarrow> dict \<Rightarrow> ('r, 'd, 'v) world \<Rightarrow> ('r, 'd, 'v) world \<Rightarrow> bool" where
  "unclaimed E payload w w' \<longleftrightarrow>
     (\<exists>t. redis_now E w \<le> t \<and> t \<le> redis_now E w' \<and> held (redis_claims E w (claim_key E payload)) t = None)"

definition ran :: "('r, 'd, 'v) env \<Rightarrow> dict \<Rightarrow> int \<Rightarrow> ('r, 'd, 'v) world \<Rightarrow> ('r, 'd, 'v) world \<Rightarrow> bool" where
  "ran E payload i w w' \<longleftrightarrow>
     0 < i \<and> i \<notin> wf_id ` set (workflows (db E w)) \<and> attached E payload i (redis_now E w) w'"

lemma view_of_ctx [simp]: "view_of E i (w\<lparr>w_ctx := c\<rparr>) = view_of E i w"
  by (simp add: view_of_def)

lemma claims_beside:
  "w_redis w' = w_redis w \<Longrightarrow> redis_now E w' = redis_now E w \<and> redis_claims E w' = redis_claims E w"
  by (simp add: redis_view_defs)

lemma ctx_reset [simp]:
  "c\<lparr>current_workflow_id := x, current_workflow_id := current_workflow_id c\<rparr> = (c :: context_vars)"
  by simp

text \<open>The last part of a run: from the attached claim to the reset of the context variable.\<close>

lemma wp_bound_steps:
  fixes E :: "('r, 'd, 'v) env" and w :: "('r, 'd, 'v) world"
  assumes laws: "pg_laws (pg E)" and start: "reached E i 0 evs [] w"
    and ret: "\<And>r v w'. w_redis w' = w_redis w \<Longrightarrow> w_ctx w' = w_ctx w \<Longrightarrow> view_of E i w' = Some v \<Longrightarrow> succeeded i evs r v \<Longrightarrow> Q r w'"
    and stop: "\<And>x v w'. w_redis w' = w_redis w \<Longrightarrow> w_ctx w' = w_ctx w \<Longrightarrow> view_of E i w' = Some v \<Longrightarrow>
      halted (pg_healthy (pg E)) x v \<Longrightarrow> X x w'"
  shows "wp (bnd (bind_workflow (Some i)) (\<lambda>token.
         finally_do (run_pipeline_steps E i repo sha subject author diff) (reset_workflow token))) Q X w"
proof -
  let ?old = "current_workflow_id (w_ctx w)" and ?w = "w\<lparr>w_ctx := (w_ctx w)\<lparr>current_workflow_id := Some i\<rparr>\<rparr>"
  have "reached E i 0 evs [] ?w" using start by (simp add: reached_def)
  then have steps: "wp (run_pipeline_steps E i repo sha subject author diff)
      (\<lambda>r w'. \<exists>v. view_of E i w' = Some v \<and> succeeded i evs r v)
      (\<lambda>x w'. \<exists>v. view_of E i w' = Some v \<and> halted (pg_healthy (pg E)) x v) ?w"
    by (intro wp_run_pipeline_steps [OF laws]) auto
  have undo: "c = (w_ctx w)\<lparr>current_workflow_id := Some i\<rparr> \<Longrightarrow> c\<lparr>current_workflow_id := ?old\<rparr> = w_ctx w" for c
    by simp
  have "wp (run_pipeline_steps E i repo sha subject author diff)
      (\<lambda>r. wp (reset_workflow ?old) (\<lambda>_. Q r) X) (\<lambda>x. wp (reset_workflow ?old) (\<lambda>_. X x) X) ?w"
    by (rule wp_mono [OF wp_conj [OF steps keeps_wp [OF keeps_run_pipeline_steps]]])
      (auto simp: reset_workflow_def beside_db_def intro!: ret stop undo)
  then show ?thesis by (simp add: bind_workflow_def)
qed

lemma wp_run_commit_pipeline:
  fixes E :: "('r, 'd, 'v) env" and w :: "('r, 'd, 'v) world"
  assumes redis: "redis_laws (redis E)" and laws: "pg_laws (pg E)" and ok: "tables_ok (db E w)"
    and refuse: "\<And>m. X (ValueError m) w"
    and skip: "\<And>c r w'. skipped E payload w c w' \<Longrightarrow> skip_result c = Inr r \<Longrightarrow> Q r w'"
    and early: "\<And>x w'. db E w' = db E w \<Longrightarrow> w_ctx w' = w_ctx w \<Longrightarrow> w_trace w' = w_trace w \<Longrightarrow> X x w'"
    and unattached: "\<And>x i w'. 0 < i \<Longrightarrow> i \<notin> wf_id ` set (workflows (db E w)) \<Longrightarrow> w_ctx w' = w_ctx w \<Longrightarrow>
      w_trace w' = w_trace w \<Longrightarrow> reached E i 0 [''workflow_started''] [] w' \<Longrightarrow> X x w'"
    and ret: "\<And>i r v w'. unclaimed E payload w w' \<Longrightarrow> ran E payload i w w' \<Longrightarrow> w_ctx w' = w_ctx w \<Longrightarrow> view_of E i w' = Some v \<Longrightarrow>
      succeeded i [''workflow_started''] r v \<Longrightarrow> Q r w'"
    and stop: "\<And>i x v w'. unclaimed E payload w w' \<Longrightarrow> ran E payload i w w' \<Longrightarrow> w_ctx w' = w_ctx w \<Longrightarrow> view_of E i w' = Some v \<Longrightarrow>
      halted (pg_healthy (pg E)) x v \<Longrightarrow> X x w'"
  shows "wp (run_commit_pipeline E payload) Q X w"
proof -
  let ?repo = "get_or payload ''repo'' JNull" and ?sha = "get_or payload ''sha'' JNull"
  let ?k = "claim_key E payload"
  note key = claim_key_def [of E payload, symmetric]
  have run: "wp (acquire E (py_str ?repo) (py_str ?sha)) (\<lambda>claim.
       wp (if \<not> acquired claim then lift_sum (skip_result claim)
       else
         bnd (create_workflow E ?repo ?sha) (\<lambda>wfid.
         bnd (attach_workflow_id E (py_str ?repo) (py_str ?sha) wfid) (\<lambda>_.
         bnd (bind_workflow (Some wfid)) (\<lambda>token.
         finally_do (run_pipeline_steps E wfid ?repo ?sha subject author diff) (reset_workflow token))))) Q X) X w"
    for subject author diff
  proof -
    obtain x w1 where a: "acquire E (py_str ?repo) (py_str ?sha) w = (x, w1)" by force
    note w1 = only_redis_keeps [OF only_redis_acquire [OF a]]
    show ?thesis
    proof (cases x)
      case (Inl e)
      with a w1 show ?thesis by (simp add: wp_def early)
    next
      case (Inr c)
      note claims = acquire_claims [OF redis a [unfolded Inr]]
      show ?thesis
      proof (cases "acquired c")
        case False
        with claims have sk: "skipped E payload w c w1"
          using only_redis_acquire [OF a] by (auto simp: skipped_def key held_None)
        show ?thesis
          using a Inr False w1 skip [OF sk] by (cases "skip_result c") (auto simp: wp_def lift_sum_def ret_def raise_def early)
      next
        case True
        have "wp (bnd (create_workflow E ?repo ?sha) (\<lambda>wfid.
         bnd (attach_workflow_id E (py_str ?repo) (py_str ?sha) wfid) (\<lambda>_.
         bnd (bind_workflow (Some wfid)) (\<lambda>token.
         finally_do (run_pipeline_steps E wfid ?repo ?sha subject author diff) (reset_workflow token))))) Q X w1"
          unfolding wp_bnd [of "create_workflow _ _ _"] wp_bnd [of "attach_workflow_id _ _ _ _"]
        proof (rule wp_create_workflow [OF laws])
          show "tables_ok (db E w1)" using ok w1 by simp
        next
          fix i and w2 :: "('r, 'd, 'v) world"
          assume w2: "only_db w1 w2" and i: "i \<notin> wf_id ` set (workflows (db E w1))" "0 < i"
            and r2: "reached E i 0 [''workflow_started''] [] w2"
          obtain y w3 where at: "attach_workflow_id E (py_str ?repo) (py_str ?sha) i w2 = (y, w3)" by force
          note w3 = only_redis_keeps [OF only_redis_attach [OF at]]
          have un: "unclaimed E payload w w'" if "redis_now E w1 \<le> redis_now E w'" for w'
            using claims that True unfolding unclaimed_def key by (elim exE conjE) (intro exI conjI, auto)
          have r3: "reached E i 0 [''workflow_started''] [] w3" using r2 w3 reached_beside [of E w3 w2] by simp
          show "wp (attach_workflow_id E (py_str ?repo) (py_str ?sha) i)
            (\<lambda>_. wp (bnd (bind_workflow (Some i)) (\<lambda>token.
              finally_do (run_pipeline_steps E i ?repo ?sha subject author diff) (reset_workflow token))) Q X) X w2"
          proof (cases y)
            case (Inl e)
            have "X e w3"
              by (rule unattached [OF i(2) _ _ _ r3]) (use i w1 w2 w3 in \<open>auto simp: only_db_def\<close>)
            with at Inl show ?thesis by (simp add: wp_def)
          next
            case (Inr u)
            then have "attach_workflow_id E (py_str ?repo) (py_str ?sha) i w2 = (Inr (), w3)" using at by simp
            note ac = attach_claims [OF redis this, unfolded key]
            have le1: "redis_now E w \<le> redis_now E w1" using claims by (elim exE conjE) simp
            have "redis_now E w1 = redis_now E w2" using w2 claims_beside [of w2 w1 E] by (simp add: only_db_def)
            also have "\<dots> \<le> redis_now E w3" using ac by simp
            finally have le13: "redis_now E w1 \<le> redis_now E w3" .
            with le1 have le: "redis_now E w \<le> redis_now E w3" by simp
            from ac have "redis_claims E w3 (claim_key E payload) =
                Some (str_of_int i, redis_now E w3 + dedup_ttl_seconds (cfg E))"
              by (elim conjE) simp
            with le have "attached E payload i (redis_now E w) w3"
              unfolding attached_def by (intro exI conjI) (assumption, simp)
            with i have "ran E payload i w w3" unfolding ran_def w1(1) by (intro conjI)
            then have ran: "ran E payload i w w'" if "w_redis w' = w_redis w3" for w'
              using claims_beside [OF that, of E] by (simp add: ran_def attached_def)
            have t3: "redis_now E w1 \<le> redis_now E w'" if "w_redis w' = w_redis w3" for w'
              using le13 claims_beside [OF that, of E] by simp
            have ctx: "w_ctx w3 = w_ctx w" using w1 w2 w3 by (simp add: only_db_def)
            have "wp (bnd (bind_workflow (Some i)) (\<lambda>token.
              finally_do (run_pipeline_steps E i ?repo ?sha subject author diff) (reset_workflow token))) Q X w3"
              by (rule wp_bound_steps [OF laws r3]) (auto intro: ret [OF un [OF t3] ran] stop [OF un [OF t3] ran] simp: ctx)
            with at Inr show ?thesis by (simp add: wp_def)
          qed
        next
          fix x' and w2 :: "('r, 'd, 'v) world"
          assume "only_db w1 w2" "db E w2 = db E w1"
          then show "X x' w2" using w1 by (intro early) (simp_all add: only_db_def)
        qed
        with a Inr True show ?thesis by (simp add: wp_def)
      qed
    qed
  qed
  then show ?thesis
    by (simp add: run_commit_pipeline_def Let_def refuse require_keys_def wp_bnd [of "lift_sum _"] wp_bnd [of "acquire _ _ _"]
        split: sum.splits del: wp_bnd)
qed

section \<open>A run that nothing disturbs\<close>

text \<open>
  The services answer: the templates are there, the LLM gives a text from which a summary can be
  read, Redis runs its commands, the database is healthy, and nothing is cancelled. (The vector
  store, the file and the webhooks may still fail.)
\<close>

definition answering :: "('r, 'd, 'v) env \<Rightarrow> bool" where
  "answering E \<longleftrightarrow>
     pg_healthy (pg E) \<and> uncancelled E \<and>
     (\<exists>t. eng_template E = Inr t) \<and> (\<exists>t. social_template E = Inr t) \<and>
     (\<forall>rq n. \<exists>s x. acompletion E rq n = Inr (JStr s) \<and> summary_of_reply (parse_reply (py_strip s)) = Inr x) \<and>
     (\<forall>k v t r. \<exists>b r'. rd_set_nx_ex (redis E) k v t r = (Inr b, r')) \<and>
     (\<forall>k v t r. \<exists>r'. rd_set_ex (redis E) k v t r = (Inr (), r')) \<and>
     (\<forall>ids docs metas v. fst (ch_upsert (chroma E) ids docs metas v) \<noteq> Inl CancelledError)"

definition calm :: "('w, 'a) io \<Rightarrow> bool" where
  "calm m \<longleftrightarrow> (\<forall>w. wp m (\<lambda>_ _. True) (\<lambda>_ _. False) w)"

lemma calm_bnd: "calm m \<Longrightarrow> (\<And>a. calm (k a)) \<Longrightarrow> calm (bnd m k)"
  unfolding calm_def wp_bnd by (blast intro: wp_mono)

lemma llm_call_answers:
  assumes "answering E"
  shows "wp (llm_call E rq m) (\<lambda>s _. \<exists>x. summary_of_reply (parse_reply s) = Inr x) (\<lambda>_ _. False) w"
proof -
  obtain r w' where c: "llm_call E rq m w = (r, w')" by force
  from assms obtain s x where "acompletion E rq (w_tick w' - 1) = Inr (JStr s)"
    "summary_of_reply (parse_reply (py_strip s)) = Inr x"
    unfolding answering_def by blast
  with llm_call_outcome [OF c] c show ?thesis by (simp add: wp_def stripped_content_def)
qed

lemma calm_agents:
  assumes "answering E"
  shows "calm (new_summarizer E)" and "calm (new_drafter E)"
    and "calm (summarize E t (JStr s) (JStr a) (JStr h) (JStr d))" and "calm (draft_post E t' sm cl risk)"
proof -
  show "calm (new_summarizer E)" "calm (new_drafter E)"
    using assms by (auto simp: calm_def answering_def new_summarizer_def new_drafter_def)
  show "calm (summarize E t (JStr s) (JStr a) (JStr h) (JStr d))"
    unfolding calm_def summarize_def replace_value_def
    by (auto intro!: wp_mono [OF llm_call_answers [OF assms]])
  show "calm (draft_post E t' sm cl risk)"
    unfolding calm_def draft_post_def by (auto intro!: wp_mono [OF llm_call_answers [OF assms]])
qed

lemma answering_healthy [simp]: "answering E \<Longrightarrow> pg_healthy (pg E)" "answering E \<Longrightarrow> uncancelled E"
  by (simp_all add: answering_def)

lemma calm_save_memory:
  assumes "pg_laws (pg E)" and "pg_healthy (pg E)"
  shows "calm (save_memory E repo (JStr sha) subject author eng)"
  unfolding calm_def save_memory_def
proof (intro allI wp_session_scope_total [OF assms])
  show "session_total E (\<lambda>_. True) (bnd (lift_sum (slice8 (JStr sha))) (\<lambda>sha8.
        bnd (add_memory E ((blank_memory ''commit_summary'' (memory_text sha8 subject eng))
               \<lparr>mem_meta := memory_meta repo (JStr sha) subject author eng\<rparr>)) (\<lambda>mid.
        ret (mid, memory_text sha8 subject eng)))) (\<lambda>_ _ _. True)"
    unfolding slice8_def lift_sum_def
    by (simp, rule session_total_weaken [OF session_total_bnd [OF session_total_memories [OF assms] session_total_ret]])
      simp_all
qed simp_all

lemma calm_index_memory:
  assumes "answering E" and "pg_laws (pg E)"
  shows "calm (index_memory E repo sha eng mem)"
  unfolding calm_def index_memory_def wp_catching wp_bnd [of "vec_upsert E _ _ _"]
proof
  fix w
  let ?X = "\<lambda>e w'. if is_Exception e then wp (ret ()) (\<lambda>_ _. True) (\<lambda>_ _. False) w' else False"
  have vec: "wp (vec_upsert E ids docs metas) (\<lambda>_ _. True) ?X w" for ids docs metas
  proof -
    obtain x v where x: "ch_upsert (chroma E) ids docs metas (w_vec w) = (x, v)" by force
    moreover have "x \<noteq> Inl CancelledError" using assms(1) x unfolding answering_def by (metis fst_conv)
    ultimately show ?thesis by (auto simp: vec_upsert_def split: sum.splits)
  qed
  have sel: "wp (session_scope E
          (bnd (select_memories E (\<lambda>r. mem_id r = fst mem) Unordered None) (\<lambda>rows.
           bnd (lift_sum (scalar_one rows)) (\<lambda>_.
           update_memories E (\<lambda>r. mem_id r = fst mem) (\<lambda>r. r\<lparr>mem_embedding_id := Some (''commit:'' @ py_str sha)\<rparr>)))))
        (\<lambda>_ _. True) ?X w'" for w'
  proof -
    have t: "wp (select_memories E P Unordered None) (\<lambda>_ _. True) (\<lambda>_ _. False) w2"
      "wp (update_memories E P f) (\<lambda>_ _. True) (\<lambda>_ _. False) w2" for P f w2
      using assms(1) by (auto simp: answering_def pg_healthy_def table_healthy_def select_memories_def update_memories_def
          intro!: wp_on_pg_total simp del: wp_on_pg)
    have "wp (session_scope E
          (bnd (select_memories E (\<lambda>r. mem_id r = fst mem) Unordered None) (\<lambda>rows.
           bnd (lift_sum (scalar_one rows)) (\<lambda>_.
           update_memories E (\<lambda>r. mem_id r = fst mem) (\<lambda>r. r\<lparr>mem_embedding_id := Some (''commit:'' @ py_str sha)\<rparr>)))))
        (\<lambda>_ _. True) (\<lambda>e _. e \<noteq> CancelledError) w'"
      by (rule wp_session_scope_raises)
        (auto simp: assms(1) scalar_one_def split: list.splits intro!: wp_mono [OF t(1)] wp_mono [OF t(2)])
    then show ?thesis by (rule wp_mono) auto
  qed
  show "wp (vec_upsert E [''commit:'' @ py_str sha] [snd mem]
               [[(''repo'', repo), (''sha'', sha), (''risk'', JStr (es_risk_level eng))]])
      (\<lambda>_. wp (session_scope E
          (bnd (select_memories E (\<lambda>r. mem_id r = fst mem) Unordered None) (\<lambda>rows.
           bnd (lift_sum (scalar_one rows)) (\<lambda>_.
           update_memories E (\<lambda>r. mem_id r = fst mem) (\<lambda>r. r\<lparr>mem_embedding_id := Some (''commit:'' @ py_str sha)\<rparr>)))))
        (\<lambda>_ _. True) ?X) ?X w"
    by (rule wp_mono [OF vec], rule sel, assumption)
qed

lemma wp_calm:
  assumes "calm m" and "wp m Q (\<lambda>_ _. True) w"
  shows "wp m Q X w"
  using wp_conj [OF assms(1) [unfolded calm_def, THEN spec] assms(2)] by (rule wp_mono) auto

text \<open>A step's body that returns whenever it starts with its task as the run's last one.\<close>

definition sure_body :: "('r, 'd, 'v) env \<Rightarrow> int \<Rightarrow> string \<Rightarrow> (int \<Rightarrow> ('r, 'd, 'v, 'a) act) \<Rightarrow> bool" where
  "sure_body E i ty body \<longleftrightarrow>
     (\<forall>v before k w. at_task v before k ty \<longrightarrow> view_of E i w = Some v \<longrightarrow> wp (body k) (\<lambda>_ _. True) (\<lambda>_ _. False) w)"

lemma sure_bodies:
  assumes a: "answering E" and laws: "pg_laws (pg E)"
  shows "sure_body E i ty (summarize_body E i (JStr sj) (JStr au) (JStr sha) (JStr df))"
    and "sure_body E i ty (draft_body E i eng)"
    and "sure_body E i ty (save_body E repo (JStr sha) subject author eng)"
    and "sure_body E i ty (approval_body E i (JStr rp) (JStr sha) subject eng post)"
proof -
  note agents = calm_agents [OF a] and h = answering_healthy [OF a]
  show "sure_body E i ty (summarize_body E i (JStr sj) (JStr au) (JStr sha) (JStr df))"
    unfolding sure_body_def summarize_body_def wp_bnd [of "new_summarizer E"] wp_bnd [of "summarize E _ _ _ _ _"]
    by (intro allI impI, rule wp_calm [OF agents(1)], rule wp_same_view [OF keeps_agents(1), where i = i],
        rule wp_calm [OF agents(3)], rule wp_same_view [OF keeps_agents(3), where i = i],
        rule wp_close_step [OF laws]) (simp_all add: h)
  show "sure_body E i ty (draft_body E i eng)"
    unfolding sure_body_def draft_body_def wp_bnd [of "new_drafter E"] wp_bnd [of "draft_post E _ _ _ _"]
    by (intro allI impI, rule wp_calm [OF agents(2)], rule wp_same_view [OF keeps_agents(2), where i = i],
        rule wp_calm [OF agents(4)], rule wp_same_view [OF keeps_agents(4), where i = i],
        rule wp_close_step [OF laws]) (simp_all add: h)
  show "sure_body E i ty (save_body E repo (JStr sha) subject author eng)"
    unfolding sure_body_def save_body_def wp_bnd
    by (intro allI impI, rule wp_calm [OF calm_save_memory [OF laws h(1)]], rule wp_save_memory [OF laws, where i = i],
        rule wp_calm [OF calm_index_memory [OF a laws]], rule wp_index_memory [OF laws, where i = i],
        rule wp_complete_running [OF laws]) (simp_all add: h)
  show "sure_body E i ty (approval_body E i (JStr rp) (JStr sha) subject eng post)"
    unfolding sure_body_def
  proof (intro allI impI)
    fix v before k w assume at: "at_task v before k ty" and v: "view_of E i w = Some v"
    have sure: "calm (send E req)" for req
      unfolding calm_def by (intro allI wp_send_total laws h)
    have "wp (send E req) (\<lambda>a w'. \<exists>v'. view_of E i w' = Some v' \<and> at_task v' before k ty) (\<lambda>_ _. True) w"
      if "ar_workflow_id req = Some i" for req
    proof (rule wp_send [OF laws])
      fix a ts via w' assume "a \<notin> apr_id ` set (approvals (db E w))" "db E w' = with_approval req a ts via (db E w)"
      with run_of_with_approval [OF v [unfolded view_of_def] _ that] at
      show "\<exists>v'. view_of E i w' = Some v' \<and> at_task v' before k ty"
        by (simp add: view_of_def at_task_def)
    qed simp
    note send = wp_calm [OF sure this]
    show "wp (approval_body E i (JStr rp) (JStr sha) subject eng post k) (\<lambda>_ _. True) (\<lambda>_ _. False) w"
      unfolding approval_body_def slice8_def last_part_def lift_sum_def json.case sum.case bnd_ret wp_bnd [of "send E _"]
      by (rule wp_mono [OF send]) (auto intro!: wp_close_step [OF laws] simp: h simp del: wp_bnd)
  qed
qed

lemma chain_step_sure:
  fixes E :: "('r, 'd, 'v) env" and w :: "('r, 'd, 'v) world"
  assumes a: "answering E" and laws: "pg_laws (pg E)" and r: "reached E i n evs aprs w" and n: "n < 4" "ty = chain ! n"
    and body: "step_body E i ty ev ap body" and sure: "sure_body E i ty body"
    and next_step: "\<And>k a w'. reached E i (Suc n) (evs @ ev) (aprs @ ap a) w' \<Longrightarrow> wp (rest k a) (\<lambda>_ _. True) (\<lambda>_ _. False) w'"
  shows "wp (bnd (create_task E ty i p) (\<lambda>k. bnd (guarded E i label body k) (rest k))) (\<lambda>_ _. True) (\<lambda>_ _. False) w"
proof -
  from r obtain v where v: "view_of E i w = Some v" "rv_status v = ''running''" "map snd (rv_steps v) = finished n"
    "distinct (map fst (rv_steps v))" "rv_events v = evs" "rv_approvals v = aprs"
    unfolding reached_def by blast
  have Suc: "finished (Suc n) = finished n @ [(ty, ''completed'')]"
  proof -
    have "n < length chain" using n(1) by (simp add: chain_def)
    then show ?thesis by (simp add: finished_def take_Suc_conv_app_nth n(2))
  qed
  show ?thesis
    unfolding wp_bnd
  proof (rule wp_mono [OF wp_create_task [OF laws v(1)]])
    fix k w1 assume k: "k \<notin> fst ` set (rv_steps v) \<and>
      view_of E i w1 = Some (v\<lparr>rv_steps := rv_steps v @ [(k, ty, ''running'')]\<rparr>)"
    let ?v = "v\<lparr>rv_steps := rv_steps v @ [(k, ty, ''running'')]\<rparr>"
    have at: "at_task ?v (rv_steps v) k ty" using k v(2) by (simp add: at_task_def)
    have w1: "view_of E i w1 = Some ?v" using k by simp
    show "wp (guarded E i label body k) (\<lambda>a. wp (rest k a) (\<lambda>_ _. True) (\<lambda>_ _. False)) (\<lambda>_ _. False) w1"
      unfolding guarded_def guard_step_def wp_catching
      by (rule wp_mono [OF wp_conj [OF body [unfolded step_body_def, rule_format, OF at w1]
            sure [unfolded sure_body_def, rule_format, OF at w1]]])
        (use v k Suc in \<open>auto simp: reached_def image_iff intro!: next_step\<close>)
  qed (simp add: answering_healthy [OF a])
qed

lemma steps_return:
  assumes a: "answering E" and laws: "pg_laws (pg E)" and start: "reached E i 0 evs [] w"
  shows "wp (run_pipeline_steps E i (JStr rp) (JStr sha) (JStr sj) (JStr au) (JStr df)) (\<lambda>_ _. True) (\<lambda>_ _. False) w"
  unfolding run_pipeline_steps_def
  by (rule chain_step_sure [OF a laws start _ _ step_bodies(1) [OF laws] sure_bodies(1) [OF a laws]], simp, simp add: chain_def,
      rule chain_step_sure [OF a laws _ _ _ step_bodies(2) [OF laws] sure_bodies(2) [OF a laws]], assumption, simp, simp add: chain_def,
      rule chain_step_sure [OF a laws _ _ _ step_bodies(3) [OF laws] sure_bodies(3) [OF a laws]], assumption, simp, simp add: chain_def,
      rule chain_step_sure [OF a laws _ _ _ step_bodies(4) [OF laws] sure_bodies(4) [OF a laws]], assumption, simp, simp add: chain_def)
    (auto simp: reached_def answering_healthy [OF a] intro!: wp_mono [OF wp_finish_workflow [OF laws]])

text \<open>A payload whose fields are strings, as the event watcher builds it.\<close>

definition text_payload :: "dict \<Rightarrow> bool" where
  "text_payload payload \<longleftrightarrow>
     (\<exists>rp sha sj au df. map_of payload ''repo'' = Some (JStr rp) \<and> map_of payload ''sha'' = Some (JStr sha) \<and>
        get_or payload ''subject'' (JStr []) = JStr sj \<and> get_or payload ''author'' (JStr []) = JStr au \<and>
        get_or payload ''diff'' (JStr []) = JStr df)"

lemma pipeline_returns:
  fixes E :: "('r, 'd, 'v) env" and w :: "('r, 'd, 'v) world"
  assumes a: "answering E" and redis: "redis_laws (redis E)" and laws: "pg_laws (pg E)" and ok: "tables_ok (db E w)"
    and pl: "text_payload payload" and free: "held (redis_claims E w (claim_key E payload)) (redis_now E w) = None"
  shows "wp (run_commit_pipeline E payload) (\<lambda>_ _. True) (\<lambda>_ _. False) w"
proof -
  from pl obtain rp sha sj au df where f: "get_or payload ''repo'' JNull = JStr rp" "get_or payload ''sha'' JNull = JStr sha"
    "get_or payload ''subject'' (JStr []) = JStr sj" "get_or payload ''author'' (JStr []) = JStr au"
    "get_or payload ''diff'' (JStr []) = JStr df" "has_key payload ''repo''" "has_key payload ''sha''"
    by (auto simp: text_payload_def get_or_def has_key_def)
  obtain b r1 where nx: "rd_set_nx_ex (redis E) (dedup_key E rp sha) pending_mark (dedup_ttl_seconds (cfg E)) (w_redis w) = (Inr b, r1)"
    using a unfolding answering_def by blast
  have b
    using redis_set_nx [OF redis nx] free by (auto simp: claim_key_def f redis_view_defs held_None)
  then have acq: "acquire E rp sha w = (Inr \<lparr>acquired = True, existing_value = None\<rparr>, w\<lparr>w_redis := r1\<rparr>)"
    by (simp add: acquire_def bnd_def on_redis_def nx ret_def)
  have body: "wp (bnd (create_workflow E (JStr rp) (JStr sha)) (\<lambda>wfid.
         bnd (attach_workflow_id E rp sha wfid) (\<lambda>_.
         bnd (bind_workflow (Some wfid)) (\<lambda>token.
         finally_do (run_pipeline_steps E wfid (JStr rp) (JStr sha) (JStr sj) (JStr au) (JStr df)) (reset_workflow token)))))
      (\<lambda>_ _. True) (\<lambda>_ _. False) (w\<lparr>w_redis := r1\<rparr>)"
    unfolding wp_bnd [of "create_workflow _ _ _"]
  proof (rule wp_create_workflow [OF laws])
    fix i and w2 :: "('r, 'd, 'v) world" assume r2: "reached E i 0 [''workflow_started''] [] w2"
    obtain r3 where at: "rd_set_ex (redis E) (dedup_key E rp sha) (str_of_int i) (dedup_ttl_seconds (cfg E)) (w_redis w2) = (Inr (), r3)"
      using a unfolding answering_def by blast
    have r3: "reached E i 0 [''workflow_started''] [] (w2\<lparr>w_redis := r3, w_ctx := c\<rparr>)" for c
      using r2 reached_beside [of E "w2\<lparr>w_redis := r3, w_ctx := c\<rparr>" w2] by simp
    show "wp (bnd (attach_workflow_id E rp sha i) (\<lambda>_.
         bnd (bind_workflow (Some i)) (\<lambda>token.
         finally_do (run_pipeline_steps E i (JStr rp) (JStr sha) (JStr sj) (JStr au) (JStr df)) (reset_workflow token))))
      (\<lambda>_ _. True) (\<lambda>_ _. False) w2"
      by (simp add: attach_workflow_id_def at bind_workflow_def reset_workflow_def)
        (rule wp_mono [OF steps_return [OF a laws r3]], simp_all)
  qed (use ok a in simp_all)
  show ?thesis
    using body by (simp add: run_commit_pipeline_def Let_def f require_keys_def wp_bnd [of "lift_sum _"] wp_bnd [of "acquire _ _ _"]
        wp_def [of "acquire _ _ _"] acq del: wp_bnd)
qed

text \<open>An environment that answers, though its file and its webhooks fail, and a run in it.\<close>

abbreviation tame_env :: "(mem_redis_state, mem_pg_state, unit) env" where
  "tame_env \<equiv> mem_env (default_settings ''/srv'') (\<lambda>_ _. Inr (JStr ''{}'')) (\<lambda>_ _ _. Inl TimeoutError)
     (\<lambda>_ _ _. Inl (FileNotFoundError ''logs''))"

lemma summary_of_empty_object:
  "summary_of_reply (parse_reply (py_strip ''{}'')) =
     Inr \<lparr>es_summary = [], es_changed_files = [], es_changelog = [], es_risk_level = ''low''\<rparr>"
proof -
  have "py_strip ''{}'' = ''{}''" by (simp add: py_strip_def strip_if_def is_space_def)
  moreover have "extract_object ''{}'' = ''{}''"
    by (simp add: extract_object_def fence_at_def fence_def find_braces_def)
  moreover have "loads ''{}'' = Some (JObj [])" using loads_dumps [of "JObj []"] by simp
  ultimately show ?thesis
    by (simp add: parse_reply_def summary_of_reply_def get_or_def str_each_def normalize_risk_def Let_def
        py_strip_def strip_if_def is_space_def py_lower_def lower_char_def)
qed

lemma tame_answering: "answering tame_env"
  using summary_of_empty_object
  by (auto simp: answering_def uncancelled_def mem_redis_run mr_set_nx_ex_def mem_env_def)

lemma empty_tables_ok [simp]: "tables_ok empty_tables"
  by (simp add: tables_ok_def refers_def empty_tables_def)

definition small_payload :: dict where
  "small_payload = [(''repo'', JStr ''/r''), (''sha'', JStr ''ab'')]"

lemma small_text_payload [simp]: "text_payload small_payload"
  by (auto simp: text_payload_def small_payload_def get_or_def)

lemma small_run:
  obtains r w' where "run_commit_pipeline tame_env small_payload (mem_world empty_tables) = (Inr r, w')"
  using pipeline_returns [OF tame_answering _ _ _ small_text_payload, of "mem_world empty_tables"]
  by (auto simp: held_def wp_def split: prod.splits sum.splits)

lemma small_unskipped: "\<not> skipped tame_env small_payload (mem_world empty_tables) c w'"
  by (simp add: skipped_def held_def)

section \<open>Properties\<close>

text \<open>C1: what a run of the pipeline leaves, whatever the services do. When it returns, either it
  was skipped for a live claim and changed nothing but Redis, or it created a new workflow whose
  row is completed, whose four tasks are completed in the order of the chain, whose events are
  logged in order, and whose single approval is the one it returns, and the claim names that
  workflow. When it raises, the tables are unchanged, or there is one new workflow, and that
  workflow is not completed: its tasks are a completed beginning of the chain and at most one
  more, and on a healthy database an exception of a step has marked that task and the workflow as
  failed.\<close>

theorem pipeline_outcomes:
  assumes "redis_laws (redis E)" and "pg_laws (pg E)" and "tables_ok (db E w)"
    and "run_commit_pipeline E payload w = (out, w')"
  shows "case out of
      Inr r \<Rightarrow>
        (\<exists>c. skipped E payload w c w' \<and> skip_result c = Inr r \<and> db E w' = db E w) \<or>
        (\<exists>i v. ran E payload i w w' \<and> view_of E i w' = Some v \<and> succeeded i [''workflow_started''] r v)
    | Inl x \<Rightarrow>
        db E w' = db E w \<or>
        (\<exists>i. 0 < i \<and> i \<notin> wf_id ` set (workflows (db E w)) \<and>
          (reached E i 0 [''workflow_started''] [] w' \<or>
           (ran E payload i w w' \<and> (\<exists>v. view_of E i w' = Some v \<and> halted (pg_healthy (pg E)) x v))))"
proof -
  have "wp (run_commit_pipeline E payload)
    (\<lambda>r w'. (\<exists>c. skipped E payload w c w' \<and> skip_result c = Inr r \<and> db E w' = db E w) \<or>
        (\<exists>i v. ran E payload i w w' \<and> view_of E i w' = Some v \<and> succeeded i [''workflow_started''] r v))
    (\<lambda>x w'. db E w' = db E w \<or>
        (\<exists>i. 0 < i \<and> i \<notin> wf_id ` set (workflows (db E w)) \<and>
          (reached E i 0 [''workflow_started''] [] w' \<or>
           (ran E payload i w w' \<and> (\<exists>v. view_of E i w' = Some v \<and> halted (pg_healthy (pg E)) x v))))) w"
    by (rule wp_run_commit_pipeline [OF assms(1-3)])
      (auto dest: only_redis_keeps(1) simp: skipped_def, auto simp: ran_def)
  with assms(4) show ?thesis by (simp add: wp_def split: sum.splits)
qed

theorem pipeline_outcomes_witness:
  "\<exists>r w' i v. run_commit_pipeline tame_env small_payload (mem_world empty_tables) = (Inr r, w') \<and>
     view_of tame_env i w' = Some v \<and> rv_status v = ''completed'' \<and> map snd (rv_steps v) = finished 4"
proof -
  obtain r w' where run: "run_commit_pipeline tame_env small_payload (mem_world empty_tables) = (Inr r, w')"
    by (rule small_run)
  from pipeline_outcomes [OF _ _ _ run] run small_unskipped show ?thesis by (auto simp: succeeded_def)
qed

text \<open>The invariant of the tables (unique keys, and workflow ids of tasks and approvals that
  name workflows) survives every run, and the context variable that tags log records has its old
  value again after it, however the run ends.\<close>

theorem pipeline_keeps_invariant:
  assumes "redis_laws (redis E)" and "pg_laws (pg E)" and "tables_ok (db E w)"
    and "run_commit_pipeline E payload w = (out, w')"
  shows "tables_ok (db E w') \<and> w_ctx w' = w_ctx w"
proof -
  have ok: "tables_ok (db E w')" if "view_of E i w' = Some v" for i v w'
    using that by (auto simp: view_of_def run_of_Some)
  have sk: "tables_ok (db E w') \<and> w_ctx w' = w_ctx w" if "skipped E payload w c w'" for c w'
    using that only_redis_keeps(1) [of w w' E] only_redis_keeps(3) [of w w'] assms(3) by (simp add: skipped_def)
  have "wp (run_commit_pipeline E payload) (\<lambda>_ w'. tables_ok (db E w') \<and> w_ctx w' = w_ctx w)
    (\<lambda>_ w'. tables_ok (db E w') \<and> w_ctx w' = w_ctx w) w"
    by (rule wp_run_commit_pipeline [OF assms(1-3)])
      (auto simp: assms(3) reached_def dest: sk ok)
  with assms(4) show ?thesis by (simp add: wp_def split: sum.splits)
qed

theorem pipeline_keeps_invariant_witness:
  "tables_ok (db tame_env (snd (run_commit_pipeline tame_env small_payload (mem_world empty_tables))))"
proof -
  obtain r w' where run: "run_commit_pipeline tame_env small_payload (mem_world empty_tables) = (Inr r, w')"
    by (rule small_run)
  from pipeline_keeps_invariant [OF _ _ _ run] run show ?thesis by simp
qed

text \<open>C5: the model is never asked before the workflow is on record: a run that has made any call
  out of the process (an LLM request, a back-off, a file append or a webhook) has created a new
  workflow row, its claim names that row, and the row is in the tables when the run ends.\<close>

theorem no_call_before_row:
  assumes "redis_laws (redis E)" and "pg_laws (pg E)" and "tables_ok (db E w)"
    and "run_commit_pipeline E payload w = (out, w')"
  shows "w_trace w' = w_trace w \<or>
    (\<exists>i v. i \<notin> wf_id ` set (workflows (db E w)) \<and> ran E payload i w w' \<and> view_of E i w' = Some v)"
proof -
  have "wp (run_commit_pipeline E payload)
    (\<lambda>_ w'. w_trace w' = w_trace w \<or> (\<exists>i v. i \<notin> wf_id ` set (workflows (db E w)) \<and> ran E payload i w w' \<and> view_of E i w' = Some v))
    (\<lambda>_ w'. w_trace w' = w_trace w \<or> (\<exists>i v. i \<notin> wf_id ` set (workflows (db E w)) \<and> ran E payload i w w' \<and> view_of E i w' = Some v)) w"
    by (rule wp_run_commit_pipeline [OF assms(1-3)])
      (auto simp: skipped_def dest: only_redis_keeps, auto simp: ran_def)
  with assms(4) show ?thesis by (simp add: wp_def split: sum.splits)
qed

theorem no_call_before_row_witness:
  "\<exists>r w'. run_commit_pipeline tame_env small_payload (mem_world empty_tables) = (Inr r, w') \<and>
     (w_trace w' = [] \<or> (\<exists>i v. view_of tame_env i w' = Some v))"
proof -
  obtain r w' where run: "run_commit_pipeline tame_env small_payload (mem_world empty_tables) = (Inr r, w')"
    by (rule small_run)
  from no_call_before_row [OF _ _ _ run] run show ?thesis by auto
qed


definition claimed_world :: "(mem_redis_state, mem_pg_state, unit) world" where
  "claimed_world = (mem_world empty_tables)\<lparr>w_redis :=
     \<lparr>mr_lists = (\<lambda>_. []), mr_keys = [claim_key tame_env small_payload \<mapsto> (str_of_int 7, 3600)], mr_time = 0\<rparr>\<rparr>"


text \<open>C2: when the services answer, an unclaimed commit is processed to the end: the run returns,
  its workflow is completed with the four tasks and one approval, and this holds also when the
  vector store, the approvals file and the webhooks fail.\<close>

theorem pipeline_completes:
  assumes "answering E" and "redis_laws (redis E)" and "pg_laws (pg E)" and "tables_ok (db E w)"
    and "text_payload payload" and "held (redis_claims E w (claim_key E payload)) (redis_now E w) = None"
  shows "\<exists>r w' i v. run_commit_pipeline E payload w = (Inr r, w') \<and> ran E payload i w w' \<and>
    view_of E i w' = Some v \<and> succeeded i [''workflow_started''] r v"
proof -
  obtain r w' where run: "run_commit_pipeline E payload w = (Inr r, w')"
    using pipeline_returns [OF assms] by (auto simp: wp_def split: prod.splits sum.splits)
  have "wp (run_commit_pipeline E payload)
    (\<lambda>r w'. \<exists>i v. ran E payload i w w' \<and> view_of E i w' = Some v \<and> succeeded i [''workflow_started''] r v) (\<lambda>_ _. True) w"
    by (rule wp_run_commit_pipeline [OF assms(2-4)]) (use assms(6) in \<open>auto simp: skipped_def\<close>)
  with run show ?thesis by (auto simp: wp_def)
qed

theorem pipeline_completes_witness:
  "\<exists>r w' v. run_commit_pipeline tame_env small_payload (mem_world empty_tables) = (Inr r, w') \<and>
     (\<exists>i. view_of tame_env i w' = Some v \<and> rv_status v = ''completed'')"
  using pipeline_completes [OF tame_answering _ _ _ _, of "mem_world empty_tables" small_payload]
  by (auto simp: text_payload_def small_payload_def get_or_def held_def succeeded_def)

end
