(* ===== verification/Orchestrator.thy ===== *)
theory Orchestrator
  imports Commit_Pipeline
begin

text \<open>
  \<^verbatim>\<open>core/orchestrator/main.py\<close>: the handler registry, the worker loop, the fate of a job, the
  manual trigger, the bind-safety rule, the orphan reaper, the start sequence and the probe. A
  worker is one coroutine; it runs here without interleaving, for the number of turns its stop flag
  allows. Serving HTTP, threads, signals and the shutdown of the event loop's tasks are not
  modelled.
\<close>

section \<open>Jobs and workers\<close>

type_synonym ('r, 'd, 'v) handler = "dict \<Rightarrow> ('r, 'd, 'v, dict) act"

type_synonym ('r, 'd, 'v) registry = "string \<Rightarrow> ('r, 'd, 'v) handler option"

definition register :: "string \<Rightarrow> ('r, 'd, 'v) handler \<Rightarrow> ('r, 'd, 'v) registry \<Rightarrow> ('r, 'd, 'v) registry" where
  "register ty fn H = H(ty \<mapsto> fn)"

text \<open>The registry of a new orchestrator; the demo handler is given.\<close>

definition initial_registry :: "('r, 'd, 'v) env \<Rightarrow> ('r, 'd, 'v) handler \<Rightarrow> ('r, 'd, 'v) registry" where
  "initial_registry E demo =
     register ''demo_request'' demo (register ''commit_pipeline'' (run_commit_pipeline E) (\<lambda>_. None))"

definition bind_job :: "string option \<Rightarrow> ('r, 'd, 'v, string option) act" where
  "bind_job x =
     bnd (asks (\<lambda>w. current_job_id (w_ctx w))) (\<lambda>old.
     thn (modifies (\<lambda>w. w\<lparr>w_ctx := (w_ctx w)\<lparr>current_job_id := x\<rparr>\<rparr>)) (ret old))"

definition reset_job :: "string option \<Rightarrow> ('r, 'd, 'v, unit) act" where
  "reset_job old = modifies (\<lambda>w. w\<lparr>w_ctx := (w_ctx w)\<lparr>current_job_id := old\<rparr>\<rparr>)"

definition run_job :: "('r, 'd, 'v) env \<Rightarrow> ('r, 'd, 'v) registry \<Rightarrow> job \<Rightarrow> ('r, 'd, 'v, unit) act" where
  "run_job E H j =
     (case H (job_type j) of
        None \<Rightarrow> fail_job E j (''no handler for type '' @ py_repr (job_type j))
      | Some h \<Rightarrow>
          bnd (bind_job (Some (job_id j))) (\<lambda>token.
          finally_do
            (try_except
               (bnd (h (job_payload j)) (\<lambda>_. ret ()))
               (\<lambda>e. fail_job E j (str_exn e)))
            (reset_job token)))"

text \<open>
  The loop of a worker. The argument is the number of times it finds the stop flag clear. A
  dequeue that raises is logged and followed by a sleep; what \<open>run_job\<close> raises ends the worker.
\<close>

fun worker :: "('r, 'd, 'v) env \<Rightarrow> ('r, 'd, 'v) registry \<Rightarrow> nat \<Rightarrow> ('r, 'd, 'v, unit) act" where
  "worker E H 0 = ret ()"
| "worker E H (Suc n) =
     bnd (try_except
            (bnd (dequeue E []) (\<lambda>j. ret (Some j)))
            (\<lambda>e. thn (record_call (Slept 1)) (ret None))) (\<lambda>got.
       case got of
         None \<Rightarrow> worker E H n
       | Some None \<Rightarrow> worker E H n
       | Some (Some j) \<Rightarrow> thn (run_job E H j) (worker E H n))"

definition enqueue_manual :: "('r, 'd, 'v) env \<Rightarrow> string \<Rightarrow> dict \<Rightarrow> ('r, 'd, 'v, string) act" where
  "enqueue_manual E ty payload =
     bnd (job_new E ty payload None None) (\<lambda>j.
     bnd (enqueue E j HIGH) (\<lambda>_.
     ret (job_id j)))"

section \<open>Bind safety\<close>

definition loopback_hosts :: "string list" where
  "loopback_hosts = [''127.0.0.1'', ''localhost'', ''::1'']"

definition validate_bind_safety :: "string \<Rightarrow> bool \<Rightarrow> string \<Rightarrow> exn + unit" where
  "validate_bind_safety host allow_remote auth_token =
     (if host \<in> set loopback_hosts then Inr ()
      else if \<not> allow_remote then
        Inl (RuntimeError (''refusing to bind API to non-loopback host '' @ py_repr host @
          ''. Set WISEORDER_API_ALLOW_REMOTE_BIND=true to opt in.''))
      else if auth_token = [] then
        Inl (RuntimeError (''refusing to bind API to '' @ py_repr host @
          '' without auth. Set WISEORDER_API_AUTH_TOKEN to a non-empty secret first.''))
      else Inr ())"

section \<open>The reaper\<close>

definition is_orphan :: "datetime \<Rightarrow> workflow \<Rightarrow> bool" where
  "is_orphan cutoff r \<longleftrightarrow> wf_status r = ''running'' \<and> wf_created_at r < cutoff"

definition interrupted_marker :: "datetime \<Rightarrow> int \<Rightarrow> json" where
  "interrupted_marker t max_age =
     JObj [(''ts'', JStr (isoformat t)), (''event'', JStr ''workflow_interrupted_at_startup''),
           (''data'', JObj [(''reason'', JStr ''orphan reaper''), (''max_age_seconds'', JInt max_age)])]"

definition reap_one :: "('r, 'd, 'v) env \<Rightarrow> json \<Rightarrow> workflow \<Rightarrow> ('r, 'd, 'v, unit) act" where
  "reap_one E marker row =
     bnd (utc_now E) (\<lambda>t.
     bnd (update_workflows E (\<lambda>r. wf_id r = wf_id row)
            (\<lambda>r. r\<lparr>wf_status := ''interrupted'', wf_completed_at := Some t, wf_logs := wf_logs row @ [marker]\<rparr>)) (\<lambda>_.
     bnd (utc_now E) (\<lambda>t'.
     update_tasks E (\<lambda>k. task_workflow_id k = Some (wf_id row) \<and> task_status k = ''running'')
       (\<lambda>k. k\<lparr>task_status := ''interrupted'', task_completed_at := Some t',
            task_error := Some ''orphaned at orchestrator startup''\<rparr>))))"

definition reap_orphan_workflows :: "('r, 'd, 'v) env \<Rightarrow> int \<Rightarrow> ('r, 'd, 'v, int) act" where
  "reap_orphan_workflows E max_age =
     bnd (utc_now E) (\<lambda>now.
     bnd (utc_now E) (\<lambda>stamp.
     session_scope E
       (bnd (select_workflows E (is_orphan (now - seconds max_age)) Unordered None) (\<lambda>rows.
        bnd (for_each rows (reap_one E (interrupted_marker stamp max_age))) (\<lambda>_.
        ret (int (length rows)))))))"

section \<open>Start and probe\<close>

text \<open>The background tasks a start creates, by name, in the order they are created.\<close>

definition background_tasks :: "nat \<Rightarrow> string list" where
  "background_tasks n =
     map (\<lambda>i. ''worker-'' @ str_of_nat i) [0..<n] @
     [''event-watcher'', ''integrity-watcher'', ''ci-watcher'', ''daily-summary-scheduler'', ''api-server'']"

definition start :: "('r, 'd, 'v) env \<Rightarrow> ('r, 'd, 'v, unit) act \<Rightarrow> nat \<Rightarrow> ('r, 'd, 'v, string list) act" where
  "start E init_db num_workers =
     bnd (db_ping E) (\<lambda>db_up.
     if \<not> db_up then raise (RuntimeError (''cannot connect to database: '' @ database_url (cfg E)))
     else
       bnd init_db (\<lambda>_.
       bnd (queue_ping E) (\<lambda>redis_up.
       if \<not> redis_up then raise (RuntimeError (''cannot connect to redis: '' @ redis_url (cfg E)))
       else
         bnd (reap_orphan_workflows E (orphan_workflow_max_age_seconds (cfg E))) (\<lambda>_.
         ret (background_tasks num_workers)))))"

definition probe :: "('r, 'd, 'v) env \<Rightarrow> ('r, 'd, 'v, int) act" where
  "probe E = bnd (db_ping E) (\<lambda>a. bnd (queue_ping E) (\<lambda>b. ret (if a \<and> b then 0 else 2)))"

section \<open>What the reaper does to the tables\<close>

definition reaped_workflow :: "json \<Rightarrow> datetime \<Rightarrow> workflow \<Rightarrow> workflow" where
  "reaped_workflow marker ts r =
     r\<lparr>wf_status := ''interrupted'', wf_completed_at := Some ts, wf_logs := wf_logs r @ [marker]\<rparr>"

definition reaped_task :: "datetime \<Rightarrow> task \<Rightarrow> task" where
  "reaped_task ts k =
     k\<lparr>task_status := ''interrupted'', task_completed_at := Some ts,
       task_error := Some ''orphaned at orchestrator startup''\<rparr>"

text \<open>The workflows with the given ids and their running tasks are reaped, nothing else changes.\<close>

definition reaps :: "int set \<Rightarrow> json \<Rightarrow> tables \<Rightarrow> tables \<Rightarrow> bool" where
  "reaps ids marker t t' \<longleftrightarrow>
     memories t' = memories t \<and> approvals t' = approvals t \<and>
     list_all2 (\<lambda>r r'. if wf_id r \<in> ids then \<exists>ts. r' = reaped_workflow marker ts r else r' = r)
       (workflows t) (workflows t') \<and>
     list_all2 (\<lambda>k k'. if task_status k = ''running'' \<and> task_workflow_id k \<in> Some ` ids then \<exists>ts. k' = reaped_task ts k else k' = k)
       (tasks t) (tasks t')"

lemma reaped_task_simps [simp]:
  "task_status (reaped_task ts k) = ''interrupted''" "task_workflow_id (reaped_task ts k) = task_workflow_id k"
  "task_id (reaped_task ts k) = task_id k"
  by (simp_all add: reaped_task_def)

lemma reaped_workflow_simps [simp]:
  "wf_status (reaped_workflow m ts r) = ''interrupted''" "wf_id (reaped_workflow m ts r) = wf_id r"
  by (simp_all add: reaped_workflow_def)

lemma reaps_none: "reaps {} marker t t"
  by (simp add: reaps_def list.rel_refl)

lemma reaps_step:
  assumes r: "reaps ids marker t0 t" and row: "row \<in> set (workflows t0)" and ok: "tables_ok t0"
    and new: "wf_id row \<notin> ids"
    and t': "t' = tasks_update (map (\<lambda>k. if task_workflow_id k = Some (wf_id row) \<and> task_status k = ''running''
          then reaped_task ts' k else k))
        (workflows_update (map (\<lambda>r. if wf_id r = wf_id row
          then r\<lparr>wf_status := ''interrupted'', wf_completed_at := Some ts, wf_logs := wf_logs row @ [marker]\<rparr> else r)) t)"
  shows "reaps (insert (wf_id row) ids) marker t0 t'"
proof -
  have same: "r = row" if "r \<in> set (workflows t0)" "wf_id r = wf_id row" for r
    using that row ok by (auto simp: tables_ok_def distinct_map dest: inj_onD)
  from r have w: "list_all2 (\<lambda>r r'. if wf_id r \<in> ids then \<exists>ts. r' = reaped_workflow marker ts r else r' = r)
       (workflows t0) (workflows t)"
    and k: "list_all2 (\<lambda>k k'. if task_status k = ''running'' \<and> task_workflow_id k \<in> Some ` ids then \<exists>ts. k' = reaped_task ts k else k' = k)
       (tasks t0) (tasks t)"
    and rest: "memories t = memories t0" "approvals t = approvals t0"
    by (simp_all add: reaps_def)
  have "list_all2 (\<lambda>r r'. if wf_id r \<in> insert (wf_id row) ids then \<exists>ts. r' = reaped_workflow marker ts r else r' = r)
       (workflows t0) (workflows t')"
    unfolding t' by (simp add: list.rel_map, rule list.rel_mono_strong [OF w])
      (use new in \<open>auto simp: reaped_workflow_def dest: same split: if_splits\<close>)
  moreover have "list_all2 (\<lambda>k k'. if task_status k = ''running'' \<and> task_workflow_id k \<in> Some ` insert (wf_id row) ids
       then \<exists>ts. k' = reaped_task ts k else k' = k) (tasks t0) (tasks t')"
  proof -
    have "list_all2 (\<lambda>k k'. if task_status k = ''running'' \<and> task_workflow_id k \<in> Some ` insert (wf_id row) ids
        then \<exists>ts. (if task_workflow_id k' = Some (wf_id row) \<and> task_status k' = ''running'' then reaped_task ts' k' else k') = reaped_task ts k
        else (if task_workflow_id k' = Some (wf_id row) \<and> task_status k' = ''running'' then reaped_task ts' k' else k') = k)
      (tasks t0) (tasks t)"
      by (rule list.rel_mono_strong [OF k]) (auto split: if_splits)
    then show ?thesis unfolding t' by (simp add: list.rel_map)
  qed
  ultimately show ?thesis using rest by (simp add: reaps_def t')
qed

lemma op_reap_one:
  assumes "pg_laws (pg E)"
  shows "session_op E (\<lambda>_. True) (reap_one E marker row)
    (\<lambda>t _ t'. \<exists>ts ts'. t' = tasks_update (map (\<lambda>k. if task_workflow_id k = Some (wf_id row) \<and> task_status k = ''running''
          then reaped_task ts' k else k))
        (workflows_update (map (\<lambda>r. if wf_id r = wf_id row
          then r\<lparr>wf_status := ''interrupted'', wf_completed_at := Some ts, wf_logs := wf_logs row @ [marker]\<rparr> else r)) t))"
  unfolding reap_one_def
  by (rule session_op_weaken [OF session_op_bnd [OF session_op_now session_op_bnd
        [OF session_op_statements(4) [OF assms] session_op_bnd [OF session_op_now session_op_statements(3) [OF assms]]]]])
    (unfold reaped_task_def, blast+)

lemma op_reap:
  assumes "pg_laws (pg E)"
  shows "session_op E (\<lambda>_. True) (for_each rows (reap_one E marker))
    (\<lambda>t _ t'. tables_ok t \<and> set rows \<subseteq> set (workflows t) \<and> distinct (map wf_id rows) \<longrightarrow> reaps (wf_id ` set rows) marker t t')"
proof -
  have "session_op E (\<lambda>_. True) (for_each rows (reap_one E marker))
    (\<lambda>t _ t'. \<forall>zs. tables_ok t \<and> set (rows @ zs) \<subseteq> set (workflows t) \<and> distinct (map wf_id (rows @ zs)) \<longrightarrow>
       reaps (wf_id ` set rows) marker t t')"
  proof (rule session_op_for_each [OF op_reap_one [OF assms]])
    fix ys zs :: "workflow list" and x :: workflow and t0 t t' :: tables
    assume I: "\<forall>zs. tables_ok t0 \<and> set (ys @ zs) \<subseteq> set (workflows t0) \<and> distinct (map wf_id (ys @ zs)) \<longrightarrow>
        reaps (wf_id ` set ys) marker t0 t"
      and "\<exists>ts ts'. t' = tasks_update (map (\<lambda>k. if task_workflow_id k = Some (wf_id x) \<and> task_status k = ''running''
          then reaped_task ts' k else k))
        (workflows_update (map (\<lambda>r. if wf_id r = wf_id x
          then r\<lparr>wf_status := ''interrupted'', wf_completed_at := Some ts, wf_logs := wf_logs x @ [marker]\<rparr> else r)) t)"
    then obtain ts ts' where t': "t' = tasks_update (map (\<lambda>k. if task_workflow_id k = Some (wf_id x) \<and> task_status k = ''running''
          then reaped_task ts' k else k))
        (workflows_update (map (\<lambda>r. if wf_id r = wf_id x
          then r\<lparr>wf_status := ''interrupted'', wf_completed_at := Some ts, wf_logs := wf_logs x @ [marker]\<rparr> else r)) t)" by blast
    show "\<forall>zs. tables_ok t0 \<and> set ((ys @ [x]) @ zs) \<subseteq> set (workflows t0) \<and> distinct (map wf_id ((ys @ [x]) @ zs)) \<longrightarrow>
        reaps (wf_id ` set (ys @ [x])) marker t0 t'"
    proof (intro allI impI, elim conjE)
      fix zs assume ok: "tables_ok t0" and sub: "set ((ys @ [x]) @ zs) \<subseteq> set (workflows t0)"
        and d: "distinct (map wf_id ((ys @ [x]) @ zs))"
      have "reaps (wf_id ` set ys) marker t0 t"
        using I [rule_format, of "x # zs"] ok sub d by simp
      from reaps_step [OF this _ ok _ t'] sub d show "reaps (wf_id ` set (ys @ [x])) marker t0 t'" by auto
    qed
  qed (simp add: reaps_none)
  then show ?thesis by (rule session_op_weaken) (simp, metis append_Nil2)
qed

lemma reaps_facts:
  assumes "reaps ids m t t'"
  shows "map wf_id (workflows t') = map wf_id (workflows t)" and "map task_id (tasks t') = map task_id (tasks t)"
    and "map task_workflow_id (tasks t') = map task_workflow_id (tasks t)"
    and "r' \<in> set (workflows t') \<Longrightarrow> wf_id r' \<in> ids \<Longrightarrow> wf_status r' = ''interrupted''"
    and "r' \<in> set (workflows t') \<Longrightarrow> wf_id r' \<notin> ids \<Longrightarrow> r' \<in> set (workflows t)"
    and "k' \<in> set (tasks t') \<Longrightarrow> task_workflow_id k' \<in> Some ` ids \<Longrightarrow> task_status k' \<noteq> ''running''"
proof -
  from assms have w: "list_all2 (\<lambda>r r'. if wf_id r \<in> ids then \<exists>ts. r' = reaped_workflow m ts r else r' = r)
       (workflows t) (workflows t')"
    and k: "list_all2 (\<lambda>k k'. if task_status k = ''running'' \<and> task_workflow_id k \<in> Some ` ids then \<exists>ts. k' = reaped_task ts k else k' = k)
       (tasks t) (tasks t')"
    by (simp_all add: reaps_def)
  have same: "map f ys = map f xs" if "list_all2 (\<lambda>x y. f y = f x) xs ys" for f :: "'a \<Rightarrow> 'b" and xs ys
    using that by (induction rule: list_all2_induct) simp_all
  show "map wf_id (workflows t') = map wf_id (workflows t)"
    by (rule same, rule list.rel_mono_strong [OF w]) (auto split: if_splits)
  show "map task_id (tasks t') = map task_id (tasks t)"
    "map task_workflow_id (tasks t') = map task_workflow_id (tasks t)"
    by (rule same, rule list.rel_mono_strong [OF k], auto split: if_splits)+
  show "wf_status r' = ''interrupted''" if "r' \<in> set (workflows t')" "wf_id r' \<in> ids"
    using w that by (auto simp: list_all2_conv_all_nth in_set_conv_nth split: if_splits) (metis reaped_workflow_simps)
  show "r' \<in> set (workflows t)" if "r' \<in> set (workflows t')" "wf_id r' \<notin> ids"
    using w that by (auto simp: list_all2_conv_all_nth in_set_conv_nth) (metis reaped_workflow_simps(2))
  show "task_status k' \<noteq> ''running''" if "k' \<in> set (tasks t')" "task_workflow_id k' \<in> Some ` ids"
  proof -
    from that(1) obtain n where n: "n < length (tasks t')" "k' = tasks t' ! n" by (auto simp: in_set_conv_nth)
    with k have "if task_status (tasks t ! n) = ''running'' \<and> task_workflow_id (tasks t ! n) \<in> Some ` ids
      then \<exists>ts. k' = reaped_task ts (tasks t ! n) else k' = tasks t ! n"
      by (simp add: list_all2_conv_all_nth)
    with that(2) show ?thesis by (auto split: if_splits)
  qed
qed

text \<open>The orphans of a cutoff, and a database from which they have been reaped.\<close>

definition orphan_ids :: "datetime \<Rightarrow> tables \<Rightarrow> int set" where
  "orphan_ids cutoff t = wf_id ` set (filter (is_orphan cutoff) (workflows t))"

lemma reaps_clears:
  assumes "reaps (orphan_ids cutoff t) m t t'"
  shows "r \<in> set (workflows t') \<Longrightarrow> \<not> is_orphan cutoff r" and "orphan_ids cutoff t' = {}"
proof -
  show c: "\<not> is_orphan cutoff r" if "r \<in> set (workflows t')" for r
  proof (cases "wf_id r \<in> orphan_ids cutoff t")
    case True
    with reaps_facts(4) [OF assms that] show ?thesis by (simp add: is_orphan_def)
  next
    case False
    with reaps_facts(5) [OF assms that] show ?thesis by (auto simp: orphan_ids_def)
  qed
  then show "orphan_ids cutoff t' = {}" by (auto simp: orphan_ids_def)
qed

lemma reaps_ok:
  assumes "reaps ids m t t'" and "tables_ok t"
  shows "tables_ok t'"
proof -
  from assms(1) have "memories t' = memories t" "approvals t' = approvals t" by (simp_all add: reaps_def)
  with reaps_facts(1-3) [OF assms(1)] assms(2) show ?thesis by (simp add: tables_ok_def)
qed

lemma op_reaper:
  assumes "pg_laws (pg E)"
  shows "session_op E (\<lambda>_. True)
    (bnd (select_workflows E (is_orphan cutoff) Unordered None) (\<lambda>rows.
     bnd (for_each rows (reap_one E marker)) (\<lambda>_. ret (int (length rows)))))
    (\<lambda>t n t'. tables_ok t \<longrightarrow> n = int (length (filter (is_orphan cutoff) (workflows t))) \<and>
       reaps (orphan_ids cutoff t) marker t t')"
proof -
  have rows: "set rows = set (filter (is_orphan cutoff) (workflows t)) \<and> distinct (map wf_id rows) \<and>
      length rows = length (filter (is_orphan cutoff) (workflows t))"
    if m: "mset rows = mset (filter (is_orphan cutoff) (workflows t))" and ok: "tables_ok t" for t and rows :: "workflow list"
  proof -
    have "mset (map wf_id rows) = mset (map wf_id (filter (is_orphan cutoff) (workflows t)))" using m by (simp del: mset_filter)
    with ok have "distinct (map wf_id rows)"
      by (metis distinct_map_filter mset_eq_imp_distinct_iff tables_ok_def)
    with m show ?thesis by (metis mset_eq_setD size_mset)
  qed
  show ?thesis
    by (rule session_op_weaken [OF session_op_bnd [OF session_op_statements(7) [OF assms, where P = "\<lambda>_. True"] session_op_bnd
      [OF op_reap [OF assms, THEN session_op_any] session_op_ret]]])
      (auto simp del: mset_filter simp: orphan_ids_def dest!: rows)
qed

lemma wp_reap_orphans:
  fixes w :: "('r, 'd, 'v) world"
  assumes laws: "pg_laws (pg E)" and ok: "tables_ok (db E w)"
    and ret: "\<And>w'. only_db w w' \<Longrightarrow>
      reaps (orphan_ids (clock E (w_tick w) - seconds a) (db E w))
        (interrupted_marker (clock E (Suc (w_tick w))) a) (db E w) (db E w') \<Longrightarrow>
      Q (int (length (filter (is_orphan (clock E (w_tick w) - seconds a)) (workflows (db E w))))) w'"
    and exc: "\<And>e w'. \<not> pg_healthy (pg E) \<Longrightarrow> only_db w w' \<Longrightarrow> db E w' = db E w \<Longrightarrow> X e w'"
  shows "wp (reap_orphan_workflows E a) Q X w"
proof -
  let ?w = "w\<lparr>w_tick := Suc (Suc (w_tick w))\<rparr>"
  have "only_db ?w w' = only_db w w'" for w' by (simp add: only_db_def)
  then show ?thesis
    unfolding reap_orphan_workflows_def wp_bnd wp_utc_now
    by (simp, intro wp_session_scope_op [OF laws op_reaper [OF laws]]) (use ok ret exc in auto)
qed

section \<open>What becomes of a job\<close>

text \<open>
  What the handler of a job gives in a world, with the job's id bound; a missing handler counts as
  an error with the text \<open>run_job\<close> writes.
\<close>

definition handled :: "('r, 'd, 'v) registry \<Rightarrow> job \<Rightarrow> ('r, 'd, 'v) world \<Rightarrow> (exn + dict) \<times> ('r, 'd, 'v) world" where
  "handled H j w =
     (case H (job_type j) of
        None \<Rightarrow> (Inl (RuntimeError (''no handler for type '' @ py_repr (job_type j))), w)
      | Some h \<Rightarrow> h (job_payload j) (w\<lparr>w_ctx := (w_ctx w)\<lparr>current_job_id := Some (job_id j)\<rparr>\<rparr>))"

abbreviation as_job :: "string option \<Rightarrow> ('r, 'd, 'v) world \<Rightarrow> ('r, 'd, 'v) world" where
  "as_job x w \<equiv> w\<lparr>w_ctx := (w_ctx w)\<lparr>current_job_id := x\<rparr>\<rparr>"

lemma holds_jobs_ctx [simp]:
  "holds_jobs E (w\<lparr>w_ctx := x\<rparr>) c = holds_jobs E w c" "holds_jobs E (w\<lparr>w_tick := n\<rparr>) c = holds_jobs E w c"
  by (simp_all add: holds_jobs_def)

lemma fail_job_ctx: "fail_job E j err w = (r, w') \<Longrightarrow> w_ctx w' = w_ctx w"
  by (auto simp: fail_job_def mem_run split: prod.splits sum.splits)

lemma keeps_fail_job [wp_ops]: "keeps (db E) (fail_job E j err)"
  unfolding fail_job_def by (intro wp_ops)

lemma run_job_cases:
  assumes "handled H j w = (res, w1)" and "run_job E H j w = (out, w')"
  shows "case res of
      Inr _ \<Rightarrow> out = Inr () \<and> w' = as_job (current_job_id (w_ctx w)) w1
    | Inl e \<Rightarrow>
        if e = CancelledError then out = Inl CancelledError \<and> w' = as_job (current_job_id (w_ctx w)) w1
        else \<exists>w2. fail_job E j (str_exn e) w1 = (out, w2) \<and> w' = as_job (current_job_id (w_ctx w)) w2"
proof (cases "H (job_type j)")
  case None
  with assms have "fail_job E j (str_exn (RuntimeError (''no handler for type '' @ py_repr (job_type j)))) w1 = (out, w')"
    and "res = Inl (RuntimeError (''no handler for type '' @ py_repr (job_type j)))" "w1 = w"
    by (auto simp: handled_def run_job_def)
  with fail_job_ctx [of E j _ w1 out w'] show ?thesis by auto
next
  case (Some h)
  with assms have h: "h (job_payload j) (as_job (Some (job_id j)) w) = (res, w1)" by (simp add: handled_def)
  from assms(2) Some show ?thesis
    by (cases res) (auto simp: run_job_def bind_job_def reset_job_def finally_do_def mem_run asks_def h
        split: prod.splits sum.splits if_splits)
qed

section \<open>A worker whose Redis answers\<close>

text \<open>Redis runs every pop and every push.\<close>

definition serves :: "'r redis_ops \<Rightarrow> bool" where
  "serves R \<longleftrightarrow> (\<forall>ks r. \<exists>x r'. rd_blpop R ks r = (Inr x, r')) \<and> (\<forall>k v r. \<exists>r'. rd_rpush R k v r = (Inr (), r'))"

text \<open>
  The handlers leave the queues alone, are not cancelled, and whether they raise (and what)
  depends on the job only.
\<close>

definition judged :: "('r, 'd, 'v) env \<Rightarrow> ('r, 'd, 'v) registry \<Rightarrow> (job \<Rightarrow> string option) \<Rightarrow> bool" where
  "judged E H verdict \<longleftrightarrow>
     (\<forall>j w. case handled H j w of (res, w') \<Rightarrow>
        vw_lists (redis E) (w_redis w') = vw_lists (redis E) (w_redis w) \<and> res \<noteq> Inl CancelledError \<and>
        verdict j = (case res of Inr _ \<Rightarrow> None | Inl e \<Rightarrow> Some (str_exn e)))"

lemma dequeue_answers:
  assumes "redis_laws (redis E)" and "\<And>ks r. \<exists>x r'. rd_blpop (redis E) ks r = (Inr x, r')" and "holds_jobs E w c"
  obtains x w' where "dequeue E [] w = (Inr x, w')"
proof -
  obtain y r where r: "rd_blpop (redis E) (map queue_value [HIGH, NORMAL]) (w_redis w) = (Inr y, r)"
    using assms(2) by blast
  show thesis
  proof (cases y)
    case None
    with r show thesis by (intro that [of None]) (simp add: dequeue_def mem_run)
  next
    case (Some kb)
    obtain k blob where kb: "kb = (k, blob)" by force
    from redis_blpop_Some [OF assms(1) r [unfolded Some kb]] assms(3) have "\<exists>q. vw_lists (redis E) (w_redis w) (queue_value q) = blob # vw_lists (redis E) r k"
      by (auto dest: find_Some_prop split: if_splits)
    then obtain q where "map to_json (c q) = blob # vw_lists (redis E) r k"
      using holds_jobsD(1) [OF assms(3)] by metis
    then obtain j js where "c q = j # js" "blob = to_json j" by (cases "c q") auto
    with holds_jobsD(2) [OF assms(3), of j q] have "from_json blob = Inr j" by (simp add: from_to_json)
    with r Some kb show thesis by (intro that [of "Some j"]) (simp add: dequeue_def mem_run)
  qed
qed

lemma list_deq_default:
  "list_deq (served []) c =
     (case c HIGH @ c NORMAL of
        [] \<Rightarrow> (None, c)
      | j # _ \<Rightarrow> (Some j, if c HIGH = [] then c(NORMAL := tl (c NORMAL)) else c(HIGH := tl (c HIGH))))"
  by (auto simp: served_def list_deq_def split: list.splits)

text \<open>One turn of the worker: it takes the next job, if there is one, and settles it.\<close>

lemma worker_turn:
  assumes laws: "redis_laws (redis E)" and pop: "\<And>ks r. \<exists>x r'. rd_blpop (redis E) ks r = (Inr x, r')"
    and judged: "judged E H verdict" and holds: "holds_jobs E w c"
  obtains (idle) w1 where "list_deq (served []) c = (None, c)" "worker E H (Suc n) w = worker E H n w1" "holds_jobs E w1 c"
  | (good) j c' w1 where "list_deq (served []) c = (Some j, c')" "verdict j = None"
      "worker E H (Suc n) w = worker E H n w1" "holds_jobs E w1 c'"
  | (bad) j c' e w1 b where "list_deq (served []) c = (Some j, c')" "job_ok j" "verdict j = Some e" "holds_jobs E w1 c'"
      "worker E H (Suc n) w = (case fail_job E j e w1 of
          (Inl x, w2) \<Rightarrow> (Inl x, as_job b w2) | (Inr _, w2) \<Rightarrow> worker E H n (as_job b w2))"
proof -
  obtain x w0 where x: "dequeue E [] w = (Inr x, w0)" by (rule dequeue_answers [OF laws pop holds])
  from dequeue_holds [OF laws holds x] have d: "list_deq (served []) c = (x, snd (list_deq (served []) c))"
    and h: "holds_jobs E w0 (snd (list_deq (served []) c))"
    by (simp_all add: prod_eq_iff)
  show thesis
  proof (cases x)
    case None
    have "snd (list_deq (served []) c) = c" using d None by (auto simp: list_deq_default split: list.splits)
    with None x d h show thesis by (intro idle) (simp_all add: mem_run)
  next
    case (Some j)
    obtain res w1 where r: "handled H j w0 = (res, w1)" by force
    obtain out w2 where o: "run_job E H j w0 = (out, w2)" by force
    from judged r have j: "vw_lists (redis E) (w_redis w1) = vw_lists (redis E) (w_redis w0)" "res \<noteq> Inl CancelledError"
      "verdict j = (case res of Inr _ \<Rightarrow> None | Inl e \<Rightarrow> Some (str_exn e))"
      unfolding judged_def by (metis (mono_tags, lifting) case_prod_conv)+
    from h j(1) have h1: "holds_jobs E w1 (snd (list_deq (served []) c))" by (simp add: holds_jobs_def)
    have run: "worker E H (Suc n) w = (case out of Inl e \<Rightarrow> (Inl e, w2) | Inr _ \<Rightarrow> worker E H n w2)"
      using x Some o by (simp add: mem_run split: sum.splits)
    show thesis
    proof (cases res)
      case (Inr v)
      with run_job_cases [OF r o] run j(3) h1 d Some show thesis
        by (intro good [of j _ "as_job (current_job_id (w_ctx w0)) w1"]) simp_all
    next
      case (Inl e)
      have "j \<in> set (c HIGH) \<union> set (c NORMAL)"
        using d Some by (cases "c HIGH"; cases "c NORMAL") (auto simp: list_deq_default)
      then have ok: "job_ok j" using holds_jobsD(2) [OF holds] by blast
      obtain w3 where "fail_job E j (str_exn e) w1 = (out, w3)" "w2 = as_job (current_job_id (w_ctx w0)) w3"
        using run_job_cases [OF r o] Inl j(2) by auto
      with Inl run j(3) h1 d Some ok show thesis
        by (intro bad [of j _ "str_exn e" w1]) (auto split: sum.splits)
    qed
  qed
qed

lemma fail_job_answers:
  assumes "serves (redis E)"
  obtains w' where "fail_job E j err w = (Inr (), w')"
proof -
  obtain r' where "rd_rpush (redis E) (queue_value FAILED) (to_json (mark_failed (clock E (w_tick w)) err j)) (w_redis w) = (Inr (), r')"
    using assms unfolding serves_def by blast
  then show thesis by (intro that) (simp add: fail_job_def mem_run)
qed

text \<open>The queues after \<open>n\<close> turns, with the dead letters they added.\<close>

definition after_turns :: "nat \<Rightarrow> (queue_name \<Rightarrow> job list) \<Rightarrow> job list \<Rightarrow> queue_name \<Rightarrow> job list" where
  "after_turns n c ds =
     c(HIGH := drop n (c HIGH), NORMAL := drop (n - length (c HIGH)) (c NORMAL), FAILED := c FAILED @ ds)"

lemma after_turns_0: "after_turns 0 c [] = c"
  by (simp add: after_turns_def fun_eq_iff)

lemma after_turns_idle:
  "list_deq (served []) c = (None, c) \<Longrightarrow>
     c HIGH @ c NORMAL = [] \<and> after_turns (Suc n) c ds = after_turns n c ds"
  by (auto simp: list_deq_default after_turns_def split: list.splits)

lemma after_turns_step:
  assumes "list_deq (served []) c = (Some j, c')"
  shows "take (Suc n) (c HIGH @ c NORMAL) = j # take n (c' HIGH @ c' NORMAL)"
    and "after_turns (Suc n) c ds = after_turns n c' ds"
    and "c' FAILED = c FAILED"
proof -
  have "(\<exists>js. c HIGH = j # js \<and> c' = c(HIGH := js)) \<or> (\<exists>js. c HIGH = [] \<and> c NORMAL = j # js \<and> c' = c(NORMAL := js))"
    using assms by (cases "c HIGH") (auto simp: list_deq_default split: list.splits)
  then show "take (Suc n) (c HIGH @ c NORMAL) = j # take n (c' HIGH @ c' NORMAL)"
    and "after_turns (Suc n) c ds = after_turns n c' ds" and "c' FAILED = c FAILED"
    by (elim disjE exE conjE, simp_all add: after_turns_def fun_upd_twist)+
qed

lemma after_turns_failed:
  "after_turns n (c(FAILED := c FAILED @ [d])) ds = after_turns n c (d # ds)"
  by (simp add: after_turns_def fun_eq_iff)

lemma worker_drains_list:
  assumes laws: "redis_laws (redis E)" and serves: "serves (redis E)" and judged: "judged E H verdict"
    and holds: "holds_jobs E w c"
  shows "\<exists>w' dead. worker E H n w = (Inr (), w') \<and> holds_jobs E w' (after_turns n c dead) \<and>
     list_all2 (\<lambda>j d. \<exists>t. d = mark_failed t (the (verdict j)) j)
       (filter (\<lambda>j. verdict j \<noteq> None) (take n (c HIGH @ c NORMAL))) dead"
  using holds
proof (induction n arbitrary: w c)
  case 0
  then show ?case by (intro exI [of _ w] exI [of _ "[]"]) (simp add: ret_def after_turns_0)
next
  case (Suc n)
  have pop: "\<And>ks r. \<exists>x r'. rd_blpop (redis E) ks r = (Inr x, r')" using serves by (simp add: serves_def)
  from laws pop judged Suc.prems show ?case
  proof (cases rule: worker_turn [where n = n])
    case (idle w1)
    with Suc.IH [OF idle(3)] after_turns_idle [OF idle(1)] show ?thesis by simp
  next
    case (good j c' w1)
    with Suc.IH [OF good(4)] after_turns_step [OF good(1)] show ?thesis by simp
  next
    case (bad j c' e w1 b)
    obtain w2 where f: "fail_job E j e w1 = (Inr (), w2)" by (rule fail_job_answers [OF serves])
    let ?d = "mark_failed (clock E (w_tick w1)) e j"
    from fail_job_holds [OF laws bad(2) bad(4) f]
    have "holds_jobs E (as_job b w2) (c'(FAILED := c' FAILED @ [?d]))" by simp
    from Suc.IH [OF this] obtain w' dead where IH: "worker E H n (as_job b w2) = (Inr (), w')"
      "holds_jobs E w' (after_turns n c' (?d # dead))"
      "list_all2 (\<lambda>j d. \<exists>t. d = mark_failed t (the (verdict j)) j)
       (filter (\<lambda>j. verdict j \<noteq> None) (take n (c' HIGH @ c' NORMAL))) dead"
      unfolding after_turns_failed by auto
    with bad f after_turns_step [OF bad(1)] show ?thesis
      by (intro exI [of _ w'] exI [of _ "?d # dead"]) auto
  qed
qed

section \<open>Properties\<close>

text \<open>C18: the orphan reaper: when it returns, exactly the workflows that were running and older
  than the cutoff are interrupted, each with the marker as its last log entry, exactly their running
  tasks are interrupted, nothing else in the database has changed, the number it returns is the
  number of those workflows, and none is left. When it raises, the database is not healthy and
  unchanged.\<close>

theorem reaper_closes_orphans:
  assumes "pg_laws (pg E)" and "tables_ok (db E w)" and "reap_orphan_workflows E a w = (out, w')"
    and "cutoff = clock E (w_tick w) - seconds a"
  shows "case out of
      Inr n \<Rightarrow>
        n = int (length (filter (is_orphan cutoff) (workflows (db E w)))) \<and>
        reaps (orphan_ids cutoff (db E w)) (interrupted_marker (clock E (Suc (w_tick w))) a) (db E w) (db E w') \<and>
        orphan_ids cutoff (db E w') = {} \<and> tables_ok (db E w') \<and>
        (\<forall>k\<in>set (tasks (db E w')). task_workflow_id k \<in> Some ` orphan_ids cutoff (db E w) \<longrightarrow> task_status k \<noteq> ''running'')
    | Inl e \<Rightarrow> \<not> pg_healthy (pg E) \<and> db E w' = db E w"
proof -
  let ?m = "interrupted_marker (clock E (Suc (w_tick w))) a"
  have "wp (reap_orphan_workflows E a)
    (\<lambda>n w'. n = int (length (filter (is_orphan cutoff) (workflows (db E w)))) \<and>
       reaps (orphan_ids cutoff (db E w)) ?m (db E w) (db E w'))
    (\<lambda>e w'. \<not> pg_healthy (pg E) \<and> db E w' = db E w) w"
    by (rule wp_reap_orphans [OF assms(1,2)]) (simp_all add: assms(4))
  with assms(3) have "case out of
      Inr n \<Rightarrow> n = int (length (filter (is_orphan cutoff) (workflows (db E w)))) \<and>
        reaps (orphan_ids cutoff (db E w)) ?m (db E w) (db E w')
    | Inl e \<Rightarrow> \<not> pg_healthy (pg E) \<and> db E w' = db E w"
    by (simp add: wp_def split: sum.splits)
  then show ?thesis
    using reaps_clears(2) reaps_facts(6) reaps_ok [OF _ assms(2)] by (fastforce split: sum.splits)
qed

definition orphan_tables :: tables where
  "orphan_tables =
     \<lparr>tasks = [(blank_task ''summarize'')\<lparr>task_id := 3, task_status := ''running'', task_workflow_id := Some 1\<rparr>],
      workflows = [(blank_workflow ''commit_pipeline'')\<lparr>wf_id := 1, wf_status := ''running'', wf_created_at := seconds (-7200)\<rparr>,
                   (blank_workflow ''commit_pipeline'')\<lparr>wf_id := 2, wf_status := ''running''\<rparr>],
      memories = [], approvals = []\<rparr>"

lemma orphan_tables_eval:
  "tables_ok orphan_tables"
  "filter (is_orphan (seconds (- 3600))) (workflows orphan_tables) = [hd (workflows orphan_tables)]"
  by (simp_all add: orphan_tables_def blank_defs tables_ok_def refers_def is_orphan_def time_defs)

theorem reaper_closes_orphans_witness:
  "\<exists>w'. reap_orphan_workflows quiet_env 3600 (mem_world orphan_tables) = (Inr 1, w') \<and>
     orphan_ids (seconds (-3600)) (db quiet_env w') = {}"
proof -
  obtain out w' where r: "reap_orphan_workflows quiet_env 3600 (mem_world orphan_tables) = (out, w')" by force
  from reaper_closes_orphans [OF _ _ r refl] orphan_tables_eval r show ?thesis
    by (auto simp: seconds_def split: sum.splits)
qed


text \<open>A registry whose one handler raises.\<close>

definition failing_registry :: "('r, 'd, 'v) registry" where
  "failing_registry = register ''commit'' (\<lambda>_. raise (RuntimeError ''boom'')) (\<lambda>_. None)"

lemma failing_judged: "judged E failing_registry (\<lambda>j. Some (if job_type j = ''commit'' then ''boom'' else ''no handler for type '' @ py_repr (job_type j)))"
  by (simp add: judged_def handled_def failing_registry_def register_def raise_def)



lemma mem_serves [simp]: "serves mem_redis"
  by (simp add: serves_def mem_redis_run mr_blpop_def split: option.splits)

definition queued_world :: "(mem_redis_state, mem_pg_state, unit) world" where
  "queued_world = (mem_world empty_tables)\<lparr>w_redis :=
     \<lparr>mr_lists = (\<lambda>k. if k = queue_value HIGH then [to_json sample_job] else []), mr_keys = (\<lambda>_. None), mr_time = 0\<rparr>\<rparr>"

lemma queued_holds: "holds_jobs (mem_env s llm http app) queued_world ((\<lambda>_. [])(HIGH := [sample_job]))"
  by (simp add: holds_jobs_def queued_world_def)


text \<open>When the push of a dead letter raises, the exception ends the worker, and the job it had
  taken is in no queue any more.\<close>

theorem lost_dead_letter:
  assumes "redis_laws (redis E)" and "judged E H verdict" and "holds_jobs E w c"
    and "\<forall>ks r. \<exists>x r'. rd_blpop (redis E) ks r = (Inr x, r')" and "\<forall>k v r. rd_rpush (redis E) k v r = (Inl e, r)"
    and "c HIGH = j # js" and "verdict j \<noteq> None"
  shows "\<exists>w'. worker E H (Suc n) w = (Inl e, w') \<and> holds_jobs E w' (c(HIGH := js))"
proof -
  from assms(6) have d: "list_deq (served []) c = (Some j, c(HIGH := js))" by (simp add: list_deq_default)
  have pop: "\<And>ks r. \<exists>x r'. rd_blpop (redis E) ks r = (Inr x, r')" using assms(4) by simp
  from assms(1) pop assms(2,3) show ?thesis
  proof (cases rule: worker_turn [where n = n])
    case (bad j' c' x w1 b)
    obtain w2 where "fail_job E j' x w1 = (Inl e, w2)" "w_redis w2 = w_redis w1"
      using assms(5) by (simp add: fail_job_def mem_run)
    with bad d show ?thesis by (auto simp: holds_jobs_def)
  qed (use assms(7) d in auto)
qed

text \<open>The in-memory services with a Redis that refuses every push.\<close>

definition readonly_env :: "(mem_redis_state, mem_pg_state, unit) env" where
  "readonly_env = quiet_env\<lparr>redis := mem_redis\<lparr>rd_rpush := \<lambda>k v r. (Inl (ServiceError ''READONLY''), r)\<rparr>\<rparr>"

lemma readonly_laws: "redis_laws (redis readonly_env)"
proof -
  have "live (mem_redis\<lparr>rd_rpush := f\<rparr>) r k = live mem_redis r k" for f r k
    by (simp add: live_def split: option.splits)
  with mem_redis_laws show ?thesis
    unfolding redis_laws_def readonly_env_def by simp
qed

theorem lost_dead_letter_witness:
  "\<exists>w'. worker readonly_env failing_registry 1 queued_world = (Inl (ServiceError ''READONLY''), w') \<and>
     holds_jobs readonly_env w' (\<lambda>_. [])"
proof -
  have h: "holds_jobs readonly_env queued_world ((\<lambda>_. [])(HIGH := [sample_job]))"
    using queued_holds [of "default_settings ''/srv''" "\<lambda>_ _. Inl TimeoutError" "\<lambda>_ _ _. Inr (200, [])" "\<lambda>_ _ _. Inr ()"]
    by (simp add: holds_jobs_def readonly_env_def)
  have pop: "\<forall>ks r. \<exists>x r'. rd_blpop (redis readonly_env) ks r = (Inr x, r')"
    by (simp add: readonly_env_def mem_redis_run mr_blpop_def split: option.splits)
  show ?thesis
    using lost_dead_letter [OF readonly_laws failing_judged h pop, of "ServiceError ''READONLY''" sample_job "[]" 0]
    by (simp add: readonly_env_def fun_upd_idem)
qed

text \<open>The API binds a loopback host always, any other host only with the opt-in and a
  non-empty token; every other configuration is refused with a RuntimeError.\<close>

theorem bind_safety:
  "case validate_bind_safety host allow token of
     Inr _ \<Rightarrow> host \<in> {''127.0.0.1'', ''localhost'', ''::1''} \<or> (allow \<and> token \<noteq> [])
   | Inl e \<Rightarrow> host \<notin> {''127.0.0.1'', ''localhost'', ''::1''} \<and> \<not> (allow \<and> token \<noteq> []) \<and> (\<exists>m. e = RuntimeError m)"
  by (auto simp: validate_bind_safety_def loopback_hosts_def)

text \<open>A run of the reaper, as its caller sees it.\<close>

lemma reap_outcome:
  assumes "pg_laws (pg E)" and "tables_ok (db E w)" and "reap_orphan_workflows E age w = (r, w')"
  shows "case r of
      Inl e \<Rightarrow> db E w' = db E w
    | Inr m \<Rightarrow> orphan_ids (clock E (w_tick w) - seconds age) (db E w') = {} \<and>
        reaps (orphan_ids (clock E (w_tick w) - seconds age) (db E w))
          (interrupted_marker (clock E (Suc (w_tick w))) age) (db E w) (db E w')"
proof -
  have "wp (reap_orphan_workflows E age)
    (\<lambda>_ v. reaps (orphan_ids (clock E (w_tick w) - seconds age) (db E w))
       (interrupted_marker (clock E (Suc (w_tick w))) age) (db E w) (db E v)) (\<lambda>_ v. db E v = db E w) w"
    by (rule wp_reap_orphans [OF assms(1,2)]) simp_all
  with assms(3) show ?thesis by (auto simp: wp_def dest: reaps_clears(2) split: sum.splits)
qed



end
