(* ===== verification/Ci_Watcher.thy ===== *)
theory Ci_Watcher
  imports PyTime PyJson "HOL-Library.Char_ord" "HOL-Library.List_Lexorder"
begin

text \<open>
  \<^verbatim>\<open>core/watchers/ci_watcher.py\<close>: the poll of a repository's GitHub Actions runs through
  the \<^verbatim>\<open>gh\<close> tool, the detection of flaky workflows, the bounded history of each repository
  and the poll loop. The tool and the clock are parameters, numbered by the poll; what the poll
  makes of a reply is code of this file. Log output is not modelled.
\<close>

section \<open>Runs and checks\<close>

record workflow_run =
  run_repo :: string
  run_name :: string
  run_status :: string
  run_conclusion :: string
  run_head_sha :: string
  run_created_at :: string
  run_url :: string

record ci_check =
  cc_ts :: string
  cc_repo :: string
  cc_status :: string
  cc_note :: string
  cc_failed_runs :: "workflow_run list"
  cc_in_flight_runs :: "workflow_run list"
  cc_flaky_workflows :: "string list"

text \<open>
  What becomes of the subprocess: \<^verbatim>\<open>shutil.which\<close> finds nothing, the wait times out,
  starting or reading raises, or the tool ends with its return code, the decoded standard output
  (or the error of the strict decoding) and the standard error decoded with replacement.
\<close>

datatype gh_reply =
    Gh_Missing
  | Gh_Timed_Out
  | Gh_Raised exn
  | Gh_Done int "exn + string" string

definition no_attribute :: "string \<Rightarrow> string \<Rightarrow> exn" where
  "no_attribute ty attr =
     AttributeError (squote # ty @ [squote] @ '' object has no attribute '' @ squote # attr @ [squote])"

definition parse_run :: "string \<Rightarrow> json \<Rightarrow> exn + workflow_run" where
  "parse_run repo v =
     (case v of
        JObj d \<Rightarrow>
          Inr \<lparr>run_repo = repo,
               run_name = py_str (get_or d ''name'' (JStr ''?'')),
               run_status = py_str (get_or d ''status'' (JStr ''?'')),
               run_conclusion = (let c = get_or d ''conclusion'' JNull in if truthy c then py_str c else []),
               run_head_sha = py_str (get_or d ''headSha'' (JStr [])),
               run_created_at = py_str (get_or d ''createdAt'' (JStr [])),
               run_url = py_str (get_or d ''url'' (JStr []))\<rparr>
      | _ \<Rightarrow> Inl (no_attribute (type_name v) ''get''))"

fun parse_runs :: "string \<Rightarrow> json list \<Rightarrow> exn + workflow_run list" where
  "parse_runs repo [] = Inr []"
| "parse_runs repo (v # vs) =
     (case parse_run repo v of
        Inl e \<Rightarrow> Inl e
      | Inr r \<Rightarrow> (case parse_runs repo vs of Inl e \<Rightarrow> Inl e | Inr rs \<Rightarrow> Inr (r # rs)))"

text \<open>
  The comprehension over \<^verbatim>\<open>runs_data\<close>: a list gives its items, a dict its keys, a text its
  characters (texts both, which have no \<^verbatim>\<open>get\<close>), anything else cannot be iterated.
\<close>

definition runs_of :: "string \<Rightarrow> json \<Rightarrow> exn + workflow_run list" where
  "runs_of repo v =
     (case v of
        JList xs \<Rightarrow> parse_runs repo xs
      | JObj kvs \<Rightarrow> parse_runs repo (map (\<lambda>(k, _). JStr k) kvs)
      | JStr s \<Rightarrow> parse_runs repo (map (\<lambda>c. JStr [c]) s)
      | _ \<Rightarrow> Inl (TypeError (squote # type_name v @ squote # '' object is not iterable'')))"

section \<open>Flaky workflows\<close>

text \<open>
  The dict \<^verbatim>\<open>seen\<close> from (name, sha) to the set of conclusions, and the names with both a
  failure and a success on one sha, sorted.
\<close>

definition settled :: "workflow_run \<Rightarrow> bool" where
  "settled r \<longleftrightarrow> run_status r = ''completed'' \<and> run_conclusion r \<noteq> []"

definition note_conclusion ::
  "workflow_run \<Rightarrow> ((string \<times> string) \<times> string list) list \<Rightarrow> ((string \<times> string) \<times> string list) list" where
  "note_conclusion r seen =
     (if \<not> settled r then seen
      else
        let k = (run_name r, run_head_sha r);
            old = (case map_of seen k of None \<Rightarrow> [] | Some cs \<Rightarrow> cs)
        in AList.update k (List.insert (run_conclusion r) old) seen)"

definition detect_flaky_workflows :: "workflow_run list \<Rightarrow> string list" where
  "detect_flaky_workflows runs =
     sort (remdups
       [name. ((name, sha), cs) \<leftarrow> fold note_conclusion runs [], ''failure'' \<in> set cs \<and> ''success'' \<in> set cs])"

section \<open>One check\<close>

definition error_check :: "string \<Rightarrow> string \<Rightarrow> string \<Rightarrow> ci_check" where
  "error_check ts repo note =
     \<lparr>cc_ts = ts, cc_repo = repo, cc_status = ''ERROR'', cc_note = note, cc_failed_runs = [],
      cc_in_flight_runs = [], cc_flaky_workflows = []\<rparr>"

definition failed_runs :: "workflow_run list \<Rightarrow> workflow_run list" where
  "failed_runs runs = filter (\<lambda>r. run_status r = ''completed'' \<and> run_conclusion r = ''failure'') runs"

definition in_flight_runs :: "workflow_run list \<Rightarrow> workflow_run list" where
  "in_flight_runs runs = filter (\<lambda>r. run_status r \<in> {''queued'', ''in_progress''}) runs"

definition check_of_runs :: "string \<Rightarrow> string \<Rightarrow> workflow_run list \<Rightarrow> ci_check" where
  "check_of_runs ts repo runs =
     (let failed = failed_runs runs;
          in_flight = in_flight_runs runs;
          flaky = detect_flaky_workflows runs;
          (status, note) =
            (if failed \<noteq> [] \<or> flaky \<noteq> [] then
               (''WARN'', str_of_nat (length failed) @ '' failed run(s), '' @ str_of_nat (length flaky) @ '' flaky workflow(s)'')
             else if in_flight \<noteq> [] then (''OK'', str_of_nat (length in_flight) @ '' run(s) in flight'')
             else (''OK'', ''all recent runs green''))
      in \<lparr>cc_ts = ts, cc_repo = repo, cc_status = status, cc_note = note, cc_failed_runs = take 5 failed,
          cc_in_flight_runs = take 5 in_flight, cc_flaky_workflows = flaky\<rparr>)"

definition check_one :: "string \<Rightarrow> string \<Rightarrow> gh_reply \<Rightarrow> exn + ci_check" where
  "check_one ts repo reply =
     (case reply of
        Gh_Missing \<Rightarrow> Inr (error_check ts repo ''gh CLI not installed'')
      | Gh_Timed_Out \<Rightarrow> Inr (error_check ts repo ''gh run list timed out (30s)'')
      | Gh_Raised e \<Rightarrow>
          if is_Exception e then Inr (error_check ts repo (''gh subprocess error: '' @ str_exn e)) else Inl e
      | Gh_Done rc out err \<Rightarrow>
          if rc \<noteq> 0 then
            let text = py_strip err in
            Inr (error_check ts repo
              (if contains ''auth'' (py_lower text) then ''gh not authenticated''
               else ''gh rc='' @ str_of_int rc @ '': '' @ take 200 text))
          else
            (case out of
               Inl e \<Rightarrow> Inl e
             | Inr text \<Rightarrow>
                 (case loads_or_raise text of
                    Inl e \<Rightarrow> Inr (error_check ts repo (''json parse: '' @ str_exn e))
                  | Inr v \<Rightarrow>
                      (case runs_of repo v of Inl e \<Rightarrow> Inl e | Inr runs \<Rightarrow> Inr (check_of_runs ts repo runs)))))"

section \<open>The watcher\<close>

text \<open>
  \<^verbatim>\<open>__init__\<close>: the repositories from the environment variable, from the argument, or the
  default ones; a history for each.
\<close>

definition default_repos :: "string list" where
  "default_repos = [''Wise-Est-Systems/wiseorder-protocol'', ''Wise-Est-Systems/wiseorder'']"

definition configured_repos :: "string \<Rightarrow> string list option \<Rightarrow> string list" where
  "configured_repos env_repos repos =
     (if py_strip env_repos \<noteq> [] then [py_strip r. r \<leftarrow> split_on (CHR '','') env_repos, py_strip r \<noteq> []]
      else (case repos of Some rs \<Rightarrow> rs | None \<Rightarrow> default_repos))"

record ci_state =
  ci_history :: "(string \<times> ci_check list) list"
  ci_polls :: nat

definition new_ci_watcher :: "string list \<Rightarrow> ci_state" where
  "new_ci_watcher repos = \<lparr>ci_history = fold (\<lambda>r. AList.update r []) repos [], ci_polls = 0\<rparr>"

definition record_check :: "string \<Rightarrow> ci_check \<Rightarrow> (string \<times> ci_check list) list \<Rightarrow> (string \<times> ci_check list) list" where
  "record_check repo c hist =
     (let cs = (case map_of hist repo of None \<Rightarrow> [] | Some cs \<Rightarrow> cs) @ [c]
      in AList.update repo (if length cs > 50 then last_n 50 cs else cs) hist)"

text \<open>The replies of the tool and the times, by the number of the poll.\<close>

record ci_env =
  gh_run_list :: "string \<Rightarrow> nat \<Rightarrow> gh_reply"
  ci_clock :: "nat \<Rightarrow> datetime"

definition ci_poll :: "ci_env \<Rightarrow> string \<Rightarrow> nat \<Rightarrow> exn + ci_check" where
  "ci_poll P repo n = check_one (isoformat (ci_clock P n)) repo (gh_run_list P repo n)"

definition check_repo :: "ci_env \<Rightarrow> string \<Rightarrow> (ci_state, unit) io" where
  "check_repo P repo =
     bnd (asks ci_polls) (\<lambda>n.
     thn (modifies (\<lambda>st. st\<lparr>ci_polls := Suc n\<rparr>))
       (bnd (lift_sum (ci_poll P repo n)) (\<lambda>c.
        modifies (\<lambda>st. st\<lparr>ci_history := record_check repo c (ci_history st)\<rparr>))))"

definition check_all :: "ci_env \<Rightarrow> string list \<Rightarrow> (ci_state, unit) io" where
  "check_all P repos = for_each repos (check_repo P)"

text \<open>The loop, for \<open>n\<close> intervals that elapse before the stop.\<close>

fun ci_run :: "ci_env \<Rightarrow> string list \<Rightarrow> nat \<Rightarrow> (ci_state, unit) io" where
  "ci_run P repos 0 = check_all P repos"
| "ci_run P repos (Suc n) = thn (ci_run P repos n) (check_all P repos)"

section \<open>What the flaky detection finds\<close>

text \<open>The conclusions that settled runs of one workflow on one commit ended with.\<close>

definition conclusions :: "workflow_run list \<Rightarrow> string \<times> string \<Rightarrow> string set" where
  "conclusions runs k = run_conclusion ` {r \<in> set runs. settled r \<and> (run_name r, run_head_sha r) = k}"

lemma conclusions_Cons:
  "conclusions (r # runs) k =
     (if settled r \<and> (run_name r, run_head_sha r) = k then insert (run_conclusion r) (conclusions runs k) else conclusions runs k)"
  by (auto simp: conclusions_def)

lemma note_conclusion_lookup:
  "(case map_of (note_conclusion r seen) k of None \<Rightarrow> {} | Some cs \<Rightarrow> set cs) =
     (case map_of seen k of None \<Rightarrow> {} | Some cs \<Rightarrow> set cs) \<union>
       (if settled r \<and> (run_name r, run_head_sha r) = k then {run_conclusion r} else {})"
  by (auto simp: note_conclusion_def Let_def update_conv' split: option.splits)

lemma note_conclusion_keys:
  "distinct (map fst seen) \<Longrightarrow> distinct (map fst (note_conclusion r seen))"
  by (simp add: note_conclusion_def Let_def distinct_update)

lemma fold_note_conclusion:
  "(case map_of (fold note_conclusion runs seen) k of None \<Rightarrow> {} | Some cs \<Rightarrow> set cs) =
     (case map_of seen k of None \<Rightarrow> {} | Some cs \<Rightarrow> set cs) \<union> conclusions runs k"
  by (induction runs arbitrary: seen)
    (auto simp: note_conclusion_lookup conclusions_Cons, simp_all add: conclusions_def)

lemma fold_note_keys: "distinct (map fst seen) \<Longrightarrow> distinct (map fst (fold note_conclusion runs seen))"
  by (induction runs arbitrary: seen) (simp_all add: note_conclusion_keys)

lemma set_detect_flaky:
  "set (detect_flaky_workflows runs) = {name. \<exists>sha. {''failure'', ''success''} \<subseteq> conclusions runs (name, sha)}"
proof -
  let ?seen = "fold note_conclusion runs []"
  have d: "distinct (map fst ?seen)" by (rule fold_note_keys) simp
  have look: "conclusions runs k = (case map_of ?seen k of None \<Rightarrow> {} | Some cs \<Rightarrow> set cs)" for k
    using fold_note_conclusion [of runs "[]" k] by simp
  have "name \<in> set (detect_flaky_workflows runs) \<longleftrightarrow>
      (\<exists>sha cs. ((name, sha), cs) \<in> set ?seen \<and> {''failure'', ''success''} \<subseteq> set cs)" for name
    unfolding detect_flaky_workflows_def by force
  also have "\<dots> name \<longleftrightarrow> (\<exists>sha cs. map_of ?seen (name, sha) = Some cs \<and> {''failure'', ''success''} \<subseteq> set cs)" for name
    using d by simp
  also have "\<dots> name \<longleftrightarrow> (\<exists>sha. {''failure'', ''success''} \<subseteq> conclusions runs (name, sha))" for name
    unfolding look by (auto split: option.splits)
  finally show ?thesis by blast
qed

section \<open>The history\<close>

lemma record_check_lookup:
  "map_of (record_check repo c hist) r =
     (if r = repo then Some (last_n 50 ((case map_of hist repo of None \<Rightarrow> [] | Some cs \<Rightarrow> cs) @ [c])) else map_of hist r)"
  by (auto simp: record_check_def Let_def update_conv' split: option.splits)

text \<open>The checks a sequence of polls made of one repository, oldest first.\<close>

definition checks_of :: "string \<Rightarrow> (string \<times> ci_check) list \<Rightarrow> ci_check list" where
  "checks_of repo polls = map snd (filter (\<lambda>p. fst p = repo) polls)"

lemma checks_of_simps [simp]:
  "checks_of r [] = []" "checks_of r (ps @ qs) = checks_of r ps @ checks_of r qs"
  "checks_of r [(r', c)] = (if r' = r then [c] else [])"
  by (simp_all add: checks_of_def)

text \<open>A state after a sequence of polls from the start.\<close>

definition after_polls :: "string list \<Rightarrow> (string \<times> ci_check) list \<Rightarrow> ci_state \<Rightarrow> bool" where
  "after_polls repos polls st \<longleftrightarrow>
     ci_polls st = length polls \<and> set (map fst polls) \<subseteq> set repos \<and>
     (\<forall>r\<in>set repos. map_of (ci_history st) r = Some (last_n 50 (checks_of r polls)))"

lemma new_ci_history: "map_of (fold (\<lambda>r. AList.update r []) repos hist) r = (if r \<in> set repos then Some [] else map_of hist r)"
  by (induction repos arbitrary: hist) (auto simp: update_conv')

lemma after_polls_new: "after_polls repos [] (new_ci_watcher repos)"
  by (simp add: after_polls_def new_ci_watcher_def new_ci_history)

lemma check_repo_run:
  "check_repo P repo st =
     (case ci_poll P repo (ci_polls st) of
        Inl e \<Rightarrow> (Inl e, st\<lparr>ci_polls := Suc (ci_polls st)\<rparr>)
      | Inr c \<Rightarrow> (Inr (), st\<lparr>ci_polls := Suc (ci_polls st), ci_history := record_check repo c (ci_history st)\<rparr>))"
  by (simp add: check_repo_def bnd_def thn_def asks_def modifies_def lift_sum_def raise_def ret_def split: sum.splits)

lemma after_polls_step:
  assumes "after_polls repos polls st" and "repo \<in> set repos" and "ci_poll P repo (length polls) = Inr c"
  shows "\<exists>st'. check_repo P repo st = (Inr (), st') \<and> after_polls repos (polls @ [(repo, c)]) st'"
  using assms by (auto simp: after_polls_def check_repo_run record_check_lookup last_n_last_n_snoc)

text \<open>The polls of the passes, when every reply can be read.\<close>

definition poll_list :: "ci_env \<Rightarrow> string list \<Rightarrow> nat \<Rightarrow> (string \<times> ci_check) list" where
  "poll_list P repos n = map (\<lambda>k. (repos ! (k mod length repos), projr (ci_poll P (repos ! (k mod length repos)) k))) [0..<n]"

lemma length_poll_list [simp]: "length (poll_list P repos n) = n"
  by (simp add: poll_list_def)

lemma poll_list_Suc:
  "poll_list P repos (Suc n) =
     poll_list P repos n @ [(repos ! (n mod length repos), projr (ci_poll P (repos ! (n mod length repos)) n))]"
  by (simp add: poll_list_def)

lemma check_all_pass:
  assumes "\<forall>r\<in>set repos. \<forall>k. \<exists>c. ci_poll P r k = Inr c" and "after_polls repos (poll_list P repos (p * length repos)) st"
  shows "\<exists>st'. check_all P repos st = (Inr (), st') \<and> after_polls repos (poll_list P repos (Suc p * length repos)) st'"
proof -
  have "\<exists>st'. for_each (drop i repos) (check_repo P) st = (Inr (), st') \<and>
      after_polls repos (poll_list P repos (Suc p * length repos)) st'"
    if "i \<le> length repos" "after_polls repos (poll_list P repos (p * length repos + i)) st" for i st
    using that
  proof (induction "length repos - i" arbitrary: i st)
    case 0
    then show ?case by (simp add: ret_def add.commute)
  next
    case (Suc d)
    then have i: "i < length repos" by simp
    let ?k = "p * length repos + i"
    have m: "?k mod length repos = i" using i by simp
    obtain c where c: "ci_poll P (repos ! i) ?k = Inr c" using assms(1) i by (meson nth_mem)
    from after_polls_step [OF Suc.prems(2), of "repos ! i" P c] c i
    obtain st1 where s: "check_repo P (repos ! i) st = (Inr (), st1)"
      and a: "after_polls repos (poll_list P repos ?k @ [(repos ! i, c)]) st1" by auto
    have "poll_list P repos (p * length repos + Suc i) = poll_list P repos ?k @ [(repos ! i, c)]"
      using c m by (simp add: poll_list_Suc)
    with a have "after_polls repos (poll_list P repos (p * length repos + Suc i)) st1" by simp
    moreover have "d = length repos - Suc i" "Suc i \<le> length repos" using Suc.hyps(2) i by simp_all
    ultimately obtain st2
      where "for_each (drop (Suc i) repos) (check_repo P) st1 = (Inr (), st2)"
        "after_polls repos (poll_list P repos (Suc p * length repos)) st2" using Suc.hyps(1) by blast
    with s i show ?case
      by (simp add: Cons_nth_drop_Suc [symmetric] thn_def bnd_def)
  qed
  from this [of 0 st] assms(2) show ?thesis by (simp add: check_all_def)
qed

lemma ci_run_polls:
  assumes "\<forall>r\<in>set repos. \<forall>k. \<exists>c. ci_poll P r k = Inr c"
  shows "\<exists>st. ci_run P repos n (new_ci_watcher repos) = (Inr (), st) \<and>
    after_polls repos (poll_list P repos (Suc n * length repos)) st"
proof (induction n)
  case 0
  from check_all_pass [OF assms, of 0] show ?case by (simp add: after_polls_new poll_list_def)
next
  case (Suc n)
  then obtain st where st: "ci_run P repos n (new_ci_watcher repos) = (Inr (), st)"
    "after_polls repos (poll_list P repos (Suc n * length repos)) st" by blast
  from check_all_pass [OF assms st(2)] st(1) show ?case by (simp add: thn_def bnd_def)
qed

section \<open>Properties\<close>

text \<open>C32: the flaky detection is exact: the names it gives are, sorted and without repetition,
  those for which a completed run failed and a completed run of the same name on the same commit
  succeeded.\<close>

theorem flaky_workflows_exact:
  "sorted (detect_flaky_workflows runs) \<and> distinct (detect_flaky_workflows runs) \<and>
   set (detect_flaky_workflows runs) =
     {name. \<exists>r\<in>set runs. \<exists>r'\<in>set runs. run_name r = name \<and> run_name r' = name \<and> run_head_sha r = run_head_sha r' \<and>
        run_status r = ''completed'' \<and> run_conclusion r = ''failure'' \<and>
        run_status r' = ''completed'' \<and> run_conclusion r' = ''success''}"
proof (intro conjI)
  show "sorted (detect_flaky_workflows runs)" "distinct (detect_flaky_workflows runs)"
    by (simp_all add: detect_flaky_workflows_def)
  have c: "x \<in> conclusions runs (name, sha) \<longleftrightarrow>
      x \<noteq> [] \<and> (\<exists>r\<in>set runs. run_name r = name \<and> run_head_sha r = sha \<and> run_status r = ''completed'' \<and> run_conclusion r = x)"
    for x name sha by (auto simp: conclusions_def settled_def)
  show "set (detect_flaky_workflows runs) =
     {name. \<exists>r\<in>set runs. \<exists>r'\<in>set runs. run_name r = name \<and> run_name r' = name \<and> run_head_sha r = run_head_sha r' \<and>
        run_status r = ''completed'' \<and> run_conclusion r = ''failure'' \<and>
        run_status r' = ''completed'' \<and> run_conclusion r' = ''success''}"
    unfolding set_detect_flaky by (simp add: c) blast
qed

text \<open>What a poll makes of a reply: a missing tool, a timeout, a failure to run it, a non-zero
  return code and an output that is no JSON are all an ERROR check without runs; runs that were
  read give WARN exactly when one of them failed or a workflow is flaky and OK otherwise, with at
  most five runs of each kind; and only a cancellation, an output that cannot be decoded and JSON that
  is not a list of objects raise.\<close>

theorem ci_check_cases:
  "case check_one ts repo reply of
     Inl e \<Rightarrow>
       reply = Gh_Raised CancelledError \<or>
       (\<exists>out err. reply = Gh_Done 0 out err \<and>
          (case out of Inl e' \<Rightarrow> e = e'
           | Inr text \<Rightarrow> \<exists>v. loads text = Some v \<and> runs_of repo v = Inl e))
   | Inr c \<Rightarrow>
       cc_ts c = ts \<and> cc_repo c = repo \<and>
       (if cc_status c = ''ERROR'' then cc_failed_runs c = [] \<and> cc_in_flight_runs c = [] \<and> cc_flaky_workflows c = []
        else \<exists>text err v runs. reply = Gh_Done 0 (Inr text) err \<and> loads text = Some v \<and> runs_of repo v = Inr runs \<and>
          cc_status c = (if failed_runs runs \<noteq> [] \<or> detect_flaky_workflows runs \<noteq> [] then ''WARN'' else ''OK'') \<and>
          cc_failed_runs c = take 5 (failed_runs runs) \<and> cc_in_flight_runs c = take 5 (in_flight_runs runs) \<and>
          cc_flaky_workflows c = detect_flaky_workflows runs)"
proof (cases reply)
  case (Gh_Done rc out err)
  show ?thesis
  proof (cases "rc = 0 \<and> (\<exists>text v. out = Inr text \<and> loads text = Some v)")
    case True
    then obtain s v where "rc = 0" "out = Inr s" "loads s = Some v" by blast
    with Gh_Done show ?thesis
      by (cases "runs_of repo v") (simp_all add: check_one_def loads_or_raise_def check_of_runs_def Let_def)
  next
    case False
    with Gh_Done show ?thesis
      by (auto simp: check_one_def loads_or_raise_def error_check_def Let_def split: sum.splits option.splits)
  qed
qed (simp_all add: check_one_def error_check_def)

theorem ci_check_cases_witness:
  "\<exists>c. check_one ''now'' ''a/b''
       (Gh_Done 0 (Inr (dumps (JList [JObj [(''name'', JStr ''ci''), (''status'', JStr ''completed''),
          (''conclusion'', JStr ''failure''), (''headSha'', JStr ''1''), (''createdAt'', JStr ''t''), (''url'', JStr ''u'')]]))) [])
       = Inr c \<and> cc_status c = ''WARN'' \<and> length (cc_failed_runs c) = 1 \<and> cc_in_flight_runs c = []"
proof -
  let ?v = "JList [JObj [(''name'', JStr ''ci''), (''status'', JStr ''completed''),
          (''conclusion'', JStr ''failure''), (''headSha'', JStr ''1''), (''createdAt'', JStr ''t''), (''url'', JStr ''u'')]]"
  let ?run = "\<lparr>run_repo = ''a/b'', run_name = ''ci'', run_status = ''completed'', run_conclusion = ''failure'',
      run_head_sha = ''1'', run_created_at = ''t'', run_url = ''u''\<rparr>"
  define out where "out = dumps ?v"
  have l: "loads out = Some ?v" unfolding out_def by (rule loads_dumps) simp
  have r: "runs_of ''a/b'' ?v = Inr [?run]"
    by (simp add: runs_of_def parse_run_def get_or_def)
  obtain c where c: "check_one ''now'' ''a/b'' (Gh_Done 0 (Inr out) []) = Inr c" "cc_status c \<noteq> ''ERROR''"
    by (simp add: check_one_def loads_or_raise_def l r check_of_runs_def Let_def failed_runs_def)
  with ci_check_cases [where reply = "Gh_Done 0 (Inr out) []" and ts = "''now''" and repo = "''a/b''"] l r show ?thesis
    unfolding out_def [symmetric] by (intro exI [of _ c]) (simp add: failed_runs_def in_flight_runs_def)
qed

text \<open>The history of a repository is the last 50 checks made of it, in the order they were
  made: after \<open>n\<close> intervals, when every reply can be read, the watcher has polled every repository
  \<open>n + 1\<close> times in rounds and keeps of each exactly the most recent 50 results.\<close>

theorem ci_history_is_recent:
  assumes "distinct repos" and "i < length repos" and "\<forall>r\<in>set repos. \<forall>k. \<exists>c. ci_poll P r k = Inr c"
  shows "\<exists>st. ci_run P repos n (new_ci_watcher repos) = (Inr (), st) \<and> ci_polls st = (n + 1) * length repos \<and>
    map_of (ci_history st) (repos ! i) =
      Some (last_n 50 (map (\<lambda>p. projr (ci_poll P (repos ! i) (p * length repos + i))) [0..<Suc n]))"
proof -
  let ?L = "length repos" and ?f = "\<lambda>k. projr (ci_poll P (repos ! (k mod length repos)) k)"
  have round: "checks_of (repos ! i) (poll_list P repos (q * ?L + j)) =
      map (\<lambda>p. ?f (p * ?L + i)) [0..<q] @ (if i < j then [?f (q * ?L + i)] else [])"
    if "checks_of (repos ! i) (poll_list P repos (q * ?L)) = map (\<lambda>p. ?f (p * ?L + i)) [0..<q]" "j \<le> ?L" for q j
    using that(2)
  proof (induction j)
    case 0
    with that(1) show ?case by simp
  next
    case (Suc j)
    then have "repos ! j = repos ! i \<longleftrightarrow> j = i" using assms(1,2) by (simp add: nth_eq_iff_index_eq)
    with Suc show ?case by (auto simp: poll_list_Suc)
  qed
  have all: "checks_of (repos ! i) (poll_list P repos (q * ?L)) = map (\<lambda>p. ?f (p * ?L + i)) [0..<q]" for q
  proof (induction q)
    case 0
    then show ?case by (simp add: poll_list_def)
  next
    case (Suc q)
    from round [OF Suc, of ?L] assms(2) show ?case by (simp add: add.commute)
  qed
  from ci_run_polls [OF assms(3), of n] obtain st where "ci_run P repos n (new_ci_watcher repos) = (Inr (), st)"
    "after_polls repos (poll_list P repos (Suc n * ?L)) st" by blast
  moreover have "map (\<lambda>p. ?f (p * ?L + i)) [0..<Suc n] = map (\<lambda>p. projr (ci_poll P (repos ! i) (p * ?L + i))) [0..<Suc n]"
    using assms(2) by simp
  ultimately show ?thesis
    using all [of "Suc n"] assms(2) by (intro exI [of _ st]) (simp add: after_polls_def del: upt_Suc)
qed

theorem ci_history_is_recent_witness:
  "\<exists>st. ci_run \<lparr>gh_run_list = \<lambda>_ _. Gh_Missing, ci_clock = \<lambda>n. seconds (int n)\<rparr> [''a/b'', ''c/d''] 60
      (new_ci_watcher [''a/b'', ''c/d'']) = (Inr (), st) \<and> ci_polls st = 122 \<and>
    (\<exists>cs. map_of (ci_history st) ''c/d'' = Some cs \<and> length cs = 50)"
proof -
  let ?P = "\<lparr>gh_run_list = \<lambda>_ _. Gh_Missing, ci_clock = \<lambda>n. seconds (int n)\<rparr>" and ?rs = "[''a/b'', ''c/d'']"
  have "\<forall>r\<in>set ?rs. \<forall>k. \<exists>c. ci_poll ?P r k = Inr c" by (simp add: ci_poll_def check_one_def)
  from ci_history_is_recent [of ?rs 1, OF _ _ this, of 60] obtain st cs
    where "ci_run ?P ?rs 60 (new_ci_watcher ?rs) = (Inr (), st)" "ci_polls st = 122"
      "map_of (ci_history st) ''c/d'' = Some cs" "length cs = 50"
    by (auto simp del: upt_Suc)
  then show ?thesis by blast
qed

end
