(* ===== verification/Integrity_Watcher.thy ===== *)
theory Integrity_Watcher
  imports PyTime
begin

text \<open>
  \<^verbatim>\<open>core/watchers/integrity_watcher.py\<close>: the poll of a protocol chain, its bounded history
  and the last known head. The chain directory, the import of the protocol package and its
  \<^verbatim>\<open>verify_chain\<close> are code that is not in the repository: what they answer at a poll is a
  parameter. Log output is not modelled.
\<close>

section \<open>Checks\<close>

record integrity_check =
  ic_ts :: string
  ic_status :: string
  ic_count :: int
  ic_head :: "string option"
  ic_chain_dir :: string
  ic_note :: string

text \<open>
  What a poll meets: no chain directory, no importable verifier (with the text of the
  ImportError), a verifier that raises (the name of the exception's class and the exception), or a
  result with its status, count, head and reason.
\<close>

datatype chain_reply =
    No_Chain_Dir
  | No_Verifier string
  | Verifier_Raised string exn
  | Verified string int "string option" "string option"

definition chain_error :: "string \<Rightarrow> string \<Rightarrow> string \<Rightarrow> integrity_check" where
  "chain_error ts dir note =
     \<lparr>ic_ts = ts, ic_status = ''ERROR'', ic_count = 0, ic_head = None, ic_chain_dir = dir, ic_note = note\<rparr>"

definition verify_once :: "string \<Rightarrow> string \<Rightarrow> chain_reply \<Rightarrow> exn + integrity_check" where
  "verify_once dir ts reply =
     (case reply of
        No_Chain_Dir \<Rightarrow> Inr (chain_error ts dir (''chain directory not found: '' @ dir))
      | No_Verifier m \<Rightarrow>
          Inr (chain_error ts dir
            (''cannot import protocol verifier: '' @ m @ ''. Set WISEORDER_PROTOCOL_DIR to a clone of wiseorder-protocol.''))
      | Verifier_Raised cls e \<Rightarrow>
          if is_Exception e then Inr (chain_error ts dir (''verify_chain raised: '' @ cls @ '': '' @ str_exn e)) else Inl e
      | Verified status n head reason \<Rightarrow>
          Inr \<lparr>ic_ts = ts, ic_status = status, ic_count = n, ic_head = head, ic_chain_dir = dir,
               ic_note = (case reason of None \<Rightarrow> [] | Some r \<Rightarrow> r)\<rparr>)"

section \<open>The watcher\<close>

record integrity_state =
  iw_history :: "integrity_check list"
  iw_last_head :: "string option"
  iw_polls :: nat

definition new_integrity_watcher :: integrity_state where
  "new_integrity_watcher = \<lparr>iw_history = [], iw_last_head = None, iw_polls = 0\<rparr>"

text \<open>\<^verbatim>\<open>chain_dir\<close>: the path of the chain below the protocol repository.\<close>

definition chain_dir :: "string \<Rightarrow> string \<Rightarrow> string" where
  "chain_dir protocol_dir chain_rel = protocol_dir @ ''/'' @ chain_rel"

record integrity_env =
  iw_dir :: string
  iw_reply :: "nat \<Rightarrow> chain_reply"
  iw_clock :: "nat \<Rightarrow> datetime"

definition iw_poll :: "integrity_env \<Rightarrow> nat \<Rightarrow> exn + integrity_check" where
  "iw_poll P n = verify_once (iw_dir P) (isoformat (iw_clock P n)) (iw_reply P n)"

text \<open>The part of \<^verbatim>\<open>_check_once\<close> after the verification.\<close>

definition note_check :: "integrity_check \<Rightarrow> integrity_state \<Rightarrow> integrity_state" where
  "note_check c st =
     (let hist = iw_history st @ [c];
          st1 = st\<lparr>iw_history := (if length hist > 100 then last_n 100 hist else hist)\<rparr>
      in if ic_head c \<noteq> iw_last_head st1 \<and> ic_head c \<noteq> None \<and> ic_status c = ''CHAIN_VALID''
         then st1\<lparr>iw_last_head := ic_head c\<rparr> else st1)"

definition check_once :: "integrity_env \<Rightarrow> (integrity_state, integrity_check) io" where
  "check_once P =
     bnd (asks iw_polls) (\<lambda>n.
     thn (modifies (\<lambda>st. st\<lparr>iw_polls := Suc n\<rparr>))
       (bnd (lift_sum (iw_poll P n)) (\<lambda>c.
        thn (modifies (note_check c)) (ret c))))"

text \<open>The loop, for \<open>n\<close> intervals that elapse before the stop.\<close>

fun integrity_run :: "integrity_env \<Rightarrow> nat \<Rightarrow> (integrity_state, unit) io" where
  "integrity_run P 0 = bnd (check_once P) (\<lambda>_. ret ())"
| "integrity_run P (Suc n) = thn (integrity_run P n) (bnd (check_once P) (\<lambda>_. ret ()))"

section \<open>What the state holds\<close>

text \<open>The heads of the valid checks, oldest first.\<close>

definition valid_heads :: "integrity_check list \<Rightarrow> string list" where
  "valid_heads cs = [h. c \<leftarrow> cs, ic_status c = ''CHAIN_VALID'', h \<leftarrow> (case ic_head c of None \<Rightarrow> [] | Some h \<Rightarrow> [h])]"

definition last_opt :: "'a list \<Rightarrow> 'a option" where
  "last_opt xs = (if xs = [] then None else Some (last xs))"

lemma valid_heads_snoc:
  "valid_heads (cs @ [c]) = valid_heads cs @ (if ic_status c = ''CHAIN_VALID'' then case ic_head c of None \<Rightarrow> [] | Some h \<Rightarrow> [h] else [])"
  by (simp add: valid_heads_def)

definition after_checks :: "integrity_check list \<Rightarrow> integrity_state \<Rightarrow> bool" where
  "after_checks cs st \<longleftrightarrow>
     iw_polls st = length cs \<and> iw_history st = last_n 100 cs \<and> iw_last_head st = last_opt (valid_heads cs)"

lemma after_checks_new: "after_checks [] new_integrity_watcher"
  by (simp add: after_checks_def new_integrity_watcher_def valid_heads_def last_opt_def)

lemma note_check_fields:
  "iw_polls (note_check c st) = iw_polls st" "iw_history (note_check c st) = last_n 100 (iw_history st @ [c])"
  "iw_last_head (note_check c st) =
     (if ic_head c \<noteq> None \<and> ic_status c = ''CHAIN_VALID'' then ic_head c else iw_last_head st)"
  by (auto simp: note_check_def Let_def)

lemma after_checks_step:
  assumes "after_checks cs st" and "iw_poll P (length cs) = Inr c"
  shows "\<exists>st'. check_once P st = (Inr c, st') \<and> after_checks (cs @ [c]) st'"
proof -
  have "check_once P st = (Inr c, note_check c (st\<lparr>iw_polls := Suc (length cs)\<rparr>))"
    using assms by (simp add: after_checks_def check_once_def bnd_def thn_def asks_def modifies_def lift_sum_def ret_def)
  moreover from assms(1) have "after_checks (cs @ [c]) (note_check c (st\<lparr>iw_polls := Suc (length cs)\<rparr>))"
    by (auto simp: after_checks_def note_check_fields last_n_last_n_snoc valid_heads_snoc last_opt_def)
  ultimately show ?thesis by blast
qed

lemma integrity_run_polls:
  assumes "\<forall>k. \<exists>c. iw_poll P k = Inr c"
  shows "\<exists>st. integrity_run P n new_integrity_watcher = (Inr (), st) \<and>
    after_checks (map (\<lambda>k. projr (iw_poll P k)) [0..<Suc n]) st"
proof (induction n)
  case 0
  obtain c where c: "iw_poll P 0 = Inr c" using assms by blast
  with after_checks_step [OF after_checks_new, of P c] obtain st
    where "check_once P new_integrity_watcher = (Inr c, st)" "after_checks [c] st" by auto
  with c show ?case by (auto simp: bnd_def ret_def)
next
  case (Suc n)
  let ?cs = "map (\<lambda>k. projr (iw_poll P k)) [0..<Suc n]"
  obtain c where c: "iw_poll P (Suc n) = Inr c" using assms by blast
  from Suc obtain st where st: "integrity_run P n new_integrity_watcher = (Inr (), st)" "after_checks ?cs st" by blast
  from after_checks_step [OF st(2), of P c] c obtain st'
    where "check_once P st = (Inr c, st')" "after_checks (?cs @ [c]) st'" by auto
  with st(1) c show ?case by (auto simp: thn_def bnd_def ret_def)
qed

section \<open>Properties\<close>

text \<open>The integrity watcher's state: after \<open>n\<close> intervals, whatever the chain and its verifier
  answer (a cancellation apart), the watcher has made \<open>n + 1\<close> checks without raising, keeps exactly
  the most recent 100 of them in order, and the last known head is the head of the latest valid
  check that had one, unaffected by errors and by tampered or empty chains in between.\<close>

theorem integrity_state_is_recent:
  assumes "\<forall>k cls. iw_reply P k \<noteq> Verifier_Raised cls CancelledError"
  shows "\<exists>st cs. integrity_run P n new_integrity_watcher = (Inr (), st) \<and> length cs = n + 1 \<and>
    list_all2 (\<lambda>k c. verify_once (iw_dir P) (isoformat (iw_clock P k)) (iw_reply P k) = Inr c) [0..<n + 1] cs \<and>
    iw_history st = last_n 100 cs \<and> iw_last_head st = last_opt (valid_heads cs)"
proof -
  have ok: "\<exists>c. iw_poll P k = Inr c" for k
    using assms by (auto simp: iw_poll_def verify_once_def split: chain_reply.splits)
  let ?cs = "map (\<lambda>k. projr (iw_poll P k)) [0..<Suc n]"
  from integrity_run_polls [of P n] ok obtain st
    where "integrity_run P n new_integrity_watcher = (Inr (), st)" "after_checks ?cs st" by blast
  moreover have "list_all2 (\<lambda>k c. iw_poll P k = Inr c) [0..<Suc n] ?cs"
    unfolding list.rel_map by (rule list.rel_refl_strong) (metis ok sum.sel(2))
  ultimately show ?thesis
    by (intro exI [of _ st] exI [of _ ?cs]) (simp add: after_checks_def iw_poll_def del: upt_Suc)
qed

theorem integrity_state_is_recent_witness:
  "\<exists>st. integrity_run \<lparr>iw_dir = ''/p/chain'',
       iw_reply = (\<lambda>n. if n = 0 then Verified ''CHAIN_VALID'' 3 (Some ''ab'') None else No_Chain_Dir),
       iw_clock = (\<lambda>n. seconds (int n))\<rparr> 2 new_integrity_watcher = (Inr (), st) \<and>
     iw_last_head st = Some ''ab'' \<and> map ic_status (iw_history st) = [''CHAIN_VALID'', ''ERROR'', ''ERROR'']"
proof -
  let ?P = "\<lparr>iw_dir = ''/p/chain'', iw_reply = (\<lambda>n. if n = 0 then Verified ''CHAIN_VALID'' 3 (Some ''ab'') None else No_Chain_Dir),
       iw_clock = (\<lambda>n. seconds (int n))\<rparr>"
  have "\<forall>k cls. iw_reply ?P k \<noteq> Verifier_Raised cls CancelledError" by simp
  from integrity_state_is_recent [OF this, of 2] obtain st cs
    where run: "integrity_run ?P 2 new_integrity_watcher = (Inr (), st)" and len: "length cs = 2 + 1"
    and cs: "list_all2 (\<lambda>k c. verify_once (iw_dir ?P) (isoformat (iw_clock ?P k)) (iw_reply ?P k) = Inr c) [0..<2 + 1] cs"
    and st: "iw_history st = last_n 100 cs" "iw_last_head st = last_opt (valid_heads cs)"
    by blast
  have "[0..<2 + 1] = [0, 1, 2::nat]" by (simp add: upt_rec)
  with cs obtain a b c where "cs = [a, b, c]" "ic_status a = ''CHAIN_VALID''" "ic_head a = Some ''ab''"
    "ic_status b = ''ERROR''" "ic_status c = ''ERROR''"
    by (auto simp: list_all2_Cons1 verify_once_def chain_error_def)
  with run st show ?thesis by (intro exI [of _ st]) (simp add: valid_heads_def last_opt_def)
qed

end
