(* ===== verification/Event_Watcher.thy ===== *)
theory Event_Watcher
  imports Queue
begin

text \<open>
  \<^verbatim>\<open>core/events/watcher.py\<close>: the head handler of a repository, the reconciliation after the
  observer has started, the reading of a commit and the job it becomes. Git and the file-system
  observer are not in the repository: what \<^verbatim>\<open>git\<close> answers is a parameter, and an event of
  the observer is an argument. The handler runs in the observer's thread and hands its emissions to
  the event loop; here an emission is a value that \<open>emit_commit\<close> runs. Paths are taken as
  \<^verbatim>\<open>pathlib\<close> prints them.
\<close>

section \<open>Reading git\<close>

text \<open>The exceptions the readers catch; any other one passes.\<close>

fun git_caught :: "exn \<Rightarrow> bool" where
  "git_caught (FileNotFoundError m) = True"
| "git_caught (CalledProcessError m) = True"
| "git_caught _ = False"

text \<open>\<^verbatim>\<open>_current_head_sha\<close>, from what \<^verbatim>\<open>git rev-parse HEAD\<close> gave.\<close>

definition current_head_sha :: "exn + string \<Rightarrow> exn + string option" where
  "current_head_sha reply =
     (case reply of
        Inr out \<Rightarrow> Inr (Some (py_strip out))
      | Inl e \<Rightarrow> if git_caught e then Inr None else Inl e)"

record git_ops =
  git_author :: "string \<Rightarrow> string \<Rightarrow> nat \<Rightarrow> exn + string"
  git_subject :: "string \<Rightarrow> string \<Rightarrow> nat \<Rightarrow> exn + string"
  git_show :: "string \<Rightarrow> string \<Rightarrow> nat \<Rightarrow> exn + string"

definition max_diff_bytes :: nat where
  "max_diff_bytes = 200000"

definition truncation_note :: string where
  "truncation_note = [newline, newline] @ ''[diff truncated]'' @ [newline]"

definition clip_diff :: "string \<Rightarrow> string" where
  "clip_diff d = (if length d > max_diff_bytes then take max_diff_bytes d @ truncation_note else d)"

text \<open>One field of a commit: the answer of git as \<open>f\<close> reads it, or the default.\<close>

definition git_field :: "(nat \<Rightarrow> exn + string) \<Rightarrow> string \<Rightarrow> (string \<Rightarrow> string) \<Rightarrow> ('r, 'd, 'v, string) act" where
  "git_field call dflt f =
     catching git_caught
       (bnd fresh_tick (\<lambda>n. bnd (lift_sum (call n)) (\<lambda>s. ret (f s))))
       (\<lambda>_. ret dflt)"

definition read_commit :: "git_ops \<Rightarrow> string \<Rightarrow> string \<Rightarrow> ('r, 'd, 'v, string \<times> string \<times> string) act" where
  "read_commit G repo sha =
     bnd (git_field (git_author G repo sha) ''unknown'' py_strip) (\<lambda>author.
     bnd (git_field (git_subject G repo sha) [] py_strip) (\<lambda>subject.
     bnd (git_field (git_show G repo sha) [] clip_diff) (\<lambda>diff.
     ret (author, subject, diff))))"

definition commit_payload :: "string \<Rightarrow> string option \<Rightarrow> string \<Rightarrow> string \<times> string \<times> string \<Rightarrow> dict" where
  "commit_payload repo prev_sha new_sha c =
     (case c of (author, subject, diff) \<Rightarrow>
       [(''repo'', JStr repo), (''sha'', JStr new_sha), (''prev_sha'', json_of_option JStr prev_sha),
        (''author'', JStr author), (''subject'', JStr subject), (''diff'', JStr diff)])"

definition emit_commit :: "('r, 'd, 'v) env \<Rightarrow> git_ops \<Rightarrow> string \<Rightarrow> string option \<Rightarrow> string \<Rightarrow> ('r, 'd, 'v, unit) act" where
  "emit_commit E G repo prev_sha new_sha =
     bnd (read_commit G repo new_sha) (\<lambda>c.
     bnd (job_new E ''commit_pipeline'' (commit_payload repo prev_sha new_sha c) None None) (\<lambda>j.
     enqueue E j NORMAL))"

section \<open>Watching heads\<close>

text \<open>
  The event loop as the handler finds it: none yet, closed, open, or refusing the coroutine with a
  RuntimeError.
\<close>

datatype loop_state = No_Loop | Loop_Closed | Loop_Refuses | Loop_Open

record git_handler =
  hd_repo :: string
  hd_last_sha :: "string option"

type_synonym emission = "string \<times> string option \<times> string"

text \<open>The paths below \<^verbatim>\<open>.git\<close> whose events are looked at.\<close>

definition head_path :: "string \<Rightarrow> bool" where
  "head_path src \<longleftrightarrow>
     (let parts = split_on (CHR ''/'') src in
      ''.git'' \<in> set parts \<and>
      (last parts \<in> {''HEAD'', ''ORIG_HEAD''} \<or> contains ''refs/heads'' src \<or> contains ''logs/HEAD'' src))"

text \<open>
  A read of the head: a new one is remembered and emitted, and it is remembered also when the loop
  does not take the emission.
\<close>

definition observe :: "loop_state \<Rightarrow> string option \<Rightarrow> git_handler \<Rightarrow> git_handler \<times> emission list" where
  "observe loop head h =
     (case head of
        None \<Rightarrow> (h, [])
      | Some s \<Rightarrow>
          if s = [] \<or> Some s = hd_last_sha h then (h, [])
          else (h\<lparr>hd_last_sha := Some s\<rparr>, if loop = Loop_Open then [(hd_repo h, hd_last_sha h, s)] else []))"

definition on_any_event :: "loop_state \<Rightarrow> string \<Rightarrow> exn + string \<Rightarrow> git_handler \<Rightarrow> exn + git_handler \<times> emission list" where
  "on_any_event loop src reply h =
     (if \<not> head_path src then Inr (h, [])
      else (case current_head_sha reply of Inl e \<Rightarrow> Inl e | Inr head \<Rightarrow> Inr (observe loop head h)))"

definition new_handler :: "string \<Rightarrow> exn + string \<Rightarrow> exn + git_handler" where
  "new_handler repo reply =
     (case current_head_sha reply of Inl e \<Rightarrow> Inl e | Inr head \<Rightarrow> Inr \<lparr>hd_repo = repo, hd_last_sha = head\<rparr>)"

text \<open>\<^verbatim>\<open>_reconcile_after_start\<close>: every handler reads its head again.\<close>

fun reconcile_each :: "loop_state \<Rightarrow> (string \<Rightarrow> exn + string) \<Rightarrow> git_handler list \<Rightarrow> exn + git_handler list \<times> emission list" where
  "reconcile_each loop reply [] = Inr ([], [])"
| "reconcile_each loop reply (h # hs) =
     (case current_head_sha (reply (hd_repo h)) of
        Inl e \<Rightarrow> Inl e
      | Inr head \<Rightarrow>
          (case reconcile_each loop reply hs of
             Inl e \<Rightarrow> Inl e
           | Inr (hs', ems) \<Rightarrow> (case observe loop head h of (h', em) \<Rightarrow> Inr (h' # hs', em @ ems))))"

definition reconcile_after_start ::
  "loop_state \<Rightarrow> (string \<Rightarrow> exn + string) \<Rightarrow> git_handler list \<Rightarrow> exn + git_handler list \<times> emission list" where
  "reconcile_after_start loop reply hs = (if loop = No_Loop then Inr (hs, []) else reconcile_each loop reply hs)"

fun new_handlers :: "(string \<Rightarrow> bool) \<Rightarrow> (string \<Rightarrow> exn + string) \<Rightarrow> string list \<Rightarrow> exn + git_handler list" where
  "new_handlers is_git reply [] = Inr []"
| "new_handlers is_git reply (r # rs) =
     (if \<not> is_git r then new_handlers is_git reply rs
      else
        (case new_handler r (reply r) of
           Inl e \<Rightarrow> Inl e
         | Inr h \<Rightarrow> (case new_handlers is_git reply rs of Inl e \<Rightarrow> Inl e | Inr hs \<Rightarrow> Inr (h # hs))))"

text \<open>
  \<^verbatim>\<open>start\<close>: a handler for every repository that has a \<^verbatim>\<open>.git\<close>, reading its head
  (\<open>reply1\<close>), then the observer, then the reconciliation (\<open>reply2\<close>).
\<close>

definition start_watching ::
  "loop_state \<Rightarrow> (string \<Rightarrow> bool) \<Rightarrow> (string \<Rightarrow> exn + string) \<Rightarrow> (string \<Rightarrow> exn + string) \<Rightarrow> string list \<Rightarrow>
   exn + git_handler list \<times> emission list" where
  "start_watching loop is_git reply1 reply2 repos =
     (case new_handlers is_git reply1 repos of
        Inl e \<Rightarrow> Inl e
      | Inr hs \<Rightarrow> reconcile_after_start loop reply2 hs)"

text \<open>The events of the observer for one handler, in order, each with git's answer.\<close>

fun handle_events :: "loop_state \<Rightarrow> (string \<times> (exn + string)) list \<Rightarrow> git_handler \<Rightarrow> exn + git_handler \<times> emission list" where
  "handle_events loop [] h = Inr (h, [])"
| "handle_events loop ((src, reply) # evs) h =
     (case on_any_event loop src reply h of
        Inl e \<Rightarrow> Inl e
      | Inr (h', em) \<Rightarrow>
          (case handle_events loop evs h' of Inl e \<Rightarrow> Inl e | Inr (h'', ems) \<Rightarrow> Inr (h'', em @ ems)))"

section \<open>What is emitted\<close>

text \<open>The heads a sequence of events shows.\<close>

definition heads_seen :: "(string \<times> (exn + string)) list \<Rightarrow> string list" where
  "heads_seen evs =
     [s. (src, reply) \<leftarrow> evs, head_path src, s \<leftarrow> (case reply of Inr out \<Rightarrow> [py_strip out] | Inl e \<Rightarrow> []), s \<noteq> []]"

text \<open>The heads that differ from the one before them, starting from the last known one.\<close>

definition moves :: "string option \<Rightarrow> string list \<Rightarrow> string list" where
  "moves l heads = (case l of None \<Rightarrow> remdups_adj heads | Some s \<Rightarrow> tl (remdups_adj (s # heads)))"

lemma moves_Nil [simp]: "moves l [] = []"
  by (simp add: moves_def split: option.splits)

lemma moves_Cons: "moves l (s # hs) = (if l = Some s then moves l hs else s # moves (Some s) hs)"
  by (cases hs) (auto simp: moves_def remdups_adj_Cons split: option.splits list.splits)

lemma heads_seen_Cons:
  "heads_seen ((src, reply) # evs) =
     (if head_path src then (case reply of Inr out \<Rightarrow> if py_strip out = [] then [] else [py_strip out] | Inl e \<Rightarrow> []) else [])
     @ heads_seen evs"
  by (simp add: heads_seen_def split: sum.splits)

text \<open>The emissions of a chain of heads: each names its predecessor.\<close>

fun chained :: "string \<Rightarrow> string option \<Rightarrow> string list \<Rightarrow> emission list" where
  "chained repo prev [] = []"
| "chained repo prev (s # ss) = (repo, prev, s) # chained repo (Some s) ss"

definition last_head :: "string option \<Rightarrow> string list \<Rightarrow> string option" where
  "last_head l heads = (if heads = [] then l else Some (last heads))"

lemma last_head_simps [simp]: "last_head l [] = l" "last_head l (s # hs) = last_head (Some s) hs"
  by (simp_all add: last_head_def)

lemma handle_events_emits:
  assumes "handle_events loop evs h = Inr (h', ems)"
  shows "h' = h\<lparr>hd_last_sha := last_head (hd_last_sha h) (heads_seen evs)\<rparr> \<and>
    ems = (if loop = Loop_Open then chained (hd_repo h) (hd_last_sha h) (moves (hd_last_sha h) (heads_seen evs)) else [])"
  using assms
proof (induction loop evs h arbitrary: h' ems rule: handle_events.induct)
  case (1 loop h)
  then show ?case by (simp add: heads_seen_def)
next
  case (2 loop src reply evs h)
  then obtain h1 em ems1 where o: "on_any_event loop src reply h = Inr (h1, em)"
    and r: "handle_events loop evs h1 = Inr (h', ems1)" and ems: "ems = em @ ems1"
    by (auto split: sum.splits prod.splits)
  from "2.IH" [OF o refl r] have IH: "h' = h1\<lparr>hd_last_sha := last_head (hd_last_sha h1) (heads_seen evs)\<rparr>"
    "ems1 = (if loop = Loop_Open then chained (hd_repo h1) (hd_last_sha h1) (moves (hd_last_sha h1) (heads_seen evs)) else [])"
    by simp_all
  show ?case
  proof (cases "\<exists>out. head_path src \<and> reply = Inr out \<and> py_strip out \<noteq> []")
    case True
    with o IH ems show ?thesis
      by (auto simp: on_any_event_def current_head_sha_def observe_def heads_seen_Cons moves_Cons split: if_splits)
  next
    case False
    with o have "h1 = h" "em = []"
      by (auto simp: on_any_event_def current_head_sha_def observe_def split: if_splits sum.splits)
    moreover from False have "heads_seen ((src, reply) # evs) = heads_seen evs"
      by (auto simp: heads_seen_Cons split: sum.splits)
    ultimately show ?thesis using IH ems by simp
  qed
qed

lemma new_handlers_spec:
  "new_handlers is_git reply repos = Inr hs \<Longrightarrow>
     list_all2 (\<lambda>r h. hd_repo h = r \<and> current_head_sha (reply r) = Inr (hd_last_sha h)) (filter is_git repos) hs"
  by (induction repos arbitrary: hs) (auto simp: new_handler_def split: if_splits sum.splits)

text \<open>A non-empty head.\<close>

definition head_in :: "exn + string \<Rightarrow> string option" where
  "head_in reply = (case reply of Inr out \<Rightarrow> if py_strip out = [] then None else Some (py_strip out) | Inl e \<Rightarrow> None)"

lemma observe_emits:
  "current_head_sha reply = Inr head \<Longrightarrow>
     snd (observe Loop_Open head h) =
       (case head_in reply of None \<Rightarrow> [] | Some s \<Rightarrow> if hd_last_sha h = Some s then [] else [(hd_repo h, hd_last_sha h, s)])"
  "current_head_sha reply = Inr head \<Longrightarrow>
     hd_last_sha (fst (observe loop head h)) = (case head_in reply of None \<Rightarrow> hd_last_sha h | Some s \<Rightarrow> Some s) \<and>
     hd_repo (fst (observe loop head h)) = hd_repo h"
  by (auto simp: current_head_sha_def observe_def head_in_def split: sum.splits if_splits)

lemma reconcile_each_spec:
  assumes "reconcile_each Loop_Open reply hs = Inr (hs', ems)"
  shows "(r, p, s) \<in> set ems \<longleftrightarrow>
      (\<exists>h\<in>set hs. r = hd_repo h \<and> p = hd_last_sha h \<and> head_in (reply r) = Some s \<and> p \<noteq> Some s)"
    and "list_all2 (\<lambda>h h'. hd_repo h' = hd_repo h \<and>
      hd_last_sha h' = (case head_in (reply (hd_repo h)) of None \<Rightarrow> hd_last_sha h | Some s \<Rightarrow> Some s)) hs hs'"
proof -
  have "(\<forall>r p s. (r, p, s) \<in> set ems \<longleftrightarrow>
      (\<exists>h\<in>set hs. r = hd_repo h \<and> p = hd_last_sha h \<and> head_in (reply r) = Some s \<and> p \<noteq> Some s)) \<and>
    list_all2 (\<lambda>h h'. hd_repo h' = hd_repo h \<and>
      hd_last_sha h' = (case head_in (reply (hd_repo h)) of None \<Rightarrow> hd_last_sha h | Some s \<Rightarrow> Some s)) hs hs'"
    using assms
  proof (induction hs arbitrary: hs' ems)
    case Nil
    then show ?case by simp
  next
    case (Cons h hs)
    then obtain head hs1 ems1 where head: "current_head_sha (reply (hd_repo h)) = Inr head"
      and r: "reconcile_each Loop_Open reply hs = Inr (hs1, ems1)"
      and e: "hs' = fst (observe Loop_Open head h) # hs1" "ems = snd (observe Loop_Open head h) @ ems1"
      by (auto split: sum.splits prod.splits)
    from Cons.IH [OF r] observe_emits [OF head] show ?case
      unfolding e by (auto split: option.splits if_splits)
  qed
  then show "(r, p, s) \<in> set ems \<longleftrightarrow>
      (\<exists>h\<in>set hs. r = hd_repo h \<and> p = hd_last_sha h \<and> head_in (reply r) = Some s \<and> p \<noteq> Some s)"
    and "list_all2 (\<lambda>h h'. hd_repo h' = hd_repo h \<and>
      hd_last_sha h' = (case head_in (reply (hd_repo h)) of None \<Rightarrow> hd_last_sha h | Some s \<Rightarrow> Some s)) hs hs'"
    by blast+
qed

section \<open>The job of a commit\<close>

lemma length_clip_diff: "length (clip_diff d) \<le> max_diff_bytes + 19"
  by (auto simp: clip_diff_def truncation_note_def)

text \<open>What the reading of a commit gives: a value for every field, whatever git answers.\<close>

definition field_of :: "(nat \<Rightarrow> exn + string) \<Rightarrow> string \<Rightarrow> (string \<Rightarrow> string) \<Rightarrow> string \<Rightarrow> bool" where
  "field_of call dflt f s \<longleftrightarrow> s = dflt \<or> (\<exists>n out. call n = Inr out \<and> s = f out)"

text \<open>Two worlds that differ at most in the number of environment calls.\<close>

definition only_ticks :: "('r, 'd, 'v) world \<Rightarrow> ('r, 'd, 'v) world \<Rightarrow> bool" where
  "only_ticks w w' \<longleftrightarrow> (\<exists>n. w' = w\<lparr>w_tick := n\<rparr>)"

lemma only_ticks_trans: "only_ticks u v \<Longrightarrow> only_ticks v w \<Longrightarrow> only_ticks u w"
  by (auto simp: only_ticks_def)

lemma only_ticks_tick: "only_ticks w (w\<lparr>w_tick := n\<rparr>)"
  by (auto simp: only_ticks_def)

lemma wp_git_field:
  assumes "\<And>s w'. only_ticks w w' \<Longrightarrow> field_of call dflt f s \<Longrightarrow> Q s w'"
    and "\<And>e w'. (\<exists>n. call n = Inl e) \<Longrightarrow> \<not> git_caught e \<Longrightarrow> only_ticks w w' \<Longrightarrow> X e w'"
  shows "wp (git_field call dflt f) Q X w"
  by (auto simp: git_field_def split: sum.splits intro!: assms only_ticks_tick) (auto simp: field_of_def)

text \<open>Git answers, or fails in the ways the reader expects.\<close>

definition git_expected :: "git_ops \<Rightarrow> bool" where
  "git_expected G \<longleftrightarrow>
     (\<forall>repo sha n e. git_author G repo sha n = Inl e \<or> git_subject G repo sha n = Inl e \<or> git_show G repo sha n = Inl e \<longrightarrow>
        git_caught e)"

lemma wp_read_commit:
  assumes "git_expected G"
    and "\<And>a s d w'. only_ticks w w' \<Longrightarrow> field_of (git_author G repo sha) ''unknown'' py_strip a \<Longrightarrow>
      field_of (git_subject G repo sha) [] py_strip s \<Longrightarrow> field_of (git_show G repo sha) [] clip_diff d \<Longrightarrow> Q (a, s, d) w'"
  shows "wp (read_commit G repo sha) Q X w"
proof -
  have g: "git_author G repo sha n = Inl e \<Longrightarrow> git_caught e" "git_subject G repo sha n = Inl e \<Longrightarrow> git_caught e"
    "git_show G repo sha n = Inl e \<Longrightarrow> git_caught e" for e n
    using assms(1) unfolding git_expected_def by blast+
  show ?thesis
    unfolding read_commit_def wp_bnd wp_ret
    by (intro wp_git_field assms(2)) (auto dest: g intro: only_ticks_trans)
qed

lemma plain_commit_payload [simp]: "plain (JObj (commit_payload repo prev sha c))"
  by (cases c) (auto simp: commit_payload_def json_of_option_def split: option.splits)

text \<open>The job of a commit.\<close>

definition commit_job :: "git_ops \<Rightarrow> string \<Rightarrow> string option \<Rightarrow> string \<Rightarrow> job \<Rightarrow> bool" where
  "commit_job G repo prev sha j \<longleftrightarrow>
     job_ok j \<and> job_type j = ''commit_pipeline'' \<and> job_attempt j = 0 \<and> job_notes j = [] \<and>
     (\<exists>a s d. job_payload j = commit_payload repo prev sha (a, s, d) \<and>
        field_of (git_author G repo sha) ''unknown'' py_strip a \<and> field_of (git_subject G repo sha) [] py_strip s \<and>
        field_of (git_show G repo sha) [] clip_diff d)"

lemma wp_emit_commit:
  assumes "git_expected G"
    and "\<And>j w1 r' r. commit_job G repo prev sha j \<Longrightarrow> only_ticks w w1 \<Longrightarrow> enqueue E j NORMAL w1 = (Inr (), r) \<Longrightarrow> Q () r"
    and "\<And>j w1 e r. commit_job G repo prev sha j \<Longrightarrow> only_ticks w w1 \<Longrightarrow> enqueue E j NORMAL w1 = (Inl e, r) \<Longrightarrow> X e r"
  shows "wp (emit_commit E G repo prev sha) Q X w"
proof -
  have e: "wp (enqueue E j NORMAL) Q X w1" if "commit_job G repo prev sha j" "only_ticks w w1" for j w1
    using assms(2) [OF that] assms(3) [OF that] by (auto simp: wp_def split: prod.splits sum.splits)
  show ?thesis
    unfolding emit_commit_def job_new_def wp_bnd wp_fresh_tick wp_utc_now wp_ret
    by (rule wp_read_commit [OF assms(1)], rule e)
      (force simp: commit_job_def job_ok_def simp del: plain.simps, auto simp: only_ticks_def)
qed

text \<open>What an emission leaves: one more job at the end of the normal queue.\<close>

lemma emit_commit_run:
  assumes "redis_laws (redis E)" and "git_expected G" and "holds_jobs E w c"
    and "\<forall>k v r. \<exists>r'. rd_rpush (redis E) k v r = (Inr (), r')"
  obtains j w' where "emit_commit E G repo prev sha w = (Inr (), w')" and "commit_job G repo prev sha j"
    and "holds_jobs E w' (c(NORMAL := c NORMAL @ [j]))" and "db E w' = db E w" and "w_trace w' = w_trace w"
    and "vw_keys (redis E) (w_redis w') = vw_keys (redis E) (w_redis w)"
proof -
  let ?post = "\<lambda>w'. \<exists>j. commit_job G repo prev sha j \<and> holds_jobs E w' (c(NORMAL := c NORMAL @ [j])) \<and>
     db E w' = db E w \<and> w_trace w' = w_trace w \<and> vw_keys (redis E) (w_redis w') = vw_keys (redis E) (w_redis w)"
  have "wp (emit_commit E G repo prev sha) (\<lambda>_. ?post) (\<lambda>_ _. False) w"
  proof (rule wp_emit_commit [OF assms(2)])
    fix j and w1 r :: "('a, 'b, 'c) world"
    assume j: "commit_job G repo prev sha j" and t: "only_ticks w w1" and e: "enqueue E j NORMAL w1 = (Inr (), r)"
    from t assms(3) have "holds_jobs E w1 c" by (auto simp: only_ticks_def holds_jobs_def)
    with enqueue_holds [OF assms(1) _ _ e] j have "holds_jobs E r (c(NORMAL := c NORMAL @ [j]))"
      by (simp add: commit_job_def)
    moreover from e t have "db E r = db E w" "w_trace r = w_trace w"
      "vw_keys (redis E) (w_redis r) = vw_keys (redis E) (w_redis w)"
      by (auto simp: only_ticks_def enqueue_def on_redis_def split: prod.splits dest: redis_rpush [OF assms(1)])
    ultimately show "?post r" using j by blast
  next
    fix j and w1 r :: "('a, 'b, 'c) world" and e
    assume "enqueue E j NORMAL w1 = (Inl e, r)"
    moreover obtain r' where "rd_rpush (redis E) (queue_value NORMAL) (to_json j) (w_redis w1) = (Inr (), r')"
      using assms(4) by blast
    ultimately show False by (simp add: enqueue_def on_redis_def)
  qed
  then show thesis by (auto simp: wp_def split: prod.splits sum.splits intro: that)
qed

section \<open>Properties\<close>

text \<open>C31: the head handler emits each move of a head once: over any sequence of observer events it
  handles, the last known commit ends at the last head git showed, and, when the loop is open, the
  emissions are the heads that differ from their predecessor, in order and without repetition of
  the same head in a row, each naming the head before it. When the loop does not take them nothing
  is emitted although the last known commit has moved, so those commits are not emitted later
  either.\<close>

theorem head_moves_emitted_once:
  assumes "handle_events loop evs h = Inr (h', ems)"
  shows "hd_last_sha h' = last_head (hd_last_sha h) (heads_seen evs) \<and> hd_repo h' = hd_repo h \<and>
    ems = (if loop = Loop_Open then chained (hd_repo h) (hd_last_sha h)
      (case hd_last_sha h of None \<Rightarrow> remdups_adj (heads_seen evs) | Some s \<Rightarrow> tl (remdups_adj (s # heads_seen evs))) else [])"
  using handle_events_emits [OF assms] by (simp add: moves_def)

theorem head_moves_emitted_once_witness:
  "\<exists>h'. handle_events Loop_Open
      [(''/r/.git/HEAD'', Inr ''a''), (''/r/.git/logs/HEAD'', Inr ''b''), (''/r/x'', Inr ''c''), (''/r/.git/HEAD'', Inr ''b'')]
      \<lparr>hd_repo = ''/r'', hd_last_sha = Some ''a''\<rparr> = Inr (h', [(''/r'', Some ''a'', ''b'')]) \<and> hd_last_sha h' = Some ''b''"
proof -
  let ?evs = "[(''/r/.git/HEAD'', Inr ''a''), (''/r/.git/logs/HEAD'', Inr ''b''), (''/r/x'', Inr ''c''), (''/r/.git/HEAD'', Inr ''b'')]"
    and ?h = "\<lparr>hd_repo = ''/r'', hd_last_sha = Some ''a''\<rparr>"
  have p: "head_path ''/r/.git/HEAD''" "head_path ''/r/.git/logs/HEAD''" "\<not> head_path ''/r/x''"
    by (simp_all add: head_path_def Let_def)
  have s: "py_strip ''a'' = ''a''" "py_strip ''b'' = ''b''" by (simp_all add: py_strip_def strip_if_def is_space_def)
  obtain h' ems where r: "handle_events Loop_Open ?evs ?h = Inr (h', ems)"
    by (simp add: on_any_event_def current_head_sha_def observe_def p s)
  from head_moves_emitted_once [OF r] p s r show ?thesis by (auto simp: heads_seen_def)
qed

text \<open>The start closes the gap between reading the heads and observing: the handlers are those
  of the repositories with a \<^verbatim>\<open>.git\<close>, a commit is emitted exactly for those whose head
  moved between the two reads, naming the first head as its predecessor, and every handler ends at
  the newest head that was read.\<close>

theorem start_closes_gap:
  assumes "start_watching Loop_Open is_git reply1 reply2 repos = Inr (hs, ems)"
  shows "map hd_repo hs = filter is_git repos \<and>
    ((r, p, s) \<in> set ems \<longleftrightarrow>
      r \<in> set repos \<and> is_git r \<and> current_head_sha (reply1 r) = Inr p \<and> head_in (reply2 r) = Some s \<and> p \<noteq> Some s) \<and>
    list_all (\<lambda>h. head_in (reply2 (hd_repo h)) \<in> {None, hd_last_sha h}) hs"
proof -
  from assms obtain hs0 where n: "new_handlers is_git reply1 repos = Inr hs0"
    and r: "reconcile_each Loop_Open reply2 hs0 = Inr (hs, ems)"
    by (auto simp: start_watching_def reconcile_after_start_def split: sum.splits)
  have n': "list_all2 (\<lambda>r h. hd_repo h = r \<and> current_head_sha (reply1 r) = Inr (hd_last_sha h)) (filter is_git repos) hs0"
    by (rule new_handlers_spec [OF n])
  note spec = reconcile_each_spec [OF r]
  have same: "map f ys = xs" if "list_all2 (\<lambda>x y. f y = x) xs ys" for f :: "'a \<Rightarrow> 'b" and xs ys
    using that by (induction rule: list_all2_induct) simp_all
  have "map hd_repo hs0 = filter is_git repos"
    by (rule same, rule list.rel_mono_strong [OF n']) simp
  moreover have "map hd_repo hs = map hd_repo hs0"
    by (rule same, simp add: list.rel_map, rule list.rel_mono_strong [OF spec(2)]) simp
  moreover have "(\<exists>h\<in>set hs0. r = hd_repo h \<and> p = hd_last_sha h) \<longleftrightarrow>
      r \<in> set repos \<and> is_git r \<and> current_head_sha (reply1 r) = Inr p"
  proof
    assume "\<exists>h\<in>set hs0. r = hd_repo h \<and> p = hd_last_sha h"
    then obtain k where k: "k < length hs0" "r = hd_repo (hs0 ! k)" "p = hd_last_sha (hs0 ! k)" by (metis in_set_conv_nth)
    with n' have "r = filter is_git repos ! k" "k < length (filter is_git repos)" and c: "current_head_sha (reply1 r) = Inr p"
      by (auto simp: list_all2_conv_all_nth)
    then have "r \<in> set (filter is_git repos)" by (metis nth_mem)
    with c show "r \<in> set repos \<and> is_git r \<and> current_head_sha (reply1 r) = Inr p" by simp
  next
    assume a: "r \<in> set repos \<and> is_git r \<and> current_head_sha (reply1 r) = Inr p"
    then have "r \<in> set (filter is_git repos)" by simp
    then obtain k where "k < length (filter is_git repos)" "filter is_git repos ! k = r" by (metis in_set_conv_nth)
    with n' a show "\<exists>h\<in>set hs0. r = hd_repo h \<and> p = hd_last_sha h"
      by (auto simp: list_all2_conv_all_nth intro!: bexI [of _ "hs0 ! k"])
  qed
  moreover have "list_all (\<lambda>h. head_in (reply2 (hd_repo h)) \<in> {None, hd_last_sha h}) hs"
    using spec(2) by (auto simp: list_all_length list_all2_conv_all_nth split: option.splits)
  ultimately show ?thesis using spec(1) [of r p s] by auto
qed

theorem start_closes_gap_witness:
  "\<exists>hs. start_watching Loop_Open (\<lambda>r. r \<noteq> ''/x'') (\<lambda>_. Inr ''a'') (\<lambda>r. Inr (if r = ''/r'' then ''b'' else ''a'')) [''/q'', ''/x'', ''/r''] =
      Inr (hs, [(''/r'', Some ''a'', ''b'')]) \<and> map hd_repo hs = [''/q'', ''/r'']"
proof -
  let ?p = "\<lambda>r. r \<noteq> ''/x''" and ?r1 = "\<lambda>_. Inr ''a''" and ?r2 = "\<lambda>r. Inr (if r = ''/r'' then ''b'' else ''a'')"
  have s: "py_strip ''a'' = ''a''" "py_strip ''b'' = ''b''" by (simp_all add: py_strip_def strip_if_def is_space_def)
  obtain hs where r: "start_watching Loop_Open ?p ?r1 ?r2 [''/q'', ''/x'', ''/r''] = Inr (hs, [(''/r'', Some ''a'', ''b'')])"
    by (simp add: start_watching_def reconcile_after_start_def new_handler_def current_head_sha_def observe_def s)
  from start_closes_gap [OF r] r show ?thesis by auto
qed

text \<open>A commit becomes a job whatever git answers: when Redis takes the push, the normal queue
  ends with a new job of type \<open>commit_pipeline\<close> whose payload names the repository and the commit,
  whose author and subject are git's or the defaults, and whose diff is git's, cut to 200000
  characters with a note when it is longer; the other queues and the tables are as they were.\<close>

theorem commit_is_enqueued:
  assumes "redis_laws (redis E)" and "git_expected G" and "holds_jobs E w c"
    and "\<forall>k v r. \<exists>r'. rd_rpush (redis E) k v r = (Inr (), r')"
  shows "\<exists>j w'. emit_commit E G repo prev sha w = (Inr (), w') \<and> commit_job G repo prev sha j \<and>
    holds_jobs E w' (c(NORMAL := c NORMAL @ [j])) \<and> db E w' = db E w \<and> w_trace w' = w_trace w \<and>
    (\<exists>d. map_of (job_payload j) ''diff'' = Some (JStr d) \<and>
       (d = [] \<or> (\<exists>n out. git_show G repo sha n = Inr out \<and> d = clip_diff out)) \<and> length d \<le> 200019)"
proof -
  obtain j w' where run: "emit_commit E G repo prev sha w = (Inr (), w')" and j: "commit_job G repo prev sha j"
    "holds_jobs E w' (c(NORMAL := c NORMAL @ [j]))" "db E w' = db E w" "w_trace w' = w_trace w"
    by (rule emit_commit_run [OF assms])
  from j(1) obtain a s d where p: "job_payload j = commit_payload repo prev sha (a, s, d)"
    "field_of (git_show G repo sha) [] clip_diff d" by (auto simp: commit_job_def)
  from p(2) have "length d \<le> 200019"
    using length_clip_diff by (auto simp: field_of_def max_diff_bytes_def)
  with run j p show ?thesis
    by (intro exI [of _ j] exI [of _ w'] exI [of _ d] conjI) (auto simp: commit_payload_def field_of_def)
qed

theorem commit_is_enqueued_witness:
  "\<exists>j w'. emit_commit quiet_env \<lparr>git_author = \<lambda>_ _ _. Inr ''A'', git_subject = \<lambda>_ _ _. Inl (CalledProcessError ''rc''), git_show = \<lambda>_ _ _. Inr ''D''\<rparr>
      ''/r'' None ''ab'' (mem_world empty_tables) = (Inr (), w') \<and> holds_jobs quiet_env w' ((\<lambda>_. [])(NORMAL := [j]))"
proof -
  let ?G = "\<lparr>git_author = \<lambda>_ _ _. Inr ''A'', git_subject = \<lambda>_ _ _. Inl (CalledProcessError ''rc''), git_show = \<lambda>_ _ _. Inr ''D''\<rparr>"
  have g: "git_expected ?G" by (simp add: git_expected_def)
  have p: "\<forall>k v r. \<exists>r'. rd_rpush (redis quiet_env) k v r = (Inr (), r')" by (simp add: mem_redis_run)
  from commit_is_enqueued [OF _ g holds_jobs_empty p, of "''/r''" None "''ab''" empty_tables] show ?thesis
    by simp blast
qed

end
