(* ===== verification/Daily_Summary.thy ===== *)
theory Daily_Summary
  imports Queue
begin

text \<open>
  \<^verbatim>\<open>workflows/daily_summary.py\<close>: the statistics of the last 24 hours, the plain-text summary
  made of them, the row that keeps it, and the scheduler that runs it once a day. The log file, the
  directory, the environment variable and a cancellation of the scheduler's sleep are parameters
  (\<open>daily_env\<close>); the codec that decodes the tail of the log file is one as well. Log output is
  not modelled.
\<close>

section \<open>Parameters\<close>

record daily_env =
  log_file :: "nat \<Rightarrow> (exn + string) option"
  decode_bytes :: "string \<Rightarrow> string"
  make_log_dir :: "nat \<Rightarrow> exn + unit"
  summary_hour_var :: "string option"
  sleep_cancelled :: "nat \<Rightarrow> bool"

text \<open>
  \<open>log_file k\<close> is what the log file is at the \<open>k\<close>-th call: no file (\<^verbatim>\<open>is_file\<close> is
  false), a file whose reading raises, or its bytes.
\<close>

section \<open>Statistics\<close>

record daily_stats =
  period_start_utc :: string
  period_end_utc :: string
  workflows_completed :: int
  workflows_failed :: int
  workflows_interrupted :: int
  workflows_running :: int
  tasks_completed :: int
  tasks_failed :: int
  approvals_pending :: int
  approvals_decided :: int
  approvals_approved :: int
  approvals_rejected :: int
  queue_depth_high :: int
  queue_depth_normal :: int
  queue_depth_failed :: int
  most_common_workflow_names :: "(string \<times> int) list"
  most_common_failure_types :: "(string \<times> int) list"
  error_log_lines_count :: int

definition pairs_json :: "(string \<times> int) list \<Rightarrow> json" where
  "pairs_json xs = JList (map (\<lambda>(k, n). JList [JStr k, JInt n]) xs)"

definition stats_to_dict :: "daily_stats \<Rightarrow> dict" where
  "stats_to_dict s =
     [(''period_start_utc'', JStr (period_start_utc s)),
      (''period_end_utc'', JStr (period_end_utc s)),
      (''workflows_completed'', JInt (workflows_completed s)),
      (''workflows_failed'', JInt (workflows_failed s)),
      (''workflows_interrupted'', JInt (workflows_interrupted s)),
      (''workflows_running'', JInt (workflows_running s)),
      (''tasks_completed'', JInt (tasks_completed s)),
      (''tasks_failed'', JInt (tasks_failed s)),
      (''approvals_pending'', JInt (approvals_pending s)),
      (''approvals_decided'', JInt (approvals_decided s)),
      (''approvals_approved'', JInt (approvals_approved s)),
      (''approvals_rejected'', JInt (approvals_rejected s)),
      (''queue_depth_high'', JInt (queue_depth_high s)),
      (''queue_depth_normal'', JInt (queue_depth_normal s)),
      (''queue_depth_failed'', JInt (queue_depth_failed s)),
      (''most_common_workflow_names'', pairs_json (most_common_workflow_names s)),
      (''most_common_failure_types'', pairs_json (most_common_failure_types s)),
      (''error_log_lines_count'', JInt (error_log_lines_count s))]"

text \<open>The label of the text of an error.\<close>

definition classify_error :: "string \<Rightarrow> string" where
  "classify_error s =
     (let t = py_lower s in
      if contains ''timeout'' t \<or> contains ''timed out'' t then ''timeout''
      else if contains ''connection'' t \<and> (contains ''refused'' t \<or> contains ''reset'' t) then ''connection_refused''
      else if contains ''permission'' t \<or> contains ''authoriz'' t then ''permission_denied''
      else if contains ''invalid'' t \<and> contains ''json'' t then ''json_parse''
      else if contains ''no handler'' t then ''no_handler''
      else if contains ''summarize failed'' t \<or> contains ''draft failed'' t then ''llm_failed''
      else ''other'')"

text \<open>
  \<^verbatim>\<open>Counter(xs).most_common(n)\<close>: the elements with their numbers of occurrences, in the order
  of their first occurrence, then sorted by falling number; the sort is stable.
\<close>

definition first_seen :: "'a list \<Rightarrow> 'a list" where
  "first_seen xs = rev (remdups (rev xs))"

definition counter :: "'a list \<Rightarrow> ('a \<times> int) list" where
  "counter xs = map (\<lambda>k. (k, int (count_list xs k))) (first_seen xs)"

definition most_common :: "nat \<Rightarrow> ('a \<times> int) list \<Rightarrow> ('a \<times> int) list" where
  "most_common n c = take n (sort_key (\<lambda>kn. - snd kn) c)"

text \<open>\<^verbatim>\<open>s.splitlines()\<close> on the repertoire; a line feed after a carriage return belongs to it.\<close>

definition line_break :: "char \<Rightarrow> bool" where
  "line_break c \<longleftrightarrow> code c \<in> {10, 11, 12, 13, 28, 29, 30, 133}"

fun split_lines :: "bool \<Rightarrow> string \<Rightarrow> string \<Rightarrow> string list" where
  "split_lines after_cr acc [] = (if acc = [] then [] else [rev acc])"
| "split_lines after_cr acc (c # cs) =
     (if after_cr \<and> c = newline then split_lines False acc cs
      else if line_break c then rev acc # split_lines (code c = 13) [] cs
      else split_lines False (c # acc) cs)"

definition py_splitlines :: "string \<Rightarrow> string list" where
  "py_splitlines s = split_lines False [] s"

definition error_mark :: string where
  "error_mark = dquote # ''levelname'' @ [dquote] @ '': '' @ [dquote] @ ''ERROR'' @ [dquote]"

definition count_recent_error_lines :: "daily_env \<Rightarrow> nat \<Rightarrow> exn + int" where
  "count_recent_error_lines D k =
     (case log_file D k of
        None \<Rightarrow> Inr 0
      | Some (Inl e) \<Rightarrow> if is_Exception e then Inr 0 else Inl e
      | Some (Inr bytes) \<Rightarrow>
          Inr (int (length (filter (contains error_mark)
            (py_splitlines (decode_bytes D (last_n 1500000 bytes)))))))"

section \<open>Gathering\<close>

text \<open>The grouped counts, and what a dict made of the rows of one answers.\<close>

definition count_workflows :: "('r, 'd, 'v) env \<Rightarrow> (workflow \<Rightarrow> bool) \<Rightarrow> (workflow \<Rightarrow> string option) \<Rightarrow> bool \<Rightarrow> nat option \<Rightarrow>
    ('r, 'd, 'v, (string option \<times> int) list) act" where
  "count_workflows E P f desc lmt = on_pg (tb_count_by (pg_workflows (pg E)) P f desc lmt)"

definition count_tasks :: "('r, 'd, 'v) env \<Rightarrow> (task \<Rightarrow> bool) \<Rightarrow> (task \<Rightarrow> string option) \<Rightarrow> bool \<Rightarrow> nat option \<Rightarrow>
    ('r, 'd, 'v, (string option \<times> int) list) act" where
  "count_tasks E P f desc lmt = on_pg (tb_count_by (pg_tasks (pg E)) P f desc lmt)"

definition count_approvals :: "('r, 'd, 'v) env \<Rightarrow> (approval \<Rightarrow> bool) \<Rightarrow> (approval \<Rightarrow> string option) \<Rightarrow> bool \<Rightarrow> nat option \<Rightarrow>
    ('r, 'd, 'v, (string option \<times> int) list) act" where
  "count_approvals E P f desc lmt = on_pg (tb_count_by (pg_approvals (pg E)) P f desc lmt)"

lemmas count_defs = count_workflows_def count_tasks_def count_approvals_def

definition in_period :: "datetime \<Rightarrow> datetime \<Rightarrow> datetime \<Rightarrow> bool" where
  "in_period a b t \<longleftrightarrow> a \<le> t \<and> t < b"

text \<open>The text of a column value; the columns that are counted by name and status hold no null.\<close>

definition column_text :: "string option \<Rightarrow> string" where
  "column_text v = (case v of None \<Rightarrow> ''None'' | Some s \<Rightarrow> s)"

text \<open>\<^verbatim>\<open>row[0] or "pending"\<close>\<close>

definition decision_key :: "string option \<Rightarrow> string" where
  "decision_key v = (case v of None \<Rightarrow> ''pending'' | Some s \<Rightarrow> if s = [] then ''pending'' else s)"

text \<open>\<^verbatim>\<open>dict(pairs).get(k, 0)\<close>: the last pair of a key counts.\<close>

definition count_of :: "(string \<times> int) list \<Rightarrow> string \<Rightarrow> int" where
  "count_of kns k = (case map_of (rev kns) k of None \<Rightarrow> 0 | Some n \<Rightarrow> n)"

record db_counts =
  dc_workflows :: "(string \<times> int) list"
  dc_tasks :: "(string \<times> int) list"
  dc_approvals :: "(string \<times> int) list"
  dc_names :: "(string \<times> int) list"
  dc_failures :: "(string \<times> int) list"

definition error_text :: "task \<Rightarrow> string" where
  "error_text r = (case task_error r of None \<Rightarrow> [] | Some e \<Rightarrow> e)"

text \<open>The session of \<^verbatim>\<open>_gather_stats\<close>.\<close>

definition gather_counts :: "('r, 'd, 'v) env \<Rightarrow> datetime \<Rightarrow> datetime \<Rightarrow> ('r, 'd, 'v, db_counts) act" where
  "gather_counts E a b =
     session_scope E
       (bnd (count_workflows E (\<lambda>r. in_period a b (wf_created_at r)) (\<lambda>r. Some (wf_status r)) False None) (\<lambda>wfs.
        bnd (count_tasks E (\<lambda>r. in_period a b (task_created_at r)) (\<lambda>r. Some (task_status r)) False None) (\<lambda>tks.
        bnd (count_approvals E (\<lambda>r. in_period a b (apr_created_at r)) apr_decision False None) (\<lambda>aps.
        bnd (count_workflows E (\<lambda>r. in_period a b (wf_created_at r)) (\<lambda>r. Some (workflow_name r)) True (Some 5)) (\<lambda>names.
        bnd (select_tasks E
          (\<lambda>r. task_status r = ''failed'' \<and> in_period a b (task_created_at r) \<and> task_error r \<noteq> None) Unordered (Some 200)) (\<lambda>errs.
        ret \<lparr>dc_workflows = map (apfst column_text) wfs,
             dc_tasks = map (apfst column_text) tks,
             dc_approvals = map (apfst decision_key) aps,
             dc_names = map (apfst column_text) names,
             dc_failures = most_common 5 (counter (map (\<lambda>r. classify_error (error_text r)) errs))\<rparr>))))))"

definition stats_of :: "datetime \<Rightarrow> datetime \<Rightarrow> db_counts \<Rightarrow> (string \<times> int) list \<Rightarrow> int \<Rightarrow> daily_stats" where
  "stats_of a b c depths errs =
     \<lparr>period_start_utc = isoformat a,
      period_end_utc = isoformat b,
      workflows_completed = count_of (dc_workflows c) ''completed'',
      workflows_failed = count_of (dc_workflows c) ''failed'',
      workflows_interrupted = count_of (dc_workflows c) ''interrupted'',
      workflows_running = count_of (dc_workflows c) ''running'',
      tasks_completed = count_of (dc_tasks c) ''completed'',
      tasks_failed = count_of (dc_tasks c) ''failed'',
      approvals_pending = count_of (dc_approvals c) ''pending'',
      approvals_decided = count_of (dc_approvals c) ''approved'' + count_of (dc_approvals c) ''rejected'',
      approvals_approved = count_of (dc_approvals c) ''approved'',
      approvals_rejected = count_of (dc_approvals c) ''rejected'',
      queue_depth_high = count_of depths (queue_label HIGH),
      queue_depth_normal = count_of depths (queue_label NORMAL),
      queue_depth_failed = count_of depths (queue_label FAILED),
      most_common_workflow_names = dc_names c,
      most_common_failure_types = dc_failures c,
      error_log_lines_count = errs\<rparr>"

definition gather_stats :: "('r, 'd, 'v) env \<Rightarrow> daily_env \<Rightarrow> datetime \<Rightarrow> datetime \<Rightarrow> ('r, 'd, 'v, daily_stats) act" where
  "gather_stats E D a b =
     bnd (gather_counts E a b) (\<lambda>c.
     bnd (all_depths E) (\<lambda>depths.
     bnd fresh_tick (\<lambda>k.
     bnd (lift_sum (count_recent_error_lines D k)) (\<lambda>errs.
     ret (stats_of a b c depths errs)))))"

section \<open>The text\<close>

definition back_quoted :: "string \<Rightarrow> string" where
  "back_quoted s = ''`'' @ s @ ''`''"

definition what_changed :: "daily_stats \<Rightarrow> string list" where
  "what_changed s =
     (if workflows_completed s = 0 \<and> workflows_failed s = 0 \<and> workflows_interrupted s = 0 \<and> workflows_running s = 0
      then [''nothing '' @ [em_dash] @ '' the runtime was idle.'']
      else
        [join '', ''
           ([str_of_int (workflows_completed s) @ '' workflow(s) completed'']
             @ (if workflows_failed s \<noteq> 0 then [str_of_int (workflows_failed s) @ '' failed''] else [])
             @ (if workflows_interrupted s \<noteq> 0 then [str_of_int (workflows_interrupted s) @ '' interrupted''] else [])
             @ (if workflows_running s \<noteq> 0 then [str_of_int (workflows_running s) @ '' still running''] else []))
         @ ''.'']
        @ (case most_common_workflow_names s of
             [] \<Rightarrow> []
           | (name, n) # _ \<Rightarrow> [''most common: '' @ back_quoted name @ '' ('' @ str_of_int n @ ''x).'']))"

definition failure_shapes :: "(string \<times> int) list \<Rightarrow> string list" where
  "failure_shapes shapes =
     (case take 3 shapes of
        [] \<Rightarrow> []
      | [(label, n)] \<Rightarrow> [''failure shape: '' @ back_quoted label @ '' ('' @ str_of_int n @ '' task(s)).'']
      | shown \<Rightarrow> [''top failure shapes: '' @
          join '', '' (map (\<lambda>(k, n). back_quoted k @ '' ('' @ str_of_int n @ '')'') shown) @ ''.''])"

definition what_failed :: "daily_stats \<Rightarrow> string list" where
  "what_failed s =
     (if workflows_failed s = 0 \<and> queue_depth_failed s = 0 \<and> most_common_failure_types s = [] \<and>
         error_log_lines_count s = 0
      then [''nothing.'']
      else
        (if workflows_failed s \<noteq> 0 then [str_of_int (workflows_failed s) @ '' workflow(s) marked failed.''] else [])
        @ (if queue_depth_failed s \<noteq> 0
           then [''dead-letter queue holds '' @ str_of_int (queue_depth_failed s) @ '' job(s); see ''
                 @ back_quoted ''GET /queues/failed'' @ ''.'']
           else [])
        @ failure_shapes (most_common_failure_types s)
        @ (if error_log_lines_count s \<noteq> 0
           then [back_quoted ''logs/wiseorder.jsonl'' @ '' has '' @ str_of_int (error_log_lines_count s)
                 @ '' ERROR-level line(s) in the recent tail.'']
           else []))"

definition matter_lines :: "daily_stats \<Rightarrow> string list" where
  "matter_lines s =
     (if approvals_pending s \<noteq> 0
      then [str_of_int (approvals_pending s) @ '' pending approval card(s) '' @ [em_dash] @ '' operator action required.'']
      else [])
     @ (if workflows_interrupted s \<noteq> 0
        then [str_of_int (workflows_interrupted s) @ '' interrupted workflow(s) '' @ [em_dash]
              @ '' possible orchestrator restart.'']
        else [])
     @ (if queue_depth_failed s \<noteq> 0
        then [str_of_int (queue_depth_failed s) @ '' dead-letter job(s) '' @ [em_dash] @ '' investigate or discard.'']
        else [])
     @ (if workflows_running s > 5
        then [str_of_int (workflows_running s) @ '' workflows in '' @ squote # ''running'' @ squote # '' state ''
              @ [em_dash] @ '' verify they are actually progressing.'']
        else [])"

definition what_matters :: "daily_stats \<Rightarrow> string list" where
  "what_matters s = (if matter_lines s = [] then [''nothing urgent.''] else matter_lines s)"

definition recommended_action :: "daily_stats \<Rightarrow> string" where
  "recommended_action s =
     (if approvals_pending s \<noteq> 0 then
        ''Review pending approvals first. Each card carries the engineering summary, social draft, and risk level.''
      else if queue_depth_failed s \<noteq> 0 \<or> workflows_failed s \<noteq> 0 then
        ''Triage the dead-letter queue and failed workflows. '' @ back_quoted ''GET /queues/failed''
          @ '' lists each with timestamped error notes.''
      else if workflows_interrupted s \<noteq> 0 then
        ''Investigate why workflow(s) were interrupted. Likely causes: orchestrator restart, host crash, or workflow stuck in ''
          @ squote # ''running'' @ squote # '' past max-age.''
      else if workflows_running s \<noteq> 0 then
        ''Confirm in-flight workflows are progressing. '' @ back_quoted ''GET /workflows/{id}''
          @ '' shows the per-task chain.''
      else ''None. The runtime is in a clean state.'')"

definition decided_summary :: "daily_stats \<Rightarrow> string" where
  "decided_summary s =
     (if approvals_rejected s = 0 then ''all '' @ str_of_int (approvals_decided s) @ '' approved''
      else if approvals_approved s = 0 then ''all '' @ str_of_int (approvals_decided s) @ '' rejected''
      else str_of_int (approvals_approved s) @ '' approved, '' @ str_of_int (approvals_rejected s) @ '' rejected'')"

definition approval_backlog :: "daily_stats \<Rightarrow> string" where
  "approval_backlog s =
     (if approvals_pending s = 0 \<and> approvals_decided s = 0 then ''no approvals in the last 24h.''
      else
        join ''; ''
          ([str_of_int (approvals_pending s) @ '' pending'']
            @ (if approvals_decided s \<noteq> 0
               then [str_of_int (approvals_decided s) @ '' decided ('' @ decided_summary s @ '')'']
               else []))
        @ ''.'')"

definition summary_lines :: "daily_stats \<Rightarrow> datetime \<Rightarrow> string list" where
  "summary_lines s now =
     [''WiseOrder daily summary '' @ [em_dash] @ '' '' @ iso_date now @ '' (last 24 hours).'', []]
     @ [''**What changed**''] @ what_changed s @ [[]]
     @ [''**What failed**''] @ what_failed s @ [[]]
     @ [''**What matters most**''] @ what_matters s @ [[]]
     @ [''**Recommended next action**'', recommended_action s, []]
     @ [''**Approval backlog**'', approval_backlog s]"

text \<open>\<^verbatim>\<open>s.rstrip()\<close>\<close>

definition py_rstrip :: "string \<Rightarrow> string" where
  "py_rstrip s = rev (dropWhile is_space (rev s))"

definition format_summary :: "daily_stats \<Rightarrow> datetime \<Rightarrow> string" where
  "format_summary s now = py_rstrip (join [newline] (summary_lines s now)) @ [newline]"

section \<open>One run\<close>

definition daily_category :: string where
  "daily_category = ''daily_summary''"

text \<open>The row that keeps a summary.\<close>

definition summary_row :: "datetime \<Rightarrow> daily_stats \<Rightarrow> memory_row" where
  "summary_row now s =
     (blank_memory daily_category (format_summary s now))
       \<lparr>mem_meta :=
          [(''date'', JStr (iso_date now)),
           (''period_start_utc'', JStr (period_start_utc s)),
           (''period_end_utc'', JStr (period_end_utc s)),
           (''stats'', JObj (stats_to_dict s))]\<rparr>"

definition ran_on :: "string \<Rightarrow> memory_row \<Rightarrow> bool" where
  "ran_on today r \<longleftrightarrow> mem_meta r \<noteq> [] \<and> get_or (mem_meta r) ''date'' JNull = JStr today"

definition already_ran :: "int \<Rightarrow> string \<Rightarrow> dict" where
  "already_ran i today =
     [(''skipped'', JBool True), (''reason'', JStr ''already_ran_today''), (''memory_id'', JInt i),
      (''date'', JStr today)]"

text \<open>The newest summary, read and checked in the first session.\<close>

definition latest_summary :: "('r, 'd, 'v) env \<Rightarrow> ('r, 'd, 'v, memory_row option) act" where
  "latest_summary E =
     bnd (select_memories E (\<lambda>r. mem_category r = daily_category) Id_Desc (Some 1)) (\<lambda>rows.
     lift_sum (scalar_one_or_none rows))"

definition summary_path :: "('r, 'd, 'v) env \<Rightarrow> string" where
  "summary_path E = log_dir (cfg E) @ ''/daily_summary.jsonl''"

definition append_summary :: "('r, 'd, 'v) env \<Rightarrow> datetime \<Rightarrow> int \<Rightarrow> daily_stats \<Rightarrow> ('r, 'd, 'v, unit) act" where
  "append_summary E now i s =
     (let line = dumps (JObj
            [(''ts'', JStr (isoformat now)), (''date'', JStr (iso_date now)), (''memory_id'', JInt i),
             (''stats'', JObj (stats_to_dict s)), (''summary'', JStr (format_summary s now))]) @ [newline]
      in try_except
           (thn (record_call (File_Append (summary_path E) line))
             (bnd fresh_tick (\<lambda>k. lift_sum (append_file E (summary_path E) line k))))
           (\<lambda>e. ret ()))"

definition write_summary :: "('r, 'd, 'v) env \<Rightarrow> daily_env \<Rightarrow> datetime \<Rightarrow> ('r, 'd, 'v, dict) act" where
  "write_summary E D now =
     bnd (gather_stats E D (now - us_per_day) now) (\<lambda>s.
     bnd (session_scope E (add_memory E (summary_row now s))) (\<lambda>i.
     bnd fresh_tick (\<lambda>k.
     bnd (lift_sum (make_log_dir D k)) (\<lambda>_.
     bnd (append_summary E now i s) (\<lambda>_.
     ret [(''memory_id'', JInt i), (''date'', JStr (iso_date now)), (''summary'', JStr (format_summary s now)),
          (''stats'', JObj (stats_to_dict s))])))))"

definition run_daily_summary :: "('r, 'd, 'v) env \<Rightarrow> daily_env \<Rightarrow> ('r, 'd, 'v, dict) act" where
  "run_daily_summary E D =
     bnd (utc_now E) (\<lambda>now.
     bnd (session_scope E (latest_summary E)) (\<lambda>existing.
     case existing of
       Some r \<Rightarrow> if ran_on (iso_date now) r then ret (already_ran (mem_id r) (iso_date now)) else write_summary E D now
     | None \<Rightarrow> write_summary E D now))"

section \<open>The scheduler\<close>

text \<open>
  \<^verbatim>\<open>int(s)\<close>: white space around, a sign, decimal digits with single underscores between
  them.
\<close>

definition int_digits :: "string \<Rightarrow> int option" where
  "int_digits u =
     (if \<forall>g\<in>set (split_on (CHR ''_'') u). g \<noteq> [] \<and> (\<forall>c\<in>set g. is_digit c)
      then Some (int (nat_of_digits (concat (split_on (CHR ''_'') u)))) else None)"

definition py_int :: "string \<Rightarrow> exn + int" where
  "py_int s =
     (let t = py_strip s;
          r = (case t of
                 [] \<Rightarrow> None
               | c # u \<Rightarrow>
                   if c = CHR ''-'' then map_option uminus (int_digits u)
                   else if c = CHR ''+'' then int_digits u else int_digits t)
      in case r of
           None \<Rightarrow> Inl (ValueError (''invalid literal for int() with base 10: '' @ py_repr s))
         | Some i \<Rightarrow> Inr i)"

definition target_hour :: "daily_env \<Rightarrow> int option \<Rightarrow> exn + int" where
  "target_hour D hour_utc =
     (case hour_utc of
        Some h \<Rightarrow> Inr h
      | None \<Rightarrow> py_int (case summary_hour_var D of None \<Rightarrow> ''9'' | Some v \<Rightarrow> v))"

text \<open>
  Today at the hour, or tomorrow when that is not in the future;
  \<^verbatim>\<open>datetime.replace\<close> refuses an hour that is none.
\<close>

definition next_fire :: "int \<Rightarrow> datetime \<Rightarrow> exn + datetime" where
  "next_fire h now =
     (if h < 0 \<or> 23 < h then Inl (ValueError ''hour must be in 0..23'')
      else
        let fire = day_of now * us_per_day + h * 3600 * us_per_s
        in Inr (if fire \<le> now then fire + us_per_day else fire))"

text \<open>
  The loop, for at most \<open>n\<close> rounds: the value says whether it returned because a sleep was
  cancelled.
\<close>

fun schedule_rounds :: "('r, 'd, 'v) env \<Rightarrow> daily_env \<Rightarrow> int \<Rightarrow> nat \<Rightarrow> ('r, 'd, 'v, bool) act" where
  "schedule_rounds E D h 0 = ret False"
| "schedule_rounds E D h (Suc n) =
     bnd (utc_now E) (\<lambda>now.
     bnd (lift_sum (next_fire h now)) (\<lambda>fire.
     bnd fresh_tick (\<lambda>k.
       if sleep_cancelled D k then ret True
       else
         thn (try_except (bnd (run_daily_summary E D) (\<lambda>_. ret ())) (\<lambda>e. ret ()))
           (schedule_rounds E D h n))))"

definition schedule_daily_summary :: "('r, 'd, 'v) env \<Rightarrow> daily_env \<Rightarrow> int option \<Rightarrow> nat \<Rightarrow> ('r, 'd, 'v, bool) act" where
  "schedule_daily_summary E D hour_utc n =
     bnd (lift_sum (target_hour D hour_utc)) (\<lambda>h. schedule_rounds E D h n)"

section \<open>What the counts mean\<close>

lemma session_body_count:
  assumes "table_laws (pg E) T rows upd key stamp"
  shows "session_body E (on_pg (tb_count_by T P f desc n))
    (\<lambda>t res t'. t' = t \<and> counts_by P f desc n (rows t) res)"
  by (rule session_bodyI)
    (auto split: prod.splits sum.splits simp: db_def in_session_def dest: table_lawsD(4,8) [OF assms])

lemmas session_body_counts =
  session_body_count [OF pg_laws_tables(1), folded count_tasks_def]
  session_body_count [OF pg_laws_tables(2), folded count_workflows_def]
  session_body_count [OF pg_laws_tables(4), folded count_approvals_def]

lemma map_of_rev_distinct: "distinct (map fst kvs) \<Longrightarrow> map_of (rev kvs) = map_of kvs"
  by (rule map_of_inject_set [THEN iffD2]) (auto simp: rev_map [symmetric])

lemma map_of_apfst:
  "\<forall>k'\<in>fst ` set kvs. h k' = h k \<longrightarrow> k' = k \<Longrightarrow> map_of (map (apfst h) kvs) (h k) = map_of kvs k"
  by (induction kvs) (auto simp: apfst_def map_prod_def)

text \<open>A dict made of a grouped count gives the number of rows of a key.\<close>

definition number_of :: "('row \<Rightarrow> bool) \<Rightarrow> 'row list \<Rightarrow> int" where
  "number_of P rows = int (length (filter P rows))"

lemma count_of_counts:
  assumes "counts_by P f False None rows res"
    and inj: "\<forall>r\<in>set rows. P r \<longrightarrow> h (f r) = h k \<longrightarrow> f r = k"
  shows "count_of (map (apfst h) res) (h k) = number_of (\<lambda>r. P r \<and> f r = k) rows"
proof -
  from assms(1) have d: "distinct (map fst res)" and keys: "fst ` set res = f ` set (filter P rows)"
    and n: "\<forall>(k, n)\<in>set res. n = int (length (filter (\<lambda>r. P r \<and> f r = k) rows))"
    by (auto simp: counts_by_def take_limit_def)
  have only: "\<forall>k'\<in>fst ` set res. h k' = h k \<longrightarrow> k' = k"
    unfolding keys using inj by auto
  have "map_of (rev (map (apfst h) res)) (h k) = map_of (map (apfst h) (rev res)) (h k)"
    by (simp add: rev_map)
  also have "\<dots> = map_of (rev res) k"
    using only by (intro map_of_apfst) simp
  also have "\<dots> = map_of res k" by (simp add: map_of_rev_distinct [OF d])
  finally have m: "map_of (rev (map (apfst h) res)) (h k) = map_of res k" .
  show ?thesis
  proof (cases "map_of res k")
    case None
    then have "k \<notin> f ` set (filter P rows)" by (simp add: map_of_eq_None_iff keys)
    then have "filter (\<lambda>r. P r \<and> f r = k) rows = []" by (auto simp: filter_empty_conv)
    with m None show ?thesis by (simp add: count_of_def number_of_def)
  next
    case (Some n)
    then have "(k, n) \<in> set res" by (rule map_of_SomeD)
    with assms m Some n show ?thesis by (auto simp: count_of_def number_of_def)
  qed
qed

lemma count_of_statuses:
  assumes "counts_by P (\<lambda>r. Some (g r)) False None rows res"
  shows "count_of (map (apfst column_text) res) k = number_of (\<lambda>r. P r \<and> g r = k) rows"
  using count_of_counts [OF assms, of column_text "Some k"] by (simp add: column_text_def)

text \<open>A ranking: at most five entries, each with its number of rows, in falling order, and
  nothing that is left out has more rows than what is in.\<close>

definition ranked :: "nat \<Rightarrow> ('k \<Rightarrow> int) \<Rightarrow> ('k \<times> int) list \<Rightarrow> bool" where
  "ranked m c kns \<longleftrightarrow>
     length kns \<le> m \<and> distinct (map fst kns) \<and> sorted (rev (map snd kns)) \<and>
     (\<forall>(k, n)\<in>set kns. n = c k \<and> 0 < n) \<and>
     (\<forall>k. k \<notin> fst ` set kns \<longrightarrow> 0 < c k \<longrightarrow> length kns = m \<and> (\<forall>(k', n)\<in>set kns. c k \<le> n))"

lemma ranked_take:
  assumes "distinct (map fst kns)" and "sorted (rev (map snd kns))"
    and c: "\<forall>(k, n)\<in>set kns. n = c k \<and> 0 < n" and all: "\<forall>k. 0 < c k \<longrightarrow> k \<in> fst ` set kns"
  shows "ranked m c (take m kns)"
proof -
  have left: "length (take m kns) = m \<and> (\<forall>(k', n)\<in>set (take m kns). c k \<le> n)"
    if "k \<notin> fst ` set (take m kns)" "0 < c k" for k
  proof -
    from all that(2) obtain n where n: "(k, n) \<in> set kns" by force
    with c have "n = c k" by blast
    from n have "(k, n) \<in> set (take m kns) \<or> (k, n) \<in> set (drop m kns)"
      by (metis UnE append_take_drop_id set_append)
    with that(1) have d: "(k, n) \<in> set (drop m kns)" by force
    then have "length (take m kns) = m" by (cases "m \<le> length kns") auto
    moreover have "n \<le> n'" if "(k', n') \<in> set (take m kns)" for k' n'
    proof -
      have "sorted (map snd (rev (drop m kns)) @ map snd (rev (take m kns)))"
        using assms(2) by (metis append_take_drop_id map_append rev_append rev_map)
      then have "\<forall>x\<in>set (map snd (drop m kns)). \<forall>y\<in>set (map snd (take m kns)). x \<le> y"
        by (auto simp: sorted_append)
      with d that show ?thesis by force
    qed
    ultimately show ?thesis using \<open>n = c k\<close> by auto
  qed
  have "sorted (rev (map snd (take m kns)))"
    using assms(2) by (metis append_take_drop_id map_append rev_append sorted_append)
  with assms(1) c left show ?thesis
    unfolding ranked_def by (auto simp: take_map [symmetric] dest: in_set_takeD)
qed

lemma first_seen_simps [simp]: "set (first_seen xs) = set xs" "distinct (first_seen xs)"
  by (simp_all add: first_seen_def)

lemma count_list_pos: "0 < count_list xs k \<longleftrightarrow> k \<in> set xs"
  by (metis count_list_0_iff neq0_conv)

lemma most_common_ranked: "ranked n (\<lambda>k. int (count_list xs k)) (most_common n (counter xs))"
  unfolding most_common_def
proof (rule ranked_take)
  let ?s = "sort_key (\<lambda>kn. - snd kn) (counter xs)"
  have "mset (map fst ?s) = mset (map fst (counter xs))" by (simp add: mset_map)
  moreover have "map fst (counter xs) = first_seen xs" by (simp add: counter_def comp_def)
  ultimately show "distinct (map fst ?s)" by (metis first_seen_simps(2) mset_eq_imp_distinct_iff)
  have "sorted (map (\<lambda>kn. - snd kn) ?s)" by simp
  then show "sorted (rev (map snd ?s))" by (simp add: sorted_wrt_map sorted_wrt_rev rev_map)
  show "\<forall>(k, n)\<in>set ?s. n = int (count_list xs k) \<and> 0 < n"
    by (auto simp: counter_def count_list_pos)
  show "\<forall>k. 0 < int (count_list xs k) \<longrightarrow> k \<in> fst ` set ?s"
    by (auto simp: counter_def image_image count_list_pos)
qed

lemma counts_ranked:
  assumes "counts_by P (\<lambda>r. Some (g r)) True (Some m) rows res"
  shows "ranked m (\<lambda>k. number_of (\<lambda>r. P r \<and> g r = k) rows) (map (apfst column_text) res)"
proof -
  from assms obtain ys where ys: "distinct (map fst ys)" "fst ` set ys = (\<lambda>r. Some (g r)) ` set (filter P rows)"
    "\<forall>(k, n)\<in>set ys. n = int (length (filter (\<lambda>r. P r \<and> Some (g r) = k) rows))"
    "sorted (rev (map snd ys))" "res = take m ys"
    by (auto simp: counts_by_def take_limit_def)
  have key: "\<exists>r. r \<in> set rows \<and> P r \<and> fst y = Some (g r)" if "y \<in> set ys" for y
  proof -
    from that have "fst y \<in> (\<lambda>r. Some (g r)) ` set (filter P rows)" unfolding ys(2) [symmetric] by (rule imageI)
    then show ?thesis by auto
  qed
  have "ranked m (\<lambda>k. number_of (\<lambda>r. P r \<and> g r = k) rows) (take m (map (apfst column_text) ys))"
  proof (rule ranked_take)
    have "inj_on column_text (set (map fst ys))"
      by (rule inj_onI) (auto simp: column_text_def dest!: key)
    moreover have "map fst (map (apfst column_text) ys) = map column_text (map fst ys)" by simp
    ultimately show "distinct (map fst (map (apfst column_text) ys))"
      using ys(1) by (simp only: distinct_map [of column_text])
    show "sorted (rev (map snd (map (apfst column_text) ys)))" using ys(4) by (simp add: comp_def)
    show "\<forall>(k, n)\<in>set (map (apfst column_text) ys). n = number_of (\<lambda>r. P r \<and> g r = k) rows \<and> 0 < n"
    proof clarify
      fix k n assume "(k, n) \<in> set (map (apfst column_text) ys)"
      then obtain k' where k': "(k', n) \<in> set ys" "k = column_text k'" by auto
      from key [OF k'(1)] obtain r where r: "r \<in> set rows" "P r" "k' = Some (g r)" by auto
      then have "filter (\<lambda>x. P x \<and> Some (g x) = k') rows \<noteq> []" by (auto simp: filter_empty_conv)
      with ys(3) k' r show "n = number_of (\<lambda>r. P r \<and> g r = k) rows \<and> 0 < n"
        by (auto simp: column_text_def number_of_def)
    qed
    show "\<forall>k. 0 < number_of (\<lambda>r. P r \<and> g r = k) rows \<longrightarrow> k \<in> fst ` set (map (apfst column_text) ys)"
    proof (intro allI impI)
      fix k assume "0 < number_of (\<lambda>r. P r \<and> g r = k) rows"
      then obtain r where "r \<in> set rows" "P r" "g r = k" by (auto simp: number_of_def filter_empty_conv)
      with ys(2) have "Some k \<in> fst ` set ys" by auto
      then show "k \<in> fst ` set (map (apfst column_text) ys)"
        by (force simp: column_text_def image_iff)
    qed
  qed
  with ys(5) show ?thesis by (simp add: take_map)
qed

text \<open>What the session of \<^verbatim>\<open>_gather_stats\<close> reads from the tables \<open>t\<close>.\<close>

definition failed_with_error :: "datetime \<Rightarrow> datetime \<Rightarrow> task \<Rightarrow> bool" where
  "failed_with_error a b r \<longleftrightarrow> task_status r = ''failed'' \<and> in_period a b (task_created_at r) \<and> task_error r \<noteq> None"

definition shapes_of :: "task list \<Rightarrow> string \<Rightarrow> int" where
  "shapes_of rows k = int (count_list (map (\<lambda>r. classify_error (error_text r)) rows) k)"

definition counts_right :: "datetime \<Rightarrow> datetime \<Rightarrow> tables \<Rightarrow> db_counts \<Rightarrow> bool" where
  "counts_right a b t c \<longleftrightarrow>
     (\<forall>k. count_of (dc_workflows c) k = number_of (\<lambda>r. in_period a b (wf_created_at r) \<and> wf_status r = k) (workflows t)) \<and>
     (\<forall>k. count_of (dc_tasks c) k = number_of (\<lambda>r. in_period a b (task_created_at r) \<and> task_status r = k) (tasks t)) \<and>
     (\<forall>k. (\<forall>r\<in>set (approvals t). decision_key (apr_decision r) = decision_key k \<longrightarrow> apr_decision r = k) \<longrightarrow>
        count_of (dc_approvals c) (decision_key k) =
          number_of (\<lambda>r. in_period a b (apr_created_at r) \<and> apr_decision r = k) (approvals t)) \<and>
     ranked 5 (\<lambda>k. number_of (\<lambda>r. in_period a b (wf_created_at r) \<and> workflow_name r = k) (workflows t)) (dc_names c) \<and>
     (\<exists>errs. mset errs \<subseteq># mset (filter (failed_with_error a b) (tasks t)) \<and>
        length errs = min 200 (length (filter (failed_with_error a b) (tasks t))) \<and>
        ranked 5 (shapes_of errs) (dc_failures c))"

lemma selects_some:
  assumes "selects key P Unordered (Some n) tbl rows"
  shows "mset rows \<subseteq># mset (filter P tbl)" and "length rows = min n (length (filter P tbl))"
proof -
  from assms obtain ys where ys: "mset ys = mset (filter P tbl)" "rows = take n ys"
    by (auto simp: selects_def take_limit_def)
  have "mset (take n ys) \<subseteq># mset ys"
    by (metis append_take_drop_id mset_append mset_subset_eq_add_left)
  with ys show "mset rows \<subseteq># mset (filter P tbl)" by simp
  from ys(1) have "length ys = length (filter P tbl)" by (rule mset_eq_length)
  with ys(2) show "length rows = min n (length (filter P tbl))" by (simp add: min.commute)
qed

lemma body_gather_counts:
  assumes "pg_laws (pg E)"
  shows "wp (gather_counts E a b) (\<lambda>c w'. only_db w w' \<and> db E w' = db E w \<and> counts_right a b (db E w) c)
    (\<lambda>e w'. only_db w w' \<and> db E w' = db E w) w"
proof -
  let ?in = "\<lambda>r. in_period a b (wf_created_at r)"
  note counts = session_body_counts [OF assms]
  show ?thesis
    unfolding gather_counts_def
  proof (rule wp_session_scope [OF assms session_body_bnd [OF counts(2) session_body_bnd [OF counts(1)
        session_body_bnd [OF counts(3) session_body_bnd [OF counts(2) session_body_bnd [OF
        session_body_statements(5) [OF assms] session_body_ret]]]]]])
    fix c w'
    assume "only_db w w'"
    assume "\<exists>wfs t1. (t1 = db E w \<and> counts_by ?in (\<lambda>r. Some (wf_status r)) False None (workflows (db E w)) wfs) \<and>
      (\<exists>tks t2. (t2 = t1 \<and> counts_by (\<lambda>r. in_period a b (task_created_at r)) (\<lambda>r. Some (task_status r)) False None (tasks t1) tks) \<and>
      (\<exists>aps t3. (t3 = t2 \<and> counts_by (\<lambda>r. in_period a b (apr_created_at r)) apr_decision False None (approvals t2) aps) \<and>
      (\<exists>names t4. (t4 = t3 \<and> counts_by ?in (\<lambda>r. Some (workflow_name r)) True (Some 5) (workflows t3) names) \<and>
      (\<exists>errs t5. (t5 = t4 \<and> selects task_id (\<lambda>r. task_status r = ''failed'' \<and> in_period a b (task_created_at r) \<and> task_error r \<noteq> None)
           Unordered (Some 200) (tasks t4) errs) \<and>
        c = \<lparr>dc_workflows = map (apfst column_text) wfs, dc_tasks = map (apfst column_text) tks,
             dc_approvals = map (apfst decision_key) aps, dc_names = map (apfst column_text) names,
             dc_failures = most_common 5 (counter (map (\<lambda>r. classify_error (error_text r)) errs))\<rparr> \<and> db E w' = t5))))"
    then obtain wfs tks aps names errs where
      1: "counts_by ?in (\<lambda>r. Some (wf_status r)) False None (workflows (db E w)) wfs"
        "counts_by (\<lambda>r. in_period a b (task_created_at r)) (\<lambda>r. Some (task_status r)) False None (tasks (db E w)) tks"
      and 2: "counts_by (\<lambda>r. in_period a b (apr_created_at r)) apr_decision False None (approvals (db E w)) aps"
      and 3: "counts_by ?in (\<lambda>r. Some (workflow_name r)) True (Some 5) (workflows (db E w)) names"
      and 4: "selects task_id (failed_with_error a b) Unordered (Some 200) (tasks (db E w)) errs"
      and c: "c = \<lparr>dc_workflows = map (apfst column_text) wfs, dc_tasks = map (apfst column_text) tks,
             dc_approvals = map (apfst decision_key) aps, dc_names = map (apfst column_text) names,
             dc_failures = most_common 5 (counter (map (\<lambda>r. classify_error (error_text r)) errs))\<rparr>"
      and same: "db E w' = db E w"
      by (auto simp: failed_with_error_def [abs_def])
    have "counts_right a b (db E w) c"
      unfolding counts_right_def c db_counts.simps
    proof (intro conjI allI impI)
      show "\<exists>rows. mset rows \<subseteq># mset (filter (failed_with_error a b) (tasks (db E w))) \<and>
          length rows = min 200 (length (filter (failed_with_error a b) (tasks (db E w)))) \<and>
          ranked 5 (shapes_of rows) (most_common 5 (counter (map (\<lambda>r. classify_error (error_text r)) errs)))"
        using selects_some [OF 4] most_common_ranked [of 5 "map (\<lambda>r. classify_error (error_text r)) errs"]
        by (intro exI [of _ errs]) (simp add: shapes_of_def [abs_def])
    qed (use 1 2 3 in \<open>auto intro: count_of_statuses count_of_counts counts_ranked\<close>)
    with same \<open>only_db w w'\<close> show "only_db w w' \<and> db E w' = db E w \<and> counts_right a b (db E w) c" by blast
  qed simp
qed

text \<open>The number of jobs in a queue.\<close>

definition queue_length :: "('r, 'd, 'v) env \<Rightarrow> ('r, 'd, 'v) world \<Rightarrow> queue_name \<Rightarrow> int" where
  "queue_length E w q = int (length (vw_lists (redis E) (w_redis w) (queue_value q)))"

lemma wp_depth:
  assumes "redis_laws (redis E)" and "vw_lists (redis E) (w_redis w) = ls" and "db E w = t"
    and "\<And>w'. vw_lists (redis E) (w_redis w') = ls \<Longrightarrow> db E w' = t \<Longrightarrow> Q (int (length (ls (queue_value q)))) w'"
    and "\<And>e w'. db E w' = t \<Longrightarrow> X e w'"
  shows "wp (depth E q) Q X w"
  using assms(2-)
  by (auto simp: depth_def split: prod.splits sum.splits dest: redis_llen [OF assms(1)])

lemma wp_all_depths:
  assumes laws: "redis_laws (redis E)"
    and ret: "\<And>ds w'. \<forall>q. count_of ds (queue_label q) = queue_length E w q \<Longrightarrow> db E w' = db E w \<Longrightarrow> Q ds w'"
    and exc: "\<And>e w'. db E w' = db E w \<Longrightarrow> X e w'"
  shows "wp (all_depths E) Q X w"
proof -
  have fin: "\<forall>q. count_of [(queue_label HIGH, queue_length E w HIGH), (queue_label NORMAL, queue_length E w NORMAL),
      (queue_label FAILED, queue_length E w FAILED)] (queue_label q) = queue_length E w q"
    by (rule allI, case_tac q) (simp_all add: count_of_def)
  show ?thesis
    unfolding all_depths_def queue_names collect_each.simps wp_bnd wp_ret
    by (intro wp_depth [OF laws refl refl] wp_depth [OF laws]; (assumption | rule exc | rule ret)?)
      (use fin in \<open>simp_all add: queue_length_def\<close>)
qed

definition stats_right :: "datetime \<Rightarrow> datetime \<Rightarrow> tables \<Rightarrow> (queue_name \<Rightarrow> int) \<Rightarrow> daily_stats \<Rightarrow> bool" where
  "stats_right a b t lengths s \<longleftrightarrow>
     (\<exists>c ds n. s = stats_of a b c ds n \<and> counts_right a b t c \<and> (\<forall>q. count_of ds (queue_label q) = lengths q))"

lemma wp_gather_stats:
  assumes "pg_laws (pg E)" and "redis_laws (redis E)"
  shows "wp (gather_stats E D a b)
    (\<lambda>s w'. db E w' = db E w \<and> stats_right a b (db E w) (queue_length E w) s)
    (\<lambda>e w'. db E w' = db E w) w"
  unfolding gather_stats_def wp_bnd
proof (rule wp_mono [OF body_gather_counts [OF assms(1)]])
  fix c w1 assume w1: "only_db w w1 \<and> db E w1 = db E w \<and> counts_right a b (db E w) c"
  then have len: "queue_length E w1 q = queue_length E w q" for q
    by (simp add: queue_length_def only_db_def)
  show "wp (all_depths E) (\<lambda>ds. wp fresh_tick (\<lambda>k. wp (lift_sum (count_recent_error_lines D k))
      (\<lambda>n. wp (ret (stats_of a b c ds n)) (\<lambda>s w'. db E w' = db E w \<and> stats_right a b (db E w) (queue_length E w) s)
       (\<lambda>e w'. db E w' = db E w)) (\<lambda>e w'. db E w' = db E w)) (\<lambda>e w'. db E w' = db E w)) (\<lambda>e w'. db E w' = db E w) w1"
    by (rule wp_all_depths [OF assms(2)]) (use w1 len in \<open>auto simp: stats_right_def split: sum.splits\<close>)
qed simp

section \<open>One summary a day\<close>

text \<open>The rows of summaries, and the newest of them.\<close>

definition summaries :: "tables \<Rightarrow> memory_row list" where
  "summaries t = filter (\<lambda>r. mem_category r = daily_category) (memories t)"

definition newest :: "memory_row list \<Rightarrow> memory_row option \<Rightarrow> bool" where
  "newest rows x \<longleftrightarrow>
     (case x of None \<Rightarrow> rows = [] | Some r \<Rightarrow> r \<in> set rows \<and> (\<forall>r'\<in>set rows. mem_id r' \<le> mem_id r))"

lemma selects_newest:
  assumes "selects mem_id (\<lambda>r. mem_category r = daily_category) Id_Desc (Some 1) (memories t) rows"
    and "scalar_one_or_none rows = Inr x"
  shows "newest (summaries t) x"
proof -
  from assms(1) obtain ys where ys: "mset ys = mset (summaries t)" "rows = take 1 ys" "sorted (rev (map mem_id ys))"
    by (auto simp: selects_def take_limit_def summaries_def)
  from ys(1) have set: "set (summaries t) = set ys" by (rule mset_eq_setD [symmetric])
  show ?thesis
  proof (cases ys)
    case Nil
    with ys assms(2) show ?thesis by (simp add: newest_def scalar_one_or_none_def)
  next
    case (Cons y zs)
    with ys(2) assms(2) have "x = Some y" by (simp add: scalar_one_or_none_def)
    moreover have "\<forall>r\<in>set ys. mem_id r \<le> mem_id y" using ys(3) Cons by (auto simp: sorted_append)
    ultimately show ?thesis using Cons set by (simp add: newest_def)
  qed
qed

lemma body_latest_summary:
  "pg_laws (pg E) \<Longrightarrow> session_body E (latest_summary E) (\<lambda>t x t'. t' = t \<and> newest (summaries t) x)"
  unfolding latest_summary_def
  by (rule session_body_weaken [OF session_body_bnd [OF session_body_statements(7) session_body_lift]])
    (auto dest: selects_newest simp del: One_nat_def)

text \<open>
  What a run does to the tables: nothing when the newest summary has the date of the run, else it
  adds one summary row; a run that raises may have added it.
\<close>

definition written :: "tables \<Rightarrow> datetime \<Rightarrow> daily_stats \<Rightarrow> int \<Rightarrow> tables \<Rightarrow> bool" where
  "written t now s i t' \<longleftrightarrow>
     0 < i \<and> i \<notin> mem_id ` set (memories t) \<and>
     (\<exists>ts. t' = memories_update (\<lambda>rs. rs @ [stamp_memory i ts (summary_row now s)]) t)"

definition summary_report :: "datetime \<Rightarrow> daily_stats \<Rightarrow> int \<Rightarrow> dict" where
  "summary_report now s i =
     [(''memory_id'', JInt i), (''date'', JStr (iso_date now)), (''summary'', JStr (format_summary s now)),
      (''stats'', JObj (stats_to_dict s))]"

lemma wp_append_summary:
  "wp (append_summary E now i s) (\<lambda>_ w'. db E w' = db E w) (\<lambda>e w'. e = CancelledError \<and> db E w' = db E w) w"
  by (auto simp: append_summary_def Let_def split: sum.splits)

lemma wp_write_summary:
  assumes laws: "pg_laws (pg E)" "redis_laws (redis E)"
  shows "wp (write_summary E D now)
    (\<lambda>d w'. \<exists>s i. d = summary_report now s i \<and> written (db E w) now s i (db E w') \<and>
       stats_right (now - us_per_day) now (db E w) (queue_length E w) s)
    (\<lambda>e w'. db E w' = db E w \<or> (\<exists>s i. written (db E w) now s i (db E w'))) w"
  (is "wp _ ?Q ?X w")
  unfolding write_summary_def wp_bnd
proof (rule wp_mono [OF wp_gather_stats [OF laws]])
  fix s w1
  assume w1: "db E w1 = db E w \<and> stats_right (now - us_per_day) now (db E w) (queue_length E w) s"
  let ?rest = "\<lambda>i. wp fresh_tick (\<lambda>k. wp (lift_sum (make_log_dir D k)) (\<lambda>_. wp (append_summary E now i s)
      (\<lambda>_. wp (ret (summary_report now s i)) ?Q ?X) ?X) ?X) ?X"
  have tail: "?rest i w2" if w2: "written (db E w) now s i (db E w2)" for i w2
  proof -
    have "wp (append_summary E now i s) (\<lambda>_. wp (ret (summary_report now s i)) ?Q ?X) ?X w3"
      if "db E w3 = db E w2" for w3
      by (rule wp_mono [OF wp_append_summary]) (use w1 w2 that in \<open>auto\<close>)
    with w2 show ?thesis by (auto split: sum.splits)
  qed
  show "wp (session_scope E (add_memory E (summary_row now s))) (\<lambda>i. wp fresh_tick (\<lambda>k. wp (lift_sum (make_log_dir D k))
      (\<lambda>_. wp (append_summary E now i s) (\<lambda>_. wp (ret [(''memory_id'', JInt i), (''date'', JStr (iso_date now)),
        (''summary'', JStr (format_summary s now)), (''stats'', JObj (stats_to_dict s))]) ?Q ?X) ?X) ?X) ?X) ?X w1"
    unfolding summary_report_def [symmetric]
  proof (rule wp_session_scope [OF laws(1) session_body_statements(3) [OF laws(1)]])
    fix i w2 assume "0 < i \<and> i \<notin> mem_id ` set (memories (db E w1)) \<and>
      (\<exists>ts. db E w2 = memories_update (\<lambda>rs. rs @ [stamp_memory i ts (summary_row now s)]) (db E w1))"
    with w1 show "?rest i w2" by (intro tail) (simp add: written_def)
  qed (use w1 in simp)
qed auto

lemma wp_run_daily_summary:
  fixes E :: "('r, 'd, 'v) env"
  assumes laws: "pg_laws (pg E)" "redis_laws (redis E)" and now: "clock E (w_tick w) = now"
  shows "wp (run_daily_summary E D)
    (\<lambda>d w'. \<exists>x. newest (summaries (db E w)) x \<and>
       (case x of
          Some r \<Rightarrow> ran_on (iso_date now) r \<and> d = already_ran (mem_id r) (iso_date now) \<and> db E w' = db E w
        | None \<Rightarrow> False) \<or>
       newest (summaries (db E w)) x \<and> (case x of Some r \<Rightarrow> \<not> ran_on (iso_date now) r | None \<Rightarrow> True) \<and>
         (\<exists>s i. d = summary_report now s i \<and> written (db E w) now s i (db E w') \<and>
            stats_right (now - us_per_day) now (db E w) (queue_length E w) s))
    (\<lambda>e w'. db E w' = db E w \<or> (\<exists>s i. written (db E w) now s i (db E w'))) w"
  (is "wp _ ?Q ?X w")
  unfolding run_daily_summary_def wp_bnd wp_utc_now now
proof (rule wp_session_scope [OF laws(1) body_latest_summary [OF laws(1)]])
  let ?w = "w\<lparr>w_tick := Suc (w_tick w)\<rparr>"
  fix x w1 assume only: "only_db ?w w1" and x: "db E w1 = db E ?w \<and> newest (summaries (db E ?w)) x"
  then have len: "queue_length E w1 = queue_length E w" by (simp add: queue_length_def only_db_def fun_eq_iff)
  have new: "wp (write_summary E D now) ?Q ?X w1" if "case x of Some r \<Rightarrow> \<not> ran_on (iso_date now) r | None \<Rightarrow> True"
    by (rule wp_mono [OF wp_write_summary [OF laws, of D now w1]]) (use x that len in auto)
  show "wp (case x of None \<Rightarrow> write_summary E D now
     | Some r \<Rightarrow> if ran_on (iso_date now) r then ret (already_ran (mem_id r) (iso_date now)) else write_summary E D now) ?Q ?X w1"
    using x new by (cases x) (auto intro!: exI [of _ x])
qed simp

lemma newest_of_last:
  assumes "newest (rs @ [r]) (Some r')" and "\<forall>x\<in>set rs. mem_id x < mem_id r"
  shows "r' = r"
  using assms by (auto simp: newest_def)

lemma newest_unique:
  "newest rs (Some r) \<Longrightarrow> newest rs (Some r') \<Longrightarrow> distinct (map mem_id rs) \<Longrightarrow> r = r'"
  by (auto simp: newest_def distinct_map dest: inj_onD intro: antisym)

lemma summaries_written:
  "written t now s i t' \<Longrightarrow> \<exists>ts. summaries t' = summaries t @ [stamp_memory i ts (summary_row now s)]"
  by (auto simp: written_def summaries_def stamp_memory_def summary_row_def blank_memory_def)

section \<open>The lines of the text\<close>

definition headings :: "string list" where
  "headings = [''**What changed**'', ''**What failed**'', ''**What matters most**'', ''**Recommended next action**'',
     ''**Approval backlog**'']"

text \<open>A line between the headings: it holds no line break and does not look like a heading.\<close>

definition body_line :: "string \<Rightarrow> bool" where
  "body_line l \<longleftrightarrow> newline \<notin> set l \<and> (l = [] \<or> hd l \<noteq> CHR ''*'')"

lemma str_of_int_chars: "c \<in> set (str_of_int i) \<Longrightarrow> is_digit c \<or> c = CHR ''-''"
  by (auto simp: str_of_int_def dest: str_of_nat_digits split: if_splits)

lemma str_of_int_nonempty [simp]: "str_of_int i \<noteq> []"
  by (simp add: str_of_int_def)

lemma str_of_int_plain [simp]: "newline \<notin> set (str_of_int i)" "hd (str_of_int i) \<noteq> CHR ''*''"
proof -
  show "newline \<notin> set (str_of_int i)"
    using str_of_int_chars [of newline i] by (auto simp: newline_def is_digit_def)
  have "hd (str_of_int i) \<in> set (str_of_int i)" by (rule hd_in_set) simp
  from str_of_int_chars [OF this] show "hd (str_of_int i) \<noteq> CHR ''*''" by (auto simp: is_digit_def)
qed

lemmas str_of_int_no_break [simp] = str_of_int_plain(1) [unfolded newline_def]

lemma set_join: "set (join sep xs) \<subseteq> set sep \<union> (\<Union>x\<in>set xs. set x)"
  by (induction sep xs rule: join.induct) auto

lemma newline_join: "newline \<notin> set sep \<Longrightarrow> \<forall>x\<in>set xs. newline \<notin> set x \<Longrightarrow> newline \<notin> set (join sep xs)"
  using set_join by fastforce

lemma hd_join: "x \<noteq> [] \<Longrightarrow> hd (join sep (x # xs)) = hd x" "x \<noteq> [] \<Longrightarrow> join sep (x # xs) \<noteq> []"
  by (cases xs; simp)+

lemma newline_iso_date: "newline \<notin> set (iso_date t)"
  by (auto simp: iso_date_def zpad_def newline_def split: prod.splits dest: str_of_int_chars simp: is_digit_def)

definition tidy :: "(string \<times> int) list \<Rightarrow> bool" where
  "tidy kns \<longleftrightarrow> (\<forall>(k, n)\<in>set kns. newline \<notin> set k)"

lemma tidy_Cons [simp]: "tidy ((k, n) # kns) \<longleftrightarrow> newline \<notin> set k \<and> tidy kns" "tidy []"
  by (simp_all add: tidy_def)

lemma body_line_join:
  assumes "newline \<notin> set sep" and "newline \<notin> set x" and "\<forall>y\<in>set xs. newline \<notin> set y"
  shows "body_line (join sep ((str_of_int i @ x) # xs) @ ''.'')"
proof -
  have "newline \<notin> set (join sep ((str_of_int i @ x) # xs))"
    by (rule newline_join) (use assms str_of_int_plain(1) in auto)
  then show ?thesis by (simp add: body_line_def hd_join newline_def)
qed

lemma body_what_changed:
  assumes "tidy (most_common_workflow_names s)"
  shows "\<forall>l\<in>set (what_changed s). body_line l"
proof -
  have "body_line (join '', '' ((str_of_int (workflows_completed s) @ '' workflow(s) completed'') # xs) @ ''.'')"
    if "\<forall>y\<in>set xs. newline \<notin> set y" for xs
    by (rule body_line_join) (use that in \<open>auto simp: newline_def\<close>)
  moreover have "body_line (''most common: '' @ back_quoted name @ '' ('' @ str_of_int n @ ''x).'')"
    if "most_common_workflow_names s = (name, n) # kns" for name n kns
    using assms that by (simp add: body_line_def back_quoted_def newline_def)
  moreover have "body_line (''nothing '' @ [em_dash] @ '' the runtime was idle.'')"
    by (simp add: body_line_def newline_def em_dash_def)
  ultimately show ?thesis
    unfolding what_changed_def append_Cons append_Nil
    by (cases "most_common_workflow_names s") (auto simp: newline_def simp del: join.simps)
qed

lemma body_failure_shapes:
  assumes "tidy kns"
  shows "\<forall>l\<in>set (failure_shapes kns). body_line l"
proof -
  let ?shown = "join '', '' (map (\<lambda>(k, n). back_quoted k @ '' ('' @ str_of_int n @ '')'') (take 3 kns))"
  have tidy: "tidy (take 3 kns)" using assms by (auto simp: tidy_def dest: in_set_takeD)
  then have "newline \<notin> set ?shown"
    by (intro newline_join) (auto simp: tidy_def back_quoted_def newline_def)
  then have many: "body_line (''top failure shapes: '' @ ?shown @ ''.'')" by (simp add: body_line_def newline_def)
  have one: "body_line (''failure shape: '' @ back_quoted k @ '' ('' @ str_of_int n @ '' task(s)).'')"
    if "take 3 kns = [(k, n)]" for k n
    using tidy unfolding that by (simp add: body_line_def back_quoted_def newline_def)
  show ?thesis
  proof (cases "take 3 kns")
    case (Cons kn rest)
    with many one show ?thesis by (cases kn; cases rest) (simp_all add: failure_shapes_def del: join.simps)
  qed (simp add: failure_shapes_def)
qed

lemma body_what_failed:
  "tidy (most_common_failure_types s) \<Longrightarrow> \<forall>l\<in>set (what_failed s). body_line l"
  using body_failure_shapes [of "most_common_failure_types s"]
  by (auto simp: what_failed_def) (auto simp: body_line_def newline_def back_quoted_def)

lemma body_rest:
  "\<forall>l\<in>set (what_matters s). body_line l" "body_line (recommended_action s)" "body_line (approval_backlog s)"
proof -
  show "\<forall>l\<in>set (what_matters s). body_line l"
    by (auto simp: what_matters_def matter_lines_def body_line_def newline_def em_dash_def squote_def)
  show "body_line (recommended_action s)"
    by (simp add: recommended_action_def body_line_def newline_def back_quoted_def squote_def)
  have "newline \<notin> set (decided_summary s)" by (simp add: decided_summary_def newline_def)
  then have "body_line (join ''; '' ((str_of_int (approvals_pending s) @ '' pending'')
      # (if approvals_decided s \<noteq> 0 then [str_of_int (approvals_decided s) @ '' decided ('' @ decided_summary s @ '')''] else [])) @ ''.'')"
    by (intro body_line_join) (auto simp: newline_def)
  then show "body_line (approval_backlog s)"
    by (auto simp: approval_backlog_def body_line_def newline_def)
qed

section \<open>Properties\<close>

text \<open>The statistics as numbers of rows, on approvals that are decided one way or the other.\<close>

lemma stats_numbers:
  assumes "stats_right since now t len s"
    and "\<forall>r\<in>set (approvals t). apr_decision r \<in> {None, Some ''approved'', Some ''rejected''}"
  shows "let wf = (\<lambda>st. number_of (\<lambda>r. since \<le> wf_created_at r \<and> wf_created_at r < now \<and> wf_status r = st) (workflows t));
      tk = (\<lambda>st. number_of (\<lambda>r. since \<le> task_created_at r \<and> task_created_at r < now \<and> task_status r = st) (tasks t));
      ap = (\<lambda>dc. number_of (\<lambda>r. since \<le> apr_created_at r \<and> apr_created_at r < now \<and> apr_decision r = dc) (approvals t))
    in workflows_completed s = wf ''completed'' \<and> workflows_failed s = wf ''failed'' \<and>
       workflows_interrupted s = wf ''interrupted'' \<and> workflows_running s = wf ''running'' \<and>
       tasks_completed s = tk ''completed'' \<and> tasks_failed s = tk ''failed'' \<and>
       approvals_pending s = ap None \<and> approvals_approved s = ap (Some ''approved'') \<and>
       approvals_rejected s = ap (Some ''rejected'') \<and>
       approvals_decided s = ap (Some ''approved'') + ap (Some ''rejected'') \<and>
       queue_depth_high s = len HIGH \<and> queue_depth_normal s = len NORMAL \<and> queue_depth_failed s = len FAILED"
proof -
  from assms(1) obtain c ds n where s: "s = stats_of since now c ds n"
    and c: "counts_right since now t c" and q: "\<forall>q. count_of ds (queue_label q) = len q"
    by (auto simp: stats_right_def)
  have ap: "count_of (dc_approvals c) (decision_key k) =
      number_of (\<lambda>r. in_period since now (apr_created_at r) \<and> apr_decision r = k) (approvals t)"
    if "k \<in> {None, Some ''approved'', Some ''rejected''}" for k
  proof -
    have "\<forall>r\<in>set (approvals t). decision_key (apr_decision r) = decision_key k \<longrightarrow> apr_decision r = k"
      using that by (auto simp: decision_key_def dest!: assms(2) [THEN bspec])
    with c show ?thesis by (simp add: counts_right_def)
  qed
  have "decision_key None = ''pending''" "decision_key (Some ''approved'') = ''approved''"
    "decision_key (Some ''rejected'') = ''rejected''" by (simp_all add: decision_key_def)
  with ap [of None] ap [of "Some ''approved''"] ap [of "Some ''rejected''"]
    q [rule_format, of HIGH] q [rule_format, of NORMAL] q [rule_format, of FAILED]
  have "approvals_pending s = number_of (\<lambda>r. in_period since now (apr_created_at r) \<and> apr_decision r = None) (approvals t)"
    "approvals_approved s = number_of (\<lambda>r. in_period since now (apr_created_at r) \<and> apr_decision r = Some ''approved'') (approvals t)"
    "approvals_rejected s = number_of (\<lambda>r. in_period since now (apr_created_at r) \<and> apr_decision r = Some ''rejected'') (approvals t)"
    "approvals_decided s = approvals_approved s + approvals_rejected s"
    "queue_depth_high s = len HIGH" "queue_depth_normal s = len NORMAL" "queue_depth_failed s = len FAILED"
    unfolding s stats_of_def by simp_all
  then show ?thesis
    using c by (simp add: Let_def in_period_def conj_assoc, simp add: s stats_of_def counts_right_def in_period_def conj_assoc)
qed

text \<open>C33: one run of the daily summary. When it returns, either the newest summary row already has
  today's date, and then nothing is changed and its id is reported; or exactly one row is added, with
  the formatted text and today's date, and its statistics are right: every status count is the number
  of rows of the last 24 hours with that status, decided is approved plus rejected, pending counts the
  undecided approvals, and the queue depths are the lengths of the queues.\<close>

theorem daily_run_outcomes:
  assumes laws: "pg_laws (pg E)" "redis_laws (redis E)"
    and run: "run_daily_summary E D w = (Inr d, w')"
    and now: "clock E (w_tick w) = now" and t: "db E w = t"
    and decisions: "\<forall>r\<in>set (approvals t). apr_decision r \<in> {None, Some ''approved'', Some ''rejected''}"
  shows "(\<exists>r\<in>set (summaries t). ran_on (iso_date now) r \<and> (\<forall>r'\<in>set (summaries t). mem_id r' \<le> mem_id r) \<and>
       d = already_ran (mem_id r) (iso_date now) \<and> db E w' = t) \<or>
    (\<exists>s i ts. db E w' = t\<lparr>memories := memories t @ [stamp_memory i ts (summary_row now s)]\<rparr> \<and>
       i \<notin> mem_id ` set (memories t) \<and> d = summary_report now s i \<and>
       (let wf = (\<lambda>st. number_of (\<lambda>r. now - us_per_day \<le> wf_created_at r \<and> wf_created_at r < now \<and> wf_status r = st) (workflows t));
            tk = (\<lambda>st. number_of (\<lambda>r. now - us_per_day \<le> task_created_at r \<and> task_created_at r < now \<and> task_status r = st) (tasks t));
            ap = (\<lambda>dc. number_of (\<lambda>r. now - us_per_day \<le> apr_created_at r \<and> apr_created_at r < now \<and> apr_decision r = dc) (approvals t))
        in workflows_completed s = wf ''completed'' \<and> workflows_failed s = wf ''failed'' \<and>
           workflows_interrupted s = wf ''interrupted'' \<and> workflows_running s = wf ''running'' \<and>
           tasks_completed s = tk ''completed'' \<and> tasks_failed s = tk ''failed'' \<and>
           approvals_pending s = ap None \<and> approvals_approved s = ap (Some ''approved'') \<and>
           approvals_rejected s = ap (Some ''rejected'') \<and>
           approvals_decided s = ap (Some ''approved'') + ap (Some ''rejected'') \<and>
           queue_depth_high s = queue_length E w HIGH \<and> queue_depth_normal s = queue_length E w NORMAL \<and>
           queue_depth_failed s = queue_length E w FAILED))"
proof -
  from wp_returns [OF wp_run_daily_summary [OF laws now] run] t
  consider r where "newest (summaries t) (Some r)" "ran_on (iso_date now) r"
      "d = already_ran (mem_id r) (iso_date now)" "db E w' = t"
    | s i where "d = summary_report now s i" "written t now s i (db E w')"
      "stats_right (now - us_per_day) now t (queue_length E w) s"
    by (auto split: option.splits)
  then show ?thesis
  proof cases
    case 1
    then show ?thesis by (auto simp: newest_def)
  next
    case (2 s i)
    from 2(2) obtain ts where ts: "db E w' = memories_update (\<lambda>rs. rs @ [stamp_memory i ts (summary_row now s)]) t"
      and i: "i \<notin> mem_id ` set (memories t)" by (auto simp: written_def)
    from ts have "db E w' = t\<lparr>memories := memories t @ [stamp_memory i ts (summary_row now s)]\<rparr>" by (cases t) simp
    with stats_numbers [OF 2(3) decisions] 2(1) i show ?thesis
      by (intro disjI2 exI [of _ s] exI [of _ i] exI [of _ ts] conjI)
  qed
qed

text \<open>An environment without a log file on which the witnesses run.\<close>

definition no_log_file :: daily_env where
  "no_log_file = \<lparr>log_file = \<lambda>_. None, decode_bytes = \<lambda>s. s, make_log_dir = \<lambda>_. Inr (), summary_hour_var = None,
     sleep_cancelled = \<lambda>_. False\<rparr>"

lemma mem_count_run:
  "tb_count_by (mem_table rows upd key stamp) P f desc n d =
     (Inr (take_limit n (let c = group_counts P f (rows (mp_pending d)) in if desc then rev (sort_key snd c) else c)), d)"
  by (simp add: mem_table_def)

lemma quiet_summary_returns:
  assumes "summaries (mp_committed (w_pg w)) = []"
  shows "\<exists>d w'. run_daily_summary quiet_env no_log_file w = (Inr d, w')"
proof -
  have none: "filter (\<lambda>r. mem_category r = daily_category) (memories (mp_committed (w_pg w))) = []"
    using assms by (simp add: summaries_def)
  have "wp (run_daily_summary quiet_env no_log_file) (\<lambda>_ _. True) (\<lambda>_ _. False) w"
    by (simp add: run_daily_summary_def write_summary_def gather_stats_def gather_counts_def latest_summary_def
        append_summary_def count_defs statement_defs session_scope_def all_depths_def queue_names depth_def
        count_recent_error_lines_def no_log_file_def scalar_one_or_none_def mem_pg_tables mem_table_run
        mem_count_run mem_redis_run in_order_def take_limit_def Let_def none)
  then show ?thesis by (auto simp: wp_def split: prod.splits sum.splits)
qed

theorem daily_run_outcomes_witness:
  "\<exists>d w' s i ts. run_daily_summary quiet_env no_log_file (mem_world empty_tables) = (Inr d, w') \<and>
     memories (db quiet_env w') = [stamp_memory i ts (summary_row 0 s)] \<and> workflows_completed s = 0 \<and>
     queue_depth_failed s = 0"
proof -
  let ?w = "mem_world empty_tables"
  obtain d w' where run: "run_daily_summary quiet_env no_log_file ?w = (Inr d, w')"
    using quiet_summary_returns [of ?w] by (auto simp: summaries_def empty_tables_def)
  have now: "clock quiet_env (w_tick ?w) = 0" by (simp add: seconds_def)
  have "summaries empty_tables = []" by (simp add: summaries_def empty_tables_def)
  with daily_run_outcomes [OF mem_env_laws(2,1) run now refl] obtain s i ts
    where "db quiet_env w' = empty_tables\<lparr>memories := memories empty_tables @ [stamp_memory i ts (summary_row 0 s)]\<rparr>"
      "workflows_completed s = 0" "queue_depth_failed s = 0"
    by (auto simp: Let_def number_of_def empty_tables_def queue_length_def)
  with run show ?thesis
    by (intro exI [of _ d] exI [of _ w'] exI [of _ s] exI [of _ i] exI [of _ ts]) (simp add: empty_tables_def)
qed

text \<open>After a run the newest summary is one of its date, the one that the answer names.\<close>

lemma ran_today:
  assumes laws: "pg_laws (pg E)" "redis_laws (redis E)" and run: "run_daily_summary E D w = (Inr d, w1)"
    and ids: "sorted_wrt (<) (map mem_id (summaries (db E w1)))"
  shows "\<exists>r. newest (summaries (db E w1)) (Some r) \<and> ran_on (iso_date (clock E (w_tick w))) r \<and>
    get_or d ''memory_id'' JNull = JInt (mem_id r)"
  using wp_returns [OF wp_run_daily_summary [OF laws refl] run]
proof (elim exE disjE conjE)
  fix x assume "newest (summaries (db E w)) x" "case x of None \<Rightarrow> False
    | Some r \<Rightarrow> ran_on (iso_date (clock E (w_tick w))) r \<and>
        d = already_ran (mem_id r) (iso_date (clock E (w_tick w))) \<and> db E w1 = db E w"
  then show ?thesis by (auto simp: already_ran_def get_or_def split: option.splits)
next
  fix s i assume d: "d = summary_report (clock E (w_tick w)) s i"
    and "written (db E w) (clock E (w_tick w)) s i (db E w1)"
  from summaries_written [OF this(2)] obtain ts
    where s: "summaries (db E w1) = summaries (db E w) @ [stamp_memory i ts (summary_row (clock E (w_tick w)) s)]" by blast
  let ?r = "stamp_memory i ts (summary_row (clock E (w_tick w)) s)"
  have "newest (summaries (db E w1)) (Some ?r)"
    using ids unfolding s newest_def by (auto simp: sorted_wrt_append)
  moreover have "ran_on (iso_date (clock E (w_tick w))) ?r"
    by (simp add: ran_on_def stamp_memory_def summary_row_def get_or_def)
  ultimately show ?thesis using d by (intro exI [of _ ?r]) (simp add: summary_report_def get_or_def)
qed

text \<open>C34: one summary a day. After a run that returned, whether it wrote the row or found one, a later
  run on the same UTC date that returns reports the same row and leaves the tables alone, whatever
  else the program stored in between, provided no other summary was added. The keys that the
  database gives must grow, as those of a sequence do.\<close>

theorem summary_once_a_day:
  assumes laws: "pg_laws (pg E)" "redis_laws (redis E)"
    and first: "run_daily_summary E D w = (Inr d, w1)"
    and again: "run_daily_summary E D w2 = (Inr d', w3)"
    and same_day: "day_of (clock E (w_tick w2)) = day_of (clock E (w_tick w))"
    and kept: "summaries (db E w2) = summaries (db E w1)"
    and serial: "sorted_wrt (<) (map mem_id (memories (db E w1)))"
  shows "\<exists>i. get_or d ''memory_id'' JNull = JInt i \<and> d' = already_ran i (iso_date (clock E (w_tick w))) \<and>
    db E w3 = db E w2"
proof -
  let ?today = "iso_date (clock E (w_tick w))"
  have today: "iso_date (clock E (w_tick w2)) = ?today" by (rule iso_date_same_day [OF same_day])
  have ids: "sorted_wrt (<) (map mem_id (summaries (db E w1)))"
    using serial unfolding summaries_def by (simp add: sorted_wrt_map sorted_wrt_filter)
  then have dist: "distinct (map mem_id (summaries (db E w1)))" by (simp add: strict_sorted_iff)
  from ran_today [OF laws first ids] obtain r where r: "newest (summaries (db E w1)) (Some r)" "ran_on ?today r"
    "get_or d ''memory_id'' JNull = JInt (mem_id r)" by blast
  from wp_returns [OF wp_run_daily_summary [OF laws refl] again, unfolded kept today]
  show ?thesis
  proof (elim exE disjE conjE)
    fix x assume x: "newest (summaries (db E w1)) x" "case x of None \<Rightarrow> False
      | Some r \<Rightarrow> ran_on ?today r \<and> d' = already_ran (mem_id r) ?today \<and> db E w3 = db E w2"
    then obtain r' where r': "x = Some r'" "d' = already_ran (mem_id r') ?today" "db E w3 = db E w2" by (cases x) auto
    with x(1) have "r' = r" by (intro newest_unique [OF _ r(1) dist]) simp
    with r(3) r' show ?thesis by simp
  next
    fix x assume x: "newest (summaries (db E w1)) x" "case x of None \<Rightarrow> True | Some r \<Rightarrow> \<not> ran_on ?today r"
    have False
    proof (cases x)
      case None
      with x(1) r(1) show False by (simp add: newest_def)
    next
      case (Some r')
      with x(1) have "r' = r" by (intro newest_unique [OF _ r(1) dist]) simp
      with Some x(2) r(2) show False by simp
    qed
    then show ?thesis ..
  qed
qed

lemma quiet_rerun_returns:
  assumes "summaries (mp_committed (w_pg w)) = [r]" and "ran_on (iso_date (seconds (int (w_tick w)))) r"
  shows "\<exists>d w'. run_daily_summary quiet_env no_log_file w = (Inr d, w')"
proof -
  have one: "filter (\<lambda>r. mem_category r = daily_category) (memories (mp_committed (w_pg w))) = [r]"
    using assms(1) by (simp add: summaries_def)
  have "wp (run_daily_summary quiet_env no_log_file) (\<lambda>_ _. True) (\<lambda>_ _. False) w"
    by (simp add: run_daily_summary_def latest_summary_def statement_defs session_scope_def
        scalar_one_or_none_def mem_pg_tables mem_table_run in_order_def take_limit_def one assms(2))
  then show ?thesis by (auto simp: wp_def split: prod.splits sum.splits)
qed

theorem summary_once_a_day_witness:
  "\<exists>d w1 d' w3 i. run_daily_summary quiet_env no_log_file (mem_world empty_tables) = (Inr d, w1) \<and>
     run_daily_summary quiet_env no_log_file (w1\<lparr>w_tick := 5\<rparr>) = (Inr d', w3) \<and>
     d' = already_ran i (iso_date 0) \<and> length (memories (db quiet_env w3)) = 1"
proof -
  let ?w = "mem_world empty_tables"
  obtain d w1 where run: "run_daily_summary quiet_env no_log_file ?w = (Inr d, w1)"
    using quiet_summary_returns [of ?w] by (auto simp: summaries_def empty_tables_def)
  have now: "clock quiet_env (w_tick ?w) = 0" by (simp add: seconds_def)
  have e: "summaries empty_tables = []" by (simp add: summaries_def empty_tables_def)
  from wp_returns [OF wp_run_daily_summary [OF mem_env_laws(2,1) now] run] e obtain s i
    where wr: "written empty_tables 0 s i (db quiet_env w1)" by (auto simp: newest_def split: option.splits)
  then obtain ts where t1: "memories (db quiet_env w1) = [stamp_memory i ts (summary_row 0 s)]"
    by (auto simp: written_def empty_tables_def)
  let ?r = "stamp_memory i ts (summary_row 0 s)"
  have s1: "summaries (db quiet_env w1) = [?r]"
    using t1 by (simp add: summaries_def stamp_memory_def summary_row_def blank_memory_def)
  have day: "day_of (seconds 5) = day_of 0" by (simp add: day_of_def time_defs)
  have "ran_on (iso_date (seconds 5)) ?r"
    by (simp add: iso_date_same_day [OF day] ran_on_def stamp_memory_def summary_row_def get_or_def)
  with s1 quiet_rerun_returns [of "w1\<lparr>w_tick := 5\<rparr>" ?r] obtain d' w3
    where again: "run_daily_summary quiet_env no_log_file (w1\<lparr>w_tick := 5\<rparr>) = (Inr d', w3)" by auto
  have same: "day_of (clock quiet_env (w_tick (w1\<lparr>w_tick := 5\<rparr>))) = day_of (clock quiet_env (w_tick ?w))"
    using day by (simp add: seconds_def)
  from summary_once_a_day [OF mem_env_laws(2,1) run again same] t1 obtain j
    where "d' = already_ran j (iso_date (clock quiet_env (w_tick ?w)))" "db quiet_env w3 = db quiet_env (w1\<lparr>w_tick := 5\<rparr>)"
    by auto
  with run again t1 now show ?thesis by (intro exI [of _ d] exI [of _ w1] exI [of _ d'] exI [of _ w3] exI [of _ j]) simp
qed

text \<open>The scheduler's next firing: for an hour of the day it is the earliest instant after now
  whose time of day is that hour, so it lies in the future and at most one day ahead; other hours
  are refused with a ValueError.\<close>

theorem next_fire_exact:
  "case next_fire h now of
     Inl e \<Rightarrow> (h < 0 \<or> 23 < h) \<and> e = ValueError ''hour must be in 0..23''
   | Inr f \<Rightarrow> 0 \<le> h \<and> h \<le> 23 \<and> now < f \<and> f \<le> now + us_per_day \<and> us_of_day f = h * 3600 * us_per_s \<and>
       (\<forall>f'. now < f' \<and> us_of_day f' = h * 3600 * us_per_s \<longrightarrow> f \<le> f')"
proof (cases "h < 0 \<or> 23 < h")
  case False
  let ?k = "h * 3600 * us_per_s" and ?d = "day_of now * us_per_day"
  from False have k: "0 \<le> ?k" "?k < us_per_day" by (simp_all add: time_defs)
  have now: "?d \<le> now" "now < ?d + us_per_day"
    using day_split [of now] us_of_day_bounds [of now] by linarith+
  have least: "?d + ?k \<le> f'" if "now < f'" "us_of_day f' = ?k" for f'
  proof -
    have f': "f' = day_of f' * us_per_day + ?k" using day_split [of f'] that(2) by simp
    have "day_of now \<le> day_of f'"
      using that(1) by (auto simp: day_of_def us_per_day_def us_per_s_def intro: zdiv_mono1)
    then have "?d \<le> day_of f' * us_per_day" by (simp add: time_defs)
    with f' show ?thesis by linarith
  qed
  have later: "?d + ?k + us_per_day \<le> f'" if "?d + ?k \<le> now" "now < f'" "us_of_day f' = ?k" for f'
  proof -
    have f': "f' = day_of f' * us_per_day + ?k" using day_split [of f'] that(3) by simp
    have "day_of now < day_of f'"
    proof (rule ccontr)
      assume "\<not> ?thesis"
      then have "day_of f' * us_per_day \<le> ?d" by (simp add: time_defs)
      with f' that show False by linarith
    qed
    then have "(day_of now + 1) * us_per_day \<le> day_of f' * us_per_day" by (simp add: time_defs)
    with f' show ?thesis by (simp add: distrib_right)
  qed
  have mods: "us_of_day (?d + ?k) = ?k" "us_of_day (?d + ?k + us_per_day) = ?k"
    using k by (simp_all add: us_of_day_def)
  show ?thesis
  proof (cases "?d + ?k \<le> now")
    case True
    then have "next_fire h now = Inr (?d + ?k + us_per_day)" using False by (simp add: next_fire_def Let_def)
    moreover have "now < ?d + ?k + us_per_day" "?d + ?k + us_per_day \<le> now + us_per_day" using now k True by linarith+
    ultimately show ?thesis using mods(2) later [OF True] False by simp
  next
    case later_today: False
    then have "next_fire h now = Inr (?d + ?k)" using False by (simp add: next_fire_def Let_def)
    moreover have "now < ?d + ?k" "?d + ?k \<le> now + us_per_day" using now k later_today by linarith+
    ultimately show ?thesis using mods(1) least False by simp
  qed
qed (simp add: next_fire_def)

theorem next_fire_exact_witness:
  "\<exists>f. next_fire 9 (seconds 36000) = Inr f \<and> seconds 36000 < f \<and> us_of_day f = seconds 32400 \<and>
     f \<le> day_of (seconds 36000) * us_per_day + us_per_day + seconds 32400"
proof -
  obtain f where f: "next_fire 9 (seconds 36000) = Inr f" by (simp add: next_fire_def Let_def)
  moreover have "us_of_day (day_of (seconds 36000) * us_per_day + us_per_day + seconds 32400) = seconds 32400"
    "seconds 36000 < day_of (seconds 36000) * us_per_day + us_per_day + seconds 32400"
    by (simp_all add: us_of_day_def day_of_def time_defs)
  ultimately show ?thesis
    using next_fire_exact [where h = 9 and now = "seconds 36000"] by (simp add: time_defs)
qed

lemma wp_trivial: "wp m (\<lambda>_ _. True) (\<lambda>_ _. True) w"
  by (auto simp: wp_def split: prod.splits sum.splits)

lemma schedule_rounds_survives:
  assumes "0 \<le> h" and "h \<le> 23"
  shows "wp (schedule_rounds E D h n) (\<lambda>c w'. c \<longrightarrow> (\<exists>k. sleep_cancelled D k)) (\<lambda>e w'. e = CancelledError) w"
proof (induction n arbitrary: w)
  case (Suc n)
  have fire: "\<exists>f. next_fire h now = Inr f" for now using assms by (simp add: next_fire_def Let_def)
  have run: "wp (run_daily_summary E D) Q X w'" if "\<And>a w'. Q a w'" "\<And>e w'. X e w'" for Q X w'
    by (rule wp_mono [OF wp_trivial that])
  obtain f where "next_fire h (clock E (w_tick w)) = Inr f" using fire by blast
  then show ?case by (auto intro!: run Suc)
qed simp

text \<open>The scheduler's life: an hour that is no int or no hour of the day ends it with a ValueError
  before anything is summarised; otherwise no Exception of a run ends it: within any number of
  rounds it only returns because a sleep was cancelled and only raises a cancellation.\<close>

theorem scheduler_survives_runs:
  "case target_hour D hour_utc of
     Inl e \<Rightarrow> schedule_daily_summary E D hour_utc n w = (Inl e, w)
   | Inr h \<Rightarrow>
       if 0 \<le> h \<and> h \<le> 23 then
         (case schedule_daily_summary E D hour_utc n w of
            (Inr stopped, w') \<Rightarrow> stopped \<longrightarrow> (\<exists>k. sleep_cancelled D k)
          | (Inl e, w') \<Rightarrow> e = CancelledError)
       else n = 0 \<or>
         schedule_daily_summary E D hour_utc n w = (Inl (ValueError ''hour must be in 0..23''), w\<lparr>w_tick := Suc (w_tick w)\<rparr>)"
proof (cases "target_hour D hour_utc")
  case (Inr h)
  then have s: "schedule_daily_summary E D hour_utc n = schedule_rounds E D h n"
    by (simp add: schedule_daily_summary_def lift_sum_def)
  show ?thesis
  proof (cases "0 \<le> h \<and> h \<le> 23")
    case True
    then show ?thesis using Inr s schedule_rounds_survives [of h E D n w]
      by (auto simp: wp_def split: prod.splits sum.splits)
  next
    case False
    with Inr s show ?thesis
      by (cases n) (auto simp: next_fire_def utc_now_def fresh_tick_def bnd_def ret_def lift_sum_def raise_def)
  qed
qed (simp add: schedule_daily_summary_def lift_sum_def bnd_def raise_def)

theorem scheduler_survives_runs_witness:
  "\<exists>w'. schedule_daily_summary quiet_env (no_log_file\<lparr>sleep_cancelled := \<lambda>k. k = 1\<rparr>) None 1 (mem_world empty_tables) = (Inr True, w') \<and>
     schedule_daily_summary quiet_env no_log_file (Some 24) 1 (mem_world empty_tables) =
       (Inl (ValueError ''hour must be in 0..23''), (mem_world empty_tables)\<lparr>w_tick := 1\<rparr>)"
proof -
  let ?D = "no_log_file\<lparr>sleep_cancelled := \<lambda>k. k = 1\<rparr>"
  have "target_hour ?D None = Inr 9"
    by (simp add: target_hour_def no_log_file_def py_int_def py_strip_def strip_if_def is_space_def int_digits_def
        is_digit_def nat_of_digits_def digit_val_def Let_def)
  moreover from this have "\<exists>w'. schedule_daily_summary quiet_env ?D None 1 (mem_world empty_tables) = (Inr True, w')"
    by (simp add: schedule_daily_summary_def bnd_def lift_sum_def ret_def utc_now_def fresh_tick_def next_fire_def Let_def)
  moreover have "target_hour no_log_file (Some 24) = Inr 24" by (simp add: target_hour_def)
  ultimately show ?thesis
    using scheduler_survives_runs [where D = no_log_file and hour_utc = "Some 24" and E = quiet_env and n = 1
        and w = "mem_world empty_tables"] by simp
qed

lemma join_ends: "\<exists>p. join sep (xs @ [y]) = p @ y"
proof (induction xs)
  case (Cons x xs)
  then obtain p where "join sep (xs @ [y]) = p @ y" by blast
  then have "join sep ((x # xs) @ [y]) = (x @ sep @ p) @ y" by (simp add: join_Cons)
  then show ?case by blast
qed simp

lemma join_snoc_empty: "xs \<noteq> [] \<Longrightarrow> join sep (xs @ [[]]) = join sep xs @ sep"
proof (induction xs)
  case (Cons x xs)
  then show ?case by (cases xs) simp_all
qed simp

lemma rstrip_stop: "py_rstrip (p @ ''.'') = p @ ''.''"
  by (simp add: py_rstrip_def is_space_def)

lemma body_line_no_heading: "body_line l \<Longrightarrow> l \<notin> set headings"
  by (auto simp: body_line_def headings_def)

lemma summary_body_lines:
  assumes "tidy (most_common_workflow_names s)" and "tidy (most_common_failure_types s)"
  shows "\<forall>l\<in>set (summary_lines s now). newline \<notin> set l"
    and "filter (\<lambda>l. l \<in> set headings) (summary_lines s now) = headings"
proof -
  note bodies = body_what_changed [OF assms(1)] body_what_failed [OF assms(2)] body_rest [of s]
  have title: "body_line (''WiseOrder daily summary '' @ [em_dash] @ '' '' @ iso_date now @ '' (last 24 hours).'')" "body_line []"
    using newline_iso_date [of now] by (simp_all add: body_line_def newline_def em_dash_def)
  have no: "filter (\<lambda>l. l \<in> set headings) ls = []" if "\<forall>l\<in>set ls. body_line l" for ls
    using that body_line_no_heading by (auto simp: filter_empty_conv)
  have h: "\<forall>l\<in>set headings. newline \<notin> set l" by (simp add: headings_def newline_def)
  show "\<forall>l\<in>set (summary_lines s now). newline \<notin> set l"
    using bodies title h unfolding summary_lines_def by (auto simp: body_line_def headings_def)
  show "filter (\<lambda>l. l \<in> set headings) (summary_lines s now) = headings"
    unfolding summary_lines_def filter_append no [OF bodies(1)] no [OF bodies(2)] no [OF bodies(3)]
    using title bodies(4,5) [THEN body_line_no_heading]
    by (simp add: body_line_no_heading) (simp add: headings_def)
qed

text \<open>The text of the summary: read back line by line it is exactly the lines that were put in (the
  final strip removes nothing) and one closing newline; the five section headings occur once each, in
  their order, whatever the counts; and no section is empty. The names that it quotes must not
  contain line breaks.\<close>

theorem format_summary_sections:
  assumes "\<forall>(k, n)\<in>set (most_common_workflow_names s). newline \<notin> set k"
    and "\<forall>(k, n)\<in>set (most_common_failure_types s). newline \<notin> set k"
  shows "split_on newline (format_summary s now) = summary_lines s now @ [[]] \<and>
    filter (\<lambda>l. l \<in> set headings) (split_on newline (format_summary s now)) = headings \<and>
    what_changed s \<noteq> [] \<and> what_failed s \<noteq> [] \<and> what_matters s \<noteq> []"
proof -
  let ?L = "summary_lines s now"
  note lines = summary_body_lines [OF assms [folded tidy_def], of now]
  have ne: "?L \<noteq> []" by (simp add: summary_lines_def)
  obtain q where q: "approval_backlog s = q @ ''.''" unfolding approval_backlog_def by (cases "approvals_pending s = 0 \<and> approvals_decided s = 0") auto
  obtain xs where "?L = xs @ [approval_backlog s]" by (simp add: summary_lines_def)
  with join_ends [of "[newline]" xs "approval_backlog s"] q obtain p where "join [newline] ?L = p @ ''.''" by auto
  then have "format_summary s now = join [newline] (?L @ [[]])"
    using ne by (simp add: format_summary_def rstrip_stop join_snoc_empty)
  then have split: "split_on newline (format_summary s now) = ?L @ [[]]"
    using lines(1) by (simp add: split_on_join)
  moreover have "filter (\<lambda>l. l \<in> set headings) (?L @ [[]]) = headings"
    unfolding filter_append lines(2) by (simp add: headings_def)
  moreover have "failure_shapes kns \<noteq> []" if "kns \<noteq> []" for kns
    using that by (cases kns) (auto simp: failure_shapes_def numeral_3_eq_3 split: list.splits)
  then have "what_changed s \<noteq> []" "what_failed s \<noteq> []" "what_matters s \<noteq> []"
    by (auto simp: what_changed_def what_failed_def what_matters_def)
  ultimately show ?thesis by simp
qed

theorem format_summary_sections_witness:
  "filter (\<lambda>l. l \<in> set headings) (split_on newline (format_summary
      \<lparr>period_start_utc = ''a'', period_end_utc = ''b'', workflows_completed = 3, workflows_failed = 1,
       workflows_interrupted = 0, workflows_running = 0, tasks_completed = 12, tasks_failed = 1,
       approvals_pending = 2, approvals_decided = 1, approvals_approved = 1, approvals_rejected = 0,
       queue_depth_high = 0, queue_depth_normal = 0, queue_depth_failed = 1,
       most_common_workflow_names = [(''commit_pipeline'', 4)], most_common_failure_types = [(''timeout'', 1)],
       error_log_lines_count = 0\<rparr> 0)) = headings"
  by (rule format_summary_sections [THEN conjunct2, THEN conjunct1]) (simp_all add: newline_def)

end
