(* ===== verification/Demo_Forge.thy ===== *)
theory Demo_Forge
  imports Commit_Pipeline "HOL-Library.Char_ord" "HOL-Library.List_Lexorder"
begin

text \<open>
  \<^verbatim>\<open>workflows/demo_forge.py\<close>: the handler of \<^verbatim>\<open>demo_request\<close> jobs. Its row helpers
  have the shape of those of the commit pipeline; three of them are the same, the two that write
  their own events are here, and \<open>dr\<close> is a second interpretation of the interface
  \<open>run_store\<close> on them. The clone of demo-forge, its subprocesses and its files are parameters.
\<close>

section \<open>Parameters\<close>

text \<open>
  What a subprocess answers: the timeout of \<^verbatim>\<open>wait_for\<close> strikes, or it ends with a return
  code (or none) and its two outputs, decoded. Starting it may raise. An entry of a directory is no
  file, or a file whose reading may raise.
\<close>

datatype process_reply = Timed_Out | Exited "int option" string string

record demo_env =
  forge_dir :: string
  has_makefile :: "nat \<Rightarrow> bool"
  spawn :: "string list \<Rightarrow> nat \<Rightarrow> exn + process_reply"
  output_dir :: "string \<Rightarrow> nat \<Rightarrow> bool"
  list_dir :: "string \<Rightarrow> nat \<Rightarrow> exn + (string \<times> (exn + string) option) list"
  read_text :: "string \<Rightarrow> nat \<Rightarrow> exn + string option"

text \<open>\<^verbatim>\<open>_demo_forge_dir\<close>: the variable unless it is unset or empty, resolved by the file system.\<close>

definition demo_forge_dir :: "(string \<Rightarrow> string) \<Rightarrow> string \<Rightarrow> string option \<Rightarrow> string" where
  "demo_forge_dir resolve home variable =
     resolve (case variable of
         None \<Rightarrow> home @ ''/Desktop/demo-forge''
       | Some v \<Rightarrow> if v = [] then home @ ''/Desktop/demo-forge'' else v)"

text \<open>\<^verbatim>\<open>_run\<close>: \<open>limit\<close> is the timeout as the f-string prints it.\<close>

definition run_process :: "demo_env \<Rightarrow> string list \<Rightarrow> string \<Rightarrow> ('r, 'd, 'v, int \<times> string \<times> string) act" where
  "run_process D cmd limit =
     bnd fresh_tick (\<lambda>k.
     bnd (lift_sum (spawn D cmd k)) (\<lambda>reply.
     ret (case reply of
            Timed_Out \<Rightarrow> (-1, [], ''subprocess timeout after '' @ limit @ ''s'')
          | Exited rc out err \<Rightarrow> (case rc of None \<Rightarrow> -1 | Some r \<Rightarrow> r, out, err))))"

section \<open>Scenarios and text\<close>

definition valid_scenarios :: "string list" where
  "valid_scenarios = [''001'', ''002'', ''003'']"

definition scenario_titles :: "(string \<times> string) list" where
  "scenario_titles =
     [(''001'', ''unsafe deployment refusal''), (''002'', ''SIGKILL recovery proof''),
      (''003'', ''offline T7 verification'')]"

definition title_or :: "string \<Rightarrow> string \<Rightarrow> string" where
  "title_or sc dflt = (case map_of scenario_titles sc of None \<Rightarrow> dflt | Some t \<Rightarrow> t)"

definition out_path :: "demo_env \<Rightarrow> string \<Rightarrow> string" where
  "out_path D sc = forge_dir D @ ''/outputs/DEMO_'' @ sc"

text \<open>\<^verbatim>\<open>f"{n:,}"\<close> of a number that is not negative.\<close>

fun with_commas :: "nat \<Rightarrow> string" where
  "with_commas n =
     (if n < 1000 then str_of_nat n else with_commas (n div 1000) @ '','' @ zpad 3 (int (n mod 1000)))"

declare with_commas.simps [simp del]

text \<open>\<^verbatim>\<open>json.dumps(v, sort_keys=True)\<close> is \<open>dumps (sort_json v)\<close>.\<close>

fun sort_json :: "json \<Rightarrow> json"
  and sort_items :: "json list \<Rightarrow> json list"
  and sort_entries :: "(string \<times> json) list \<Rightarrow> (string \<times> json) list" where
  "sort_json (JList xs) = JList (sort_items xs)"
| "sort_json (JObj kvs) = JObj (sort_key fst (sort_entries kvs))"
| "sort_json v = v"
| "sort_items [] = []"
| "sort_items (x # xs) = sort_json x # sort_items xs"
| "sort_entries [] = []"
| "sort_entries ((k, v) # kvs) = (k, sort_json v) # sort_entries kvs"

section \<open>The manifest\<close>

record artifact =
  art_name :: string
  art_bytes :: nat
  art_sha256 :: string

record manifest =
  mf_scenario :: string
  mf_title :: string
  mf_generated_at :: string
  mf_out_dir :: string
  mf_artifacts :: "artifact list"

definition artifact_to_dict :: "artifact \<Rightarrow> dict" where
  "artifact_to_dict a =
     [(''name'', JStr (art_name a)), (''bytes'', JInt (int (art_bytes a))), (''sha256'', JStr (art_sha256 a))]"

definition manifest_to_dict :: "manifest \<Rightarrow> dict" where
  "manifest_to_dict m =
     [(''scenario'', JStr (mf_scenario m)), (''title'', JStr (mf_title m)),
      (''generated_at'', JStr (mf_generated_at m)), (''out_dir'', JStr (mf_out_dir m)),
      (''artifact_count'', JInt (int (length (mf_artifacts m)))),
      (''artifacts'', JList (map (\<lambda>a. JObj (artifact_to_dict a)) (mf_artifacts m)))]"

text \<open>The loop over the sorted entries: what is no file is passed over, a read that raises ends it.\<close>

fun read_artifacts :: "('r, 'd, 'v) env \<Rightarrow> (string \<times> (exn + string) option) list \<Rightarrow> exn + artifact list" where
  "read_artifacts E [] = Inr []"
| "read_artifacts E ((name, None) # es) = read_artifacts E es"
| "read_artifacts E ((name, Some (Inl e)) # es) = Inl e"
| "read_artifacts E ((name, Some (Inr body)) # es) =
     (case read_artifacts E es of
        Inl e \<Rightarrow> Inl e
      | Inr rest \<Rightarrow> Inr (\<lparr>art_name = name, art_bytes = length body, art_sha256 = sha256_hex E body\<rparr> # rest))"

definition utc_stamp :: "datetime \<Rightarrow> string" where
  "utc_stamp t = iso_date t @ ''T'' @ iso_time (us_of_day t div us_per_s) 0 @ ''Z''"

definition build_manifest :: "('r, 'd, 'v) env \<Rightarrow> demo_env \<Rightarrow> string \<Rightarrow> ('r, 'd, 'v, manifest) act" where
  "build_manifest E D sc =
     bnd fresh_tick (\<lambda>k.
     bnd (lift_sum (list_dir D (out_path D sc) k)) (\<lambda>entries.
     bnd (lift_sum (read_artifacts E (sort_key fst entries))) (\<lambda>arts.
     bnd (utc_now E) (\<lambda>t.
     ret \<lparr>mf_scenario = sc, mf_title = title_or sc [], mf_generated_at = utc_stamp t, mf_out_dir = out_path D sc,
          mf_artifacts = arts\<rparr>))))"

definition total_bytes :: "manifest \<Rightarrow> nat" where
  "total_bytes m = sum_list (map art_bytes (mf_artifacts m))"

definition x_thread_path :: "demo_env \<Rightarrow> string \<Rightarrow> string" where
  "x_thread_path D sc = out_path D sc @ ''/DEMO_'' @ sc @ ''_x_thread.md''"

definition excerpt :: "string \<Rightarrow> string" where
  "excerpt x = (if x = [] then ''(no X thread file)'' else if length x > 1000 then take 1000 x @ ''...'' else x)"

text \<open>\<^verbatim>\<open>_format_outputs_for_approval\<close>; \<open>read_text\<close> gives nothing when the file does not exist.\<close>

definition format_outputs :: "('r, 'd, 'v) env \<Rightarrow> demo_env \<Rightarrow> manifest \<Rightarrow> ('r, 'd, 'v, dict) act" where
  "format_outputs E D m =
     bnd fresh_tick (\<lambda>k.
     bnd (lift_sum (read_text D (x_thread_path D (mf_scenario m)) k)) (\<lambda>x.
     ret [(''scenario'', JStr (''DEMO_'' @ mf_scenario m @ '' '' @ [em_dash] @ '' '' @ title_or (mf_scenario m) [])),
          (''artifacts'', JList (map (\<lambda>a. JStr (art_name a)) (mf_artifacts m))),
          (''total_bytes'', JInt (int (total_bytes m))),
          (''manifest_sha256'', JStr (sha256_hex E (dumps (sort_json (JObj (manifest_to_dict m)))))),
          (''x_thread_excerpt'', JStr (excerpt (case x of None \<Rightarrow> [] | Some t \<Rightarrow> t)))]))"

section \<open>Rows\<close>

text \<open>
  The module's own copies of four helpers. They are the commit pipeline's, so the runs below are
  written with those.
\<close>

definition demo_log_entry :: "('r, 'd, 'v) env \<Rightarrow> string \<Rightarrow> dict \<Rightarrow> ('r, 'd, 'v, json) act" where
  "demo_log_entry E event data =
     bnd (utc_now E) (\<lambda>t.
     ret (JObj [(''ts'', JStr (isoformat t)), (''event'', JStr event), (''data'', JObj data)]))"

definition demo_create_task :: "('r, 'd, 'v) env \<Rightarrow> string \<Rightarrow> int \<Rightarrow> dict \<Rightarrow> ('r, 'd, 'v, int) act" where
  "demo_create_task E ty i payload =
     session_scope E
       (bnd (utc_now E) (\<lambda>t.
        add_task E ((blank_task ty)
          \<lparr>task_status := ''running'', task_payload := JObj payload, task_workflow_id := Some i,
           task_started_at := Some t\<rparr>)))"

definition demo_complete_task :: "('r, 'd, 'v) env \<Rightarrow> int \<Rightarrow> dict \<Rightarrow> ('r, 'd, 'v, unit) act" where
  "demo_complete_task E k result =
     session_scope E
       (bnd (fetch_task E k) (\<lambda>_.
        bnd (utc_now E) (\<lambda>t.
        update_tasks E (\<lambda>r. task_id r = k)
          (\<lambda>r. r\<lparr>task_status := ''completed'', task_result := Some (JObj result), task_completed_at := Some t\<rparr>))))"

definition demo_fail_task :: "('r, 'd, 'v) env \<Rightarrow> int \<Rightarrow> string \<Rightarrow> ('r, 'd, 'v, unit) act" where
  "demo_fail_task E k err =
     session_scope E
       (bnd (fetch_task E k) (\<lambda>_.
        bnd (utc_now E) (\<lambda>t.
        update_tasks E (\<lambda>r. task_id r = k)
          (\<lambda>r. r\<lparr>task_status := ''failed'', task_error := Some err, task_completed_at := Some t\<rparr>))))"

lemma demo_helpers_shared:
  "demo_log_entry = log_entry" "demo_create_task = create_task" "demo_complete_task = complete_task"
  "demo_fail_task = fail_task"
  by (simp_all add: fun_eq_iff demo_log_entry_def log_entry_def demo_create_task_def create_task_def
      demo_complete_task_def complete_task_def demo_fail_task_def fail_task_def)

definition fail_demo :: "('r, 'd, 'v) env \<Rightarrow> int \<Rightarrow> string \<Rightarrow> ('r, 'd, 'v, unit) act" where
  "fail_demo E i err =
     session_scope E
       (bnd (fetch_workflow E i) (\<lambda>row.
        bnd (log_entry E ''demo_request_failed'' [(''error'', JStr err)]) (\<lambda>entry.
        bnd (utc_now E) (\<lambda>t.
        update_workflows E (\<lambda>r. wf_id r = i)
          (\<lambda>r. r\<lparr>wf_status := ''failed'', wf_logs := wf_logs row @ [entry], wf_completed_at := Some t\<rparr>)))))"

definition finish_demo :: "('r, 'd, 'v) env \<Rightarrow> int \<Rightarrow> int \<Rightarrow> ('r, 'd, 'v, unit) act" where
  "finish_demo E aid i =
     session_scope E
       (bnd (fetch_workflow E i) (\<lambda>row.
        bnd (utc_now E) (\<lambda>t.
        bnd (log_entry E ''demo_request_completed'' [(''approval_id'', JInt aid)]) (\<lambda>entry.
        update_workflows E (\<lambda>r. wf_id r = i)
          (\<lambda>r. r\<lparr>wf_status := ''completed'', wf_completed_at := Some t, wf_logs := wf_logs row @ [entry]\<rparr>)))))"

section \<open>The steps\<close>

definition scenario_payload :: "string \<Rightarrow> dict" where
  "scenario_payload sc = [(''scenario'', JStr sc)]"

text \<open>A check that failed: the task and the run are marked, and the error is raised.\<close>

definition give_up :: "('r, 'd, 'v) env \<Rightarrow> int \<Rightarrow> int \<Rightarrow> string \<Rightarrow> string \<Rightarrow> string \<Rightarrow> ('r, 'd, 'v, 'a) act" where
  "give_up E i k terr rerr msg =
     thn (fail_task E k terr) (thn (fail_demo E i rerr) (raise (RuntimeError msg)))"

definition check_tools :: "('r, 'd, 'v) env \<Rightarrow> demo_env \<Rightarrow> int \<Rightarrow> string \<Rightarrow> ('r, 'd, 'v, unit) act" where
  "check_tools E D i sc =
     bnd (create_task E ''check_tools'' i (scenario_payload sc)) (\<lambda>k.
     bnd (run_process D [''make'', ''check-tools''] ''90.0'') (\<lambda>(rc, out, err).
       if rc \<noteq> 0 then
         give_up E i k (''DEMO_FORGE_MISSING_TOOLS: make check-tools rc='' @ str_of_int rc)
           ''missing tools in demo-forge env''
           (''DEMO_FORGE_MISSING_TOOLS: '' @ (if py_strip err \<noteq> [] then py_strip err else py_strip out))
       else complete_task E k [(''out'', JStr (take 500 (py_strip out)))]))"

definition capture_error :: "string \<Rightarrow> string \<Rightarrow> string" where
  "capture_error out err =
     ''DEMO_FORGE_SUBPROCESS_FAIL: stdout(last 200 lines)='' @ [newline]
       @ repr_str_list (last_n 200 (split_on newline (py_strip out))) @ [newline] @ ''stderr='' @ [newline]
       @ take 1000 (py_strip err)"

definition capture :: "('r, 'd, 'v) env \<Rightarrow> demo_env \<Rightarrow> int \<Rightarrow> string \<Rightarrow> ('r, 'd, 'v, unit) act" where
  "capture E D i sc =
     bnd (create_task E ''capture'' i (scenario_payload sc)) (\<lambda>k.
     bnd (run_process D [''make'', ''demo-'' @ sc] ''180'') (\<lambda>(rc, out, err).
       if rc \<noteq> 0 then
         give_up E i k (''DEMO_FORGE_SUBPROCESS_FAIL: make demo-'' @ sc @ '' rc='' @ str_of_int rc)
           ''demo capture failed'' (capture_error out err)
       else complete_task E k [(''out_tail'', JList (map JStr (last_n 30 (split_on newline (py_strip out)))))]))"

definition render_mp4 :: "('r, 'd, 'v) env \<Rightarrow> demo_env \<Rightarrow> int \<Rightarrow> string \<Rightarrow> ('r, 'd, 'v, unit) act" where
  "render_mp4 E D i sc =
     bnd (create_task E ''render_mp4'' i (scenario_payload sc)) (\<lambda>k.
     bnd (run_process D [''make'', ''outputs/DEMO_'' @ sc @ ''/DEMO_'' @ sc @ ''.mp4''] ''120'') (\<lambda>(rc, out, err).
       if rc \<noteq> 0 then fail_task E k (''DEMO_FORGE_MP4_FAIL: rc='' @ str_of_int rc @ '' (continuing without MP4)'')
       else complete_task E k [(''ok'', JBool True)]))"

definition make_manifest :: "('r, 'd, 'v) env \<Rightarrow> demo_env \<Rightarrow> int \<Rightarrow> string \<Rightarrow> ('r, 'd, 'v, manifest) act" where
  "make_manifest E D i sc =
     bnd (create_task E ''manifest'' i (scenario_payload sc)) (\<lambda>k.
     bnd fresh_tick (\<lambda>n.
       if \<not> output_dir D (out_path D sc) n then
         give_up E i k ''DEMO_FORGE_MANIFEST_FAIL: outputs dir missing'' ''manifest computation failed''
           (''DEMO_FORGE_MANIFEST_FAIL: '' @ out_path D sc @ '' not found'')
       else
         bnd (build_manifest E D sc) (\<lambda>m.
         bnd (complete_task E k [(''artifact_count'', JInt (int (length (mf_artifacts m))))]) (\<lambda>_.
         ret m))))"

definition manifest_memory :: "string \<Rightarrow> manifest \<Rightarrow> memory_row" where
  "manifest_memory sc m =
     (blank_memory ''demo_forge_manifest''
        (''DEMO_'' @ sc @ '' ('' @ title_or sc [] @ '') '' @ [em_dash] @ '' '' @ str_of_nat (length (mf_artifacts m))
          @ '' artifacts, '' @ with_commas (total_bytes m) @ '' bytes''))
       \<lparr>mem_meta := manifest_to_dict m\<rparr>"

definition keep_manifest :: "('r, 'd, 'v) env \<Rightarrow> string \<Rightarrow> manifest \<Rightarrow> ('r, 'd, 'v, int) act" where
  "keep_manifest E sc m = session_scope E (add_memory E (manifest_memory sc m))"

definition approve_demo :: "('r, 'd, 'v) env \<Rightarrow> demo_env \<Rightarrow> int \<Rightarrow> string \<Rightarrow> string \<Rightarrow> manifest \<Rightarrow> ('r, 'd, 'v, int) act" where
  "approve_demo E D i sc trigger m =
     bnd (create_task E ''approve'' i (scenario_payload sc)) (\<lambda>k.
     bnd (format_outputs E D m) (\<lambda>outputs.
     bnd (send E
       \<lparr>ar_summary = ''Demo ready '' @ [em_dash] @ '' DEMO_'' @ sc @ '' ('' @ title_or sc ''unknown'' @ ''). Trigger: ''
          @ trigger @ ''. Approve to publish.'',
        ar_outputs = outputs,
        ar_affected = map art_name (mf_artifacts m),
        ar_risk = ''low'',
        ar_workflow_id = Some i,
        ar_task_id = Some k\<rparr>) (\<lambda>aid.
     bnd (complete_task E k [(''approval_id'', JInt aid)]) (\<lambda>_.
     ret aid))))"

definition run_demo_steps ::
  "('r, 'd, 'v) env \<Rightarrow> demo_env \<Rightarrow> int \<Rightarrow> string \<Rightarrow> string \<Rightarrow> bool \<Rightarrow> ('r, 'd, 'v, dict) act" where
  "run_demo_steps E D i sc trigger skip =
     bnd (check_tools E D i sc) (\<lambda>_.
     bnd (capture E D i sc) (\<lambda>_.
     bnd (if \<not> skip then render_mp4 E D i sc else ret ()) (\<lambda>_.
     bnd (make_manifest E D i sc) (\<lambda>m.
     bnd (keep_manifest E sc m) (\<lambda>_.
     bnd (approve_demo E D i sc trigger m) (\<lambda>aid.
     bnd (finish_demo E aid i) (\<lambda>_.
     ret [(''workflow_id'', JInt i), (''approval_id'', JInt aid), (''scenario'', JStr sc),
          (''artifact_count'', JInt (int (length (mf_artifacts m))))])))))))"

section \<open>The handler\<close>

definition demo_chain :: "json list" where
  "demo_chain = [JStr ''check_tools'', JStr ''capture'', JStr ''narrate'', JStr ''render'', JStr ''manifest'', JStr ''approve'']"

definition create_demo :: "('r, 'd, 'v) env \<Rightarrow> demo_env \<Rightarrow> string \<Rightarrow> string \<Rightarrow> bool \<Rightarrow> ('r, 'd, 'v, int) act" where
  "create_demo E D sc trigger skip =
     session_scope E
       (bnd (log_entry E ''demo_request_started''
              [(''scenario'', JStr sc), (''trigger'', JStr trigger), (''demo_forge_dir'', JStr (forge_dir D)),
               (''skip_render'', JBool skip)]) (\<lambda>entry.
        add_workflow E ((blank_workflow ''demo_request'')
          \<lparr>wf_task_chain := demo_chain, wf_status := ''running'', wf_logs := [entry]\<rparr>)))"

definition bad_scenario :: "string \<Rightarrow> exn" where
  "bad_scenario sc =
     ValueError (''demo_request payload.scenario must be one of '' @ repr_str_list valid_scenarios @ '', got '' @ py_repr sc)"

definition no_makefile :: "demo_env \<Rightarrow> exn" where
  "no_makefile D =
     FileNotFoundError (''DEMO_FORGE_NOT_FOUND: '' @ forge_dir D
       @ '' does not contain a Makefile. Set WISEORDER_DEMO_FORGE_DIR to a valid demo-forge clone.'')"

definition scenario_of :: "dict \<Rightarrow> string" where
  "scenario_of payload = py_strip (py_str (get_or payload ''scenario'' (JStr [])))"

definition run_demo_forge_request :: "('r, 'd, 'v) env \<Rightarrow> demo_env \<Rightarrow> dict \<Rightarrow> ('r, 'd, 'v, dict) act" where
  "run_demo_forge_request E D payload =
     (let sc = scenario_of payload;
          trigger = py_str (get_or payload ''trigger'' (JStr ''manual''));
          skip = truthy (get_or payload ''skip_render'' (JBool False))
      in if sc \<notin> set valid_scenarios then raise (bad_scenario sc)
         else
           bnd fresh_tick (\<lambda>n.
             if \<not> has_makefile D n then raise (no_makefile D)
             else
               bnd (create_demo E D sc trigger skip) (\<lambda>i.
               bnd (bind_workflow (Some i)) (\<lambda>token.
               finally_do (run_demo_steps E D i sc trigger skip) (reset_workflow token)))))"

section \<open>Steps without a guard\<close>

text \<open>
  The rules of the helpers for a client that follows one running view: the run as it stands, and
  where an operation that raised leaves it.
\<close>

context run_store
begin

definition stands :: "'e \<Rightarrow> int \<Rightarrow> string list \<Rightarrow> (int \<times> string \<times> string) list \<Rightarrow> int list \<Rightarrow> 'w \<Rightarrow> bool" where
  "stands e i evs st aprs w \<longleftrightarrow>
     view e i w = Some \<lparr>rv_status = ''running'', rv_events = evs, rv_steps = st, rv_approvals = aprs\<rparr>"

definition gave_up :: "'e \<Rightarrow> int \<Rightarrow> string list \<Rightarrow> (int \<times> string \<times> string) list \<Rightarrow> int list \<Rightarrow> 'w \<Rightarrow> bool" where
  "gave_up e i evs st aprs w \<longleftrightarrow>
     view e i w = Some \<lparr>rv_status = ''failed'', rv_events = evs @ [failed_event], rv_steps = st, rv_approvals = aprs\<rparr>"

lemma create_then:
  assumes "ok e" and "stands e i evs st aprs w"
    and "\<And>k w'. k \<notin> fst ` set st \<Longrightarrow> stands e i evs (st @ [(k, ty, ''running'')]) aprs w' \<Longrightarrow> Q k w'"
    and "\<And>x w'. \<not> up e \<Longrightarrow> stands e i evs st aprs w' \<Longrightarrow> X x w'"
  shows "wp (create e ty i p) Q X w"
  by (rule wp_mono [OF create_law [OF assms(1) assms(2) [unfolded stands_def]]])
    (auto intro!: assms(3,4) simp: stands_def)

lemma complete_then:
  assumes "ok e" and "stands e i evs (st @ [(k, ty, s)]) aprs w" and "k \<notin> fst ` set st"
    and "\<And>w'. stands e i evs (st @ [(k, ty, ''completed'')]) aprs w' \<Longrightarrow> Q () w'"
    and "\<And>x w'. \<not> up e \<Longrightarrow> stands e i evs (st @ [(k, ty, s)]) aprs w' \<Longrightarrow> X x w'"
  shows "wp (complete e k r) Q X w"
  by (rule wp_mono [OF complete_law [OF assms(1) assms(2) [unfolded stands_def]]])
    (use assms(3) in \<open>auto intro!: assms(4,5) simp: stands_def\<close>)

lemma failt_then:
  assumes "ok e" and "stands e i evs (st @ [(k, ty, s)]) aprs w" and "k \<notin> fst ` set st"
    and "\<And>w'. stands e i evs (st @ [(k, ty, ''failed'')]) aprs w' \<Longrightarrow> Q () w'"
    and "\<And>x w'. \<not> up e \<Longrightarrow> stands e i evs (st @ [(k, ty, s)]) aprs w' \<Longrightarrow> X x w'"
  shows "wp (failt e k m) Q X w"
  by (rule wp_mono [OF failt_law [OF assms(1) assms(2) [unfolded stands_def]]])
    (use assms(3) in \<open>auto intro!: assms(4,5) simp: stands_def\<close>)

lemma give_up_raises:
  assumes "ok e" and "stands e i evs (st @ [(k, ty, s)]) aprs w" and "k \<notin> fst ` set st"
    and "\<And>w'. gave_up e i evs (st @ [(k, ty, ''failed'')]) aprs w' \<Longrightarrow> X y w'"
    and "\<And>x w' s. \<not> up e \<Longrightarrow> stands e i evs (st @ [(k, ty, s)]) aprs w' \<Longrightarrow> X x w'"
  shows "wp (thn (failt e k m) (thn (failw e i m') (raise y))) Q X w"
  unfolding wp_thn wp_raise
proof (rule failt_then [OF assms(1-3)])
  fix w1 assume w1: "stands e i evs (st @ [(k, ty, ''failed'')]) aprs w1"
  show "wp (failw e i m') (\<lambda>_. X y) X w1"
    by (rule wp_mono [OF failw_law [OF assms(1) w1 [unfolded stands_def]]])
      (auto intro!: assms(4,5) simp: gave_up_def stands_def)
qed (rule assms(5))

lemma finish_then:
  assumes "ok e" and "stands e i evs st aprs w"
    and "\<And>w'. view e i w' = Some \<lparr>rv_status = ''completed'', rv_events = evs @ [done_event], rv_steps = st,
        rv_approvals = aprs\<rparr> \<Longrightarrow> Q () w'"
    and "\<And>x w'. \<not> up e \<Longrightarrow> stands e i evs st aprs w' \<Longrightarrow> X x w'"
  shows "wp (finish e i) Q X w"
  by (rule wp_mono [OF finish_law [OF assms(1) assms(2) [unfolded stands_def]]])
    (auto intro!: assms(3,4) simp: stands_def)

end

text \<open>The helpers of this file provide the interface.\<close>

lemma wp_fail_demo:
  assumes "pg_laws (pg E)" and "view_of E i w = Some v"
  shows "wp (fail_demo E i m)
    (\<lambda>_ w'. view_of E i w' = Some (v\<lparr>rv_status := ''failed'', rv_events := rv_events v @ [''demo_request_failed'']\<rparr>))
    (\<lambda>x w'. \<not> pg_healthy (pg E) \<and> view_of E i w' = Some v) w"
proof -
  have eq: "fail_demo E i m = session_scope E (bnd (fetch_workflow E i) (\<lambda>row.
      bnd (bnd (log_entry E ''demo_request_failed'' [(''error'', JStr m)]) (\<lambda>en. bnd (utc_now E) (\<lambda>t. ret (row, en, t))))
        (\<lambda>a. update_workflows E (\<lambda>r. wf_id r = i) (\<lambda>r. r\<lparr>wf_status := ''failed'',
          wf_logs := wf_logs (fst a) @ [fst (snd a)], wf_completed_at := Some (snd (snd a))\<rparr>))))"
    by (simp add: fail_demo_def bnd_assoc)
  show ?thesis
    unfolding eq by (rule wp_set_workflow [OF assms session_op_entry_then_now(1)]) auto
qed

lemma wp_finish_demo:
  assumes "pg_laws (pg E)" and "view_of E i w = Some v"
  shows "wp (finish_demo E aid i)
    (\<lambda>_ w'. view_of E i w' = Some (v\<lparr>rv_status := ''completed'', rv_events := rv_events v @ [''demo_request_completed'']\<rparr>))
    (\<lambda>x w'. \<not> pg_healthy (pg E) \<and> view_of E i w' = Some v) w"
proof -
  have eq: "finish_demo E aid i = session_scope E (bnd (fetch_workflow E i) (\<lambda>row.
      bnd (bnd (utc_now E) (\<lambda>t. bnd (log_entry E ''demo_request_completed'' [(''approval_id'', JInt aid)]) (\<lambda>en. ret (row, en, t))))
        (\<lambda>a. update_workflows E (\<lambda>r. wf_id r = i) (\<lambda>r. r\<lparr>wf_status := ''completed'',
          wf_completed_at := Some (snd (snd a)), wf_logs := wf_logs (fst a) @ [fst (snd a)]\<rparr>))))"
    by (simp add: finish_demo_def bnd_assoc)
  show ?thesis
    unfolding eq by (rule wp_set_workflow [OF assms session_op_entry_then_now(2)]) auto
qed

interpretation dr: run_store "\<lambda>(E, aid). pg_laws (pg E)" "\<lambda>(E, aid). pg_healthy (pg E)" "\<lambda>(E, aid). view_of E"
  "\<lambda>(E, aid). create_task E" "\<lambda>(E, aid). complete_task E" "\<lambda>(E, aid). fail_task E" "\<lambda>(E, aid). append_log E"
  "\<lambda>(E, aid). fail_demo E" "\<lambda>(E, aid). finish_demo E aid" "''demo_request_failed''" "''demo_request_completed''"
  by unfold_locales
    (auto split: prod.splits intro: wp_create_task wp_complete_task wp_fail_task wp_append_log wp_fail_demo wp_finish_demo)

section \<open>What the steps leave\<close>

text \<open>The clone answers every request, whatever the answers are.\<close>

definition forge_answers :: "demo_env \<Rightarrow> bool" where
  "forge_answers D \<longleftrightarrow>
     (\<forall>cmd k. \<exists>r. spawn D cmd k = Inr r) \<and>
     (\<forall>p k. \<exists>es. list_dir D p k = Inr es \<and> (\<forall>n e. (n, Some (Inl e)) \<notin> set es)) \<and>
     (\<forall>p k. \<exists>x. read_text D p k = Inr x)"

definition smooth :: "('r, 'd, 'v) env \<Rightarrow> demo_env \<Rightarrow> bool" where
  "smooth E D \<longleftrightarrow> pg_healthy (pg E) \<and> uncancelled E \<and> forge_answers D"

text \<open>Every target of the Makefile succeeds, and the outputs are where they belong.\<close>

definition willing :: "demo_env \<Rightarrow> bool" where
  "willing D \<longleftrightarrow>
     (\<forall>cmd k. \<exists>out err. spawn D cmd k = Inr (Exited (Some 0) out err)) \<and> (\<forall>p k. output_dir D p k)"

text \<open>
  Where a step of type \<open>ty\<close> that raised leaves a run with the tasks \<open>st\<close>: still running, which
  takes a service that raised, or given up.
\<close>

definition demo_halt ::
  "('r, 'd, 'v) env \<Rightarrow> demo_env \<Rightarrow> int \<Rightarrow> (int \<times> string \<times> string) list \<Rightarrow> string \<Rightarrow> ('r, 'd, 'v) world \<Rightarrow> bool" where
  "demo_halt E D i st ty w \<longleftrightarrow>
     (\<exists>v. view_of E i w = Some v \<and>
        ((\<not> smooth E D \<and> rv_status v = ''running'' \<and>
            (rv_steps v = st \<or> (\<exists>k s. k \<notin> fst ` set st \<and> rv_steps v = st @ [(k, ty, s)]))) \<or>
         (\<not> willing D \<and> rv_status v = ''failed'' \<and> (\<exists>k. k \<notin> fst ` set st \<and> rv_steps v = st @ [(k, ty, ''failed'')]))))"

lemma halt_standing:
  "\<not> smooth E D \<Longrightarrow> dr.stands (E, a) i evs st aprs w \<Longrightarrow> demo_halt E D i st ty w"
  "\<not> smooth E D \<Longrightarrow> dr.stands (E, a) i evs (st @ [(k, ty, s)]) aprs w \<Longrightarrow> k \<notin> fst ` set st \<Longrightarrow> demo_halt E D i st ty w"
  "\<not> willing D \<Longrightarrow> dr.gave_up (E, a) i evs (st @ [(k, ty, ''failed'')]) aprs w \<Longrightarrow> k \<notin> fst ` set st \<Longrightarrow> demo_halt E D i st ty w"
  by (auto simp: demo_halt_def dr.stands_def dr.gave_up_def)

lemma not_smooth [simp]: "\<not> pg_healthy (pg E) \<Longrightarrow> \<not> smooth E D"
  by (simp add: smooth_def)

lemma wp_stands:
  assumes "keeps (db E) m" and "dr.stands (E, a) i evs st aprs w"
    and "\<And>x w'. dr.stands (E, a) i evs st aprs w' \<Longrightarrow> Q x w'"
    and "\<And>e w'. dr.stands (E, a) i evs st aprs w' \<Longrightarrow> X e w'"
  shows "wp m Q X w"
  by (rule wp_mono [OF keeps_wp [OF assms(1)]]) (use assms(2) in \<open>auto intro!: assms(3,4) simp: dr.stands_def view_of_def\<close>)

text \<open>The rules of the helpers, for the pair of an environment and an approval.\<close>

lemmas demo_rules =
  dr.create_then [of "(E, a)" for E a, unfolded prod.case]
  dr.complete_then [of "(E, a)" for E a, unfolded prod.case]
  dr.failt_then [of "(E, a)" for E a, unfolded prod.case]
  dr.give_up_raises [of "(E, a)" for E a, unfolded prod.case]
  dr.finish_then [of "(E, a)" for E a, unfolded prod.case]

lemma wp_run_process:
  assumes "dr.stands (E, a) i evs st aprs w"
    and "\<And>r w'. (willing D \<Longrightarrow> fst r = 0) \<Longrightarrow> dr.stands (E, a) i evs st aprs w' \<Longrightarrow> Q r w'"
    and "\<And>e w'. \<not> forge_answers D \<Longrightarrow> dr.stands (E, a) i evs st aprs w' \<Longrightarrow> X e w'"
  shows "wp (run_process D cmd limit) Q X w"
proof -
  have tick: "dr.stands (E, a) i evs st aprs (w\<lparr>w_tick := n\<rparr>)" for n
    using assms(1) by (simp add: dr.stands_def view_of_def)
  have bad: "\<not> forge_answers D" if "spawn D cmd k = Inl e" for k e
    using that by (auto simp: forge_answers_def) (metis sum.distinct(1))
  have good: "\<exists>out err. r = Exited (Some 0) out err" if "spawn D cmd k = Inr r" "willing D" for k r
    using that by (auto simp: willing_def) (metis sum.inject(2))
  show ?thesis
    by (auto simp: run_process_def split: sum.splits intro!: assms(2,3) tick dest: bad good)
qed

text \<open>The steps: how each extends the run, and that it halts it otherwise.\<close>

lemma forge_not_smooth: "\<not> forge_answers D \<Longrightarrow> \<not> smooth E D"
  by (simp add: smooth_def)

lemma wp_start_step:
  assumes "pg_laws (pg E)" and "dr.stands (E, a) i evs st aprs w"
    and "\<And>k w'. k \<notin> fst ` set st \<Longrightarrow> dr.stands (E, a) i evs (st @ [(k, ty, ''running'')]) aprs w' \<Longrightarrow> Q k w'"
    and "\<And>x w'. demo_halt E D i st ty w' \<Longrightarrow> X x w'"
  shows "wp (create_task E ty i p) Q X w"
  by (rule demo_rules(1) [OF assms(1,2)], erule (1) assms(3), rule assms(4), rule halt_standing(1)) simp

lemma wp_complete_step:
  assumes "pg_laws (pg E)" and "dr.stands (E, a) i evs (st @ [(k, ty, s)]) aprs w" and "k \<notin> fst ` set st"
    and "\<And>w'. dr.stands (E, a) i evs (st @ [(k, ty, ''completed'')]) aprs w' \<Longrightarrow> Q () w'"
    and "\<And>x w'. demo_halt E D i st ty w' \<Longrightarrow> X x w'"
  shows "wp (complete_task E k r) Q X w"
  by (rule demo_rules(2) [OF assms(1-3)], erule assms(4), rule assms(5), rule halt_standing(2), rule not_smooth, assumption, assumption, rule assms(3))

lemma wp_fail_step:
  assumes "pg_laws (pg E)" and "dr.stands (E, a) i evs (st @ [(k, ty, s)]) aprs w" and "k \<notin> fst ` set st"
    and "\<And>w'. dr.stands (E, a) i evs (st @ [(k, ty, ''failed'')]) aprs w' \<Longrightarrow> Q () w'"
    and "\<And>x w'. demo_halt E D i st ty w' \<Longrightarrow> X x w'"
  shows "wp (fail_task E k m) Q X w"
  by (rule demo_rules(3) [OF assms(1-3)], erule assms(4), rule assms(5), rule halt_standing(2), rule not_smooth, assumption, assumption, rule assms(3))

lemma wp_give_up:
  assumes "pg_laws (pg E)" and "dr.stands (E, a) i evs (st @ [(k, ty, s)]) aprs w" and "k \<notin> fst ` set st"
    and bad: "\<not> willing D" and "\<And>x w'. demo_halt E D i st ty w' \<Longrightarrow> X x w'"
  shows "wp (give_up E i k terr rerr msg) Q X w"
  unfolding give_up_def
proof (rule demo_rules(4) [OF assms(1-3)])
  show "X (RuntimeError msg) w'" if "dr.gave_up (E, a) i evs (st @ [(k, ty, ''failed'')]) aprs w'" for w'
    by (rule assms(5), rule halt_standing(3) [OF bad that assms(3)])
  show "X x w'" if "\<not> pg_healthy (pg E)" "dr.stands (E, a) i evs (st @ [(k, ty, s')]) aprs w'" for x w' s'
    by (rule assms(5), rule halt_standing(2) [OF not_smooth [OF that(1)] that(2) assms(3)])
qed

lemma wp_make_step:
  fixes E :: "('r, 'd, 'v) env" and w :: "('r, 'd, 'v) world"
  assumes laws: "pg_laws (pg E)" and w: "dr.stands (E, a) i evs st aprs w"
    and bad: "\<And>k rc out err w'. k \<notin> fst ` set st \<Longrightarrow> \<not> willing D \<Longrightarrow> dr.stands (E, a) i evs (st @ [(k, ty, ''running'')]) aprs w' \<Longrightarrow>
      wp (fail k rc out err) Q X w'"
    and ret: "\<And>k w'. k \<notin> fst ` set st \<Longrightarrow> dr.stands (E, a) i evs (st @ [(k, ty, ''completed'')]) aprs w' \<Longrightarrow> Q () w'"
    and exc: "\<And>x w'. demo_halt E D i st ty w' \<Longrightarrow> X x w'"
  shows "wp (bnd (create_task E ty i p) (\<lambda>k.
     bnd (run_process D cmd limit) (\<lambda>(rc, out, err).
       if rc \<noteq> 0 then fail k rc out err else complete_task E k (res out)))) Q X w"
  unfolding wp_bnd
proof (rule wp_start_step [OF laws w])
  fix k and w1 :: "('r, 'd, 'v) world"
  assume k: "k \<notin> fst ` set st" and w1: "dr.stands (E, a) i evs (st @ [(k, ty, ''running'')]) aprs w1"
  show "wp (run_process D cmd limit) (\<lambda>r. wp (case r of (rc, out, err) \<Rightarrow>
       if rc \<noteq> 0 then fail k rc out err else complete_task E k (res out)) Q X) X w1"
  proof (rule wp_run_process [OF w1])
    fix r :: "int \<times> string \<times> string" and w2 :: "('r, 'd, 'v) world"
    assume zero: "willing D \<Longrightarrow> fst r = 0" and w2: "dr.stands (E, a) i evs (st @ [(k, ty, ''running'')]) aprs w2"
    obtain rc out err where r: "r = (rc, out, err)" by (cases r)
    show "wp (case r of (rc, out, err) \<Rightarrow>
       if rc \<noteq> 0 then fail k rc out err else complete_task E k (res out)) Q X w2"
    proof (cases "rc = 0")
      case True
      have "wp (complete_task E k (res out)) Q X w2"
        by (rule wp_complete_step [OF laws w2 k]) (erule ret [OF k], erule exc)
      with True show ?thesis by (simp add: r)
    qed (use bad [OF k _ w2] zero in \<open>auto simp: r\<close>)
  qed (rule exc, rule halt_standing(2), erule forge_not_smooth, assumption, rule k)
qed (rule exc)

lemma wp_check_tools:
  assumes laws: "pg_laws (pg E)" and w: "dr.stands (E, a) i evs st aprs w"
    and ret: "\<And>k w'. k \<notin> fst ` set st \<Longrightarrow> dr.stands (E, a) i evs (st @ [(k, ''check_tools'', ''completed'')]) aprs w' \<Longrightarrow> Q () w'"
    and exc: "\<And>x w'. demo_halt E D i st ''check_tools'' w' \<Longrightarrow> X x w'"
  shows "wp (check_tools E D i sc) Q X w"
  unfolding check_tools_def
  by (rule wp_make_step [OF laws w, where D = D], rule wp_give_up [OF laws, where D = D], assumption, assumption, assumption,
      erule exc, erule (1) ret, erule exc)

lemma wp_capture:
  assumes laws: "pg_laws (pg E)" and w: "dr.stands (E, a) i evs st aprs w"
    and ret: "\<And>k w'. k \<notin> fst ` set st \<Longrightarrow> dr.stands (E, a) i evs (st @ [(k, ''capture'', ''completed'')]) aprs w' \<Longrightarrow> Q () w'"
    and exc: "\<And>x w'. demo_halt E D i st ''capture'' w' \<Longrightarrow> X x w'"
  shows "wp (capture E D i sc) Q X w"
  unfolding capture_def
  by (rule wp_make_step [OF laws w, where D = D], rule wp_give_up [OF laws, where D = D], assumption, assumption, assumption,
      erule exc, erule (1) ret, erule exc)

lemma wp_render_mp4:
  assumes laws: "pg_laws (pg E)" and w: "dr.stands (E, a) i evs st aprs w"
    and ret: "\<And>k s w'. s \<in> {''completed'', ''failed''} \<Longrightarrow> k \<notin> fst ` set st \<Longrightarrow>
      dr.stands (E, a) i evs (st @ [(k, ''render_mp4'', s)]) aprs w' \<Longrightarrow> Q () w'"
    and exc: "\<And>x w'. demo_halt E D i st ''render_mp4'' w' \<Longrightarrow> X x w'"
  shows "wp (render_mp4 E D i sc) Q X w"
  unfolding render_mp4_def
  by (rule wp_make_step [OF laws w, where D = D], rule wp_fail_step [OF laws, where D = D], assumption, assumption,
      rule ret [where s = "''failed''"], simp, assumption, assumption, erule exc, rule ret [where s = "''completed''"], simp, assumption, assumption, erule exc)

lemma read_artifacts_ok: "\<forall>n e. (n, Some (Inl e)) \<notin> set es \<Longrightarrow> \<exists>arts. read_artifacts E es = Inr arts"
proof (induction E es rule: read_artifacts.induct)
  case (4 E name body es)
  then have "\<forall>n e. (n, Some (Inl e)) \<notin> set es" by simp
  with 4(1) obtain arts where "read_artifacts E es = Inr arts" by blast
  then show ?case by simp
qed auto

lemma wp_build_manifest:
  assumes "dr.stands (E, a) i evs st aprs w"
    and "\<And>m w'. dr.stands (E, a) i evs st aprs w' \<Longrightarrow> Q m w'"
    and "\<And>e w'. \<not> forge_answers D \<Longrightarrow> dr.stands (E, a) i evs st aprs w' \<Longrightarrow> X e w'"
  shows "wp (build_manifest E D sc) Q X w"
proof -
  have tick: "dr.stands (E, a) i evs st aprs (w\<lparr>w_tick := n\<rparr>)" for n
    using assms(1) by (simp add: dr.stands_def view_of_def)
  have bad: "\<not> forge_answers D" if "list_dir D p k = Inl e" for p k e
    using that by (auto simp: forge_answers_def) (metis sum.distinct(1))
  have bad2: "\<not> forge_answers D" if "list_dir D p k = Inr es" "read_artifacts E (sort_key fst es) = Inl e" for p k e es
  proof
    assume "forge_answers D"
    then obtain es' where "list_dir D p k = Inr es'" "\<forall>n e. (n, Some (Inl e)) \<notin> set es'" unfolding forge_answers_def by blast
    with that(1) have "\<forall>n e. (n, Some (Inl e)) \<notin> set (sort_key fst es)" by simp
    from read_artifacts_ok [OF this, of E] that(2) show False by auto
  qed
  show ?thesis
    by (auto simp: build_manifest_def split: sum.splits intro!: assms(2,3) tick dest: bad bad2)
qed

lemma wp_make_manifest:
  fixes E :: "('r, 'd, 'v) env" and w :: "('r, 'd, 'v) world"
  assumes laws: "pg_laws (pg E)" and w: "dr.stands (E, a) i evs st aprs w"
    and ret: "\<And>k m w'. k \<notin> fst ` set st \<Longrightarrow> dr.stands (E, a) i evs (st @ [(k, ''manifest'', ''completed'')]) aprs w' \<Longrightarrow> Q m w'"
    and exc: "\<And>x w'. demo_halt E D i st ''manifest'' w' \<Longrightarrow> X x w'"
  shows "wp (make_manifest E D i sc) Q X w"
  unfolding make_manifest_def wp_bnd [of "create_task _ _ _ _"] wp_bnd [of fresh_tick] wp_fresh_tick
proof (rule wp_start_step [OF laws w])
  fix k and w1 :: "('r, 'd, 'v) world"
  assume k: "k \<notin> fst ` set st" and w1: "dr.stands (E, a) i evs (st @ [(k, ''manifest'', ''running'')]) aprs w1"
  let ?w1 = "w1\<lparr>w_tick := Suc (w_tick w1)\<rparr>"
  have w1': "dr.stands (E, a) i evs (st @ [(k, ''manifest'', ''running'')]) aprs ?w1"
    using w1 by (simp add: dr.stands_def view_of_def)
  have complete: "wp (complete_task E k r) (\<lambda>_. Q m) X w2"
    if "dr.stands (E, a) i evs (st @ [(k, ''manifest'', ''running'')]) aprs w2" for r m w2
    by (rule wp_complete_step [OF laws that k]) (erule ret [OF k], erule exc)
  have "wp (bnd (build_manifest E D sc) (\<lambda>m.
         bnd (complete_task E k [(''artifact_count'', JInt (int (length (mf_artifacts m))))]) (\<lambda>_. ret m))) Q X ?w1"
    unfolding wp_bnd wp_ret
    by (rule wp_build_manifest [OF w1'], erule complete)
      (rule exc, rule halt_standing(2), erule forge_not_smooth, assumption, rule k)
  moreover have "wp (give_up E i k terr rerr msg) Q X ?w1" if "\<not> output_dir D p n" for terr rerr msg p n
    by (rule wp_give_up [OF laws w1' k, where D = D]) (use that in \<open>auto simp: willing_def intro: exc\<close>)
  ultimately show "wp (if \<not> output_dir D (out_path D sc) (w_tick w1) then
         give_up E i k ''DEMO_FORGE_MANIFEST_FAIL: outputs dir missing'' ''manifest computation failed''
           (''DEMO_FORGE_MANIFEST_FAIL: '' @ out_path D sc @ '' not found'')
       else
         bnd (build_manifest E D sc) (\<lambda>m.
         bnd (complete_task E k [(''artifact_count'', JInt (int (length (mf_artifacts m))))]) (\<lambda>_.
         ret m))) Q X ?w1"
    by (simp del: wp_bnd)
qed (rule exc)

lemma wp_keep_manifest:
  assumes laws: "pg_laws (pg E)" and w: "dr.stands (E, a) i evs st aprs w"
    and ret: "\<And>m w'. dr.stands (E, a) i evs st aprs w' \<Longrightarrow> Q m w'"
    and exc: "\<And>x w'. \<not> smooth E D \<Longrightarrow> dr.stands (E, a) i evs st aprs w' \<Longrightarrow> X x w'"
  shows "wp (keep_manifest E sc m) Q X w"
proof -
  have op: "session_op E (\<lambda>_. True) (add_memory E r) (\<lambda>t j t'. 0 < j \<and> j \<notin> mem_id ` set (memories t) \<and>
      (\<exists>ts. t' = memories_update (\<lambda>rs. rs @ [stamp_memory j ts r]) t))" for r
    unfolding session_op_def using session_body_statements(3) [OF laws] session_total_memories [OF laws] by blast
  show ?thesis
    unfolding keep_manifest_def
    by (rule wp_session_scope_op [OF laws op])
      (use w in \<open>auto simp: dr.stands_def view_of_def run_of_memory_changes intro!: ret exc\<close>)
qed

lemma wp_format_outputs:
  assumes "dr.stands (E, a) i evs st aprs w"
    and "\<And>r w'. dr.stands (E, a) i evs st aprs w' \<Longrightarrow> Q r w'"
    and "\<And>e w'. \<not> forge_answers D \<Longrightarrow> dr.stands (E, a) i evs st aprs w' \<Longrightarrow> X e w'"
  shows "wp (format_outputs E D m) Q X w"
proof -
  have tick: "dr.stands (E, a) i evs st aprs (w\<lparr>w_tick := n\<rparr>)" for n
    using assms(1) by (simp add: dr.stands_def view_of_def)
  have bad: "\<not> forge_answers D" if "read_text D p k = Inl e" for p k e
    using that by (auto simp: forge_answers_def) (metis sum.distinct(1))
  show ?thesis
    by (auto simp: format_outputs_def split: sum.splits intro!: assms(2,3) tick dest: bad)
qed

lemma wp_send_stands:
  fixes E :: "('r, 'd, 'v) env" and w :: "('r, 'd, 'v) world"
  assumes laws: "pg_laws (pg E)" and w: "dr.stands (E, a) i evs st aprs w" and req: "ar_workflow_id req = Some i"
    and ret: "\<And>b w'. dr.stands (E, a) i evs st (aprs @ [b]) w' \<Longrightarrow> Q b w'"
    and exc: "\<And>x w' aprs'. \<not> smooth E D \<Longrightarrow> dr.stands (E, a) i evs st aprs' w' \<Longrightarrow> X x w'"
  shows "wp (send E req) Q X w"
proof -
  let ?v = "\<lparr>rv_status = ''running'', rv_events = evs, rv_steps = st, rv_approvals = aprs\<rparr>"
  from w have run: "run_of (db E w) i = Some ?v" by (simp add: dr.stands_def view_of_def)
  have sent: "dr.stands (E, a) i evs st (aprs @ [b]) w'"
    if "b \<notin> apr_id ` set (approvals (db E w))" "db E w' = with_approval req b ts via (db E w)" for b ts via w'
    using run_of_with_approval [OF run that(1) req, of ts via] that(2) by (simp add: dr.stands_def view_of_def)
  have same: "dr.stands (E, a) i evs st aprs w'" if "db E w' = db E w" for w'
    using w that by (simp add: dr.stands_def view_of_def)
  show ?thesis
  proof (cases "smooth E D")
    case True
    then have total: "wp (send E req) (\<lambda>_ _. True) (\<lambda>_ _. False) w"
      by (intro wp_send_total [OF laws]) (simp_all add: smooth_def)
    have "wp (send E req) (\<lambda>b w'. dr.stands (E, a) i evs st (aprs @ [b]) w') (\<lambda>_ _. True) w"
      by (rule wp_send [OF laws]) (auto intro: sent)
    from wp_conj [OF total this] show ?thesis by (rule wp_mono) (auto intro: ret)
  next
    case False
    show ?thesis
      by (rule wp_send [OF laws]) (use False in \<open>blast intro: ret exc sent same\<close>)+
  qed
qed

lemma wp_approve_demo:
  fixes E :: "('r, 'd, 'v) env" and w :: "('r, 'd, 'v) world"
  assumes laws: "pg_laws (pg E)" and w: "dr.stands (E, a) i evs st aprs w"
    and ret: "\<And>k b w'. k \<notin> fst ` set st \<Longrightarrow>
      dr.stands (E, a) i evs (st @ [(k, ''approve'', ''completed'')]) (aprs @ [b]) w' \<Longrightarrow> Q b w'"
    and exc: "\<And>x w'. demo_halt E D i st ''approve'' w' \<Longrightarrow> X x w'"
  shows "wp (approve_demo E D i sc trigger m) Q X w"
  unfolding approve_demo_def wp_bnd wp_ret
proof (rule wp_start_step [OF laws w])
  fix k and w1 :: "('r, 'd, 'v) world"
  assume k: "k \<notin> fst ` set st" and w1: "dr.stands (E, a) i evs (st @ [(k, ''approve'', ''running'')]) aprs w1"
  have halt: "X x w'" if "\<not> smooth E D" "dr.stands (E, a) i evs (st @ [(k, ''approve'', ''running'')]) aprs' w'" for x w' aprs'
    by (rule exc, rule halt_standing(2) [OF that k])
  have complete: "wp (complete_task E k r) (\<lambda>_. Q b) X w2"
    if "dr.stands (E, a) i evs (st @ [(k, ''approve'', ''running'')]) (aprs @ [b]) w2" for r b w2
    by (rule wp_complete_step [OF laws that k]) (erule ret [OF k], erule exc)
  have send: "wp (send E req) (\<lambda>b. wp (complete_task E k [(''approval_id'', JInt b)]) (\<lambda>_. Q b) X) X w2"
    if "dr.stands (E, a) i evs (st @ [(k, ''approve'', ''running'')]) aprs w2" "ar_workflow_id req = Some i" for req w2
    by (rule wp_send_stands [OF laws that], erule complete, erule (1) halt)
  show "wp (format_outputs E D m) (\<lambda>outputs. wp (send E
       \<lparr>ar_summary = ''Demo ready '' @ [em_dash] @ '' DEMO_'' @ sc @ '' ('' @ title_or sc ''unknown'' @ ''). Trigger: ''
          @ trigger @ ''. Approve to publish.'', ar_outputs = outputs, ar_affected = map art_name (mf_artifacts m),
        ar_risk = ''low'', ar_workflow_id = Some i, ar_task_id = Some k\<rparr>)
      (\<lambda>b. wp (complete_task E k [(''approval_id'', JInt b)]) (\<lambda>_. Q b) X) X) X w1"
    by (rule wp_format_outputs [OF w1], erule send, simp, erule (1) halt [OF forge_not_smooth])
qed (rule exc)

text \<open>The tasks of a run, in their order.\<close>

definition demo_steps :: "bool \<Rightarrow> string list" where
  "demo_steps skip = [''check_tools'', ''capture''] @ (if skip then [] else [''render_mp4'']) @ [''manifest'', ''approve'']"

definition step_types :: "run_view \<Rightarrow> string list" where
  "step_types v = map (\<lambda>(k, ty, s). ty) (rv_steps v)"

text \<open>Where a run that raised stands, and one that returned.\<close>

definition demo_stopped :: "('r, 'd, 'v) env \<Rightarrow> demo_env \<Rightarrow> bool \<Rightarrow> run_view \<Rightarrow> bool" where
  "demo_stopped E D skip v \<longleftrightarrow>
     prefix (step_types v) (demo_steps skip) \<and>
     ((\<not> smooth E D \<and> rv_status v = ''running'') \<or>
      (\<not> willing D \<and> rv_status v = ''failed'' \<and> (\<exists>st k ty. rv_steps v = st @ [(k, ty, ''failed'')])))"

definition demo_done :: "bool \<Rightarrow> string list \<Rightarrow> int \<Rightarrow> string \<Rightarrow> dict \<Rightarrow> run_view \<Rightarrow> bool" where
  "demo_done skip evs i sc r v \<longleftrightarrow>
     rv_status v = ''completed'' \<and> step_types v = demo_steps skip \<and> distinct (map fst (rv_steps v)) \<and>
     (\<forall>(k, ty, s)\<in>set (rv_steps v). s = ''completed'' \<or> (ty = ''render_mp4'' \<and> s = ''failed'')) \<and>
     rv_events v = evs @ [''demo_request_completed''] \<and>
     (\<exists>b. rv_approvals v = [b] \<and> get_or r ''approval_id'' JNull = JInt b) \<and>
     get_or r ''workflow_id'' JNull = JInt i \<and> get_or r ''scenario'' JNull = JStr sc"

lemma halt_stopped:
  assumes "demo_halt E D i st ty w" and "prefix (map (\<lambda>(k, ty, s). ty) st @ [ty]) (demo_steps skip)"
  shows "\<exists>v. view_of E i w = Some v \<and> demo_stopped E D skip v"
proof -
  from assms(2) have "prefix (map (\<lambda>(k, ty, s). ty) st) (demo_steps skip)" by (rule append_prefixD)
  with assms show ?thesis
    by (auto simp: demo_halt_def demo_stopped_def step_types_def)
qed

text \<open>The beginning of a run whose tasks so far are settled.\<close>

definition demo_at ::
  "('r, 'd, 'v) env \<Rightarrow> bool \<Rightarrow> int \<Rightarrow> string list \<Rightarrow> (int \<times> string \<times> string) list \<Rightarrow> int list \<Rightarrow> nat \<Rightarrow> ('r, 'd, 'v) world \<Rightarrow> bool" where
  "demo_at E skip i evs st aprs n w \<longleftrightarrow>
     dr.stands (E, 0) i evs st aprs w \<and> map (\<lambda>(k, ty, s). ty) st = take n (demo_steps skip) \<and> distinct (map fst st) \<and>
     (\<forall>(k, ty, s)\<in>set st. s = ''completed'' \<or> (ty = ''render_mp4'' \<and> s = ''failed''))"

lemma demo_at_stands: "demo_at E skip i evs st aprs n w \<Longrightarrow> dr.stands (E, 0) i evs st aprs w"
  by (simp add: demo_at_def)

lemma demo_at_snoc:
  assumes "demo_at E skip i evs st aprs n w" and "k \<notin> fst ` set st"
    and "dr.stands (E, 0) i evs' (st @ [(k, ty, s)]) aprs' w'" and "n < length (demo_steps skip)" and "ty = demo_steps skip ! n"
    and "s = ''completed'' \<or> ty = ''render_mp4'' \<and> s = ''failed''"
  shows "demo_at E skip i evs' (st @ [(k, ty, s)]) aprs' (Suc n) w'"
  using assms by (auto simp: demo_at_def take_Suc_conv_app_nth)

lemma demo_at_halt:
  assumes "demo_at E skip i evs st aprs n w" and "n < length (demo_steps skip)" and "ty = demo_steps skip ! n"
    and "demo_halt E D i st ty w'"
  shows "\<exists>v. view_of E i w' = Some v \<and> demo_stopped E D skip v"
proof (rule halt_stopped [OF assms(4)])
  from assms have "map (\<lambda>(k, ty, s). ty) st @ [ty] = take (Suc n) (demo_steps skip)"
    by (simp add: demo_at_def take_Suc_conv_app_nth)
  then show "prefix (map (\<lambda>(k, ty, s). ty) st @ [ty]) (demo_steps skip)" by (simp add: take_is_prefix)
qed

lemma demo_at_raised:
  assumes "demo_at E skip i evs st aprs n w" and "\<not> smooth E D" and "dr.stands (E, a) i evs' st aprs' w'"
  shows "\<exists>v. view_of E i w' = Some v \<and> demo_stopped E D skip v"
  using assms by (auto simp: demo_at_def dr.stands_def demo_stopped_def step_types_def take_is_prefix)

lemmas demo_steps_simps = demo_steps_def nth_Cons' nth_append

lemma wp_demo_tail:
  fixes E :: "('r, 'd, 'v) env" and w :: "('r, 'd, 'v) world"
  assumes laws: "pg_laws (pg E)" and at: "demo_at E skip i evs st [] (if skip then 2 else 3) w"
    and ret: "\<And>r v w'. view_of E i w' = Some v \<Longrightarrow> demo_done skip evs i sc r v \<Longrightarrow> Q r w'"
    and exc: "\<And>x v w'. view_of E i w' = Some v \<Longrightarrow> demo_stopped E D skip v \<Longrightarrow> X x w'"
  shows "wp (bnd (make_manifest E D i sc) (\<lambda>m.
     bnd (keep_manifest E sc m) (\<lambda>_.
     bnd (approve_demo E D i sc trigger m) (\<lambda>aid.
     bnd (finish_demo E aid i) (\<lambda>_.
     ret [(''workflow_id'', JInt i), (''approval_id'', JInt aid), (''scenario'', JStr sc),
          (''artifact_count'', JInt (int (length (mf_artifacts m))))]))))) Q X w"
  (is "wp (bnd _ (\<lambda>m. bnd _ (\<lambda>_. bnd _ (\<lambda>aid. bnd _ (\<lambda>_. ret (?r aid m)))))) Q X w")
proof -
  let ?n = "if skip then 2 else 3"
  have n: "?n < length (demo_steps skip)" "''manifest'' = demo_steps skip ! ?n"
    "Suc ?n < length (demo_steps skip)" "''approve'' = demo_steps skip ! Suc ?n" "Suc (Suc ?n) = length (demo_steps skip)"
    by (auto simp: demo_steps_simps)
  have halt: "X x w''" if "demo_at E skip i evs st' aprs m w'" "m < length (demo_steps skip)" "ty = demo_steps skip ! m"
      "demo_halt E D i st' ty w''" for x st' aprs m ty and w' w'' :: "('r, 'd, 'v) world"
    using demo_at_halt [OF that] exc by blast
  have raised: "X x w''" if "demo_at E skip i evs st' aprs m w'" "\<not> smooth E D" "dr.stands (E, a) i evs st' aprs' w''"
    for x st' aprs aprs' m a and w' w'' :: "('r, 'd, 'v) world"
    using demo_at_raised [OF that] exc by blast
  have fin: "wp (finish_demo E b i) (\<lambda>_. Q (?r b m)) X w1"
    if at1: "demo_at E skip i evs st1 [b] (length (demo_steps skip)) w1" for b m st1 and w1 :: "('r, 'd, 'v) world"
  proof (rule demo_rules(5) [OF laws])
    show "dr.stands (E, b) i evs st1 [b] w1" using at1 by (simp add: demo_at_def dr.stands_def)
    show "X x w'" if "\<not> pg_healthy (pg E)" "dr.stands (E, b) i evs st1 [b] w'" for x w'
      by (rule raised [OF at1 not_smooth that(2)]) (rule that(1))
    show "Q (?r b m) w'" if "view_of E i w' = Some \<lparr>rv_status = ''completed'', rv_events = evs @ [''demo_request_completed''],
        rv_steps = st1, rv_approvals = [b]\<rparr>" for w'
      by (rule ret [OF that]) (use at1 in \<open>simp add: demo_at_def demo_done_def step_types_def get_or_def\<close>)
  qed
  have appr: "wp (approve_demo E D i sc trigger m) (\<lambda>b. wp (finish_demo E b i) (\<lambda>_. Q (?r b m)) X) X w1"
    if at1: "demo_at E skip i evs st1 [] (Suc ?n) w1" for m st1 and w1 :: "('r, 'd, 'v) world"
  proof (rule wp_approve_demo [OF laws demo_at_stands [OF at1], where D = D])
    fix k b and w' :: "('r, 'd, 'v) world"
    assume "k \<notin> fst ` set st1" "dr.stands (E, 0) i evs (st1 @ [(k, ''approve'', ''completed'')]) ([] @ [b]) w'"
    from demo_at_snoc [OF at1 this n(3,4)]
    show "wp (finish_demo E b i) (\<lambda>_. Q (?r b m)) X w'" by (intro fin) (simp add: n(5))
  qed (rule halt [OF at1 n(3,4)])
  show ?thesis
    unfolding wp_bnd wp_ret
  proof (rule wp_make_manifest [OF laws demo_at_stands [OF at], where D = D])
    fix k m and w1 :: "('r, 'd, 'v) world"
    assume k: "k \<notin> fst ` set st" and w1: "dr.stands (E, 0) i evs (st @ [(k, ''manifest'', ''completed'')]) [] w1"
    have at1: "demo_at E skip i evs (st @ [(k, ''manifest'', ''completed'')]) [] (Suc ?n) w'"
      if "dr.stands (E, 0) i evs (st @ [(k, ''manifest'', ''completed'')]) [] w'" for w'
      by (rule demo_at_snoc [OF at k that n(1,2)]) simp
    show "wp (keep_manifest E sc m) (\<lambda>_. wp (approve_demo E D i sc trigger m) (\<lambda>b. wp (finish_demo E b i) (\<lambda>_. Q (?r b m)) X) X) X w1"
      by (rule wp_keep_manifest [OF laws w1, where D = D], rule appr, erule at1)
        (rule raised [OF at1 [OF w1]], assumption, assumption)
  qed (rule halt [OF at n(1,2)])
qed

lemma wp_run_demo_steps:
  fixes E :: "('r, 'd, 'v) env" and w :: "('r, 'd, 'v) world"
  assumes laws: "pg_laws (pg E)" and w: "dr.stands (E, 0) i evs [] [] w"
    and ret: "\<And>r v w'. view_of E i w' = Some v \<Longrightarrow> demo_done skip evs i sc r v \<Longrightarrow> Q r w'"
    and exc: "\<And>x v w'. view_of E i w' = Some v \<Longrightarrow> demo_stopped E D skip v \<Longrightarrow> X x w'"
  shows "wp (run_demo_steps E D i sc trigger skip) Q X w"
proof -
  have n: "0 < length (demo_steps skip)" "''check_tools'' = demo_steps skip ! 0"
    "Suc 0 < length (demo_steps skip)" "''capture'' = demo_steps skip ! Suc 0"
    "\<not> skip \<Longrightarrow> Suc (Suc 0) < length (demo_steps skip)" "\<not> skip \<Longrightarrow> ''render_mp4'' = demo_steps skip ! Suc (Suc 0)"
    by (auto simp: demo_steps_simps)
  have halt: "X x w''" if "demo_at E skip i evs st' aprs m w'" "m < length (demo_steps skip)" "ty = demo_steps skip ! m"
      "demo_halt E D i st' ty w''" for x st' aprs m ty and w' w'' :: "('r, 'd, 'v) world"
    using demo_at_halt [OF that] exc by blast
  note tail = wp_demo_tail [OF laws _ ret exc, where D = D]
  have at: "demo_at E skip i evs [] [] 0 w" using w by (simp add: demo_at_def)
  show ?thesis
    unfolding run_demo_steps_def wp_bnd [of "check_tools _ _ _ _"] wp_bnd [of "capture _ _ _ _"]
      wp_bnd [of "if _ then _ else _"]
  proof (rule wp_check_tools [OF laws w, where D = D])
    fix k1 and w1 :: "('r, 'd, 'v) world"
    assume "k1 \<notin> fst ` set ([] :: (int \<times> string \<times> string) list)" "dr.stands (E, 0) i evs ([] @ [(k1, ''check_tools'', ''completed'')]) [] w1"
    note at1 = demo_at_snoc [OF at this n(1,2), simplified]
    show "wp (capture E D i sc) (\<lambda>_. wp (if \<not> skip then render_mp4 E D i sc else ret ()) (\<lambda>_. wp (bnd (make_manifest E D i sc) (\<lambda>m.
        bnd (keep_manifest E sc m) (\<lambda>_. bnd (approve_demo E D i sc trigger m) (\<lambda>aid. bnd (finish_demo E aid i) (\<lambda>_.
        ret [(''workflow_id'', JInt i), (''approval_id'', JInt aid), (''scenario'', JStr sc),
          (''artifact_count'', JInt (int (length (mf_artifacts m))))]))))) Q X) X) X w1"
    proof (rule wp_capture [OF laws demo_at_stands [OF at1], where D = D])
      fix k2 and w2 :: "('r, 'd, 'v) world"
      assume k2: "k2 \<notin> fst ` set [(k1, ''check_tools'', ''completed'')]"
        and w2: "dr.stands (E, 0) i evs ([(k1, ''check_tools'', ''completed'')] @ [(k2, ''capture'', ''completed'')]) [] w2"
      note at2 = demo_at_snoc [OF at1 k2 w2 n(3,4), simplified]
      show "wp (if \<not> skip then render_mp4 E D i sc else ret ()) (\<lambda>_. wp (bnd (make_manifest E D i sc) (\<lambda>m.
        bnd (keep_manifest E sc m) (\<lambda>_. bnd (approve_demo E D i sc trigger m) (\<lambda>aid. bnd (finish_demo E aid i) (\<lambda>_.
        ret [(''workflow_id'', JInt i), (''approval_id'', JInt aid), (''scenario'', JStr sc),
          (''artifact_count'', JInt (int (length (mf_artifacts m))))]))))) Q X) X w2"
      proof (cases skip)
        case True
        have "demo_at E skip i evs [(k1, ''check_tools'', ''completed''), (k2, ''capture'', ''completed'')] [] (if skip then 2 else 3) w2"
          using at2 True by (simp add: numeral_2_eq_2)
        from tail [OF this] True show ?thesis by (simp del: wp_bnd)
      next
        case False
        have "wp (render_mp4 E D i sc) (\<lambda>_. wp (bnd (make_manifest E D i sc) (\<lambda>m.
          bnd (keep_manifest E sc m) (\<lambda>_. bnd (approve_demo E D i sc trigger m) (\<lambda>aid. bnd (finish_demo E aid i) (\<lambda>_.
          ret [(''workflow_id'', JInt i), (''approval_id'', JInt aid), (''scenario'', JStr sc),
          (''artifact_count'', JInt (int (length (mf_artifacts m))))]))))) Q X) X w2"
        proof (rule wp_render_mp4 [OF laws demo_at_stands [OF at2], where D = D])
          fix k3 s and w3 :: "('r, 'd, 'v) world"
          assume s: "s \<in> {''completed'', ''failed''}" and k3: "k3 \<notin> fst ` set [(k1, ''check_tools'', ''completed''), (k2, ''capture'', ''completed'')]"
            and w3: "dr.stands (E, 0) i evs ([(k1, ''check_tools'', ''completed''), (k2, ''capture'', ''completed'')] @ [(k3, ''render_mp4'', s)]) [] w3"
          have "demo_at E skip i evs ([(k1, ''check_tools'', ''completed''), (k2, ''capture'', ''completed'')] @ [(k3, ''render_mp4'', s)]) [] (if skip then 2 else 3) w3"
            using demo_at_snoc [OF at2 k3 w3 n(5,6)] False s by (auto simp: numeral_3_eq_3)
          then show "wp (bnd (make_manifest E D i sc) (\<lambda>m.
            bnd (keep_manifest E sc m) (\<lambda>_. bnd (approve_demo E D i sc trigger m) (\<lambda>aid. bnd (finish_demo E aid i) (\<lambda>_.
            ret [(''workflow_id'', JInt i), (''approval_id'', JInt aid), (''scenario'', JStr sc),
              (''artifact_count'', JInt (int (length (mf_artifacts m))))]))))) Q X w3" by (rule tail)
        qed (rule halt [OF at2 n(5,6)], (rule False)+)
        with False show ?thesis by (simp del: wp_bnd)
      qed
    qed (rule halt [OF at1 n(3,4)])
  qed (rule halt [OF at n(1,2)])
qed

section \<open>The whole handler\<close>

lemma wp_create_demo:
  fixes E :: "('r, 'd, 'v) env" and w :: "('r, 'd, 'v) world"
  assumes laws: "pg_laws (pg E)" and ok: "tables_ok (db E w)"
    and ret: "\<And>i w'. only_db w w' \<Longrightarrow> i \<notin> wf_id ` set (workflows (db E w)) \<Longrightarrow> 0 < i \<Longrightarrow>
      dr.stands (E, 0) i [''demo_request_started''] [] [] w' \<Longrightarrow> Q i w'"
    and exc: "\<And>x w'. \<not> pg_healthy (pg E) \<Longrightarrow> only_db w w' \<Longrightarrow> db E w' = db E w \<Longrightarrow> X x w'"
  shows "wp (create_demo E D sc trigger skip) Q X w"
  unfolding create_demo_def
proof (rule wp_session_scope_op [OF laws session_op_bnd [OF session_op_log_entry session_op_statements(2) [OF laws]]])
  show "(\<lambda>_. True) (db E w)" by simp
next
  fix i and w' :: "('r, 'd, 'v) world"
  assume od: "only_db w w'" and "\<exists>entry t'. (event_of entry = ''demo_request_started'' \<and> t' = db E w) \<and> 0 < i \<and>
    i \<notin> wf_id ` set (workflows t') \<and> (\<exists>ts. db E w' = workflows_update (\<lambda>rs. rs @ [stamp_workflow i ts
      ((blank_workflow ''demo_request'')
          \<lparr>wf_task_chain := demo_chain, wf_status := ''running'', wf_logs := [entry]\<rparr>)]) t')"
  then obtain entry ts where i: "0 < i" "i \<notin> wf_id ` set (workflows (db E w))" and e: "event_of entry = ''demo_request_started''"
    and d: "db E w' = workflows_update (\<lambda>rs. rs @ [stamp_workflow i ts
      ((blank_workflow ''demo_request'')
          \<lparr>wf_task_chain := demo_chain, wf_status := ''running'', wf_logs := [entry]\<rparr>)]) (db E w)" by blast
  show "Q i w'"
  proof (rule ret [OF od i(2,1)])
    show "dr.stands (E, 0) i [''demo_request_started''] [] [] w'"
      unfolding dr.stands_def view_of_def d prod.case
      by (subst run_of_new_workflow [OF ok i(2)]) (simp_all add: stamp_workflow_def blank_workflow_def e)
  qed
qed (rule exc)

lemma keeps_case_prod [wp_ops]: "(\<And>a b. keeps f (g a b)) \<Longrightarrow> keeps f (case p of (a, b) \<Rightarrow> g a b)"
  by (cases p) simp

lemma keeps_fail_demo [wp_ops]: "keeps beside_db (fail_demo E i m)" "keeps beside_db (finish_demo E b i)"
  unfolding fail_demo_def finish_demo_def by (intro wp_ops)+

lemma keeps_give_up [wp_ops]: "keeps beside_db (give_up E i k terr rerr msg)"
  unfolding give_up_def by (intro wp_ops)

lemma keeps_run_process [wp_ops]: "keeps beside_db (run_process D cmd limit)"
  unfolding run_process_def by (intro wp_ops)

lemma keeps_run_demo_steps [wp_ops]: "keeps beside_db (run_demo_steps E D i sc trigger skip)"
  unfolding run_demo_steps_def check_tools_def capture_def render_mp4_def make_manifest_def build_manifest_def
    keep_manifest_def approve_demo_def format_outputs_def
  by (intro wp_ops)

abbreviation skips_render :: "dict \<Rightarrow> bool" where
  "skips_render payload \<equiv> truthy (get_or payload ''skip_render'' (JBool False))"

definition demo_began :: "('r, 'd, 'v) env \<Rightarrow> dict \<Rightarrow> ('r, 'd, 'v) world \<Rightarrow> int \<Rightarrow> bool" where
  "demo_began E payload w i \<longleftrightarrow>
     scenario_of payload \<in> set valid_scenarios \<and> 0 < i \<and> i \<notin> wf_id ` set (workflows (db E w))"

lemma wp_run_demo:
  fixes E :: "('r, 'd, 'v) env" and w :: "('r, 'd, 'v) world"
  assumes laws: "pg_laws (pg E)" and ok: "tables_ok (db E w)"
    and ret: "\<And>i r v w'. demo_began E payload w i \<Longrightarrow> w_redis w' = w_redis w \<Longrightarrow> w_ctx w' = w_ctx w \<Longrightarrow> view_of E i w' = Some v \<Longrightarrow>
      demo_done (skips_render payload) [''demo_request_started''] i (scenario_of payload) r v \<Longrightarrow> Q r w'"
    and refused: "\<And>x w'. db E w' = db E w \<Longrightarrow> w_redis w' = w_redis w \<Longrightarrow> w_ctx w' = w_ctx w \<Longrightarrow>
      \<not> pg_healthy (pg E) \<or> (scenario_of payload \<notin> set valid_scenarios \<and> x = bad_scenario (scenario_of payload)) \<or>
      (\<not> has_makefile D (w_tick w) \<and> x = no_makefile D) \<Longrightarrow> X x w'"
    and stop: "\<And>i x v w'. demo_began E payload w i \<Longrightarrow> w_redis w' = w_redis w \<Longrightarrow> w_ctx w' = w_ctx w \<Longrightarrow> view_of E i w' = Some v \<Longrightarrow>
      demo_stopped E D (skips_render payload) v \<Longrightarrow> X x w'"
  shows "wp (run_demo_forge_request E D payload) Q X w"
proof -
  let ?sc = "scenario_of payload" and ?trigger = "py_str (get_or payload ''trigger'' (JStr ''manual''))"
    and ?skip = "skips_render payload" and ?w = "w\<lparr>w_tick := Suc (w_tick w)\<rparr>"
  have bound: "wp (bnd (bind_workflow (Some i)) (\<lambda>token.
      finally_do (run_demo_steps E D i ?sc ?trigger ?skip) (reset_workflow token))) Q X w1"
    if i: "demo_began E payload w i" and w1: "only_db ?w w1" "dr.stands (E, 0) i [''demo_request_started''] [] [] w1"
    for i and w1 :: "('r, 'd, 'v) world"
  proof -
    let ?old = "current_workflow_id (w_ctx w1)" and ?w1 = "w1\<lparr>w_ctx := (w_ctx w1)\<lparr>current_workflow_id := Some i\<rparr>\<rparr>"
    have "dr.stands (E, 0) i [''demo_request_started''] [] [] ?w1" using w1(2) by (simp add: dr.stands_def)
    then have steps: "wp (run_demo_steps E D i ?sc ?trigger ?skip)
        (\<lambda>r w'. \<exists>v. view_of E i w' = Some v \<and> demo_done ?skip [''demo_request_started''] i ?sc r v)
        (\<lambda>x w'. \<exists>v. view_of E i w' = Some v \<and> demo_stopped E D ?skip v) ?w1"
      by (intro wp_run_demo_steps [OF laws]) auto
    have undo: "c = (w_ctx w1)\<lparr>current_workflow_id := Some i\<rparr> \<Longrightarrow> c\<lparr>current_workflow_id := ?old\<rparr> = w_ctx w" for c
      using w1(1) by (simp add: only_db_def)
    have "wp (run_demo_steps E D i ?sc ?trigger ?skip)
        (\<lambda>r. wp (reset_workflow ?old) (\<lambda>_. Q r) X) (\<lambda>x. wp (reset_workflow ?old) (\<lambda>_. X x) X) ?w1"
      by (rule wp_mono [OF wp_conj [OF steps keeps_wp [OF keeps_run_demo_steps]]])
        (use w1(1) in \<open>auto simp: reset_workflow_def beside_db_def only_db_def intro!: ret [OF i] stop [OF i] undo\<close>)
    then show ?thesis by (simp add: bind_workflow_def)
  qed
  have "wp (bnd (create_demo E D ?sc ?trigger ?skip) (\<lambda>i. bnd (bind_workflow (Some i)) (\<lambda>token.
      finally_do (run_demo_steps E D i ?sc ?trigger ?skip) (reset_workflow token)))) Q X ?w"
    if "?sc \<in> set valid_scenarios"
    unfolding wp_bnd [of "create_demo _ _ _ _ _"]
    by (rule wp_create_demo [OF laws])
      (use ok that in \<open>auto simp: demo_began_def only_db_def intro!: bound refused simp del: wp_bnd\<close>)
  then show ?thesis
    unfolding run_demo_forge_request_def Let_def
    by (auto simp: wp_bnd [of fresh_tick] intro!: refused simp del: wp_bnd)
qed

text \<open>A process that does not start: the run is left as it stood.\<close>

lemma wp_spawn_fails:
  fixes E :: "('r, 'd, 'v) env" and w :: "('r, 'd, 'v) world"
  assumes laws: "pg_laws (pg E)" and healthy: "pg_healthy (pg E)"
    and w: "dr.stands (E, 0) i evs [] [] w" and fails: "\<And>n. spawn D [''make'', ''check-tools''] n = Inl x"
    and exc: "\<And>k w'. dr.stands (E, 0) i evs [(k, ''check_tools'', ''running'')] [] w' \<Longrightarrow> X x w'"
  shows "wp (run_demo_steps E D i sc trigger skip) Q X w"
  unfolding run_demo_steps_def check_tools_def wp_bnd [of "bnd _ _"] wp_bnd [of "create_task _ _ _ _"]
proof (rule demo_rules(1) [OF laws w])
  fix k and w1 :: "('r, 'd, 'v) world"
  assume "dr.stands (E, 0) i evs ([] @ [(k, ''check_tools'', ''running'')]) [] w1"
  then have "dr.stands (E, 0) i evs [(k, ''check_tools'', ''running'')] [] (w1\<lparr>w_tick := Suc (w_tick w1)\<rparr>)"
    by (simp add: dr.stands_def view_of_def)
  from exc [OF this]
  show "wp (bnd (run_process D [''make'', ''check-tools''] ''90.0'') (\<lambda>(rc, out, err). f rc out err)) R X w1"
    for f and R :: "unit \<Rightarrow> ('r, 'd, 'v) world \<Rightarrow> bool"
    by (simp add: run_process_def fails)
qed (use healthy in simp)

text \<open>The manifest lists what the directory holds.\<close>

definition files_of :: "(string \<times> (exn + string) option) list \<Rightarrow> (string \<times> string) list" where
  "files_of es = concat (map (\<lambda>(n, e). case e of Some (Inr body) \<Rightarrow> [(n, body)] | _ \<Rightarrow> []) es)"

lemma files_of_simps [simp]:
  "files_of [] = []" "files_of ((n, None) # es) = files_of es" "files_of ((n, Some (Inr b)) # es) = (n, b) # files_of es"
  by (simp_all add: files_of_def)

lemma read_artifacts_files:
  "read_artifacts E es = Inr arts \<Longrightarrow>
     arts = map (\<lambda>(n, body). \<lparr>art_name = n, art_bytes = length body, art_sha256 = sha256_hex E body\<rparr>) (files_of es) \<and>
     (\<forall>n e. (n, Some (Inl e)) \<notin> set es)"
  by (induction E es arbitrary: arts rule: read_artifacts.induct) (auto split: sum.splits)

lemma files_of_sorted: "sorted (map fst es) \<Longrightarrow> sorted (map fst (files_of es))"
proof (induction es)
  case (Cons x es)
  have "set (map fst (files_of es)) \<subseteq> set (map fst es)"
    by (auto simp: files_of_def split: option.splits sum.splits) force+
  with Cons show ?case by (cases x) (auto simp: files_of_def split: option.splits sum.splits)
qed simp

lemma files_of_mset: "mset (files_of es) =
    \<Sum>\<^sub># (image_mset (\<lambda>(n, e). case e of Some (Inr body) \<Rightarrow> {#(n, body)#} | _ \<Rightarrow> {#}) (mset es))"
  by (induction es) (auto simp: files_of_def split: option.splits sum.splits)

lemma files_of_sort: "mset (files_of (sort_key fst es)) = mset (files_of es)"
  by (simp add: files_of_mset)

section \<open>Properties\<close>

text \<open>C35: what a demo request leaves, whatever the services and the clone do. When it returns, a new
  workflow is completed: its tasks are those of the request, in order, all completed except that
  the MP4 rendering may have failed, its events are the start and the completion, and its single
  approval is the one returned. When it raises, either the tables are unchanged, which on a healthy
  database happens for a bad scenario or a missing Makefile only, or there is one new workflow
  with a beginning of the tasks, which is failed with its last task failed because the clone
  refused, or is still running because a service or the clone raised. Neither Redis nor the
  context variable sees the run.\<close>

theorem demo_outcomes:
  assumes "pg_laws (pg E)" and "tables_ok (db E w)" and "run_demo_forge_request E D payload w = (out, w')"
  shows "w_redis w' = w_redis w \<and> w_ctx w' = w_ctx w \<and>
    (case out of
      Inr r \<Rightarrow> \<exists>i v. demo_began E payload w i \<and> view_of E i w' = Some v \<and>
        demo_done (skips_render payload) [''demo_request_started''] i (scenario_of payload) r v
    | Inl x \<Rightarrow>
        (db E w' = db E w \<and>
          (\<not> pg_healthy (pg E) \<or> (scenario_of payload \<notin> set valid_scenarios \<and> x = bad_scenario (scenario_of payload)) \<or>
           (\<not> has_makefile D (w_tick w) \<and> x = no_makefile D))) \<or>
        (\<exists>i v. demo_began E payload w i \<and> view_of E i w' = Some v \<and> demo_stopped E D (skips_render payload) v))"
proof -
  have "wp (run_demo_forge_request E D payload)
    (\<lambda>r w'. w_redis w' = w_redis w \<and> w_ctx w' = w_ctx w \<and> (\<exists>i v. demo_began E payload w i \<and> view_of E i w' = Some v \<and>
        demo_done (skips_render payload) [''demo_request_started''] i (scenario_of payload) r v))
    (\<lambda>x w'. w_redis w' = w_redis w \<and> w_ctx w' = w_ctx w \<and> ((db E w' = db E w \<and>
          (\<not> pg_healthy (pg E) \<or> (scenario_of payload \<notin> set valid_scenarios \<and> x = bad_scenario (scenario_of payload)) \<or>
           (\<not> has_makefile D (w_tick w) \<and> x = no_makefile D))) \<or>
        (\<exists>i v. demo_began E payload w i \<and> view_of E i w' = Some v \<and> demo_stopped E D (skips_render payload) v))) w"
    by (rule wp_run_demo [OF assms(1,2), where D = D]) blast+
  with assms(3) show ?thesis by (simp add: wp_def split: sum.splits)
qed

definition small_forge :: demo_env where
  "small_forge = \<lparr>forge_dir = ''/f'', has_makefile = (\<lambda>_. True), spawn = (\<lambda>_ _. Inr (Exited (Some 0) [] [])),
     output_dir = (\<lambda>_ _. True),
     list_dir = (\<lambda>_ _. Inr [(''b.cast'', Some (Inr ''xyz'')), (''tmp'', None), (''a.md'', Some (Inr ''hi''))]),
     read_text = (\<lambda>_ _. Inr None)\<rparr>"

definition demo_payload :: dict where
  "demo_payload = [(''scenario'', JStr ''001'')]"

lemma demo_payload_scenario [simp]: "scenario_of demo_payload = ''001''" "skips_render demo_payload = False"
  by (simp_all add: scenario_of_def demo_payload_def get_or_def py_strip_def strip_if_def is_space_def)

lemma small_forge_smooth: "smooth tame_env small_forge" "willing small_forge"
  using tame_answering by (auto simp: smooth_def forge_answers_def willing_def small_forge_def)

theorem demo_outcomes_witness:
  "\<exists>r w' i v. run_demo_forge_request tame_env small_forge demo_payload (mem_world empty_tables) = (Inr r, w') \<and>
     view_of tame_env i w' = Some v \<and> rv_status v = ''completed'' \<and>
     step_types v = [''check_tools'', ''capture'', ''render_mp4'', ''manifest'', ''approve'']"
proof -
  obtain out w' where run: "run_demo_forge_request tame_env small_forge demo_payload (mem_world empty_tables) = (out, w')"
    by force
  have "tables_ok (db tame_env (mem_world empty_tables))" by simp
  from demo_outcomes [OF _ this run] small_forge_smooth obtain r where out: "out = Inr r"
    by (cases out) (auto simp: demo_stopped_def valid_scenarios_def small_forge_def smooth_def)
  with demo_outcomes [OF _ _ run] run show ?thesis by (auto simp: demo_done_def demo_steps_def)
qed

text \<open>A process that cannot be started (no \<^verbatim>\<open>make\<close> on the path, say) is not
  accounted for: with everything else in order, the request raises, and its workflow and its first
  task stay \<open>running\<close>, since only return codes are handled.\<close>

theorem spawn_failure_strands:
  assumes "pg_laws (pg E)" and "pg_healthy (pg E)" and "tables_ok (db E w)"
    and "scenario_of payload \<in> set valid_scenarios" and "has_makefile D (w_tick w)"
    and "\<And>n. spawn D [''make'', ''check-tools''] n = Inl x"
  shows "\<exists>w' i k. run_demo_forge_request E D payload w = (Inl x, w') \<and>
    view_of E i w' = Some \<lparr>rv_status = ''running'', rv_events = [''demo_request_started''],
      rv_steps = [(k, ''check_tools'', ''running'')], rv_approvals = []\<rparr>"
proof -
  let ?left = "\<lambda>w'. \<exists>i k. dr.stands (E, 0) i [''demo_request_started''] [(k, ''check_tools'', ''running'')] [] w'"
  have bound: "wp (bnd (bind_workflow (Some i)) (\<lambda>token.
      finally_do (run_demo_steps E D i sc trigger skip) (reset_workflow token))) (\<lambda>_ _. False) (\<lambda>y w'. y = x \<and> ?left w') w1"
    if "dr.stands (E, 0) i [''demo_request_started''] [] [] w1" for i sc trigger skip w1
    by (simp add: bind_workflow_def reset_workflow_def)
      (rule wp_spawn_fails [OF assms(1,2) _ assms(6), where i = i], use that in \<open>auto simp: dr.stands_def\<close>)
  have "wp (run_demo_forge_request E D payload) (\<lambda>_ _. False) (\<lambda>y w'. y = x \<and> ?left w') w"
    unfolding run_demo_forge_request_def Let_def
    by (simp add: assms(4,5) wp_bnd [of fresh_tick] wp_bnd [of "create_demo _ _ _ _ _"] del: wp_bnd)
      (rule wp_create_demo [OF assms(1)], use assms(2,3) in \<open>auto intro: bound simp del: wp_bnd\<close>)
  then show ?thesis by (auto simp: wp_def dr.stands_def split: prod.splits sum.splits)
qed

theorem spawn_failure_strands_witness:
  "\<exists>w' i k. run_demo_forge_request quiet_env (small_forge\<lparr>spawn := (\<lambda>_ _. Inl (FileNotFoundError ''make''))\<rparr>) demo_payload
      (mem_world empty_tables) = (Inl (FileNotFoundError ''make''), w') \<and>
    view_of quiet_env i w' = Some \<lparr>rv_status = ''running'', rv_events = [''demo_request_started''],
      rv_steps = [(k, ''check_tools'', ''running'')], rv_approvals = []\<rparr>"
  by (rule spawn_failure_strands) (auto simp: small_forge_def valid_scenarios_def)

text \<open>The manifest lists exactly the files of the output directory, each once per entry, in the
  order of their names, with their sizes and digests; entries that are no files are left out, and
  the count that \<^verbatim>\<open>_build_manifest\<close> reports is that of the files.\<close>

theorem manifest_lists_files:
  assumes "build_manifest E D sc w = (Inr m, w')"
  shows "\<exists>es. list_dir D (out_path D sc) (w_tick w) = Inr es \<and>
    sorted (map art_name (mf_artifacts m)) \<and>
    mset (mf_artifacts m) =
      image_mset (\<lambda>(n, body). \<lparr>art_name = n, art_bytes = length body, art_sha256 = sha256_hex E body\<rparr>) (mset (files_of es)) \<and>
    get_or (manifest_to_dict m) ''artifact_count'' JNull = JInt (int (length (files_of es)))"
proof -
  from assms obtain es arts where es: "list_dir D (out_path D sc) (w_tick w) = Inr es"
    and arts: "read_artifacts E (sort_key fst es) = Inr arts" "mf_artifacts m = arts"
    by (auto simp: build_manifest_def mem_run split: sum.splits prod.splits)
  let ?art = "\<lambda>(n, body). \<lparr>art_name = n, art_bytes = length body, art_sha256 = sha256_hex E body\<rparr>"
  have m: "mf_artifacts m = map ?art (files_of (sort_key fst es))"
    using read_artifacts_files [OF arts(1)] arts(2) by simp
  have names: "map art_name (mf_artifacts m) = map fst (files_of (sort_key fst es))"
    by (simp add: m split_def)
  have "length (mf_artifacts m) = length (files_of es)"
    unfolding m length_map using files_of_sort [of es] by (rule mset_eq_length)
  then show ?thesis
    using es by (simp add: names files_of_sorted) (simp add: m files_of_sort manifest_to_dict_def get_or_def)
qed

theorem manifest_lists_files_witness:
  "\<exists>m w'. build_manifest quiet_env small_forge ''001'' (mem_world empty_tables) = (Inr m, w') \<and>
     sorted (map art_name (mf_artifacts m)) \<and>
     mset (mf_artifacts m) = {#\<lparr>art_name = ''b.cast'', art_bytes = 3, art_sha256 = ''xyz''\<rparr>,
       \<lparr>art_name = ''a.md'', art_bytes = 2, art_sha256 = ''hi''\<rparr>#}"
proof -
  obtain m w' where run: "build_manifest quiet_env small_forge ''001'' (mem_world empty_tables) = (Inr m, w')"
    by (simp add: build_manifest_def mem_run small_forge_def sort_key_def insort_key_def)
  from manifest_lists_files [OF run] run show ?thesis
    by (auto simp: small_forge_def eval_nat_numeral)
qed

end
