(* ===== verification/Api.thy ===== *)
theory Api
  imports Orchestrator Daily_Summary Ci_Watcher Integrity_Watcher Vector
begin

text \<open>
  \<^verbatim>\<open>api/server.py\<close>: the endpoints of the HTTP interface. An endpoint is the coroutine that
  FastAPI calls; its parameters come parsed, and what it returns or raises is what FastAPI turns
  into a response. The dashboard page is a constant and is left out.
\<close>

section \<open>The bearer token\<close>

definition bearer :: string where
  "bearer = ''Bearer ''"

definition require_token :: "settings \<Rightarrow> string option \<Rightarrow> exn + unit" where
  "require_token s authorization =
     (let expected = api_auth_token s in
      if expected = [] then Inr ()
      else
        (case authorization of
           None \<Rightarrow> Inl (HTTPException 401 ''Bearer token required'')
         | Some h \<Rightarrow>
             if take (length bearer) h \<noteq> bearer then Inl (HTTPException 401 ''Bearer token required'')
             else if drop (length bearer) h \<noteq> expected then Inl (HTTPException 403 ''invalid token'')
             else Inr ()))"

text \<open>\<^verbatim>\<open>dependencies=[Depends(_require_token)]\<close>\<close>

definition gated :: "('r, 'd, 'v) env \<Rightarrow> string option \<Rightarrow> ('r, 'd, 'v, 'a) act \<Rightarrow> ('r, 'd, 'v, 'a) act" where
  "gated E authorization endpoint = bnd (lift_sum (require_token (cfg E) authorization)) (\<lambda>_. endpoint)"

section \<open>Views of rows\<close>

definition opt_str_json :: "string option \<Rightarrow> json" where "opt_str_json = json_of_option JStr"
definition opt_int_json :: "int option \<Rightarrow> json" where "opt_int_json = json_of_option JInt"
definition opt_time_json :: "datetime option \<Rightarrow> json" where "opt_time_json = json_of_option (\<lambda>t. JStr (isoformat t))"

definition task_dict :: "task \<Rightarrow> dict" where
  "task_dict t =
     [(''id'', JInt (task_id t)), (''type'', JStr (task_type t)), (''status'', JStr (task_status t)),
      (''workflow_id'', opt_int_json (task_workflow_id t)), (''payload'', task_payload t),
      (''result'', json_of_option id (task_result t)), (''error'', opt_str_json (task_error t)),
      (''created_at'', JStr (isoformat (task_created_at t))),
      (''completed_at'', opt_time_json (task_completed_at t))]"

definition wf_dict :: "workflow \<Rightarrow> dict" where
  "wf_dict w =
     [(''id'', JInt (wf_id w)), (''workflow_name'', JStr (workflow_name w)), (''status'', JStr (wf_status w)),
      (''task_chain'', JList (wf_task_chain w)), (''logs'', JList (wf_logs w)),
      (''created_at'', JStr (isoformat (wf_created_at w))),
      (''completed_at'', opt_time_json (wf_completed_at w))]"

definition approval_dict :: "approval \<Rightarrow> dict" where
  "approval_dict a =
     [(''id'', JInt (apr_id a)), (''workflow_id'', opt_int_json (apr_workflow_id a)),
      (''task_id'', opt_int_json (apr_task_id a)),
      (''summary'', JStr (apr_summary a)), (''outputs'', JObj (apr_outputs a)),
      (''affected'', JList (map JStr (apr_affected a))),
      (''risk_level'', JStr (apr_risk_level a)), (''decision'', opt_str_json (apr_decision a)),
      (''delivered_via'', opt_str_json (apr_delivered_via a)),
      (''created_at'', JStr (isoformat (apr_created_at a))),
      (''decided_at'', opt_time_json (apr_decided_at a))]"

definition memory_dict :: "memory_row \<Rightarrow> dict" where
  "memory_dict r =
     [(''id'', JInt (mem_id r)), (''category'', JStr (mem_category r)), (''content'', JStr (mem_content r)),
      (''metadata'', JObj (mem_meta r)), (''created_at'', JStr (isoformat (mem_created_at r)))]"

definition job_dict :: "job \<Rightarrow> dict" where
  "job_dict j =
     [(''id'', JStr (job_id j)), (''type'', JStr (job_type j)), (''attempt'', JInt (job_attempt j)),
      (''created_at'', JStr (job_created_at j)), (''notes'', JList (map JStr (job_notes j))),
      (''payload'', JObj (job_payload j))]"

section \<open>Health\<close>

definition depths_dict :: "(string \<times> int) list \<Rightarrow> json" where
  "depths_dict ds = JObj (map (\<lambda>(q, n). (q, JInt n)) ds)"

definition health :: "('r, 'd, 'v) env \<Rightarrow> ('r, 'd, 'v, dict) act" where
  "health E =
     bnd (queue_ping E) (\<lambda>up.
     bnd (all_depths E) (\<lambda>ds.
     ret [(''redis'', JBool up), (''queue_depths'', depths_dict ds)]))"

text \<open>\<^verbatim>\<open>ready\<close>: the status code and the body.\<close>

definition ready :: "('r, 'd, 'v) env \<Rightarrow> ('r, 'd, 'v, int \<times> dict) act" where
  "ready E =
     bnd (db_ping E) (\<lambda>db_ok.
     bnd (queue_ping E) (\<lambda>redis_ok.
     ret (if \<not> (db_ok \<and> redis_ok) then 503 else 200, [(''database'', JBool db_ok), (''redis'', JBool redis_ok)])))"

section \<open>Lists\<close>

text \<open>A limit that Postgres accepts: a negative one makes the statement fail.\<close>

definition page_limit :: "int \<Rightarrow> exn + nat option" where
  "page_limit n = (if n < 0 then Inl (ServiceError ''LIMIT must not be negative'') else Inr (Some (nat n)))"

text \<open>\<^verbatim>\<open>if status: stmt = stmt.where(...)\<close>\<close>

definition status_is :: "string option \<Rightarrow> string \<Rightarrow> bool" where
  "status_is status s \<longleftrightarrow> (case status of None \<Rightarrow> True | Some x \<Rightarrow> x = [] \<or> s = x)"

definition list_tasks :: "('r, 'd, 'v) env \<Rightarrow> string option \<Rightarrow> int \<Rightarrow> ('r, 'd, 'v, dict list) act" where
  "list_tasks E status limit =
     session_scope E
       (bnd (lift_sum (page_limit limit)) (\<lambda>n.
        bnd (select_tasks E (\<lambda>r. status_is status (task_status r)) Id_Desc n) (\<lambda>rows.
        ret (map task_dict rows))))"

definition list_workflows :: "('r, 'd, 'v) env \<Rightarrow> int \<Rightarrow> string option \<Rightarrow> ('r, 'd, 'v, dict list) act" where
  "list_workflows E limit status =
     session_scope E
       (bnd (lift_sum (page_limit limit)) (\<lambda>n.
        bnd (select_workflows E (\<lambda>r. status_is status (wf_status r)) Id_Desc n) (\<lambda>rows.
        ret (map wf_dict rows))))"

definition list_approvals :: "('r, 'd, 'v) env \<Rightarrow> bool \<Rightarrow> int \<Rightarrow> ('r, 'd, 'v, dict list) act" where
  "list_approvals E pending limit =
     session_scope E
       (bnd (lift_sum (page_limit limit)) (\<lambda>n.
        bnd (select_approvals E (\<lambda>r. pending \<longrightarrow> apr_decision r = None) Id_Desc n) (\<lambda>rows.
        ret (map approval_dict rows))))"

definition memory_recent :: "('r, 'd, 'v) env \<Rightarrow> int \<Rightarrow> ('r, 'd, 'v, dict list) act" where
  "memory_recent E limit =
     session_scope E
       (bnd (lift_sum (page_limit limit)) (\<lambda>n.
        bnd (select_memories E (\<lambda>_. True) Id_Desc n) (\<lambda>rows.
        ret (map memory_dict rows))))"

section \<open>One workflow\<close>

definition with_tasks :: "workflow \<Rightarrow> task list \<Rightarrow> dict" where
  "with_tasks w ts = wf_dict w @ [(''tasks'', JList (map (\<lambda>t. JObj (task_dict t)) ts))]"

definition not_found :: "string \<Rightarrow> exn" where
  "not_found what = HTTPException 404 (what @ '' not found'')"

definition get_workflow :: "('r, 'd, 'v) env \<Rightarrow> int \<Rightarrow> ('r, 'd, 'v, dict) act" where
  "get_workflow E i =
     session_scope E
       (bnd (select_workflows E (\<lambda>r. wf_id r = i) Unordered None) (\<lambda>rows.
        bnd (lift_sum (scalar_one_or_none rows)) (\<lambda>wf.
          case wf of
            None \<Rightarrow> raise (not_found ''workflow'')
          | Some w \<Rightarrow>
              bnd (select_tasks E (\<lambda>r. task_workflow_id r = Some i) Id_Asc None) (\<lambda>ts.
              ret (with_tasks w ts)))))"

section \<open>Decisions, triggers\<close>

definition decide_approval :: "('r, 'd, 'v) env \<Rightarrow> string option \<Rightarrow> int \<Rightarrow> string \<Rightarrow> ('r, 'd, 'v, dict) act" where
  "decide_approval E authorization i decision =
     gated E authorization
       (bnd (decide E i decision) (\<lambda>found.
        if \<not> found then raise (not_found ''approval'')
        else ret [(''approval_id'', JInt i), (''decision'', JStr decision)]))"

definition trigger :: "('r, 'd, 'v) env \<Rightarrow> string option \<Rightarrow> string \<Rightarrow> dict \<Rightarrow> ('r, 'd, 'v, dict) act" where
  "trigger E authorization ty payload =
     gated E authorization
       (bnd (enqueue_manual E ty payload) (\<lambda>j.
        ret [(''job_id'', JStr j)]))"

definition run_summary_now :: "('r, 'd, 'v) env \<Rightarrow> daily_env \<Rightarrow> string option \<Rightarrow> ('r, 'd, 'v, dict) act" where
  "run_summary_now E D authorization = gated E authorization (run_daily_summary E D)"

section \<open>Summaries, memory, logs, queues, statistics\<close>

definition latest_daily_summary :: "('r, 'd, 'v) env \<Rightarrow> ('r, 'd, 'v, dict) act" where
  "latest_daily_summary E =
     session_scope E
       (bnd (latest_summary E) (\<lambda>row.
        ret (case row of
               None \<Rightarrow> [(''available'', JBool False), (''reason'', JStr ''no_summary_yet'')]
             | Some r \<Rightarrow>
                 [(''available'', JBool True), (''id'', JInt (mem_id r)),
                  (''date'', get_or (mem_meta r) ''date'' JNull), (''summary'', JStr (mem_content r)),
                  (''stats'', get_or (mem_meta r) ''stats'' JNull),
                  (''created_at'', JStr (isoformat (mem_created_at r)))])))"

definition memory_search :: "('r, 'd, 'v) env \<Rightarrow> string \<Rightarrow> int \<Rightarrow> ('r, 'd, 'v, hit list) act" where
  "memory_search E q n = vec_query E q n"

text \<open>
  \<^verbatim>\<open>{"workflow_id": r.id, **entry}\<close>, and the sort of the entries by their time stamps,
  newest first, which keeps the order of equal ones. The time stamps the program writes are texts;
  a list with another value is refused, as Python refuses to compare a text with one.
\<close>

definition log_dict :: "int \<Rightarrow> json \<Rightarrow> exn + dict" where
  "log_dict i entry =
     (case entry of
        JObj d \<Rightarrow> Inr (fold (\<lambda>(k, v). AList.update k v) d [(''workflow_id'', JInt i)])
      | v \<Rightarrow> Inl (TypeError (squote # type_name v @ squote # '' object is not a mapping'')))"

definition entry_ts :: "dict \<Rightarrow> json" where
  "entry_ts d = get_or d ''ts'' (JStr [])"

definition newest_first :: "dict list \<Rightarrow> exn + dict list" where
  "newest_first es =
     (if length es \<le> 1 \<or> list_all (\<lambda>d. \<exists>s. entry_ts d = JStr s) es
      then Inr (rev (sort_key (\<lambda>d. py_str (entry_ts d)) (rev es)))
      else Inl (TypeError ''unorderable time stamps''))"

text \<open>\<^verbatim>\<open>xs[:n]\<close>, where a negative \<open>n\<close> counts from the end.\<close>

definition upto :: "int \<Rightarrow> 'a list \<Rightarrow> 'a list" where
  "upto n xs = (if 0 \<le> n then take (nat n) xs else take (length xs - nat (- n)) xs)"

definition logs_recent :: "('r, 'd, 'v) env \<Rightarrow> int \<Rightarrow> ('r, 'd, 'v, dict list) act" where
  "logs_recent E limit =
     session_scope E
       (bnd (select_workflows E (\<lambda>_. True) Id_Desc (Some 20)) (\<lambda>rows.
        bnd (collect_each (concat (map (\<lambda>r. map (Pair (wf_id r)) (last_n 10 (wf_logs r))) rows))
               (\<lambda>(i, entry). lift_sum (log_dict i entry))) (\<lambda>entries.
        bnd (lift_sum (newest_first entries)) (\<lambda>es.
        ret (upto limit es)))))"

definition queues_failed :: "('r, 'd, 'v) env \<Rightarrow> int \<Rightarrow> ('r, 'd, 'v, dict list) act" where
  "queues_failed E limit = bnd (peek_failed E limit) (\<lambda>js. ret (map job_dict js))"

definition safe_vector_count :: "('r, 'd, 'v) env \<Rightarrow> ('r, 'd, 'v, int) act" where
  "safe_vector_count E = try_except (vec_count E) (\<lambda>_. ret 0)"

definition count_dict :: "(string option \<times> int) list \<Rightarrow> json" where
  "count_dict kns = JObj (dict_of_pairs (map (\<lambda>(k, n). (column_text k, JInt n)) kns))"

definition stats :: "('r, 'd, 'v) env \<Rightarrow> ('r, 'd, 'v, dict) act" where
  "stats E =
     bnd (session_scope E
            (bnd (count_tasks E (\<lambda>_. True) (\<lambda>r. Some (task_status r)) False None) (\<lambda>tks.
             bnd (count_workflows E (\<lambda>_. True) (\<lambda>r. Some (wf_status r)) False None) (\<lambda>wfs.
             ret (tks, wfs))))) (\<lambda>(tks, wfs).
     bnd (all_depths E) (\<lambda>ds.
     bnd (safe_vector_count E) (\<lambda>n.
     ret [(''tasks'', count_dict tks), (''workflows'', count_dict wfs), (''queues'', depths_dict ds),
          (''vector_count'', JInt n)])))"

section \<open>The watchers\<close>

definition run_dict :: "workflow_run \<Rightarrow> dict" where
  "run_dict r =
     [(''repo'', JStr (run_repo r)), (''name'', JStr (run_name r)), (''status'', JStr (run_status r)),
      (''conclusion'', JStr (run_conclusion r)), (''head_sha'', JStr (run_head_sha r)),
      (''created_at'', JStr (run_created_at r)), (''url'', JStr (run_url r))]"

definition ci_check_dict :: "ci_check \<Rightarrow> dict" where
  "ci_check_dict c =
     [(''ts'', JStr (cc_ts c)), (''repo'', JStr (cc_repo c)), (''status'', JStr (cc_status c)),
      (''note'', JStr (cc_note c)),
      (''failed_runs'', JList (map (\<lambda>r. JObj (run_dict r)) (cc_failed_runs c))),
      (''in_flight_runs'', JList (map (\<lambda>r. JObj (run_dict r)) (cc_in_flight_runs c))),
      (''flaky_workflows'', JList (map JStr (cc_flaky_workflows c)))]"

definition integrity_check_dict :: "integrity_check \<Rightarrow> dict" where
  "integrity_check_dict c =
     [(''ts'', JStr (ic_ts c)), (''status'', JStr (ic_status c)), (''count'', JInt (ic_count c)),
      (''head'', opt_str_json (ic_head c)), (''chain_dir'', JStr (ic_chain_dir c)), (''note'', JStr (ic_note c))]"

text \<open>
  The watchers of the orchestrator, when it has them: for the integrity watcher its chain
  directory, its interval (a float literal) and its state; for the CI watcher its repositories, its
  interval and its state.
\<close>

definition watchers_status ::
  "(string \<times> string \<times> integrity_state) option \<Rightarrow> (string list \<times> string \<times> ci_state) option \<Rightarrow> dict" where
  "watchers_status iw ci =
     [(''integrity_watcher'', JObj
        (case iw of
           None \<Rightarrow> [(''status'', JStr ''not_running''), (''history'', JList [])]
         | Some (dir, interval, st) \<Rightarrow>
             [(''status'', JStr ''running''), (''chain_dir'', JStr dir), (''interval_seconds'', JFloat interval),
              (''last_known_head'', opt_str_json (iw_last_head st)),
              (''history'', JList (map (\<lambda>c. JObj (integrity_check_dict c)) (last_n 20 (iw_history st))))])),
      (''ci_watcher'', JObj
        (case ci of
           None \<Rightarrow> [(''status'', JStr ''not_running''), (''history'', JObj [])]
         | Some (repos, interval, st) \<Rightarrow>
             [(''status'', JStr ''running''), (''repos'', JList (map JStr repos)), (''interval_seconds'', JFloat interval),
              (''history'', JObj (map (\<lambda>(repo, hist). (repo, JList (map (\<lambda>c. JObj (ci_check_dict c)) (last_n 10 hist))))
                                   (ci_history st)))]))]"

section \<open>What a read answers\<close>

text \<open>
  A session body that only reads and whose outcome is a function of the tables, on a healthy
  database and for tables that satisfy the invariant.
\<close>

definition session_value :: "('r, 'd, 'v) env \<Rightarrow> ('r, 'd, 'v, 'a) act \<Rightarrow> (tables \<Rightarrow> exn + 'a) \<Rightarrow> bool" where
  "session_value E m v \<longleftrightarrow>
     session_ends E tables_ok m (\<lambda>t a t'. t' = t \<and> v t = Inr a) (\<lambda>t e. v t = Inl e)"

lemma session_value_bnd:
  assumes "session_value E m v" and "\<And>a. session_value E (k a) (u a)"
  shows "session_value E (bnd m k) (\<lambda>t. case v t of Inl e \<Rightarrow> Inl e | Inr a \<Rightarrow> u a t)"
  unfolding session_value_def
proof (rule session_ends_weaken [OF session_ends_bnd [OF assms(1) [unfolded session_value_def]]])
  show "session_ends E (\<lambda>t'. \<exists>t. tables_ok t \<and> t' = t \<and> v t = Inr a) (k a)
      (\<lambda>t b t'. t' = t \<and> u a t = Inr b) (\<lambda>t e. u a t = Inl e)" for a
    by (rule session_ends_weaken [OF assms(2) [unfolded session_value_def]]) auto
qed auto

lemma session_value_basic:
  "session_value E (ret a) (\<lambda>_. Inr a)" "session_value E (raise x) (\<lambda>_. Inl x)"
  "session_value E (lift_sum r) (\<lambda>_. r)"
  unfolding session_value_def
  by (rule session_ends_weaken [OF session_ends_ret] session_ends_weaken [OF session_ends_raise]
      session_ends_weaken [OF session_ends_lift], simp_all)+

lemma scope_value:
  assumes "pg_laws (pg E)" and "pg_healthy (pg E)" and "tables_ok (db E w)" and "session_value E m v"
  shows "fst (session_scope E m w) = v (db E w) \<and> db E (snd (session_scope E m w)) = db E w"
proof -
  have "wp (session_scope E m) (\<lambda>a w'. v (db E w) = Inr a \<and> db E w' = db E w)
      (\<lambda>e w'. v (db E w) = Inl e \<and> db E w' = db E w) w"
    by (rule wp_session_scope_ends [OF assms(1,2) assms(4) [unfolded session_value_def] assms(3)]) auto
  then show ?thesis by (auto simp: wp_def split: prod.splits sum.splits)
qed

text \<open>Selects in the order of the keys, and by a key.\<close>

definition page :: "('row \<Rightarrow> int) \<Rightarrow> ('row \<Rightarrow> bool) \<Rightarrow> order \<Rightarrow> nat option \<Rightarrow> 'row list \<Rightarrow> 'row list" where
  "page key P ord n rows =
     take_limit n ((if ord = Id_Desc then rev else id) (sort_key key (filter P rows)))"

lemma selects_page:
  assumes "distinct (map key tbl)" and "selects key P ord n tbl rows" and "ord \<noteq> Unordered"
  shows "rows = page key P ord n tbl"
proof -
  from assms(2,3) obtain ys where ys: "mset ys = mset (filter P tbl)" "rows = take_limit n ys"
    and o: "if ord = Id_Desc then sorted (map key (rev ys)) else sorted (map key ys)"
    unfolding selects_def by (cases ord) (auto simp: rev_map)
  have inj: "inj_on key (set (filter P tbl))"
    using assms(1) by (auto simp: distinct_map intro: inj_on_subset)
  have "sort_key key (filter P tbl) = (if ord = Id_Desc then rev ys else ys)"
    using sort_key_inj_key_eq [of "filter P tbl" "rev ys" key, OF _ inj]
      sort_key_inj_key_eq [of "filter P tbl" ys key, OF _ inj] ys(1) o by (simp split: if_splits)
  with ys(2) show ?thesis by (simp add: page_def)
qed

lemma session_value_select:
  assumes "table_laws (pg E) T rows upd key stamp" and "table_healthy T"
    and "\<And>t. tables_ok t \<Longrightarrow> distinct (map key (rows t))" and "ord \<noteq> Unordered"
  shows "session_value E (on_pg (tb_select T P ord n)) (\<lambda>t. Inr (page key P ord n (rows t)))"
  unfolding session_value_def
  by (rule session_ends_total, rule session_total_weaken [OF session_total_select [OF assms(1,2)]], assumption)
    (use assms(3,4) in \<open>auto dest: selects_page\<close>)

lemma session_value_by_key:
  assumes "table_laws (pg E) T rows upd key stamp" and "table_healthy T"
    and "\<And>t. tables_ok t \<Longrightarrow> distinct (map key (rows t))"
  shows "session_value E (bnd (on_pg (tb_select T (\<lambda>r. key r = i) Unordered None)) (\<lambda>rs. lift_sum (scalar_one_or_none rs)))
    (\<lambda>t. Inr (find (\<lambda>r. key r = i) (rows t)))"
  unfolding session_value_def
proof (rule session_ends_weaken [OF session_ends_bnd
      [OF session_ends_total [OF session_total_select [OF assms(1,2), where P = tables_ok]] session_ends_lift]])
  have one: "scalar_one_or_none rs = Inr (find (\<lambda>r. key r = i) tbl)"
    if "distinct (map key tbl)" "selects key (\<lambda>r. key r = i) Unordered None tbl rs" for tbl rs
  proof -
    from that(2) have m: "mset rs = mset (filter (\<lambda>r. key r = i) tbl)" by (auto simp: selects_def take_limit_def)
    show ?thesis
    proof (cases "find (\<lambda>r. key r = i) tbl")
      case None
      then have "filter (\<lambda>r. key r = i) tbl = []" by (auto simp: find_None_iff filter_empty_conv)
      with m have "mset rs = mset []" by (simp only:)
      with None show ?thesis by (simp add: scalar_one_or_none_def)
    next
      case (Some r)
      then obtain ys zs where tbl: "tbl = ys @ r # zs" "key r = i" by (auto simp: find_Some_iff dest: id_take_nth_drop)
      from that(1) tbl(1) have "key r \<notin> key ` set ys" "key r \<notin> key ` set zs" by simp_all
      with tbl(2) have "filter (\<lambda>r. key r = i) ys = []" "filter (\<lambda>r. key r = i) zs = []"
        unfolding filter_empty_conv by blast+
      with tbl have "filter (\<lambda>r. key r = i) tbl = [r]" by simp
      with m have "mset rs = mset [r]" by (simp only:)
      with Some show ?thesis by (simp add: scalar_one_or_none_def)
    qed
  qed
  show "t' = t \<and> Inr (find (\<lambda>r. key r = i) (rows t)) = Inr a"
    if "tables_ok t" "\<exists>rs t'a. (t'a = t \<and> selects key (\<lambda>r. key r = i) Unordered None (rows t) rs) \<and>
      scalar_one_or_none rs = Inr a \<and> t' = t'a" for t a t'
    using that one [OF assms(3)] by auto
  show "Inr (find (\<lambda>r. key r = i) (rows t)) = Inl e"
    if "tables_ok t" "False \<or> (\<exists>rs t'. (t' = t \<and> selects key (\<lambda>r. key r = i) Unordered None (rows t) rs) \<and>
      scalar_one_or_none rs = Inl e)" for t e
    using that one [OF assms(3)] by auto
qed

lemma tables_ok_keys:
  "tables_ok t \<Longrightarrow> distinct (map task_id (tasks t))" "tables_ok t \<Longrightarrow> distinct (map wf_id (workflows t))"
  "tables_ok t \<Longrightarrow> distinct (map mem_id (memories t))" "tables_ok t \<Longrightarrow> distinct (map apr_id (approvals t))"
  by (simp_all add: tables_ok_def)

lemmas session_value_selects =
  session_value_select [OF pg_laws_tables(1) pg_healthyD(1) tables_ok_keys(1), folded select_tasks_def]
  session_value_select [OF pg_laws_tables(2) pg_healthyD(2) tables_ok_keys(2), folded select_workflows_def]
  session_value_select [OF pg_laws_tables(3) pg_healthyD(3) tables_ok_keys(3), folded select_memories_def]
  session_value_select [OF pg_laws_tables(4) pg_healthyD(4) tables_ok_keys(4), folded select_approvals_def]

lemmas session_value_workflow =
  session_value_by_key [OF pg_laws_tables(2) pg_healthyD(2) tables_ok_keys(2), folded select_workflows_def, folded workflow_row_def]

text \<open>A page of the newest rows of a table.\<close>

definition newest_rows :: "('row \<Rightarrow> int) \<Rightarrow> ('row \<Rightarrow> bool) \<Rightarrow> int \<Rightarrow> 'row list \<Rightarrow> 'row list" where
  "newest_rows key P n rows = take (nat n) (rev (sort_key key (filter P rows)))"

lemma page_newest [simp]: "page key P Id_Desc (Some (nat n)) rows = newest_rows key P n rows"
  by (simp add: page_def take_limit_def newest_rows_def)

lemma value_page:
  assumes "\<And>m. session_value E (sel m) (\<lambda>t. Inr (page key P Id_Desc m (rows t)))"
  shows "session_value E (bnd (lift_sum (page_limit n)) (\<lambda>m. bnd (sel m) (\<lambda>rs. ret (f rs))))
    (\<lambda>t. if n < 0 then Inl (ServiceError ''LIMIT must not be negative'') else Inr (f (newest_rows key P n (rows t))))"
proof -
  show ?thesis
    by (rule session_value_bnd [OF session_value_basic(3) session_value_bnd [OF assms session_value_basic(1)],
        THEN subst [where P = "session_value E _", rotated]]) (auto simp: page_limit_def fun_eq_iff)
qed

definition page_answer :: "int \<Rightarrow> 'a \<Rightarrow> exn + 'a" where
  "page_answer n ds = (if n < 0 then Inl (ServiceError ''LIMIT must not be negative'') else Inr ds)"

lemma page_value:
  assumes "pg_laws (pg E)" and "pg_healthy (pg E)" and "tables_ok (db E w)"
    and "\<And>m. session_value E (sel m) (\<lambda>t. Inr (page key P Id_Desc m (rows t)))"
  shows "let (r, w') = session_scope E (bnd (lift_sum (page_limit n)) (\<lambda>m. bnd (sel m) (\<lambda>rs. ret (f rs)))) w in
    db E w' = db E w \<and> r = page_answer n (f (newest_rows key P n (rows (db E w))))"
  using scope_value [OF assms(1-3) value_page [OF assms(4)], of n f] by (simp add: case_prod_beta page_answer_def)

section \<open>Reads leave the tables alone\<close>

definition reads :: "('r, 'd, 'v) env \<Rightarrow> ('r, 'd, 'v, 'a) act \<Rightarrow> bool" where
  "reads E m \<longleftrightarrow> session_body E m (\<lambda>t _ t'. t' = t)"

lemma reads_bnd: "reads E m \<Longrightarrow> (\<And>a. reads E (k a)) \<Longrightarrow> reads E (bnd m k)"
  unfolding reads_def by (rule session_body_weaken [OF session_body_bnd]) auto

lemma reads_basic: "reads E (ret a)" "reads E (raise x)" "reads E (lift_sum r)"
  unfolding reads_def
  by (rule session_body_weaken [OF session_body_ret], simp, simp add: session_body_def,
      rule session_body_weaken [OF session_body_lift], simp)

lemma reads_collect: "(\<And>x. reads E (f x)) \<Longrightarrow> reads E (collect_each xs f)"
  by (induction xs) (auto intro!: reads_bnd reads_basic)

lemma reads_case_option: "reads E m \<Longrightarrow> (\<And>x. reads E (k x)) \<Longrightarrow> reads E (case v of None \<Rightarrow> m | Some x \<Rightarrow> k x)"
  by (cases v) auto

lemma reads_statements:
  assumes "pg_laws (pg E)"
  shows "reads E (select_tasks E P1 ord n)" "reads E (select_workflows E P2 ord n)"
    "reads E (select_memories E P3 ord n)" "reads E (select_approvals E P4 ord n)"
    "reads E (count_tasks E P1 f1 d n)" "reads E (count_workflows E P2 f2 d n)"
  unfolding reads_def
  by (rule session_body_weaken [OF session_body_statements(5) [OF assms]], simp,
      rule session_body_weaken [OF session_body_statements(6) [OF assms]], simp,
      rule session_body_weaken [OF session_body_statements(7) [OF assms]], simp,
      rule session_body_weaken [OF session_body_statements(8) [OF assms]], simp,
      rule session_body_weaken [OF session_body_counts(1) [OF assms]], simp,
      rule session_body_weaken [OF session_body_counts(2) [OF assms]], simp)

lemma keeps_reads:
  assumes "pg_laws (pg E)" and "reads E m"
  shows "keeps (db E) (session_scope E m)"
  by (rule keepsI, rule wp_session_scope [OF assms(1) assms(2) [unfolded reads_def]]) auto

lemmas reads_rules = reads_bnd reads_basic reads_collect reads_case_option reads_statements

lemma keeps_db_ping:
  assumes "pg_laws (pg E)"
  shows "keeps (db E) (db_ping E)"
  by (rule keepsI, rule wp_db_ping [OF assms]) auto

lemma keeps_redis_reads:
  "keeps (db E) (queue_ping E)" "keeps (db E) (all_depths E)" "keeps (db E) (peek_failed E n)"
  "keeps (db E) (vec_query E q n)" "keeps (db E) (safe_vector_count E)"
  unfolding queue_ping_def all_depths_def depth_def peek_failed_def vec_query_def safe_vector_count_def vec_count_def
  by (intro wp_ops)+

text \<open>Who may pass, and what the others are told.\<close>

definition open_to :: "settings \<Rightarrow> string option \<Rightarrow> bool" where
  "open_to s h \<longleftrightarrow> api_auth_token s = [] \<or> h = Some (bearer @ api_auth_token s)"

definition refusal :: "string option \<Rightarrow> exn" where
  "refusal h =
     (if \<exists>token. h = Some (bearer @ token) then HTTPException 403 ''invalid token''
      else HTTPException 401 ''Bearer token required'')"

lemma gated_cases: "gated E h m w = (if open_to (cfg E) h then m w else (Inl (refusal h), w))"
proof (cases h)
  case None
  then show ?thesis by (simp add: gated_def require_token_def Let_def refusal_def open_to_def mem_run)
next
  case (Some x)
  have "take (length bearer) x = bearer \<longleftrightarrow> (\<exists>token. x = bearer @ token)"
    by (metis append_eq_conv_conj append_take_drop_id)
  with Some show ?thesis
    by (auto simp: gated_def require_token_def Let_def refusal_def open_to_def mem_run)
qed

section \<open>Properties\<close>

text \<open>C36: the token gates every endpoint that changes something: without a token in the settings
  the endpoint runs; with one it runs exactly when the header is \<open>Bearer\<close> and that token, and
  otherwise the answer is 403 for another token and 401 for any other header or none, and nothing
  at all has happened.\<close>

theorem post_endpoints_gated:
  "decide_approval E h i d w =
     (if open_to (cfg E) h then bnd (decide E i d) (\<lambda>found. if \<not> found then raise (not_found ''approval'')
        else ret [(''approval_id'', JInt i), (''decision'', JStr d)]) w
      else (Inl (refusal h), w)) \<and>
   trigger E h ty payload w =
     (if open_to (cfg E) h then bnd (enqueue_manual E ty payload) (\<lambda>j. ret [(''job_id'', JStr j)]) w
      else (Inl (refusal h), w)) \<and>
   run_summary_now E D h w = (if open_to (cfg E) h then run_daily_summary E D w else (Inl (refusal h), w))"
  unfolding decide_approval_def trigger_def run_summary_now_def by (intro conjI gated_cases)

abbreviation token_env :: "(mem_redis_state, mem_pg_state, unit) env" where
  "token_env \<equiv> mem_env ((default_settings ''/srv'')\<lparr>api_auth_token := ''t0k''\<rparr>) (\<lambda>_ _. Inl TimeoutError) (\<lambda>_ _ _. Inr (200, []))
     (\<lambda>_ _ _. Inr ())"

theorem post_endpoints_gated_witness:
  "decide_approval token_env (Some ''Bearer t0k!'') 1 ''approved'' (mem_world empty_tables) =
     (Inl (HTTPException 403 ''invalid token''), mem_world empty_tables) \<and>
   trigger token_env (Some ''t0k'') ''x'' [] (mem_world empty_tables) =
     (Inl (HTTPException 401 ''Bearer token required''), mem_world empty_tables) \<and>
   run_summary_now token_env no_log_file (Some ''Bearer t0k'') (mem_world empty_tables) =
     run_daily_summary token_env no_log_file (mem_world empty_tables)"
proof -
  have o: "\<not> open_to (cfg token_env) (Some ''Bearer t0k!'')" "\<not> open_to (cfg token_env) (Some ''t0k'')"
    "open_to (cfg token_env) (Some ''Bearer t0k'')"
    and r: "refusal (Some ''Bearer t0k!'') = HTTPException 403 ''invalid token''"
      "refusal (Some ''t0k'') = HTTPException 401 ''Bearer token required''"
    by (simp_all add: open_to_def refusal_def bearer_def)
  show ?thesis
    using post_endpoints_gated [of token_env "Some ''Bearer t0k!''" 1 "''approved''" "mem_world empty_tables"]
      post_endpoints_gated [of token_env "Some ''t0k''" _ _ "mem_world empty_tables" "''x''" "[]"]
      post_endpoints_gated [of token_env "Some ''Bearer t0k''" _ _ "mem_world empty_tables" _ _ no_log_file]
    by (simp only: o r if_True if_False)
qed

text \<open>The lists are exact: on a healthy database whose tables satisfy the invariant, each list
  endpoint answers the views of the newest rows that pass its filter, newest first and at most as
  many as the limit, fails for a negative limit, and leaves the tables alone.\<close>

theorem lists_are_newest_pages:
  assumes "pg_laws (pg E)" and "pg_healthy (pg E)" and "tables_ok (db E w)"
  shows "(let (r, w') = list_tasks E status n w in db E w' = db E w \<and>
      r = page_answer n (map task_dict (newest_rows task_id (\<lambda>t. status_is status (task_status t)) n (tasks (db E w))))) \<and>
    (let (r, w') = list_workflows E n status w in db E w' = db E w \<and>
      r = page_answer n (map wf_dict (newest_rows wf_id (\<lambda>t. status_is status (wf_status t)) n (workflows (db E w))))) \<and>
    (let (r, w') = list_approvals E pending n w in db E w' = db E w \<and>
      r = page_answer n (map approval_dict
        (newest_rows apr_id (\<lambda>a. pending \<longrightarrow> apr_decision a = None) n (approvals (db E w))))) \<and>
    (let (r, w') = memory_recent E n w in db E w' = db E w \<and>
      r = page_answer n (map memory_dict (newest_rows mem_id (\<lambda>_. True) n (memories (db E w)))))"
  unfolding list_tasks_def list_workflows_def list_approvals_def memory_recent_def
  by (intro conjI page_value [OF assms] session_value_selects assms(1,2)) simp_all

text \<open>Looking up a workflow is exact: the answer is 404 exactly for an id that names none, and
  else the view of its row with the views of its tasks in the order they were created.\<close>

theorem get_workflow_exact:
  assumes "pg_laws (pg E)" and "pg_healthy (pg E)" and "tables_ok (db E w)"
  shows "(let (r, w') = get_workflow E i w in db E w' = db E w \<and>
    r = (case workflow_row (db E w) i of
           None \<Rightarrow> Inl (HTTPException 404 ''workflow not found'')
         | Some row \<Rightarrow>
             Inr (wf_dict row @ [(''tasks'', JList (map (\<lambda>t. JObj (task_dict t))
               (sort_key task_id (filter (\<lambda>t. task_workflow_id t = Some i) (tasks (db E w))))))])))"
proof -
  let ?k = "\<lambda>wf. case wf of None \<Rightarrow> raise (not_found ''workflow'')
    | Some row \<Rightarrow> bnd (select_tasks E (\<lambda>r. task_workflow_id r = Some i) Id_Asc None) (\<lambda>ts. ret (with_tasks row ts))"
  let ?u = "\<lambda>wf t. case wf of None \<Rightarrow> Inl (not_found ''workflow'')
    | Some row \<Rightarrow> Inr (with_tasks row (page task_id (\<lambda>r. task_workflow_id r = Some i) Id_Asc None (tasks t)))"
  have k: "session_value E (?k wf) (?u wf)" for wf
  proof (cases wf)
    case (Some row)
    have "session_value E (bnd (select_tasks E (\<lambda>r. task_workflow_id r = Some i) Id_Asc None) (\<lambda>ts. ret (with_tasks row ts)))
      (\<lambda>t. case Inr (page task_id (\<lambda>r. task_workflow_id r = Some i) Id_Asc None (tasks t)) of
         Inl e \<Rightarrow> Inl e | Inr ts \<Rightarrow> Inr (with_tasks row ts))"
      by (rule session_value_bnd [OF session_value_selects(1) [OF assms(1,2)] session_value_basic(1)]) simp_all
    with Some show ?thesis by simp
  qed (simp add: session_value_basic)
  have eq: "get_workflow E i = session_scope E
      (bnd (bnd (select_workflows E (\<lambda>r. wf_id r = i) Unordered None) (\<lambda>rs. lift_sum (scalar_one_or_none rs))) ?k)"
    by (simp add: get_workflow_def bnd_assoc)
  have "fst (get_workflow E i w) = ?u (workflow_row (db E w) i) (db E w) \<and> db E (snd (get_workflow E i w)) = db E w"
    using scope_value [OF assms session_value_bnd [OF session_value_workflow [OF assms(1,2)] k]]
    unfolding eq by (simp only: sum.case)
  then show ?thesis
    by (cases "workflow_row (db E w) i")
      (simp_all add: case_prod_beta with_tasks_def page_def take_limit_def not_found_def)
qed

definition two_tasks :: tables where
  "two_tasks = empty_tables\<lparr>
     workflows := [stamp_workflow 1 0 (blank_workflow ''commit_pipeline'')],
     tasks := map (\<lambda>i. stamp_task i 0 ((blank_task ''save'')\<lparr>task_workflow_id := Some 1\<rparr>)) [4, 2]\<rparr>"

lemma two_tasks_ok [simp]: "tables_ok two_tasks"
  by (simp add: tables_ok_def two_tasks_def empty_tables_def refers_def stamp_defs blank_defs)

theorem lists_are_newest_pages_witness:
  "\<exists>w'. list_tasks quiet_env (Some ''pending'') 1 (mem_world two_tasks) =
     (Inr [task_dict (stamp_task 4 0 ((blank_task ''save'')\<lparr>task_workflow_id := Some 1\<rparr>))], w')"
proof -
  have "newest_rows task_id (\<lambda>t. status_is (Some ''pending'') (task_status t)) 1 (tasks two_tasks) =
      [stamp_task 4 0 ((blank_task ''save'')\<lparr>task_workflow_id := Some 1\<rparr>)]"
    by (simp add: newest_rows_def two_tasks_def stamp_defs blank_defs status_is_def)
  with lists_are_newest_pages [of quiet_env "mem_world two_tasks" "Some ''pending''" 1] show ?thesis
    by (auto simp: case_prod_beta page_answer_def Let_def prod_eq_iff)
qed

theorem get_workflow_exact_witness:
  "fst (get_workflow quiet_env 7 (mem_world two_tasks)) = Inl (HTTPException 404 ''workflow not found'') \<and>
   (\<exists>d. fst (get_workflow quiet_env 1 (mem_world two_tasks)) = Inr d \<and>
     get_or d ''id'' JNull = JInt 1 \<and>
     get_or d ''tasks'' JNull = JList (map (\<lambda>i. JObj (task_dict (stamp_task i 0 ((blank_task ''save'')\<lparr>task_workflow_id := Some 1\<rparr>)))) [2, 4]))"
proof -
  have row: "workflow_row two_tasks 7 = None"
    "workflow_row two_tasks 1 = Some (stamp_workflow 1 0 (blank_workflow ''commit_pipeline''))"
    by (simp_all add: two_tasks_def workflow_row_def stamp_defs blank_defs)
  have ts: "sort_key task_id (filter (\<lambda>t. task_workflow_id t = Some 1) (tasks two_tasks)) =
      map (\<lambda>i. stamp_task i 0 ((blank_task ''save'')\<lparr>task_workflow_id := Some 1\<rparr>)) [2, 4]"
    by (simp add: two_tasks_def stamp_defs blank_defs)
  show ?thesis
    using get_workflow_exact [of quiet_env "mem_world two_tasks" 7] get_workflow_exact [of quiet_env "mem_world two_tasks" 1]
    by (auto simp: case_prod_beta Let_def row ts wf_dict_def get_or_def stamp_workflow_def)
qed

text \<open>Each reading endpoint frames the tables.\<close>

lemma endpoints_keep:
  assumes "pg_laws (pg E)"
  shows "keeps (db E) (health E)" "keeps (db E) (ready E)" "keeps (db E) (memory_search E q limit)"
    "keeps (db E) (queues_failed E limit)" "keeps (db E) (list_tasks E status limit)"
    "keeps (db E) (list_workflows E limit status)" "keeps (db E) (list_approvals E pending limit)"
    "keeps (db E) (memory_recent E limit)" "keeps (db E) (get_workflow E i)"
    "keeps (db E) (latest_daily_summary E)" "keeps (db E) (logs_recent E limit)" "keeps (db E) (stats E)"
proof -
  note scope = keeps_reads [OF assms] and rules = reads_rules(1-5) reads_statements [OF assms]
  show "keeps (db E) (health E)" "keeps (db E) (ready E)" "keeps (db E) (memory_search E q limit)"
    "keeps (db E) (queues_failed E limit)"
    unfolding health_def ready_def memory_search_def queues_failed_def
    by (intro wp_ops keeps_db_ping [OF assms] keeps_redis_reads)+
  show "keeps (db E) (list_tasks E status limit)" "keeps (db E) (list_workflows E limit status)"
    "keeps (db E) (list_approvals E pending limit)" "keeps (db E) (memory_recent E limit)"
    unfolding list_tasks_def list_workflows_def list_approvals_def memory_recent_def
    by (intro scope rules)+
  show "keeps (db E) (get_workflow E i)"
    unfolding get_workflow_def by (intro scope rules reads_case_option)
  show "keeps (db E) (latest_daily_summary E)"
    unfolding latest_daily_summary_def latest_summary_def by (intro scope rules)
  show "keeps (db E) (logs_recent E limit)"
    unfolding logs_recent_def by (intro scope rules) (auto intro: rules split: prod.split)
  show "keeps (db E) (stats E)"
    unfolding stats_def
    by (rule keeps_bnd [OF scope]) (auto intro!: rules wp_ops keeps_redis_reads split: prod.split)
qed

text \<open>No GET endpoint changes the tables, whatever the services do and however it ends.\<close>

theorem reads_keep_tables:
  assumes "pg_laws (pg E)"
  shows "\<forall>w. db E (snd (health E w)) = db E w \<and> db E (snd (ready E w)) = db E w \<and>
    db E (snd (list_tasks E status limit w)) = db E w \<and> db E (snd (list_workflows E limit status w)) = db E w \<and>
    db E (snd (get_workflow E i w)) = db E w \<and> db E (snd (list_approvals E pending limit w)) = db E w \<and>
    db E (snd (latest_daily_summary E w)) = db E w \<and> db E (snd (memory_search E q limit w)) = db E w \<and>
    db E (snd (memory_recent E limit w)) = db E w \<and> db E (snd (logs_recent E limit w)) = db E w \<and>
    db E (snd (queues_failed E limit w)) = db E w \<and> db E (snd (stats E w)) = db E w"
  using endpoints_keep [OF assms] by (simp add: keeps_def)

theorem reads_keep_tables_witness:
  "db quiet_env (snd (stats quiet_env (mem_world two_tasks))) = two_tasks"
  using reads_keep_tables [of quiet_env] by simp

end
