(* ===== verification/End_To_End.thy ===== *)
theory End_To_End
  imports Orchestrator Event_Watcher
begin

text \<open>
  The components together: a commit that the event watcher has seen goes through the queue to a
  worker, which runs the pipeline on it. The queue, the registry, the pipeline and its services are
  those of the theories imported here; nothing is modelled anew.
\<close>

section \<open>The links of the chain\<close>

text \<open>Taking a job keeps the tables and the claims.\<close>

lemma dequeue_beside:
  assumes "redis_laws (redis E)" and "dequeue E qs w = (Inr (Some j), w')"
  shows "db E w' = db E w \<and> redis_claims E w' = redis_claims E w \<and> w_ctx w' = w_ctx w"
  using assms(2)
  by (auto simp: dequeue_def mem_run redis_claims_def split: prod.splits sum.splits option.splits
      dest: redis_blpop_Some [OF assms(1)])

text \<open>A pipeline run that nothing disturbs, from a world without the claim.\<close>

lemma pipeline_succeeds:
  assumes "answering E" and "redis_laws (redis E)" and "pg_laws (pg E)" and "tables_ok (db E w)"
    and "text_payload payload" and "redis_claims E w (claim_key E payload) = None"
  obtains r w' i v where "run_commit_pipeline E payload w = (Inr r, w')" and "ran E payload i w w'"
    and "view_of E i w' = Some v" and "succeeded i [''workflow_started''] r v"
proof -
  have free: "held (redis_claims E w (claim_key E payload)) t = None" for t
    by (simp add: assms(6) held_def)
  have "wp (run_commit_pipeline E payload)
    (\<lambda>r w'. \<exists>i v. ran E payload i w w' \<and> view_of E i w' = Some v \<and> succeeded i [''workflow_started''] r v) (\<lambda>_ _. True) w"
    by (rule wp_run_commit_pipeline [OF assms(2-4)]) (use free in \<open>auto simp: skipped_def\<close>)
  from wp_conj [OF pipeline_returns [OF assms(1-5) free] this] show thesis
    by (auto simp: wp_def split: prod.splits sum.splits intro: that)
qed

lemma commit_job_text:
  assumes "commit_job G repo prev sha j"
  shows "text_payload (job_payload j)" and "claim_key E (job_payload j) = dedup_key E repo sha"
  using assms by (auto simp: commit_job_def text_payload_def commit_payload_def claim_key_def get_or_def)

text \<open>A turn of a worker that takes a job whose handler returns.\<close>

lemma worker_one_turn:
  assumes "dequeue E [] w = (Inr (Some j), w1)" and "H (job_type j) = Some h"
    and "h (job_payload j) (as_job (Some (job_id j)) w1) = (Inr r, w2)"
  shows "worker E H 1 w = (Inr (), as_job (current_job_id (w_ctx w1)) w2)"
proof -
  obtain out w3 where o: "run_job E H j w1 = (out, w3)" by force
  have "handled H j w1 = (Inr r, w2)" using assms(2,3) by (simp add: handled_def)
  from run_job_cases [OF this o] have "run_job E H j w1 = (Inr (), as_job (current_job_id (w_ctx w1)) w2)"
    using o by simp
  then show ?thesis using assms(1) by (simp add: mem_run numeral_eq_Suc)
qed

section \<open>Properties\<close>

text \<open>C3: from a commit to its approval: with services that answer and nothing waiting in the
  queues, a commit that was not claimed before and that the watcher emits is taken by the next turn
  of a worker, and when that turn ends there is a new completed workflow with the four completed
  tasks of the chain, its events and one approval, and the commit's claim names it.\<close>

theorem watched_commit_is_processed:
  assumes "answering E" and "redis_laws (redis E)" and "pg_laws (pg E)" and "tables_ok (db E w)" and "git_expected G"
    and "holds_jobs E w (\<lambda>_. [])" and "redis_claims E w (dedup_key E repo sha) = None"
    and "serves (redis E)"
  shows "\<exists>w1 w2 i v y. emit_commit E G repo prev sha w = (Inr (), w1) \<and> db E w1 = db E w \<and>
    worker E (initial_registry E demo) 1 w1 = (Inr (), w2) \<and>
    i \<notin> wf_id ` set (workflows (db E w)) \<and> view_of E i w2 = Some v \<and>
    rv_status v = ''completed'' \<and> map snd (rv_steps v) = finished 4 \<and>
    rv_events v = [''workflow_started'', ''summary_done'', ''social_done'', ''approval_sent'', ''workflow_completed''] \<and>
    length (rv_approvals v) = 1 \<and> redis_claims E w2 (dedup_key E repo sha) = Some (str_of_int i, y)"
proof -
  obtain j w1 where emit: "emit_commit E G repo prev sha w = (Inr (), w1)" and j: "commit_job G repo prev sha j"
    and q: "holds_jobs E w1 ((\<lambda>_. [])(NORMAL := [j]))" and w1: "db E w1 = db E w" "redis_claims E w1 = redis_claims E w"
    using emit_commit_run [OF assms(2,5,6)] assms(8) unfolding serves_def redis_claims_def by (metis append_Nil)
  obtain x w2 where d: "dequeue E [] w1 = (Inr x, w2)"
    by (rule dequeue_answers [OF assms(2) _ q]) (use assms(8) in \<open>auto simp: serves_def\<close>)
  from dequeue_holds [OF assms(2) q d] have x: "x = Some j" by (simp add: served_def list_deq_def)
  note w2 = dequeue_beside [OF assms(2) d [unfolded x]]
  let ?w2 = "as_job (Some (job_id j)) w2"
  have key: "claim_key E (job_payload j) = dedup_key E repo sha" by (rule commit_job_text [OF j])
  have "tables_ok (db E ?w2)" "redis_claims E ?w2 (claim_key E (job_payload j)) = None"
    using w1 w2 assms(4,7) by (simp_all add: key) (simp add: redis_claims_def)
  then obtain r w3 i v where run: "run_commit_pipeline E (job_payload j) ?w2 = (Inr r, w3)"
    and ran: "ran E (job_payload j) i ?w2 w3" and v: "view_of E i w3 = Some v" "succeeded i [''workflow_started''] r v"
    by (rule pipeline_succeeds [OF assms(1-3) _ commit_job_text(1) [OF j]])
  have "initial_registry E demo (job_type j) = Some (run_commit_pipeline E)"
    using j by (simp add: initial_registry_def register_def commit_job_def)
  then have turn: "worker E (initial_registry E demo) 1 w1 = (Inr (), as_job (current_job_id (w_ctx w2)) w3)"
    by (rule worker_one_turn [OF d [unfolded x]]) (rule run)
  from ran obtain y where y: "redis_claims E w3 (dedup_key E repo sha) = Some (str_of_int i, y)"
    and i: "i \<notin> wf_id ` set (workflows (db E w))"
    using w1 w2 by (auto simp: ran_def attached_def key)
  show ?thesis
    using emit w1(1) turn i v y
    by (intro exI [of _ w1] exI [of _ "as_job (current_job_id (w_ctx w2)) w3"] exI [of _ i] exI [of _ v] exI [of _ y])
      (auto simp: succeeded_def redis_claims_def)
qed

theorem watched_commit_is_processed_witness:
  "\<exists>w1 w2 i v.
    emit_commit tame_env \<lparr>git_author = \<lambda>_ _ _. Inr ''A'', git_subject = \<lambda>_ _ _. Inl (CalledProcessError ''rc''), git_show = \<lambda>_ _ _. Inr ''D''\<rparr>
      ''/r'' None ''ab'' (mem_world empty_tables) = (Inr (), w1) \<and>
    worker tame_env (initial_registry tame_env (\<lambda>_. ret [])) 1 w1 = (Inr (), w2) \<and>
    view_of tame_env i w2 = Some v \<and> rv_status v = ''completed''"
proof -
  let ?G = "\<lparr>git_author = \<lambda>_ _ _. Inr ''A'', git_subject = \<lambda>_ _ _. Inl (CalledProcessError ''rc''), git_show = \<lambda>_ _ _. Inr ''D''\<rparr>"
  have g: "git_expected ?G" by (simp add: git_expected_def)
  have h: "holds_jobs tame_env (mem_world empty_tables) (\<lambda>_. [])" by (simp add: holds_jobs_def)
  have c: "redis_claims tame_env (mem_world empty_tables) (dedup_key tame_env ''/r'' ''ab'') = None"
    by (simp add: redis_claims_def)
  have s: "serves (redis tame_env)" by simp
  from watched_commit_is_processed [OF tame_answering _ _ _ g h c s, of None "\<lambda>_. ret []"] show ?thesis
    by simp blast
qed

end
