(* ===== verification/History.thy ===== *)
theory History
  imports Orchestrator Demo_Forge Daily_Summary
begin

text \<open>
  The history of the tables. The handlers and the daily summary only append: no row that was there
  before is changed or removed. The entry points of the running orchestrator, each run to its end,
  are the rules of a step relation, whose reachable states keep the invariant of the tables,
  the well-formedness of every row and every finished workflow.
\<close>

section \<open>Rows\<close>

text \<open>
  What every row of a table satisfies. A task and a workflow have one of the statuses of the code, and
  a completion time from the moment they stop running; a completed task has a result, and one that
  failed or was interrupted an error. The risk level of an approval is one that \<^verbatim>\<open>_normalize_risk\<close> and
  the demo workflow give, and it is decided, for or against, together with its time.
\<close>

definition run_statuses :: "string set" where
  "run_statuses = {''running'', ''completed'', ''failed'', ''interrupted''}"

definition task_row_ok :: "task \<Rightarrow> bool" where
  "task_row_ok k \<longleftrightarrow>
     task_status k \<in> run_statuses \<and> (task_status k = ''running'') = (task_completed_at k = None) \<and>
     (task_status k = ''completed'' \<longrightarrow> task_result k \<noteq> None) \<and>
     (task_status k \<in> {''failed'', ''interrupted''} \<longrightarrow> task_error k \<noteq> None) \<and>
     task_started_at k \<noteq> None \<and> task_workflow_id k \<noteq> None"

definition workflow_row_ok :: "workflow \<Rightarrow> bool" where
  "workflow_row_ok r \<longleftrightarrow>
     wf_status r \<in> run_statuses \<and> (wf_status r = ''running'') = (wf_completed_at r = None) \<and>
     wf_logs r \<noteq> [] \<and> workflow_name r \<in> {''commit_pipeline'', ''demo_request''}"

definition known_risk :: "string \<Rightarrow> bool" where
  "known_risk r \<longleftrightarrow> r \<in> {''low'', ''medium'', ''high''}"

definition approval_row_ok :: "approval \<Rightarrow> bool" where
  "approval_row_ok a \<longleftrightarrow>
     known_risk (apr_risk_level a) \<and> apr_decision a \<in> {None, Some ''approved'', Some ''rejected''} \<and>
     (apr_decision a = None) = (apr_decided_at a = None)"

definition rows_ok :: "tables \<Rightarrow> bool" where
  "rows_ok t \<longleftrightarrow>
     (\<forall>k\<in>set (tasks t). task_row_ok k) \<and> (\<forall>r\<in>set (workflows t). workflow_row_ok r) \<and>
     (\<forall>a\<in>set (approvals t). approval_row_ok a)"

lemmas row_ok_defs = task_row_ok_def workflow_row_ok_def approval_row_ok_def run_statuses_def

text \<open>The rows that the code inserts are good, and its updates keep good rows good.\<close>

lemma stamped_row: "task_row_ok k \<Longrightarrow> task_row_ok (stamp_task i t k)" "workflow_row_ok r \<Longrightarrow> workflow_row_ok (stamp_workflow i t r)"
  by (auto simp: row_ok_defs stamp_defs)

lemma started_rows:
  "task_row_ok ((blank_task ty)\<lparr>task_status := ''running'', task_payload := p, task_workflow_id := Some i, task_started_at := Some t\<rparr>)"
  "nm \<in> {''commit_pipeline'', ''demo_request''} \<Longrightarrow>
     workflow_row_ok ((blank_workflow nm)\<lparr>wf_task_chain := tc, wf_status := ''running'', wf_logs := [entry]\<rparr>)"
  by (auto simp: row_ok_defs blank_defs)

lemma advanced_rows:
  "task_row_ok k \<Longrightarrow> task_row_ok (k\<lparr>task_status := ''completed'', task_result := Some v, task_completed_at := Some t\<rparr>)"
  "task_row_ok k \<Longrightarrow> task_row_ok (k\<lparr>task_status := ''failed'', task_error := Some e, task_completed_at := Some t\<rparr>)"
  "workflow_row_ok r \<Longrightarrow> workflow_row_ok (r\<lparr>wf_logs := es @ [entry]\<rparr>)"
  "workflow_row_ok r \<Longrightarrow> workflow_row_ok (r\<lparr>wf_status := ''failed'', wf_logs := es @ [entry], wf_completed_at := Some t\<rparr>)"
  "workflow_row_ok r \<Longrightarrow> workflow_row_ok (r\<lparr>wf_status := ''completed'', wf_completed_at := Some t, wf_logs := es @ [entry]\<rparr>)"
  by (auto simp: row_ok_defs)

lemmas good_rows = started_rows insertI1 insertI2 singletonI advanced_rows

section \<open>Appending\<close>

text \<open>Rows were added at the end, and the added ones are good.\<close>

definition adds :: "('x \<Rightarrow> bool) \<Rightarrow> 'x list \<Rightarrow> 'x list \<Rightarrow> bool" where
  "adds R xs ys \<longleftrightarrow> (\<exists>zs. ys = xs @ zs \<and> (\<forall>z\<in>set zs. R z))"

lemma adds_refl [simp]: "adds R xs xs"
  by (simp add: adds_def)

lemma adds_trans: "adds R xs ys \<Longrightarrow> adds R ys zs \<Longrightarrow> adds R xs zs"
  by (auto simp: adds_def)

lemma adds_snoc: "adds R xs ys \<Longrightarrow> R y \<Longrightarrow> adds R xs (ys @ [y])"
  by (auto simp: adds_def)

lemma adds_prefix: "adds R xs ys \<Longrightarrow> prefix xs ys"
  by (auto simp: adds_def)

lemma adds_all: "adds R xs ys \<Longrightarrow> \<forall>x\<in>set xs. R x \<Longrightarrow> \<forall>y\<in>set ys. R y"
  by (auto simp: adds_def)

lemma adds_map:
  assumes "adds R xs ys" and "\<And>x. x \<in> set xs \<Longrightarrow> \<not> P x" and "\<And>r. R r \<Longrightarrow> R (f r)"
  shows "adds R xs (map (\<lambda>r. if P r then f r else r) ys)"
proof -
  from assms(1) obtain zs where zs: "ys = xs @ zs" "\<forall>z\<in>set zs. R z" by (auto simp: adds_def)
  have "map (\<lambda>r. if P r then f r else r) xs = xs" using assms(2) by (induction xs) auto
  with zs assms(3) show ?thesis by (auto simp: adds_def)
qed

definition extends :: "tables \<Rightarrow> tables \<Rightarrow> bool" where
  "extends t t' \<longleftrightarrow>
     adds workflow_row_ok (workflows t) (workflows t') \<and> adds task_row_ok (tasks t) (tasks t') \<and>
     adds (\<lambda>_. True) (memories t) (memories t') \<and> adds approval_row_ok (approvals t) (approvals t')"

lemma extends_refl [simp]: "extends t t"
  by (simp add: extends_def)

lemma extends_trans: "extends t u \<Longrightarrow> extends u v \<Longrightarrow> extends t v"
  by (auto simp: extends_def intro: adds_trans)

lemma extends_rows: "extends t t' \<Longrightarrow> rows_ok t \<Longrightarrow> rows_ok t'"
  unfolding extends_def rows_ok_def by (blast dest: adds_all)

lemma extends_prefix:
  "extends t t' \<Longrightarrow> prefix (workflows t) (workflows t') \<and> prefix (tasks t) (tasks t') \<and>
     prefix (memories t) (memories t') \<and> prefix (approvals t) (approvals t')"
  by (auto simp: extends_def dest: adds_prefix)

text \<open>The ids that a table had at the start, which a run must not touch.\<close>

definition new_workflow :: "tables \<Rightarrow> int \<Rightarrow> bool" where "new_workflow t i \<longleftrightarrow> i \<notin> wf_id ` set (workflows t)"
definition new_task :: "tables \<Rightarrow> int \<Rightarrow> bool" where "new_task t i \<longleftrightarrow> i \<notin> task_id ` set (tasks t)"
definition new_memory :: "tables \<Rightarrow> int \<Rightarrow> bool" where "new_memory t i \<longleftrightarrow> i \<notin> mem_id ` set (memories t)"

lemmas new_defs = new_workflow_def new_task_def new_memory_def

lemma extends_new:
  "extends t t' \<Longrightarrow> set (workflows t) \<subseteq> set (workflows t')" "extends t t' \<Longrightarrow> set (tasks t) \<subseteq> set (tasks t')"
  "extends t t' \<Longrightarrow> set (memories t) \<subseteq> set (memories t')"
  by (auto dest!: extends_prefix dest: set_mono_prefix)

section \<open>Actions that only append\<close>

text \<open>
  \<open>grows\<close> is about a body inside a session, \<open>appends\<close> about an action outside of one; both start
  from contents that extend \<open>t0\<close>, end in such contents on either exit, and a returned value
  satisfies \<open>F\<close>.
\<close>

definition grows :: "('r, 'd, 'v) env \<Rightarrow> tables \<Rightarrow> ('r, 'd, 'v, 'a) act \<Rightarrow> ('a \<Rightarrow> bool) \<Rightarrow> bool" where
  "grows E t0 m F \<longleftrightarrow> session_ends E (extends t0) m (\<lambda>t a t'. extends t0 t' \<and> F a) (\<lambda>_ _. True)"

definition appends :: "('r, 'd, 'v) env \<Rightarrow> tables \<Rightarrow> ('r, 'd, 'v, 'a) act \<Rightarrow> ('a \<Rightarrow> bool) \<Rightarrow> bool" where
  "appends E t0 m F \<longleftrightarrow>
     (\<forall>w. extends t0 (db E w) \<longrightarrow>
       wp m (\<lambda>a w'. extends t0 (db E w') \<and> F a) (\<lambda>_ w'. extends t0 (db E w')) w)"

lemma grows_of_body:
  assumes "session_body E m R" and "\<And>t a t'. extends t0 t \<Longrightarrow> R t a t' \<Longrightarrow> extends t0 t' \<and> F a"
  shows "grows E t0 m F"
  unfolding grows_def session_ends_def
  by (intro allI impI, rule wp_mono [OF assms(1) [unfolded session_body_def, THEN spec]]) (auto dest: assms(2))

text \<open>A session on contents that extend \<open>t0\<close>: what the body leaves is committed or dropped.\<close>

lemma appends_scope:
  fixes E :: "('r, 'd, 'v) env"
  assumes laws: "pg_laws (pg E)" and body: "grows E t0 m F"
  shows "appends E t0 (session_scope E m) F"
  unfolding appends_def
proof (intro allI impI)
  fix w :: "('r, 'd, 'v) world" assume w: "extends t0 (db E w)"
  let ?D = "pg E" and ?b = "w\<lparr>w_pg := pg_begin (pg E) (w_pg w)\<rparr>"
  note L = laws [unfolded pg_laws_def]
  have b: "db E ?b = db E w" "in_session E ?b = db E w"
    using L by (simp_all add: db_def in_session_def)
  have commit_ok: "vw_committed ?D d' = vw_pending ?D d" if "pg_commit ?D d = (Inr (), d')" for d d'
    using L that by blast
  have commit_err: "vw_committed ?D d' = vw_committed ?D d" if "pg_commit ?D d = (Inl e, d')" for d d' e
    using L that by blast
  have rollback: "vw_committed ?D d' = vw_committed ?D d" if "pg_rollback ?D d = (x, d')" for d d' x
    using L that by (metis snd_conv)
  have "wp m (\<lambda>a w'. db E w' = db E w \<and> extends t0 (in_session E w') \<and> F a) (\<lambda>e w'. db E w' = db E w) ?b"
    by (rule wp_mono [OF body [unfolded grows_def session_ends_def, THEN spec, THEN mp, of ?b]]) (use b w in auto)
  with w show "wp (session_scope E m) (\<lambda>a w'. extends t0 (db E w') \<and> F a) (\<lambda>_ w'. extends t0 (db E w')) w"
    unfolding session_scope_def wp_thn wp_modifies wp_catching wp_bnd
    by (auto elim!: wp_mono split: prod.splits sum.splits simp: db_def in_session_def
        dest!: commit_ok commit_err rollback)
qed

lemma grows_bnd:
  fixes E :: "('r, 'd, 'v) env"
  assumes "grows E t0 m F" and "\<And>a. F a \<Longrightarrow> grows E t0 (k a) G"
  shows "grows E t0 (bnd m k) G"
  unfolding grows_def session_ends_def wp_bnd
proof (intro allI impI)
  fix w :: "('r, 'd, 'v) world" assume w: "extends t0 (in_session E w)"
  have k: "wp (k a) (\<lambda>b w''. only_db w w'' \<and> db E w'' = db E w \<and> extends t0 (in_session E w'') \<and> G b)
      (\<lambda>_ w''. only_db w w'' \<and> db E w'' = db E w) w'"
    if "only_db w w'" "db E w' = db E w" "extends t0 (in_session E w')" "F a" for a w'
    by (rule wp_mono [OF assms(2) [OF that(4), unfolded grows_def session_ends_def, THEN spec, THEN mp, OF that(3)]])
      (use that in \<open>auto intro: only_db_trans\<close>)
  show "wp m (\<lambda>a. wp (k a) (\<lambda>b w''. only_db w w'' \<and> db E w'' = db E w \<and> extends t0 (in_session E w'') \<and> G b)
      (\<lambda>_ w''. only_db w w'' \<and> db E w'' = db E w \<and> True)) (\<lambda>_ w''. only_db w w'' \<and> db E w'' = db E w \<and> True) w"
    by (rule wp_mono [OF assms(1) [unfolded grows_def session_ends_def, THEN spec, THEN mp, OF w]]) (auto intro: k simp del: wp_bnd)
qed

lemma appends_bnd:
  "appends E t0 m F \<Longrightarrow> (\<And>a. F a \<Longrightarrow> appends E t0 (k a) G) \<Longrightarrow> appends E t0 (bnd m k) G"
  unfolding appends_def wp_bnd by (blast intro: wp_mono)

lemma appends_thn: "appends E t0 m F \<Longrightarrow> appends E t0 k G \<Longrightarrow> appends E t0 (thn m k) G"
  unfolding thn_def by (rule appends_bnd)

lemma appends_catching:
  "appends E t0 m F \<Longrightarrow> (\<And>e. appends E t0 (h e) F) \<Longrightarrow> appends E t0 (catching c m h) F"
  unfolding appends_def wp_catching by (auto intro: wp_mono)

lemma appends_finally:
  "appends E t0 m F \<Longrightarrow> appends E t0 c (\<lambda>_. True) \<Longrightarrow> appends E t0 (finally_do m c) F"
  unfolding appends_def wp_finally by (auto elim!: wp_mono)

lemma appends_keeps: "keeps (db E) m \<Longrightarrow> appends E t0 m (\<lambda>_. True)"
  unfolding appends_def by (auto intro: wp_mono [OF keeps_wp])

lemma appends_ret: "F a \<Longrightarrow> appends E t0 (ret a) F"
  by (simp add: appends_def)

lemma appends_raise: "appends E t0 (raise e) F"
  by (simp add: appends_def)

lemma appends_if: "(b \<Longrightarrow> appends E t0 m F) \<Longrightarrow> (\<not> b \<Longrightarrow> appends E t0 m' F) \<Longrightarrow> appends E t0 (if b then m else m') F"
  by simp

lemma appends_case_prod: "(\<And>a b. p = (a, b) \<Longrightarrow> appends E t0 (g a b) F) \<Longrightarrow> appends E t0 (case p of (a, b) \<Rightarrow> g a b) F"
  by (cases p) simp

lemma appendsD:
  assumes "appends E (db E w) m F" and "m w = (r, w')"
  shows "extends (db E w) (db E w')"
proof -
  from assms(1) have "wp m (\<lambda>a w'. extends (db E w) (db E w') \<and> F a) (\<lambda>_ w'. extends (db E w) (db E w')) w"
    by (simp add: appends_def)
  with assms(2) show ?thesis by (auto simp: wp_def split: sum.splits)
qed

section \<open>The statements and the helpers\<close>

lemma grows_reads:
  assumes "pg_laws (pg E)"
  shows "grows E t0 (fetch_task E i) (\<lambda>_. True)" and "grows E t0 (fetch_workflow E i) (\<lambda>_. True)"
    and "grows E t0 (fetch_approval E i) (\<lambda>_. True)" and "grows E t0 (select_memories E P ord n) (\<lambda>_. True)"
    and "grows E t0 (lift_sum r) (\<lambda>_. True)" and "grows E t0 (utc_now E) (\<lambda>_. True)"
    and "grows E t0 (latest_summary E) (\<lambda>_. True)" and "grows E t0 (ret a) (\<lambda>_. True)"
    and "grows E t0 (log_entry E ev d) (\<lambda>_. True)"
proof -
  show now: "grows E t0 (utc_now E) (\<lambda>_. True)" by (rule grows_of_body [OF session_body_now]) auto
  show ret: "grows E t0 (ret a) (\<lambda>_. True)" for a :: 'z by (rule grows_of_body [OF session_body_ret]) auto
  show "grows E t0 (log_entry E ev d) (\<lambda>_. True)" unfolding log_entry_def by (rule grows_bnd [OF now ret])
  show "grows E t0 (fetch_task E i) (\<lambda>_. True)" by (rule grows_of_body [OF session_body_fetch_task [OF assms]]) auto
  show "grows E t0 (fetch_workflow E i) (\<lambda>_. True)" by (rule grows_of_body [OF session_body_fetch_workflow [OF assms]]) auto
  show "grows E t0 (fetch_approval E i) (\<lambda>_. True)" by (rule grows_of_body [OF session_body_fetch_approval [OF assms]]) auto
  show "grows E t0 (select_memories E P ord n) (\<lambda>_. True)" by (rule grows_of_body [OF session_body_statements(7) [OF assms]]) auto
  show "grows E t0 (lift_sum r) (\<lambda>_. True)" by (rule grows_of_body [OF session_body_lift]) auto
  show "grows E t0 (latest_summary E) (\<lambda>_. True)" by (rule grows_of_body [OF body_latest_summary [OF assms]]) auto
qed

lemma grows_adds:
  assumes "pg_laws (pg E)"
  shows "task_row_ok r1 \<Longrightarrow> grows E t0 (add_task E r1) (new_task t0)"
    and "workflow_row_ok r2 \<Longrightarrow> grows E t0 (add_workflow E r2) (new_workflow t0)"
    and "grows E t0 (add_memory E r3) (new_memory t0)"
proof -
  show "grows E t0 (add_task E r1) (new_task t0)" if "task_row_ok r1"
    by (rule grows_of_body [OF session_body_statements(1) [OF assms]])
      (use stamped_row(1) [OF that] extends_new(2) in \<open>fastforce simp: new_task_def extends_def intro: adds_snoc\<close>)
  show "grows E t0 (add_workflow E r2) (new_workflow t0)" if "workflow_row_ok r2"
    by (rule grows_of_body [OF session_body_statements(2) [OF assms]])
      (use stamped_row(2) [OF that] extends_new(1) in \<open>fastforce simp: new_workflow_def extends_def intro: adds_snoc\<close>)
  show "grows E t0 (add_memory E r3) (new_memory t0)"
    by (rule grows_of_body [OF session_body_statements(3) [OF assms]])
      (use extends_new(3) in \<open>fastforce simp: new_memory_def extends_def intro: adds_snoc\<close>)
qed

lemma grows_updates:
  assumes "pg_laws (pg E)"
  shows "new_task t0 i \<Longrightarrow> (\<And>r. task_row_ok r \<Longrightarrow> task_row_ok (f1 r)) \<Longrightarrow>
      grows E t0 (update_tasks E (\<lambda>r. task_id r = i) f1) (\<lambda>_. True)"
    and "new_workflow t0 i \<Longrightarrow> (\<And>r. workflow_row_ok r \<Longrightarrow> workflow_row_ok (f2 r)) \<Longrightarrow>
      grows E t0 (update_workflows E (\<lambda>r. wf_id r = i) f2) (\<lambda>_. True)"
    and "new_memory t0 i \<Longrightarrow> grows E t0 (update_memories E (\<lambda>r. mem_id r = i) f3) (\<lambda>_. True)"
proof -
  show "grows E t0 (update_tasks E (\<lambda>r. task_id r = i) f1) (\<lambda>_. True)"
    if "new_task t0 i" "\<And>r. task_row_ok r \<Longrightarrow> task_row_ok (f1 r)"
    by (rule grows_of_body [OF session_body_statements(9) [OF assms]])
      (use that in \<open>auto simp: extends_def new_task_def intro!: adds_map\<close>)
  show "grows E t0 (update_workflows E (\<lambda>r. wf_id r = i) f2) (\<lambda>_. True)"
    if "new_workflow t0 i" "\<And>r. workflow_row_ok r \<Longrightarrow> workflow_row_ok (f2 r)"
    by (rule grows_of_body [OF session_body_statements(10) [OF assms]])
      (use that in \<open>auto simp: extends_def new_workflow_def intro!: adds_map\<close>)
  show "grows E t0 (update_memories E (\<lambda>r. mem_id r = i) f3) (\<lambda>_. True)" if "new_memory t0 i"
    by (rule grows_of_body [OF session_body_statements(11) [OF assms]])
      (use that in \<open>auto simp: extends_def new_memory_def intro!: adds_map\<close>)
qed

text \<open>The helpers of the handlers, each on rows of its own run.\<close>

lemma appends_rows:
  assumes "pg_laws (pg E)"
  shows "appends E t0 (create_task E ty i p) (new_task t0)"
    and "new_task t0 k \<Longrightarrow> appends E t0 (complete_task E k r) (\<lambda>_. True)"
    and "new_task t0 k \<Longrightarrow> appends E t0 (fail_task E k m) (\<lambda>_. True)"
    and "new_workflow t0 i \<Longrightarrow> appends E t0 (append_log E i entry) (\<lambda>_. True)"
    and "new_workflow t0 i \<Longrightarrow> appends E t0 (fail_workflow E i m) (\<lambda>_. True)"
    and "new_workflow t0 i \<Longrightarrow> appends E t0 (finish_workflow E i) (\<lambda>_. True)"
    and "new_workflow t0 i \<Longrightarrow> appends E t0 (fail_demo E i m) (\<lambda>_. True)"
    and "new_workflow t0 i \<Longrightarrow> appends E t0 (finish_demo E b i) (\<lambda>_. True)"
    and "appends E t0 (create_workflow E repo sha) (new_workflow t0)"
    and "appends E t0 (create_demo E D sc trigger skip) (new_workflow t0)"
    and "appends E t0 (keep_manifest E sc mf) (new_memory t0)"
  unfolding create_task_def complete_task_def fail_task_def append_log_def fail_workflow_def finish_workflow_def
    fail_demo_def finish_demo_def create_workflow_def create_demo_def keep_manifest_def
  by (rule appends_scope [OF assms] grows_bnd grows_reads [OF assms] grows_adds [OF assms] grows_updates [OF assms]
      good_rows | assumption)+

lemma extends_with_approval: "known_risk (ar_risk req) \<Longrightarrow> extends t0 t \<Longrightarrow> extends t0 (with_approval req i ts via t)"
  by (auto simp: extends_def with_approval_def approval_row_ok_def stamp_approval_def approval_of_def blank_defs intro!: adds_snoc)

lemma appends_send:
  assumes "pg_laws (pg E)" and "known_risk r"
  shows "appends E t0 (send E \<lparr>ar_summary = sm, ar_outputs = os, ar_affected = af, ar_risk = r, ar_workflow_id = wi, ar_task_id = ti\<rparr>) (\<lambda>_. True)"
    (is "appends E t0 (send E ?req) _")
proof -
  have "known_risk (ar_risk ?req)" using assms(2) by simp
  note added = extends_with_approval [OF this]
  show ?thesis
    unfolding appends_def by (intro allI impI, rule wp_send [OF assms(1)]) (auto intro: added)
qed

text \<open>Whatever the model replied, the risk of a summary is known.\<close>

lemma known_risk_normalized: "known_risk (normalize_risk v)"
  by (simp add: known_risk_def normalize_risk_def Let_def)

lemma summary_risk: "summary_of_reply v = Inr s \<Longrightarrow> known_risk (es_risk_level s)"
  by (auto simp: summary_of_reply_def known_risk_normalized split: json.splits sum.splits)

lemma appends_lift: "(\<And>s. r = Inr s \<Longrightarrow> F s) \<Longrightarrow> appends E t0 (lift_sum r) F"
  by (cases r) (simp_all add: appends_def)

lemma appends_summarize:
  "appends E t0 (summarize E template subject author sha diff) (\<lambda>s. known_risk (es_risk_level s))"
  unfolding summarize_def
  by (rule appends_bnd [OF appends_keeps] appends_lift wp_ops | erule summary_risk)+

lemma appends_summarize_body:
  assumes "pg_laws (pg E)" and "new_workflow t0 i" and "new_task t0 k"
  shows "appends E t0 (summarize_body E i subject author sha diff k) (\<lambda>s. known_risk (es_risk_level s))"
  unfolding summarize_body_def
  by (rule appends_bnd [OF appends_summarize] appends_bnd [OF appends_rows(2) [OF assms(1,3)]]
      appends_bnd [OF appends_rows(4) [OF assms(1,2)]] appends_bnd [OF appends_keeps] appends_ret wp_ops | assumption)+

lemma appends_memory:
  assumes "pg_laws (pg E)"
  shows "appends E t0 (save_memory E repo sha subject author eng) (\<lambda>m. new_memory t0 (fst m))"
    and "new_memory t0 (fst m) \<Longrightarrow> appends E t0 (index_memory E repo sha eng m) (\<lambda>_. True)"
proof -
  have r: "grows E t0 (ret (mid, tx)) (\<lambda>m. new_memory t0 (fst m))" if "new_memory t0 mid" for mid :: int and tx :: string
    by (rule grows_of_body [OF session_body_ret]) (use that in auto)
  show "appends E t0 (save_memory E repo sha subject author eng) (\<lambda>m. new_memory t0 (fst m))"
    unfolding save_memory_def
    by (rule appends_scope [OF assms] grows_bnd grows_reads(1-7) [OF assms] grows_adds [OF assms] r | assumption)+
  show "appends E t0 (index_memory E repo sha eng m) (\<lambda>_. True)" if "new_memory t0 (fst m)"
    unfolding index_memory_def vec_upsert_def
    by (rule appends_catching appends_scope [OF assms] grows_bnd grows_reads [OF assms] grows_updates [OF assms]
        that appends_ret TrueI appends_bnd [OF appends_keeps] wp_ops)+
qed

section \<open>The handlers\<close>

lemma appends_pipeline:
  assumes "pg_laws (pg E)"
  shows "appends E t0 (run_commit_pipeline E payload) (\<lambda>_. True)"
proof -
  note rows = appends_summarize_body [OF assms] appends_rows [OF assms] appends_send [OF assms] appends_memory [OF assms]
  have steps: "appends E t0 (run_pipeline_steps E i repo sha subject author diff) (\<lambda>_. True)" if "new_workflow t0 i" for i repo sha subject author diff
    unfolding run_pipeline_steps_def guarded_def guard_step_def draft_body_def save_body_def approval_body_def
    by (rule rows that appends_bnd appends_catching appends_thn appends_raise appends_ret TrueI appends_keeps wp_ops | assumption)+
  have redis: "keeps (db E) (acquire E r s)" "keeps (db E) (attach_workflow_id E r s j)" for r s j
    unfolding acquire_def attach_workflow_id_def by (intro wp_ops)+
  have ctx: "keeps (db E) (bind_workflow x)" "keeps (db E) (reset_workflow y)" for x y
    by (auto simp: keeps_def bind_workflow_def reset_workflow_def mem_run asks_def)
  show ?thesis
    unfolding run_commit_pipeline_def Let_def
    by (rule rows steps appends_bnd appends_if appends_finally appends_keeps redis ctx wp_ops | assumption)+
qed

lemma appends_demo:
  assumes "pg_laws (pg E)"
  shows "appends E t0 (run_demo_forge_request E D payload) (\<lambda>_. True)"
proof -
  have low: "known_risk ''low''" by (simp add: known_risk_def)
  note rows = appends_rows [OF assms] appends_send [OF assms low]
  have proc: "keeps (db E) (run_process D cmd limit)" "keeps (db E) (build_manifest E D sc)" "keeps (db E) (format_outputs E D mf)"
    for cmd limit sc mf
    unfolding run_process_def build_manifest_def format_outputs_def by (intro wp_ops)+
  have steps: "appends E t0 (run_demo_steps E D i sc trigger skip) (\<lambda>_. True)" if "new_workflow t0 i" for i sc trigger skip
    unfolding run_demo_steps_def check_tools_def capture_def render_mp4_def make_manifest_def approve_demo_def give_up_def
    by (rule rows that appends_case_prod appends_bnd appends_if appends_thn appends_raise appends_ret TrueI appends_keeps proc wp_ops |
        assumption)+
  have ctx: "keeps (db E) (bind_workflow x)" "keeps (db E) (reset_workflow y)" for x y
    by (auto simp: keeps_def bind_workflow_def reset_workflow_def mem_run asks_def)
  show ?thesis
    unfolding run_demo_forge_request_def Let_def
    by (rule rows steps appends_if appends_raise appends_bnd appends_finally appends_keeps ctx wp_ops | assumption)+
qed

lemma appends_daily:
  assumes "pg_laws (pg E)"
  shows "appends E t0 (run_daily_summary E DE) (\<lambda>_. True)"
proof -
  have gather: "keeps (db E) (gather_counts E a b)" for a b
    by (rule keepsI, rule wp_mono [OF body_gather_counts [OF assms]]) auto
  have depths: "keeps (db E) (all_depths E)" unfolding all_depths_def depth_def by (intro wp_ops)
  have stats: "keeps (db E) (gather_stats E DE a b)" for a b
    unfolding gather_stats_def by (intro wp_ops gather depths)
  have written: "keeps (db E) (append_summary E now i s)" for now i s
    unfolding append_summary_def Let_def by (intro wp_ops)
  have wr: "appends E t0 (write_summary E DE now) (\<lambda>_. True)" for now
    unfolding write_summary_def
    by (rule appends_bnd appends_scope [OF assms] grows_adds [OF assms] appends_keeps stats written wp_ops)+
  have found: "appends E t0 (case x of
       Some r \<Rightarrow> if ran_on (iso_date now) r then ret (already_ran (mem_id r) (iso_date now)) else write_summary E DE now
     | None \<Rightarrow> write_summary E DE now) (\<lambda>_. True)" for x now
    by (cases x) (auto intro: wr appends_ret)
  show ?thesis
    unfolding run_daily_summary_def
    by (rule appends_bnd [OF appends_keeps] appends_bnd [OF appends_scope [OF assms]] grows_reads [OF assms] found wp_ops)+
qed

section \<open>The running system\<close>

text \<open>
  What the orchestrator and its API do to the tables, one entry point at a time and each to its
  end: a handler, the daily summary, a decision, the reaper of a start, and everything that leaves
  the tables alone (the queues, the guard, reads, the clock).
\<close>

inductive sys_step ::
  "('r, 'd, 'v) env \<Rightarrow> demo_env \<Rightarrow> daily_env \<Rightarrow> ('r, 'd, 'v) world \<Rightarrow> ('r, 'd, 'v) world \<Rightarrow> bool"
  for E D DE where
  Commit: "run_commit_pipeline E payload w = (out, w') \<Longrightarrow> sys_step E D DE w w'"
| Demo: "run_demo_forge_request E D payload w = (out, w') \<Longrightarrow> sys_step E D DE w w'"
| Daily: "run_daily_summary E DE w = (out, w') \<Longrightarrow> sys_step E D DE w w'"
| Decide: "decide E i decision w = (ans, w') \<Longrightarrow> sys_step E D DE w w'"
| Reap: "reap_orphan_workflows E age w = (n, w') \<Longrightarrow> sys_step E D DE w w'"
| Beside: "db E w' = db E w \<Longrightarrow> sys_step E D DE w w'"

inductive_cases sys_stepE: "sys_step E D DE w w'"

abbreviation sys_reach ::
  "('r, 'd, 'v) env \<Rightarrow> demo_env \<Rightarrow> daily_env \<Rightarrow> ('r, 'd, 'v) world \<Rightarrow> ('r, 'd, 'v) world \<Rightarrow> bool" where
  "sys_reach E D DE \<equiv> (sys_step E D DE)\<^sup>*\<^sup>*"

text \<open>
  What no step undoes: memories stay as they were written, workflows and tasks that are not running
  any more stay as they are, no workflow disappears, and of an approval only the decision and its
  time may change.
\<close>

definition undecided :: "approval \<Rightarrow> approval" where
  "undecided a = a\<lparr>apr_decision := None, apr_decided_at := None\<rparr>"

definition keeps_records :: "tables \<Rightarrow> tables \<Rightarrow> bool" where
  "keeps_records t t' \<longleftrightarrow>
     prefix (memories t) (memories t') \<and>
     prefix (map wf_id (workflows t)) (map wf_id (workflows t')) \<and>
     (\<forall>r\<in>set (workflows t). wf_status r \<noteq> ''running'' \<longrightarrow> r \<in> set (workflows t')) \<and>
     (\<forall>k\<in>set (tasks t). task_status k \<noteq> ''running'' \<longrightarrow> k \<in> set (tasks t')) \<and>
     prefix (map undecided (approvals t)) (map undecided (approvals t'))"

lemma keeps_records_refl [simp]: "keeps_records t t"
  by (simp add: keeps_records_def)

lemma keeps_records_trans: "keeps_records t u \<Longrightarrow> keeps_records u v \<Longrightarrow> keeps_records t v"
  by (auto simp: keeps_records_def intro: prefix_order.trans)

lemma extends_keeps_records: "extends t t' \<Longrightarrow> keeps_records t t'"
  by (auto simp: keeps_records_def map_mono_prefix dest: set_mono_prefix dest!: extends_prefix)

lemma decided_keeps_records: "keeps_records t (decided i d ts t)"
proof -
  have "map undecided (approvals (decided i d ts t)) = map undecided (approvals t)"
    by (auto simp: decided_def undecided_def)
  then show ?thesis by (simp add: keeps_records_def) (simp add: decided_def)
qed

lemma decided_ok: "tables_ok t \<Longrightarrow> tables_ok (decided i d ts t)"
proof -
  have "map apr_id (approvals (decided i d ts t)) = map apr_id (approvals t)"
    "map apr_workflow_id (approvals (decided i d ts t)) = map apr_workflow_id (approvals t)"
    by (auto simp: decided_def)
  moreover have "tasks (decided i d ts t) = tasks t" "workflows (decided i d ts t) = workflows t"
    "memories (decided i d ts t) = memories t" by (simp_all add: decided_def)
  ultimately show "tables_ok t \<Longrightarrow> tables_ok (decided i d ts t)" by (simp add: tables_ok_def)
qed

lemma reaps_keeps_records:
  assumes "tables_ok t" and "reaps (orphan_ids cutoff t) m t t'"
  shows "keeps_records t t'"
proof -
  note facts = reaps_facts [OF assms(2)]
  have wf: "list_all2 (\<lambda>r r'. if wf_id r \<in> orphan_ids cutoff t then \<exists>ts. r' = reaped_workflow m ts r else r' = r)
      (workflows t) (workflows t')"
    and tk: "list_all2 (\<lambda>k k'. if task_status k = ''running'' \<and> task_workflow_id k \<in> Some ` orphan_ids cutoff t
      then \<exists>ts. k' = reaped_task ts k else k' = k) (tasks t) (tasks t')"
    and same: "memories t' = memories t" "approvals t' = approvals t"
    using assms(2) by (simp_all add: reaps_def)
  have run: "wf_status r = ''running''" if "r \<in> set (workflows t)" "wf_id r \<in> orphan_ids cutoff t" for r
  proof -
    from that(2) obtain r' where "r' \<in> set (workflows t)" "wf_id r' = wf_id r" "is_orphan cutoff r'"
      by (auto simp: orphan_ids_def)
    moreover have "r' = r" using assms(1) that(1) calculation(1,2) by (auto simp: tables_ok_def distinct_map dest: inj_onD)
    ultimately show ?thesis by (simp add: is_orphan_def)
  qed
  have "r \<in> set (workflows t')" if r: "r \<in> set (workflows t)" "wf_status r \<noteq> ''running''" for r
  proof -
    from r(1) obtain n where n: "n < length (workflows t)" "workflows t ! n = r" by (auto simp: in_set_conv_nth)
    with list_all2_nthD [OF wf n(1)] run [OF r(1)] r(2) have "workflows t' ! n = r" by (auto split: if_splits)
    moreover have "n < length (workflows t')" using n(1) wf by (simp add: list_all2_lengthD [symmetric])
    ultimately show ?thesis by (metis nth_mem)
  qed
  moreover have "k \<in> set (tasks t')" if k: "k \<in> set (tasks t)" "task_status k \<noteq> ''running''" for k
  proof -
    from k(1) obtain n where n: "n < length (tasks t)" "tasks t ! n = k" by (auto simp: in_set_conv_nth)
    with list_all2_nthD [OF tk n(1)] k(2) have "tasks t' ! n = k" by (auto split: if_splits)
    moreover have "n < length (tasks t')" using n(1) tk by (simp add: list_all2_lengthD [symmetric])
    ultimately show ?thesis by (metis nth_mem)
  qed
  ultimately show ?thesis using facts(1) same by (simp add: keeps_records_def)
qed

text \<open>Every step keeps the invariant of the tables and the records.\<close>

lemma pipeline_ok:
  assumes "redis_laws (redis E)" and "pg_laws (pg E)" and "tables_ok (db E w)"
    and "run_commit_pipeline E payload w = (out, w')"
  shows "tables_ok (db E w')"
proof -
  have ok: "tables_ok (db E w')" if "view_of E i w' = Some v" for i v w'
    using that by (auto simp: view_of_def run_of_Some)
  have "wp (run_commit_pipeline E payload) (\<lambda>_ w'. tables_ok (db E w')) (\<lambda>_ w'. tables_ok (db E w')) w"
    by (rule wp_run_commit_pipeline [OF assms(1-3)])
      (auto simp: assms(3) reached_def skipped_def dest!: only_redis_keeps(1) [where E = E] intro: ok)
  with assms(4) show ?thesis by (simp add: wp_def split: sum.splits)
qed

lemma demo_ok:
  assumes "pg_laws (pg E)" and "tables_ok (db E w)" and "run_demo_forge_request E D payload w = (out, w')"
  shows "tables_ok (db E w')"
proof -
  have ok: "tables_ok (db E w')" if "view_of E i w' = Some v" for i v w'
    using that by (auto simp: view_of_def run_of_Some)
  have "wp (run_demo_forge_request E D payload) (\<lambda>_ w'. tables_ok (db E w')) (\<lambda>_ w'. tables_ok (db E w')) w"
    by (rule wp_run_demo [OF assms(1,2), where D = D]) (auto simp: assms(2) intro: ok)
  with assms(3) show ?thesis by (simp add: wp_def split: sum.splits)
qed

lemma written_ok: "tables_ok t \<Longrightarrow> written t now s i t' \<Longrightarrow> tables_ok t'"
  by (auto simp: written_def tables_ok_def)

lemma daily_ok:
  fixes E :: "('r, 'd, 'v) env"
  assumes "redis_laws (redis E)" and "pg_laws (pg E)" and "tables_ok (db E w)" and "run_daily_summary E DE w = (out, w')"
  shows "tables_ok (db E w')"
proof -
  have "wp (run_daily_summary E DE) (\<lambda>_ w'. tables_ok (db E w')) (\<lambda>_ w'. tables_ok (db E w')) w"
    by (rule wp_mono [OF wp_run_daily_summary [OF assms(2,1) refl]])
      (use assms(3) in \<open>auto intro: written_ok split: option.splits\<close>)
  with assms(4) show ?thesis by (simp add: wp_def split: sum.splits)
qed

lemma decide_records:
  assumes "pg_laws (pg E)" and "tables_ok (db E w)" and "decide E i d w = (ans, w')"
  shows "tables_ok (db E w') \<and> keeps_records (db E w) (db E w')"
proof -
  have "wp (decide E i d) (\<lambda>_ w'. db E w' = db E w \<or> (\<exists>ts. db E w' = decided i d ts (db E w)))
      (\<lambda>_ w'. db E w' = db E w) w"
    unfolding decide_def by (auto intro!: wp_session_scope [OF assms(1) body_decide [OF assms(1)]] split: if_splits)
  with assms(2,3) decided_ok decided_keeps_records [of "db E w"] show ?thesis
    by (auto simp: wp_def split: sum.splits)
qed

lemma reap_records:
  assumes "pg_laws (pg E)" and "tables_ok (db E w)" and "reap_orphan_workflows E a w = (n, w')"
  shows "tables_ok (db E w') \<and> keeps_records (db E w) (db E w')"
proof -
  have "wp (reap_orphan_workflows E a) (\<lambda>_ w'. tables_ok (db E w') \<and> keeps_records (db E w) (db E w'))
      (\<lambda>_ w'. tables_ok (db E w') \<and> keeps_records (db E w) (db E w')) w"
    by (rule wp_reap_orphans [OF assms(1,2)]) (auto simp: assms(2) intro: reaps_ok reaps_keeps_records)
  with assms(3) show ?thesis by (simp add: wp_def split: sum.splits)
qed

text \<open>A decision and the reaper leave good rows too.\<close>

lemma decided_rows: "d \<in> {''approved'', ''rejected''} \<Longrightarrow> rows_ok t \<Longrightarrow> rows_ok (decided i d ts t)"
  by (auto simp: decided_def rows_ok_def approval_row_ok_def)

lemma decide_rows:
  assumes "pg_laws (pg E)" and "rows_ok (db E w)" and "decide E i d w = (ans, w')"
  shows "rows_ok (db E w')"
proof -
  have "wp (decide E i d) (\<lambda>_ w'. rows_ok (db E w')) (\<lambda>_ w'. rows_ok (db E w')) w"
    unfolding decide_def
    by (auto intro!: wp_session_scope [OF assms(1) body_decide [OF assms(1)]] assms(2) decided_rows split: if_splits)
  with assms(3) show ?thesis by (simp add: wp_def split: sum.splits)
qed

lemma reaped_rows:
  "workflow_row_ok r \<Longrightarrow> workflow_row_ok (reaped_workflow m ts r)" "task_row_ok k \<Longrightarrow> task_row_ok (reaped_task ts k)"
  by (auto simp: row_ok_defs reaped_workflow_def reaped_task_def)

lemma list_all2_set:
  assumes "list_all2 Q xs ys" and "\<forall>x\<in>set xs. R x" and "\<And>x y. R x \<Longrightarrow> Q x y \<Longrightarrow> R y"
  shows "\<forall>y\<in>set ys. R y"
  using assms(1,2) by (induction rule: list_all2_induct) (auto intro: assms(3))

lemma reaps_rows:
  assumes "reaps ids m t t'" and "rows_ok t"
  shows "rows_ok t'"
proof -
  from assms(1) have w: "list_all2 (\<lambda>r r'. if wf_id r \<in> ids then \<exists>ts. r' = reaped_workflow m ts r else r' = r) (workflows t) (workflows t')"
    and k: "list_all2 (\<lambda>k k'. if task_status k = ''running'' \<and> task_workflow_id k \<in> Some ` ids then \<exists>ts. k' = reaped_task ts k else k' = k)
      (tasks t) (tasks t')" by (simp_all add: reaps_def)
  from assms(2) have rows: "\<forall>r\<in>set (workflows t). workflow_row_ok r" "\<forall>k\<in>set (tasks t). task_row_ok k"
    by (simp_all add: rows_ok_def)
  have "\<forall>r\<in>set (workflows t'). workflow_row_ok r"
    by (rule list_all2_set [OF w rows(1)]) (auto split: if_splits intro: reaped_rows)
  moreover have "\<forall>k\<in>set (tasks t'). task_row_ok k"
    by (rule list_all2_set [OF k rows(2)]) (auto split: if_splits intro: reaped_rows)
  ultimately show ?thesis using assms by (simp add: reaps_def rows_ok_def)
qed

lemma reap_rows:
  assumes "pg_laws (pg E)" and "tables_ok (db E w)" and "rows_ok (db E w)" and "reap_orphan_workflows E a w = (n, w')"
  shows "rows_ok (db E w')"
proof -
  have "wp (reap_orphan_workflows E a) (\<lambda>_ w'. rows_ok (db E w')) (\<lambda>_ w'. rows_ok (db E w')) w"
    by (rule wp_reap_orphans [OF assms(1,2)]) (auto simp: assms(3) intro: reaps_rows)
  with assms(4) show ?thesis by (simp add: wp_def split: sum.splits)
qed

lemma sys_step_rows:
  assumes "pg_laws (pg E)" and "tables_ok (db E w)" and "rows_ok (db E w)" and "sys_step E D DE w w'"
  shows "rows_ok (db E w')"
  using assms(4)
  by (elim sys_stepE)
    (use assms(3) decide_rows [OF assms(1,3)] reap_rows [OF assms(1-3)] appendsD [OF appends_pipeline [OF assms(1)]]
      appendsD [OF appends_demo [OF assms(1)]] appendsD [OF appends_daily [OF assms(1)]] extends_rows in \<open>metis | simp\<close>)+

lemma sys_step_records:
  assumes "redis_laws (redis E)" and "pg_laws (pg E)" and "tables_ok (db E w)" and "sys_step E D DE w w'"
  shows "tables_ok (db E w') \<and> keeps_records (db E w) (db E w')"
proof -
  have "tables_ok (db E w') \<and> keeps_records (db E w) (db E w')"
    if "extends (db E w) (db E w')" "tables_ok (db E w')" for w'
    using that extends_keeps_records by blast
  with assms(4) show ?thesis
    by (elim sys_stepE)
      (use assms(3) pipeline_ok [OF assms(1-3)] demo_ok [OF assms(2,3)] daily_ok [OF assms(1-3)]
        appendsD [OF appends_pipeline [OF assms(2)]] appendsD [OF appends_demo [OF assms(2)]] appendsD [OF appends_daily [OF assms(2)]]
        decide_records [OF assms(2,3)] reap_records [OF assms(2,3)] in \<open>blast | simp\<close>)+
qed

lemma sys_reach_records:
  assumes "redis_laws (redis E)" and "pg_laws (pg E)" and "sys_reach E D DE w w'" and "tables_ok (db E w)"
  shows "tables_ok (db E w') \<and> keeps_records (db E w) (db E w')"
  using assms(3,4)
proof (induction rule: rtranclp_induct)
  case (step u v)
  then show ?case using sys_step_records [OF assms(1,2) _ step.hyps(2)] by (blast intro: keeps_records_trans)
qed simp

lemma sys_reach_rows:
  assumes "redis_laws (redis E)" and "pg_laws (pg E)" and "sys_reach E D DE w w'"
    and "tables_ok (db E w)" and "rows_ok (db E w)"
  shows "rows_ok (db E w')"
  using assms(3-5)
proof (induction rule: rtranclp_induct)
  case (step u v)
  with sys_step_rows [OF assms(2) _ _ step.hyps(2)] sys_reach_records [OF assms(1,2) step.hyps(1)]
  show ?case by blast
qed simp

text \<open>A worker's turns are steps of the system.\<close>

lemma sys_beside: "db E w' = db E w \<Longrightarrow> sys_reach E D DE w w'"
  by (rule r_into_rtranclp, rule Beside)

lemma run_job_steps:
  assumes "run_job E (initial_registry E (run_demo_forge_request E D)) j w = (out, w')"
  shows "sys_reach E D DE w w'"
proof -
  let ?H = "initial_registry E (run_demo_forge_request E D)" and ?w = "as_job (Some (job_id j)) w"
  obtain res w1 where h: "handled ?H j w = (res, w1)" by force
  have "sys_reach E D DE w w1"
  proof (cases "?H (job_type j)")
    case None
    with h show ?thesis by (simp add: handled_def)
  next
    case (Some f)
    have "sys_step E D DE w ?w" by (rule Beside) simp
    moreover have "sys_step E D DE ?w w1"
      using h Some by (auto simp: handled_def initial_registry_def register_def split: if_splits intro: Commit Demo)
    ultimately show ?thesis by (meson converse_rtranclp_into_rtranclp r_into_rtranclp)
  qed
  moreover have "db E w' = db E w1"
    using run_job_cases [OF h assms] keepsD [OF keeps_fail_job, of E j _ w1] by (auto split: sum.splits if_splits)
  ultimately show ?thesis using sys_beside by (metis rtranclp_trans)
qed

lemma worker_steps:
  "worker E (initial_registry E (run_demo_forge_request E D)) n w = (out, w') \<Longrightarrow> sys_reach E D DE w w'"
proof (induction n arbitrary: w)
  case (Suc n)
  let ?H = "initial_registry E (run_demo_forge_request E D)"
    and ?take = "try_except (bnd (dequeue E []) (\<lambda>j. ret (Some j))) (\<lambda>e. thn (record_call (Slept 1)) (ret None))"
  obtain got w1 where g: "?take w = (got, w1)" by force
  have take: "keeps (db E) ?take"
    unfolding dequeue_def by (rule wp_ops | (simp split: option.split add: wp_ops))+
  from keepsD [OF this g] have w1: "sys_reach E D DE w w1" by (rule sys_beside)
  have next_turn: "sys_reach E D DE w1 w'" if "worker E ?H n w1 = (out, w')" using Suc.IH that .
  show ?case
  proof (cases got)
    case (Inl e)
    with Suc.prems g w1 show ?thesis by (simp add: bnd_def)
  next
    case (Inr x)
    show ?thesis
    proof (cases "\<exists>j. x = Some (Some j)")
      case True
      then obtain j where x: "x = Some (Some j)" by blast
      obtain o2 w2 where r: "run_job E ?H j w1 = (o2, w2)" by force
      have "sys_reach E D DE w1 w2" by (rule run_job_steps [OF r])
      moreover have "sys_reach E D DE w2 w'"
        using Suc.prems g Inr x r Suc.IH [of w2] by (cases o2) (auto simp: bnd_def thn_def)
      ultimately show ?thesis using w1 by (meson rtranclp_trans)
    next
      case False
      then have "worker E ?H n w1 = (out, w')"
        using Suc.prems g Inr by (auto simp: bnd_def split: option.splits)
      with w1 next_turn show ?thesis by (meson rtranclp_trans)
    qed
  qed
qed (simp add: ret_def)

section \<open>Properties\<close>



text \<open>The handlers only append: a run of the commit pipeline, of a demo request or of the daily
  summary, however it ends, leaves every row that was in a table before it in its place and
  unchanged.\<close>

theorem handlers_only_append:
  assumes "pg_laws (pg E)"
    and "run_commit_pipeline E payload w = (out, w') \<or> run_demo_forge_request E D payload w = (out, w') \<or>
      run_daily_summary E DE w = (out, w')"
  shows "prefix (workflows (db E w)) (workflows (db E w')) \<and> prefix (tasks (db E w)) (tasks (db E w')) \<and>
    prefix (memories (db E w)) (memories (db E w')) \<and> prefix (approvals (db E w)) (approvals (db E w'))"
proof -
  from assms(2) have "extends (db E w) (db E w')"
    using appendsD [OF appends_pipeline [OF assms(1)]] appendsD [OF appends_demo [OF assms(1)]]
      appendsD [OF appends_daily [OF assms(1)]] by blast
  then show ?thesis by (rule extends_prefix)
qed

theorem handlers_only_append_witness:
  "\<exists>out w'. run_commit_pipeline tame_env small_payload (mem_world orphan_tables) = (out, w') \<and>
     prefix (workflows orphan_tables) (workflows (db tame_env w'))"
proof -
  obtain out w' where r: "run_commit_pipeline tame_env small_payload (mem_world orphan_tables) = (out, w')" by force
  from handlers_only_append [of tame_env small_payload "mem_world orphan_tables" out w' small_forge no_log_file] r
  show ?thesis by auto
qed

text \<open>A worker keeps the books as well: after any number of turns of a worker with the two
  registered handlers, whatever was in the queues and whatever the services did, the invariant holds
  and the records are kept.\<close>

theorem workers_keep_records:
  assumes "redis_laws (redis E)" and "pg_laws (pg E)" and "tables_ok (db E w)"
    and "worker E (initial_registry E (run_demo_forge_request E D)) n w = (out, w')"
  shows "tables_ok (db E w') \<and> keeps_records (db E w) (db E w')"
  by (rule sys_reach_records [OF assms(1,2) worker_steps [OF assms(4)] assms(3)])

theorem workers_keep_records_witness:
  "\<exists>out w'. worker quiet_env (initial_registry quiet_env (run_demo_forge_request quiet_env small_forge)) 3 queued_world = (out, w') \<and>
     tables_ok (db quiet_env w')"
proof -
  obtain out w' where r: "worker quiet_env (initial_registry quiet_env (run_demo_forge_request quiet_env small_forge)) 3 queued_world = (out, w')"
    by force
  have "tables_ok (db quiet_env queued_world)" by (simp add: queued_world_def)
  from workers_keep_records [OF _ _ this r] r show ?thesis by auto
qed

text \<open>C6: the rows stay meaningful: from tables whose rows are (an empty database, say), after any
  sequence of handler runs, summaries, decisions and reapings, whatever the language model and the
  services did in any of them and however each of them ended, every task and workflow has one of the
  four statuses and a completion time exactly when it is not running, every completed task has its
  result, every failed or interrupted one its error, and every approval has a risk level of low,
  medium and high and its decision together with the decision's time.\<close>

theorem rows_stay_meaningful:
  assumes "redis_laws (redis E)" and "pg_laws (pg E)" and "tables_ok (db E w)" and "rows_ok (db E w)"
    and "sys_reach E D DE w w'"
  shows "rows_ok (db E w')"
  by (rule sys_reach_rows [OF assms(1,2,5,3,4)])

theorem rows_stay_meaningful_witness:
  "\<exists>w1 w2. (\<exists>out. run_commit_pipeline tame_env small_payload (mem_world empty_tables) = (out, w1)) \<and>
     (\<exists>n. reap_orphan_workflows tame_env 3600 w1 = (n, w2)) \<and> rows_ok (db tame_env w2)"
proof -
  obtain out w1 where w1: "run_commit_pipeline tame_env small_payload (mem_world empty_tables) = (out, w1)" by force
  obtain n w2 where w2: "reap_orphan_workflows tame_env 3600 w1 = (n, w2)" by force
  have "sys_step tame_env small_forge no_log_file (mem_world empty_tables) w1" by (rule Commit [OF w1])
  moreover have "sys_step tame_env small_forge no_log_file w1 w2" by (rule Reap [OF w2])
  ultimately have "sys_reach tame_env small_forge no_log_file (mem_world empty_tables) w2"
    by (meson converse_rtranclp_into_rtranclp r_into_rtranclp)
  moreover have "rows_ok (db tame_env (mem_world empty_tables))" by (simp add: rows_ok_def empty_tables_def)
  ultimately have "rows_ok (db tame_env w2)"
    using rows_stay_meaningful [of tame_env "mem_world empty_tables"] by (simp add: empty_tables_ok)
  with w1 w2 show ?thesis by blast
qed

end
