(* ===== verification/Workers.thy ===== *)
theory Workers
  imports Orchestrator
begin

text \<open>
  The workers of \<^verbatim>\<open>core/orchestrator/main.py\<close> side by side. The event loop runs the
  workers, the watchers and the API on one thread and switches between them at their awaits; here
  a turn of a worker is two steps, the dequeue and the run of the job it got, and the steps of all
  workers, of whoever enqueues jobs and of everybody else interleave freely. \<open>pool_step\<close> is the
  relation of these steps; a worker alone is the loop \<open>worker\<close> of \<^verbatim>\<open>Orchestrator\<close>.
\<close>

section \<open>Stages and steps\<close>

text \<open>Where a worker is: at the top of its loop, inside \<^verbatim>\<open>_run_job\<close>, or out of the loop.\<close>

datatype stage = Polling | Running job | Ended

text \<open>
  The stop flag, the stages of the workers, and three ghosts: the jobs that were enqueued (with
  their queue), taken and settled since the start, in order.
\<close>

record ('r, 'd, 'v) pool =
  pl_world :: "('r, 'd, 'v) world"
  pl_stop :: bool
  pl_stages :: "stage list"
  pl_sent :: "(queue_name \<times> job) list"
  pl_taken :: "job list"
  pl_settled :: "job list"

datatype actor = Worker nat | Outside

text \<open>
  One iteration of the loop in \<^verbatim>\<open>_worker\<close>, split at the dequeue: \<open>Leave\<close> is the test of the
  stop flag, \<open>Empty\<close> and \<open>Refused\<close> are the two \<^verbatim>\<open>continue\<close>s, \<open>Take\<close> goes on to
  \<^verbatim>\<open>_run_job\<close>, which \<open>Finish\<close>es or lets an exception out (\<open>Crash\<close>).
\<close>

inductive pool_step ::
  "('r, 'd, 'v) env \<Rightarrow> ('r, 'd, 'v) registry \<Rightarrow> actor \<Rightarrow> ('r, 'd, 'v) pool \<Rightarrow> ('r, 'd, 'v) pool \<Rightarrow> bool"
  for E H where
  Leave: "i < length (pl_stages s) \<Longrightarrow> pl_stages s ! i = Polling \<Longrightarrow> pl_stop s \<Longrightarrow>
    pool_step E H (Worker i) s (s\<lparr>pl_stages := (pl_stages s)[i := Ended]\<rparr>)"
| Empty: "i < length (pl_stages s) \<Longrightarrow> pl_stages s ! i = Polling \<Longrightarrow> \<not> pl_stop s \<Longrightarrow>
    dequeue E [] (pl_world s) = (Inr None, w') \<Longrightarrow>
    pool_step E H (Worker i) s (s\<lparr>pl_world := w'\<rparr>)"
| Refused: "i < length (pl_stages s) \<Longrightarrow> pl_stages s ! i = Polling \<Longrightarrow> \<not> pl_stop s \<Longrightarrow>
    dequeue E [] (pl_world s) = (Inl e, w1) \<Longrightarrow> is_Exception e \<Longrightarrow> record_call (Slept 1) w1 = (Inr (), w') \<Longrightarrow>
    pool_step E H (Worker i) s (s\<lparr>pl_world := w'\<rparr>)"
| Take: "i < length (pl_stages s) \<Longrightarrow> pl_stages s ! i = Polling \<Longrightarrow> \<not> pl_stop s \<Longrightarrow>
    dequeue E [] (pl_world s) = (Inr (Some j), w') \<Longrightarrow>
    pool_step E H (Worker i) s
      (s\<lparr>pl_world := w', pl_stages := (pl_stages s)[i := Running j], pl_taken := pl_taken s @ [j]\<rparr>)"
| Finish: "i < length (pl_stages s) \<Longrightarrow> pl_stages s ! i = Running j \<Longrightarrow>
    run_job E H j (pl_world s) = (Inr (), w') \<Longrightarrow>
    pool_step E H (Worker i) s
      (s\<lparr>pl_world := w', pl_stages := (pl_stages s)[i := Polling], pl_settled := pl_settled s @ [j]\<rparr>)"
| Crash: "i < length (pl_stages s) \<Longrightarrow> pl_stages s ! i = Running j \<Longrightarrow>
    run_job E H j (pl_world s) = (Inl e, w') \<Longrightarrow>
    pool_step E H (Worker i) s (s\<lparr>pl_world := w', pl_stages := (pl_stages s)[i := Ended]\<rparr>)"
| Stop: "pool_step E H Outside s (s\<lparr>pl_stop := True\<rparr>)"
| Send: "q \<in> {HIGH, NORMAL} \<Longrightarrow> job_ok j \<Longrightarrow> enqueue E j q (pl_world s) = (Inr (), w') \<Longrightarrow>
    pool_step E H Outside s (s\<lparr>pl_world := w', pl_sent := pl_sent s @ [(q, j)]\<rparr>)"
| Beside: "vw_lists (redis E) (w_redis w') = vw_lists (redis E) (w_redis (pl_world s)) \<Longrightarrow>
    pool_step E H Outside s (s\<lparr>pl_world := w'\<rparr>)"

declare pool_step.intros [intro]

inductive_cases pool_stepE: "pool_step E H a s s'"

lemmas pool_step_cases = pool_stepE [case_names Leave Empty Refused Take Finish Crash Stop Send Beside, consumes 1]

text \<open>A run, with the actors of its steps.\<close>

inductive pool_run ::
  "('r, 'd, 'v) env \<Rightarrow> ('r, 'd, 'v) registry \<Rightarrow> actor list \<Rightarrow> ('r, 'd, 'v) pool \<Rightarrow> ('r, 'd, 'v) pool \<Rightarrow> bool"
  for E H where
  Rest: "pool_run E H [] s s"
| Step: "pool_step E H a s s1 \<Longrightarrow> pool_run E H as s1 s' \<Longrightarrow> pool_run E H (a # as) s s'"

declare pool_run.intros [intro]

lemma pool_run_append: "pool_run E H as s s1 \<Longrightarrow> pool_run E H bs s1 s' \<Longrightarrow> pool_run E H (as @ bs) s s'"
  by (induction rule: pool_run.induct) auto

text \<open>\<^verbatim>\<open>for i in range(self.num_workers)\<close>: all workers at the top of their loops.\<close>

definition new_pool :: "nat \<Rightarrow> ('r, 'd, 'v) world \<Rightarrow> ('r, 'd, 'v) pool" where
  "new_pool n w = \<lparr>pl_world = w, pl_stop = False, pl_stages = replicate n Polling, pl_sent = [], pl_taken = [], pl_settled = []\<rparr>"

lemma new_pool_simps [simp]:
  "pl_world (new_pool n w) = w" "pl_stop (new_pool n w) = False" "pl_stages (new_pool n w) = replicate n Polling"
  "pl_sent (new_pool n w) = []" "pl_taken (new_pool n w) = []" "pl_settled (new_pool n w) = []"
  by (simp_all add: new_pool_def)

section \<open>A single worker is its loop\<close>

text \<open>What the loop does in \<open>n\<close> iterations is a run of the relation in which only that worker moves.\<close>

lemma loop_is_run:
  fixes s :: "('r, 'd, 'v) pool"
  assumes "worker E H n (pl_world s) = (Inr (), w')" and "i < length (pl_stages s)"
    and "pl_stages s ! i = Polling" and "\<not> pl_stop s"
  shows "\<exists>as s'. pool_run E H as s s' \<and> set as \<subseteq> {Worker i} \<and> pl_world s' = w' \<and> pl_stages s' = pl_stages s \<and> pl_stop s' = pl_stop s"
  using assms
proof (induction n arbitrary: s)
  case 0
  then show ?case by (intro exI [of _ "[]"] exI [of _ s]) (auto simp: ret_def)
next
  case (Suc n)
  note i = Suc.prems(2-4)
  obtain r w1 where d: "dequeue E [] (pl_world s) = (r, w1)" by force
  have go: ?case
    if st: "pool_run E H as s s1" "set as \<subseteq> {Worker i}" "pl_stages s1 = pl_stages s" "pl_stop s1 = pl_stop s"
      and rest: "worker E H n (pl_world s1) = (Inr (), w')" for as s1
  proof -
    from Suc.IH [OF rest] st(3,4) i obtain bs s' where "pool_run E H bs s1 s'" "set bs \<subseteq> {Worker i}" "pl_world s' = w'"
      "pl_stages s' = pl_stages s" "pl_stop s' = pl_stop s" by auto
    with st(1,2) show ?thesis by (intro exI [of _ "as @ bs"] exI [of _ s']) (auto intro: pool_run_append)
  qed
  show ?case
  proof (cases r)
    case (Inl e)
    show ?thesis
    proof (cases "is_Exception e")
      case True
      obtain w2 where r: "record_call (Slept 1) w1 = (Inr (), w2)" by (simp add: record_call_def modifies_def)
      with Inl d True i have "pool_step E H (Worker i) s (s\<lparr>pl_world := w2\<rparr>)" by (intro Refused) auto
      moreover from Suc.prems(1) d Inl True r have "worker E H n w2 = (Inr (), w')" by (simp add: mem_run)
      ultimately show ?thesis by (intro go [of "[Worker i]" "s\<lparr>pl_world := w2\<rparr>"]) auto
    next
      case False
      with Suc.prems(1) d Inl show ?thesis by (simp add: mem_run)
    qed
  next
    case (Inr x)
    show ?thesis
    proof (cases x)
      case None
      with Inr d i have "pool_step E H (Worker i) s (s\<lparr>pl_world := w1\<rparr>)" by (intro Empty) auto
      moreover from Suc.prems(1) d Inr None have "worker E H n w1 = (Inr (), w')" by (simp add: mem_run)
      ultimately show ?thesis by (intro go [of "[Worker i]" "s\<lparr>pl_world := w1\<rparr>"]) auto
    next
      case (Some j)
      obtain out w2 where o: "run_job E H j w1 = (out, w2)" by force
      with Suc.prems(1) d Inr Some have out: "out = Inr ()" "worker E H n w2 = (Inr (), w')"
        by (auto simp: mem_run split: sum.splits)
      let ?s1 = "s\<lparr>pl_world := w1, pl_stages := (pl_stages s)[i := Running j], pl_taken := pl_taken s @ [j]\<rparr>"
      let ?s2 = "?s1\<lparr>pl_world := w2, pl_stages := (pl_stages ?s1)[i := Polling], pl_settled := pl_settled ?s1 @ [j]\<rparr>"
      from d Inr Some i have "pool_step E H (Worker i) s ?s1" by (intro Take) auto
      moreover from o out i have "pool_step E H (Worker i) ?s1 ?s2" by (intro Finish) auto
      moreover from i have "(pl_stages s)[i := Polling] = pl_stages s" by (metis list_update_id)
      ultimately show ?thesis using out by (intro go [of "[Worker i, Worker i]" ?s2]) auto
    qed
  qed
qed

section \<open>Where every job is\<close>

fun in_hand :: "stage \<Rightarrow> job list" where
  "in_hand (Running j) = [j]"
| "in_hand Polling = []"
| "in_hand Ended = []"

definition running_jobs :: "('r, 'd, 'v) pool \<Rightarrow> job list" where
  "running_jobs s = concat (map in_hand (pl_stages s))"

definition sent_to :: "queue_name \<Rightarrow> ('r, 'd, 'v) pool \<Rightarrow> job list" where
  "sent_to q s = map snd (filter (\<lambda>x. fst x = q) (pl_sent s))"

lemma held_update:
  "i < length xs \<Longrightarrow> mset (concat (map in_hand (xs[i := x]))) + mset (in_hand (xs ! i)) = mset (concat (map in_hand xs)) + mset (in_hand x)"
proof (induction xs arbitrary: i)
  case (Cons y ys)
  then show ?case by (cases i) (auto simp: ac_simps)
qed simp

lemma set_held_update: "set (concat (map in_hand (xs[i := x]))) \<subseteq> set (concat (map in_hand xs)) \<union> set (in_hand x)"
  by (force dest: set_update_subset_insert [THEN subsetD])

lemma running_at: "i < length (pl_stages s) \<Longrightarrow> pl_stages s ! i = Running j \<Longrightarrow> j \<in> set (running_jobs s)"
  by (force simp: running_jobs_def in_set_conv_nth)

lemma held_replicate [simp]: "concat (map in_hand (replicate n Polling)) = []"
  by (induction n) simp_all

lemma shuffles_snoc:
  "xs \<in> shuffles ys zs \<Longrightarrow> xs @ [x] \<in> shuffles (ys @ [x]) zs"
  "xs \<in> shuffles ys zs \<Longrightarrow> xs @ [x] \<in> shuffles ys (zs @ [x])"
proof -
  have one: "ys @ [x] \<in> shuffles [x] ys" for ys by (induction ys) auto
  show *: "xs \<in> shuffles ys zs \<Longrightarrow> xs @ [x] \<in> shuffles (ys @ [x]) zs" for xs ys zs
    using one by (induction ys zs arbitrary: xs rule: shuffles.induct) auto
  show "xs \<in> shuffles ys zs \<Longrightarrow> xs @ [x] \<in> shuffles ys (zs @ [x])"
    using * [of xs zs ys] by (simp add: shuffles_commutes)
qed

text \<open>
  The account of the jobs: each queue has given its jobs from the front (\<open>hs\<close> and \<open>ns\<close>), what
  was taken is an interleaving of the two, everything taken is running or settled, and the dead
  letters are the settled jobs that failed, in order.
\<close>

definition dead_of :: "(job \<Rightarrow> string option) \<Rightarrow> job list \<Rightarrow> job list \<Rightarrow> bool" where
  "dead_of verdict js ds \<longleftrightarrow>
     list_all2 (\<lambda>j d. \<exists>t. d = mark_failed t (the (verdict j)) j) (filter (\<lambda>j. verdict j \<noteq> None) js) ds"

definition accounted ::
  "('r, 'd, 'v) env \<Rightarrow> (job \<Rightarrow> string option) \<Rightarrow> (queue_name \<Rightarrow> job list) \<Rightarrow> ('r, 'd, 'v) pool \<Rightarrow> bool" where
  "accounted E verdict c0 s \<longleftrightarrow>
     (\<exists>c hs ns ds. holds_jobs E (pl_world s) c \<and>
        c0 HIGH @ sent_to HIGH s = hs @ c HIGH \<and> c0 NORMAL @ sent_to NORMAL s = ns @ c NORMAL \<and>
        pl_taken s \<in> shuffles hs ns \<and>
        mset (pl_taken s) = mset (running_jobs s) + mset (pl_settled s) \<and>
        c FAILED = c0 FAILED @ ds \<and> dead_of verdict (pl_settled s) ds)"

lemma dead_of_snoc:
  "dead_of verdict js ds \<Longrightarrow> verdict j = None \<Longrightarrow> dead_of verdict (js @ [j]) ds"
  "dead_of verdict js ds \<Longrightarrow> verdict j = Some e \<Longrightarrow> dead_of verdict (js @ [j]) (ds @ [mark_failed t e j])"
  by (auto simp: dead_of_def intro!: list_all2_appendI)

lemma run_job_settles:
  assumes laws: "redis_laws (redis E)" and serves: "serves (redis E)" and judged: "judged E H verdict"
    and j: "job_ok j" and holds: "holds_jobs E w c" and run: "run_job E H j w = (out, w')"
  shows "out = Inr () \<and> (case verdict j of
      None \<Rightarrow> holds_jobs E w' c
    | Some e \<Rightarrow> \<exists>t. holds_jobs E w' (c(FAILED := c FAILED @ [mark_failed t e j])))"
proof -
  obtain res w1 where r: "handled H j w = (res, w1)" by force
  from judged r have *: "vw_lists (redis E) (w_redis w1) = vw_lists (redis E) (w_redis w)" "res \<noteq> Inl CancelledError"
    "verdict j = (case res of Inr _ \<Rightarrow> None | Inl e \<Rightarrow> Some (str_exn e))"
    unfolding judged_def by (metis (mono_tags, lifting) case_prod_conv)+
  from holds *(1) have h1: "holds_jobs E w1 c" by (simp add: holds_jobs_def)
  show ?thesis
  proof (cases res)
    case (Inr v)
    with run_job_cases [OF r run] *(3) h1 show ?thesis by simp
  next
    case (Inl e)
    with run_job_cases [OF r run] *(2) obtain w2 where f: "fail_job E j (str_exn e) w1 = (out, w2)"
      and w': "w' = as_job (current_job_id (w_ctx w)) w2" by auto
    obtain w3 where "fail_job E j (str_exn e) w1 = (Inr (), w3)" by (rule fail_job_answers [OF serves])
    with f have out: "out = Inr ()" by simp
    with f fail_job_holds [OF laws j h1] w' *(3) Inl show ?thesis by auto
  qed
qed

section \<open>Every step keeps the account\<close>

definition sound ::
  "('r, 'd, 'v) env \<Rightarrow> (job \<Rightarrow> string option) \<Rightarrow> (queue_name \<Rightarrow> job list) \<Rightarrow> ('r, 'd, 'v) pool \<Rightarrow> bool" where
  "sound E verdict c0 s \<longleftrightarrow> accounted E verdict c0 s \<and> (\<forall>j\<in>set (running_jobs s). job_ok j)"

lemma soundI:
  "holds_jobs E (pl_world s) c \<Longrightarrow> c0 HIGH @ sent_to HIGH s = hs @ c HIGH \<Longrightarrow>
     c0 NORMAL @ sent_to NORMAL s = ns @ c NORMAL \<Longrightarrow> pl_taken s \<in> shuffles hs ns \<Longrightarrow>
     mset (pl_taken s) = mset (running_jobs s) + mset (pl_settled s) \<Longrightarrow>
     c FAILED = c0 FAILED @ ds \<Longrightarrow> dead_of verdict (pl_settled s) ds \<Longrightarrow>
     (\<And>j. j \<in> set (running_jobs s) \<Longrightarrow> job_ok j) \<Longrightarrow> sound E verdict c0 s"
  unfolding sound_def accounted_def by blast

lemma soundE:
  assumes "sound E verdict c0 s"
  obtains c hs ns ds where "holds_jobs E (pl_world s) c" "c0 HIGH @ sent_to HIGH s = hs @ c HIGH"
     "c0 NORMAL @ sent_to NORMAL s = ns @ c NORMAL" "pl_taken s \<in> shuffles hs ns"
     "mset (pl_taken s) = mset (running_jobs s) + mset (pl_settled s)"
     "c FAILED = c0 FAILED @ ds" "dead_of verdict (pl_settled s) ds" "\<And>j. j \<in> set (running_jobs s) \<Longrightarrow> job_ok j"
  using assms unfolding sound_def accounted_def by blast

lemma sound_take:
  assumes s: "sound E verdict c0 s" and laws: "redis_laws (redis E)" and i: "i < length (pl_stages s)" "pl_stages s ! i = Polling"
    and d: "dequeue E [] (pl_world s) = (Inr (Some j), w')"
  shows "sound E verdict c0 (s\<lparr>pl_world := w', pl_stages := (pl_stages s)[i := Running j], pl_taken := pl_taken s @ [j]\<rparr>)"
    (is "sound E verdict c0 ?s")
proof -
  from s obtain c hs ns ds where c: "holds_jobs E (pl_world s) c" "c0 HIGH @ sent_to HIGH s = hs @ c HIGH"
     "c0 NORMAL @ sent_to NORMAL s = ns @ c NORMAL" "pl_taken s \<in> shuffles hs ns"
     "mset (pl_taken s) = mset (running_jobs s) + mset (pl_settled s)"
     "c FAILED = c0 FAILED @ ds" "dead_of verdict (pl_settled s) ds" "\<And>j. j \<in> set (running_jobs s) \<Longrightarrow> job_ok j"
    by (rule soundE) blast
  from dequeue_holds [OF laws c(1) d] have l: "list_deq (served []) c = (Some j, snd (list_deq (served []) c))"
    and h: "holds_jobs E w' (snd (list_deq (served []) c))" by (simp_all add: prod_eq_iff)
  have run: "mset (running_jobs ?s) = mset (running_jobs s) + {#j#}"
    using held_update [OF i(1), of "Running j"] i(2) by (simp add: running_jobs_def)
  have ok: "job_ok k" if "k \<in> set (running_jobs ?s)" for k
  proof -
    have "j \<in> set (c HIGH) \<union> set (c NORMAL)"
      using l by (cases "c HIGH"; cases "c NORMAL") (auto simp: list_deq_default)
    then have "job_ok j" using holds_jobsD(2) [OF c(1)] by blast
    with that run c(8) show ?thesis by (metis UnE insertE set_mset_add_mset_insert set_mset_mset add_mset_add_single)
  qed
  have snd: "sent_to q ?s = sent_to q s" for q by (simp add: sent_to_def)
  show ?thesis
  proof (cases "c HIGH")
    case (Cons k js)
    with l have "k = j" "snd (list_deq (served []) c) = c(HIGH := js)" by (auto simp: list_deq_default)
    with h c run Cons show ?thesis
      by (intro soundI [where c = "c(HIGH := js)" and hs = "hs @ [j]" and ns = ns and ds = ds])
        (auto simp: snd intro: shuffles_snoc ok)
  next
    case Nil
    with l obtain js where "c NORMAL = j # js" "snd (list_deq (served []) c) = c(NORMAL := js)"
      by (auto simp: list_deq_default split: list.splits)
    with h c run Nil show ?thesis
      by (intro soundI [where c = "c(NORMAL := js)" and hs = hs and ns = "ns @ [j]" and ds = ds])
        (auto simp: snd intro: shuffles_snoc ok)
  qed
qed

lemma sound_finish:
  assumes s: "sound E verdict c0 s" and laws: "redis_laws (redis E)" and serves: "serves (redis E)" and judged: "judged E H verdict"
    and i: "i < length (pl_stages s)" "pl_stages s ! i = Running j" and r: "run_job E H j (pl_world s) = (out, w')"
  shows "out = Inr () \<and> sound E verdict c0 (s\<lparr>pl_world := w', pl_stages := (pl_stages s)[i := Polling], pl_settled := pl_settled s @ [j]\<rparr>)"
    (is "_ \<and> sound E verdict c0 ?s")
proof -
  from s obtain c hs ns ds where c: "holds_jobs E (pl_world s) c" "c0 HIGH @ sent_to HIGH s = hs @ c HIGH"
     "c0 NORMAL @ sent_to NORMAL s = ns @ c NORMAL" "pl_taken s \<in> shuffles hs ns"
     "mset (pl_taken s) = mset (running_jobs s) + mset (pl_settled s)"
     "c FAILED = c0 FAILED @ ds" "dead_of verdict (pl_settled s) ds" "\<And>j. j \<in> set (running_jobs s) \<Longrightarrow> job_ok j"
    by (rule soundE) blast
  have run: "mset (running_jobs ?s) + {#j#} = mset (running_jobs s)"
    using held_update [OF i(1), of Polling] i(2) by (simp add: running_jobs_def)
  then have ok: "job_ok k" if "k \<in> set (running_jobs ?s)" for k
    using that c(8) by (metis UnI1 set_mset_mset set_mset_union)
  have snd: "sent_to q ?s = sent_to q s" for q by (simp add: sent_to_def)
  from run_job_settles [OF laws serves judged c(8) [OF running_at [OF i]] c(1) r]
  have out: "out = Inr ()" and fate: "case verdict j of None \<Rightarrow> holds_jobs E w' c
    | Some e \<Rightarrow> \<exists>t. holds_jobs E w' (c(FAILED := c FAILED @ [mark_failed t e j]))" by simp_all
  have m: "mset (pl_taken ?s) = mset (running_jobs ?s) + mset (pl_settled ?s)"
    using c(5) unfolding run [symmetric] by simp
  show ?thesis
  proof (cases "verdict j")
    case None
    with fate c m out show ?thesis
      by (intro conjI soundI [where c = c and hs = hs and ns = ns and ds = ds])
        (auto simp: snd intro: dead_of_snoc ok)
  next
    case (Some e)
    with fate obtain t where "holds_jobs E w' (c(FAILED := c FAILED @ [mark_failed t e j]))" by auto
    with Some c m out show ?thesis
      by (intro conjI soundI [where c = "c(FAILED := c FAILED @ [mark_failed t e j])" and hs = hs and ns = ns and ds = "ds @ [mark_failed t e j]"])
        (auto simp: snd intro: dead_of_snoc ok)
  qed
qed

lemma sound_send:
  assumes s: "sound E verdict c0 s" and laws: "redis_laws (redis E)" and q: "q \<in> {HIGH, NORMAL}" and j: "job_ok j"
    and e: "enqueue E j q (pl_world s) = (Inr (), w')"
  shows "sound E verdict c0 (s\<lparr>pl_world := w', pl_sent := pl_sent s @ [(q, j)]\<rparr>)" (is "sound E verdict c0 ?s")
proof -
  from s obtain c hs ns ds where c: "holds_jobs E (pl_world s) c" "c0 HIGH @ sent_to HIGH s = hs @ c HIGH"
     "c0 NORMAL @ sent_to NORMAL s = ns @ c NORMAL" "pl_taken s \<in> shuffles hs ns"
     "mset (pl_taken s) = mset (running_jobs s) + mset (pl_settled s)"
     "c FAILED = c0 FAILED @ ds" "dead_of verdict (pl_settled s) ds" "\<And>j. j \<in> set (running_jobs s) \<Longrightarrow> job_ok j"
    by (rule soundE) blast
  have snd: "sent_to p ?s = sent_to p s @ (if p = q then [j] else [])" for p by (simp add: sent_to_def)
  have run: "running_jobs ?s = running_jobs s" by (simp add: running_jobs_def)
  from enqueue_holds [OF laws j c(1) e] have "holds_jobs E w' (c(q := c q @ [j]))" .
  with c q show ?thesis
    by (intro soundI [where c = "c(q := c q @ [j])" and hs = hs and ns = ns and ds = ds]) (auto simp: snd run)
qed

lemma sound_world:
  assumes "sound E verdict c0 s" and "\<And>c. holds_jobs E (pl_world s) c \<Longrightarrow> holds_jobs E w' c"
  shows "sound E verdict c0 (s\<lparr>pl_world := w'\<rparr>)"
  using assms unfolding sound_def accounted_def running_jobs_def sent_to_def by auto

lemma sound_step:
  assumes "pool_step E H a s s'" and s: "sound E verdict c0 s"
    and laws: "redis_laws (redis E)" and serves: "serves (redis E)" and judged: "judged E H verdict"
  shows "sound E verdict c0 s'"
  using assms(1)
proof (cases rule: pool_step_cases)
  case (Leave i)
  have m: "mset (running_jobs s') = mset (running_jobs s)"
    using held_update [OF Leave(3), of Ended] Leave by (simp add: running_jobs_def)
  then have "set (running_jobs s') = set (running_jobs s)" by (metis set_mset_mset)
  with s m Leave(2) show ?thesis by (simp add: sound_def accounted_def sent_to_def)
next
  case (Empty i w')
  have "holds_jobs E w' c" if c: "holds_jobs E (pl_world s) c" for c
    using dequeue_holds [OF laws c Empty(6)]
    by (auto simp: list_deq_default prod_eq_iff split: list.splits if_splits)
  then show ?thesis unfolding Empty(2) by (intro sound_world [OF s])
next
  case (Refused i e w1 w')
  from s obtain c where "holds_jobs E (pl_world s) c" by (rule soundE) blast
  moreover from serves have "\<And>ks r. \<exists>x r'. rd_blpop (redis E) ks r = (Inr x, r')" by (simp add: serves_def)
  ultimately obtain x v where "dequeue E [] (pl_world s) = (Inr x, v)" by (metis dequeue_answers [OF laws])
  with Refused show ?thesis by simp
next
  case (Take i j w')
  with sound_take [OF s laws Take(3,4,6)] show ?thesis by simp
next
  case (Finish i j w')
  with sound_finish [OF s laws serves judged Finish(3,4,5)] show ?thesis by simp
next
  case (Crash i j e w')
  with sound_finish [OF s laws serves judged Crash(3,4,5)] show ?thesis by simp
next
  case Stop
  with s show ?thesis by (simp add: sound_def accounted_def running_jobs_def sent_to_def)
next
  case (Send q j w')
  then have "q \<in> {HIGH, NORMAL}" by simp
  with sound_send [OF s laws _ Send(4,5)] Send(2) show ?thesis by simp
next
  case (Beside w')
  then show ?thesis unfolding Beside(2) by (intro sound_world [OF s]) (simp add: holds_jobs_def)
qed

lemma sound_run:
  assumes "pool_run E H as s s'" and "sound E verdict c0 s"
    and "redis_laws (redis E)" and "serves (redis E)" and "judged E H verdict"
  shows "sound E verdict c0 s'"
  using assms by (induction rule: pool_run.induct) (auto intro: sound_step)

lemma sound_new:
  assumes "holds_jobs E w c0"
  shows "sound E verdict c0 (new_pool n w)"
  using assms by (intro soundI [where c = c0 and hs = "[]" and ns = "[]" and ds = "[]"])
    (simp_all add: running_jobs_def sent_to_def dead_of_def)

section \<open>After a stop\<close>

text \<open>The steps a worker has left once the stop flag is set.\<close>

fun steps_left :: "stage \<Rightarrow> nat" where
  "steps_left (Running j) = 2"
| "steps_left Polling = 1"
| "steps_left Ended = 0"

definition work_left :: "('r, 'd, 'v) pool \<Rightarrow> nat" where
  "work_left s = sum_list (map steps_left (pl_stages s))"

lemma work_update:
  "i < length xs \<Longrightarrow> sum_list (map steps_left (xs[i := x])) + steps_left (xs ! i) = sum_list (map steps_left xs) + steps_left x"
proof (induction xs arbitrary: i)
  case (Cons y ys)
  then show ?case by (cases i) auto
qed simp

lemma stopped_step:
  assumes "pool_step E H a s s'" and "pl_stop s"
  shows "pl_stop s' \<and> pl_taken s' = pl_taken s \<and> length (pl_stages s') = length (pl_stages s) \<and>
    work_left s' + (if a = Outside then 0 else 1) \<le> work_left s"
  using assms(1)
proof (cases rule: pool_step_cases)
  case (Leave i)
  with assms(2) work_update [OF Leave(3), of Ended] show ?thesis by (simp add: work_left_def)
next
  case (Finish i j w')
  with assms(2) work_update [OF Finish(3), of Polling] show ?thesis by (simp add: work_left_def)
next
  case (Crash i j e w')
  with assms(2) work_update [OF Crash(3), of Ended] show ?thesis by (simp add: work_left_def)
qed (use assms(2) in \<open>simp_all add: work_left_def\<close>)

lemma stopped_run:
  assumes "pool_run E H as s s'" and "pl_stop s"
  shows "pl_stop s' \<and> pl_taken s' = pl_taken s \<and> length (pl_stages s') = length (pl_stages s) \<and>
    work_left s' + length (filter (\<lambda>a. a \<noteq> Outside) as) \<le> work_left s"
  using assms
proof (induction rule: pool_run.induct)
  case (Step a s s1 as s')
  from stopped_step [OF Step.hyps(1) Step.prems] Step.IH show ?case by (auto split: if_splits)
qed simp

lemma run_length: "pool_run E H as s s' \<Longrightarrow> length (pl_stages s') = length (pl_stages s)"
proof (induction rule: pool_run.induct)
  case (Step a s s1 as s')
  then show ?case by (auto elim!: pool_stepE)
qed simp

lemma work_bound: "work_left s \<le> 2 * length (pl_stages s)"
proof -
  have "sum_list (map steps_left xs) \<le> 2 * length xs" for xs
  proof (induction xs)
    case (Cons x xs)
    have "steps_left x \<le> 2" by (cases x) simp_all
    with Cons show ?case by simp
  qed simp
  then show ?thesis by (simp add: work_left_def)
qed

lemma stopped_moves:
  assumes "pl_stop s" and "i < length (pl_stages s)" and "pl_stages s ! i \<noteq> Ended"
  shows "\<exists>s'. pool_step E H (Worker i) s s'"
proof (cases "pl_stages s ! i")
  case Polling
  with assms show ?thesis by blast
next
  case (Running j)
  obtain out w' where r: "run_job E H j (pl_world s) = (out, w')" by force
  with Running assms(2) show ?thesis by (cases out) (blast, metis (full_types) Finish old.unit.exhaust)
qed (use assms in simp)

section \<open>A small pool\<close>

text \<open>Two workers, one queued job, which the second worker takes.\<close>

lemma small_pool:
  obtains s w where "pool_run quiet_env failing_registry [Worker 1] (new_pool 2 queued_world) s"
    "pl_taken s = [sample_job]" "pl_stages s = [Polling, Running sample_job]" "pl_sent s = []" "pl_settled s = []"
    "run_job quiet_env failing_registry sample_job (pl_world s) = (Inr (), w)"
proof -
  obtain w1 where d: "dequeue quiet_env [] queued_world = (Inr (Some sample_job), w1)"
    by (simp add: dequeue_def queued_world_def mem_run mem_redis_eval from_to_json)
  obtain out w2 where r: "run_job quiet_env failing_registry sample_job w1 = (out, w2)" by force
  from dequeue_holds [OF _ queued_holds d] have "holds_jobs quiet_env w1 (snd (list_deq (served []) ((\<lambda>_. [])(HIGH := [sample_job]))))"
    by simp
  from run_job_settles [OF _ _ failing_judged _ this r] have "out = Inr ()" by simp
  with r d show thesis
    by (intro that [OF pool_run.Step [OF pool_step.Take pool_run.Rest]]) (auto simp: numeral_2_eq_2 nth_Cons' list_update_code)
qed

section \<open>Properties\<close>







end
