(* ===== verification/Lifecycle.thy ===== *)
theory Lifecycle
  imports Orchestrator Event_Watcher
begin

text \<open>
  The life of the process in \<^verbatim>\<open>core/orchestrator/main.py\<close>: the state of an
  \<^verbatim>\<open>Orchestrator\<close>, the services its \<^verbatim>\<open>start\<close> creates, \<^verbatim>\<open>_serve_api\<close>,
  \<^verbatim>\<open>stop\<close> with everything it awaits, \<^verbatim>\<open>_run\<close> and the command line. How a task ends when
  somebody waits for it is a parameter (\<open>ends\<close>): what the task itself does is modelled in the
  theory of its component. \<^verbatim>\<open>asyncio.wait_for\<close> and \<^verbatim>\<open>asyncio.gather\<close> are taken as
  the standard library documents them.
\<close>

section \<open>The orchestrator's state\<close>

text \<open>
  The attributes of the object that stop looks at. A watcher is known by whether its observer runs
  (the event watcher) or its stop event is set (the two pollers), the server by its exit flag, a
  task by its name. \<open>or_cancels\<close> are the tasks whose cancellation was requested,
  \<open>or_awaited\<close> those that somebody waited for to the end.
\<close>

record orch =
  or_num_workers :: nat
  or_stop :: bool
  or_workers :: "string list"
  or_watcher :: "bool option"
  or_integrity :: "bool option"
  or_ci :: "bool option"
  or_integrity_task :: "string option"
  or_ci_task :: "string option"
  or_daily_task :: "string option"
  or_server :: "bool option"
  or_api_task :: "string option"
  or_queue_open :: bool
  or_cancels :: "string list"
  or_awaited :: "string list"

definition new_orch :: "nat \<Rightarrow> orch" where
  "new_orch n =
     \<lparr>or_num_workers = n, or_stop = False, or_workers = [], or_watcher = None, or_integrity = None, or_ci = None,
      or_integrity_task = None, or_ci_task = None, or_daily_task = None, or_server = None, or_api_task = None,
      or_queue_open = True, or_cancels = [], or_awaited = []\<rparr>"

text \<open>How a task ends for somebody who waits a limited time for it.\<close>

datatype fate = Returns | Raises exn | Hangs

text \<open>
  The surroundings of the process: what the constructors of the two pollers give (they read numbers
  from the environment), the repositories to watch with git's answers, the end of each task (told
  whether its cancellation was requested), what stopping the observer raises, and how the wait for
  a signal ends. The end of \<^verbatim>\<open>api-server\<close> is that of the server's own loop.
\<close>

record surroundings =
  sr_repos :: "string list"
  sr_is_git :: "string \<Rightarrow> bool"
  sr_head_before :: "string \<Rightarrow> exn + string"
  sr_head_after :: "string \<Rightarrow> exn + string"
  sr_new_integrity :: "exn + unit"
  sr_new_ci :: "exn + unit"
  sr_ends :: "string \<Rightarrow> bool \<Rightarrow> fate"
  sr_halt :: "exn + unit"
  sr_signal :: "exn + unit"

section \<open>Start\<close>

definition worker_name :: "nat \<Rightarrow> string" where
  "worker_name i = ''worker-'' @ str_of_nat i"

text \<open>The second half of \<^verbatim>\<open>start\<close>, after the services were found and the orphans reaped.\<close>

definition launch :: "surroundings \<Rightarrow> (orch, emission list) io" where
  "launch S =
     bnd (modifies (\<lambda>oc. oc\<lparr>or_workers := or_workers oc @ map worker_name [0..<or_num_workers oc]\<rparr>)) (\<lambda>_.
     bnd (modifies (\<lambda>oc. oc\<lparr>or_watcher := Some False\<rparr>)) (\<lambda>_.
     bnd (if sr_repos S = [] then ret []
          else bnd (lift_sum (start_watching Loop_Open (sr_is_git S) (sr_head_before S) (sr_head_after S) (sr_repos S))) (\<lambda>(hs, ems).
               thn (modifies (\<lambda>oc. oc\<lparr>or_watcher := Some True\<rparr>)) (ret ems))) (\<lambda>ems.
     bnd (lift_sum (sr_new_integrity S)) (\<lambda>_.
     bnd (modifies (\<lambda>oc. oc\<lparr>or_integrity := Some False, or_integrity_task := Some ''integrity-watcher''\<rparr>)) (\<lambda>_.
     bnd (lift_sum (sr_new_ci S)) (\<lambda>_.
     bnd (modifies (\<lambda>oc. oc\<lparr>or_ci := Some False, or_ci_task := Some ''ci-watcher'',
        or_daily_task := Some ''daily-summary-scheduler'', or_api_task := Some ''api-server''\<rparr>)) (\<lambda>_.
     ret ems)))))))"

definition start_all ::
  "('r, 'd, 'v) env \<Rightarrow> ('r, 'd, 'v, unit) act \<Rightarrow> surroundings \<Rightarrow> ('r, 'd, 'v) world \<times> orch \<Rightarrow>
   (exn + emission list) \<times> ('r, 'd, 'v) world \<times> orch" where
  "start_all E init_db S wo =
     (case start E init_db (or_num_workers (snd wo)) (fst wo) of
        (Inl e, w') \<Rightarrow> (Inl e, w', snd wo)
      | (Inr _, w') \<Rightarrow> (case launch S (snd wo) of (r, oc') \<Rightarrow> (r, w', oc')))"

text \<open>\<^verbatim>\<open>_serve_api\<close>, the body of the task \<^verbatim>\<open>api-server\<close>.\<close>

definition serve_api :: "settings \<Rightarrow> (orch, unit) io" where
  "serve_api s =
     bnd (lift_sum (validate_bind_safety (api_host s) (api_allow_remote_bind s) (api_auth_token s))) (\<lambda>_.
     modifies (\<lambda>oc. oc\<lparr>or_server := Some False\<rparr>))"

text \<open>The surroundings once that task runs: it ends with the error of the rule, or as the server does.\<close>

definition with_api :: "settings \<Rightarrow> surroundings \<Rightarrow> surroundings" where
  "with_api s S =
     (case validate_bind_safety (api_host s) (api_allow_remote_bind s) (api_auth_token s) of
        Inl e \<Rightarrow> S\<lparr>sr_ends := (sr_ends S)(''api-server'' := \<lambda>_. Raises e)\<rparr>
      | Inr _ \<Rightarrow> S)"

section \<open>Stop\<close>

text \<open>\<^verbatim>\<open>self._task.cancel()\<close> behind its \<^verbatim>\<open>is not None\<close>.\<close>

definition cancel_task :: "string option \<Rightarrow> orch \<Rightarrow> orch" where
  "cancel_task t oc = (case t of None \<Rightarrow> oc | Some n \<Rightarrow> oc\<lparr>or_cancels := or_cancels oc @ [n]\<rparr>)"

text \<open>
  \<^verbatim>\<open>await asyncio.wait_for(t, timeout)\<close>: the result or exception of the task; a task that
  does not end in time is cancelled, and the wait raises TimeoutError.
\<close>

definition wait_for_task :: "surroundings \<Rightarrow> string \<Rightarrow> (orch, unit) io" where
  "wait_for_task S t =
     bnd (asks (\<lambda>oc. sr_ends S t (t \<in> set (or_cancels oc)))) (\<lambda>f.
       case f of
         Returns \<Rightarrow> modifies (\<lambda>oc. oc\<lparr>or_awaited := or_awaited oc @ [t]\<rparr>)
       | Raises e \<Rightarrow> thn (modifies (\<lambda>oc. oc\<lparr>or_awaited := or_awaited oc @ [t]\<rparr>)) (raise e)
       | Hangs \<Rightarrow> thn (modifies (cancel_task (Some t))) (raise TimeoutError))"

definition tell_all :: "surroundings \<Rightarrow> (orch, unit) io" where
  "tell_all S =
     bnd (modifies (\<lambda>oc. oc\<lparr>or_stop := True\<rparr>)) (\<lambda>_.
     bnd (asks or_watcher) (\<lambda>wt.
     bnd (if wt = Some True then thn (lift_sum (sr_halt S)) (modifies (\<lambda>oc. oc\<lparr>or_watcher := Some False\<rparr>)) else ret ()) (\<lambda>_.
     bnd (modifies (\<lambda>oc. oc\<lparr>or_integrity := map_option (\<lambda>_. True) (or_integrity oc), or_ci := map_option (\<lambda>_. True) (or_ci oc)\<rparr>)) (\<lambda>_.
     bnd (modifies (\<lambda>oc. cancel_task (or_daily_task oc) (cancel_task (or_ci_task oc) (cancel_task (or_integrity_task oc) oc)))) (\<lambda>_.
     modifies (\<lambda>oc. oc\<lparr>or_server := map_option (\<lambda>_. True) (or_server oc)\<rparr>))))))"

definition await_api :: "surroundings \<Rightarrow> (orch, unit) io" where
  "await_api S =
     bnd (asks or_api_task) (\<lambda>t.
       case t of
         None \<Rightarrow> ret ()
       | Some n \<Rightarrow> catching (\<lambda>e. e = TimeoutError) (wait_for_task S n) (\<lambda>_. modifies (cancel_task (Some n))))"

text \<open>\<^verbatim>\<open>gather(.., return_exceptions=True)\<close> has no time limit: it returns when all ended.\<close>

definition workers_end :: "surroundings \<Rightarrow> orch \<Rightarrow> bool" where
  "workers_end S oc \<longleftrightarrow> (\<forall>n\<in>set (or_workers oc). sr_ends S n False \<noteq> Hangs)"

definition await_background :: "surroundings \<Rightarrow> (orch, unit) io" where
  "await_background S =
     bnd (asks (\<lambda>oc. [or_integrity_task oc, or_ci_task oc, or_daily_task oc])) (\<lambda>ts.
     for_each ts (\<lambda>t.
       case t of
         None \<Rightarrow> ret ()
       | Some n \<Rightarrow> catching (\<lambda>e. e = TimeoutError \<or> e = CancelledError) (wait_for_task S n) (\<lambda>_. ret ())))"

definition close_queue :: "(orch, unit) io" where
  "close_queue = modifies (\<lambda>oc. oc\<lparr>or_queue_open := False\<rparr>)"

text \<open>\<^verbatim>\<open>stop\<close>; the value \<open>None\<close> is a stop that waits for ever for a worker.\<close>

definition stop :: "surroundings \<Rightarrow> orch \<Rightarrow> ((exn + unit) \<times> orch) option" where
  "stop S oc =
     (case thn (tell_all S) (await_api S) oc of
        (Inl e, oc1) \<Rightarrow> Some (Inl e, oc1)
      | (Inr _, oc1) \<Rightarrow>
          if workers_end S oc1
          then Some (thn (await_background S) close_queue (oc1\<lparr>or_awaited := or_awaited oc1 @ or_workers oc1\<rparr>))
          else None)"

section \<open>The process\<close>

text \<open>\<^verbatim>\<open>_run\<close>: after the start the task of the API runs; the stop is in the \<^verbatim>\<open>finally\<close>, the start before the \<^verbatim>\<open>try\<close>.\<close>

definition run_process_main ::
  "('r, 'd, 'v) env \<Rightarrow> ('r, 'd, 'v, unit) act \<Rightarrow> surroundings \<Rightarrow> ('r, 'd, 'v) world \<Rightarrow> nat \<Rightarrow>
   ((exn + unit) \<times> ('r, 'd, 'v) world \<times> orch) option" where
  "run_process_main E init_db S w n =
     (case start_all E init_db S (w, new_orch n) of
        (Inl e, w', oc') \<Rightarrow> Some (Inl e, w', oc')
      | (Inr _, w', oc') \<Rightarrow>
          (case stop (with_api (cfg E) S) (snd (serve_api (cfg E) oc')) of
             None \<Rightarrow> None
           | Some (Inl e, oc2) \<Rightarrow> Some (Inl e, w', oc2)
           | Some (Inr _, oc2) \<Rightarrow> Some (sr_signal S, w', oc2)))"

text \<open>
  \<^verbatim>\<open>cli\<close> with its parsed arguments: a probe ends the process with its exit code (\<open>Inl\<close>),
  otherwise the process runs; \<^verbatim>\<open>range\<close> of a negative number of workers is empty.
\<close>

definition cli ::
  "('r, 'd, 'v) env \<Rightarrow> ('r, 'd, 'v, unit) act \<Rightarrow> surroundings \<Rightarrow> ('r, 'd, 'v) world \<Rightarrow> int \<Rightarrow> bool \<Rightarrow>
   (exn + int) + ((exn + unit) \<times> ('r, 'd, 'v) world \<times> orch) option" where
  "cli E init_db S w workers probe_services =
     (if probe_services then Inl (fst (probe E w)) else Inr (run_process_main E init_db S w (nat workers)))"

section \<open>What a start leaves\<close>

text \<open>The state after a start that returned; \<open>b\<close> says whether there is an observer.\<close>

definition launched :: "nat \<Rightarrow> bool \<Rightarrow> orch" where
  "launched n b =
     \<lparr>or_num_workers = n, or_stop = False, or_workers = map worker_name [0..<n], or_watcher = Some b,
      or_integrity = Some False, or_ci = Some False, or_integrity_task = Some ''integrity-watcher'',
      or_ci_task = Some ''ci-watcher'', or_daily_task = Some ''daily-summary-scheduler'', or_server = None,
      or_api_task = Some ''api-server'', or_queue_open = True, or_cancels = [], or_awaited = []\<rparr>"

lemma launch_cases:
  "launch S (new_orch n) = (out, oc) \<Longrightarrow>
     (case out of
        Inr _ \<Rightarrow> oc = launched n (sr_repos S \<noteq> [])
      | Inl _ \<Rightarrow> or_workers oc = map worker_name [0..<n] \<and> \<not> or_stop oc \<and> or_queue_open oc)"
  by (auto simp: launch_def new_orch_def launched_def io_defs split: if_splits sum.splits prod.splits)

text \<open>The tasks of a started orchestrator are those \<open>start\<close> announces.\<close>

lemma launched_tasks:
  "or_workers (launched n b) @ [''event-watcher''] @
     map the [or_integrity_task (launched n b), or_ci_task (launched n b), or_daily_task (launched n b), or_api_task (launched n b)]
   = background_tasks n"
  by (simp add: launched_def background_tasks_def worker_name_def)

section \<open>What gets out of a stop\<close>

text \<open>The exceptions that the two kinds of waits let through.\<close>

definition api_escape :: "fate \<Rightarrow> exn option" where
  "api_escape f = (case f of Raises e \<Rightarrow> if e = TimeoutError then None else Some e | _ \<Rightarrow> None)"

definition task_escape :: "fate \<Rightarrow> exn option" where
  "task_escape f = (case f of Raises e \<Rightarrow> if e = TimeoutError \<or> e = CancelledError then None else Some e | _ \<Rightarrow> None)"

fun first_some :: "'a option list \<Rightarrow> 'a option" where
  "first_some [] = None"
| "first_some (Some x # xs) = Some x"
| "first_some (None # xs) = first_some xs"

definition early_escape :: "surroundings \<Rightarrow> bool \<Rightarrow> exn option" where
  "early_escape S b =
     first_some [if b then (case sr_halt S of Inl e \<Rightarrow> Some e | Inr _ \<Rightarrow> None) else None, api_escape (sr_ends S ''api-server'' False)]"

definition late_escape :: "surroundings \<Rightarrow> exn option" where
  "late_escape S =
     first_some (map (\<lambda>t. task_escape (sr_ends S t True)) [''integrity-watcher'', ''ci-watcher'', ''daily-summary-scheduler''])"

definition stop_tasks :: "string list" where
  "stop_tasks = [''integrity-watcher'', ''ci-watcher'', ''daily-summary-scheduler'', ''api-server'']"

text \<open>Waits change only who was awaited and cancelled.\<close>

definition waited :: "orch \<Rightarrow> orch \<Rightarrow> bool" where
  "waited oc oc' \<longleftrightarrow>
     oc' = oc\<lparr>or_cancels := or_cancels oc', or_awaited := or_awaited oc'\<rparr> \<and>
     set (or_cancels oc) \<subseteq> set (or_cancels oc') \<and> set (or_awaited oc) \<subseteq> set (or_awaited oc')"

definition ended :: "string \<Rightarrow> orch \<Rightarrow> bool" where
  "ended t oc \<longleftrightarrow> t \<in> set (or_awaited oc) \<or> t \<in> set (or_cancels oc)"

lemma waited_trans: "waited a b \<Longrightarrow> waited b c \<Longrightarrow> waited a c"
  unfolding waited_def by (cases a; cases b; cases c) auto

lemma waited_ended: "waited a b \<Longrightarrow> ended t a \<Longrightarrow> ended t b"
  by (auto simp: waited_def ended_def)

lemma waited_cancels: "waited a b \<Longrightarrow> t \<in> set (or_cancels a) \<Longrightarrow> t \<in> set (or_cancels b)"
  unfolding waited_def by blast

lemma waited_updates [simp]:
  "waited oc (oc\<lparr>or_awaited := or_awaited oc @ xs\<rparr>)" "waited oc (oc\<lparr>or_cancels := or_cancels oc @ xs\<rparr>)"
  "waited oc (oc\<lparr>or_awaited := or_awaited oc @ xs, or_cancels := or_cancels oc @ ys\<rparr>)"
  by (cases oc; simp add: waited_def)+

lemma waited_refl [simp]: "waited oc oc"
  by (simp add: waited_def)

lemma waited_fields:
  assumes "waited oc oc'"
  shows "or_stop oc' = or_stop oc" "or_watcher oc' = or_watcher oc" "or_integrity oc' = or_integrity oc"
    "or_ci oc' = or_ci oc" "or_server oc' = or_server oc" "or_queue_open oc' = or_queue_open oc" "or_workers oc' = or_workers oc"
    "or_integrity_task oc' = or_integrity_task oc" "or_ci_task oc' = or_ci_task oc" "or_daily_task oc' = or_daily_task oc"
    "or_api_task oc' = or_api_task oc"
  using assms by (cases oc; cases oc'; simp add: waited_def)+

text \<open>The outcome of a wait or of several, from the exception that gets out of it.\<close>

abbreviation outcome :: "exn option \<Rightarrow> exn + unit" where
  "outcome x \<equiv> (case x of None \<Rightarrow> Inr () | Some e \<Rightarrow> Inl e)"

definition wait_quietly :: "surroundings \<Rightarrow> string option \<Rightarrow> (orch, unit) io" where
  "wait_quietly S t =
     (case t of
        None \<Rightarrow> ret ()
      | Some n \<Rightarrow> catching (\<lambda>e. e = TimeoutError \<or> e = CancelledError) (wait_for_task S n) (\<lambda>_. ret ()))"

lemma wait_quietly_task:
  assumes "t \<in> set (or_cancels oc)"
  shows "\<exists>oc'. wait_quietly S (Some t) oc = (outcome (task_escape (sr_ends S t True)), oc') \<and> waited oc oc' \<and> ended t oc'"
  using assms
  by (cases "sr_ends S t True")
    (simp_all add: wait_quietly_def wait_for_task_def io_defs task_escape_def ended_def cancel_task_def)

lemma wait_quietly_each:
  assumes "set ts \<subseteq> set (or_cancels oc)"
  shows "\<exists>oc'. for_each (map Some ts) (wait_quietly S) oc =
      (outcome (first_some (map (\<lambda>t. task_escape (sr_ends S t True)) ts)), oc') \<and> waited oc oc' \<and>
    (first_some (map (\<lambda>t. task_escape (sr_ends S t True)) ts) = None \<longrightarrow> (\<forall>t\<in>set ts. ended t oc'))"
  using assms
proof (induction ts arbitrary: oc)
  case (Cons t ts)
  then obtain oc1 where 1: "wait_quietly S (Some t) oc = (outcome (task_escape (sr_ends S t True)), oc1)"
    "waited oc oc1" "ended t oc1" using wait_quietly_task [of t oc S] by auto
  show ?case
  proof (cases "task_escape (sr_ends S t True)")
    case (Some e)
    with 1 show ?thesis by (auto simp: io_defs)
  next
    case None
    from 1(2) Cons.prems have "set ts \<subseteq> set (or_cancels oc1)" by (auto intro: waited_cancels)
    from Cons.IH [OF this] obtain oc2 where 2: "for_each (map Some ts) (wait_quietly S) oc1 =
      (outcome (first_some (map (\<lambda>t. task_escape (sr_ends S t True)) ts)), oc2)" "waited oc1 oc2"
      "first_some (map (\<lambda>t. task_escape (sr_ends S t True)) ts) = None \<longrightarrow> (\<forall>t\<in>set ts. ended t oc2)"
      by (elim exE conjE) (rule that)
    with None 1 have "for_each (map Some (t # ts)) (wait_quietly S) oc =
      (outcome (first_some (map (\<lambda>t. task_escape (sr_ends S t True)) ts)), oc2)" by (simp add: io_defs)
    with None 1(3) 2(2,3) waited_trans [OF 1(2) 2(2)] waited_ended [OF 2(2)]
    show ?thesis by (intro exI [of _ oc2]) simp
  qed
qed (simp add: ret_def)

lemma await_background_eq:
  "await_background S oc = for_each [or_integrity_task oc, or_ci_task oc, or_daily_task oc] (wait_quietly S) oc"
  by (simp add: await_background_def wait_quietly_def [abs_def] bnd_def asks_def)

lemma await_api_task:
  assumes "or_api_task oc = Some t" and "t \<notin> set (or_cancels oc)"
  shows "\<exists>oc'. await_api S oc = (outcome (api_escape (sr_ends S t False)), oc') \<and> waited oc oc' \<and>
    (api_escape (sr_ends S t False) = None \<longrightarrow> ended t oc')"
  using assms
  by (cases "sr_ends S t False")
    (simp_all add: await_api_def wait_for_task_def io_defs api_escape_def ended_def cancel_task_def)

text \<open>What telling everybody does to a started orchestrator.\<close>

definition told :: "nat \<Rightarrow> bool option \<Rightarrow> orch" where
  "told n sv =
     (launched n False)\<lparr>or_stop := True, or_integrity := Some True, or_ci := Some True,
       or_cancels := [''integrity-watcher'', ''ci-watcher'', ''daily-summary-scheduler''],
       or_server := map_option (\<lambda>_. True) sv\<rparr>"

lemma tell_all_launched:
  "tell_all S ((launched n b)\<lparr>or_server := sv\<rparr>) =
     (if b \<and> sr_halt S \<noteq> Inr () then (sr_halt S, (launched n b)\<lparr>or_server := sv, or_stop := True\<rparr>)
      else (Inr (), told n sv))"
  by (cases "sr_halt S") (auto simp: tell_all_def launched_def told_def cancel_task_def io_defs)

section \<open>The two halves of a stop\<close>

text \<open>Up to the wait for the API task.\<close>

lemma stop_first_half:
  "\<exists>oc. thn (tell_all S) (await_api S) ((launched n b)\<lparr>or_server := sv\<rparr>) = (outcome (early_escape S b), oc) \<and>
     or_stop oc \<and> or_queue_open oc \<and> (early_escape S b = None \<longrightarrow> waited (told n sv) oc \<and> ended ''api-server'' oc)"
proof (cases "b \<and> sr_halt S \<noteq> Inr ()")
  case True
  then obtain e where "sr_halt S = Inl e" by (cases "sr_halt S") auto
  with True have "thn (tell_all S) (await_api S) ((launched n b)\<lparr>or_server := sv\<rparr>) =
      (outcome (early_escape S b), (launched n b)\<lparr>or_server := sv, or_stop := True\<rparr>)" "early_escape S b = Some e"
    by (simp_all add: early_escape_def thn_def bnd_def tell_all_launched)
  then show ?thesis by (simp add: launched_def)
next
  case False
  let ?x = "api_escape (sr_ends S ''api-server'' False)"
  have early: "early_escape S b = ?x" using False by (cases ?x) (auto simp: early_escape_def split: sum.splits)
  obtain oc where 1: "await_api S (told n sv) = (outcome ?x, oc)" "waited (told n sv) oc" "?x = None \<longrightarrow> ended ''api-server'' oc"
    using await_api_task [of "told n sv" "''api-server''" S] by (auto simp: told_def launched_def)
  have "thn (tell_all S) (await_api S) ((launched n b)\<lparr>or_server := sv\<rparr>) = (outcome ?x, oc)"
    using False 1(1) by (auto simp: thn_def bnd_def tell_all_launched)
  moreover have "or_stop oc" "or_queue_open oc" using waited_fields [OF 1(2)] by (simp_all add: told_def launched_def)
  ultimately show ?thesis using 1(2,3) early by auto
qed

text \<open>From the end of the workers on.\<close>

definition all_down :: "nat \<Rightarrow> bool option \<Rightarrow> orch \<Rightarrow> bool" where
  "all_down n sv oc \<longleftrightarrow>
     or_stop oc \<and> \<not> or_queue_open oc \<and> or_watcher oc = Some False \<and> or_integrity oc = Some True \<and>
     or_ci oc = Some True \<and> or_server oc = map_option (\<lambda>_. True) sv \<and>
     (\<forall>t\<in>set (map worker_name [0..<n] @ stop_tasks). ended t oc)"

lemma stop_second_half:
  assumes "waited (told n sv) oc1" and "ended ''api-server'' oc1"
  shows "\<exists>oc. thn (await_background S) close_queue (oc1\<lparr>or_awaited := or_awaited oc1 @ or_workers oc1\<rparr>) =
      (outcome (late_escape S), oc) \<and> or_stop oc \<and> (if late_escape S = None then all_down n sv oc else or_queue_open oc)"
proof -
  let ?oc2 = "oc1\<lparr>or_awaited := or_awaited oc1 @ or_workers oc1\<rparr>"
  let ?ts = "[''integrity-watcher'', ''ci-watcher'', ''daily-summary-scheduler'']"
  have w2: "waited oc1 ?oc2" by simp
  note w02 = waited_trans [OF assms(1) w2]
  have "set ?ts \<subseteq> set (or_cancels ?oc2)" using waited_cancels [OF w02] by (auto simp: told_def)
  then obtain oc3 where 3: "for_each (map Some ?ts) (wait_quietly S) ?oc2 = (outcome (late_escape S), oc3)"
    "waited ?oc2 oc3" "late_escape S = None \<longrightarrow> (\<forall>t\<in>set ?ts. ended t oc3)"
    by (rule wait_quietly_each [of ?ts ?oc2 S, folded late_escape_def, THEN exE]) (elim conjE, rule that)
  have bg: "await_background S ?oc2 = (outcome (late_escape S), oc3)"
    using 3(1) waited_fields [OF assms(1)] by (simp add: await_background_eq told_def launched_def)
  have fields: "or_stop oc3" "or_queue_open oc3" "or_watcher oc3 = Some False" "or_integrity oc3 = Some True"
    "or_ci oc3 = Some True" "or_server oc3 = map_option (\<lambda>_. True) sv"
    using waited_fields [OF waited_trans [OF w02 3(2)]] by (simp_all add: told_def launched_def)
  show ?thesis
  proof (cases "late_escape S")
    case (Some e)
    with bg fields show ?thesis by (simp add: thn_def bnd_def)
  next
    case None
    have "ended t oc3" if "t \<in> set (map worker_name [0..<n])" for t
      using that waited_fields(7) [OF assms(1)] waited_ended [OF 3(2), of t] by (simp add: ended_def told_def launched_def)
    moreover have "ended ''api-server'' oc3" using assms(2) waited_ended [OF waited_trans [OF w2 3(2)]] by blast
    ultimately have "\<forall>t\<in>set (map worker_name [0..<n] @ stop_tasks). ended t oc3"
      using 3(3) None by (auto simp: stop_tasks_def)
    with bg fields None show ?thesis
      by (simp add: thn_def bnd_def close_queue_def modifies_def all_down_def ended_def)
  qed
qed

section \<open>Quiet surroundings\<close>

text \<open>No repositories, and every task returns.\<close>

definition quiet_surroundings :: surroundings where
  "quiet_surroundings =
     \<lparr>sr_repos = [], sr_is_git = (\<lambda>_. False), sr_head_before = (\<lambda>_. Inr []), sr_head_after = (\<lambda>_. Inr []),
      sr_new_integrity = Inr (), sr_new_ci = Inr (), sr_ends = (\<lambda>_ _. Returns), sr_halt = Inr (), sr_signal = Inr ()\<rparr>"

text \<open>Settings that bind every interface, with the given token.\<close>

definition open_settings :: "string \<Rightarrow> settings" where
  "open_settings token =
     (default_settings ''/srv'')\<lparr>api_host := ''0.0.0.0'', api_allow_remote_bind := True, api_auth_token := token\<rparr>"

section \<open>Properties\<close>

text \<open>Exactly what stops a shutdown short: on a started orchestrator, \<open>stop\<close> waits for ever
  exactly when nothing got out before and some worker does not end; otherwise it raises exactly the
  first exception among the observer's, the API task's and those of the three background tasks that
  is no timeout (nor, for the latter, a cancellation), and then leaves the Redis connection open;
  and when none gets out everybody was told to stop, all tasks were awaited or cancelled, and the
  connection is closed.\<close>

theorem stop_exact:
  assumes "oc = (launched n b)\<lparr>or_server := sv\<rparr>"
  shows "case stop S oc of
      None \<Rightarrow> early_escape S b = None \<and> (\<exists>i<n. sr_ends S (worker_name i) False = Hangs)
    | Some (Inl e, oc') \<Rightarrow> first_some [early_escape S b, late_escape S] = Some e \<and> or_stop oc' \<and> or_queue_open oc'
    | Some (Inr _, oc') \<Rightarrow>
        early_escape S b = None \<and> late_escape S = None \<and> or_stop oc' \<and> \<not> or_queue_open oc' \<and>
        or_watcher oc' = Some False \<and> or_integrity oc' = Some True \<and> or_ci oc' = Some True \<and>
        or_server oc' = map_option (\<lambda>_. True) sv \<and>
        (\<forall>t\<in>set (map worker_name [0..<n] @ stop_tasks). ended t oc')"
proof -
  obtain oc1 where 1: "thn (tell_all S) (await_api S) oc = (outcome (early_escape S b), oc1)" "or_stop oc1" "or_queue_open oc1"
    "early_escape S b = None \<longrightarrow> waited (told n sv) oc1 \<and> ended ''api-server'' oc1"
    unfolding assms using stop_first_half [of S] by metis
  show ?thesis
  proof (cases "early_escape S b")
    case (Some e)
    with 1 show ?thesis by (simp add: stop_def)
  next
    case None
    with 1(4) have w: "waited (told n sv) oc1" "ended ''api-server'' oc1" by simp_all
    have workers: "or_workers oc1 = map worker_name [0..<n]" using waited_fields(7) [OF w(1)] by (simp add: told_def launched_def)
    show ?thesis
    proof (cases "workers_end S oc1")
      case True
      with None 1(1) stop_second_half [OF w, of S] show ?thesis
        by (auto simp: stop_def all_down_def split: option.splits if_splits)
    next
      case False
      with None 1(1) workers show ?thesis by (auto simp: stop_def workers_end_def)
    qed
  qed
qed

theorem stop_exact_witness:
  "\<exists>oc'. stop (quiet_surroundings\<lparr>sr_ends := (\<lambda>t c. if t = ''ci-watcher'' then Raises (AttributeError ''get'') else Returns)\<rparr>)
      (launched 2 False) = Some (Inl (AttributeError ''get''), oc') \<and> or_queue_open oc'"
proof -
  let ?S = "quiet_surroundings\<lparr>sr_ends := (\<lambda>t c. if t = ''ci-watcher'' then Raises (AttributeError ''get'') else Returns)\<rparr>"
  have esc: "early_escape ?S False = None" "late_escape ?S = Some (AttributeError ''get'')"
    by (simp_all add: early_escape_def late_escape_def api_escape_def task_escape_def quiet_surroundings_def)
  have never: "sr_ends ?S t c \<noteq> Hangs" for t c by simp
  have l: "launched 2 False = (launched 2 False)\<lparr>or_server := None\<rparr>" by (simp add: launched_def)
  from stop_exact [OF l, of ?S] never obtain r oc' where r: "stop ?S (launched 2 False) = Some (r, oc')"
    by (cases "stop ?S (launched 2 False)") auto
  with stop_exact [OF l, of ?S] esc show ?thesis by (cases r) auto
qed

text \<open>With the in-memory services a start returns.\<close>

lemma mem_start:
  assumes "tables_ok t"
  obtains w' where "start_all (mem_env s llm http app) (ret ()) quiet_surroundings (mem_world t, new_orch n) =
    (Inr [], w', launched n False)"
proof -
  let ?E = "mem_env s llm http app"
  obtain w2 where q: "queue_ping ?E (mem_world t) = (Inr True, w2)" and "db ?E w2 = t"
    by (simp add: queue_ping_def mem_run mem_redis_def)
  with assms have "tables_ok (db ?E w2)" by simp
  then have "wp (reap_orphan_workflows ?E a) (\<lambda>_ _. True) (\<lambda>_ _. False) w2" for a
    by (intro wp_reap_orphans) simp_all
  from this [of "orphan_workflow_max_age_seconds (cfg ?E)"] obtain r w3
    where reap: "reap_orphan_workflows ?E (orphan_workflow_max_age_seconds (cfg ?E)) w2 = (Inr r, w3)"
    by (auto simp: wp_def split: prod.splits sum.splits)
  have d: "db_ping ?E (mem_world t) = (Inr True, mem_world t)"
    by (simp add: db_ping_def on_pg_def mem_pg_tables mem_run mem_world_def)
  have "start ?E (ret ()) n (mem_world t) = (Inr (background_tasks n), w3)"
    using reap by (simp add: start_def bnd_def d q ret_def)
  moreover have "launch quiet_surroundings (new_orch n) = (Inr [], launched n False)"
    by (simp add: launch_def new_orch_def launched_def quiet_surroundings_def io_defs)
  ultimately show thesis by (intro that [of w3]) (simp add: start_all_def new_orch_def)
qed

text \<open>The start that returned, and what the process does with it.\<close>

lemma start_all_returns:
  assumes "start_all E init_db S (w, new_orch n) = (Inr ems, w', oc)"
  shows "oc = launched n (sr_repos S \<noteq> [])"
proof -
  have "fst (launch S (new_orch n)) = Inr ems \<and> snd (launch S (new_orch n)) = oc"
    using assms by (auto simp: start_all_def split: prod.splits sum.splits)
  with launch_cases [of S n "Inr ems" oc] show ?thesis by (simp add: prod_eq_iff)
qed

text \<open>C30: an unsafe bind is refused only when the process ends: with a configuration that the rule
  refuses, a start returns all the same and the process runs without a server; the RuntimeError
  comes out of the shutdown, which then awaits no worker and leaves the connection open.\<close>

theorem unsafe_bind_surfaces_late:
  assumes "validate_bind_safety (api_host (cfg E)) (api_allow_remote_bind (cfg E)) (api_auth_token (cfg E)) = Inl e"
    and "start_all E init_db S (w, new_orch n) = (Inr ems, w', oc)" and "sr_halt S = Inr ()"
  shows "or_server oc = None \<and> or_workers oc = map worker_name [0..<n] \<and>
    (\<exists>oc'. run_process_main E init_db S w n = Some (Inl e, w', oc') \<and> or_server oc' = None \<and>
       or_queue_open oc' \<and> or_awaited oc' = [''api-server''])"
proof -
  note l = start_all_returns [OF assms(2)]
  have e: "e \<noteq> TimeoutError" using assms(1) by (auto simp: validate_bind_safety_def split: if_splits)
  let ?S = "with_api (cfg E) S"
  have S: "sr_ends ?S ''api-server'' c = Raises e" "sr_halt ?S = Inr ()" for c
    using assms(1,3) by (simp_all add: with_api_def)
  have serve: "snd (serve_api (cfg E) oc) = oc" using assms(1) by (simp add: serve_api_def io_defs)
  have oc: "oc = (launched n (sr_repos S \<noteq> []))\<lparr>or_server := None\<rparr>" unfolding l by (simp add: launched_def)
  have "tell_all ?S oc = (Inr (), told n None)"
    unfolding oc by (subst tell_all_launched) (simp add: S)
  moreover have "await_api ?S (told n None) = (Inl e, (told n None)\<lparr>or_awaited := [''api-server'']\<rparr>)"
    using e S by (simp add: await_api_def wait_for_task_def told_def launched_def io_defs)
  ultimately have "stop ?S oc = Some (Inl e, (told n None)\<lparr>or_awaited := [''api-server'']\<rparr>)"
    by (simp add: stop_def thn_def bnd_def)
  then have "run_process_main E init_db S w n = Some (Inl e, w', (told n None)\<lparr>or_awaited := [''api-server'']\<rparr>)"
    by (simp add: run_process_main_def assms(2) serve)
  then show ?thesis by (simp add: l) (simp add: launched_def told_def)
qed

theorem unsafe_bind_surfaces_late_witness:
  "\<exists>e w' oc'. run_process_main (mem_env (open_settings []) (\<lambda>_ _. Inl TimeoutError) (\<lambda>_ _ _. Inr (200, [])) (\<lambda>_ _ _. Inr ()))
     (ret ()) quiet_surroundings (mem_world empty_tables) 2 = Some (Inl e, w', oc') \<and> or_queue_open oc'"
proof -
  let ?E = "mem_env (open_settings []) (\<lambda>_ _. Inl TimeoutError) (\<lambda>_ _ _. Inr (200, [])) (\<lambda>_ _ _. Inr ()) :: (mem_redis_state, mem_pg_state, unit) env"
  obtain w' where st: "start_all ?E (ret ()) quiet_surroundings (mem_world empty_tables, new_orch 2) = (Inr [], w', launched 2 False)"
    using mem_start [OF empty_tables_ok] by blast
  obtain e where e: "validate_bind_safety (api_host (cfg ?E)) (api_allow_remote_bind (cfg ?E)) (api_auth_token (cfg ?E)) = Inl e"
    by (simp add: open_settings_def validate_bind_safety_def loopback_hosts_def)
  from unsafe_bind_surfaces_late [OF e st] show ?thesis by (auto simp: quiet_surroundings_def)
qed



end
