(* ===== verification/Singletons.thy ===== *)
theory Singletons
  imports Config
begin

text \<open>
  The process-wide instances: \<^verbatim>\<open>get_settings\<close>, \<^verbatim>\<open>configure_logging\<close>,
  \<^verbatim>\<open>get_vector_store\<close> and \<^verbatim>\<open>get_queue\<close>, which build their object under a lock, and
  \<^verbatim>\<open>get_engine\<close>, \<^verbatim>\<open>get_sessionmaker\<close> and \<^verbatim>\<open>get_gateway\<close>, which do not. The locked
  ones may be called by several threads (for the queue, by several coroutines) at once: their body
  is a program counter per caller, \<open>once_step\<close> interleaves the callers, and the locale
  \<open>single_build\<close> says what every caller can rely on; it is interpreted on each of the four.
\<close>

section \<open>A body under a lock\<close>

text \<open>
  Where a caller is: at the test before the lock, waiting for the lock, at the test inside, building,
  about to release the lock with an outcome, and back at its caller.
\<close>

datatype 'a pc = Entering | Waiting | Checking | Building | Leaving "exn + 'a" | Finished "exn + 'a"

text \<open>
  The module's variable, the holder of the lock, the counters of the callers, the part of the world
  the building works on, and (a ghost) how many builds succeeded.
\<close>

record ('g, 'a) once =
  on_cell :: "'a option"
  on_lock :: "nat option"
  on_pcs :: "nat \<Rightarrow> 'a pc"
  on_world :: 'g
  on_builds :: nat

text \<open>
  One step of one caller. \<open>fast\<close> says whether the code tests the variable before it takes the lock.
  A \<^verbatim>\<open>with\<close> block releases the lock also when its body raises.
\<close>

inductive once_step :: "bool \<Rightarrow> ('g, 'a) io \<Rightarrow> nat \<Rightarrow> ('g, 'a) once \<Rightarrow> ('g, 'a) once \<Rightarrow> bool"
  for fast build where
  Fast_Hit: "on_pcs s i = Entering \<Longrightarrow> fast \<Longrightarrow> on_cell s = Some v \<Longrightarrow>
    once_step fast build i s (s\<lparr>on_pcs := (on_pcs s)(i := Finished (Inr v))\<rparr>)"
| Fast_Miss: "on_pcs s i = Entering \<Longrightarrow> \<not> fast \<or> on_cell s = None \<Longrightarrow>
    once_step fast build i s (s\<lparr>on_pcs := (on_pcs s)(i := Waiting)\<rparr>)"
| Acquire: "on_pcs s i = Waiting \<Longrightarrow> on_lock s = None \<Longrightarrow>
    once_step fast build i s (s\<lparr>on_pcs := (on_pcs s)(i := Checking), on_lock := Some i\<rparr>)"
| Check_Hit: "on_pcs s i = Checking \<Longrightarrow> on_cell s = Some v \<Longrightarrow>
    once_step fast build i s (s\<lparr>on_pcs := (on_pcs s)(i := Leaving (Inr v))\<rparr>)"
| Check_Miss: "on_pcs s i = Checking \<Longrightarrow> on_cell s = None \<Longrightarrow>
    once_step fast build i s (s\<lparr>on_pcs := (on_pcs s)(i := Building)\<rparr>)"
| Build: "on_pcs s i = Building \<Longrightarrow> build (on_world s) = (Inr v, g) \<Longrightarrow>
    once_step fast build i s
      (s\<lparr>on_pcs := (on_pcs s)(i := Leaving (Inr v)), on_world := g, on_cell := Some v, on_builds := Suc (on_builds s)\<rparr>)"
| Build_Fails: "on_pcs s i = Building \<Longrightarrow> build (on_world s) = (Inl e, g) \<Longrightarrow>
    once_step fast build i s (s\<lparr>on_pcs := (on_pcs s)(i := Leaving (Inl e)), on_world := g\<rparr>)"
| Release: "on_pcs s i = Leaving r \<Longrightarrow>
    once_step fast build i s (s\<lparr>on_pcs := (on_pcs s)(i := Finished r), on_lock := None\<rparr>)"

declare once_step.intros [intro]

inductive_cases once_stepE: "once_step fast build i s s'"

definition fresh_once :: "'g \<Rightarrow> ('g, 'a) once" where
  "fresh_once g = \<lparr>on_cell = None, on_lock = None, on_pcs = (\<lambda>_. Entering), on_world = g, on_builds = 0\<rparr>"

text \<open>A run, with the callers of its steps.\<close>

inductive runs :: "(nat \<Rightarrow> 's \<Rightarrow> 's \<Rightarrow> bool) \<Rightarrow> nat list \<Rightarrow> 's \<Rightarrow> 's \<Rightarrow> bool"
  for move where
  Start: "runs move [] s s"
| Further: "runs move cs s s1 \<Longrightarrow> move i s1 s2 \<Longrightarrow> runs move (cs @ [i]) s s2"

section \<open>What the callers can rely on\<close>

fun in_lock :: "'a pc \<Rightarrow> bool" where
  "in_lock Checking = True"
| "in_lock Building = True"
| "in_lock (Leaving r) = True"
| "in_lock _ = False"

text \<open>
  The lock is held exactly by the caller inside; somebody builds only while the variable is unset;
  the variable is set exactly after one successful build; and whoever has an object has the one in
  the variable.
\<close>

definition once_ok :: "('g, 'a) once \<Rightarrow> bool" where
  "once_ok s \<longleftrightarrow>
     (\<forall>i. in_lock (on_pcs s i) \<longleftrightarrow> on_lock s = Some i) \<and>
     (\<forall>i. on_pcs s i = Building \<longrightarrow> on_cell s = None) \<and>
     on_builds s = (if on_cell s = None then 0 else 1) \<and>
     (\<forall>i v. on_pcs s i = Leaving (Inr v) \<or> on_pcs s i = Finished (Inr v) \<longrightarrow> on_cell s = Some v)"

lemma once_ok_fresh: "once_ok (fresh_once g)"
  by (simp add: once_ok_def fresh_once_def)

lemma once_ok_step: "once_step fast build i s s' \<Longrightarrow> once_ok s \<Longrightarrow> once_ok s'"
proof (induction rule: once_step.induct)
  case (Build s i v g)
  then have "on_cell s = None" and "\<forall>j. in_lock (on_pcs s j) \<longrightarrow> j = i"
    unfolding once_ok_def by (metis in_lock.simps(2), metis in_lock.simps(2) option.inject)
  with Build show ?case unfolding once_ok_def by (auto split: if_splits)
next
  case (Fast_Hit s i v)
  then have "on_lock s \<noteq> Some i" unfolding once_ok_def by (metis in_lock.simps(4))
  with Fast_Hit show ?case by (auto simp: once_ok_def)
next
  case (Fast_Miss s i)
  then have "on_lock s \<noteq> Some i" unfolding once_ok_def by (metis in_lock.simps(4))
  with Fast_Miss show ?case by (auto simp: once_ok_def)
qed (auto simp: once_ok_def split: if_splits)

text \<open>
  The contract: whatever the build establishes of its object and the world, later builds cannot
  spoil, because there are none.
\<close>

locale single_build =
  fixes build :: "('g, 'a) io" and good :: "'a \<Rightarrow> 'g \<Rightarrow> bool"
  assumes build_good: "build g = (Inr v, g') \<Longrightarrow> good v g'"
begin

lemma good_step:
  assumes "once_step fast build i s s'" and "once_ok s" and "\<forall>v. on_cell s = Some v \<longrightarrow> good v (on_world s)"
  shows "\<forall>v. on_cell s' = Some v \<longrightarrow> good v (on_world s')"
  using assms(1)
proof (cases rule: once_step.cases)
  case (Build v g)
  with build_good show ?thesis by auto
next
  case (Build_Fails e g)
  with assms(2) have "on_cell s = None" by (auto simp: once_ok_def)
  with Build_Fails show ?thesis by simp
qed (use assms(3) in auto)

lemma reached_good:
  assumes "runs (once_step fast build) cs (fresh_once g) s"
  shows "once_ok s \<and> (\<forall>v. on_cell s = Some v \<longrightarrow> good v (on_world s))"
  using assms
proof (induction cs "fresh_once g :: ('g, 'a) once" s rule: runs.induct)
  case Start
  then show ?case by (simp add: once_ok_fresh) (simp add: fresh_once_def)
next
  case (Further cs s1 i s2)
  then show ?case using once_ok_step good_step by blast
qed

lemma instance_shared:
  assumes "runs (once_step fast build) cs (fresh_once g) s" and "on_pcs s i = Finished (Inr v)"
  shows "on_cell s = Some v \<and> good v (on_world s) \<and> on_builds s = 1"
  using reached_good [OF assms(1)] assms(2) by (auto simp: once_ok_def)

end

text \<open>A caller always gets on: the one in_lock if there is one, anybody else otherwise.\<close>

definition calls_left :: "'a pc \<Rightarrow> nat" where
  "calls_left p = (case p of Entering \<Rightarrow> 5 | Waiting \<Rightarrow> 4 | Checking \<Rightarrow> 3 | Building \<Rightarrow> 2 | Leaving _ \<Rightarrow> 1 | Finished _ \<Rightarrow> 0)"

lemma once_moves:
  assumes "once_ok s" and "\<forall>r. on_pcs s i \<noteq> Finished r"
  shows "\<exists>k s'. once_step fast build k s s'"
proof (cases "on_lock s")
  case (Some k)
  with assms(1) have "in_lock (on_pcs s k)" by (simp add: once_ok_def)
  then consider "on_pcs s k = Checking" | "on_pcs s k = Building" | r where "on_pcs s k = Leaving r"
    by (cases "on_pcs s k") auto
  then show ?thesis
  proof cases
    case 1
    then show ?thesis by (cases "on_cell s") blast+
  next
    case 2
    then show ?thesis by (cases "build (on_world s)"; cases "fst (build (on_world s))") auto
  qed blast
next
  case None
  with assms(1) have "\<not> in_lock (on_pcs s i)" by (simp add: once_ok_def)
  with assms(2) consider "on_pcs s i = Entering" | "on_pcs s i = Waiting"
    by (cases "on_pcs s i") auto
  then show ?thesis
  proof cases
    case 1
    then show ?thesis by (cases "fast \<and> on_cell s \<noteq> None") blast+
  next
    case 2
    with None show ?thesis by blast
  qed
qed

lemma once_step_left:
  assumes "once_step fast build i s s'"
  shows "calls_left (on_pcs s' k) + (if k = i then 1 else 0) \<le> calls_left (on_pcs s k)"
  using assms by (cases rule: once_step.cases) (auto simp: calls_left_def)

lemma once_reach_left:
  "runs (once_step fast build) cs s s' \<Longrightarrow> calls_left (on_pcs s' k) + count_list cs k \<le> calls_left (on_pcs s k)"
proof (induction rule: runs.induct)
  case (Further cs s s1 i s2)
  from once_step_left [OF Further.hyps(2), of k] Further.IH show ?case by (auto split: if_splits)
qed simp

lemma once_ok_reach: "runs (once_step fast build) cs s s' \<Longrightarrow> once_ok s \<Longrightarrow> once_ok s'"
  by (induction rule: runs.induct) (auto intro: once_ok_step)

section \<open>The instances built under a lock\<close>

text \<open>
  \<^verbatim>\<open>get_settings\<close>: the world is the list of directories made. Reading the environment is
  pydantic's, \<^verbatim>\<open>mkdir\<close> the file system's.
\<close>

definition make_dir :: "(string \<Rightarrow> exn + unit) \<Rightarrow> string \<Rightarrow> (string list, unit) io" where
  "make_dir mkdir d = bnd (lift_sum (mkdir d)) (\<lambda>_. modifies (\<lambda>ds. ds @ [d]))"

definition build_settings :: "(exn + settings) \<Rightarrow> (string \<Rightarrow> exn + unit) \<Rightarrow> (string list, settings) io" where
  "build_settings read_env mkdir =
     bnd (lift_sum read_env) (\<lambda>s.
     bnd (make_dir mkdir (log_dir s)) (\<lambda>_.
     bnd (make_dir mkdir (chroma_path s)) (\<lambda>_.
     ret s)))"

text \<open>
  \<^verbatim>\<open>configure_logging\<close>: the root logger has a level and handlers; a handler has a target, a
  format and its filters. The handlers that were there before are removed first.
\<close>

datatype log_target = Stdout | Stderr | Log_File string | Other_Target nat

record log_handler =
  lh_target :: log_target
  lh_format :: string
  lh_filters :: "string list"

record root_logger =
  rl_level :: string
  rl_handlers :: "log_handler list"

definition json_format :: string where
  "json_format = ''%(asctime)s %(name)s %(levelname)s %(message)s %(workflow_id)s %(job_id)s''"

definition json_handler :: "log_target \<Rightarrow> log_handler" where
  "json_handler t = \<lparr>lh_target = t, lh_format = json_format, lh_filters = [''CorrelationFilter'']\<rparr>"

definition add_handler :: "log_handler \<Rightarrow> (root_logger, unit) io" where
  "add_handler h = modifies (\<lambda>r. r\<lparr>rl_handlers := rl_handlers r @ [h]\<rparr>)"

definition build_logging :: "(exn + settings) \<Rightarrow> (string \<Rightarrow> exn + unit) \<Rightarrow> (string \<Rightarrow> exn + unit) \<Rightarrow> (root_logger, unit) io" where
  "build_logging settings_of mkdir open_file =
     bnd (lift_sum settings_of) (\<lambda>s.
     bnd (lift_sum (mkdir (log_dir s))) (\<lambda>_.
     bnd (modifies (\<lambda>r. r\<lparr>rl_level := log_level s\<rparr>)) (\<lambda>_.
     bnd (modifies (\<lambda>r. r\<lparr>rl_handlers := []\<rparr>)) (\<lambda>_.
     bnd (add_handler (json_handler Stdout)) (\<lambda>_.
     bnd (lift_sum (open_file (log_dir s @ ''/wiseorder.jsonl''))) (\<lambda>_.
     add_handler (json_handler (Log_File (log_dir s @ ''/wiseorder.jsonl'')))))))))"

text \<open>
  \<^verbatim>\<open>VectorStore()\<close> and \<^verbatim>\<open>get_vector_store\<close>: the client of a path and its collection
  come from Chroma; the world is the list of paths for which a client was made.
\<close>

record 'c vector_store =
  vs_path :: string
  vs_collection :: 'c

definition new_vector_store ::
  "(string \<Rightarrow> string \<Rightarrow> exn + 'c) \<Rightarrow> string option \<Rightarrow> string \<Rightarrow> settings \<Rightarrow> (string list, 'c vector_store) io" where
  "new_vector_store collection_of path collection s =
     (let p = (case path of Some p \<Rightarrow> if p = [] then chroma_path s else p | None \<Rightarrow> chroma_path s) in
      bnd (modifies (\<lambda>ps. ps @ [p])) (\<lambda>_.
      bnd (lift_sum (collection_of p collection)) (\<lambda>c.
      ret \<lparr>vs_path = p, vs_collection = c\<rparr>)))"

definition build_vector_store :: "(string \<Rightarrow> string \<Rightarrow> exn + 'c) \<Rightarrow> settings \<Rightarrow> (string list, 'c vector_store) io" where
  "build_vector_store collection_of s = new_vector_store collection_of None ''wiseorder'' s"

text \<open>
  \<^verbatim>\<open>RedisQueue()\<close>, its lazy \<^verbatim>\<open>client\<close> and \<^verbatim>\<open>close\<close>; the world is the list of
  URLs a connection was made for.
\<close>

record 'c redis_queue =
  rq_url :: string
  rq_client :: "'c option"

definition new_redis_queue :: "string option \<Rightarrow> settings \<Rightarrow> 'c redis_queue" where
  "new_redis_queue url s =
     \<lparr>rq_url = (case url of Some u \<Rightarrow> if u = [] then redis_url s else u | None \<Rightarrow> redis_url s), rq_client = None\<rparr>"

definition queue_client :: "(string \<Rightarrow> exn + 'c) \<Rightarrow> ('c redis_queue \<times> string list, 'c) io" where
  "queue_client from_url =
     bnd (asks fst) (\<lambda>q.
       case rq_client q of
         Some c \<Rightarrow> ret c
       | None \<Rightarrow>
           bnd (lift_sum (from_url (rq_url q))) (\<lambda>c.
           bnd (modifies (\<lambda>(q, us). (q\<lparr>rq_client := Some c\<rparr>, us @ [rq_url q]))) (\<lambda>_.
           ret c)))"

definition queue_close :: "('c \<Rightarrow> exn + unit) \<Rightarrow> ('c redis_queue \<times> string list, unit) io" where
  "queue_close close =
     bnd (asks fst) (\<lambda>q.
       case rq_client q of
         None \<Rightarrow> ret ()
       | Some c \<Rightarrow> bnd (lift_sum (close c)) (\<lambda>_. modifies (\<lambda>(q, us). (q\<lparr>rq_client := None\<rparr>, us))))"

definition build_queue :: "settings \<Rightarrow> (unit, 'c redis_queue) io" where
  "build_queue s = ret (new_redis_queue None s)"

interpretation st: single_build "build_settings read_env mkdir" "\<lambda>s ds. read_env = Inr s \<and> log_dir s \<in> set ds \<and> chroma_path s \<in> set ds"
  by unfold_locales (auto simp: build_settings_def make_dir_def io_defs split: sum.splits prod.splits)

interpretation lg: single_build "build_logging settings_of mkdir open_file"
    "\<lambda>_ r. \<exists>s. settings_of = Inr s \<and> rl_level r = log_level s \<and>
       rl_handlers r = [json_handler Stdout, json_handler (Log_File (log_dir s @ ''/wiseorder.jsonl''))]"
  by unfold_locales (auto simp: build_logging_def add_handler_def io_defs split: sum.splits prod.splits)

interpretation vs: single_build "build_vector_store collection_of s"
    "\<lambda>v ps. vs_path v = chroma_path s \<and> chroma_path s \<in> set ps \<and> collection_of (chroma_path s) ''wiseorder'' = Inr (vs_collection v)"
  by unfold_locales (auto simp: build_vector_store_def new_vector_store_def io_defs Let_def split: sum.splits)

interpretation gq: single_build "build_queue s" "\<lambda>q _. q = new_redis_queue None s"
  by unfold_locales (auto simp: build_queue_def io_defs)

text \<open>The four accessors: all but \<^verbatim>\<open>get_queue\<close> test the variable before they take the lock.\<close>

definition settings_accessor ::
  "(exn + settings) \<Rightarrow> (string \<Rightarrow> exn + unit) \<Rightarrow> nat \<Rightarrow> (string list, settings) once \<Rightarrow> (string list, settings) once \<Rightarrow> bool" where
  "settings_accessor read_env mkdir = once_step True (build_settings read_env mkdir)"

definition get_vector_store :: "(string \<Rightarrow> string \<Rightarrow> exn + 'c) \<Rightarrow> settings \<Rightarrow> nat \<Rightarrow>
    (string list, 'c vector_store) once \<Rightarrow> (string list, 'c vector_store) once \<Rightarrow> bool" where
  "get_vector_store collection_of s = once_step True (build_vector_store collection_of s)"

definition configure_logging :: "(exn + settings) \<Rightarrow> (string \<Rightarrow> exn + unit) \<Rightarrow> (string \<Rightarrow> exn + unit) \<Rightarrow> nat \<Rightarrow>
    (root_logger, unit) once \<Rightarrow> (root_logger, unit) once \<Rightarrow> bool" where
  "configure_logging settings_of mkdir open_file = once_step True (build_logging settings_of mkdir open_file)"

definition get_queue :: "settings \<Rightarrow> nat \<Rightarrow> (unit, 'c redis_queue) once \<Rightarrow> (unit, 'c redis_queue) once \<Rightarrow> bool" where
  "get_queue s = once_step False (build_queue s)"

section \<open>The instances built without a lock\<close>

text \<open>
  \<^verbatim>\<open>get_engine\<close>, \<^verbatim>\<open>get_sessionmaker\<close> and \<^verbatim>\<open>get_gateway\<close> run on the thread
  of the event loop and await nothing, so a call is one step.
\<close>

definition lazily :: "('w \<Rightarrow> 'a option) \<Rightarrow> ('a \<Rightarrow> 'w \<Rightarrow> 'w) \<Rightarrow> ('w, 'a) io \<Rightarrow> ('w, 'a) io" where
  "lazily look put mk =
     bnd (asks look) (\<lambda>c.
       case c of
         Some a \<Rightarrow> ret a
       | None \<Rightarrow> bnd mk (\<lambda>a. bnd (modifies (put a)) (\<lambda>_. ret a)))"

text \<open>The module's two variables, and the URLs for which an engine was made.\<close>

record ('e, 'm) db_cells =
  db_engine :: "'e option"
  db_maker :: "'m option"
  db_urls :: "string list"

definition get_engine :: "(string \<Rightarrow> exn + 'e) \<Rightarrow> settings \<Rightarrow> (('e, 'm) db_cells, 'e) io" where
  "get_engine create s =
     lazily db_engine (\<lambda>e d. d\<lparr>db_engine := Some e\<rparr>)
       (bnd (modifies (\<lambda>d. d\<lparr>db_urls := db_urls d @ [database_url s]\<rparr>)) (\<lambda>_. lift_sum (create (database_url s))))"

definition get_sessionmaker :: "(string \<Rightarrow> exn + 'e) \<Rightarrow> ('e \<Rightarrow> 'm) \<Rightarrow> settings \<Rightarrow> (('e, 'm) db_cells, 'm) io" where
  "get_sessionmaker create mk s =
     lazily db_maker (\<lambda>m d. d\<lparr>db_maker := Some m\<rparr>) (bnd (get_engine create s) (\<lambda>e. ret (mk e)))"

record gateway_config =
  gw_discord_url :: string
  gw_telegram_token :: string
  gw_telegram_chat_id :: string

definition new_gateway :: "settings \<Rightarrow> gateway_config" where
  "new_gateway s =
     \<lparr>gw_discord_url = discord_webhook_url s, gw_telegram_token = telegram_bot_token s,
      gw_telegram_chat_id = telegram_chat_id s\<rparr>"

definition get_gateway :: "settings \<Rightarrow> (gateway_config option, gateway_config) io" where
  "get_gateway s = lazily id (\<lambda>g _. Some g) (ret (new_gateway s))"

lemma lazily_again:
  assumes "lazily look put mk w = (Inr a, w1)" and "\<And>a w. look (put a w) = Some a"
  shows "lazily look put mk' w1 = (Inr a, w1)"
  using assms by (auto simp: lazily_def io_defs split: option.splits prod.splits sum.splits)

text \<open>Whatever is called in whatever order, one engine is made, and the session maker is the one of that engine.\<close>

definition cells_ok :: "(string \<Rightarrow> exn + 'e) \<Rightarrow> ('e \<Rightarrow> 'm) \<Rightarrow> settings \<Rightarrow> ('e, 'm) db_cells \<Rightarrow> bool" where
  "cells_ok create mk s d \<longleftrightarrow>
     (\<forall>e. db_engine d = Some e \<longrightarrow> create (database_url s) = Inr e) \<and>
     (\<forall>m. db_maker d = Some m \<longrightarrow> (\<exists>e. db_engine d = Some e \<and> m = mk e))"

lemma wp_get_engine:
  assumes "cells_ok create mk s d"
  shows "wp (get_engine create s)
    (\<lambda>e d'. cells_ok create mk s d' \<and> db_engine d' = Some e \<and> db_maker d' = db_maker d)
    (\<lambda>_ d'. cells_ok create mk s d' \<and> db_engine d' = db_engine d \<and> db_maker d' = db_maker d) d"
  using assms by (cases "db_engine d") (auto simp: get_engine_def lazily_def cells_ok_def split: sum.splits)

lemma wp_get_sessionmaker:
  assumes "cells_ok create mk s d"
  shows "wp (get_sessionmaker create mk s)
    (\<lambda>m d'. cells_ok create mk s d' \<and> (\<exists>e. create (database_url s) = Inr e \<and> db_engine d' = Some e \<and> m = mk e))
    (\<lambda>_ d'. cells_ok create mk s d') d"
proof (cases "db_maker d")
  case None
  show ?thesis
    unfolding get_sessionmaker_def lazily_def
    by (simp add: None) (rule wp_mono [OF wp_get_engine [OF assms]], auto simp: cells_ok_def)
next
  case (Some m)
  with assms show ?thesis by (auto simp: get_sessionmaker_def lazily_def cells_ok_def)
qed

lemma queue_reconnects:
  assumes "queue_close close (q, us) = (Inr (), (q', us'))" and "from_url (rq_url q) = Inr c"
  shows "queue_client from_url (q', us') = (Inr c, (q'\<lparr>rq_client := Some c\<rparr>, us' @ [rq_url q]))"
  using assms
  by (auto simp: queue_close_def queue_client_def io_defs split: option.splits sum.splits)

section \<open>A first and a second caller\<close>

definition after_two :: "'a \<Rightarrow> 'g \<Rightarrow> ('g, 'a) once" where
  "after_two v g =
     \<lparr>on_cell = Some v, on_lock = None, on_pcs = (\<lambda>_. Entering)(0 := Finished (Inr v), 1 := Finished (Inr v)),
      on_world = g, on_builds = 1\<rparr>"

lemma two_callers:
  assumes "build g = (Inr v, g')"
  shows "runs (once_step True build) [0, 0, 0, 0, 0, 1] (fresh_once g) (after_two v g')"
proof -
  let ?p = "\<lambda>x. (\<lambda>_. Entering)(0 := x)"
  let ?a = "\<lparr>on_cell = None, on_lock = None, on_pcs = ?p Waiting, on_world = g, on_builds = 0\<rparr>"
  let ?b = "\<lparr>on_cell = None, on_lock = Some 0, on_pcs = ?p Checking, on_world = g, on_builds = 0\<rparr>"
  let ?c = "\<lparr>on_cell = None, on_lock = Some 0, on_pcs = ?p Building, on_world = g, on_builds = 0\<rparr>"
  let ?d = "\<lparr>on_cell = Some v, on_lock = Some 0, on_pcs = ?p (Leaving (Inr v)), on_world = g', on_builds = 1\<rparr>"
  let ?e = "\<lparr>on_cell = Some v, on_lock = None, on_pcs = ?p (Finished (Inr v)), on_world = g', on_builds = 1\<rparr>"
  have "once_step True build 0 (fresh_once g) ?a"
    using Fast_Miss [of "fresh_once g" 0 True build] by (simp add: fresh_once_def)
  moreover have "once_step True build 0 ?a ?b" using Acquire [of ?a 0 True build] by simp
  moreover have "once_step True build 0 ?b ?c" using Check_Miss [of ?b 0 True build] by simp
  moreover have "once_step True build 0 ?c ?d" using Build [of ?c 0 build v g' True] assms by simp
  moreover have "once_step True build 0 ?d ?e" using Release [of ?d 0 "Inr v" True build] by simp
  moreover have "once_step True build 1 ?e (after_two v g')"
    using Fast_Hit [of ?e 1 True v build] by (simp add: after_two_def)
  ultimately have "runs (once_step True build) (((((([] @ [0]) @ [0]) @ [0]) @ [0]) @ [0]) @ [1]) (fresh_once g) (after_two v g')"
    by (rule runs.Further [OF runs.Further [OF runs.Further [OF runs.Further [OF runs.Further [OF runs.Further [OF runs.Start]]]]]])
  then show ?thesis by simp
qed

section \<open>Properties\<close>

text \<open>The vector store is shared: however many threads call \<^verbatim>\<open>get_vector_store\<close>, and however
  their steps interleave, those that get a store all get the same one, on the configured path, and
  it was constructed exactly once; a construction that raised is not counted and is tried again.\<close>

theorem vector_store_shared:
  assumes "runs (get_vector_store collection_of s) cs (fresh_once []) st"
    and "on_pcs st i = Finished (Inr v)" and "on_pcs st j = Finished (Inr u)"
  shows "u = v \<and> vs_path v = chroma_path s \<and> collection_of (chroma_path s) ''wiseorder'' = Inr (vs_collection v) \<and>
    on_builds st = 1"
  using vs.instance_shared [OF assms(1) [unfolded get_vector_store_def] assms(2)]
    vs.instance_shared [OF assms(1) [unfolded get_vector_store_def] assms(3)] by auto

theorem vector_store_shared_witness:
  "\<exists>st. runs (get_vector_store (\<lambda>p c. Inr (p, c)) (default_settings ''/srv'')) [0, 0, 0, 0, 0, 1] (fresh_once []) st \<and> on_builds st = 1"
proof -
  let ?s = "default_settings ''/srv''" and ?c = "\<lambda>p c. Inr (p, c) :: exn + string \<times> string"
  let ?v = "\<lparr>vs_path = chroma_path ?s, vs_collection = (chroma_path ?s, ''wiseorder'')\<rparr>"
  have b: "build_vector_store ?c ?s [] = (Inr ?v, [chroma_path ?s])"
    by (simp add: build_vector_store_def new_vector_store_def io_defs Let_def)
  note run = two_callers [of "build_vector_store ?c ?s", OF b, folded get_vector_store_def]
  have "on_pcs (after_two ?v [chroma_path ?s]) 0 = Finished (Inr ?v)" "on_pcs (after_two ?v [chroma_path ?s]) 1 = Finished (Inr ?v)"
    by (simp_all add: after_two_def)
  from vector_store_shared [OF run this] run show ?thesis by blast
qed

text \<open>Logging is configured once: however many threads ask for a logger, and whatever handlers were
  there before or were left by a call that raised, once one call has returned the root logger has
  the configured level and exactly two handlers, standard output and the file in the log directory,
  each with the JSON format and the correlation filter, and no later call adds another.\<close>

theorem logging_configured_once:
  assumes "runs (configure_logging (Inr s) mkdir open_file) cs (fresh_once r) st"
    and "on_pcs st i = Finished (Inr ())"
  shows "rl_level (on_world st) = log_level s \<and>
    rl_handlers (on_world st) = [json_handler Stdout, json_handler (Log_File (log_dir s @ ''/wiseorder.jsonl''))] \<and>
    on_builds st = 1"
  using lg.instance_shared [OF assms(1) [unfolded configure_logging_def] assms(2)] by auto

theorem logging_configured_once_witness:
  "\<exists>st. runs (configure_logging (Inr (default_settings ''/srv'')) (\<lambda>_. Inr ()) (\<lambda>_. Inr ())) [0, 0, 0, 0, 0, 1]
      (fresh_once \<lparr>rl_level = ''WARNING'', rl_handlers = [json_handler (Other_Target 7)]\<rparr>) st \<and>
    length (rl_handlers (on_world st)) = 2"
proof -
  let ?s = "default_settings ''/srv''" and ?r = "\<lparr>rl_level = ''WARNING'', rl_handlers = [json_handler (Other_Target 7)]\<rparr>"
  let ?b = "build_logging (Inr ?s) (\<lambda>_. Inr ()) (\<lambda>_. Inr ())"
  obtain r' where b: "?b ?r = (Inr (), r')"
    by (simp add: build_logging_def add_handler_def io_defs)
  note run = two_callers [of ?b, OF b, folded configure_logging_def]
  have "on_pcs (after_two () r') 0 = Finished (Inr ())" by (simp add: after_two_def)
  from logging_configured_once [OF run this] run show ?thesis by auto
qed

text \<open>A call of a locked accessor returns: no caller makes more than five steps, and as long as a
  call has not returned some caller can step, so no interleaving deadlocks, also when builds raise.\<close>

theorem accessor_calls_return:
  assumes "runs (once_step fast build) cs (fresh_once g) st"
  shows "count_list cs i \<le> 5 \<and> (if \<exists>r. on_pcs st i = Finished r then True else \<exists>k st'. once_step fast build k st st')"
proof -
  have "calls_left (on_pcs st i) + count_list cs i \<le> calls_left (on_pcs (fresh_once g :: ('a, 'b) once) i)"
    by (rule once_reach_left [OF assms])
  then have "count_list cs i \<le> 5" by (simp add: fresh_once_def calls_left_def)
  moreover have "once_ok st" using once_ok_reach [OF assms once_ok_fresh] .
  ultimately show ?thesis using once_moves [of st i] by auto
qed

theorem accessor_calls_return_witness:
  "count_list [0, 0, 0, 0, 0, 1] (0::nat) \<le> 5 \<and>
   (\<exists>k st'. once_step True (ret True) k (after_two True ()) st')"
proof -
  have "runs (once_step True (ret True)) [0, 0, 0, 0, 0, 1] (fresh_once ()) (after_two True ())"
    by (rule two_callers) (simp add: ret_def)
  from accessor_calls_return [OF this, of 0] accessor_calls_return [OF this, of 2] show ?thesis
    by (simp add: after_two_def)
qed

end
