(* ===== verification/Schema.thy ===== *)
theory Schema
  imports Models
begin

text \<open>
  The database schema: the statements of \<^verbatim>\<open>alembic/versions/0001_initial_schema.py\<close>, the
  columns \<^verbatim>\<open>core/memory/models.py\<close> declares, \<^verbatim>\<open>alembic/env.py\<close> and
  \<^verbatim>\<open>init_db\<close> of \<^verbatim>\<open>core/memory/db.py\<close>. Postgres and Alembic are not in the
  repository: what a statement does is the law \<open>ddl_laws\<close>, stated with \<open>apply_ddl\<close>, the
  documented effect of the three statements that occur on the catalogue of tables and indexes.
\<close>

section \<open>Columns and statements\<close>

datatype sql_type = Bigserial | Bigint | Varchar | Text | Jsonb | Timestamptz

datatype on_delete = Cascade | Set_Null

datatype server_default = No_Default | Default_Text string | Default_Json json | Default_Now

record column =
  col_name :: string
  col_type :: sql_type
  col_not_null :: bool
  col_key :: bool
  col_default :: server_default
  col_ref :: "(string \<times> string \<times> on_delete) option"

datatype ddl =
    Create_Table string "column list"
  | Create_Index string string string
  | Drop_Table string

text \<open>A column without constraints, and what the clauses add to it.\<close>

definition plain_col :: "string \<Rightarrow> sql_type \<Rightarrow> column" where
  "plain_col n ty =
     \<lparr>col_name = n, col_type = ty, col_not_null = False, col_key = False, col_default = No_Default, col_ref = None\<rparr>"

definition key_col :: "string \<Rightarrow> column" where
  "key_col n = (plain_col n Bigserial)\<lparr>col_not_null := True, col_key := True\<rparr>"

definition not_null :: "column \<Rightarrow> column" where
  "not_null c = c\<lparr>col_not_null := True\<rparr>"

definition defaults :: "server_default \<Rightarrow> column \<Rightarrow> column" where
  "defaults d c = c\<lparr>col_default := d\<rparr>"

definition refs :: "string \<Rightarrow> on_delete \<Rightarrow> column \<Rightarrow> column" where
  "refs t od c = c\<lparr>col_ref := Some (t, ''id'', od)\<rparr>"

definition revision :: string where
  "revision = ''0001_initial''"

section \<open>The migration\<close>

definition tasks_columns :: "column list" where
  "tasks_columns =
     [key_col ''id'',
      not_null (plain_col ''type'' Text),
      defaults (Default_Text ''pending'') (not_null (plain_col ''status'' Text)),
      defaults (Default_Json (JObj [])) (not_null (plain_col ''payload'' Jsonb)),
      plain_col ''result'' Jsonb,
      plain_col ''error'' Text,
      plain_col ''workflow_id'' Bigint,
      defaults Default_Now (not_null (plain_col ''created_at'' Timestamptz)),
      plain_col ''started_at'' Timestamptz,
      plain_col ''completed_at'' Timestamptz]"

definition workflows_columns :: "column list" where
  "workflows_columns =
     [key_col ''id'',
      not_null (plain_col ''workflow_name'' Text),
      defaults (Default_Json (JList [])) (not_null (plain_col ''task_chain'' Jsonb)),
      defaults (Default_Text ''pending'') (not_null (plain_col ''status'' Text)),
      defaults (Default_Json (JList [])) (not_null (plain_col ''logs'' Jsonb)),
      defaults Default_Now (not_null (plain_col ''created_at'' Timestamptz)),
      plain_col ''completed_at'' Timestamptz]"

definition memory_columns :: "column list" where
  "memory_columns =
     [key_col ''id'',
      not_null (plain_col ''category'' Text),
      not_null (plain_col ''content'' Text),
      plain_col ''embedding_id'' Text,
      defaults (Default_Json (JObj [])) (not_null (plain_col ''metadata'' Jsonb)),
      defaults Default_Now (not_null (plain_col ''created_at'' Timestamptz))]"

definition approvals_columns :: "column list" where
  "approvals_columns =
     [key_col ''id'',
      refs ''workflows'' Cascade (plain_col ''workflow_id'' Bigint),
      refs ''tasks'' Set_Null (plain_col ''task_id'' Bigint),
      not_null (plain_col ''summary'' Text),
      defaults (Default_Json (JObj [])) (not_null (plain_col ''outputs'' Jsonb)),
      defaults (Default_Json (JList [])) (not_null (plain_col ''affected'' Jsonb)),
      defaults (Default_Text ''low'') (not_null (plain_col ''risk_level'' Text)),
      plain_col ''decision'' Text,
      plain_col ''delivered_via'' Text,
      defaults Default_Now (not_null (plain_col ''created_at'' Timestamptz)),
      plain_col ''decided_at'' Timestamptz]"

definition upgrade_statements :: "ddl list" where
  "upgrade_statements =
     [Create_Table ''tasks'' tasks_columns,
      Create_Index ''idx_tasks_status'' ''tasks'' ''status'',
      Create_Index ''idx_tasks_workflow'' ''tasks'' ''workflow_id'',
      Create_Table ''workflows'' workflows_columns,
      Create_Index ''idx_workflows_status'' ''workflows'' ''status'',
      Create_Table ''memory'' memory_columns,
      Create_Index ''idx_memory_category'' ''memory'' ''category'',
      Create_Table ''approvals'' approvals_columns,
      Create_Index ''idx_approvals_decision'' ''approvals'' ''decision'']"

definition downgrade_statements :: "ddl list" where
  "downgrade_statements = [Drop_Table ''approvals'', Drop_Table ''memory'', Drop_Table ''workflows'', Drop_Table ''tasks'']"

section \<open>What the models declare\<close>

text \<open>
  \<^verbatim>\<open>mapped_column\<close>: \<^verbatim>\<open>String\<close> is VARCHAR, an autoincrementing BigInteger key
  BIGSERIAL; a Python-side \<^verbatim>\<open>default=\<close> is no default of the column, a
  \<^verbatim>\<open>server_default\<close> is.
\<close>

definition declared_columns :: "(string \<times> column list) list" where
  "declared_columns =
     [(''tasks'',
       [key_col ''id'',
        not_null (plain_col ''type'' Varchar),
        not_null (plain_col ''status'' Varchar),
        not_null (plain_col ''payload'' Jsonb),
        plain_col ''result'' Jsonb,
        plain_col ''error'' Text,
        plain_col ''workflow_id'' Bigint,
        defaults Default_Now (not_null (plain_col ''created_at'' Timestamptz)),
        plain_col ''started_at'' Timestamptz,
        plain_col ''completed_at'' Timestamptz]),
      (''workflows'',
       [key_col ''id'',
        not_null (plain_col ''workflow_name'' Varchar),
        not_null (plain_col ''task_chain'' Jsonb),
        not_null (plain_col ''status'' Varchar),
        not_null (plain_col ''logs'' Jsonb),
        defaults Default_Now (not_null (plain_col ''created_at'' Timestamptz)),
        plain_col ''completed_at'' Timestamptz]),
      (''memory'',
       [key_col ''id'',
        not_null (plain_col ''category'' Varchar),
        not_null (plain_col ''content'' Text),
        plain_col ''embedding_id'' Varchar,
        not_null (plain_col ''metadata'' Jsonb),
        defaults Default_Now (not_null (plain_col ''created_at'' Timestamptz))]),
      (''approvals'',
       [key_col ''id'',
        refs ''workflows'' Cascade (plain_col ''workflow_id'' Bigint),
        refs ''tasks'' Set_Null (plain_col ''task_id'' Bigint),
        not_null (plain_col ''summary'' Text),
        not_null (plain_col ''outputs'' Jsonb),
        not_null (plain_col ''affected'' Jsonb),
        not_null (plain_col ''risk_level'' Varchar),
        plain_col ''decision'' Varchar,
        plain_col ''delivered_via'' Varchar,
        defaults Default_Now (not_null (plain_col ''created_at'' Timestamptz)),
        plain_col ''decided_at'' Timestamptz])]"

definition declared_indexes :: "(string \<times> string \<times> string) list" where
  "declared_indexes =
     [(''idx_tasks_status'', ''tasks'', ''status''),
      (''idx_tasks_workflow'', ''tasks'', ''workflow_id''),
      (''idx_workflows_status'', ''workflows'', ''status''),
      (''idx_memory_category'', ''memory'', ''category'')]"

section \<open>The database catalogue\<close>

record schema =
  sc_tables :: "(string \<times> column list) list"
  sc_indexes :: "(string \<times> string \<times> string) list"
  sc_revision :: "string option"

text \<open>Tables that refer to a table, and whether a reference has its target.\<close>

definition refers_to :: "string \<Rightarrow> column list \<Rightarrow> bool" where
  "refers_to t cols \<longleftrightarrow> (\<exists>c\<in>set cols. case col_ref c of None \<Rightarrow> False | Some (t', _) \<Rightarrow> t' = t)"

definition ref_present :: "schema \<Rightarrow> column \<Rightarrow> bool" where
  "ref_present s c =
     (case col_ref c of
        None \<Rightarrow> True
      | Some (t, k, _) \<Rightarrow> (case map_of (sc_tables s) t of None \<Rightarrow> False | Some cols \<Rightarrow> k \<in> col_name ` set cols))"

text \<open>
  The effect of a statement on the catalogue, \<open>None\<close> for an error: CREATE .. IF NOT EXISTS of what
  exists does nothing, a foreign key and an index need their target, DROP TABLE IF EXISTS removes
  the table and its indexes and is refused while another table refers to it.
\<close>

fun apply_ddl :: "ddl \<Rightarrow> schema \<Rightarrow> schema option" where
  "apply_ddl (Create_Table t cols) s =
     (if t \<in> fst ` set (sc_tables s) then Some s
      else if \<forall>c\<in>set cols. ref_present s c then Some (s\<lparr>sc_tables := sc_tables s @ [(t, cols)]\<rparr>)
      else None)"
| "apply_ddl (Create_Index i t k) s =
     (if i \<in> fst ` set (sc_indexes s) then Some s
      else (case map_of (sc_tables s) t of
              None \<Rightarrow> None
            | Some cols \<Rightarrow>
                if k \<in> col_name ` set cols then Some (s\<lparr>sc_indexes := sc_indexes s @ [(i, t, k)]\<rparr>) else None))"
| "apply_ddl (Drop_Table t) s =
     (if t \<notin> fst ` set (sc_tables s) then Some s
      else if \<exists>x\<in>set (sc_tables s). fst x \<noteq> t \<and> refers_to t (snd x) then None
      else Some (s\<lparr>sc_tables := filter (\<lambda>x. fst x \<noteq> t) (sc_tables s),
                   sc_indexes := filter (\<lambda>x. fst (snd x) \<noteq> t) (sc_indexes s)\<rparr>))"

fun apply_all :: "ddl list \<Rightarrow> schema \<Rightarrow> schema option" where
  "apply_all [] s = Some s"
| "apply_all (d # ds) s = (case apply_ddl d s of None \<Rightarrow> None | Some s' \<Rightarrow> apply_all ds s')"

text \<open>
  Postgres, SQLAlchemy and Alembic as the migration uses them: \<^verbatim>\<open>op.execute\<close>, the names of
  the tables there are, the commit of the
  transaction, whether the revision is pending, and the stamp that records it as applied.
\<close>

record 'd ddl_ops =
  dd_execute :: "ddl \<Rightarrow> 'd \<Rightarrow> (exn + unit) \<times> 'd"
  dd_tables :: "'d \<Rightarrow> exn + string list"
  dd_commit :: "'d \<Rightarrow> exn + unit"
  dd_pending :: "'d \<Rightarrow> exn + bool"
  dd_stamp :: "string \<Rightarrow> 'd \<Rightarrow> (exn + unit) \<times> 'd"
  vw_schema :: "'d \<Rightarrow> schema"

definition ddl_laws :: "'d ddl_ops \<Rightarrow> bool" where
  "ddl_laws D \<longleftrightarrow>
     (\<forall>st d d'. dd_execute D st d = (Inr (), d') \<longrightarrow> apply_ddl st (vw_schema D d) = Some (vw_schema D d')) \<and>
     (\<forall>d ts. dd_tables D d = Inr ts \<longrightarrow> set ts = fst ` set (sc_tables (vw_schema D d))) \<and>
     (\<forall>d b. dd_pending D d = Inr b \<longrightarrow> b = (sc_revision (vw_schema D d) \<noteq> Some revision)) \<and>
     (\<forall>r d d'. dd_stamp D r d = (Inr (), d') \<longrightarrow> vw_schema D d' = (vw_schema D d)\<lparr>sc_revision := Some r\<rparr>)"

text \<open>Services that raise only where the statement is in error.\<close>

definition ddl_healthy :: "'d ddl_ops \<Rightarrow> bool" where
  "ddl_healthy D \<longleftrightarrow>
     (\<forall>st d. apply_ddl st (vw_schema D d) \<noteq> None \<longrightarrow> (\<exists>d'. dd_execute D st d = (Inr (), d'))) \<and>
     (\<forall>d. \<exists>ts. dd_tables D d = Inr ts) \<and> (\<forall>d. dd_commit D d = Inr ()) \<and> (\<forall>d. \<exists>b. dd_pending D d = Inr b) \<and>
     (\<forall>r d. \<exists>d'. dd_stamp D r d = (Inr (), d'))"

section \<open>Running migrations\<close>

definition execute_all :: "'d ddl_ops \<Rightarrow> ddl list \<Rightarrow> ('d, unit) io" where
  "execute_all D sts = for_each sts (dd_execute D)"

definition upgrade :: "'d ddl_ops \<Rightarrow> ('d, unit) io" where
  "upgrade D = execute_all D upgrade_statements"

definition downgrade :: "'d ddl_ops \<Rightarrow> ('d, unit) io" where
  "downgrade D = execute_all D downgrade_statements"

text \<open>
  \<^verbatim>\<open>with context.begin_transaction()\<close>: Postgres runs DDL in the transaction, so what raises
  leaves the database as it was.
\<close>

definition in_transaction :: "'d ddl_ops \<Rightarrow> ('d, 'a) io \<Rightarrow> ('d, 'a) io" where
  "in_transaction D m =
     (\<lambda>d. case m d of
        (Inl e, _) \<Rightarrow> (Inl e, d)
      | (Inr a, d') \<Rightarrow> (case dd_commit D d' of Inl e \<Rightarrow> (Inl e, d) | Inr _ \<Rightarrow> (Inr a, d')))"

text \<open>
  \<^verbatim>\<open>do_run_migrations\<close>: \<^verbatim>\<open>context.run_migrations()\<close> runs the revisions that are
  pending, here at most the one there is, and stamps them.
\<close>

definition do_run_migrations :: "'d ddl_ops \<Rightarrow> ('d, unit) io" where
  "do_run_migrations D =
     in_transaction D
       (bnd (\<lambda>d. (dd_pending D d, d)) (\<lambda>p.
          if p then thn (upgrade D) (dd_stamp D revision) else ret ()))"

text \<open>
  \<^verbatim>\<open>init_db\<close>: migrations when \<^verbatim>\<open>alembic.ini\<close> is there, otherwise
  \<^verbatim>\<open>create_all\<close> of the models in one transaction (\<^verbatim>\<open>engine.begin()\<close>).
\<close>

definition create_all_statements :: "string list \<Rightarrow> ddl list" where
  "create_all_statements present =
     concat (map (\<lambda>(t, cols). if t \<in> set present then []
         else Create_Table t cols # map (\<lambda>(i, t', k). Create_Index i t' k) (filter (\<lambda>x. fst (snd x) = t) declared_indexes))
       declared_columns)"

definition init_db :: "'d ddl_ops \<Rightarrow> bool \<Rightarrow> ('d, unit) io" where
  "init_db D has_ini =
     (if has_ini then do_run_migrations D
      else in_transaction D (bnd (\<lambda>d. (dd_tables D d, d)) (\<lambda>ts. execute_all D (create_all_statements ts))))"

section \<open>What the statements do to the catalogue\<close>

definition schema_tables :: "(string \<times> column list) list" where
  "schema_tables =
     [(''tasks'', tasks_columns), (''workflows'', workflows_columns), (''memory'', memory_columns), (''approvals'', approvals_columns)]"

definition schema_indexes :: "(string \<times> string \<times> string) list" where
  "schema_indexes =
     [(''idx_tasks_status'', ''tasks'', ''status''), (''idx_tasks_workflow'', ''tasks'', ''workflow_id''),
      (''idx_workflows_status'', ''workflows'', ''status''), (''idx_memory_category'', ''memory'', ''category''),
      (''idx_approvals_decision'', ''approvals'', ''decision'')]"

lemmas schema_defs = schema_tables_def schema_indexes_def tasks_columns_def workflows_columns_def memory_columns_def
  approvals_columns_def key_col_def plain_col_def not_null_def defaults_def refs_def

text \<open>A catalogue that has none of the tables and indexes (others it may have).\<close>

definition untouched :: "schema \<Rightarrow> bool" where
  "untouched s \<longleftrightarrow>
     fst ` set (sc_tables s) \<inter> fst ` set schema_tables = {} \<and>
     fst ` set (sc_indexes s) \<inter> fst ` set schema_indexes = {} \<and>
     (fst \<circ> snd) ` set (sc_indexes s) \<inter> fst ` set schema_tables = {} \<and>
     (\<forall>x\<in>set (sc_tables s). \<forall>t\<in>fst ` set schema_tables. \<not> refers_to t (snd x))"

definition built :: "schema \<Rightarrow> schema" where
  "built s = s\<lparr>sc_tables := sc_tables s @ schema_tables, sc_indexes := sc_indexes s @ schema_indexes\<rparr>"

lemma map_of_append_new: "k \<notin> fst ` set xs \<Longrightarrow> map_of (xs @ ys) k = map_of ys k"
  by (induction xs) auto

lemma column_names:
  "''id'' \<in> col_name ` set tasks_columns" "''status'' \<in> col_name ` set tasks_columns" "''workflow_id'' \<in> col_name ` set tasks_columns"
  "''id'' \<in> col_name ` set workflows_columns" "''status'' \<in> col_name ` set workflows_columns"
  "''category'' \<in> col_name ` set memory_columns" "''decision'' \<in> col_name ` set approvals_columns"
  by (simp_all add: schema_defs)

lemma columns_present:
  "\<forall>c\<in>set tasks_columns. ref_present s c" "\<forall>c\<in>set workflows_columns. ref_present s c" "\<forall>c\<in>set memory_columns. ref_present s c"
  "(\<forall>c\<in>set approvals_columns. ref_present s c) \<longleftrightarrow>
     (case map_of (sc_tables s) ''workflows'' of None \<Rightarrow> False | Some cols \<Rightarrow> ''id'' \<in> col_name ` set cols) \<and>
     (case map_of (sc_tables s) ''tasks'' of None \<Rightarrow> False | Some cols \<Rightarrow> ''id'' \<in> col_name ` set cols)"
  by (simp_all add: schema_defs ref_present_def)

lemma columns_refer:
  "\<not> refers_to t tasks_columns" "\<not> refers_to t workflows_columns" "\<not> refers_to t memory_columns"
  "refers_to t approvals_columns \<longleftrightarrow> t = ''workflows'' \<or> t = ''tasks''"
  by (auto simp add: schema_defs refers_to_def)

lemma upgrade_untouched:
  assumes "untouched s"
  shows "apply_all upgrade_statements s = Some (built s)"
  using assms
  by (simp add: untouched_def built_def upgrade_statements_def schema_tables_def schema_indexes_def map_of_append_new
      columns_present column_names del: map_of_append)

lemma upgrade_built:
  "fst ` set schema_tables \<subseteq> fst ` set (sc_tables s) \<Longrightarrow> fst ` set schema_indexes \<subseteq> fst ` set (sc_indexes s) \<Longrightarrow>
     apply_all upgrade_statements s = Some s"
  by (simp add: upgrade_statements_def schema_tables_def schema_indexes_def)

text \<open>Dropping the last table, to which none of the others refers, takes it and its indexes out.\<close>

lemma drop_last:
  assumes "t \<notin> fst ` set ts" and "\<forall>x\<in>set ts. \<not> refers_to t (snd x)" and "t \<notin> (fst \<circ> snd) ` set js"
    and "\<forall>x\<in>set ks. fst (snd x) = t"
  shows "apply_ddl (Drop_Table t) (s\<lparr>sc_tables := ts @ [(t, cols)], sc_indexes := js @ ks\<rparr>) = Some (s\<lparr>sc_tables := ts, sc_indexes := js\<rparr>)"
proof -
  have "filter (\<lambda>x. fst x \<noteq> t) ts = ts" "filter (\<lambda>x. fst (snd x) \<noteq> t) js = js"
    using assms(1,3) unfolding filter_id_conv by force+
  moreover have "filter (\<lambda>x. fst (snd x) \<noteq> t) ks = []" using assms(4) by simp
  ultimately show ?thesis using assms(2) by auto
qed

lemma downgrade_built:
  assumes "untouched s"
  shows "apply_all downgrade_statements (built s) = Some s"
proof -
  have clear: "t \<notin> fst ` set (sc_tables s)" "t \<notin> (fst \<circ> snd) ` set (sc_indexes s)" "\<forall>x\<in>set (sc_tables s). \<not> refers_to t (snd x)"
    if "t \<in> {''tasks'', ''workflows'', ''memory'', ''approvals''}" for t
  proof -
    have "t \<in> fst ` set schema_tables" using that by (auto simp: schema_tables_def)
    with assms show "t \<notin> fst ` set (sc_tables s)" "t \<notin> (fst \<circ> snd) ` set (sc_indexes s)"
      "\<forall>x\<in>set (sc_tables s). \<not> refers_to t (snd x)" unfolding untouched_def by blast+
  qed
  let ?at = "\<lambda>n m. s\<lparr>sc_tables := sc_tables s @ take n schema_tables, sc_indexes := sc_indexes s @ take m schema_indexes\<rparr>"
  have "apply_ddl (Drop_Table ''approvals'') (?at 4 5) = Some (?at 3 4)"
    using clear [of "''approvals''"] drop_last [where t = "''approvals''" and ts = "sc_tables s @ take 3 schema_tables" and js = "sc_indexes s @ take 4 schema_indexes" and ks = "[(''idx_approvals_decision'', ''approvals'', ''decision'')]" and s = s and cols = approvals_columns]
    by (auto simp: schema_tables_def schema_indexes_def columns_refer numeral_eq_Suc simp del: apply_ddl.simps)
  moreover have "apply_ddl (Drop_Table ''memory'') (?at 3 4) = Some (?at 2 3)"
    using clear [of "''memory''"] drop_last [where t = "''memory''" and ts = "sc_tables s @ take 2 schema_tables" and js = "sc_indexes s @ take 3 schema_indexes" and ks = "[(''idx_memory_category'', ''memory'', ''category'')]" and s = s and cols = memory_columns]
    by (auto simp: schema_tables_def schema_indexes_def columns_refer numeral_eq_Suc simp del: apply_ddl.simps)
  moreover have "apply_ddl (Drop_Table ''workflows'') (?at 2 3) = Some (?at 1 2)"
    using clear [of "''workflows''"] drop_last [where t = "''workflows''" and ts = "sc_tables s @ take 1 schema_tables" and js = "sc_indexes s @ take 2 schema_indexes" and ks = "[(''idx_workflows_status'', ''workflows'', ''status'')]" and s = s and cols = workflows_columns]
    by (auto simp: schema_tables_def schema_indexes_def columns_refer numeral_eq_Suc simp del: apply_ddl.simps)
  moreover have "apply_ddl (Drop_Table ''tasks'') (?at 1 2) = Some s"
    using clear [of "''tasks''"] drop_last [where t = "''tasks''" and ts = "sc_tables s" and js = "sc_indexes s" and ks = "[(''idx_tasks_status'', ''tasks'', ''status''), (''idx_tasks_workflow'', ''tasks'', ''workflow_id'')]" and s = s and cols = tasks_columns]
    by (auto simp: schema_tables_def schema_indexes_def numeral_eq_Suc simp del: apply_ddl.simps)
  moreover have "built s = ?at 4 5" by (simp add: built_def schema_tables_def schema_indexes_def)
  ultimately show ?thesis by (simp add: downgrade_statements_def del: apply_ddl.simps)
qed

section \<open>Runs of the migration\<close>

lemma execute_all_cases:
  assumes "ddl_laws D" and "execute_all D sts d = (out, d')" and "apply_all sts (vw_schema D d) = Some s'"
  shows "case out of Inr _ \<Rightarrow> vw_schema D d' = s' | Inl e \<Rightarrow> \<not> ddl_healthy D"
  using assms(2,3)
proof (induction sts arbitrary: d)
  case Nil
  then show ?case by (auto simp: execute_all_def ret_def)
next
  case (Cons st sts)
  obtain r d1 where r: "dd_execute D st d = (r, d1)" by force
  from Cons.prems(2) obtain s1 where s1: "apply_ddl st (vw_schema D d) = Some s1" "apply_all sts s1 = Some s'"
    by (auto split: option.splits)
  show ?case
  proof (cases r)
    case (Inl e)
    with r s1(1) have "\<not> ddl_healthy D" unfolding ddl_healthy_def by force
    with Cons.prems(1) r Inl show ?thesis by (auto simp: execute_all_def io_defs)
  next
    case (Inr u)
    with r s1(1) assms(1) have "vw_schema D d1 = s1" unfolding ddl_laws_def by fastforce
    with Cons.IH [of d1] Cons.prems(1) r Inr s1(2) show ?thesis by (simp add: execute_all_def io_defs)
  qed
qed

lemma apply_all_append: "apply_all (xs @ ys) s = (case apply_all xs s of None \<Rightarrow> None | Some s' \<Rightarrow> apply_all ys s')"
  by (induction xs arbitrary: s) (auto split: option.splits)

text \<open>The catalogue after the migrations ran on one where the revision is pending or applied.\<close>

definition migratable :: "schema \<Rightarrow> bool" where
  "migratable s \<longleftrightarrow> untouched s \<or> (fst ` set schema_tables \<subseteq> fst ` set (sc_tables s) \<and> fst ` set schema_indexes \<subseteq> fst ` set (sc_indexes s))"

definition at_head :: "schema \<Rightarrow> schema" where
  "at_head s = (if sc_revision s = Some revision then s else (if untouched s then built s else s)\<lparr>sc_revision := Some revision\<rparr>)"

lemma at_head_revision [simp]: "sc_revision (at_head s) = Some revision"
  by (simp add: at_head_def)

lemma at_head_idem [simp]: "at_head (at_head s) = at_head s"
  by (simp add: at_head_def [of "at_head s"])

lemma run_migrations_cases:
  assumes laws: "ddl_laws D" and migratable: "migratable (vw_schema D d)" and run: "do_run_migrations D d = (out, d')"
  shows "case out of Inr _ \<Rightarrow> vw_schema D d' = at_head (vw_schema D d) | Inl e \<Rightarrow> d' = d \<and> \<not> ddl_healthy D"
proof (cases "dd_pending D d")
  case (Inl e)
  then have "\<not> ddl_healthy D" unfolding ddl_healthy_def by (metis Inl_Inr_False)
  with run Inl show ?thesis by (auto simp: do_run_migrations_def in_transaction_def io_defs)
next
  case (Inr p)
  with laws have p: "p \<longleftrightarrow> sc_revision (vw_schema D d) \<noteq> Some revision" unfolding ddl_laws_def by blast
  have sick: "\<not> ddl_healthy D" if "dd_commit D x = Inl e" for x e
    using that unfolding ddl_healthy_def by force
  show ?thesis
  proof (cases p)
    case False
    with run Inr p sick show ?thesis
      by (auto simp: do_run_migrations_def in_transaction_def io_defs at_head_def split: sum.splits)
  next
    case True
    obtain r d1 where r: "upgrade D d = (r, d1)" by force
    have "apply_all upgrade_statements (vw_schema D d) = Some (if untouched (vw_schema D d) then built (vw_schema D d) else vw_schema D d)"
      using migratable upgrade_untouched upgrade_built by (auto simp: migratable_def)
    from execute_all_cases [OF laws r [unfolded upgrade_def] this]
    have r': "case r of Inr _ \<Rightarrow> vw_schema D d1 = (if untouched (vw_schema D d) then built (vw_schema D d) else vw_schema D d)
      | Inl e \<Rightarrow> \<not> ddl_healthy D" .
    obtain q d2 where q: "dd_stamp D revision d1 = (q, d2)" by force
    have q': "case q of Inr _ \<Rightarrow> vw_schema D d2 = (vw_schema D d1)\<lparr>sc_revision := Some revision\<rparr> | Inl e \<Rightarrow> \<not> ddl_healthy D"
      using laws q unfolding ddl_laws_def ddl_healthy_def by (cases q) (auto, metis Inl_Inr_False prod.inject)
    from run Inr True r q sick r' q' p show ?thesis
      by (cases r; cases q) (auto simp: do_run_migrations_def in_transaction_def io_defs at_head_def split: sum.splits)
  qed
qed

section \<open>Rows as the schema sees them\<close>

datatype sql_value = V_Null | V_Int int | V_Text string | V_Json json | V_Time datetime

text \<open>
  What a column can store: BIGINT 64-bit integers, TEXT and JSONB no NUL character, and a null only
  where it is allowed.
\<close>

definition no_nul :: "string \<Rightarrow> bool" where
  "no_nul s \<longleftrightarrow> CHR 0x00 \<notin> set s"

fun json_storable :: "json \<Rightarrow> bool" where
  "json_storable (JStr s) = no_nul s"
| "json_storable (JList xs) = (\<forall>x\<in>set xs. json_storable x)"
| "json_storable (JObj kvs) = (\<forall>kv\<in>set kvs. no_nul (fst kv) \<and> json_storable (snd kv))"
| "json_storable _ = True"

definition bigint_ok :: "int \<Rightarrow> bool" where
  "bigint_ok i \<longleftrightarrow> - (2 ^ 63) \<le> i \<and> i < 2 ^ 63"

fun stores :: "sql_type \<Rightarrow> sql_value \<Rightarrow> bool" where
  "stores Bigserial (V_Int i) = bigint_ok i"
| "stores Bigint (V_Int i) = bigint_ok i"
| "stores Varchar (V_Text s) = no_nul s"
| "stores Text (V_Text s) = no_nul s"
| "stores Jsonb (V_Json j) = json_storable j"
| "stores Timestamptz (V_Time t) = True"
| "stores _ _ = False"

definition fits :: "column \<Rightarrow> sql_value \<Rightarrow> bool" where
  "fits c v = (if v = V_Null then \<not> col_not_null c else stores (col_type c) v)"

definition or_null :: "('a \<Rightarrow> sql_value) \<Rightarrow> 'a option \<Rightarrow> sql_value" where
  "or_null f x = (case x of None \<Rightarrow> V_Null | Some a \<Rightarrow> f a)"

text \<open>The rows of the models, column by column; the attribute \<^verbatim>\<open>meta\<close> is the column \<^verbatim>\<open>metadata\<close>.\<close>

definition task_values :: "task \<Rightarrow> (string \<times> sql_value) list" where
  "task_values r =
     [(''id'', V_Int (task_id r)), (''type'', V_Text (task_type r)), (''status'', V_Text (task_status r)),
      (''payload'', V_Json (task_payload r)), (''result'', or_null V_Json (task_result r)),
      (''error'', or_null V_Text (task_error r)), (''workflow_id'', or_null V_Int (task_workflow_id r)),
      (''created_at'', V_Time (task_created_at r)), (''started_at'', or_null V_Time (task_started_at r)),
      (''completed_at'', or_null V_Time (task_completed_at r))]"

definition workflow_values :: "workflow \<Rightarrow> (string \<times> sql_value) list" where
  "workflow_values r =
     [(''id'', V_Int (wf_id r)), (''workflow_name'', V_Text (workflow_name r)), (''task_chain'', V_Json (JList (wf_task_chain r))),
      (''status'', V_Text (wf_status r)), (''logs'', V_Json (JList (wf_logs r))),
      (''created_at'', V_Time (wf_created_at r)), (''completed_at'', or_null V_Time (wf_completed_at r))]"

definition memory_values :: "memory_row \<Rightarrow> (string \<times> sql_value) list" where
  "memory_values r =
     [(''id'', V_Int (mem_id r)), (''category'', V_Text (mem_category r)), (''content'', V_Text (mem_content r)),
      (''embedding_id'', or_null V_Text (mem_embedding_id r)), (''metadata'', V_Json (JObj (mem_meta r))),
      (''created_at'', V_Time (mem_created_at r))]"

definition approval_values :: "approval \<Rightarrow> (string \<times> sql_value) list" where
  "approval_values r =
     [(''id'', V_Int (apr_id r)), (''workflow_id'', or_null V_Int (apr_workflow_id r)), (''task_id'', or_null V_Int (apr_task_id r)),
      (''summary'', V_Text (apr_summary r)), (''outputs'', V_Json (JObj (apr_outputs r))),
      (''affected'', V_Json (JList (map JStr (apr_affected r)))), (''risk_level'', V_Text (apr_risk_level r)),
      (''decision'', or_null V_Text (apr_decision r)), (''delivered_via'', or_null V_Text (apr_delivered_via r)),
      (''created_at'', V_Time (apr_created_at r)), (''decided_at'', or_null V_Time (apr_decided_at r))]"

definition database :: "tables \<Rightarrow> (string \<times> (string \<times> sql_value) list list) list" where
  "database t =
     [(''tasks'', map task_values (tasks t)), (''workflows'', map workflow_values (workflows t)),
      (''memory'', map memory_values (memories t)), (''approvals'', map approval_values (approvals t))]"

text \<open>
  Rows that satisfy the schema: the columns of the table in order with values that fit, unique
  keys, and references that name a row of their table.
\<close>

definition column_values :: "string \<Rightarrow> (string \<times> sql_value) list list \<Rightarrow> sql_value list" where
  "column_values k rows = map (\<lambda>r. case map_of r k of None \<Rightarrow> V_Null | Some v \<Rightarrow> v) rows"

definition rows_of :: "(string \<times> (string \<times> sql_value) list list) list \<Rightarrow> string \<Rightarrow> (string \<times> sql_value) list list" where
  "rows_of db t = (case map_of db t of None \<Rightarrow> [] | Some rows \<Rightarrow> rows)"

definition column_ok :: "(string \<times> (string \<times> sql_value) list list) list \<Rightarrow> string \<Rightarrow> column \<Rightarrow> bool" where
  "column_ok db t c \<longleftrightarrow>
     (col_key c \<longrightarrow> distinct (column_values (col_name c) (rows_of db t))) \<and>
     (case col_ref c of
        None \<Rightarrow> True
      | Some (t', k, _) \<Rightarrow> \<forall>v\<in>set (column_values (col_name c) (rows_of db t)). v = V_Null \<or> v \<in> set (column_values k (rows_of db t')))"

definition conforms :: "(string \<times> column list) list \<Rightarrow> (string \<times> (string \<times> sql_value) list list) list \<Rightarrow> bool" where
  "conforms ts db \<longleftrightarrow>
     (\<forall>(t, cols)\<in>set ts.
        (\<forall>r\<in>set (rows_of db t). map fst r = map col_name cols \<and> list_all2 fits cols (map snd r)) \<and>
        (\<forall>c\<in>set cols. column_ok db t c))"

text \<open>Rows whose numbers, texts and JSON Postgres can store.\<close>

definition storable :: "tables \<Rightarrow> bool" where
  "storable t \<longleftrightarrow>
     (\<forall>r\<in>set (tasks t). bigint_ok (task_id r) \<and> pred_option bigint_ok (task_workflow_id r) \<and> no_nul (task_type r) \<and>
        no_nul (task_status r) \<and> json_storable (task_payload r) \<and> pred_option json_storable (task_result r) \<and>
        pred_option no_nul (task_error r)) \<and>
     (\<forall>r\<in>set (workflows t). bigint_ok (wf_id r) \<and> no_nul (workflow_name r) \<and> no_nul (wf_status r) \<and>
        (\<forall>j\<in>set (wf_task_chain r) \<union> set (wf_logs r). json_storable j)) \<and>
     (\<forall>r\<in>set (memories t). bigint_ok (mem_id r) \<and> no_nul (mem_category r) \<and> no_nul (mem_content r) \<and>
        pred_option no_nul (mem_embedding_id r) \<and> json_storable (JObj (mem_meta r))) \<and>
     (\<forall>r\<in>set (approvals t). bigint_ok (apr_id r) \<and> pred_option bigint_ok (apr_workflow_id r) \<and>
        pred_option bigint_ok (apr_task_id r) \<and> no_nul (apr_summary r) \<and> json_storable (JObj (apr_outputs r)) \<and>
        (\<forall>a\<in>set (apr_affected r). no_nul a) \<and> no_nul (apr_risk_level r) \<and> pred_option no_nul (apr_decision r) \<and>
        pred_option no_nul (apr_delivered_via r))"

lemma fits_cols:
  "fits (key_col n) (V_Int i) \<longleftrightarrow> bigint_ok i"
  "fits (not_null (plain_col n Text)) (V_Text s) \<longleftrightarrow> no_nul s"
  "fits (not_null (plain_col n Jsonb)) (V_Json j) \<longleftrightarrow> json_storable j"
  "fits (not_null (plain_col n Timestamptz)) (V_Time d)"
  "fits (plain_col n Text) (or_null V_Text x) \<longleftrightarrow> pred_option no_nul x"
  "fits (plain_col n Jsonb) (or_null V_Json y) \<longleftrightarrow> pred_option json_storable y"
  "fits (plain_col n Bigint) (or_null V_Int z) \<longleftrightarrow> pred_option bigint_ok z"
  "fits (plain_col n Timestamptz) (or_null V_Time w)"
  "fits (defaults df c) v = fits c v" "fits (refs t od c) v = fits c v"
  by (simp_all add: fits_def key_col_def not_null_def plain_col_def defaults_def refs_def or_null_def split: option.splits)

lemma col_names [simp]:
  "col_name (key_col n) = n" "col_name (plain_col n ty) = n" "col_name (not_null c) = col_name c"
  "col_name (defaults df c) = col_name c" "col_name (refs t od c) = col_name c"
  by (simp_all add: key_col_def not_null_def plain_col_def defaults_def refs_def)

lemma col_keys [simp]:
  "col_key (key_col n)" "\<not> col_key (plain_col n ty)" "col_key (not_null c) = col_key c"
  "col_key (defaults df c) = col_key c" "col_key (refs t od c) = col_key c"
  "col_ref (key_col n) = None" "col_ref (plain_col n ty) = None" "col_ref (not_null c) = col_ref c"
  "col_ref (defaults df c) = col_ref c" "col_ref (refs t od c) = Some (t, ''id'', od)"
  by (simp_all add: key_col_def not_null_def plain_col_def defaults_def refs_def)

lemma rows_fit:
  "map fst (task_values r) = map col_name tasks_columns" "map fst (workflow_values w) = map col_name workflows_columns"
  "map fst (memory_values m) = map col_name memory_columns" "map fst (approval_values a) = map col_name approvals_columns"
  by (simp_all add: task_values_def tasks_columns_def workflow_values_def workflows_columns_def memory_values_def
      memory_columns_def approval_values_def approvals_columns_def)

lemma values_fit:
  "list_all2 fits tasks_columns (map snd (task_values r)) \<longleftrightarrow>
     bigint_ok (task_id r) \<and> no_nul (task_type r) \<and> no_nul (task_status r) \<and> json_storable (task_payload r) \<and>
     pred_option json_storable (task_result r) \<and> pred_option no_nul (task_error r) \<and> pred_option bigint_ok (task_workflow_id r)"
  "list_all2 fits workflows_columns (map snd (workflow_values w)) \<longleftrightarrow>
     bigint_ok (wf_id w) \<and> no_nul (workflow_name w) \<and> (\<forall>j\<in>set (wf_task_chain w). json_storable j) \<and> no_nul (wf_status w) \<and>
     (\<forall>j\<in>set (wf_logs w). json_storable j)"
  "list_all2 fits memory_columns (map snd (memory_values m)) \<longleftrightarrow>
     bigint_ok (mem_id m) \<and> no_nul (mem_category m) \<and> no_nul (mem_content m) \<and> pred_option no_nul (mem_embedding_id m) \<and>
     json_storable (JObj (mem_meta m))"
  "list_all2 fits approvals_columns (map snd (approval_values a)) \<longleftrightarrow>
     bigint_ok (apr_id a) \<and> pred_option bigint_ok (apr_workflow_id a) \<and> pred_option bigint_ok (apr_task_id a) \<and>
     no_nul (apr_summary a) \<and> json_storable (JObj (apr_outputs a)) \<and> (\<forall>x\<in>set (apr_affected a). no_nul x) \<and>
     no_nul (apr_risk_level a) \<and> pred_option no_nul (apr_decision a) \<and> pred_option no_nul (apr_delivered_via a)"
  by (simp_all add: task_values_def tasks_columns_def workflow_values_def workflows_columns_def memory_values_def
      memory_columns_def approval_values_def approvals_columns_def fits_cols conj_ac del: json_storable.simps(3))

lemma rows_of_database [simp]:
  "rows_of (database t) ''tasks'' = map task_values (tasks t)" "rows_of (database t) ''workflows'' = map workflow_values (workflows t)"
  "rows_of (database t) ''memory'' = map memory_values (memories t)" "rows_of (database t) ''approvals'' = map approval_values (approvals t)"
  by (simp_all add: rows_of_def database_def)

lemma key_values [simp]:
  "column_values ''id'' (map task_values rs) = map V_Int (map task_id rs)"
  "column_values ''id'' (map workflow_values ws) = map V_Int (map wf_id ws)"
  "column_values ''id'' (map memory_values ms) = map V_Int (map mem_id ms)"
  "column_values ''id'' (map approval_values as) = map V_Int (map apr_id as)"
  "column_values ''workflow_id'' (map approval_values as) = map (or_null V_Int) (map apr_workflow_id as)"
  "column_values ''task_id'' (map approval_values as) = map (or_null V_Int) (map apr_task_id as)"
  by (simp_all add: column_values_def task_values_def workflow_values_def memory_values_def approval_values_def)

lemma distinct_V_Int [simp]: "distinct (map V_Int xs) = distinct xs"
  by (simp add: distinct_map inj_on_def)

lemma references_refer:
  "(\<forall>v\<in>set (map (or_null V_Int) xs). v = V_Null \<or> v \<in> set (map V_Int ids)) \<longleftrightarrow> refers xs ids"
  by (auto simp: refers_def or_null_def split: option.splits) 

lemma column_ok_plain:
  "column_ok db t (plain_col n ty)" "column_ok db t (not_null c) = column_ok db t c" "column_ok db t (defaults df c) = column_ok db t c"
  by (simp_all add: column_ok_def split: option.splits)

lemma column_ok_key: "column_ok db t (key_col ''id'') \<longleftrightarrow> distinct (column_values ''id'' (rows_of db t))"
  by (simp add: column_ok_def)

lemma column_ok_ref:
  "column_ok db t (refs t' od (plain_col n ty)) \<longleftrightarrow>
     (\<forall>v\<in>set (column_values n (rows_of db t)). v = V_Null \<or> v \<in> set (column_values ''id'' (rows_of db t')))"
  by (simp add: column_ok_def)

lemma columns_ok:
  "(\<forall>c\<in>set tasks_columns. column_ok (database t) ''tasks'' c) \<longleftrightarrow> distinct (map task_id (tasks t))"
  "(\<forall>c\<in>set workflows_columns. column_ok (database t) ''workflows'' c) \<longleftrightarrow> distinct (map wf_id (workflows t))"
  "(\<forall>c\<in>set memory_columns. column_ok (database t) ''memory'' c) \<longleftrightarrow> distinct (map mem_id (memories t))"
  "(\<forall>c\<in>set approvals_columns. column_ok (database t) ''approvals'' c) \<longleftrightarrow>
     distinct (map apr_id (approvals t)) \<and> refers (map apr_workflow_id (approvals t)) (map wf_id (workflows t)) \<and>
     refers (map apr_task_id (approvals t)) (map task_id (tasks t))"
  unfolding tasks_columns_def workflows_columns_def memory_columns_def approvals_columns_def
  by (simp_all only: list.set ball_simps column_ok_plain column_ok_key column_ok_ref rows_of_database key_values distinct_V_Int
      references_refer simp_thms)

lemma conforms_tables:
  "conforms schema_tables (database t) \<longleftrightarrow>
     (\<forall>r\<in>set (tasks t). list_all2 fits tasks_columns (map snd (task_values r))) \<and>
     (\<forall>r\<in>set (workflows t). list_all2 fits workflows_columns (map snd (workflow_values r))) \<and>
     (\<forall>r\<in>set (memories t). list_all2 fits memory_columns (map snd (memory_values r))) \<and>
     (\<forall>r\<in>set (approvals t). list_all2 fits approvals_columns (map snd (approval_values r))) \<and>
     distinct (map task_id (tasks t)) \<and> distinct (map wf_id (workflows t)) \<and> distinct (map mem_id (memories t)) \<and>
     distinct (map apr_id (approvals t)) \<and> refers (map apr_workflow_id (approvals t)) (map wf_id (workflows t)) \<and>
     refers (map apr_task_id (approvals t)) (map task_id (tasks t))"
  unfolding conforms_def schema_tables_def list.set ball_simps case_prod_conv columns_ok rows_of_database set_map rows_fit
  by blast

section \<open>A catalogue in memory\<close>

definition mem_ddl :: "schema ddl_ops" where
  "mem_ddl =
     \<lparr>dd_execute = (\<lambda>st s. case apply_ddl st s of None \<Rightarrow> (Inl (ServiceError ''ProgrammingError''), s) | Some s' \<Rightarrow> (Inr (), s')),
      dd_tables = (\<lambda>s. Inr (map fst (sc_tables s))), dd_commit = (\<lambda>_. Inr ()),
      dd_pending = (\<lambda>s. Inr (sc_revision s \<noteq> Some revision)),
      dd_stamp = (\<lambda>r s. (Inr (), s\<lparr>sc_revision := Some r\<rparr>)), vw_schema = id\<rparr>"

lemma mem_ddl_laws [simp]: "ddl_laws mem_ddl" "ddl_healthy mem_ddl" "vw_schema mem_ddl s = s"
  by (auto simp: mem_ddl_def ddl_laws_def ddl_healthy_def split: option.splits)

definition empty_schema :: schema where
  "empty_schema = \<lparr>sc_tables = [], sc_indexes = [], sc_revision = None\<rparr>"

lemma empty_untouched [simp]:
  "untouched empty_schema" "sc_tables empty_schema = []" "sc_indexes empty_schema = []"
  by (simp_all add: untouched_def empty_schema_def)

section \<open>Properties\<close>

text \<open>C22: the rows are well typed for the schema: for tables that satisfy the invariant, every row of
  the models has exactly the columns of its table in the migration, with values of the columns'
  types, no null where the column forbids it, unique keys and references that name rows, exactly
  when the approvals' task ids name tasks and the numbers and texts are ones Postgres can store at
  all (64-bit, no NUL character).\<close>

theorem rows_fit_schema:
  assumes "tables_ok t"
  shows "conforms schema_tables (database t) \<longleftrightarrow>
    refers (map apr_task_id (approvals t)) (map task_id (tasks t)) \<and> storable t"
  using assms unfolding conforms_tables values_fit tables_ok_def storable_def by blast

theorem rows_fit_schema_witness:
  "conforms schema_tables (database
     \<lparr>tasks = [], workflows = [(blank_workflow ''commit_pipeline'')\<lparr>wf_id := 1\<rparr>], memories = [],
      approvals = [(blank_approval ''ok'')\<lparr>apr_id := 7, apr_workflow_id := Some 1\<rparr>]\<rparr>)"
  by (subst rows_fit_schema)
    (simp_all add: tables_ok_def blank_defs refers_def storable_def bigint_ok_def no_nul_def)

text \<open>A column up to the spelling of its text type and the Python-side defaults.\<close>

definition modulo_defaults :: "column \<Rightarrow> column" where
  "modulo_defaults c =
     c\<lparr>col_type := (if col_type c = Varchar then Text else col_type c),
       col_default := (if col_default c = Default_Now then Default_Now else No_Default)\<rparr>"

text \<open>C23: the models match the migration: on a catalogue without these tables a migration that returns
  adds exactly its four tables and five indexes, after which the columns are those the models
  declare, in the same order and with the same nullability, keys and references, up to VARCHAR being
  TEXT and the defaults that the models keep on the Python side; the indexes are those the models
  declare and the one on approvals.decision. One that raises met services that failed.\<close>

theorem models_match_migration:
  assumes "ddl_laws D" and "untouched (vw_schema D d)" and "upgrade D d = (out, d')"
  shows "case out of
      Inr _ \<Rightarrow>
        \<exists>ts is. sc_tables (vw_schema D d') = sc_tables (vw_schema D d) @ ts \<and>
          sc_indexes (vw_schema D d') = sc_indexes (vw_schema D d) @ is \<and>
          map (\<lambda>(t, cols). (t, map modulo_defaults cols)) ts =
            map (\<lambda>(t, cols). (t, map modulo_defaults cols)) declared_columns \<and>
          set is = insert (''idx_approvals_decision'', ''approvals'', ''decision'') (set declared_indexes)
    | Inl _ \<Rightarrow> \<not> ddl_healthy D"
proof -
  have "map (\<lambda>(t, cols). (t, map modulo_defaults cols)) schema_tables =
      map (\<lambda>(t, cols). (t, map modulo_defaults cols)) declared_columns"
    by (simp add: schema_defs declared_columns_def modulo_defaults_def)
  moreover have "set schema_indexes = insert (''idx_approvals_decision'', ''approvals'', ''decision'') (set declared_indexes)"
    unfolding schema_indexes_def declared_indexes_def by auto
  ultimately show ?thesis
    using execute_all_cases [OF assms(1) assms(3) [unfolded upgrade_def] upgrade_untouched [OF assms(2)]]
    by (cases out) (auto simp: built_def)
qed

theorem models_match_migration_witness:
  "\<exists>s. upgrade mem_ddl empty_schema = (Inr (), s) \<and> map fst (sc_tables s) = map fst declared_columns"
proof -
  obtain out s where r: "upgrade mem_ddl empty_schema = (out, s)" by force
  from models_match_migration [OF _ _ r] have out: "out = Inr ()" by (cases out) simp_all
  with models_match_migration [OF _ _ r] have
    "map (\<lambda>(t, cols). (t, map modulo_defaults cols)) (sc_tables s) = map (\<lambda>(t, cols). (t, map modulo_defaults cols)) declared_columns"
    by simp
  then have "map fst (map (\<lambda>(t, cols). (t, map modulo_defaults cols)) (sc_tables s)) =
    map fst (map (\<lambda>(t, cols). (t, map modulo_defaults cols)) declared_columns)" by (rule arg_cong)
  then have "map fst (sc_tables s) = map fst declared_columns" by (simp add: comp_def case_prod_unfold)
  with out r show ?thesis by blast
qed

text \<open>The downgrade undoes the upgrade: on a catalogue without these tables (others it may have),
  an upgrade followed by a downgrade leaves it exactly as it was, and neither is refused: when one
  raises, the services failed.\<close>

theorem downgrade_undoes_upgrade:
  assumes "ddl_laws D" and "untouched (vw_schema D d)" and "thn (upgrade D) (downgrade D) d = (out, d')"
  shows "case out of Inr _ \<Rightarrow> vw_schema D d' = vw_schema D d | Inl _ \<Rightarrow> \<not> ddl_healthy D"
proof -
  obtain r d1 where r: "upgrade D d = (r, d1)" by force
  from execute_all_cases [OF assms(1) r [unfolded upgrade_def] upgrade_untouched [OF assms(2)]]
  have c: "case r of Inr _ \<Rightarrow> vw_schema D d1 = built (vw_schema D d) | Inl e \<Rightarrow> \<not> ddl_healthy D" .
  show ?thesis
  proof (cases r)
    case (Inl e)
    with assms(3) r c show ?thesis by (simp add: io_defs split: sum.splits)
  next
    case (Inr u)
    with assms(3) r have "downgrade D d1 = (out, d')" by (simp add: io_defs)
    from execute_all_cases [OF assms(1) this [unfolded downgrade_def]] Inr c downgrade_built [OF assms(2)]
    show ?thesis by simp
  qed
qed

theorem downgrade_undoes_upgrade_witness:
  "\<exists>s'. thn (upgrade mem_ddl) (downgrade mem_ddl) empty_schema = (Inr (), s') \<and> s' = empty_schema"
proof -
  obtain out s where r: "thn (upgrade mem_ddl) (downgrade mem_ddl) empty_schema = (out, s)" by force
  from downgrade_undoes_upgrade [OF _ _ r] r show ?thesis by (cases out) simp_all
qed

text \<open>C24: the start's \<^verbatim>\<open>init_db\<close> is safe to run repeatedly: on a catalogue that has none of the
  tables, or all of them with their indexes (the bootstrap of the database container), it either
  brings the catalogue to the revision or raises and leaves the database exactly as it was, because
  the services failed; and a second run after one that returned changes the catalogue no more.\<close>

theorem init_db_repeatable:
  assumes "ddl_laws D" and "migratable (vw_schema D d)" and "init_db D True d = (out, d')"
    and "init_db D True d' = (out', d'')"
  shows "case out of
      Inr _ \<Rightarrow> vw_schema D d' = at_head (vw_schema D d) \<and> vw_schema D d'' = vw_schema D d'
    | Inl _ \<Rightarrow> d' = d \<and> \<not> ddl_healthy D"
proof (cases out)
  case (Inl e)
  with run_migrations_cases [OF assms(1,2), of out d'] assms(3) show ?thesis by (simp add: init_db_def)
next
  case (Inr u)
  with run_migrations_cases [OF assms(1,2), of out d'] assms(3) have s: "vw_schema D d' = at_head (vw_schema D d)"
    by (simp add: init_db_def)
  have "migratable (at_head (vw_schema D d))"
    using assms(2) unfolding migratable_def at_head_def built_def untouched_def by auto
  with run_migrations_cases [OF assms(1), of d' out' d''] assms(4) s have "vw_schema D d'' = vw_schema D d'"
    by (simp add: init_db_def split: sum.splits)
  with s Inr show ?thesis by simp
qed

theorem init_db_repeatable_witness:
  "\<exists>s. init_db mem_ddl True empty_schema = (Inr (), s) \<and> sc_revision s = Some revision"
proof -
  obtain out s out' s' where r: "init_db mem_ddl True empty_schema = (out, s)" "init_db mem_ddl True s = (out', s')"
    by force
  have "migratable (vw_schema mem_ddl empty_schema)" by (simp add: migratable_def)
  from init_db_repeatable [OF _ this r] r show ?thesis by (cases out) simp_all
qed

end
