(* ===== verification/Log_Config.thy ===== *)
theory Log_Config
  imports Singletons Schema
begin

text \<open>
  The logging system of a process, and what the migrations at a start do to it:
  \<^verbatim>\<open>alembic/env.py\<close> reads the logging sections of \<^verbatim>\<open>alembic.ini\<close> with
  \<^verbatim>\<open>fileConfig\<close>, in the process that calls \<^verbatim>\<open>init_db\<close>.
\<close>

section \<open>The logging system\<close>

text \<open>
  Besides the root logger, the named loggers that were made so far, each with its
  \<^verbatim>\<open>disabled\<close> flag, and \<^verbatim>\<open>_configured\<close>. The loggers of the program have no
  handlers and no level of their own: their records go to the handlers of the root.
\<close>

record log_system =
  ls_root :: root_logger
  ls_loggers :: "(string \<times> bool) list"
  ls_configured :: bool

definition level_number :: "string \<Rightarrow> nat" where
  "level_number l =
     (if l = ''DEBUG'' then 10 else if l = ''INFO'' then 20 else if l = ''WARNING'' then 30
      else if l = ''ERROR'' then 40 else if l = ''CRITICAL'' then 50 else 0)"

text \<open>The handlers that a record of a named logger reaches.\<close>

definition reaches :: "log_system \<Rightarrow> string \<Rightarrow> string \<Rightarrow> log_handler list" where
  "reaches ls name level =
     (if map_of (ls_loggers ls) name = Some True then []
      else if level_number level < level_number (rl_level (ls_root ls)) then []
      else rl_handlers (ls_root ls))"

text \<open>\<^verbatim>\<open>configure_logging\<close> called by one thread, and \<^verbatim>\<open>get_logger\<close>.\<close>

definition ensure_configured ::
  "(exn + settings) \<Rightarrow> (string \<Rightarrow> exn + unit) \<Rightarrow> (string \<Rightarrow> exn + unit) \<Rightarrow> (log_system, unit) io" where
  "ensure_configured settings_of mkdir open_file ls =
     (if ls_configured ls then (Inr (), ls)
      else (case build_logging settings_of mkdir open_file (ls_root ls) of
         (Inl e, rl) \<Rightarrow> (Inl e, ls\<lparr>ls_root := rl\<rparr>)
       | (Inr _, rl) \<Rightarrow> (Inr (), ls\<lparr>ls_root := rl, ls_configured := True\<rparr>)))"

definition make_logger :: "string \<Rightarrow> log_system \<Rightarrow> log_system" where
  "make_logger name ls =
     (if name \<in> fst ` set (ls_loggers ls) then ls else ls\<lparr>ls_loggers := ls_loggers ls @ [(name, False)]\<rparr>)"

definition get_logger ::
  "(exn + settings) \<Rightarrow> (string \<Rightarrow> exn + unit) \<Rightarrow> (string \<Rightarrow> exn + unit) \<Rightarrow> string \<Rightarrow> (log_system, unit) io" where
  "get_logger settings_of mkdir open_file name =
     thn (ensure_configured settings_of mkdir open_file) (modifies (make_logger name))"

section \<open>fileConfig\<close>

text \<open>The logging sections of an ini file: the root's level and handlers, the names of its other loggers.\<close>

record ini_logging =
  ini_level :: string
  ini_handlers :: "log_handler list"
  ini_names :: "string list"

definition is_child :: "string \<Rightarrow> string \<Rightarrow> bool" where
  "is_child name parent \<longleftrightarrow> prefix (parent @ ''.'') name"

text \<open>
  \<^verbatim>\<open>logging.config.fileConfig(path)\<close>, whose \<^verbatim>\<open>disable_existing_loggers\<close> is true by
  default: the root gets the level and the handlers of the file, the loggers that the file names are
  enabled, the children of those that existed are left alone, and every other logger is disabled.
\<close>

definition existing_flag :: "string list \<Rightarrow> string list \<Rightarrow> string \<times> bool \<Rightarrow> string \<times> bool" where
  "existing_flag existing names l =
     (fst l,
      if fst l \<in> set names then False
      else if \<exists>n\<in>set names. n \<in> set existing \<and> is_child (fst l) n then snd l
      else True)"

definition file_config :: "ini_logging \<Rightarrow> log_system \<Rightarrow> log_system" where
  "file_config ini ls =
     fold make_logger (ini_names ini)
       (ls\<lparr>ls_root := \<lparr>rl_level = ini_level ini, rl_handlers = ini_handlers ini\<rparr>,
           ls_loggers := map (existing_flag (map fst (ls_loggers ls)) (ini_names ini)) (ls_loggers ls)\<rparr>)"

text \<open>The logging sections of the repository's \<^verbatim>\<open>alembic.ini\<close>.\<close>

definition alembic_logging :: ini_logging where
  "alembic_logging =
     \<lparr>ini_level = ''WARNING'',
      ini_handlers = [\<lparr>lh_target = Stderr, lh_format = ''%(levelname)-5.5s [%(name)s] %(message)s'', lh_filters = []\<rparr>],
      ini_names = [''sqlalchemy.engine'', ''alembic'']\<rparr>"

section \<open>The environment of the migrations\<close>

text \<open>
  \<^verbatim>\<open>env.py\<close> as \<^verbatim>\<open>command.upgrade\<close> runs it, online: \<^verbatim>\<open>fileConfig\<close> when there is
  a config file, the settings, then the migrations over a connection of its own.
\<close>

definition run_env :: "ini_logging option \<Rightarrow> (exn + settings) \<Rightarrow> (string \<Rightarrow> exn + unit) \<Rightarrow> 'd ddl_ops \<Rightarrow> (log_system \<times> 'd, unit) io" where
  "run_env ini settings_of connect D =
     (\<lambda>(ls, d).
        let ls' = (case ini of None \<Rightarrow> ls | Some i \<Rightarrow> file_config i ls) in
        case settings_of of
          Inl e \<Rightarrow> (Inl e, ls', d)
        | Inr s \<Rightarrow> (case connect (database_url s) of
             Inl e \<Rightarrow> (Inl e, ls', d)
           | Inr _ \<Rightarrow> (case do_run_migrations D d of (r, d') \<Rightarrow> (r, ls', d'))))"

text \<open>\<^verbatim>\<open>init_db\<close> with the logging system it runs in.\<close>

definition init_db_process ::
  "(exn + settings) \<Rightarrow> (string \<Rightarrow> exn + unit) \<Rightarrow> 'd ddl_ops \<Rightarrow> bool \<Rightarrow> (log_system \<times> 'd, unit) io" where
  "init_db_process settings_of connect D has_ini =
     (\<lambda>(ls, d).
        if has_ini then run_env (Some alembic_logging) settings_of connect D (ls, d)
        else (case init_db D False d of (r, d') \<Rightarrow> (r, ls, d')))"

section \<open>What is left of the logging\<close>

lemma make_logger_root [simp]:
  "ls_root (make_logger n ls) = ls_root ls" "ls_configured (make_logger n ls) = ls_configured ls"
  by (simp_all add: make_logger_def)

lemma make_logger_keeps: "map_of (ls_loggers ls) m = Some b \<Longrightarrow> map_of (ls_loggers (make_logger n ls)) m = Some b"
  by (auto simp: make_logger_def weak_map_of_SomeI dest: map_of_SomeD)

lemma make_loggers:
  "ls_root (fold make_logger ns ls) = ls_root ls" "ls_configured (fold make_logger ns ls) = ls_configured ls"
  "map_of (ls_loggers ls) m = Some b \<Longrightarrow> map_of (ls_loggers (fold make_logger ns ls)) m = Some b"
  by (induction ns arbitrary: ls) (auto dest: make_logger_keeps)

lemma map_of_flags: "map_of (map (existing_flag ex ns) ls) m = map_option (\<lambda>b. snd (existing_flag ex ns (m, b))) (map_of ls m)"
  by (induction ls) (auto simp: existing_flag_def)

definition foreign :: "string list \<Rightarrow> string \<Rightarrow> bool" where
  "foreign names n \<longleftrightarrow> n \<notin> set names \<and> (\<forall>p\<in>set names. \<not> is_child n p)"

lemma file_config_disables:
  assumes "n \<in> fst ` set (ls_loggers ls)" and "foreign (ini_names ini) n"
  shows "map_of (ls_loggers (file_config ini ls)) n = Some True"
  unfolding file_config_def
proof (rule make_loggers(3), simp add: map_of_flags)
  from assms(1) obtain b where "map_of (ls_loggers ls) n = Some b" by (metis map_of_eq_None_iff not_None_eq)
  with assms(2) show "\<exists>b. map_of (ls_loggers ls) n = Some b \<and> snd (existing_flag (map fst (ls_loggers ls)) (ini_names ini) (n, b))"
    by (auto simp: existing_flag_def foreign_def)
qed

lemma file_config_root [simp]:
  "ls_root (file_config ini ls) = \<lparr>rl_level = ini_level ini, rl_handlers = ini_handlers ini\<rparr>"
  "ls_configured (file_config ini ls) = ls_configured ls"
  by (simp_all add: file_config_def make_loggers)

text \<open>\<^verbatim>\<open>get_logger\<close> in a configured process adds a logger and touches nothing else.\<close>

lemma get_logger_configured:
  assumes "ls_configured ls" and "get_logger settings_of mkdir open_file n ls = (r, ls')"
  shows "ls' = make_logger n ls"
  using assms by (simp add: get_logger_def ensure_configured_def thn_def bnd_def modifies_def)

lemma run_env_logging:
  assumes "init_db_process settings_of connect D True (ls, d) = (out, ls', d')"
  shows "ls' = file_config alembic_logging ls"
  using assms by (auto simp: init_db_process_def run_env_def Let_def split: sum.splits prod.splits)

text \<open>Any number of later \<^verbatim>\<open>get_logger\<close> calls.\<close>

fun get_loggers ::
  "(exn + settings) \<Rightarrow> (string \<Rightarrow> exn + unit) \<Rightarrow> (string \<Rightarrow> exn + unit) \<Rightarrow> string list \<Rightarrow> (log_system, unit) io" where
  "get_loggers settings_of mkdir open_file [] = ret ()"
| "get_loggers settings_of mkdir open_file (n # ns) =
     thn (get_logger settings_of mkdir open_file n) (get_loggers settings_of mkdir open_file ns)"

lemma get_loggers_configured:
  "ls_configured ls \<Longrightarrow> snd (get_loggers settings_of mkdir open_file ns ls) = fold make_logger ns ls"
proof (induction ns arbitrary: ls)
  case (Cons n ns)
  obtain r ls' where g: "get_logger settings_of mkdir open_file n ls = (r, ls')" by force
  have "r = Inr ()" using g Cons.prems by (simp add: get_logger_def ensure_configured_def thn_def bnd_def modifies_def)
  with g get_logger_configured [OF Cons.prems g] Cons.IH [of "make_logger n ls"] Cons.prems
  show ?case by (simp add: thn_def bnd_def)
qed (simp add: ret_def)

section \<open>Properties\<close>

text \<open>C25: the migrations of a start silence the program's log: once logging is configured and
  \<^verbatim>\<open>init_db\<close> has run with the repository's \<^verbatim>\<open>alembic.ini\<close>, however it ended, no record of any
  logger reaches a file, whatever its level and however many loggers are asked for afterwards, and a
  logger made before, as every module of the program makes one when it is imported, reaches no
  handler at all.\<close>

theorem migrations_silence_log:
  assumes "ls_configured ls" and "init_db_process settings_of connect D True (ls, d) = (out, ls', d')"
    and "n \<in> fst ` set (ls_loggers ls)" and "foreign [''sqlalchemy.engine'', ''alembic''] n"
  shows "(let later = snd (get_loggers settings_of mkdir open_file ns ls') in
    reaches later n level = [] \<and> (\<forall>m. \<forall>h\<in>set (reaches later m level). \<forall>f. lh_target h \<noteq> Log_File f))"
proof -
  have ls': "ls' = file_config alembic_logging ls" by (rule run_env_logging [OF assms(2)])
  then have "snd (get_loggers settings_of mkdir open_file ns ls') = fold make_logger ns ls'"
    using assms(1) by (simp add: get_loggers_configured)
  moreover have "map_of (ls_loggers (fold make_logger ns ls')) n = Some True"
    unfolding ls' by (rule make_loggers(3), rule file_config_disables [OF assms(3)]) (simp add: assms(4) alembic_logging_def)
  ultimately show ?thesis
    by (auto simp: Let_def reaches_def make_loggers ls' alembic_logging_def split: if_splits)
qed

definition running_logs :: log_system where
  "running_logs =
     \<lparr>ls_root = \<lparr>rl_level = ''INFO'', rl_handlers = [json_handler Stdout, json_handler (Log_File ''/srv/logs/wiseorder.jsonl'')]\<rparr>,
      ls_loggers = [(''core.orchestrator.main'', False), (''alembic'', False)], ls_configured = True\<rparr>"

theorem migrations_silence_log_witness:
  "\<exists>out ls' d'. init_db_process (Inr (default_settings ''/srv'')) (\<lambda>_. Inr ()) mem_ddl True (running_logs, empty_schema) = (out, ls', d') \<and>
     reaches running_logs ''core.orchestrator.main'' ''ERROR'' = [json_handler Stdout, json_handler (Log_File ''/srv/logs/wiseorder.jsonl'')] \<and>
     reaches ls' ''core.orchestrator.main'' ''ERROR'' = []"
proof -
  obtain out ls' d' where r: "init_db_process (Inr (default_settings ''/srv'')) (\<lambda>_. Inr ()) mem_ddl True (running_logs, empty_schema) = (out, ls', d')"
    by (metis prod_cases3)
  have "reaches running_logs ''core.orchestrator.main'' ''ERROR'' = [json_handler Stdout, json_handler (Log_File ''/srv/logs/wiseorder.jsonl'')]"
    by (simp add: reaches_def running_logs_def level_number_def)
  moreover have "foreign [''sqlalchemy.engine'', ''alembic''] ''core.orchestrator.main''"
    by (simp add: foreign_def is_child_def)
  ultimately show ?thesis
    using migrations_silence_log [OF _ r, of "''core.orchestrator.main''" "\<lambda>_. Inr ()" "\<lambda>_. Inr ()" "[]" "''ERROR''"] r
    by (simp add: running_logs_def ret_def)
qed

end
