(* ===== verification/Watcher_Setup.thy ===== *)
theory Watcher_Setup
  imports Lifecycle Ci_Watcher Integrity_Watcher
begin

text \<open>
  How the three watchers are set up and told to stop: what their constructors read from the
  environment and the settings, and what a start makes of a value that is not a number.
\<close>

type_synonym environ = "string \<Rightarrow> string option"

section \<open>Numbers from the environment\<close>

text \<open>
  \<^verbatim>\<open>float(text)\<close>. A float is its literal; the grammar is Python's: surrounding white space, a
  sign, a name or digits with single underscores between them, a point, an exponent.
\<close>

definition digit_groups :: "string \<Rightarrow> bool" where
  "digit_groups s \<longleftrightarrow> list_all (\<lambda>g. g \<noteq> [] \<and> list_all is_digit g) (split_on (CHR ''_'') s)"

definition unsigned_part :: "string \<Rightarrow> string" where
  "unsigned_part s = (case s of c # cs \<Rightarrow> if c = CHR ''+'' \<or> c = CHR ''-'' then cs else s | [] \<Rightarrow> [])"

definition mantissa_ok :: "string \<Rightarrow> bool" where
  "mantissa_ok m =
     (case split_on (CHR ''.'') m of
        [a] \<Rightarrow> digit_groups a
      | [a, b] \<Rightarrow> (a = [] \<or> digit_groups a) \<and> (b = [] \<or> digit_groups b) \<and> (a \<noteq> [] \<or> b \<noteq> [])
      | _ \<Rightarrow> False)"

definition float_literal :: "string \<Rightarrow> bool" where
  "float_literal s =
     (let u = py_lower (unsigned_part s)
      in u \<in> {''inf'', ''infinity'', ''nan''} \<or>
         (case split_on (CHR ''e'') u of
            [m] \<Rightarrow> mantissa_ok m
          | [m, e] \<Rightarrow> mantissa_ok m \<and> digit_groups (unsigned_part e)
          | _ \<Rightarrow> False))"

definition py_float :: "string \<Rightarrow> exn + string" where
  "py_float s =
     (if float_literal (py_strip s) then Inr (py_strip s)
      else Inl (ValueError (''could not convert string to float: '' @ py_repr s)))"

text \<open>\<^verbatim>\<open>float(interval_seconds or os.environ.get(name, default))\<close>\<close>

definition poll_interval :: "string option \<Rightarrow> string option \<Rightarrow> string \<Rightarrow> exn + string" where
  "poll_interval arg env_value dflt =
     (case arg of
        Some l \<Rightarrow> if truthy (JFloat l) then Inr l else py_float (case env_value of None \<Rightarrow> dflt | Some v \<Rightarrow> v)
      | None \<Rightarrow> py_float (case env_value of None \<Rightarrow> dflt | Some v \<Rightarrow> v))"

section \<open>The constructors\<close>

record ci_watcher =
  cw_repos :: "string list"
  cw_interval :: string
  cw_state :: ci_state
  cw_stop :: bool

definition setup_ci :: "environ \<Rightarrow> string list option \<Rightarrow> string option \<Rightarrow> exn + ci_watcher" where
  "setup_ci environ repos interval =
     (let rs = configured_repos (case environ ''WISEORDER_CI_REPOS'' of None \<Rightarrow> [] | Some v \<Rightarrow> v) repos in
      case poll_interval interval (environ ''WISEORDER_CI_INTERVAL_SECONDS'') ''600'' of
        Inl e \<Rightarrow> Inl e
      | Inr s \<Rightarrow> Inr \<lparr>cw_repos = rs, cw_interval = s, cw_state = new_ci_watcher rs, cw_stop = False\<rparr>)"

record integrity_watcher =
  iv_protocol_dir :: string
  iv_chain_rel :: string
  iv_interval :: string
  iv_state :: integrity_state
  iv_stop :: bool

text \<open>\<^verbatim>\<open>a or b or c\<close> for texts.\<close>

definition or_text :: "string option \<Rightarrow> string \<Rightarrow> string" where
  "or_text v dflt = (case v of None \<Rightarrow> dflt | Some s \<Rightarrow> if s = [] then dflt else s)"

definition setup_integrity ::
  "environ \<Rightarrow> string \<Rightarrow> string option \<Rightarrow> string option \<Rightarrow> string option \<Rightarrow> exn + integrity_watcher" where
  "setup_integrity environ home protocol_dir chain_rel interval =
     (case poll_interval interval (environ ''WISEORDER_INTEGRITY_INTERVAL_SECONDS'') ''300'' of
        Inl e \<Rightarrow> Inl e
      | Inr s \<Rightarrow>
          Inr \<lparr>iv_protocol_dir = or_text protocol_dir
                 (or_text (environ ''WISEORDER_PROTOCOL_DIR'') (home @ ''/Desktop/wiseorder-protocol'')),
               iv_chain_rel = or_text chain_rel
                 (case environ ''WISEORDER_INTEGRITY_CHAIN_REL'' of None \<Rightarrow> ''chain'' | Some v \<Rightarrow> v),
               iv_interval = s, iv_state = new_integrity_watcher, iv_stop = False\<rparr>)"

text \<open>\<^verbatim>\<open>EventWatcher\<close>: its repositories, whether an observer runs, its handlers.\<close>

record event_watcher =
  ew_repos :: "string list"
  ew_observer :: bool
  ew_handlers :: "git_handler list"

fun resolve_each :: "(string \<Rightarrow> exn + string) \<Rightarrow> string list \<Rightarrow> exn + string list" where
  "resolve_each resolve [] = Inr []"
| "resolve_each resolve (p # ps) =
     (case resolve p of Inl e \<Rightarrow> Inl e
      | Inr q \<Rightarrow> map_sum id ((#) q) (resolve_each resolve ps))"

definition setup_events :: "settings \<Rightarrow> (string \<Rightarrow> exn + string) \<Rightarrow> string list option \<Rightarrow> exn + event_watcher" where
  "setup_events s resolve paths =
     map_sum id (\<lambda>rs. \<lparr>ew_repos = rs, ew_observer = False, ew_handlers = []\<rparr>)
       (resolve_each resolve (case paths of Some ps \<Rightarrow> ps | None \<Rightarrow> watch_paths s))"

section \<open>Stopping them\<close>

definition stop_ci :: "ci_watcher \<Rightarrow> ci_watcher" where
  "stop_ci cw = cw\<lparr>cw_stop := True\<rparr>"

definition stop_integrity :: "integrity_watcher \<Rightarrow> integrity_watcher" where
  "stop_integrity iw = iw\<lparr>iv_stop := True\<rparr>"

text \<open>\<^verbatim>\<open>EventWatcher.stop\<close>, with what stopping and joining the observer raise.\<close>

definition stop_events :: "exn + unit \<Rightarrow> (event_watcher, unit) io" where
  "stop_events halt =
     bnd (asks ew_observer) (\<lambda>running.
       if running then bnd (lift_sum halt) (\<lambda>_. modifies (\<lambda>ew. ew\<lparr>ew_observer := False\<rparr>)) else ret ())"

section \<open>A start with these constructors\<close>

definition set_up :: "environ \<Rightarrow> string \<Rightarrow> string list \<Rightarrow> surroundings \<Rightarrow> surroundings" where
  "set_up environ home repos S =
     S\<lparr>sr_repos := repos,
       sr_new_integrity := map_sum id (\<lambda>_. ()) (setup_integrity environ home None None None),
       sr_new_ci := map_sum id (\<lambda>_. ()) (setup_ci environ None None)\<rparr>"

text \<open>Which values of the environment let the constructors return.\<close>

definition interval_ok :: "string option \<Rightarrow> bool" where
  "interval_ok v \<longleftrightarrow> (case v of None \<Rightarrow> True | Some t \<Rightarrow> float_literal (py_strip t))"

lemma defaults_are_numbers: "float_literal (py_strip ''600'')" "float_literal (py_strip ''300'')"
  by code_simp+

lemma poll_interval_cases:
  assumes "dflt \<in> {''600'', ''300''}"
  shows "(case poll_interval None v dflt of Inl e \<Rightarrow> \<not> interval_ok v \<and> (\<exists>m. e = ValueError m) | Inr s \<Rightarrow> interval_ok v)"
  using assms defaults_are_numbers
  by (auto simp: poll_interval_def py_float_def interval_ok_def split: option.splits)

lemma set_up_cases:
  "(case sr_new_integrity (set_up environ home repos S) of
      Inl e \<Rightarrow> \<not> interval_ok (environ ''WISEORDER_INTEGRITY_INTERVAL_SECONDS'') \<and> (\<exists>m. e = ValueError m)
    | Inr _ \<Rightarrow> interval_ok (environ ''WISEORDER_INTEGRITY_INTERVAL_SECONDS''))"
  "(case sr_new_ci (set_up environ home repos S) of
      Inl e \<Rightarrow> \<not> interval_ok (environ ''WISEORDER_CI_INTERVAL_SECONDS'') \<and> (\<exists>m. e = ValueError m)
    | Inr _ \<Rightarrow> interval_ok (environ ''WISEORDER_CI_INTERVAL_SECONDS''))"
  using poll_interval_cases [of "''300''" "environ ''WISEORDER_INTEGRITY_INTERVAL_SECONDS''"]
    poll_interval_cases [of "''600''" "environ ''WISEORDER_CI_INTERVAL_SECONDS''"]
  by (auto simp: set_up_def setup_integrity_def setup_ci_def Let_def split: sum.splits)

section \<open>Properties\<close>

text \<open>A polling interval that is no number, an empty one included, ends a start half-way: with a
  healthy database and Redis and no repository to watch, the process ends with a ValueError exactly
  if one of the two interval variables is set to something else than a number; its workers run by
  then, and since the start stands before the \<open>try\<close>, nobody has told them to stop, no task is
  awaited and the connection stays open.\<close>

theorem bad_interval_strands_workers:
  assumes "start E init_db n w = (Inr xs, w')"
  shows "if interval_ok (environ ''WISEORDER_INTEGRITY_INTERVAL_SECONDS'') \<and> interval_ok (environ ''WISEORDER_CI_INTERVAL_SECONDS'')
    then \<exists>ems oc. start_all E init_db (set_up environ home [] S) (w, new_orch n) = (Inr ems, w', oc)
    else \<exists>m oc. run_process_main E init_db (set_up environ home [] S) w n = Some (Inl (ValueError m), w', oc) \<and>
      or_workers oc = map worker_name [0..<n] \<and> \<not> or_stop oc \<and> or_awaited oc = [] \<and> or_queue_open oc"
proof -
  let ?S = "set_up environ home [] S"
  have repos: "sr_repos ?S = []" by (simp add: set_up_def)
  have start: "start_all E init_db ?S (w, new_orch n) = (case launch ?S (new_orch n) of (r, oc) \<Rightarrow> (r, w', oc))"
    using assms by (simp add: start_all_def new_orch_def)
  consider (integrity) e where "sr_new_integrity ?S = Inl e" | (ci) e where "sr_new_integrity ?S = Inr ()" "sr_new_ci ?S = Inl e"
    | (both) "sr_new_integrity ?S = Inr ()" "sr_new_ci ?S = Inr ()"
    by (cases "sr_new_integrity ?S"; cases "sr_new_ci ?S") auto
  then show ?thesis
  proof cases
    case integrity
    then have "launch ?S (new_orch n) =
        (Inl e, (new_orch n)\<lparr>or_workers := map worker_name [0..<n], or_watcher := Some False\<rparr>)"
      by (simp add: launch_def repos io_defs new_orch_def)
    with integrity start set_up_cases(1) [of environ home "[]" S] show ?thesis
      by (auto simp: run_process_main_def new_orch_def)
  next
    case ci
    then have "\<exists>oc. launch ?S (new_orch n) = (Inl e, oc) \<and> or_workers oc = map worker_name [0..<n] \<and> \<not> or_stop oc \<and>
        or_awaited oc = [] \<and> or_queue_open oc"
      by (simp add: launch_def repos io_defs new_orch_def)
    with ci start set_up_cases(2) [of environ home "[]" S] show ?thesis
      by (auto simp: run_process_main_def)
  next
    case both
    then have "\<exists>ems oc. launch ?S (new_orch n) = (Inr ems, oc)" by (simp add: launch_def repos io_defs)
    with both start set_up_cases [of environ home "[]" S] show ?thesis by auto
  qed
qed

theorem bad_interval_strands_workers_witness:
  "\<exists>m w' oc. run_process_main (mem_env (open_settings ''secret'') (\<lambda>_ _. Inl TimeoutError) (\<lambda>_ _ _. Inr (200, [])) (\<lambda>_ _ _. Inr ()))
     (ret ()) (set_up [''WISEORDER_CI_INTERVAL_SECONDS'' \<mapsto> ''10 min''] ''/home/op'' [] quiet_surroundings) (mem_world empty_tables) 2 =
     Some (Inl (ValueError m), w', oc) \<and> \<not> or_stop oc"
proof -
  let ?E = "mem_env (open_settings ''secret'') (\<lambda>_ _. Inl TimeoutError) (\<lambda>_ _ _. Inr (200, [])) (\<lambda>_ _ _. Inr ()) :: (mem_redis_state, mem_pg_state, unit) env"
  let ?v = "[''WISEORDER_CI_INTERVAL_SECONDS'' \<mapsto> ''10 min''] :: environ"
  obtain w1 where "start_all ?E (ret ()) quiet_surroundings (mem_world empty_tables, new_orch 2) = (Inr [], w1, launched 2 False)"
    by (rule mem_start [OF empty_tables_ok])
  then obtain xs w' where st: "start ?E (ret ()) 2 (mem_world empty_tables) = (Inr xs, w')"
    by (cases "start ?E (ret ()) 2 (mem_world empty_tables)"; cases "fst (start ?E (ret ()) 2 (mem_world empty_tables))")
      (auto simp: start_all_def new_orch_def)
  have "\<not> float_literal (py_strip ''10 min'')" by code_simp
  then have "\<not> interval_ok (?v ''WISEORDER_CI_INTERVAL_SECONDS'')" by (simp add: interval_ok_def)
  with bad_interval_strands_workers [OF st, of ?v "''/home/op''" quiet_surroundings] show ?thesis by auto
qed

end
