(* ===== verification/Dashboard.thy ===== *)
theory Dashboard
  imports Api History
begin

text \<open>
  The dashboard of \<^verbatim>\<open>api/server.py\<close>: the script of the page, which asks the JSON endpoints
  one after the other and builds the markup of its panels from the replies. A value of the script is
  a \<open>json option\<close>, \<open>None\<close> for \<^verbatim>\<open>undefined\<close>; a panel's markup is the very text the
  template builds. Numbers are printed as the document has them, and the keys of an object in its order.
\<close>

type_synonym js = "json option"

section \<open>Values of the script\<close>

definition and_then :: "exn + 'a \<Rightarrow> ('a \<Rightarrow> exn + 'b) \<Rightarrow> exn + 'b" where
  "and_then r k = (case r of Inl e \<Rightarrow> Inl e | Inr a \<Rightarrow> k a)"

lemma and_then_simps [simp]: "and_then (Inl e) k = Inl e" "and_then (Inr a) k = k a"
  by (simp_all add: and_then_def)

text \<open>\<^verbatim>\<open>String(v)\<close>: the elements of an array are joined with commas, null ones left empty.\<close>

fun js_text :: "json \<Rightarrow> string" and js_elements :: "json list \<Rightarrow> string list" where
  "js_text JNull = ''null''"
| "js_text (JBool b) = (if b then ''true'' else ''false'')"
| "js_text (JInt i) = str_of_int i"
| "js_text (JFloat l) = l"
| "js_text (JStr s) = s"
| "js_text (JList xs) = join '','' (js_elements xs)"
| "js_text (JObj kvs) = ''[object Object]''"
| "js_elements [] = []"
| "js_elements (x # xs) = (if x = JNull then [] else js_text x) # js_elements xs"

text \<open>\<^verbatim>\<open>${v}\<close> in a template, \<^verbatim>\<open>String(v??'')\<close>, and what counts as true.\<close>

definition interp :: "js \<Rightarrow> string" where
  "interp v = (case v of None \<Rightarrow> ''undefined'' | Some x \<Rightarrow> js_text x)"

definition text_or_empty :: "js \<Rightarrow> string" where
  "text_or_empty v = (case v of None \<Rightarrow> [] | Some x \<Rightarrow> if x = JNull then [] else js_text x)"

definition js_truthy :: "js \<Rightarrow> bool" where
  "js_truthy v =
     (case v of None \<Rightarrow> False | Some (JList xs) \<Rightarrow> True | Some (JObj kvs) \<Rightarrow> True | Some x \<Rightarrow> truthy x)"

definition js_or :: "js \<Rightarrow> js \<Rightarrow> js" where
  "js_or a b = (if js_truthy a then a else b)"

text \<open>\<^verbatim>\<open>v.name\<close>, \<^verbatim>\<open>v.toUpperCase()\<close>, \<^verbatim>\<open>v.join(sep)\<close>, \<^verbatim>\<open>v.slice(a,b)\<close>.\<close>

definition js_prop :: "js \<Rightarrow> string \<Rightarrow> exn + js" where
  "js_prop v name =
     (case v of
        None \<Rightarrow> Inl (TypeError (''cannot read '' @ name))
      | Some JNull \<Rightarrow> Inl (TypeError (''cannot read '' @ name))
      | Some (JObj kvs) \<Rightarrow> Inr (map_of kvs name)
      | Some _ \<Rightarrow> Inr None)"

definition js_upper :: "js \<Rightarrow> exn + string" where
  "js_upper v = (case v of Some (JStr s) \<Rightarrow> Inr (py_upper s) | _ \<Rightarrow> Inl (TypeError ''toUpperCase is not a function''))"

definition js_items :: "js \<Rightarrow> exn + json list" where
  "js_items v = (case v of Some (JList xs) \<Rightarrow> Inr xs | _ \<Rightarrow> Inl (TypeError ''not an array''))"

definition js_join :: "string \<Rightarrow> js \<Rightarrow> exn + string" where
  "js_join sep v = and_then (js_items v) (\<lambda>xs. Inr (join sep (js_elements xs)))"

definition js_slice :: "nat \<Rightarrow> nat \<Rightarrow> js \<Rightarrow> exn + string" where
  "js_slice a b v =
     (case v of
        Some (JStr s) \<Rightarrow> Inr (take (b - a) (drop a s))
      | Some (JList xs) \<Rightarrow> Inr (join '','' (js_elements (take (b - a) (drop a xs))))
      | _ \<Rightarrow> Inl (TypeError ''slice is not a function''))"

text \<open>\<^verbatim>\<open>v.length\<close> as a condition.\<close>

definition js_nonempty :: "js \<Rightarrow> exn + bool" where
  "js_nonempty v =
     (case v of
        Some (JList xs) \<Rightarrow> Inr (xs \<noteq> [])
      | Some (JStr s) \<Rightarrow> Inr (s \<noteq> [])
      | _ \<Rightarrow> and_then (js_prop v ''length'') (\<lambda>n. Inr (js_truthy n)))"

text \<open>\<^verbatim>\<open>v.map(f).join('')\<close>\<close>

fun each_text :: "(js \<Rightarrow> exn + string) \<Rightarrow> json list \<Rightarrow> exn + string" where
  "each_text f [] = Inr []"
| "each_text f (x # xs) = and_then (f (Some x)) (\<lambda>h. and_then (each_text f xs) (\<lambda>t. Inr (h @ t)))"

definition map_join :: "(js \<Rightarrow> exn + string) \<Rightarrow> js \<Rightarrow> exn + string" where
  "map_join f v = and_then (js_items v) (each_text f)"

section \<open>JSON.stringify\<close>

definition js_quote_char :: "char \<Rightarrow> string" where
  "js_quote_char c =
     (if c = dquote \<or> c = backslash then [backslash, c]
      else if code c = 10 then [backslash, CHR ''n'']
      else if code c = 13 then [backslash, CHR ''r'']
      else if code c = 9 then [backslash, CHR ''t'']
      else if code c = 12 then [backslash, CHR ''f'']
      else if code c = 8 then [backslash, CHR ''b'']
      else if code c < 32 then [backslash, CHR ''u'', CHR ''0'', CHR ''0''] @ hex2 (code c)
      else [c])"

definition js_quote :: "string \<Rightarrow> string" where
  "js_quote s = dquote # concat (map js_quote_char s) @ [dquote]"

text \<open>The line break and the indentation between the parts, empty without a gap.\<close>

definition line_sep :: "nat \<Rightarrow> nat \<Rightarrow> string" where
  "line_sep gap lvl = (if gap = 0 then [] else newline # replicate (gap * lvl) (CHR '' ''))"

definition wrap :: "nat \<Rightarrow> nat \<Rightarrow> char \<Rightarrow> char \<Rightarrow> string list \<Rightarrow> string" where
  "wrap gap lvl l r parts =
     (if parts = [] then [l, r]
      else l # line_sep gap (Suc lvl) @ join ('','' @ line_sep gap (Suc lvl)) parts @ line_sep gap lvl @ [r])"

fun stringify :: "nat \<Rightarrow> nat \<Rightarrow> json \<Rightarrow> string"
  and stringify_items :: "nat \<Rightarrow> nat \<Rightarrow> json list \<Rightarrow> string list"
  and stringify_entries :: "nat \<Rightarrow> nat \<Rightarrow> (string \<times> json) list \<Rightarrow> string list" where
  "stringify gap d JNull = ''null''"
| "stringify gap d (JBool b) = (if b then ''true'' else ''false'')"
| "stringify gap d (JInt i) = str_of_int i"
| "stringify gap d (JFloat l) = l"
| "stringify gap d (JStr s) = js_quote s"
| "stringify gap d (JList xs) = wrap gap d (CHR ''['') (CHR '']'') (stringify_items gap (Suc d) xs)"
| "stringify gap d (JObj kvs) = wrap gap d (CHR ''{'') (CHR ''}'') (stringify_entries gap (Suc d) kvs)"
| "stringify_items gap d [] = []"
| "stringify_items gap d (x # xs) = stringify gap d x # stringify_items gap d xs"
| "stringify_entries gap d [] = []"
| "stringify_entries gap d ((k, v) # kvs) =
     (js_quote k @ (if gap = 0 then '':'' else '': '') @ stringify gap d v) # stringify_entries gap d kvs"

definition json_text :: "nat \<Rightarrow> js \<Rightarrow> js" where
  "json_text gap v = map_option (\<lambda>x. JStr (stringify gap 0 x)) v"

section \<open>Markup\<close>

definition entity :: "char \<Rightarrow> string" where
  "entity c =
     (if c = CHR ''&'' then ''&amp;'' else if c = CHR ''<'' then ''&lt;'' else if c = CHR ''>'' then ''&gt;''
      else if c = dquote then ''&quot;'' else if c = squote then ''&#39;'' else [c])"

definition esc :: "js \<Rightarrow> string" where
  "esc v = concat (map entity (text_or_empty v))"

definition attr :: "string \<Rightarrow> string \<Rightarrow> string" where
  "attr name v = CHR '' '' # name @ ''='' @ dquote # v @ [dquote]"

definition element :: "string \<Rightarrow> string \<Rightarrow> string \<Rightarrow> string" where
  "element tag attrs body = ''<'' @ tag @ attrs @ ''>'' @ body @ ''</'' @ tag @ ''>''"

abbreviation div_of :: "string \<Rightarrow> string \<Rightarrow> string" where "div_of c \<equiv> element ''div'' (attr ''class'' c)"
abbreviation span_of :: "string \<Rightarrow> string \<Rightarrow> string" where "span_of c \<equiv> element ''span'' (attr ''class'' c)"

definition break_to :: "nat \<Rightarrow> string" where
  "break_to n = newline # replicate n (CHR '' '')"

section \<open>The panels\<close>

definition stat_card :: "string \<Rightarrow> js \<Rightarrow> string" where
  "stat_card title v =
     break_to 4 @ div_of ''card'' (div_of ''k'' title @ element ''pre'' [] (esc (json_text 2 v)))"

definition stats_panel :: "js \<Rightarrow> exn + string" where
  "stats_panel s =
     and_then (js_prop s ''tasks'') (\<lambda>ts. and_then (js_prop s ''workflows'') (\<lambda>wfs.
     and_then (js_prop s ''queues'') (\<lambda>qs. and_then (js_prop s ''vector_count'') (\<lambda>n.
     Inr (stat_card ''TASKS'' ts @ stat_card ''WORKFLOWS'' wfs @ stat_card ''QUEUES'' qs @
       break_to 4 @ div_of ''card'' (div_of ''k'' ''VECTOR MEMORY'' @ div_of ''v'' (interp n @ '' items'')))))))"

definition summary_panel :: "js \<Rightarrow> exn + string" where
  "summary_panel sm =
     and_then (js_prop sm ''available'') (\<lambda>available.
       if js_truthy available then
         and_then (js_prop sm ''date'') (\<lambda>date. and_then (js_prop sm ''summary'') (\<lambda>summary.
         Inr (break_to 4 @ div_of ''card''
           (break_to 6 @ div_of ''k'' (esc (js_or date (Some (JStr [])))) @
            break_to 6 @ element ''pre'' [] (esc (js_or summary (Some (JStr [])))) @
            break_to 4))))
       else
         Inr (div_of ''card k''
           ''no daily summary yet (will be generated at 09:00 UTC; or POST /summary/run-now to force)''))"

definition middle_dot :: char where "middle_dot = CHR 0xB7"

text \<open>The last three checks of the integrity watcher, newest first.\<close>

definition check_line :: "json \<Rightarrow> exn + string" where
  "check_line h =
     and_then (js_prop (Some h) ''ts'') (\<lambda>ts. and_then (js_slice 11 19 ts) (\<lambda>time.
     and_then (js_prop (Some h) ''status'') (\<lambda>status. and_then (js_prop (Some h) ''count'') (\<lambda>count.
     and_then (js_prop (Some h) ''note'') (\<lambda>note.
     Inr (time @ '' '' @ interp status @ '' count='' @ interp count @
       (if js_truthy note then '' note='' @ interp note else [])))))))"

fun check_lines :: "json list \<Rightarrow> exn + string list" where
  "check_lines [] = Inr []"
| "check_lines (h # hs) = and_then (check_line h) (\<lambda>l. and_then (check_lines hs) (\<lambda>ls. Inr (l # ls)))"

definition watchers_panel :: "js \<Rightarrow> exn + string" where
  "watchers_panel wsr =
     and_then (js_prop wsr ''integrity_watcher'') (\<lambda>w. let iw = js_or w (Some (JObj [])) in
     and_then (js_prop iw ''history'') (\<lambda>hist. and_then (js_items (js_or hist (Some (JList [])))) (\<lambda>checks.
     and_then (js_prop iw ''status'') (\<lambda>status.
       if status = Some (JStr ''running'') then
         and_then (js_prop iw ''chain_dir'') (\<lambda>chain_dir. and_then (js_prop iw ''interval_seconds'') (\<lambda>interval.
         and_then (js_prop iw ''last_known_head'') (\<lambda>head. and_then (check_lines (rev (last_n 3 checks))) (\<lambda>ls.
         Inr (break_to 4 @ div_of ''card''
           (break_to 6 @ div_of ''k'' (''integrity_watcher '' @ [middle_dot] @ '' '' @ esc chain_dir @ '' '' @
              [middle_dot] @ '' poll '' @ esc interval @ ''s'') @
            break_to 6 @ element ''div'' [] (''head: '' @ span_of ''v'' (esc (js_or head (Some (JStr ''(none)''))))) @
            break_to 6 @ element ''pre'' [] (esc (Some (JStr (join [newline] ls)))) @
            break_to 4))))))
       else Inr (div_of ''card k'' ''integrity_watcher not running'')))))"

text \<open>The card of a pending approval, from the texts that are put into it.\<close>

definition decide_button :: "string \<Rightarrow> string \<Rightarrow> string \<Rightarrow> string" where
  "decide_button i decision label =
     element ''button'' (attr ''onclick'' (''decide('' @ i @ '','' @ squote # decision @ squote # '')'')) label"

definition approval_html :: "string \<Rightarrow> string \<Rightarrow> string \<Rightarrow> string \<Rightarrow> string \<Rightarrow> string \<Rightarrow> string" where
  "approval_html i risk shout summary outputs files =
     break_to 4 @ div_of ''card''
       (break_to 6 @ element ''div'' []
          (span_of (''risk-'' @ risk) (''['' @ shout @ '']'') @ '' '' @ element ''b'' [] (''#'' @ i) @ '' '' @
            [em_dash] @ '' '' @ summary) @
        break_to 6 @ element ''pre'' [] outputs @
        break_to 6 @ div_of ''k'' (''files: '' @ files) @
        break_to 6 @ element ''div'' (attr ''style'' ''margin-top:8px'')
          (break_to 8 @ decide_button i ''approved'' ''approve'' @
           break_to 8 @ decide_button i ''rejected'' ''reject'' @
           break_to 6) @
        break_to 4)"

definition approval_card :: "js \<Rightarrow> exn + string" where
  "approval_card a =
     and_then (js_prop a ''id'') (\<lambda>i. and_then (js_prop a ''risk_level'') (\<lambda>risk.
     and_then (js_upper risk) (\<lambda>shout. and_then (js_prop a ''summary'') (\<lambda>summary.
     and_then (js_prop a ''outputs'') (\<lambda>outputs. and_then (js_prop a ''affected'') (\<lambda>affected.
     and_then (js_join '', '' (js_or affected (Some (JList [])))) (\<lambda>files.
     Inr (approval_html (interp i) (interp risk) shout (esc summary) (esc (json_text 2 outputs)) (esc (Some (JStr files)))))))))))"

text \<open>A panel of cards, with its text for an empty reply.\<close>

definition cards_or :: "(js \<Rightarrow> exn + string) \<Rightarrow> string \<Rightarrow> js \<Rightarrow> exn + string" where
  "cards_or tile empty_text v =
     and_then (js_nonempty v) (\<lambda>some. if some then map_join tile v else Inr (div_of ''card k'' empty_text))"

definition approvals_panel :: "js \<Rightarrow> exn + string" where
  "approvals_panel = cards_or approval_card ''none pending''"

definition failed_card :: "js \<Rightarrow> exn + string" where
  "failed_card f =
     and_then (js_prop f ''type'') (\<lambda>ty. and_then (js_prop f ''id'') (\<lambda>i. and_then (js_prop f ''attempt'') (\<lambda>attempt.
     and_then (js_prop f ''notes'') (\<lambda>notes. and_then (js_join [newline] (js_or notes (Some (JList [])))) (\<lambda>lines.
     Inr (break_to 4 @ div_of ''card''
       (element ''b'' [] (esc ty) @ '' id='' @ esc i @ '' attempt='' @ interp attempt @
        break_to 6 @ element ''pre'' [] (esc (Some (JStr lines))) @
        break_to 4)))))))"

definition failed_panel :: "js \<Rightarrow> exn + string" where
  "failed_panel = cards_or failed_card ''none''"

text \<open>The cards of a workflow and of a task, from the texts that are put into them.\<close>

definition workflow_html :: "string \<Rightarrow> string \<Rightarrow> string \<Rightarrow> string \<Rightarrow> string \<Rightarrow> string" where
  "workflow_html i name cls status created =
     break_to 4 @ div_of ''card''
       (element ''b'' [] (''#'' @ i) @ '' '' @ name @ '' '' @ [em_dash] @ '' '' @
        span_of (''s-'' @ cls) status @ '' '' @ span_of ''k'' created)"

definition workflow_card :: "js \<Rightarrow> exn + string" where
  "workflow_card w =
     and_then (js_prop w ''id'') (\<lambda>i. and_then (js_prop w ''workflow_name'') (\<lambda>name.
     and_then (js_prop w ''status'') (\<lambda>status. and_then (js_prop w ''created_at'') (\<lambda>created.
     Inr (workflow_html (interp i) (esc name) (interp status) (esc status) (esc (js_or created (Some (JStr [])))))))))"

definition task_html :: "string \<Rightarrow> string \<Rightarrow> string \<Rightarrow> string \<Rightarrow> string option \<Rightarrow> string" where
  "task_html i ty cls status err =
     break_to 4 @ div_of ''card''
       (element ''b'' [] (''#'' @ i) @ '' '' @ ty @ '' '' @ [em_dash] @ '' '' @
        span_of (''s-'' @ cls) status @ '' '' @
        (case err of Some e \<Rightarrow> element ''pre'' (attr ''class'' ''risk-high'') e | None \<Rightarrow> []))"

definition task_card :: "js \<Rightarrow> exn + string" where
  "task_card t =
     and_then (js_prop t ''id'') (\<lambda>i. and_then (js_prop t ''type'') (\<lambda>ty.
     and_then (js_prop t ''status'') (\<lambda>status. and_then (js_prop t ''error'') (\<lambda>err.
     Inr (task_html (interp i) (esc ty) (interp status) (esc status) (if js_truthy err then Some (esc err) else None))))))"

definition log_card :: "js \<Rightarrow> exn + string" where
  "log_card l =
     and_then (js_prop l ''ts'') (\<lambda>ts. and_then (js_prop l ''workflow_id'') (\<lambda>i.
     and_then (js_prop l ''event'') (\<lambda>event. and_then (js_prop l ''data'') (\<lambda>data.
     Inr (break_to 4 @ div_of ''card''
       (span_of ''k'' (esc (js_or ts (Some (JStr [])))) @ '' wf#'' @ interp i @ '' '' @ element ''b'' [] (esc event) @ '' '' @
        element ''pre'' [] (esc (json_text 0 data))))))))"

section \<open>A refresh, and a click\<close>

text \<open>
  The page: the markup of each panel by its element id. A refresh asks one endpoint after the other
  and fills its panel; the first reply that is no JSON, or that a template cannot read, ends it.
\<close>

definition panels :: "(string \<times> string \<times> (js \<Rightarrow> exn + string)) list" where
  "panels =
     [(''stats'', ''/stats'', stats_panel),
      (''summary'', ''/summary/latest'', summary_panel),
      (''watchers'', ''/watchers'', watchers_panel),
      (''approvals'', ''/approvals?pending=true'', approvals_panel),
      (''failed'', ''/queues/failed?limit=10'', failed_panel),
      (''workflows'', ''/workflows?limit=10'', map_join workflow_card),
      (''tasks'', ''/tasks?limit=15'', map_join task_card),
      (''logs'', ''/logs/recent?limit=20'', map_join log_card)]"

fun fill :: "(string \<times> string \<times> (js \<Rightarrow> exn + string)) list \<Rightarrow> (string \<Rightarrow> exn + json) \<Rightarrow>
    (string \<Rightarrow> string) \<Rightarrow> (exn + unit) \<times> (string \<Rightarrow> string)" where
  "fill [] fetch pane = (Inr (), pane)"
| "fill ((el, url, render) # ps) fetch pane =
     (case and_then (fetch url) (\<lambda>v. render (Some v)) of
        Inl e \<Rightarrow> (Inl e, pane)
      | Inr h \<Rightarrow> fill ps fetch (pane(el := h)))"

definition refresh :: "(string \<Rightarrow> exn + json) \<Rightarrow> (string \<Rightarrow> string) \<Rightarrow> (exn + unit) \<times> (string \<Rightarrow> string)" where
  "refresh = fill panels"

text \<open>
  The request of a decision button: it carries no Authorization header, and the page does not look
  at the answer.
\<close>

definition click_decide :: "('r, 'd, 'v) env \<Rightarrow> int \<Rightarrow> string \<Rightarrow> ('r, 'd, 'v, unit) act" where
  "click_decide E i decision = catching (\<lambda>_. True) (thn (decide_approval E None i decision) (ret ())) (\<lambda>_. ret ())"

section \<open>Escaping\<close>

text \<open>How a browser reads the entities back.\<close>

fun decode :: "string \<Rightarrow> string" where
  "decode [] = []"
| "decode (c # cs) =
     (if c \<noteq> CHR ''&'' then c # decode cs
      else if prefix ''amp;'' cs then CHR ''&'' # decode (drop 4 cs)
      else if prefix ''lt;'' cs then CHR ''<'' # decode (drop 3 cs)
      else if prefix ''gt;'' cs then CHR ''>'' # decode (drop 3 cs)
      else if prefix ''quot;'' cs then dquote # decode (drop 5 cs)
      else if prefix ''#39;'' cs then squote # decode (drop 4 cs)
      else c # decode cs)"

definition is_mark :: "char \<Rightarrow> bool" where
  "is_mark c \<longleftrightarrow> c \<in> {CHR ''<'', CHR ''>'', dquote, squote}"

text \<open>The characters of a text that can open or close a tag or an attribute.\<close>

definition marks :: "string \<Rightarrow> string" where
  "marks s = filter is_mark s"

lemma marks_append [simp]: "marks (s @ t) = marks s @ marks t" and marks_Nil [simp]: "marks [] = []"
  by (simp_all add: marks_def)

lemma marks_none: "(\<And>c. c \<in> set s \<Longrightarrow> \<not> is_mark c) \<Longrightarrow> marks s = []"
  by (simp add: marks_def filter_empty_conv)

lemma entity_inert: "c \<in> set (entity d) \<Longrightarrow> \<not> is_mark c"
  by (auto simp: entity_def is_mark_def char_consts split: if_splits)

lemma marks_esc [simp]: "marks (esc v) = []"
  by (rule marks_none) (auto simp: esc_def dest: entity_inert)

lemma decode_entity: "decode (entity c @ s) = c # decode s"
  by (simp add: entity_def char_consts)

lemma decode_entities: "decode (concat (map entity s)) = s"
  by (induction s) (simp_all add: decode_entity)

lemma marks_str_of_int [simp]: "marks (str_of_int i) = []"
proof (rule marks_none)
  fix c assume "c \<in> set (str_of_int i)"
  then have "is_digit c \<or> c = CHR ''-''"
    by (auto simp: str_of_int_def dest: str_of_nat_digits split: if_splits)
  then show "\<not> is_mark c" by (auto simp: is_mark_def is_digit_def char_consts)
qed

lemma upper_risks: "py_upper ''low'' = ''LOW''" "py_upper ''medium'' = ''MEDIUM''" "py_upper ''high'' = ''HIGH''"
  by code_simp+

lemma marks_known_risk:
  assumes "known_risk r"
  shows "marks r = []" and "marks (py_upper r) = []"
proof -
  from assms consider "r = ''low''" | "r = ''medium''" | "r = ''high''" by (auto simp: known_risk_def)
  then have "marks r = [] \<and> marks (py_upper r) = []"
    by cases (simp_all add: upper_risks marks_def is_mark_def char_consts)
  then show "marks r = []" and "marks (py_upper r) = []" by simp_all
qed

text \<open>The marks of an approval's card come from the template alone.\<close>

abbreviation bare_card :: string where
  "bare_card \<equiv> approval_html [] [] [] [] [] []"

lemma marks_Cons: "marks (c # s) = (if is_mark c then c # marks s else marks s)"
  by (simp add: marks_def)

lemma marks_break [simp]: "marks (break_to n) = []"
  by (rule marks_none) (auto simp: break_to_def is_mark_def char_consts)

lemma marks_element [simp]:
  "marks (element tag attrs body) =
     CHR ''<'' # marks tag @ marks attrs @ CHR ''>'' # marks body @ CHR ''<'' # marks tag @ [CHR ''>'']"
  "marks (attr name v) = marks name @ dquote # marks v @ [dquote]"
  by (simp_all add: element_def attr_def is_mark_def char_consts marks_Cons)

lemma marks_button: "marks i = [] \<Longrightarrow> marks (decide_button i d l) = marks (decide_button [] d l)"
  by (simp add: decide_button_def marks_Cons)

lemma marks_approval_html:
  assumes "marks i = []" "marks r = []" "marks u = []" "marks s = []" "marks os = []" "marks fs = []"
  shows "marks (approval_html i r u s os fs) = marks bare_card"
  by (simp add: approval_html_def assms marks_Cons marks_button [OF assms(1)])

lemma approval_card_of_row:
  assumes "approval_row_ok a"
  shows "\<exists>h. approval_card (Some (JObj (approval_dict a))) = Inr h \<and> marks h = marks bare_card"
proof -
  from assms have "known_risk (apr_risk_level a)" by (simp add: approval_row_ok_def)
  from marks_known_risk [OF this] show ?thesis
    by (auto simp: approval_card_def approval_dict_def js_prop_def js_upper_def js_join_def js_items_def js_or_def
        js_truthy_def interp_def intro!: marks_approval_html)
qed

lemma marks_run_status:
  assumes "s \<in> run_statuses"
  shows "marks s = []"
proof -
  from assms consider "s = ''running''" | "s = ''completed''" | "s = ''failed''" | "s = ''interrupted''"
    by (auto simp: run_statuses_def)
  then show ?thesis by cases (simp_all add: marks_def is_mark_def char_consts)
qed

lemma workflow_card_of_row:
  assumes "workflow_row_ok r"
  shows "\<exists>h. workflow_card (Some (JObj (wf_dict r))) = Inr h \<and> marks h = marks (workflow_html [] [] [] [] [])"
proof -
  have "marks (wf_status r) = []" using assms by (simp add: workflow_row_ok_def marks_run_status)
  then show ?thesis
    by (simp add: workflow_card_def workflow_html_def wf_dict_def js_prop_def js_or_def interp_def marks_Cons)
qed

text \<open>The card of a task shows its error, when there is one to show.\<close>

definition shows_error :: "task \<Rightarrow> bool" where
  "shows_error k \<longleftrightarrow> task_error k \<noteq> None \<and> task_error k \<noteq> Some []"

definition bare_task :: "task \<Rightarrow> string" where
  "bare_task k = task_html [] [] [] [] (if shows_error k then Some [] else None)"

lemma task_card_of_row:
  assumes "task_row_ok k"
  shows "\<exists>h. task_card (Some (JObj (task_dict k))) = Inr h \<and> marks h = marks (bare_task k)"
proof -
  have "marks (task_status k) = []" using assms by (simp add: task_row_ok_def marks_run_status)
  then show ?thesis
    by (auto simp: task_card_def task_html_def bare_task_def shows_error_def task_dict_def js_prop_def interp_def marks_Cons
        js_truthy_def opt_str_json_def json_of_option_def split: option.splits)
qed

text \<open>A panel of cards, one by one.\<close>

lemma each_card_of_rows:
  assumes "\<forall>r\<in>set rows. \<exists>h. tile (Some (JObj (view r))) = Inr h \<and> marks h = marks (bare r)"
  shows "\<exists>h. each_text tile (map (\<lambda>r. JObj (view r)) rows) = Inr h \<and> marks h = concat (map (\<lambda>r. marks (bare r)) rows)"
  using assms
proof (induction rows)
  case (Cons r rows)
  then obtain h t where "tile (Some (JObj (view r))) = Inr h" "marks h = marks (bare r)"
    "each_text tile (map (\<lambda>r. JObj (view r)) rows) = Inr t" "marks t = concat (map (\<lambda>r. marks (bare r)) rows)"
    by auto
  then show ?case by simp
qed simp

lemma cards_of_rows:
  assumes "\<forall>r\<in>set rows. \<exists>h. tile (Some (JObj (view r))) = Inr h \<and> marks h = marks (bare r)"
    and "map_join tile (Some (JList (map (\<lambda>r. JObj (view r)) rows))) = Inr html"
  shows "marks html = concat (map (\<lambda>r. marks (bare r)) rows)"
  using each_card_of_rows [OF assms(1)] assms(2) by (auto simp: map_join_def js_items_def)

lemma approvals_panel_of_rows:
  assumes "\<forall>a\<in>set as. approval_row_ok a" and "approvals_panel (Some (JList (map (\<lambda>a. JObj (approval_dict a)) as))) = Inr html"
  shows "marks html = (if as = [] then marks (div_of ''card k'' []) else concat (map (\<lambda>_. marks bare_card) as))"
proof (cases "as = []")
  case True
  have "marks ''none pending'' = []" by (simp add: is_mark_def char_consts marks_Cons)
  with True assms(2) show ?thesis
    by (auto simp: approvals_panel_def cards_or_def js_nonempty_def)
next
  case False
  with assms(2) have "map_join approval_card (Some (JList (map (\<lambda>a. JObj (approval_dict a)) as))) = Inr html"
    by (simp add: approvals_panel_def cards_or_def js_nonempty_def)
  from cards_of_rows [OF _ this, where bare = "\<lambda>_. bare_card"] assms(1) approval_card_of_row False show ?thesis by auto
qed

section \<open>Filling the page\<close>

definition shown :: "(string \<Rightarrow> exn + json) \<Rightarrow> string \<times> string \<times> (js \<Rightarrow> exn + string) \<Rightarrow> exn + string" where
  "shown fetch p = and_then (fetch (fst (snd p))) (\<lambda>v. snd (snd p) (Some v))"

definition shows_ok :: "(string \<Rightarrow> exn + json) \<Rightarrow> string \<times> string \<times> (js \<Rightarrow> exn + string) \<Rightarrow> bool" where
  "shows_ok fetch p \<longleftrightarrow> (\<exists>h. shown fetch p = Inr h)"

definition filled :: "(string \<Rightarrow> exn + json) \<Rightarrow> (string \<times> string \<times> (js \<Rightarrow> exn + string)) list \<Rightarrow> (string \<Rightarrow> string) \<Rightarrow> string \<Rightarrow> string" where
  "filled fetch ps pane el = (case map_of (map (\<lambda>p. (fst p, shown fetch p)) ps) el of Some (Inr h) \<Rightarrow> h | _ \<Rightarrow> pane el)"

lemma filled_Cons:
  assumes "el \<notin> fst ` set ps" and "shown fetch (el, url, render) = Inr h"
  shows "filled fetch ps (pane(el := h)) = filled fetch ((el, url, render) # ps) pane"
proof
  fix x
  have "map_of (map (\<lambda>p. (fst p, shown fetch p)) ps) el = None"
    using assms(1) by (force simp: map_of_eq_None_iff)
  then show "filled fetch ps (pane(el := h)) x = filled fetch ((el, url, render) # ps) pane x"
    using assms(2) by (cases "x = el") (simp_all add: filled_def split: option.splits sum.splits)
qed

lemma fill_outcome:
  assumes "distinct (map fst ps)"
  shows "snd (fill ps fetch pane) = filled fetch (takeWhile (shows_ok fetch) ps) pane \<and>
    (fst (fill ps fetch pane) = Inr () \<longleftrightarrow> list_all (shows_ok fetch) ps)"
  using assms
proof (induction ps arbitrary: pane)
  case Nil
  then show ?case by (simp add: filled_def)
next
  case (Cons p ps)
  obtain el url render where p: "p = (el, url, render)" by (cases p)
  have s: "shown fetch p = and_then (fetch url) (\<lambda>v. render (Some v))" by (simp add: p shown_def)
  show ?case
  proof (cases "shown fetch p")
    case (Inl e)
    with s p show ?thesis by (simp add: shows_ok_def filled_def)
  next
    case (Inr h)
    have "el \<notin> fst ` set (takeWhile (shows_ok fetch) ps)"
      using Cons.prems p by (auto dest: set_takeWhileD)
    then have "filled fetch (takeWhile (shows_ok fetch) ps) (pane(el := h)) =
        filled fetch ((el, url, render) # takeWhile (shows_ok fetch) ps) pane"
      by (rule filled_Cons) (use Inr p in simp)
    moreover have "shows_ok fetch (el, url, render)" using Inr p by (simp add: shows_ok_def)
    moreover have "fill (p # ps) fetch pane = fill ps fetch (pane(el := h))"
      using Inr [unfolded s] p by simp
    ultimately show ?thesis using Cons.IH [of "pane(el := h)"] Cons.prems p by (simp del: fun_upd_apply fill.simps add: fun_upd_def)
  qed
qed

section \<open>Properties\<close>

text \<open>Text from the data is inert: whatever value a template escapes, a browser reads exactly the
  value's text back from it, and it contains no character that could open or close a tag or an
  attribute.\<close>

theorem escaped_text_is_inert:
  "decode (esc v) = text_or_empty v \<and> {CHR ''<'', CHR ''>'', CHR 0x22, CHR 0x27} \<inter> set (esc v) = {}"
proof -
  have "is_mark c" if "c \<in> {CHR ''<'', CHR ''>'', CHR 0x22, CHR 0x27}" for c
    using that by (auto simp: is_mark_def char_consts)
  then have "{CHR ''<'', CHR ''>'', CHR 0x22, CHR 0x27} \<inter> set (esc v) = {}"
    unfolding esc_def by (auto dest: entity_inert)
  then show ?thesis by (simp add: esc_def decode_entities)
qed

text \<open>A refresh fills the panels in order up to the first reply that is no JSON or that a template
  cannot read: exactly the panels before it show their new replies, it and every later one keep their
  old markup, and only a refresh without such a reply ends normally.\<close>

theorem refresh_stops_at_failure:
  "snd (refresh fetch pane) = filled fetch (takeWhile (shows_ok fetch) panels) pane \<and>
   (fst (refresh fetch pane) = Inr () \<longleftrightarrow> list_all (shows_ok fetch) panels)"
  unfolding refresh_def by (rule fill_outcome) (simp add: panels_def)

theorem refresh_stops_at_failure_witness:
  "snd (refresh (\<lambda>u. if u = ''/stats'' then Inr (JObj []) else Inl (JSONDecodeError ''invalid JSON'')) pane) ''logs'' = pane ''logs''"
  unfolding refresh_stops_at_failure [THEN conjunct1]
  by (simp add: panels_def shows_ok_def shown_def filled_def)

text \<open>The decision buttons work exactly while no token is configured: the click's request then does
  to the world what the gateway's decision does; with a token it is refused and nothing happens, and
  the page shows nothing of either.\<close>

theorem buttons_need_open_api:
  "click_decide E i decision w =
     (Inr (), if api_auth_token (cfg E) = [] then snd (decide E i decision w) else w)"
proof -
  have d: "decide_approval E None i decision w = (if api_auth_token (cfg E) = []
    then bnd (decide E i decision) (\<lambda>found. if \<not> found then raise (not_found ''approval'')
      else ret [(''approval_id'', JInt i), (''decision'', JStr decision)]) w
    else (Inl (refusal None), w))"
    unfolding decide_approval_def by (subst gated_cases) (simp add: open_to_def)
  show ?thesis
    by (cases "decide E i decision w"; cases "fst (decide E i decision w)")
      (auto simp: click_decide_def catching_def thn_def bnd_def d ret_def raise_def)
qed

theorem buttons_need_open_api_witness:
  "click_decide token_env 1 ''approved'' (mem_world one_approval) = (Inr (), mem_world one_approval) \<and>
   click_decide quiet_env 1 ''approved'' (mem_world one_approval) =
     (Inr (), snd (decide quiet_env 1 ''approved'' (mem_world one_approval)))"
proof -
  have "api_auth_token (cfg token_env) \<noteq> []" "api_auth_token (cfg quiet_env) = []" by (simp_all add: default_settings_def)
  then show ?thesis
    using buttons_need_open_api [of token_env 1 "''approved''" "mem_world one_approval"]
      buttons_need_open_api [of quiet_env 1 "''approved''" "mem_world one_approval"] by simp
qed

end
