(* ===== verification/Page.thy ===== *)
theory Page
  imports Dashboard
begin

text \<open>
  The dashboard on its own API: each request of a refresh is answered by the endpoint that
  \<^verbatim>\<open>build_app\<close> registers for its path, one after the other on the state of the services; and a
  pressed decision button, which refreshes the page after its request.
\<close>

section \<open>Routing and loading\<close>

text \<open>
  The endpoints behind the addresses that the page asks, with the defaults of the parameters it
  leaves out. \<open>iw\<close> and \<open>ci\<close> are the watchers that the orchestrator has.
\<close>

definition get_route ::
  "('r, 'd, 'v) env \<Rightarrow> (string \<times> string \<times> integrity_state) option \<Rightarrow> (string list \<times> string \<times> ci_state) option \<Rightarrow>
   string \<Rightarrow> ('r, 'd, 'v, json) act" where
  "get_route E iw ci url =
     (if url = ''/stats'' then bnd (stats E) (\<lambda>d. ret (JObj d))
      else if url = ''/summary/latest'' then bnd (latest_daily_summary E) (\<lambda>d. ret (JObj d))
      else if url = ''/watchers'' then ret (JObj (watchers_status iw ci))
      else if url = ''/approvals?pending=true'' then bnd (list_approvals E True 50) (\<lambda>ds. ret (JList (map JObj ds)))
      else if url = ''/queues/failed?limit=10'' then bnd (queues_failed E 10) (\<lambda>ds. ret (JList (map JObj ds)))
      else if url = ''/workflows?limit=10'' then bnd (list_workflows E 10 None) (\<lambda>ds. ret (JList (map JObj ds)))
      else if url = ''/tasks?limit=15'' then bnd (list_tasks E None 15) (\<lambda>ds. ret (JList (map JObj ds)))
      else if url = ''/logs/recent?limit=20'' then bnd (logs_recent E 20) (\<lambda>ds. ret (JList (map JObj ds)))
      else raise (not_found url))"

text \<open>
  The refresh on a server. An exception of an endpoint becomes the plain text of a 500, which is no
  JSON, so the page's request throws.
\<close>

fun load_panels :: "(string \<Rightarrow> ('w, json) io) \<Rightarrow> (string \<times> string \<times> (js \<Rightarrow> exn + string)) list \<Rightarrow>
    ('w \<times> (string \<Rightarrow> string), unit) io" where
  "load_panels server [] = ret ()"
| "load_panels server ((el, url, render) # ps) =
     (\<lambda>(w, pane).
        case server url w of
          (Inl e, w') \<Rightarrow> (Inl (JSONDecodeError ''Internal Server Error''), w', pane)
        | (Inr v, w') \<Rightarrow>
            (case render (Some v) of
               Inl e \<Rightarrow> (Inl e, w', pane)
             | Inr h \<Rightarrow> load_panels server ps (w', pane(el := h))))"

definition live_refresh ::
  "('r, 'd, 'v) env \<Rightarrow> (string \<times> string \<times> integrity_state) option \<Rightarrow> (string list \<times> string \<times> ci_state) option \<Rightarrow>
   (('r, 'd, 'v) world \<times> (string \<Rightarrow> string), unit) io" where
  "live_refresh E iw ci = load_panels (get_route E iw ci) panels"

text \<open>
  The handler of a decision button: the request, and then a refresh whatever came back. The handler
  does not wait for the refresh, so what the refresh throws is nobody's; the page keeps what it filled.
\<close>

definition press ::
  "('r, 'd, 'v) env \<Rightarrow> (string \<times> string \<times> integrity_state) option \<Rightarrow> (string list \<times> string \<times> ci_state) option \<Rightarrow>
   int \<Rightarrow> string \<Rightarrow> (('r, 'd, 'v) world \<times> (string \<Rightarrow> string), unit) io" where
  "press E iw ci i decision =
     (\<lambda>(w, pane). (Inr (), snd (live_refresh E iw ci (snd (click_decide E i decision w), pane))))"

section \<open>What an action gives\<close>

definition gives :: "('w, 'a) io \<Rightarrow> ('a \<Rightarrow> bool) \<Rightarrow> bool" where
  "gives m P \<longleftrightarrow> (\<forall>w a w'. m w = (Inr a, w') \<longrightarrow> P a)"

lemma gives_ret: "P a \<Longrightarrow> gives (ret a) P"
  by (simp add: gives_def ret_def)

lemma gives_raise: "gives (raise e) P"
  by (simp add: gives_def raise_def)

lemma gives_bnd: "gives m Q \<Longrightarrow> (\<And>a. Q a \<Longrightarrow> gives (k a) P) \<Longrightarrow> gives (bnd m k) P"
  by (auto simp: gives_def bnd_def split: prod.splits sum.splits) blast

lemma gives_any: "gives m (\<lambda>_. True)"
  by (simp add: gives_def)

lemma gives_scope: "gives m P \<Longrightarrow> gives (session_scope E m) P"
  by (auto simp: gives_def session_scope_def thn_def bnd_def catching_def raise_def ret_def modifies_def
      split: prod.splits sum.splits if_splits)

lemma gives_session_rows: "gives (session_scope E (bnd m (\<lambda>n. bnd (sel n) (\<lambda>rows. ret (map f rows))))) (\<lambda>ds. \<exists>rows. ds = map f rows)"
  by (rule gives_scope gives_bnd [OF gives_any] gives_ret)+ blast

text \<open>The lists that the endpoints answer are views of rows.\<close>

lemma gives_lists:
  "gives (list_approvals E pending n) (\<lambda>ds. \<exists>rows. ds = map approval_dict rows)"
  "gives (list_workflows E n status) (\<lambda>ds. \<exists>rows. ds = map wf_dict rows)"
  "gives (list_tasks E status n) (\<lambda>ds. \<exists>rows. ds = map task_dict rows)"
  "gives (queues_failed E n) (\<lambda>ds. \<exists>js. ds = map job_dict js)"
  unfolding list_approvals_def list_workflows_def list_tasks_def queues_failed_def
  by (rule gives_session_rows gives_bnd [OF gives_any] gives_ret exI refl)+

section \<open>Templates read what the endpoints answer\<close>

lemma each_text_total: "(\<And>x. x \<in> set xs \<Longrightarrow> \<exists>h. f (Some x) = Inr h) \<Longrightarrow> \<exists>h. each_text f xs = Inr h"
proof (induction xs)
  case (Cons x xs)
  from Cons.IH Cons.prems obtain t where "each_text f xs = Inr t" by auto
  moreover from Cons.prems obtain h where "f (Some x) = Inr h" by auto
  ultimately show ?case by simp
qed simp

lemma map_join_total: "(\<And>d. d \<in> set ds \<Longrightarrow> \<exists>h. f (Some (JObj d)) = Inr h) \<Longrightarrow> \<exists>h. map_join f (Some (JList (map JObj ds))) = Inr h"
  by (simp add: map_join_def js_items_def) (rule each_text_total, auto)

lemma cards_total: "(\<And>d. d \<in> set ds \<Longrightarrow> \<exists>h. f (Some (JObj d)) = Inr h) \<Longrightarrow> \<exists>h. cards_or f e (Some (JList (map JObj ds))) = Inr h"
  using map_join_total [of ds f] by (auto simp: cards_or_def js_nonempty_def)

lemmas js_eval = js_prop_def js_upper_def js_join_def js_items_def js_or_def js_truthy_def js_slice_def

lemma tiles_total:
  "\<exists>h. approval_card (Some (JObj (approval_dict a))) = Inr h" "\<exists>h. failed_card (Some (JObj (job_dict j))) = Inr h"
  "\<exists>h. workflow_card (Some (JObj d)) = Inr h" "\<exists>h. task_card (Some (JObj d)) = Inr h" "\<exists>h. log_card (Some (JObj d)) = Inr h"
  "\<exists>h. stats_panel (Some (JObj d)) = Inr h" "\<exists>h. summary_panel (Some (JObj d)) = Inr h"
  "\<exists>l. check_line (JObj (integrity_check_dict c)) = Inr l"
  by (simp_all add: approval_card_def approval_dict_def failed_card_def job_dict_def workflow_card_def task_card_def
      log_card_def stats_panel_def summary_panel_def check_line_def integrity_check_dict_def js_eval)

lemma check_lines_total: "\<exists>ls. check_lines (map (\<lambda>c. JObj (integrity_check_dict c)) cs) = Inr ls"
proof (induction cs)
  case (Cons c cs)
  then show ?case using tiles_total(8) [of c] by auto
qed simp

lemma last_n_map: "last_n n (map f xs) = map f (last_n n xs)"
  by (simp add: last_n_def drop_map)

lemma watchers_total: "\<exists>h. watchers_panel (Some (JObj (watchers_status iw ci))) = Inr h"
proof (cases iw)
  case None
  then show ?thesis by (simp add: watchers_panel_def watchers_status_def js_eval Let_def)
next
  case (Some x)
  then obtain dir interval st where iw: "iw = Some (dir, interval, st)" by (cases x) auto
  obtain ls where "check_lines (map (\<lambda>c. JObj (integrity_check_dict c)) (rev (last_n 3 (last_n 20 (iw_history st))))) = Inr ls"
    using check_lines_total by blast
  with iw show ?thesis
    by (simp add: watchers_panel_def watchers_status_def js_eval Let_def last_n_map rev_map)
qed

section \<open>Loading the panels\<close>

definition filled_by :: "('w \<Rightarrow> bool) \<Rightarrow> (string \<Rightarrow> ('w, json) io) \<Rightarrow> (string \<Rightarrow> string) \<Rightarrow>
    string \<times> string \<times> (js \<Rightarrow> exn + string) \<Rightarrow> bool" where
  "filled_by I server pane p \<longleftrightarrow>
     (\<exists>v w w'. I w \<and> server (fst (snd p)) w = (Inr v, w') \<and> snd (snd p) (Some v) = Inr (pane (fst p)))"

definition stuck_at :: "('w \<Rightarrow> bool) \<Rightarrow> (string \<Rightarrow> ('w, json) io) \<Rightarrow> string \<times> string \<times> (js \<Rightarrow> exn + string) \<Rightarrow> bool" where
  "stuck_at I server p \<longleftrightarrow>
     (\<exists>w r w'. I w \<and> server (fst (snd p)) w = (r, w') \<and> (\<forall>v. r = Inr v \<longrightarrow> (\<exists>e. snd (snd p) (Some v) = Inl e)))"

lemma load_panels_cases:
  assumes "load_panels server ps (w, pane) = (out, w', pane')" and "distinct (map fst ps)"
    and "\<And>u r v v'. I v \<Longrightarrow> server u v = (r, v') \<Longrightarrow> I v'" and "I w"
  shows "I w' \<and> (case out of Inr _ \<Rightarrow> list_all (filled_by I server pane') ps | Inl _ \<Rightarrow> list_ex (stuck_at I server) ps) \<and>
    (\<forall>x. x \<notin> fst ` set ps \<longrightarrow> pane' x = pane x)"
  using assms(1,2,4)
proof (induction ps arbitrary: w pane)
  case Nil
  then show ?case by (auto simp: ret_def)
next
  case (Cons p ps)
  obtain el url render where p: "p = (el, url, render)" by (cases p)
  obtain r w1 where srv: "server url w = (r, w1)" by force
  have I1: "I w1" by (rule assms(3) [OF Cons.prems(3) srv])
  show ?case
  proof (cases "\<exists>v h. r = Inr v \<and> render (Some v) = Inr h")
    case False
    with srv Cons.prems(1) p have 1: "\<exists>e. out = Inl e" "w' = w1" "pane' = pane" "\<forall>v. r = Inr v \<longrightarrow> (\<exists>e. render (Some v) = Inl e)"
      by (auto split: sum.splits)
    then have "stuck_at I server p" using Cons.prems(3) srv unfolding stuck_at_def p by auto
    with 1 I1 show ?thesis by auto
  next
    case True
    then obtain v h where v: "r = Inr v" "render (Some v) = Inr h" by blast
    with srv Cons.prems(1) p have run: "load_panels server ps (w1, pane(el := h)) = (out, w', pane')" by simp
    have "distinct (map fst ps)" and el: "el \<notin> fst ` set ps" using Cons.prems(2) p by auto
    note IH = Cons.IH [OF run this(1) I1]
    then have "pane' el = h" using el by auto
    with v srv Cons.prems(3) have "filled_by I server pane' p" unfolding filled_by_def p by auto
    with IH p show ?thesis by (auto split: sum.splits)
  qed
qed

section \<open>The routes\<close>

lemma route_eqs:
  "get_route E iw ci ''/stats'' = bnd (stats E) (\<lambda>d. ret (JObj d))"
  "get_route E iw ci ''/summary/latest'' = bnd (latest_daily_summary E) (\<lambda>d. ret (JObj d))"
  "get_route E iw ci ''/watchers'' = ret (JObj (watchers_status iw ci))"
  "get_route E iw ci ''/approvals?pending=true'' = bnd (list_approvals E True 50) (\<lambda>ds. ret (JList (map JObj ds)))"
  "get_route E iw ci ''/queues/failed?limit=10'' = bnd (queues_failed E 10) (\<lambda>ds. ret (JList (map JObj ds)))"
  "get_route E iw ci ''/workflows?limit=10'' = bnd (list_workflows E 10 None) (\<lambda>ds. ret (JList (map JObj ds)))"
  "get_route E iw ci ''/tasks?limit=15'' = bnd (list_tasks E None 15) (\<lambda>ds. ret (JList (map JObj ds)))"
  "get_route E iw ci ''/logs/recent?limit=20'' = bnd (logs_recent E 20) (\<lambda>ds. ret (JList (map JObj ds)))"
  by (simp_all add: get_route_def)

lemma gives_objects:
  assumes "gives m (\<lambda>ds. \<exists>rows. ds = map f rows)" and "\<And>r. \<exists>h. tile (Some (JObj (f r))) = Inr h"
  shows "gives (bnd m (\<lambda>ds. ret (JList (map JObj ds)))) (\<lambda>v. \<exists>h. cards_or tile e (Some v) = Inr h)"
    and "gives (bnd m (\<lambda>ds. ret (JList (map JObj ds)))) (\<lambda>v. \<exists>h. map_join tile (Some v) = Inr h)"
  using assms(2)
  by (auto intro!: gives_bnd [OF assms(1)] gives_ret cards_total map_join_total)

lemma routes_render:
  assumes "(el, url, render) \<in> set panels"
  shows "gives (get_route E iw ci url) (\<lambda>v. \<exists>h. render (Some v) = Inr h)"
proof -
  have obj: "gives (bnd m (\<lambda>d. ret (JObj d))) P" if "\<And>d. P (JObj d)" for m :: "('x, dict) io" and P
    by (rule gives_bnd [OF gives_any], rule gives_ret, rule that)
  have logs: "gives (logs_recent E 20) (\<lambda>ds. \<exists>rows. ds = map (\<lambda>d. d) rows)" by (simp add: gives_def)
  from assms show ?thesis
    unfolding panels_def
    by (simp, elim disjE conjE)
      (simp_all add: route_eqs approvals_panel_def failed_panel_def gives_ret obj tiles_total watchers_total
        gives_objects [OF gives_lists(1)] gives_objects [OF gives_lists(2)] gives_objects [OF gives_lists(3)]
        gives_objects [OF gives_lists(4)] gives_objects [OF logs])
qed

lemma routes_keep:
  assumes "pg_laws (pg E)"
  shows "keeps (db E) (get_route E iw ci url)"
  unfolding get_route_def by (auto intro!: keeps_bnd endpoints_keep [OF assms] wp_ops)

text \<open>What the three lists of rows answer.\<close>

lemma route_lists:
  assumes "pg_laws (pg E)" and "pg_healthy (pg E)" and "tables_ok (db E w)"
  shows "get_route E iw ci ''/approvals?pending=true'' w = (Inr v, w') \<Longrightarrow> v = JList (map (\<lambda>a. JObj (approval_dict a))
      (newest_rows apr_id (\<lambda>a. apr_decision a = None) 50 (approvals (db E w))))"
    and "get_route E iw ci ''/workflows?limit=10'' w = (Inr v, w') \<Longrightarrow> v = JList (map (\<lambda>r. JObj (wf_dict r))
      (newest_rows wf_id (\<lambda>_. True) 10 (workflows (db E w))))"
    and "get_route E iw ci ''/tasks?limit=15'' w = (Inr v, w') \<Longrightarrow> v = JList (map (\<lambda>t. JObj (task_dict t))
      (newest_rows task_id (\<lambda>_. True) 15 (tasks (db E w))))"
proof -
  note vals = page_value [OF assms session_value_selects(4) [OF assms(1,2)], where n = 50 and f = "map approval_dict"]
    page_value [OF assms session_value_selects(2) [OF assms(1,2)], where n = 10 and f = "map wf_dict"]
    page_value [OF assms session_value_selects(1) [OF assms(1,2)], where n = 15 and f = "map task_dict"]
  show "get_route E iw ci ''/approvals?pending=true'' w = (Inr v, w') \<Longrightarrow> v = JList (map (\<lambda>a. JObj (approval_dict a))
      (newest_rows apr_id (\<lambda>a. apr_decision a = None) 50 (approvals (db E w))))"
    using vals(1) [of "\<lambda>a. True \<longrightarrow> apr_decision a = None"]
    by (auto simp: route_eqs list_approvals_def bnd_def ret_def page_answer_def comp_def split: prod.splits sum.splits)
  show "get_route E iw ci ''/workflows?limit=10'' w = (Inr v, w') \<Longrightarrow> v = JList (map (\<lambda>r. JObj (wf_dict r))
      (newest_rows wf_id (\<lambda>_. True) 10 (workflows (db E w))))"
    using vals(2) [of "\<lambda>_. True"]
    by (auto simp: route_eqs list_workflows_def status_is_def bnd_def ret_def page_answer_def comp_def split: prod.splits sum.splits)
  show "get_route E iw ci ''/tasks?limit=15'' w = (Inr v, w') \<Longrightarrow> v = JList (map (\<lambda>t. JObj (task_dict t))
      (newest_rows task_id (\<lambda>_. True) 15 (tasks (db E w))))"
    using vals(3) [of "\<lambda>_. True"]
    by (auto simp: route_eqs list_tasks_def status_is_def bnd_def ret_def page_answer_def comp_def split: prod.splits sum.splits)
qed

text \<open>A refresh that ends early met an endpoint that raised; one that ends shows the tables.\<close>

lemma refresh_cases:
  assumes "pg_laws (pg E)" and "live_refresh E iw ci (w, pane) = (out, w', pane')"
  shows "db E w' = db E w" and "case out of Inr _ \<Rightarrow> list_all (filled_by (\<lambda>v. db E v = db E w) (get_route E iw ci) pane') panels
      | Inl _ \<Rightarrow> list_ex (stuck_at (\<lambda>v. db E v = db E w) (get_route E iw ci)) panels"
proof -
  let ?I = "\<lambda>v. db E v = db E w"
  have keep: "?I v'" if "?I v" "get_route E iw ci u v = (r, v')" for u r v v'
    using keepsD [OF routes_keep [OF assms(1)] that(2)] that(1) by simp
  have "distinct (map fst panels)" by (simp add: panels_def)
  from load_panels_cases [OF assms(2) [unfolded live_refresh_def] this, where I = ?I] keep
  show "db E w' = db E w" and "case out of Inr _ \<Rightarrow> list_all (filled_by ?I (get_route E iw ci) pane') panels
      | Inl _ \<Rightarrow> list_ex (stuck_at ?I (get_route E iw ci)) panels" by blast+
qed

lemma refresh_stuck:
  assumes "pg_laws (pg E)" and "live_refresh E iw ci (w, pane) = (Inl e, w', pane')"
  shows "\<exists>(el, url, render)\<in>set panels. \<exists>w1 e w2. get_route E iw ci url w1 = (Inl e, w2)"
proof -
  from refresh_cases(2) [OF assms] obtain el url render I where
    f: "(el, url, render) \<in> set panels" "stuck_at I (get_route E iw ci) (el, url, render)"
    by (auto simp: list_ex_iff)
  then obtain w1 r w2 where r: "get_route E iw ci url w1 = (r, w2)" "\<forall>v. r = Inr v \<longrightarrow> (\<exists>e. render (Some v) = Inl e)"
    unfolding stuck_at_def by auto
  have "\<exists>e. r = Inl e"
  proof (cases r)
    case (Inr v)
    with r obtain e where "render (Some v) = Inl e" by auto
    moreover obtain h where "render (Some v) = Inr h"
      using routes_render [OF f(1), of E iw ci] r(1) Inr unfolding gives_def by blast
    ultimately show ?thesis by simp
  qed simp
  with r(1) show ?thesis by (auto intro!: bexI [OF _ f(1)])
qed

abbreviation pending_page :: "tables \<Rightarrow> approval list" where
  "pending_page t \<equiv> newest_rows apr_id (\<lambda>a. apr_decision a = None) 50 (approvals t)"

abbreviation workflow_page :: "tables \<Rightarrow> workflow list" where
  "workflow_page t \<equiv> newest_rows wf_id (\<lambda>_. True) 10 (workflows t)"

abbreviation task_page :: "tables \<Rightarrow> task list" where
  "task_page t \<equiv> newest_rows task_id (\<lambda>_. True) 15 (tasks t)"

lemma refresh_shows:
  assumes "pg_laws (pg E)" and "pg_healthy (pg E)" and "tables_ok (db E w)"
    and "live_refresh E iw ci (w, pane) = (Inr u, w', pane')"
  shows "approvals_panel (Some (JList (map (\<lambda>a. JObj (approval_dict a)) (pending_page (db E w))))) = Inr (pane' ''approvals'')"
    and "map_join workflow_card (Some (JList (map (\<lambda>r. JObj (wf_dict r)) (workflow_page (db E w))))) = Inr (pane' ''workflows'')"
    and "map_join task_card (Some (JList (map (\<lambda>t. JObj (task_dict t)) (task_page (db E w))))) = Inr (pane' ''tasks'')"
proof -
  let ?I = "\<lambda>v. db E v = db E w"
  from refresh_cases(2) [OF assms(1,4)] have shown: "filled_by ?I (get_route E iw ci) pane' p" if "p \<in> set panels" for p
    using that by (simp add: list_all_iff)
  have ok: "tables_ok (db E v)" if "?I v" for v using assms(3) that by simp
  have "(''approvals'', ''/approvals?pending=true'', approvals_panel) \<in> set panels"
    "(''workflows'', ''/workflows?limit=10'', map_join workflow_card) \<in> set panels"
    "(''tasks'', ''/tasks?limit=15'', map_join task_card) \<in> set panels" by (simp_all add: panels_def)
  note s = this [THEN shown, unfolded filled_by_def fst_conv snd_conv]
  from s(1) obtain v w1 w1' where 1: "?I w1" "get_route E iw ci ''/approvals?pending=true'' w1 = (Inr v, w1')"
    "approvals_panel (Some v) = Inr (pane' ''approvals'')" by blast
  with route_lists(1) [OF assms(1,2) ok [OF 1(1)] 1(2)]
  show "approvals_panel (Some (JList (map (\<lambda>a. JObj (approval_dict a)) (pending_page (db E w))))) = Inr (pane' ''approvals'')"
    by simp
  from s(2) obtain v w2 w2' where 2: "?I w2" "get_route E iw ci ''/workflows?limit=10'' w2 = (Inr v, w2')"
    "map_join workflow_card (Some v) = Inr (pane' ''workflows'')" by blast
  with route_lists(2) [OF assms(1,2) ok [OF 2(1)] 2(2)]
  show "map_join workflow_card (Some (JList (map (\<lambda>r. JObj (wf_dict r)) (workflow_page (db E w))))) = Inr (pane' ''workflows'')"
    by simp
  from s(3) obtain v w3 w3' where 3: "?I w3" "get_route E iw ci ''/tasks?limit=15'' w3 = (Inr v, w3')"
    "map_join task_card (Some v) = Inr (pane' ''tasks'')" by blast
  with route_lists(3) [OF assms(1,2) ok [OF 3(1)] 3(2)]
  show "map_join task_card (Some (JList (map (\<lambda>t. JObj (task_dict t)) (task_page (db E w))))) = Inr (pane' ''tasks'')"
    by simp
qed

lemma newest_rows_subset: "set (newest_rows key P n rows) \<subseteq> set rows"
  by (auto simp: newest_rows_def dest: in_set_takeD)

section \<open>Properties\<close>

definition sly_approval :: tables where
  "sly_approval = empty_tables\<lparr>approvals := [stamp_approval 1 0 (approval_of (sample_request\<lparr>ar_summary := ''<b onclick=x>'', ar_workflow_id := None\<rparr>))]\<rparr>"

text \<open>The page can read its API: whatever is in the tables, the queues and the watchers, a reply
  that an endpoint gives to one of the page's requests has the shape the panel's template reads, so
  the template never throws.\<close>

theorem api_replies_render:
  assumes "(el, url, render) \<in> set panels" and "get_route E iw ci url w = (Inr v, w')"
  shows "\<exists>html. render (Some v) = Inr html"
  using routes_render [OF assms(1)] assms(2) unfolding gives_def by blast

theorem api_replies_render_witness:
  "\<exists>v w' html. get_route quiet_env None None ''/approvals?pending=true'' (mem_world sly_approval) = (Inr v, w') \<and>
     approvals_panel (Some v) = Inr html"
proof -
  have p: "(''approvals'', ''/approvals?pending=true'', approvals_panel) \<in> set panels" by (simp add: panels_def)
  obtain v w' where r: "get_route quiet_env None None ''/approvals?pending=true'' (mem_world sly_approval) = (Inr v, w')"
    by (simp add: route_eqs list_approvals_def page_limit_def select_approvals_def mem_run mem_db_run)
  from api_replies_render [OF p r] r show ?thesis by blast
qed

text \<open>C38: the dashboard shows the tables: on a healthy database a refresh of the page on its API either
  fills every panel, and then the panels of approvals, workflows and tasks are the cards of exactly
  the newest 50 undecided approvals, 10 workflows and 15 tasks, newest first; or it ends early, and
  then some endpoint raised. The tables stay as they are.\<close>

theorem dashboard_shows_tables:
  assumes "pg_laws (pg E)" and "pg_healthy (pg E)" and "tables_ok (db E w)"
    and "live_refresh E iw ci (w, pane) = (out, w', pane')"
  shows "db E w' = db E w \<and> (case out of
      Inr _ \<Rightarrow>
        approvals_panel (Some (JList (map (\<lambda>a. JObj (approval_dict a))
          (newest_rows apr_id (\<lambda>a. apr_decision a = None) 50 (approvals (db E w)))))) = Inr (pane' ''approvals'') \<and>
        map_join workflow_card (Some (JList (map (\<lambda>r. JObj (wf_dict r))
          (newest_rows wf_id (\<lambda>_. True) 10 (workflows (db E w)))))) = Inr (pane' ''workflows'') \<and>
        map_join task_card (Some (JList (map (\<lambda>t. JObj (task_dict t))
          (newest_rows task_id (\<lambda>_. True) 15 (tasks (db E w)))))) = Inr (pane' ''tasks'')
    | Inl _ \<Rightarrow> \<exists>(el, url, render)\<in>set panels. \<exists>w1 e w2. get_route E iw ci url w1 = (Inl e, w2))"
  using assms(4) refresh_cases(1) [OF assms(1,4)] refresh_shows [OF assms(1-3)] refresh_stuck [OF assms(1)]
  by (cases out) simp_all

text \<open>With the in-memory services, empty queues, no memories and no workflows every endpoint answers.\<close>

definition idle :: "tables \<Rightarrow> (mem_redis_state, mem_pg_state, unit) world \<Rightarrow> bool" where
  "idle t w \<longleftrightarrow> mp_committed (w_pg w) = t \<and> memories t = [] \<and> workflows t = [] \<and> (\<forall>k. mr_lists (w_redis w) k = [])"

lemma idle_lists:
  assumes "idle t w"
  shows "wp (list_approvals quiet_env True 50) (\<lambda>_. idle t) (\<lambda>_ _. False) w"
    "wp (list_workflows quiet_env 10 None) (\<lambda>_. idle t) (\<lambda>_ _. False) w"
    "wp (list_tasks quiet_env None 15) (\<lambda>_. idle t) (\<lambda>_ _. False) w"
    "wp (latest_daily_summary quiet_env) (\<lambda>_. idle t) (\<lambda>_ _. False) w"
    "wp (logs_recent quiet_env 20) (\<lambda>_. idle t) (\<lambda>_ _. False) w"
  using assms
  by (simp_all add: idle_def list_approvals_def list_workflows_def list_tasks_def latest_daily_summary_def latest_summary_def
      logs_recent_def newest_first_def page_limit_def statement_defs session_scope_def scalar_one_or_none_def
      mem_pg_tables mem_table_run in_order_def take_limit_def)

lemma mem_chroma_count [simp]: "ch_count (chroma (mem_env s llm http app)) v = (Inr 0, v)"
  by (simp add: mem_env_def)

lemma idle_counts:
  assumes "idle t w"
  shows "wp (stats quiet_env) (\<lambda>_. idle t) (\<lambda>_ _. False) w"
    "wp (queues_failed quiet_env 10) (\<lambda>_. idle t) (\<lambda>_ _. False) w"
  using assms
  by (simp_all add: idle_def stats_def queues_failed_def peek_failed_def all_depths_def queue_names depth_def
      safe_vector_count_def vec_count_def count_defs session_scope_def mem_pg_tables mem_count_run mem_redis_run
      lrange_def mr_tick_def Let_def)

lemma idle_route:
  assumes "idle t w" and "(el, url, render) \<in> set panels"
  shows "\<exists>v w'. get_route quiet_env iw ci url w = (Inr v, w') \<and> idle t w'"
proof -
  have obj: "\<exists>v w'. bnd m (\<lambda>d. ret (f d)) w = (Inr v, w') \<and> idle t w'" if "wp m (\<lambda>_. idle t) (\<lambda>_ _. False) w"
    for m :: "((mem_redis_state, mem_pg_state, unit) world, 'x) io" and f :: "'x \<Rightarrow> json"
    using that by (auto simp: wp_def bnd_def ret_def split: prod.splits sum.splits)
  from assms(2) show ?thesis
    unfolding panels_def
    by (simp, elim disjE conjE)
      (simp_all only: route_eqs obj idle_lists [OF assms(1)] idle_counts [OF assms(1)], simp add: ret_def assms(1))
qed

lemma idle_refresh:
  assumes "live_refresh quiet_env iw ci (w, pane) = (out, w', pane')" and "idle t w"
  shows "out = Inr ()"
proof -
  have "fst (load_panels (get_route quiet_env iw ci) ps (w, pane)) = Inr ()" if "set ps \<subseteq> set panels" "idle t w" for ps w pane
    using that
  proof (induction ps arbitrary: w pane)
    case (Cons p ps)
    obtain el url render where p: "p = (el, url, render)" by (cases p)
    with Cons.prems have in_panels: "(el, url, render) \<in> set panels" by simp
    from idle_route [OF Cons.prems(2) this, of iw ci] obtain v w1 where r: "get_route quiet_env iw ci url w = (Inr v, w1)" "idle t w1"
      by blast
    moreover from routes_render [OF in_panels, of quiet_env iw ci] r(1) obtain h where "render (Some v) = Inr h"
      unfolding gives_def by blast
    ultimately show ?case using Cons p by simp
  qed (simp add: ret_def)
  from this [OF subset_refl assms(2), of pane] assms(1) show ?thesis by (simp add: live_refresh_def)
qed

theorem dashboard_shows_tables_witness:
  "\<exists>w' pane'. live_refresh quiet_env None None (mem_world empty_tables, \<lambda>_. []) = (Inr (), w', pane') \<and>
     db quiet_env w' = empty_tables \<and> approvals_panel (Some (JList [])) = Inr (pane' ''approvals'')"
proof -
  obtain out w' pane' where r: "live_refresh quiet_env None None (mem_world empty_tables, \<lambda>_. []) = (out, w', pane')"
    by (metis prod_cases3)
  have "out = Inr ()" by (rule idle_refresh [OF r, of empty_tables]) (simp add: idle_def, simp add: empty_tables_def)
  moreover have "tables_ok (db quiet_env (mem_world empty_tables))" by (simp add: empty_tables_ok)
  from dashboard_shows_tables [OF _ _ this r] have "case out of
      Inr _ \<Rightarrow> db quiet_env w' = empty_tables \<and> approvals_panel (Some (JList [])) = Inr (pane' ''approvals'')
    | Inl _ \<Rightarrow> True" by (simp add: newest_rows_def empty_tables_def split: sum.splits)
  ultimately show ?thesis using r by simp
qed

text \<open>C37: the dashboard cannot be injected into: from tables that satisfy the invariants, after any steps
  of the system, whatever repositories, commits, models, scenarios and errors wrote into the rows, a
  refresh of the page on its API that comes to its end leaves, in the panels of approvals, workflows
  and tasks, exactly the tags and attributes of as many empty cards as rows are shown. The statuses
  and the risk level, which the templates insert unescaped, are covered because they are always known
  ones.\<close>

theorem dashboard_inert:
  assumes "redis_laws (redis E)" and "pg_laws (pg E)" and "pg_healthy (pg E)" and "tables_ok (db E w)" and "rows_ok (db E w)"
    and "sys_reach E D DE w w'" and "live_refresh E iw ci (w', pane) = (Inr (), w'', pane')"
  shows "marks (pane' ''approvals'') = (if pending_page (db E w') = [] then marks (div_of ''card k'' [])
      else concat (map (\<lambda>_. marks (approval_html [] [] [] [] [] [])) (pending_page (db E w')))) \<and>
    marks (pane' ''workflows'') = concat (map (\<lambda>_. marks (workflow_html [] [] [] [] [])) (workflow_page (db E w'))) \<and>
    marks (pane' ''tasks'') = concat (map (\<lambda>k. marks (bare_task k)) (task_page (db E w')))"
proof -
  let ?t = "db E w'"
  have ok: "tables_ok ?t" "rows_ok ?t"
    using sys_reach_records [OF assms(1,2,6,4)] sys_reach_rows [OF assms(1,2,6,4,5)] by blast+
  note shown = refresh_shows [OF assms(2,3) ok(1) assms(7)]
  have rows: "\<forall>a\<in>set (pending_page ?t). approval_row_ok a" "\<forall>r\<in>set (workflow_page ?t). workflow_row_ok r"
    "\<forall>k\<in>set (task_page ?t). task_row_ok k"
    using ok(2) newest_rows_subset unfolding rows_ok_def by fast+
  note 1 = approvals_panel_of_rows [OF rows(1) shown(1)]
  note 2 = cards_of_rows [OF _ shown(2), where bare = "\<lambda>_. workflow_html [] [] [] [] []"]
  note 3 = cards_of_rows [OF _ shown(3), where bare = bare_task]
  show ?thesis
    by (intro conjI 1 2 3 ballI workflow_card_of_row task_card_of_row bspec [OF rows(2)] bspec [OF rows(3)])
qed

theorem dashboard_inert_witness:
  "\<exists>w' pane'. live_refresh quiet_env None None (mem_world sly_approval, \<lambda>_. []) = (Inr (), w', pane') \<and>
     marks (pane' ''approvals'') = marks (approval_html [] [] [] [] [] [])"
proof -
  obtain out w' pane' where r: "live_refresh quiet_env None None (mem_world sly_approval, \<lambda>_. []) = (out, w', pane')"
    by (metis prod_cases3)
  have out: "out = Inr ()"
    by (rule idle_refresh [OF r, of sly_approval]) (simp add: idle_def, simp add: sly_approval_def empty_tables_def)
  have known: "rows_ok (db quiet_env (mem_world sly_approval))"
    by (simp add: sly_approval_def rows_ok_def row_ok_defs known_risk_def stamp_approval_def approval_of_def sample_request_def
        empty_tables_def blank_defs)
  have ok: "tables_ok (db quiet_env (mem_world sly_approval))"
    by (simp add: sly_approval_def tables_ok_def refers_def stamp_approval_def approval_of_def empty_tables_def sample_request_def)
  have "length (pending_page sly_approval) = 1"
    by (simp add: sly_approval_def newest_rows_def stamp_approval_def approval_of_def blank_defs)
  then obtain a where "pending_page sly_approval = [a]" by (auto simp: length_Suc_conv)
  with dashboard_inert [OF _ _ _ ok known rtranclp.rtrancl_refl r [unfolded out]] out r show ?thesis by simp
qed

lemma decided_not_pending: "i \<notin> apr_id ` set (pending_page (decided i d ts t))"
proof
  assume "i \<in> apr_id ` set (pending_page (decided i d ts t))"
  then obtain a where a: "apr_id a = i" "a \<in> set (pending_page (decided i d ts t))" by blast
  from a(2) have "a \<in> set (filter (\<lambda>a. apr_decision a = None) (approvals (decided i d ts t)))"
    unfolding newest_rows_def by (metis in_set_takeD set_rev set_sort)
  then have u: "apr_decision a = None"
    and "a \<in> (\<lambda>r. if apr_id r = i then r\<lparr>apr_decision := Some d, apr_decided_at := Some ts\<rparr> else r) ` set (approvals t)"
    unfolding decided_def by simp_all
  from this(2) obtain r where "a = (if apr_id r = i then r\<lparr>apr_decision := Some d, apr_decided_at := Some ts\<rparr> else r)"
    by (rule imageE)
  with a(1) u show False by (cases "apr_id r = i") simp_all
qed

text \<open>A pressed button is seen: on an open API and a healthy database, when the decision of an approval
  is recorded and the refresh after it comes to its end, the panel of pending approvals shows the
  newest undecided rows, and the decided one is not among them.\<close>

theorem pressed_approval_leaves:
  assumes "pg_laws (pg E)" and "pg_healthy (pg E)" and "tables_ok (db E w)" and "api_auth_token (cfg E) = []"
    and "decide E i d w = (Inr True, w1)" and "live_refresh E iw ci (w1, pane) = (Inr (), w2, pane')"
  shows "press E iw ci i d (w, pane) = (Inr (), w2, pane') \<and>
    approvals_panel (Some (JList (map (\<lambda>a. JObj (approval_dict a)) (pending_page (db E w1))))) = Inr (pane' ''approvals'') \<and>
    i \<notin> apr_id ` set (pending_page (db E w1))"
proof -
  have "decide_approval E None i d w = (Inr [(''approval_id'', JInt i), (''decision'', JStr d)], w1)"
    unfolding decide_approval_def by (subst gated_cases) (simp add: open_to_def assms(4,5) bnd_def ret_def)
  then have "click_decide E i d w = (Inr (), w1)" by (simp add: click_decide_def catching_def thn_def bnd_def ret_def)
  then have p: "press E iw ci i d (w, pane) = (Inr (), w2, pane')" by (simp add: press_def assms(6))
  have "wp (decide E i d) (\<lambda>b w'. tables_ok (db E w') \<and> (b \<longrightarrow> (\<exists>ts. db E w' = decided i d ts (db E w)))) (\<lambda>_ _. True) w"
    unfolding decide_def
    by (auto intro!: wp_session_scope [OF assms(1) body_decide [OF assms(1)]] decided_ok assms(3) split: if_splits)
  with assms(5) obtain ts where w1: "tables_ok (db E w1)" "db E w1 = decided i d ts (db E w)" by (auto simp: wp_def)
  have "i \<notin> apr_id ` set (pending_page (db E w1))" unfolding w1(2) by (rule decided_not_pending)
  with p refresh_shows(1) [OF assms(1,2) w1(1) assms(6)] show ?thesis by blast
qed

theorem pressed_approval_leaves_witness:
  "\<exists>w1 w2 pane'. decide quiet_env 1 ''approved'' (mem_world sly_approval) = (Inr True, w1) \<and>
     press quiet_env None None 1 ''approved'' (mem_world sly_approval, \<lambda>_. []) = (Inr (), w2, pane') \<and>
     1 \<notin> apr_id ` set (pending_page (db quiet_env w1))"
proof -
  obtain w1 where d: "decide quiet_env 1 ''approved'' (mem_world sly_approval) = (Inr True, w1)"
    and i: "memories (mp_committed (w_pg w1)) = []" "workflows (mp_committed (w_pg w1)) = []" "\<forall>k. mr_lists (w_redis w1) k = []"
    by (simp add: decide_def fetch_defs mem_run mem_db_run scalar_one_or_none_def sly_approval_def stamp_approval_def
        empty_tables_def)
  obtain out w2 pane' where r: "live_refresh quiet_env None None (w1, \<lambda>_. []) = (out, w2, pane')" by (metis prod_cases3)
  have "out = Inr ()"
    by (rule idle_refresh [OF r, of "mp_committed (w_pg w1)"]) (simp add: idle_def i)
  moreover have "tables_ok (db quiet_env (mem_world sly_approval))"
    by (simp add: sly_approval_def tables_ok_def refers_def stamp_approval_def approval_of_def empty_tables_def sample_request_def)
  moreover have "api_auth_token (cfg quiet_env) = []" by (simp add: default_settings_def)
  moreover note r
  ultimately have "press quiet_env None None 1 ''approved'' (mem_world sly_approval, \<lambda>_. []) = (Inr (), w2, pane')"
    "1 \<notin> apr_id ` set (pending_page (db quiet_env w1))"
    using pressed_approval_leaves [OF _ _ _ _ d, of None None "\<lambda>_. []" w2 pane'] by simp_all
  with d show ?thesis by blast
qed

end
