(* ===== verification/Coroutines.thy ===== *)
theory Coroutines
  imports Prelude
begin

text \<open>
  Coroutines that the event loop runs side by side. A \<open>proc\<close> is what is left of a coroutine: it is
  done, with a value or an exception, or it stands before its next await, which changes the world
  and goes on according to the world it finds. Run alone a \<open>proc\<close> is an action of
  \<^verbatim>\<open>Prelude\<close>. The locale \<open>shared_world\<close> is what such coroutines need to know of each
  other: the keys whose rows a coroutine owns stay as they are while others move.
\<close>

section \<open>Procs\<close>

datatype ('w, 'a) proc = Done "exn + 'a" | Await "'w \<Rightarrow> 'w" "'w \<Rightarrow> ('w, 'a) proc"

text \<open>\<open>m\<close> as one await, and the combinators of the actions on procs.\<close>

definition atomic :: "('w, 'a) io \<Rightarrow> ('w, 'a) proc" where
  "atomic m = Await (\<lambda>w. snd (m w)) (\<lambda>w. Done (fst (m w)))"

primrec after :: "('w, 'a) proc \<Rightarrow> (exn + 'a \<Rightarrow> ('w, 'b) proc) \<Rightarrow> ('w, 'b) proc" where
  "after (Done r) h = h r"
| "after (Await u n) h = Await u (\<lambda>w. after (n w) h)"

definition pbind :: "('w, 'a) proc \<Rightarrow> ('a \<Rightarrow> ('w, 'b) proc) \<Rightarrow> ('w, 'b) proc" where
  "pbind p k = after p (\<lambda>r. case r of Inl e \<Rightarrow> Done (Inl e) | Inr a \<Rightarrow> k a)"

definition pcatch :: "(exn \<Rightarrow> bool) \<Rightarrow> ('w, 'a) proc \<Rightarrow> (exn \<Rightarrow> ('w, 'a) proc) \<Rightarrow> ('w, 'a) proc" where
  "pcatch c p h = after p (\<lambda>r. case r of Inl e \<Rightarrow> if c e then h e else Done r | Inr a \<Rightarrow> Done r)"

definition pfinally :: "('w, 'a) proc \<Rightarrow> ('w, unit) proc \<Rightarrow> ('w, 'a) proc" where
  "pfinally p c = after p (\<lambda>r. after c (\<lambda>s. case s of Inl e \<Rightarrow> Done (Inl e) | Inr _ \<Rightarrow> Done r))"

section \<open>Alone\<close>

text \<open>A proc that nobody interrupts.\<close>

primrec alone :: "('w, 'a) proc \<Rightarrow> ('w, 'a) io" where
  "alone (Done r) = (\<lambda>w. (r, w))"
| "alone (Await u n) = (\<lambda>w. alone (n w) (u w))"

lemma alone_atomic [simp]: "alone (atomic m) = m"
  by (simp add: atomic_def)

lemma alone_after: "alone (after p h) w = (case alone p w of (r, w') \<Rightarrow> alone (h r) w')"
  by (induction p arbitrary: w) simp_all

lemma alone_lift: "alone (Done r) = lift_sum r"
  by (cases r) (simp_all add: lift_sum_def ret_def raise_def)

lemma alone_Done [simp]: "alone (Done (Inr a)) = ret a" "alone (Done (Inl e)) = raise e"
  by (simp_all add: ret_def raise_def)

lemma alone_pbind [simp]: "alone (pbind p k) = bnd (alone p) (\<lambda>a. alone (k a))"
  by (rule ext) (simp add: pbind_def alone_after bnd_def split: prod.splits sum.splits)

lemma alone_pcatch [simp]: "alone (pcatch c p h) = catching c (alone p) (\<lambda>e. alone (h e))"
  by (rule ext) (simp add: pcatch_def alone_after catching_def split: prod.splits sum.splits)

lemma alone_pfinally [simp]: "alone (pfinally p c) = finally_do (alone p) (alone c)"
  by (rule ext) (simp add: pfinally_def alone_after finally_do_def split: prod.splits sum.splits)

declare alone.simps(1) [simp del]

lemma alone_if [simp]: "alone (if b then p else q) = (if b then alone p else alone q)"
  by simp

section \<open>Among others\<close>

text \<open>
  The worlds that coroutines share: \<open>ok\<close> is their common invariant, \<open>ids\<close> are the keys in use and
  \<open>rows i\<close> is what belongs to the key \<open>i\<close>; \<open>later\<close> is what no step undoes.
\<close>

locale shared_world =
  fixes ok :: "'w \<Rightarrow> bool"
    and ids :: "'w \<Rightarrow> 'i set"
    and rows :: "'i \<Rightarrow> 'w \<Rightarrow> 'x"
    and later :: "'w \<Rightarrow> 'w \<Rightarrow> bool"
  assumes later_refl: "later w w"
    and later_trans: "later u v \<Longrightarrow> later v w \<Longrightarrow> later u w"
    and later_ids: "later w w' \<Longrightarrow> ids w \<subseteq> ids w'"
begin

text \<open>
  What the owner of \<open>own\<close> relies on while others move, and what a step of a coroutine that owns
  \<open>own\<close> leaves alone. It owns at most one key, which it takes by making it.
\<close>

definition since :: "'i option \<Rightarrow> 'w \<Rightarrow> 'w \<Rightarrow> bool" where
  "since own w w' \<longleftrightarrow> later w w' \<and> (\<forall>i. own = Some i \<longrightarrow> i \<in> ids w' \<and> rows i w' = rows i w)"

definition frame :: "'i option \<Rightarrow> 'w \<Rightarrow> 'w \<Rightarrow> bool" where
  "frame own w w' \<longleftrightarrow> later w w' \<and> (\<forall>i\<in>ids w. own \<noteq> Some i \<longrightarrow> rows i w' = rows i w)"

definition takes :: "'i option \<Rightarrow> 'i option \<Rightarrow> 'w \<Rightarrow> 'w \<Rightarrow> bool" where
  "takes own own' w w' \<longleftrightarrow> own' = own \<or> (own = None \<and> (\<exists>i. own' = Some i \<and> i \<notin> ids w \<and> i \<in> ids w'))"

text \<open>
  \<open>well p own w Q\<close>: started from \<open>w\<close>, every step of \<open>p\<close> keeps the invariant and the frame, whatever
  the others do to the rest of the world between its steps, and it is done with \<open>Q\<close>.
\<close>

primrec well :: "('w, 'a) proc \<Rightarrow> 'i option \<Rightarrow> 'w \<Rightarrow> (exn + 'a \<Rightarrow> 'i option \<Rightarrow> 'w \<Rightarrow> bool) \<Rightarrow> bool" where
  "well (Done r) own w Q = Q r own w"
| "well (Await u n) own w Q =
     (\<forall>v. ok v \<longrightarrow> since own w v \<longrightarrow>
        ok (u v) \<and> frame own v (u v) \<and> (\<exists>own'. takes own own' v (u v) \<and> well (n v) own' (u v) Q))"

lemma well_mono: "well p own w Q \<Longrightarrow> (\<And>r ow w. Q r ow w \<Longrightarrow> R r ow w) \<Longrightarrow> well p own w R"
  by (induction p arbitrary: own w) (simp, fastforce)

lemma well_after:
  "well p own w Q \<Longrightarrow> (\<And>r ow w. Q r ow w \<Longrightarrow> well (h r) ow w R) \<Longrightarrow> well (after p h) own w R"
  by (induction p arbitrary: own w) (simp, fastforce)

lemma well_bind:
  assumes "well p own w Q" and "\<And>a ow w. Q (Inr a) ow w \<Longrightarrow> well (k a) ow w R"
    and "\<And>e ow w. Q (Inl e) ow w \<Longrightarrow> R (Inl e) ow w"
  shows "well (pbind p k) own w R"
  unfolding pbind_def by (rule well_after [OF assms(1)]) (auto split: sum.split intro: assms(2,3))

lemma well_catch:
  assumes "well p own w Q" and "\<And>a ow w. Q (Inr a) ow w \<Longrightarrow> R (Inr a) ow w"
    and "\<And>e ow w. Q (Inl e) ow w \<Longrightarrow> c e \<Longrightarrow> well (h e) ow w R"
    and "\<And>e ow w. Q (Inl e) ow w \<Longrightarrow> \<not> c e \<Longrightarrow> R (Inl e) ow w"
  shows "well (pcatch c p h) own w R"
  unfolding pcatch_def by (rule well_after [OF assms(1)]) (auto split: sum.split intro: assms(2-4))

lemma well_finally:
  assumes "well p own w Q"
    and "\<And>r ow w. Q r ow w \<Longrightarrow> well c ow w (\<lambda>s ow w. case s of Inl e \<Rightarrow> R (Inl e) ow w | Inr _ \<Rightarrow> R r ow w)"
  shows "well (pfinally p c) own w R"
  unfolding pfinally_def
  by (rule well_after [OF assms(1)], rule well_after [OF assms(2)], assumption) (auto split: sum.splits)

text \<open>One await: the action itself is described by a predicate transformer.\<close>

lemma well_atomic:
  assumes "\<And>v. ok v \<Longrightarrow> since own w v \<Longrightarrow>
    wp m (\<lambda>a v'. ok v' \<and> frame own v v' \<and> (\<exists>own'. takes own own' v v' \<and> Q (Inr a) own' v'))
      (\<lambda>e v'. ok v' \<and> frame own v v' \<and> (\<exists>own'. takes own own' v v' \<and> Q (Inl e) own' v')) v"
  shows "well (atomic m) own w Q"
proof -
  have "ok (snd (m v)) \<and> frame own v (snd (m v)) \<and> (\<exists>own'. takes own own' v (snd (m v)) \<and> Q (fst (m v)) own' (snd (m v)))"
    if "ok v" "since own w v" for v
    using assms [OF that] by (cases "m v"; cases "fst (m v)") (simp_all add: wp_def)
  then show ?thesis by (simp add: atomic_def)
qed

section \<open>A family of coroutines\<close>

text \<open>
  A world with coroutines, each with what it is to establish: every one is well, has a key of its own
  or none, and found its rows as it left them; nobody owns a protected key.
\<close>

definition together :: "'i set \<Rightarrow> 'w \<Rightarrow> (('w, 'a) proc \<times> (exn + 'a \<Rightarrow> 'i option \<Rightarrow> 'w \<Rightarrow> bool)) list \<Rightarrow> bool" where
  "together Z w ps \<longleftrightarrow>
     ok w \<and> Z \<subseteq> ids w \<and>
     (\<exists>os. length os = length ps \<and>
        (\<forall>j<length ps. \<forall>i. os ! j = Some i \<longrightarrow> i \<notin> Z \<and> (\<forall>k<length ps. k \<noteq> j \<longrightarrow> os ! k \<noteq> Some i)) \<and>
        (\<forall>j<length ps. \<exists>w0. since (os ! j) w0 w \<and> well (fst (ps ! j)) (os ! j) w0 (snd (ps ! j))))"

lemma since_frame: "since own w v \<Longrightarrow> frame own' v v' \<Longrightarrow> (\<And>i. own = Some i \<Longrightarrow> own' \<noteq> Some i) \<Longrightarrow> since own w v'"
  using later_ids [of v v'] by (auto simp: since_def frame_def intro: later_trans)

lemma since_refl: "(\<And>i. own = Some i \<Longrightarrow> i \<in> ids w) \<Longrightarrow> since own w w"
  by (simp add: since_def later_refl)

lemma together_move:
  assumes t: "together Z w ps" and j: "j < length ps" and p: "ps ! j = (Await u n, Q)"
  shows "together Z (u w) (ps[j := (n w, Q)])" and "later w (u w)" and "\<forall>i\<in>Z. rows i (u w) = rows i w"
proof -
  from t obtain os where w: "ok w" "Z \<subseteq> ids w" and os: "length os = length ps"
    and apart: "\<And>j i. j < length ps \<Longrightarrow> os ! j = Some i \<Longrightarrow> i \<notin> Z \<and> (\<forall>k<length ps. k \<noteq> j \<longrightarrow> os ! k \<noteq> Some i)"
    and each: "\<And>j. j < length ps \<Longrightarrow> \<exists>w0. since (os ! j) w0 w \<and> well (fst (ps ! j)) (os ! j) w0 (snd (ps ! j))"
    unfolding together_def by blast
  from each [OF j] p obtain w0 where "since (os ! j) w0 w" "well (Await u n) (os ! j) w0 Q" by auto
  with w(1) obtain own' where ok': "ok (u w)" and f: "frame (os ! j) w (u w)"
    and tk: "takes (os ! j) own' w (u w)" and n: "well (n w) own' (u w) Q" by auto
  from f have later: "later w (u w)" by (simp add: frame_def)
  note grow = later_ids [OF later]
  let ?os = "os[j := own']" and ?ps = "ps[j := (n w, Q)]"
  have used: "i \<in> ids w" if "k < length ps" "os ! k = Some i" for k i
    using each [OF that(1)] that(2) by (auto simp: since_def)
  have own': "own' = os ! j \<or> (os ! j = None \<and> (\<exists>i. own' = Some i \<and> i \<notin> ids w \<and> i \<in> ids (u w)))"
    using tk by (auto simp: takes_def)
  have "i \<notin> Z \<and> (\<forall>k<length ?ps. k \<noteq> l \<longrightarrow> ?os ! k \<noteq> Some i)" if l: "l < length ?ps" "?os ! l = Some i" for l i
  proof (cases "l = j")
    case True
    then show ?thesis using own' l os j apart [of j i] used w(2) by auto
  next
    case False
    with l os have "os ! l = Some i" by simp
    then show ?thesis using own' l os j apart [of l i] used [of l i] False by (auto simp: nth_list_update)
  qed
  moreover have "\<exists>w0. since (?os ! l) w0 (u w) \<and> well (fst (?ps ! l)) (?os ! l) w0 (snd (?ps ! l))" if "l < length ?ps" for l
  proof (cases "l = j")
    case True
    have "since own' (u w) (u w)"
      by (rule since_refl) (use own' used [OF j] grow in auto)
    with True n os j show ?thesis by (intro exI [of _ "u w"]) simp
  next
    case False
    with that each [of l] obtain w1 where w1: "since (os ! l) w1 w" "well (fst (ps ! l)) (os ! l) w1 (snd (ps ! l))" by auto
    have "since (os ! l) w1 (u w)"
      by (rule since_frame [OF w1(1) f]) (use apart [of l] that j False in auto)
    with w1(2) False show ?thesis by (intro exI [of _ w1]) simp
  qed
  moreover have "Z \<subseteq> ids (u w)" using w(2) grow by blast
  ultimately show "together Z (u w) ?ps"
    unfolding together_def using ok' os by (intro conjI exI [of _ ?os]) auto
  show "later w (u w)" by (rule later)
  show "\<forall>i\<in>Z. rows i (u w) = rows i w"
    using f apart [OF j] w(2) unfolding frame_def by blast
qed

lemma together_begin:
  assumes "together Z w ps" and "well p None w Q"
  shows "together Z w (ps @ [(p, Q)])"
proof -
  from assms(1) obtain os where w: "ok w" "Z \<subseteq> ids w" and os: "length os = length ps"
    and apart: "\<And>j i. j < length ps \<Longrightarrow> os ! j = Some i \<Longrightarrow> i \<notin> Z \<and> (\<forall>k<length ps. k \<noteq> j \<longrightarrow> os ! k \<noteq> Some i)"
    and each: "\<And>j. j < length ps \<Longrightarrow> \<exists>w0. since (os ! j) w0 w \<and> well (fst (ps ! j)) (os ! j) w0 (snd (ps ! j))"
    unfolding together_def by blast
  have "since None w w" by (simp add: since_def later_refl)
  with assms(2) have "\<exists>w0. since ((os @ [None]) ! j) w0 w \<and> well (fst ((ps @ [(p, Q)]) ! j)) ((os @ [None]) ! j) w0 (snd ((ps @ [(p, Q)]) ! j))"
    if "j < Suc (length ps)" for j
    using that each [of j] os by (cases "j = length ps") (auto simp: nth_append)
  with w os apart show ?thesis
    unfolding together_def by (intro conjI exI [of _ "os @ [None]"]) (auto simp: nth_append less_Suc_eq)
qed

lemma together_beside:
  assumes "together Z w ps" and "ok w'" and "later w w'" and "\<And>i. rows i w' = rows i w"
  shows "together Z w' ps"
proof -
  have "since own u w'" if "since own u w" for own u
    using that assms(3,4) later_ids [OF assms(3)] unfolding since_def by (auto intro: later_trans)
  with assms(1,2) later_ids [OF assms(3)] show ?thesis
    unfolding together_def by (elim conjE exE) (intro conjI exI, auto, metis)
qed

lemma together_drop:
  assumes "together Z w ps" and j: "j < length ps"
  shows "together Z w (take j ps @ drop (Suc j) ps)"
proof -
  from assms(1) obtain os where w: "ok w" "Z \<subseteq> ids w" and os: "length os = length ps"
    and apart: "\<And>j i. j < length ps \<Longrightarrow> os ! j = Some i \<Longrightarrow> i \<notin> Z \<and> (\<forall>k<length ps. k \<noteq> j \<longrightarrow> os ! k \<noteq> Some i)"
    and each: "\<And>j. j < length ps \<Longrightarrow> \<exists>w0. since (os ! j) w0 w \<and> well (fst (ps ! j)) (os ! j) w0 (snd (ps ! j))"
    unfolding together_def by blast
  define at where "at l = (if l < j then l else Suc l)" for l
  have nth: "(take j xs @ drop (Suc j) xs) ! l = xs ! at l" if "length xs = length ps" "l < length ps - 1" for xs :: "'z list" and l
    using that j by (simp add: nth_append at_def)
  have len: "length (take j xs @ drop (Suc j) xs) = length ps - 1" if "length xs = length ps" for xs :: "'z list"
    using that j by simp
  have at: "at l < length ps" if "l < length ps - 1" for l using that j by (auto simp: at_def)
  have inj: "at k \<noteq> at l" if "k \<noteq> l" for k l using that by (auto simp: at_def split: if_splits)
  let ?os = "take j os @ drop (Suc j) os" and ?ps = "take j ps @ drop (Suc j) ps"
  note pl = nth [OF refl] and ol = nth [OF os]
  have "i \<notin> Z \<and> (\<forall>k<length ps - 1. k \<noteq> l \<longrightarrow> ?os ! k \<noteq> Some i)" if l: "l < length ps - 1" "?os ! l = Some i" for l i
  proof -
    have "os ! at l = Some i" using ol [OF l(1)] l(2) by simp
    from apart [OF at [OF l(1)] this] show ?thesis using ol at inj by auto
  qed
  moreover have "\<exists>w0. since (?os ! l) w0 w \<and> well (fst (?ps ! l)) (?os ! l) w0 (snd (?ps ! l))" if l: "l < length ps - 1" for l
    unfolding ol [OF l] pl [OF l] by (rule each [OF at [OF l]])
  ultimately show ?thesis
    unfolding together_def len [OF refl] using w len [OF os] by blast
qed

lemma together_done:
  assumes "together Z w ps" and "j < length ps" and "ps ! j = (Done r, Q)"
  shows "\<exists>own w0. since own w0 w \<and> Q r own w0"
proof -
  from assms(1,2) obtain own w0 where "since own w0 w" "well (fst (ps ! j)) own w0 (snd (ps ! j))"
    unfolding together_def by blast
  with assms(3) show ?thesis by auto
qed

lemma together_none: "ok w \<Longrightarrow> Z \<subseteq> ids w \<Longrightarrow> together Z w []"
  by (simp add: together_def)

end

end
