(* ===== verification/Interleaved.thy ===== *)
theory Interleaved
  imports Coroutines History
begin

text \<open>
  The handlers side by side. The workers, the scheduler and the API run as coroutines of one event
  loop, which switches between them at their awaits. Here each of them is a \<open>proc\<close> with one await
  per session, Redis command, model call with its retries, delivery and subprocess; what a session does
  is one step, since its changes become visible with its commit. Run alone, the procs are the handlers of the
  other theories. The theorems are about every interleaving of any number of them.
\<close>

section \<open>The handlers as coroutines\<close>

text \<open>\<^verbatim>\<open>ApprovalGateway.send\<close>\<close>

definition send_co :: "('r, 'd, 'v) env \<Rightarrow> approval_request \<Rightarrow> (('r, 'd, 'v) world, int) proc" where
  "send_co E req =
     pbind (atomic (session_scope E (add_approval E (approval_of req)))) (\<lambda>i.
     pbind (atomic (utc_now E)) (\<lambda>t.
     pbind (atomic (deliver_file E (note_of req i t))) (\<lambda>ds1.
     pbind (atomic (deliver_discord E (note_of req i t))) (\<lambda>ds2.
     pbind (atomic (deliver_telegram E (note_of req i t))) (\<lambda>ds3.
     pbind (atomic (session_scope E
       (bnd (fetch_approval E i) (\<lambda>_.
        update_approvals E (\<lambda>r. apr_id r = i) (\<lambda>r. r\<lparr>apr_delivered_via := delivered_text (ds1 @ ds2 @ ds3)\<rparr>))))) (\<lambda>_.
     Done (Inr i)))))))"

text \<open>The commit pipeline.\<close>

definition close_co :: "('r, 'd, 'v) env \<Rightarrow> int \<Rightarrow> int \<Rightarrow> dict \<Rightarrow> string \<Rightarrow> dict \<Rightarrow> 'a \<Rightarrow> (('r, 'd, 'v) world, 'a) proc" where
  "close_co E i k result event data a =
     pbind (atomic (complete_task E k result)) (\<lambda>_.
     pbind (atomic (log_entry E event data)) (\<lambda>entry.
     pbind (atomic (append_log E i entry)) (\<lambda>_.
     Done (Inr a))))"

definition summarize_co ::
  "('r, 'd, 'v) env \<Rightarrow> int \<Rightarrow> json \<Rightarrow> json \<Rightarrow> json \<Rightarrow> json \<Rightarrow> int \<Rightarrow> (('r, 'd, 'v) world, engineering_summary) proc" where
  "summarize_co E i subject author sha diff k =
     pbind (atomic (new_summarizer E)) (\<lambda>template.
     pbind (atomic (summarize E template subject author sha diff)) (\<lambda>eng.
     close_co E i k (summary_to_dict eng) ''summary_done'' [(''risk'', JStr (es_risk_level eng))] eng))"

definition draft_co ::
  "('r, 'd, 'v) env \<Rightarrow> int \<Rightarrow> engineering_summary \<Rightarrow> int \<Rightarrow> (('r, 'd, 'v) world, string) proc" where
  "draft_co E i eng k =
     pbind (atomic (new_drafter E)) (\<lambda>template.
     pbind (atomic (draft_post E template (es_summary eng) (es_changelog eng) (es_risk_level eng))) (\<lambda>post.
     close_co E i k [(''post'', JStr post)] ''social_done'' [(''len'', JInt (int (length post)))] post))"

definition index_co ::
  "('r, 'd, 'v) env \<Rightarrow> json \<Rightarrow> json \<Rightarrow> engineering_summary \<Rightarrow> int \<times> string \<Rightarrow> (('r, 'd, 'v) world, unit) proc" where
  "index_co E repo sha eng mem =
     pcatch is_Exception
       (pbind (atomic (vec_upsert E [''commit:'' @ py_str sha] [snd mem]
               [[(''repo'', repo), (''sha'', sha), (''risk'', JStr (es_risk_level eng))]])) (\<lambda>_.
        atomic (session_scope E
          (bnd (select_memories E (\<lambda>r. mem_id r = fst mem) Unordered None) (\<lambda>rows.
           bnd (lift_sum (scalar_one rows)) (\<lambda>_.
           update_memories E (\<lambda>r. mem_id r = fst mem) (\<lambda>r. r\<lparr>mem_embedding_id := Some (''commit:'' @ py_str sha)\<rparr>)))))))
       (\<lambda>e. Done (Inr ()))"

definition save_co ::
  "('r, 'd, 'v) env \<Rightarrow> json \<Rightarrow> json \<Rightarrow> json \<Rightarrow> json \<Rightarrow> engineering_summary \<Rightarrow> int \<Rightarrow> (('r, 'd, 'v) world, unit) proc" where
  "save_co E repo sha subject author eng k =
     pbind (atomic (save_memory E repo sha subject author eng)) (\<lambda>mem.
     pbind (index_co E repo sha eng mem) (\<lambda>_.
     atomic (complete_task E k [(''memory_id'', JInt (fst mem))])))"

definition approval_co ::
  "('r, 'd, 'v) env \<Rightarrow> int \<Rightarrow> json \<Rightarrow> json \<Rightarrow> json \<Rightarrow> engineering_summary \<Rightarrow> string \<Rightarrow> int \<Rightarrow> (('r, 'd, 'v) world, int) proc" where
  "approval_co E i repo sha subject eng post k =
     pbind (Done (slice8 sha)) (\<lambda>sha8.
     pbind (Done (last_part repo)) (\<lambda>repo_name.
     pbind (send_co E
       \<lparr>ar_summary = approval_summary sha8 repo_name subject,
        ar_outputs = [(''engineering_summary'', JStr (es_summary eng)), (''changelog'', JStr (es_changelog eng)),
                      (''social_post'', JStr post)],
        ar_affected = es_changed_files eng,
        ar_risk = es_risk_level eng,
        ar_workflow_id = Some i,
        ar_task_id = Some k\<rparr>) (\<lambda>aid.
     close_co E i k [(''approval_id'', JInt aid)] ''approval_sent'' [(''id'', JInt aid)] aid)))"

definition guarded_co ::
  "('r, 'd, 'v) env \<Rightarrow> int \<Rightarrow> string \<Rightarrow> (int \<Rightarrow> (('r, 'd, 'v) world, 'a) proc) \<Rightarrow> int \<Rightarrow> (('r, 'd, 'v) world, 'a) proc" where
  "guarded_co E i label body k =
     pcatch is_Exception (body k)
       (\<lambda>e. pbind (atomic (fail_task E k (str_exn e))) (\<lambda>_.
            pbind (atomic (fail_workflow E i (label @ str_exn e))) (\<lambda>_. Done (Inl e))))"

definition steps_co ::
  "('r, 'd, 'v) env \<Rightarrow> int \<Rightarrow> json \<Rightarrow> json \<Rightarrow> json \<Rightarrow> json \<Rightarrow> json \<Rightarrow> (('r, 'd, 'v) world, dict) proc" where
  "steps_co E i repo sha subject author diff =
     pbind (atomic (create_task E ''summarize'' i [(''sha'', sha), (''repo'', repo)])) (\<lambda>k1.
     pbind (guarded_co E i ''summarize failed: '' (summarize_co E i subject author sha diff) k1) (\<lambda>eng.
     pbind (atomic (create_task E ''draft_social'' i [(''sha'', sha)])) (\<lambda>k2.
     pbind (guarded_co E i ''draft failed: '' (draft_co E i eng) k2) (\<lambda>post.
     pbind (atomic (create_task E ''save'' i [(''sha'', sha)])) (\<lambda>k3.
     pbind (guarded_co E i ''save failed: '' (save_co E repo sha subject author eng) k3) (\<lambda>_.
     pbind (atomic (create_task E ''request_approval'' i [(''sha'', sha)])) (\<lambda>k4.
     pbind (guarded_co E i ''approval failed: '' (approval_co E i repo sha subject eng post) k4) (\<lambda>aid.
     pbind (atomic (finish_workflow E i)) (\<lambda>_.
     Done (Inr [(''workflow_id'', JInt i), (''approval_id'', JInt aid),
          (''summary'', JObj (summary_to_dict eng)), (''social_post'', JStr post)]))))))))))"

definition acquire_co :: "('r, 'd, 'v) env \<Rightarrow> string \<Rightarrow> string \<Rightarrow> (('r, 'd, 'v) world, claim_result) proc" where
  "acquire_co E repo sha =
     pbind (atomic (on_redis (rd_set_nx_ex (redis E) (dedup_key E repo sha) pending_mark (dedup_ttl_seconds (cfg E))))) (\<lambda>won.
       if won then Done (Inr \<lparr>acquired = True, existing_value = None\<rparr>)
       else
         pbind (atomic (on_redis (rd_get (redis E) (dedup_key E repo sha)))) (\<lambda>existing.
         Done (Inr \<lparr>acquired = False, existing_value = existing\<rparr>)))"

definition commit_co :: "('r, 'd, 'v) env \<Rightarrow> dict \<Rightarrow> (('r, 'd, 'v) world, dict) proc" where
  "commit_co E payload =
     pbind (Done (require_keys payload [''repo'', ''sha''])) (\<lambda>_.
     let repo = get_or payload ''repo'' JNull; sha = get_or payload ''sha'' JNull;
         subject = get_or payload ''subject'' (JStr []); author = get_or payload ''author'' (JStr []);
         diff = get_or payload ''diff'' (JStr []) in
     pbind (acquire_co E (py_str repo) (py_str sha)) (\<lambda>claim.
       if \<not> acquired claim then Done (skip_result claim)
       else
         pbind (atomic (create_workflow E repo sha)) (\<lambda>i.
         pbind (atomic (attach_workflow_id E (py_str repo) (py_str sha) i)) (\<lambda>_.
         pbind (atomic (bind_workflow (Some i))) (\<lambda>token.
         pfinally (steps_co E i repo sha subject author diff) (atomic (reset_workflow token)))))))"

text \<open>A demo request.\<close>

definition give_up_co :: "('r, 'd, 'v) env \<Rightarrow> int \<Rightarrow> int \<Rightarrow> string \<Rightarrow> string \<Rightarrow> string \<Rightarrow> (('r, 'd, 'v) world, 'a) proc" where
  "give_up_co E i k terr rerr msg =
     pbind (atomic (fail_task E k terr)) (\<lambda>_. pbind (atomic (fail_demo E i rerr)) (\<lambda>_. Done (Inl (RuntimeError msg))))"

definition check_tools_co :: "('r, 'd, 'v) env \<Rightarrow> demo_env \<Rightarrow> int \<Rightarrow> string \<Rightarrow> (('r, 'd, 'v) world, unit) proc" where
  "check_tools_co E D i sc =
     pbind (atomic (create_task E ''check_tools'' i (scenario_payload sc))) (\<lambda>k.
     pbind (atomic (run_process D [''make'', ''check-tools''] ''90.0'')) (\<lambda>(rc, out, err).
       if rc \<noteq> 0 then
         give_up_co E i k (''DEMO_FORGE_MISSING_TOOLS: make check-tools rc='' @ str_of_int rc)
           ''missing tools in demo-forge env''
           (''DEMO_FORGE_MISSING_TOOLS: '' @ (if py_strip err \<noteq> [] then py_strip err else py_strip out))
       else atomic (complete_task E k [(''out'', JStr (take 500 (py_strip out)))])))"

definition capture_co :: "('r, 'd, 'v) env \<Rightarrow> demo_env \<Rightarrow> int \<Rightarrow> string \<Rightarrow> (('r, 'd, 'v) world, unit) proc" where
  "capture_co E D i sc =
     pbind (atomic (create_task E ''capture'' i (scenario_payload sc))) (\<lambda>k.
     pbind (atomic (run_process D [''make'', ''demo-'' @ sc] ''180'')) (\<lambda>(rc, out, err).
       if rc \<noteq> 0 then
         give_up_co E i k (''DEMO_FORGE_SUBPROCESS_FAIL: make demo-'' @ sc @ '' rc='' @ str_of_int rc)
           ''demo capture failed'' (capture_error out err)
       else atomic (complete_task E k [(''out_tail'', JList (map JStr (last_n 30 (split_on newline (py_strip out)))))])))"

definition render_co :: "('r, 'd, 'v) env \<Rightarrow> demo_env \<Rightarrow> int \<Rightarrow> string \<Rightarrow> (('r, 'd, 'v) world, unit) proc" where
  "render_co E D i sc =
     pbind (atomic (create_task E ''render_mp4'' i (scenario_payload sc))) (\<lambda>k.
     pbind (atomic (run_process D [''make'', ''outputs/DEMO_'' @ sc @ ''/DEMO_'' @ sc @ ''.mp4''] ''120'')) (\<lambda>(rc, out, err).
       if rc \<noteq> 0 then atomic (fail_task E k (''DEMO_FORGE_MP4_FAIL: rc='' @ str_of_int rc @ '' (continuing without MP4)''))
       else atomic (complete_task E k [(''ok'', JBool True)])))"

definition manifest_co :: "('r, 'd, 'v) env \<Rightarrow> demo_env \<Rightarrow> int \<Rightarrow> string \<Rightarrow> (('r, 'd, 'v) world, manifest) proc" where
  "manifest_co E D i sc =
     pbind (atomic (create_task E ''manifest'' i (scenario_payload sc))) (\<lambda>k.
     pbind (atomic fresh_tick) (\<lambda>n.
       if \<not> output_dir D (out_path D sc) n then
         give_up_co E i k ''DEMO_FORGE_MANIFEST_FAIL: outputs dir missing'' ''manifest computation failed''
           (''DEMO_FORGE_MANIFEST_FAIL: '' @ out_path D sc @ '' not found'')
       else
         pbind (atomic (build_manifest E D sc)) (\<lambda>m.
         pbind (atomic (complete_task E k [(''artifact_count'', JInt (int (length (mf_artifacts m))))])) (\<lambda>_.
         Done (Inr m)))))"

definition approve_demo_co ::
  "('r, 'd, 'v) env \<Rightarrow> demo_env \<Rightarrow> int \<Rightarrow> string \<Rightarrow> string \<Rightarrow> manifest \<Rightarrow> (('r, 'd, 'v) world, int) proc" where
  "approve_demo_co E D i sc trigger m =
     pbind (atomic (create_task E ''approve'' i (scenario_payload sc))) (\<lambda>k.
     pbind (atomic (format_outputs E D m)) (\<lambda>outputs.
     pbind (send_co E
       \<lparr>ar_summary = ''Demo ready '' @ [em_dash] @ '' DEMO_'' @ sc @ '' ('' @ title_or sc ''unknown'' @ ''). Trigger: ''
          @ trigger @ ''. Approve to publish.'',
        ar_outputs = outputs,
        ar_affected = map art_name (mf_artifacts m),
        ar_risk = ''low'',
        ar_workflow_id = Some i,
        ar_task_id = Some k\<rparr>) (\<lambda>aid.
     pbind (atomic (complete_task E k [(''approval_id'', JInt aid)])) (\<lambda>_.
     Done (Inr aid)))))"

definition demo_steps_co ::
  "('r, 'd, 'v) env \<Rightarrow> demo_env \<Rightarrow> int \<Rightarrow> string \<Rightarrow> string \<Rightarrow> bool \<Rightarrow> (('r, 'd, 'v) world, dict) proc" where
  "demo_steps_co E D i sc trigger skip =
     pbind (check_tools_co E D i sc) (\<lambda>_.
     pbind (capture_co E D i sc) (\<lambda>_.
     pbind (if \<not> skip then render_co E D i sc else Done (Inr ())) (\<lambda>_.
     pbind (manifest_co E D i sc) (\<lambda>m.
     pbind (atomic (keep_manifest E sc m)) (\<lambda>_.
     pbind (approve_demo_co E D i sc trigger m) (\<lambda>aid.
     pbind (atomic (finish_demo E aid i)) (\<lambda>_.
     Done (Inr [(''workflow_id'', JInt i), (''approval_id'', JInt aid), (''scenario'', JStr sc),
          (''artifact_count'', JInt (int (length (mf_artifacts m))))]))))))))"

definition demo_co :: "('r, 'd, 'v) env \<Rightarrow> demo_env \<Rightarrow> dict \<Rightarrow> (('r, 'd, 'v) world, dict) proc" where
  "demo_co E D payload =
     (let sc = scenario_of payload;
          trigger = py_str (get_or payload ''trigger'' (JStr ''manual''));
          skip = truthy (get_or payload ''skip_render'' (JBool False))
      in if sc \<notin> set valid_scenarios then Done (Inl (bad_scenario sc))
         else
           pbind (atomic fresh_tick) (\<lambda>n.
             if \<not> has_makefile D n then Done (Inl (no_makefile D))
             else
               pbind (atomic (create_demo E D sc trigger skip)) (\<lambda>i.
               pbind (atomic (bind_workflow (Some i))) (\<lambda>token.
               pfinally (demo_steps_co E D i sc trigger skip) (atomic (reset_workflow token))))))"

text \<open>A run of the daily summary.\<close>

definition depths_co :: "('r, 'd, 'v) env \<Rightarrow> (('r, 'd, 'v) world, (string \<times> int) list) proc" where
  "depths_co E =
     pbind (atomic (depth E HIGH)) (\<lambda>h.
     pbind (atomic (depth E NORMAL)) (\<lambda>n.
     pbind (atomic (depth E FAILED)) (\<lambda>f.
     Done (Inr [(queue_label HIGH, h), (queue_label NORMAL, n), (queue_label FAILED, f)]))))"

definition write_summary_co :: "('r, 'd, 'v) env \<Rightarrow> daily_env \<Rightarrow> datetime \<Rightarrow> (('r, 'd, 'v) world, dict) proc" where
  "write_summary_co E D now =
     pbind (atomic (gather_counts E (now - us_per_day) now)) (\<lambda>c.
     pbind (depths_co E) (\<lambda>depths.
     pbind (atomic fresh_tick) (\<lambda>k0.
     pbind (Done (count_recent_error_lines D k0)) (\<lambda>errs.
     let s = stats_of (now - us_per_day) now c depths errs in
     pbind (atomic (session_scope E (add_memory E (summary_row now s)))) (\<lambda>i.
     pbind (atomic fresh_tick) (\<lambda>k.
     pbind (Done (make_log_dir D k)) (\<lambda>_.
     pbind (atomic (append_summary E now i s)) (\<lambda>_.
     Done (Inr [(''memory_id'', JInt i), (''date'', JStr (iso_date now)), (''summary'', JStr (format_summary s now)),
          (''stats'', JObj (stats_to_dict s))])))))))))"

definition daily_co :: "('r, 'd, 'v) env \<Rightarrow> daily_env \<Rightarrow> (('r, 'd, 'v) world, dict) proc" where
  "daily_co E D =
     pbind (atomic (utc_now E)) (\<lambda>now.
     pbind (atomic (session_scope E (latest_summary E))) (\<lambda>existing.
     case existing of
       Some r \<Rightarrow> if ran_on (iso_date now) r then Done (Inr (already_ran (mem_id r) (iso_date now))) else write_summary_co E D now
     | None \<Rightarrow> write_summary_co E D now))"

section \<open>Alone they are the handlers\<close>

lemma lift_known [simp]: "lift_sum (Inr a) = ret a" "lift_sum (Inl e) = raise e"
  by (simp_all add: lift_sum_def)

lemma alone_send: "alone (send_co E req) = send E req"
  by (simp add: send_co_def send_def)

lemma alone_bodies:
  "alone (summarize_co E i subject author sha diff k) = summarize_body E i subject author sha diff k"
  "alone (draft_co E i eng k) = draft_body E i eng k"
  "alone (save_co E repo sha subject author eng k) = save_body E repo sha subject author eng k"
  "alone (approval_co E i repo sha subject eng post k) = approval_body E i repo sha subject eng post k"
  by (simp_all add: summarize_co_def summarize_body_def draft_co_def draft_body_def save_co_def save_body_def
      index_co_def index_memory_def approval_co_def approval_body_def close_co_def alone_send alone_lift)

lemma alone_steps: "alone (steps_co E i repo sha subject author diff) = run_pipeline_steps E i repo sha subject author diff"
  by (simp add: steps_co_def run_pipeline_steps_def guarded_co_def guarded_def guard_step_def alone_bodies thn_def)

lemma alone_acquire: "alone (acquire_co E repo sha) = acquire E repo sha"
  by (simp add: acquire_co_def acquire_def cong: if_cong)

lemma alone_commit: "alone (commit_co E payload) = run_commit_pipeline E payload"
  by (simp add: commit_co_def run_commit_pipeline_def alone_acquire alone_steps alone_lift Let_def cong: if_cong)

lemma alone_demo_steps: "alone (demo_steps_co E D i sc trigger skip) = run_demo_steps E D i sc trigger skip"
  by (simp add: demo_steps_co_def run_demo_steps_def check_tools_co_def check_tools_def capture_co_def capture_def
      render_co_def render_mp4_def manifest_co_def make_manifest_def approve_demo_co_def approve_demo_def
      give_up_co_def give_up_def alone_send thn_def split_def cong: if_cong)

lemma alone_demo: "alone (demo_co E D payload) = run_demo_forge_request E D payload"
  by (simp add: demo_co_def run_demo_forge_request_def alone_demo_steps Let_def cong: if_cong)

lemma alone_depths: "alone (depths_co E) = all_depths E"
  by (simp add: depths_co_def all_depths_def enum_queue_name_def bnd_assoc)

lemma alone_write_summary: "alone (write_summary_co E D now) = write_summary E D now"
  by (simp add: write_summary_co_def write_summary_def gather_stats_def bnd_assoc alone_depths alone_lift Let_def)

lemma alone_daily: "alone (daily_co E D) = run_daily_summary E D"
proof -
  have "alone (case x of None \<Rightarrow> write_summary_co E D now
      | Some r \<Rightarrow> if ran_on (iso_date now) r then Done (Inr (already_ran (mem_id r) (iso_date now))) else write_summary_co E D now) =
    (case x of None \<Rightarrow> write_summary E D now
      | Some r \<Rightarrow> if ran_on (iso_date now) r then ret (already_ran (mem_id r) (iso_date now)) else write_summary E D now)" for x now
    by (simp add: alone_write_summary split: option.split)
  then show ?thesis by (simp add: daily_co_def run_daily_summary_def)
qed

end
