(* ===== verification/Event_Loop.thy ===== *)
theory Event_Loop
  imports Interleaved
begin

text \<open>
  What the coroutines of the event loop leave of each other's rows. A run owns the row of its
  workflow, its tasks and its approvals; every session of a run changes only what it owns, adds rows,
  and keeps the invariants of the tables. \<open>el\<close> interprets the interface of \<^verbatim>\<open>Coroutines\<close> on the
  tables, and \<open>among\<close> is its predicate transformer for a run that has its workflow.
\<close>

section \<open>What belongs to a run\<close>

definition own_rows :: "int \<Rightarrow> tables \<Rightarrow> workflow list \<times> task list \<times> approval list" where
  "own_rows i t =
     (filter (\<lambda>r. wf_id r = i) (workflows t), filter (\<lambda>k. task_workflow_id k = Some i) (tasks t),
      map undecided (filter (\<lambda>a. apr_workflow_id a = Some i) (approvals t)))"

definition good :: "tables \<Rightarrow> bool" where
  "good t \<longleftrightarrow> tables_ok t \<and> rows_ok t"

definition keys :: "tables \<Rightarrow> int set" where
  "keys t = wf_id ` set (workflows t)"

text \<open>
  What no step undoes: ids stay in use, an approval stays with its workflow, and of a memory only the
  id of its embedding changes.
\<close>

definition unembedded :: "memory_row \<Rightarrow> memory_row" where
  "unembedded m = m\<lparr>mem_embedding_id := None\<rparr>"

definition evolves :: "tables \<Rightarrow> tables \<Rightarrow> bool" where
  "evolves t t' \<longleftrightarrow>
     prefix (map wf_id (workflows t)) (map wf_id (workflows t')) \<and>
     prefix (map task_id (tasks t)) (map task_id (tasks t')) \<and>
     prefix (map unembedded (memories t)) (map unembedded (memories t')) \<and>
     prefix (map (\<lambda>a. (apr_id a, apr_workflow_id a)) (approvals t)) (map (\<lambda>a. (apr_id a, apr_workflow_id a)) (approvals t'))"

lemma evolves_refl [simp]: "evolves t t"
  by (simp add: evolves_def)

lemma evolves_trans: "evolves t u \<Longrightarrow> evolves u v \<Longrightarrow> evolves t v"
  by (auto simp: evolves_def intro: prefix_order.trans)

lemma evolves_keys: "evolves t t' \<Longrightarrow> keys t \<subseteq> keys t'"
  unfolding evolves_def keys_def by (metis set_map set_mono_prefix)

interpretation el: shared_world "\<lambda>w. good (db E w)" "\<lambda>w. keys (db E w)" "\<lambda>i w. own_rows i (db E w)"
  "\<lambda>w w'. evolves (db E w) (db E w')" for E :: "('r, 'd, 'v) env"
  by unfold_locales (auto intro: evolves_trans dest: evolves_keys)

text \<open>The view of a run is about its own rows.\<close>

lemma find_hd_filter: "find P xs = (case filter P xs of [] \<Rightarrow> None | x # _ \<Rightarrow> Some x)"
  by (induction xs) auto

lemma own_rows_view:
  assumes "tables_ok t" and "tables_ok t'" and "own_rows i t' = own_rows i t"
  shows "run_of t' i = run_of t i"
proof -
  from assms(3) have w: "filter (\<lambda>r. wf_id r = i) (workflows t') = filter (\<lambda>r. wf_id r = i) (workflows t)"
    and k: "filter (\<lambda>k. task_workflow_id k = Some i) (tasks t') = filter (\<lambda>k. task_workflow_id k = Some i) (tasks t)"
    and a: "map undecided (filter (\<lambda>a. apr_workflow_id a = Some i) (approvals t')) =
      map undecided (filter (\<lambda>a. apr_workflow_id a = Some i) (approvals t))"
    by (simp_all add: own_rows_def)
  have u: "map apr_id (map undecided as) = map apr_id as" for as by (simp add: undecided_def)
  from arg_cong [OF a, of "map apr_id"] have "map apr_id (filter (\<lambda>a. apr_workflow_id a = Some i) (approvals t')) =
      map apr_id (filter (\<lambda>a. apr_workflow_id a = Some i) (approvals t))" unfolding u .
  with w k assms(1,2) show ?thesis by (simp add: run_of_def workflow_row_def find_hd_filter)
qed

section \<open>The statements on the rows of others\<close>

text \<open>A change of the tables that leaves the rows of every run but one alone.\<close>

definition only_own :: "int option \<Rightarrow> tables \<Rightarrow> tables \<Rightarrow> bool" where
  "only_own own t t' \<longleftrightarrow> evolves t t' \<and> (\<forall>i\<in>keys t. own \<noteq> Some i \<longrightarrow> own_rows i t' = own_rows i t)"

lemma only_own_refl [simp]: "only_own own t t"
  by (simp add: only_own_def)

lemma filter_update_other:
  "(\<And>r. r \<in> set rs \<Longrightarrow> P r \<Longrightarrow> \<not> C r \<and> \<not> C (f r)) \<Longrightarrow>
     filter C (map (\<lambda>r. if P r then f r else r) rs) = filter C rs"
  by (induction rs) auto

lemma only_own_add_workflow: "only_own own t (workflows_update (\<lambda>rs. rs @ [r]) t)" if "wf_id r \<notin> keys t"
  using that by (auto simp: only_own_def evolves_def own_rows_def keys_def)

lemma only_own_add_task: "only_own (Some i) t (tasks_update (\<lambda>rs. rs @ [r]) t)" if "task_workflow_id r = Some i"
  using that by (auto simp: only_own_def evolves_def own_rows_def)

lemma only_own_add_memory: "only_own own t (memories_update (\<lambda>rs. rs @ [r]) t)"
  by (auto simp: only_own_def evolves_def own_rows_def)

lemma only_own_add_approval: "only_own (Some i) t (approvals_update (\<lambda>rs. rs @ [r]) t)" if "apr_workflow_id r = Some i"
  using that by (auto simp: only_own_def evolves_def own_rows_def)

lemma only_own_workflow: "only_own (Some i) t (workflows_update (map (\<lambda>r. if wf_id r = i then f r else r)) t)"
  if "\<And>r. wf_id (f r) = wf_id r"
  using that by (auto simp: only_own_def evolves_def own_rows_def map_key_same intro!: filter_update_other)

lemma only_own_task: "only_own (Some i) t (tasks_update (map (\<lambda>r. if task_id r = k then f r else r)) t)"
  if "\<And>r. task_id (f r) = task_id r" "\<And>r. task_workflow_id (f r) = task_workflow_id r"
    "\<And>r. r \<in> set (tasks t) \<Longrightarrow> task_id r = k \<Longrightarrow> task_workflow_id r = Some i"
  using that by (auto simp: only_own_def evolves_def own_rows_def map_key_same intro!: filter_update_other)

lemma only_own_memory: "only_own own t (memories_update (map (\<lambda>r. if P r then f r else r)) t)"
  if "\<And>r. unembedded (f r) = unembedded r"
  using that by (auto simp: only_own_def evolves_def own_rows_def map_key_same)

lemma only_own_approval: "only_own (Some i) t (approvals_update (map (\<lambda>r. if apr_id r = a then f r else r)) t)"
  if "\<And>r. apr_id (f r) = apr_id r" "\<And>r. apr_workflow_id (f r) = apr_workflow_id r"
    "\<And>r. r \<in> set (approvals t) \<Longrightarrow> apr_id r = a \<Longrightarrow> apr_workflow_id r = Some i"
proof -
  have "filter (\<lambda>r. apr_workflow_id r = Some j) (map (\<lambda>r. if apr_id r = a then f r else r) (approvals t)) =
      filter (\<lambda>r. apr_workflow_id r = Some j) (approvals t)" if "j \<noteq> i" for j
    using that \<open>\<And>r. apr_workflow_id (f r) = apr_workflow_id r\<close>
      \<open>\<And>r. r \<in> set (approvals t) \<Longrightarrow> apr_id r = a \<Longrightarrow> apr_workflow_id r = Some i\<close>
    by (intro filter_update_other) auto
  then show ?thesis using that(1,2) by (auto simp: only_own_def evolves_def own_rows_def map_key_same)
qed

lemma only_own_decided: "only_own own t (decided i d ts t)"
proof -
  have "map undecided (filter (\<lambda>a. apr_workflow_id a = Some j) (map (\<lambda>r. if apr_id r = i then r\<lparr>apr_decision := x, apr_decided_at := y\<rparr> else r) as)) =
      map undecided (filter (\<lambda>a. apr_workflow_id a = Some j) as)" for j x y as
    by (induction as) (auto simp: undecided_def)
  then show ?thesis by (simp add: only_own_def evolves_def own_rows_def decided_def map_key_same)
qed

section \<open>The statements on the invariants\<close>

lemma good_add:
  "good t \<Longrightarrow> workflow_row_ok r \<Longrightarrow> wf_id r \<notin> keys t \<Longrightarrow> good (workflows_update (\<lambda>rs. rs @ [r]) t)"
  "good t \<Longrightarrow> task_row_ok k \<Longrightarrow> task_id k \<notin> task_id ` set (tasks t) \<Longrightarrow> task_workflow_id k = Some i \<Longrightarrow> i \<in> keys t \<Longrightarrow>
     good (tasks_update (\<lambda>rs. rs @ [k]) t)"
  "good t \<Longrightarrow> mem_id m \<notin> mem_id ` set (memories t) \<Longrightarrow> good (memories_update (\<lambda>rs. rs @ [m]) t)"
  "good t \<Longrightarrow> approval_row_ok a \<Longrightarrow> apr_id a \<notin> apr_id ` set (approvals t) \<Longrightarrow> apr_workflow_id a = Some i \<Longrightarrow> i \<in> keys t \<Longrightarrow>
     good (approvals_update (\<lambda>rs. rs @ [a]) t)"
  by (auto simp: good_def tables_ok_def rows_ok_def refers_def keys_def)

lemma good_update:
  "good t \<Longrightarrow> (\<And>r. wf_id (f r) = wf_id r) \<Longrightarrow> (\<And>r. workflow_row_ok r \<Longrightarrow> workflow_row_ok (f r)) \<Longrightarrow>
     good (workflows_update (map (\<lambda>r. if P r then f r else r)) t)"
  "good t \<Longrightarrow> (\<And>k. task_id (g k) = task_id k) \<Longrightarrow> (\<And>k. task_workflow_id (g k) = task_workflow_id k) \<Longrightarrow>
     (\<And>k. task_row_ok k \<Longrightarrow> task_row_ok (g k)) \<Longrightarrow> good (tasks_update (map (\<lambda>k. if Q k then g k else k)) t)"
  "good t \<Longrightarrow> (\<And>m. mem_id (h m) = mem_id m) \<Longrightarrow> good (memories_update (map (\<lambda>m. if R m then h m else m)) t)"
  "good t \<Longrightarrow> (\<And>a. apr_id (u a) = apr_id a) \<Longrightarrow> (\<And>a. apr_workflow_id (u a) = apr_workflow_id a) \<Longrightarrow>
     (\<And>a. approval_row_ok a \<Longrightarrow> approval_row_ok (u a)) \<Longrightarrow> good (approvals_update (map (\<lambda>a. if S a then u a else a)) t)"
  by (auto simp: good_def tables_ok_def rows_ok_def map_key_same)

lemma good_decided: "good t \<Longrightarrow> d \<in> {''approved'', ''rejected''} \<Longrightarrow> good (decided i d ts t)"
  by (simp add: good_def decided_ok decided_rows)

section \<open>Actions that keep to their own\<close>

text \<open>
  A single await of the owner of \<open>own\<close>, from tables that satisfy \<open>K\<close>: a return keeps the invariants and
  the rows of others, an exception leaves the tables alone.
\<close>

definition proper :: "('r, 'd, 'v) env \<Rightarrow> int option \<Rightarrow> (tables \<Rightarrow> bool) \<Rightarrow> ('r, 'd, 'v, 'a) act \<Rightarrow> bool" where
  "proper E own K m \<longleftrightarrow>
     (\<forall>v. good (db E v) \<longrightarrow> (\<forall>i. own = Some i \<longrightarrow> i \<in> keys (db E v)) \<longrightarrow> K (db E v) \<longrightarrow>
        wp m (\<lambda>_ v'. good (db E v') \<and> only_own own (db E v) (db E v')) (\<lambda>_ v'. db E v' = db E v) v)"

lemma proper_session:
  fixes E :: "('r, 'd, 'v) env"
  assumes "pg_laws (pg E)" and "session_body E m R"
    and "\<And>t a t'. good t \<Longrightarrow> (\<forall>i. own = Some i \<longrightarrow> i \<in> keys t) \<Longrightarrow> K t \<Longrightarrow> R t a t' \<Longrightarrow> good t' \<and> only_own own t t'"
  shows "proper E own K (session_scope E m)"
  unfolding proper_def
proof (intro allI impI)
  fix v :: "('r, 'd, 'v) world"
  assume v: "good (db E v)" "\<forall>i. own = Some i \<longrightarrow> i \<in> keys (db E v)" "K (db E v)"
  show "wp (session_scope E m) (\<lambda>_ v'. good (db E v') \<and> only_own own (db E v) (db E v')) (\<lambda>_ v'. db E v' = db E v) v"
    by (rule wp_session_scope [OF assms(1,2)]) (use assms(3) [OF v] in simp_all)
qed

lemma proper_keeps: "keeps (db E) m \<Longrightarrow> proper E own K m"
  unfolding proper_def by (auto intro!: wp_mono [OF keeps_wp])

lemma proper_raise: "proper E own K (raise e)"
  by (simp add: proper_def)

lemma proper_weaken: "proper E own K m \<Longrightarrow> (\<And>t. L t \<Longrightarrow> K t) \<Longrightarrow> proper E own L m"
  unfolding proper_def by blast

text \<open>The task \<open>k\<close>, and the approval \<open>a\<close>, belong to the run \<open>i\<close>.\<close>

definition task_of :: "int \<Rightarrow> int \<Rightarrow> tables \<Rightarrow> bool" where
  "task_of i k t \<longleftrightarrow> (\<forall>r\<in>set (tasks t). task_id r = k \<longrightarrow> task_workflow_id r = Some i)"

definition approval_from :: "int \<Rightarrow> int \<Rightarrow> tables \<Rightarrow> bool" where
  "approval_from i a t \<longleftrightarrow> (\<forall>r\<in>set (approvals t). apr_id r = a \<longrightarrow> apr_workflow_id r = Some i)"

lemma stamped_run [simp]: "task_workflow_id (stamp_task k ts r) = task_workflow_id r"
  by (simp add: stamp_task_def)

lemma proper_create_task: "pg_laws (pg E) \<Longrightarrow> proper E (Some i) K (create_task E ty i p)"
  unfolding create_task_def
  by (rule proper_session, assumption, rule session_body_bnd [OF session_body_now session_body_statements(1)], assumption)
    (auto intro!: good_add(2) only_own_add_task stamped_row started_rows)

lemma proper_set_task:
  assumes "pg_laws (pg E)" and "\<And>ts k. task_row_ok k \<Longrightarrow> task_row_ok (f ts k)"
    and "\<And>ts k. task_id (f ts k) = task_id k" and "\<And>ts k. task_workflow_id (f ts k) = task_workflow_id k"
  shows "proper E (Some i) (task_of i k)
    (session_scope E (bnd (fetch_task E k) (\<lambda>_. bnd (utc_now E) (\<lambda>ts. update_tasks E (\<lambda>r. task_id r = k) (f ts)))))"
  by (rule proper_session [OF assms(1) session_body_bnd [OF session_body_fetch_task [OF assms(1)]
        session_body_bnd [OF session_body_now session_body_statements(9) [OF assms(1)]]]])
    (use assms(2-4) in \<open>auto simp: task_of_def intro!: good_update(2) only_own_task\<close>)

lemma proper_end_task:
  assumes "pg_laws (pg E)"
  shows "proper E (Some i) (task_of i k) (complete_task E k r)" and "proper E (Some i) (task_of i k) (fail_task E k m)"
  unfolding complete_task_def fail_task_def
  by (rule proper_set_task [OF assms]; simp add: advanced_rows)+

text \<open>The sessions that rewrite the row of the run.\<close>

lemma proper_set_workflow:
  assumes "pg_laws (pg E)" and "\<And>row. session_body E (prep row) (\<lambda>t _ t'. t' = t)"
    and "\<And>a r. workflow_row_ok r \<Longrightarrow> workflow_row_ok (f a r)" and "\<And>a r. wf_id (f a r) = wf_id r"
  shows "proper E (Some i) K
    (session_scope E (bnd (fetch_workflow E i) (\<lambda>row. bnd (prep row) (\<lambda>a. update_workflows E (\<lambda>r. wf_id r = i) (f a)))))"
  by (rule proper_session [OF assms(1) session_body_bnd [OF session_body_fetch_workflow [OF assms(1)]
        session_body_bnd [OF assms(2) session_body_statements(10) [OF assms(1)]]]])
    (use assms(3,4) in \<open>auto intro!: good_update(1) only_own_workflow\<close>)

lemma body_two:
  "session_body E (bnd (log_entry E ev d) (\<lambda>en. bnd (utc_now E) (\<lambda>t. ret (row, en, t)))) (\<lambda>t _ t'. t' = t)"
  "session_body E (bnd (utc_now E) (\<lambda>t. bnd (log_entry E ev d) (\<lambda>en. ret (row, en, t)))) (\<lambda>t _ t'. t' = t)"
proof -
  have l: "session_body E (log_entry E ev d) (\<lambda>t _ t'. t' = t)"
    unfolding log_entry_def
    by (rule session_body_weaken [OF session_body_bnd [OF session_body_now session_body_ret]]) auto
  show "session_body E (bnd (log_entry E ev d) (\<lambda>en. bnd (utc_now E) (\<lambda>t. ret (row, en, t)))) (\<lambda>t _ t'. t' = t)"
    by (rule session_body_weaken [OF session_body_bnd [OF l session_body_bnd [OF session_body_now session_body_ret]]]) auto
  show "session_body E (bnd (utc_now E) (\<lambda>t. bnd (log_entry E ev d) (\<lambda>en. ret (row, en, t)))) (\<lambda>t _ t'. t' = t)"
    by (rule session_body_weaken [OF session_body_bnd [OF session_body_now session_body_bnd [OF l session_body_ret]]]) auto
qed

lemma proper_run_row:
  assumes "pg_laws (pg E)"
  shows "proper E (Some i) K (append_log E i entry)" and "proper E (Some i) K (fail_workflow E i m)"
    and "proper E (Some i) K (finish_workflow E i)" and "proper E (Some i) K (fail_demo E i m)"
    and "proper E (Some i) K (finish_demo E aid i)"
proof -
  note set = proper_set_workflow [OF assms]
  have r: "session_body E (ret row) (\<lambda>t _ t'. t' = t)" for row :: workflow
    by (rule session_body_weaken [OF session_body_ret]) auto
  show "proper E (Some i) K (append_log E i entry)"
    using set [where prep = ret and f = "\<lambda>row r. r\<lparr>wf_logs := wf_logs row @ [entry]\<rparr>"] r
    by (simp add: append_log_def advanced_rows)
  show "proper E (Some i) K (fail_workflow E i m)"
    using set [OF body_two(1) [of E "''workflow_failed''" "[(''error'', JStr m)]"], where f = "\<lambda>a r. r\<lparr>wf_status := ''failed'',
        wf_logs := wf_logs (fst a) @ [fst (snd a)], wf_completed_at := Some (snd (snd a))\<rparr>"]
    by (simp add: fail_workflow_def bnd_assoc advanced_rows)
  show "proper E (Some i) K (finish_workflow E i)"
    using set [OF body_two(2) [of E "''workflow_completed''" "[]"], where f = "\<lambda>a r. r\<lparr>wf_status := ''completed'',
        wf_completed_at := Some (snd (snd a)), wf_logs := wf_logs (fst a) @ [fst (snd a)]\<rparr>"]
    by (simp add: finish_workflow_def bnd_assoc advanced_rows)
  show "proper E (Some i) K (fail_demo E i m)"
    using set [OF body_two(1) [of E "''demo_request_failed''" "[(''error'', JStr m)]"], where f = "\<lambda>a r. r\<lparr>wf_status := ''failed'',
        wf_logs := wf_logs (fst a) @ [fst (snd a)], wf_completed_at := Some (snd (snd a))\<rparr>"]
    by (simp add: fail_demo_def bnd_assoc advanced_rows)
  show "proper E (Some i) K (finish_demo E aid i)"
    using set [OF body_two(2) [of E "''demo_request_completed''" "[(''approval_id'', JInt aid)]"], where f = "\<lambda>a r. r\<lparr>wf_status := ''completed'',
        wf_completed_at := Some (snd (snd a)), wf_logs := wf_logs (fst a) @ [fst (snd a)]\<rparr>"]
    by (simp add: finish_demo_def bnd_assoc advanced_rows)
qed

text \<open>New workflows, memories and approvals, and a decision.\<close>

lemma body_log_entry: "session_body E (log_entry E ev d) (\<lambda>t _ t'. t' = t)"
  unfolding log_entry_def
  by (rule session_body_weaken [OF session_body_bnd [OF session_body_now session_body_ret]]) auto

lemma proper_create:
  assumes "pg_laws (pg E)"
  shows "proper E None K (create_workflow E repo sha)" and "proper E None K (create_demo E D sc trigger skip)"
  unfolding create_workflow_def create_demo_def
  by (rule proper_session [OF assms session_body_bnd [OF body_log_entry session_body_statements(2) [OF assms]]],
      auto simp: keys_def intro!: good_add(1) only_own_add_workflow stamped_row started_rows)+

text \<open>Whoever creates a workflow takes it.\<close>

lemma creates:
  assumes "pg_laws (pg E)"
  shows "wp (create_workflow E repo sha) (\<lambda>i w'. i \<notin> keys (db E w) \<and> i \<in> keys (db E w')) (\<lambda>_ _. True) w"
    and "wp (create_demo E D sc trigger skip) (\<lambda>i w'. i \<notin> keys (db E w) \<and> i \<in> keys (db E w')) (\<lambda>_ _. True) w"
  unfolding create_workflow_def create_demo_def
  by (rule wp_session_scope [OF assms session_body_bnd [OF body_log_entry session_body_statements(2) [OF assms]]];
      auto simp: keys_def)+

lemma proper_memory:
  assumes "pg_laws (pg E)"
  shows "proper E own K (session_scope E (add_memory E r))"
    and "proper E own K (save_memory E repo sha subject author eng)" and "proper E own K (keep_manifest E sc m)"
    and "proper E own K (session_scope E (bnd (select_memories E P Unordered None) (\<lambda>rows.
           bnd (lift_sum (scalar_one rows)) (\<lambda>_. update_memories E (\<lambda>r. mem_id r = j) (\<lambda>r. r\<lparr>mem_embedding_id := x\<rparr>)))))"
proof -
  show 1: "proper E own K (session_scope E (add_memory E r))" for r
    by (rule proper_session [OF assms session_body_statements(3) [OF assms]]) (auto intro!: good_add(3) only_own_add_memory)
  then show "proper E own K (keep_manifest E sc m)" by (simp add: keep_manifest_def)
  show "proper E own K (save_memory E repo sha subject author eng)"
    unfolding save_memory_def
    by (rule proper_session [OF assms session_body_bnd [OF session_body_lift session_body_bnd
          [OF session_body_statements(3) [OF assms] session_body_ret]]])
      (auto intro!: good_add(3) only_own_add_memory)
  show "proper E own K (session_scope E (bnd (select_memories E P Unordered None) (\<lambda>rows.
           bnd (lift_sum (scalar_one rows)) (\<lambda>_. update_memories E (\<lambda>r. mem_id r = j) (\<lambda>r. r\<lparr>mem_embedding_id := x\<rparr>)))))"
    by (rule proper_session [OF assms session_body_bnd [OF session_body_statements(7) [OF assms]
          session_body_bnd [OF session_body_lift session_body_statements(11) [OF assms]]]])
      (auto intro!: good_update(3) only_own_memory simp: unembedded_def)
qed

lemma approval_row_of:
  "known_risk (ar_risk req) \<Longrightarrow> approval_row_ok (stamp_approval a ts (approval_of req)\<lparr>apr_delivered_via := via\<rparr>)"
  by (simp add: approval_row_ok_def stamp_approval_def approval_of_def blank_defs)

lemma proper_send:
  assumes "pg_laws (pg E)"
  shows "known_risk (ar_risk req) \<Longrightarrow> ar_workflow_id req = Some i \<Longrightarrow>
      proper E (Some i) K (session_scope E (add_approval E (approval_of req)))"
    and "proper E (Some i) (approval_from i a) (session_scope E (bnd (fetch_approval E a) (\<lambda>_.
        update_approvals E (\<lambda>r. apr_id r = a) (\<lambda>r. r\<lparr>apr_delivered_via := via\<rparr>))))"
proof -
  have w: "apr_workflow_id (stamp_approval a ts (approval_of req)\<lparr>apr_delivered_via := via\<rparr>) = ar_workflow_id req"
    "apr_id (stamp_approval a ts (approval_of req)\<lparr>apr_delivered_via := via\<rparr>) = a" for a ts via req
    by (simp_all add: stamp_approval_def approval_of_def)
  show "proper E (Some i) K (session_scope E (add_approval E (approval_of req)))"
    if "known_risk (ar_risk req)" "ar_workflow_id req = Some i"
    by (rule proper_session [OF assms body_add_approval [OF assms]])
      (use that w in \<open>auto simp: with_approval_def intro!: good_add(4) only_own_add_approval approval_row_of\<close>)
  show "proper E (Some i) (approval_from i a) (session_scope E (bnd (fetch_approval E a) (\<lambda>_.
        update_approvals E (\<lambda>r. apr_id r = a) (\<lambda>r. r\<lparr>apr_delivered_via := via\<rparr>))))"
    by (rule proper_session [OF assms body_note_delivery [OF assms]])
      (auto simp: approval_from_def approval_row_ok_def intro!: good_update(4) only_own_approval)
qed

lemma proper_decide: "pg_laws (pg E) \<Longrightarrow> proper E own K (decide E i d)"
  unfolding decide_def
  by (auto intro!: proper_raise proper_session [OF _ body_decide] split: if_splits
      intro: good_decided only_own_decided simp: only_own_refl)

lemma keeps_deliveries:
  "keeps (db E) (deliver_file E n)" "keeps (db E) (deliver_discord E n)" "keeps (db E) (deliver_telegram E n)"
  by (rule keepsI, rule wp_delivers [OF deliver_file_delivers, where E = E], simp_all,
      rule keepsI, rule wp_delivers [OF deliver_discord_delivers, where E = E], simp_all,
      rule keepsI, rule wp_delivers [OF deliver_telegram_delivers, where E = E], simp_all)

lemma proper_beside:
  "proper E own K (utc_now E)" "proper E own K (log_entry E ev d)" "proper E own K fresh_tick"
  "proper E own K (summarize E template subject author sha diff)" "proper E own K (draft_post E template sm c r)"
  "proper E own K (new_summarizer E)" "proper E own K (new_drafter E)" "proper E own K (vec_upsert E xs ds ms)"
  "proper E own K (deliver_file E n)" "proper E own K (deliver_discord E n)" "proper E own K (deliver_telegram E n)"
  "proper E own K (on_redis f)" "proper E own K (attach_workflow_id E rp sh j)"
  "proper E own K (run_process D cmd limit)" "proper E own K (build_manifest E D sc)" "proper E own K (format_outputs E D m)"
  "proper E own K (bind_workflow x)" "proper E own K (reset_workflow y)"
  "proper E own K (all_depths E)" "proper E own K (append_summary E now j st)"
proof -
  have k: "keeps (db E) (vec_upsert E xs ds ms)" "keeps (db E) (attach_workflow_id E rp sh j)"
    "keeps (db E) (run_process D cmd limit)" "keeps (db E) (build_manifest E D sc)" "keeps (db E) (format_outputs E D m)"
    "keeps (db E) (bind_workflow x)" "keeps (db E) (reset_workflow y)" "keeps (db E) (all_depths E)"
    "keeps (db E) (append_summary E now j st)"
    unfolding run_process_def build_manifest_def format_outputs_def attach_workflow_id_def vec_upsert_def all_depths_def
      depth_def append_summary_def Let_def bind_workflow_def reset_workflow_def
    by (intro wp_ops | simp add: keeps_def mem_run asks_def)+
  show "proper E own K (utc_now E)" "proper E own K (log_entry E ev d)" "proper E own K fresh_tick"
    "proper E own K (summarize E template subject author sha diff)" "proper E own K (draft_post E template sm c r)"
    "proper E own K (new_summarizer E)" "proper E own K (new_drafter E)" "proper E own K (vec_upsert E xs ds ms)"
    "proper E own K (deliver_file E n)" "proper E own K (deliver_discord E n)" "proper E own K (deliver_telegram E n)"
    "proper E own K (on_redis f)" "proper E own K (attach_workflow_id E rp sh j)"
    "proper E own K (run_process D cmd limit)" "proper E own K (build_manifest E D sc)" "proper E own K (format_outputs E D m)"
    "proper E own K (bind_workflow x)" "proper E own K (reset_workflow y)"
    "proper E own K (all_depths E)" "proper E own K (append_summary E now j st)"
    by (rule proper_keeps, (rule k keeps_deliveries wp_ops)+)+
qed

end
