(* ===== verification/Concurrent_Runs.thy ===== *)
theory Concurrent_Runs
  imports Event_Loop
begin

text \<open>
  A commit run among others. Whatever other coroutines do between its awaits, a run of the commit
  pipeline ends as it does alone: skipped, completed with its four tasks, its events and one
  approval, or halted where it stopped; and no step of it, or of a demo request, a summary or a
  decision, breaks the invariants or touches the rows of another run.
\<close>

section \<open>A run between its awaits\<close>

definition among :: "('r, 'd, 'v) env \<Rightarrow> int \<Rightarrow> (('r, 'd, 'v) world, 'a) proc \<Rightarrow> ('a \<Rightarrow> ('r, 'd, 'v) world \<Rightarrow> bool) \<Rightarrow>
    (exn \<Rightarrow> ('r, 'd, 'v) world \<Rightarrow> bool) \<Rightarrow> ('r, 'd, 'v) world \<Rightarrow> bool" where
  "among E i p Q X w \<longleftrightarrow>
     el.well E p (Some i) w (\<lambda>r own v. own = Some i \<and> (case r of Inr a \<Rightarrow> Q a v | Inl e \<Rightarrow> X e v))"

lemma among_Done [simp]:
  "among E i (Done (Inr a)) Q X = Q a" "among E i (Done (Inl e)) Q X = X e"
  by (simp_all add: among_def fun_eq_iff)

lemma among_mono:
  "among E i p Q X w \<Longrightarrow> (\<And>a w. Q a w \<Longrightarrow> Q' a w) \<Longrightarrow> (\<And>e w. X e w \<Longrightarrow> X' e w) \<Longrightarrow> among E i p Q' X' w"
  unfolding among_def by (erule el.well_mono) (auto split: sum.splits)

lemma among_bind: "among E i p (\<lambda>a. among E i (k a) Q X) X w \<Longrightarrow> among E i (pbind p k) Q X w"
  unfolding among_def by (erule el.well_bind) auto

lemma among_catch:
  assumes "among E i p Q (\<lambda>e w. if c e then among E i (h e) Q X w else X e w) w"
  shows "among E i (pcatch c p h) Q X w"
  using assms unfolding among_def by (rule el.well_catch) (auto split: if_splits)

lemma among_finally:
  assumes "among E i p (\<lambda>a. among E i c (\<lambda>_. Q a) X) (\<lambda>e. among E i c (\<lambda>_. X e) X) w"
  shows "among E i (pfinally p c) Q X w"
  using assms unfolding among_def
  by (rule el.well_finally) (auto split: sum.splits elim!: el.well_mono)

text \<open>One await of a run: it finds its rows, and so its view, as it left them.\<close>

lemma among_atomic:
  assumes "proper E (Some i) K m" and "view_of E i w = Some v" and "\<And>t. run_of t i = Some v \<Longrightarrow> K t"
    and "\<And>u. view_of E i u = Some v \<Longrightarrow> wp m Q X u"
  shows "among E i (atomic m) Q X w"
proof -
  have "wp m (\<lambda>a u'. good (db E u') \<and> el.frame E (Some i) u u' \<and> (\<exists>own'. el.takes E (Some i) own' u u' \<and> own' = Some i \<and> Q a u'))
      (\<lambda>e u'. good (db E u') \<and> el.frame E (Some i) u u' \<and> (\<exists>own'. el.takes E (Some i) own' u u' \<and> own' = Some i \<and> X e u')) u"
    if u: "good (db E u)" "el.since E (Some i) w u" for u
  proof -
    from u(2) have k: "i \<in> keys (db E u)" "own_rows i (db E u) = own_rows i (db E w)" by (simp_all add: el.since_def)
    have "tables_ok (db E w)" "tables_ok (db E u)"
      using assms(2) u(1) by (simp_all add: view_of_def run_of_Some good_def)
    from own_rows_view [OF this k(2)] assms(2) have v: "view_of E i u = Some v" by (simp add: view_of_def)
    with assms(3) have K: "K (db E u)" by (simp add: view_of_def)
    from assms(1) u(1) k(1) K have "wp m (\<lambda>_ u'. good (db E u') \<and> only_own (Some i) (db E u) (db E u')) (\<lambda>_ u'. db E u' = db E u) u"
      by (simp add: proper_def)
    from wp_conj [OF this assms(4) [OF v]] show ?thesis
      by (rule wp_mono) (use u(1) in \<open>auto simp: el.frame_def el.takes_def only_own_def\<close>)
  qed
  then show ?thesis unfolding among_def by (intro el.well_atomic) simp
qed


text \<open>The awaits of a run. The task at hand, and an approval just sent, belong to it.\<close>

lemma step_owned:
  assumes "run_of t i = Some v" and "rv_steps v = ts @ [(k, ty, s)]"
  shows "task_of i k t"
proof -
  from assms(1) have ok: "tables_ok t" and vs: "rv_steps v = map step_of (filter (\<lambda>k. task_workflow_id k = Some i) (tasks t))"
    by (auto simp: run_of_Some)
  have "(k, ty, s) \<in> set (rv_steps v)" using assms(2) by simp
  then obtain r where "r \<in> set (tasks t)" "task_id r = k" "task_workflow_id r = Some i"
    unfolding vs by (auto simp: step_of_def)
  with ok show ?thesis by (auto simp: task_of_def tables_ok_def distinct_map dest: inj_onD)
qed

lemma approval_owned:
  assumes "run_of t i = Some v" and "a \<in> set (rv_approvals v)"
  shows "approval_from i a t"
proof -
  from assms have ok: "tables_ok t" and "a \<in> apr_id ` set (filter (\<lambda>a. apr_workflow_id a = Some i) (approvals t))"
    by (auto simp: run_of_Some)
  then obtain r where "r \<in> set (approvals t)" "apr_id r = a" "apr_workflow_id r = Some i" by auto
  with ok show ?thesis by (auto simp: approval_from_def tables_ok_def distinct_map dest: inj_onD)
qed

lemma among_beside:
  assumes "\<And>K. proper E (Some i) K m" and "keeps (db E) m" and "view_of E i w = Some v"
    and "\<And>a u. view_of E i u = Some v \<Longrightarrow> Q a u" and "\<And>e u. view_of E i u = Some v \<Longrightarrow> X e u"
  shows "among E i (atomic m) Q X w"
  by (rule among_atomic [OF assms(1,3) TrueI], rule wp_mono [OF keeps_wp [OF assms(2)]])
    (auto intro: assms(4,5) simp: view_of_def)

lemma among_create_task:
  assumes "pg_laws (pg E)" and "view_of E i w = Some v"
    and "\<And>k u. k \<notin> fst ` set (rv_steps v) \<Longrightarrow> view_of E i u = Some (v\<lparr>rv_steps := rv_steps v @ [(k, ty, ''running'')]\<rparr>) \<Longrightarrow> Q k u"
    and "\<And>e u. \<not> pg_healthy (pg E) \<Longrightarrow> view_of E i u = Some v \<Longrightarrow> X e u"
  shows "among E i (atomic (create_task E ty i p)) Q X w"
  by (rule among_atomic [OF proper_create_task [OF assms(1)] assms(2) TrueI], rule wp_mono [OF wp_create_task [OF assms(1)]])
    (auto intro: assms(3,4))

lemma among_end_task:
  assumes "pg_laws (pg E)" and "view_of E i w = Some v" and "rv_steps v = ts @ [(k, ty, s)]" and "k \<notin> fst ` set ts"
    and "\<And>e u. \<not> pg_healthy (pg E) \<Longrightarrow> view_of E i u = Some v \<Longrightarrow> X e u"
  shows "(\<And>u. view_of E i u = Some (v\<lparr>rv_steps := ts @ [(k, ty, ''completed'')]\<rparr>) \<Longrightarrow> Q () u) \<Longrightarrow>
      among E i (atomic (complete_task E k r)) Q X w"
    and "(\<And>u. view_of E i u = Some (v\<lparr>rv_steps := ts @ [(k, ty, ''failed'')]\<rparr>) \<Longrightarrow> Q () u) \<Longrightarrow>
      among E i (atomic (fail_task E k m)) Q X w"
  by (rule among_atomic [OF proper_end_task(1) [OF assms(1)] assms(2)], rule step_owned [OF _ assms(3)], assumption,
      rule wp_mono [OF wp_complete_task [OF assms(1) _ assms(3,4)]], auto intro: assms(5))
    (rule among_atomic [OF proper_end_task(2) [OF assms(1)] assms(2)], rule step_owned [OF _ assms(3)], assumption,
      rule wp_mono [OF wp_fail_task [OF assms(1) _ assms(3,4)]], auto intro: assms(5))

lemma among_run_row:
  assumes "pg_laws (pg E)" and "view_of E i w = Some v"
    and "\<And>e u. \<not> pg_healthy (pg E) \<Longrightarrow> view_of E i u = Some v \<Longrightarrow> X e u"
  shows "(\<And>u. view_of E i u = Some (v\<lparr>rv_events := rv_events v @ [event_of entry]\<rparr>) \<Longrightarrow> Q () u) \<Longrightarrow>
      among E i (atomic (append_log E i entry)) Q X w"
    and "(\<And>u. view_of E i u = Some (v\<lparr>rv_status := ''failed'', rv_events := rv_events v @ [''workflow_failed'']\<rparr>) \<Longrightarrow> Q () u) \<Longrightarrow>
      among E i (atomic (fail_workflow E i m)) Q X w"
    and "(\<And>u. view_of E i u = Some (v\<lparr>rv_status := ''completed'', rv_events := rv_events v @ [''workflow_completed'']\<rparr>) \<Longrightarrow> Q () u) \<Longrightarrow>
      among E i (atomic (finish_workflow E i)) Q X w"
  by (rule among_atomic [OF proper_run_row(1) [OF assms(1)] assms(2) TrueI], rule wp_mono [OF wp_append_log [OF assms(1)]],
      auto intro: assms(3))
    (rule among_atomic [OF proper_run_row(2) [OF assms(1)] assms(2) TrueI], rule wp_mono [OF wp_fail_workflow [OF assms(1)]],
      auto intro: assms(3),
     rule among_atomic [OF proper_run_row(3) [OF assms(1)] assms(2) TrueI], rule wp_mono [OF wp_finish_workflow [OF assms(1)]],
      auto intro: assms(3))

section \<open>The steps\<close>

lemma run_of_approvals:
  assumes "map apr_id (g (approvals t)) = map apr_id (approvals t)" and "map apr_workflow_id (g (approvals t)) = map apr_workflow_id (approvals t)"
    and "map apr_id (filter (\<lambda>a. apr_workflow_id a = Some i) (g (approvals t))) = map apr_id (filter (\<lambda>a. apr_workflow_id a = Some i) (approvals t))"
  shows "run_of (approvals_update g t) i = run_of t i"
  using assms by (simp add: run_of_def tables_ok_def workflow_row_def)

lemma run_of_delivery: "run_of (approvals_update (map (\<lambda>r. if apr_id r = a then r\<lparr>apr_delivered_via := via\<rparr> else r)) t) i = run_of t i"
proof (rule run_of_approvals)
  let ?f = "\<lambda>r. if apr_id r = a then r\<lparr>apr_delivered_via := via\<rparr> else r"
  have "map apr_id (map ?f as) = map apr_id as \<and> map apr_workflow_id (map ?f as) = map apr_workflow_id as \<and>
    map apr_id (filter (\<lambda>a. apr_workflow_id a = Some i) (map ?f as)) = map apr_id (filter (\<lambda>a. apr_workflow_id a = Some i) as)" for as
    by (induction as) auto
  then show "map apr_id (map ?f (approvals t)) = map apr_id (approvals t)"
    "map apr_workflow_id (map ?f (approvals t)) = map apr_workflow_id (approvals t)"
    "map apr_id (filter (\<lambda>a. apr_workflow_id a = Some i) (map ?f (approvals t))) =
      map apr_id (filter (\<lambda>a. apr_workflow_id a = Some i) (approvals t))" by blast+
qed

text \<open>The sessions and the deliveries of a request, and what it takes that one raises.\<close>

lemma wp_session_scope_sure:
  assumes laws: "pg_laws (pg E)" and body: "session_body E m R"
    and total: "pg_healthy (pg E) \<Longrightarrow> session_total E P m (\<lambda>_ _ _. True)" and pre: "P (db E w)"
    and ret: "\<And>a w'. R (db E w) a (db E w') \<Longrightarrow> Q a w'" and exc: "\<And>e w'. \<not> pg_healthy (pg E) \<Longrightarrow> db E w' = db E w \<Longrightarrow> X e w'"
  shows "wp (session_scope E m) Q X w"
proof (cases "pg_healthy (pg E)")
  case True
  have "wp (session_scope E m) (\<lambda>_ _. True) (\<lambda>_ _. False) w"
    by (rule wp_session_scope_total [OF laws True total [OF True] pre]) simp
  moreover have "wp (session_scope E m) Q (\<lambda>_ _. True) w"
    by (rule wp_session_scope [OF laws body]) (simp_all add: ret)
  ultimately have "wp (session_scope E m) (\<lambda>a w'. True \<and> Q a w') (\<lambda>_ _. False \<and> True) w" by (rule wp_conj)
  then show ?thesis by (rule wp_mono) simp_all
next
  case False
  show ?thesis by (rule wp_session_scope [OF laws body]) (simp_all add: ret exc False)
qed

lemma wp_deliveries:
  "wp (deliver_file E n) (\<lambda>_ u. db E u = db E w) (\<lambda>_ u. \<not> uncancelled E \<and> db E u = db E w) w"
  "wp (deliver_discord E n) (\<lambda>_ u. db E u = db E w) (\<lambda>_ u. \<not> uncancelled E \<and> db E u = db E w) w"
  "wp (deliver_telegram E n) (\<lambda>_ u. db E u = db E w) (\<lambda>_ u. \<not> uncancelled E \<and> db E u = db E w) w"
proof -
  have *: "wp m (\<lambda>_ u. db E u = db E w) (\<lambda>_ u. \<not> uncancelled E \<and> db E u = db E w) w"
    if "uncancelled E \<Longrightarrow> delivers_surely E m" "keeps (db E) m" for m
  proof (cases "uncancelled E")
    case False
    with keeps_wp [OF that(2), of w] show ?thesis by (auto elim: wp_mono)
  qed (rule wp_delivers_surely [OF that(1)])
  show "wp (deliver_file E n) (\<lambda>_ u. db E u = db E w) (\<lambda>_ u. \<not> uncancelled E \<and> db E u = db E w) w"
    by (rule * [OF deliveries_surely(1) keeps_deliveries(1)])
  show "wp (deliver_discord E n) (\<lambda>_ u. db E u = db E w) (\<lambda>_ u. \<not> uncancelled E \<and> db E u = db E w) w"
    by (rule * [OF deliveries_surely(2) keeps_deliveries(2)])
  show "wp (deliver_telegram E n) (\<lambda>_ u. db E u = db E w) (\<lambda>_ u. \<not> uncancelled E \<and> db E u = db E w) w"
    by (rule * [OF deliveries_surely(3) keeps_deliveries(3)])
qed

lemma approval_one:
  assumes "run_of t i = Some v" and "a \<in> set (rv_approvals v)"
  shows "\<exists>r. filter (\<lambda>r. apr_id r = a) (approvals t) = [r]"
proof -
  have one: "distinct (map apr_id rs) \<Longrightarrow> a \<in> apr_id ` set rs \<Longrightarrow> \<exists>r. filter (\<lambda>r. apr_id r = a) rs = [r]" for rs
    by (induction rs) (auto simp: filter_empty_conv image_iff)
  from assms show ?thesis by (intro one) (auto simp: run_of_Some tables_ok_def)
qed

lemma among_send:
  fixes E :: "('r, 'd, 'v) env"
  assumes laws: "pg_laws (pg E)" and v: "view_of E i w = Some v" and req: "known_risk (ar_risk req)" "ar_workflow_id req = Some i"
    and ret: "\<And>a u. view_of E i u = Some (v\<lparr>rv_approvals := rv_approvals v @ [a]\<rparr>) \<Longrightarrow> Q a u"
    and exc: "\<And>as e u. \<not> (pg_healthy (pg E) \<and> uncancelled E) \<Longrightarrow> view_of E i u = Some (v\<lparr>rv_approvals := as\<rparr>) \<Longrightarrow> X e u"
  shows "among E i (send_co E req) Q X w"
proof -
  have x: "X e u" if "\<not> pg_healthy (pg E)" "view_of E i u = Some v" for e u using exc [of u "rv_approvals v"] that by simp
  let ?sent = "\<lambda>a. v\<lparr>rv_approvals := rv_approvals v @ [a]\<rparr>"
  have noted: "among E i (atomic (session_scope E (bnd (fetch_approval E a) (\<lambda>_.
        update_approvals E (\<lambda>r. apr_id r = a) (\<lambda>r. r\<lparr>apr_delivered_via := via\<rparr>))))) (\<lambda>_. Q a) X u"
    if u: "view_of E i u = Some (?sent a)" for a via u
  proof (rule among_atomic [OF proper_send(2) [OF laws] u])
    fix u assume u: "view_of E i u = Some (?sent a)"
    then have one: "\<exists>r. filter (\<lambda>r. apr_id r = a) (approvals (db E u)) = [r]"
      by (intro approval_one [where i = i and v = "?sent a"]) (simp_all add: view_of_def)
    show "wp (session_scope E (bnd (fetch_approval E a) (\<lambda>_. update_approvals E (\<lambda>r. apr_id r = a) (\<lambda>r. r\<lparr>apr_delivered_via := via\<rparr>))))
        (\<lambda>_. Q a) X u"
      by (rule wp_session_scope_sure [OF laws body_note_delivery [OF laws] total_note_delivery [OF laws]], assumption, rule one)
        (use u in \<open>auto simp: view_of_def run_of_delivery intro: ret exc\<close>)
  qed (rule approval_owned, assumption, simp)
  have deliver: "among E i (atomic m) R X u"
    if "\<And>K. proper E (Some i) K m" "\<And>u. wp m (\<lambda>_ u'. db E u' = db E u) (\<lambda>_ u'. \<not> uncancelled E \<and> db E u' = db E u) u"
      "view_of E i u = Some (?sent a)" "\<And>ds u. view_of E i u = Some (?sent a) \<Longrightarrow> R ds u" for m :: "('r, 'd, 'v, string list) act" and u a R
    by (rule among_atomic [OF that(1,3) TrueI], rule wp_mono [OF that(2)]) (auto simp: view_of_def intro: that(4) exc)
  have now: "among E i (atomic (utc_now E)) R X u"
    if "view_of E i u = Some (?sent a)" "\<And>ds u. view_of E i u = Some (?sent a) \<Longrightarrow> R ds u" for u a R
    by (rule among_atomic [OF proper_beside(1) that(1) TrueI]) (auto simp: view_of_def intro: that(2))
  have add: "among E i (atomic (session_scope E (add_approval E (approval_of req)))) R X w"
    if R: "\<And>a u. view_of E i u = Some (?sent a) \<Longrightarrow> R a u" for R
    by (rule among_atomic [OF proper_send(1) [OF laws req] v TrueI], rule wp_session_scope_sure [OF laws body_add_approval [OF laws]],
        rule session_total_weaken [OF session_total_statements(3) [OF laws]], assumption, assumption, simp, rule TrueI)
      (auto simp: view_of_def run_of_with_approval [OF _ _ req(2)] intro!: R x)
  show ?thesis
    unfolding send_co_def
    by (rule among_bind, rule add, rule among_bind, rule now, assumption,
        rule among_bind, rule deliver [OF proper_beside(9) wp_deliveries(1)], assumption,
        rule among_bind, rule deliver [OF proper_beside(10) wp_deliveries(2)], assumption,
        rule among_bind, rule deliver [OF proper_beside(11) wp_deliveries(3)], assumption,
        rule among_bind, simp, rule noted, assumption)
qed

text \<open>The common end of a step.\<close>

lemma among_close:
  assumes laws: "pg_laws (pg E)" and v: "view_of E i w = Some v" and at: "at_task v before k ty"
    and ret: "\<And>u. view_of E i u = Some (v\<lparr>rv_steps := before @ [(k, ty, ''completed'')], rv_events := rv_events v @ [ev]\<rparr>) \<Longrightarrow> Q a u"
    and exc: "\<And>x u. rs.inside E i before k ty u \<Longrightarrow> X x u"
  shows "among E i (close_co E i k result ev d a) Q X w"
proof -
  let ?v = "v\<lparr>rv_steps := before @ [(k, ty, ''completed'')]\<rparr>"
  from at have st: "rv_steps v = before @ [(k, ty, ''running'')]" "k \<notin> fst ` set before" by (simp_all add: at_task_def)
  have in1: "X x u" if "view_of E i u = Some ?v" for x u
    by (rule exc) (use that at in \<open>auto simp: rs.inside_def at_task_def\<close>)
  have log: "among E i (atomic (log_entry E ev d)) (\<lambda>en. among E i (pbind (atomic (append_log E i en)) (\<lambda>_. Done (Inr a))) Q X) X u"
    if u: "view_of E i u = Some ?v" for u
  proof (rule among_atomic [OF proper_beside(2) u TrueI])
    fix u' assume u': "view_of E i u' = Some ?v"
    have "wp (log_entry E ev d) (\<lambda>en u. event_of en = ev \<and> view_of E i u = Some ?v) (\<lambda>_ _. False) u'"
      by (simp add: log_entry_def u' [unfolded view_of_def] view_of_def)
    then show "wp (log_entry E ev d) (\<lambda>en. among E i (pbind (atomic (append_log E i en)) (\<lambda>_. Done (Inr a))) Q X) X u'"
      by (rule wp_mono) (auto intro!: among_bind among_run_row(1) [OF laws, where v = ?v] in1 ret)
  qed
  show ?thesis
    unfolding close_co_def
    by (rule among_bind, rule among_end_task(1) [OF laws v st])
      (rule exc [OF at_task_inside [OF at]], assumption, rule among_bind, rule log)
qed

text \<open>The bodies of the four steps.\<close>

definition body_among ::
  "('r, 'd, 'v) env \<Rightarrow> int \<Rightarrow> string \<Rightarrow> string list \<Rightarrow> ('a \<Rightarrow> int list) \<Rightarrow> ('a \<Rightarrow> bool) \<Rightarrow> (int \<Rightarrow> (('r, 'd, 'v) world, 'a) proc) \<Rightarrow> bool" where
  "body_among E i ty ev ap F body \<longleftrightarrow>
     (\<forall>v before k w. at_task v before k ty \<longrightarrow> view_of E i w = Some v \<longrightarrow>
        among E i (body k)
          (\<lambda>a w'. F a \<and> (\<exists>v'. view_of E i w' = Some v' \<and> rv_status v' = ''running'' \<and>
             rv_steps v' = before @ [(k, ty, ''completed'')] \<and> rv_events v' = rv_events v @ ev \<and>
             rv_approvals v' = rv_approvals v @ ap a))
          (\<lambda>_. rs.inside E i before k ty) w)"

lemma wp_summarize_risk:
  "view_of E i u = Some v \<Longrightarrow> wp (summarize E template subject author sha diff)
    (\<lambda>s u'. known_risk (es_risk_level s) \<and> view_of E i u' = Some v) (\<lambda>_ u'. view_of E i u' = Some v) u"
  using wp_conj [OF appends_summarize [of E "db E u", unfolded appends_def, rule_format, OF extends_refl]
      keeps_wp [OF keeps_agents(3) [of E template subject author sha diff], of u]]
  by (auto elim!: wp_mono simp: view_of_def)

lemma body_among_summarize:
  assumes laws: "pg_laws (pg E)"
  shows "body_among E i ty [''summary_done''] (\<lambda>_. []) (\<lambda>s. known_risk (es_risk_level s)) (summarize_co E i subject author sha diff)"
  unfolding body_among_def
proof (intro allI impI)
  fix v before k w assume at: "at_task v before k ty" and v: "view_of E i w = Some v"
  let ?Q = "\<lambda>a w'. known_risk (es_risk_level a) \<and> (\<exists>v'. view_of E i w' = Some v' \<and> rv_status v' = ''running'' \<and>
      rv_steps v' = before @ [(k, ty, ''completed'')] \<and> rv_events v' = rv_events v @ [''summary_done''] \<and> rv_approvals v' = rv_approvals v)"
  let ?X = "\<lambda>_. rs.inside E i before k ty"
  have close: "among E i (close_co E i k r ''summary_done'' d a) ?Q ?X u" if "view_of E i u = Some v" "known_risk (es_risk_level a)" for r d a u
    by (rule among_close [OF laws that(1) at]) (use that(2) at in \<open>auto simp: at_task_def\<close>)
  have sum: "among E i (atomic (summarize E template subject author sha diff))
      (\<lambda>eng. among E i (close_co E i k (summary_to_dict eng) ''summary_done'' [(''risk'', JStr (es_risk_level eng))] eng) ?Q ?X) ?X u"
    if u: "view_of E i u = Some v" for template u
    by (rule among_atomic [OF proper_beside(4) u TrueI], rule wp_mono [OF wp_summarize_risk])
      (auto intro: close at_task_inside [OF at])
  have "among E i (summarize_co E i subject author sha diff k) ?Q ?X w"
    unfolding summarize_co_def
    by (rule among_bind, rule among_beside [OF proper_beside(6) keeps_agents(1) v], rule among_bind, erule sum)
      (rule at_task_inside [OF at])
  then show "among E i (summarize_co E i subject author sha diff k)
      (\<lambda>a w'. known_risk (es_risk_level a) \<and> (\<exists>v'. view_of E i w' = Some v' \<and> rv_status v' = ''running'' \<and>
         rv_steps v' = before @ [(k, ty, ''completed'')] \<and> rv_events v' = rv_events v @ [''summary_done''] \<and>
         rv_approvals v' = rv_approvals v @ [])) ?X w" by simp
qed

lemma body_among_draft:
  assumes laws: "pg_laws (pg E)"
  shows "body_among E i ty [''social_done''] (\<lambda>_. []) (\<lambda>_. True) (draft_co E i eng)"
  unfolding body_among_def
proof (intro allI impI)
  fix v before k w assume at: "at_task v before k ty" and v: "view_of E i w = Some v"
  let ?Q = "\<lambda>a w'. (\<exists>v'. view_of E i w' = Some v' \<and> rv_status v' = ''running'' \<and>
      rv_steps v' = before @ [(k, ty, ''completed'')] \<and> rv_events v' = rv_events v @ [''social_done''] \<and> rv_approvals v' = rv_approvals v)"
  let ?X = "\<lambda>_. rs.inside E i before k ty"
  have close: "among E i (close_co E i k r ''social_done'' d a) ?Q ?X u" if "view_of E i u = Some v" for r d a u
    by (rule among_close [OF laws that at]) (use at in \<open>auto simp: at_task_def\<close>)
  have "among E i (draft_co E i eng k) ?Q ?X w"
    unfolding draft_co_def
    by (rule among_bind, rule among_beside [OF proper_beside(7) keeps_agents(2) v], rule among_bind,
        rule among_beside [OF proper_beside(5) keeps_agents(4)], assumption, erule close)
      (erule at_task_inside [OF at])+
  then show "among E i (draft_co E i eng k) (\<lambda>a w'. True \<and> (\<exists>v'. view_of E i w' = Some v' \<and> rv_status v' = ''running'' \<and>
         rv_steps v' = before @ [(k, ty, ''completed'')] \<and> rv_events v' = rv_events v @ [''social_done''] \<and>
         rv_approvals v' = rv_approvals v @ [])) ?X w" by simp
qed

lemma among_index:
  assumes laws: "pg_laws (pg E)" and v: "view_of E i w = Some v"
    and ret: "\<And>u. view_of E i u = Some v \<Longrightarrow> Q () u" and exc: "\<And>e u. view_of E i u = Some v \<Longrightarrow> X e u"
  shows "among E i (index_co E repo sha eng mem) Q X w"
proof -
  have vec: "keeps (db E) (vec_upsert E ids docs metas)" for ids docs metas unfolding vec_upsert_def by (rule wp_ops)
  have x: "if is_Exception e then among E i (Done (Inr ())) Q X u else X e u" if "view_of E i u = Some v" for e u
    using ret exc that by simp
  show ?thesis
    unfolding index_co_def
    by (rule among_catch, rule among_bind, rule among_beside [OF proper_beside(8) vec v],
        rule among_atomic [OF proper_memory(4) [OF laws] _ TrueI], assumption,
        rule wp_session_scope [OF laws body_index_memory [OF laws, where i = i]])
      (auto simp: view_of_def intro: ret exc x)
qed

lemma body_among_save:
  assumes laws: "pg_laws (pg E)"
  shows "body_among E i ty [] (\<lambda>_. []) (\<lambda>_. True) (save_co E repo sha subject author eng)"
  unfolding body_among_def
proof (intro allI impI)
  fix v before k w assume at: "at_task v before k ty" and v: "view_of E i w = Some v"
  let ?Q = "\<lambda>a w'. (\<exists>v'. view_of E i w' = Some v' \<and> rv_status v' = ''running'' \<and>
      rv_steps v' = before @ [(k, ty, ''completed'')] \<and> rv_events v' = rv_events v \<and> rv_approvals v' = rv_approvals v)"
  let ?X = "\<lambda>_. rs.inside E i before k ty"
  from at have st: "rv_steps v = before @ [(k, ty, ''running'')]" "k \<notin> fst ` set before" "rv_status v = ''running''"
    by (simp_all add: at_task_def)
  have fin: "among E i (atomic (complete_task E k r)) ?Q ?X u" if "view_of E i u = Some v" for r u
    by (rule among_end_task(1) [OF laws that st(1,2)]) (use st in \<open>auto intro: at_task_inside [OF at]\<close>)
  have save: "among E i (atomic (save_memory E repo sha subject author eng)) R ?X w"
    if "\<And>a u. view_of E i u = Some v \<Longrightarrow> R a u" for R
    by (rule among_atomic [OF proper_memory(2) [OF laws] v TrueI], rule wp_save_memory [OF laws, where i = i])
      (use that in \<open>auto intro: at_task_inside [OF at]\<close>)
  have "among E i (save_co E repo sha subject author eng k) ?Q ?X w"
    unfolding save_co_def
    by (rule among_bind, rule save, rule among_bind, rule among_index [OF laws], assumption, erule fin)
      (erule at_task_inside [OF at])
  then show "among E i (save_co E repo sha subject author eng k) (\<lambda>a w'. True \<and> (\<exists>v'. view_of E i w' = Some v' \<and> rv_status v' = ''running'' \<and>
         rv_steps v' = before @ [(k, ty, ''completed'')] \<and> rv_events v' = rv_events v @ [] \<and>
         rv_approvals v' = rv_approvals v @ [])) ?X w" by simp
qed

lemma among_lift:
  "(\<And>a. r = Inr a \<Longrightarrow> Q a w) \<Longrightarrow> (\<And>e. r = Inl e \<Longrightarrow> X e w) \<Longrightarrow> among E i (Done r) Q X w"
  by (cases r) simp_all

lemma body_among_approval:
  assumes laws: "pg_laws (pg E)" and risk: "known_risk (es_risk_level eng)"
  shows "body_among E i ty [''approval_sent''] (\<lambda>a. [a]) (\<lambda>_. True) (approval_co E i repo sha subject eng post)"
  unfolding body_among_def
proof (intro allI impI)
  fix v before k w assume at: "at_task v before k ty" and v: "view_of E i w = Some v"
  let ?Q = "\<lambda>a w'. True \<and> (\<exists>v'. view_of E i w' = Some v' \<and> rv_status v' = ''running'' \<and>
      rv_steps v' = before @ [(k, ty, ''completed'')] \<and> rv_events v' = rv_events v @ [''approval_sent''] \<and>
      rv_approvals v' = rv_approvals v @ [a])"
  let ?X = "\<lambda>_. rs.inside E i before k ty"
  have at': "at_task (v\<lparr>rv_approvals := as\<rparr>) before k ty" for as using at by (simp add: at_task_def)
  have close: "among E i (close_co E i k r ''approval_sent'' d a) ?Q ?X u"
    if "view_of E i u = Some (v\<lparr>rv_approvals := rv_approvals v @ [a]\<rparr>)" for r d a u
    by (rule among_close [OF laws that at']) (use at in \<open>auto simp: at_task_def\<close>)
  show "among E i (approval_co E i repo sha subject eng post k) ?Q ?X w"
    unfolding approval_co_def
    by (rule among_bind, rule among_lift, rule among_bind, rule among_lift, rule among_bind, rule among_send [OF laws v],
        simp add: risk, simp, erule close)
      (rule at_task_inside [OF at'], assumption, (rule at_task_inside [OF at v])+)
qed

section \<open>A guarded step and the chain\<close>

lemma among_guard_stops:
  assumes laws: "pg_laws (pg E)" and ins: "rs.inside E i before k ty w"
  shows "among E i (pbind (atomic (fail_task E k m)) (\<lambda>_. pbind (atomic (fail_workflow E i m')) (\<lambda>_. Done (Inl x))))
    Q (\<lambda>e u. rs.stopped E i before ty e u) w"
proof -
  from ins obtain v s where v: "view_of E i w = Some v" "rv_status v = ''running''"
    "rv_steps v = before @ [(k, ty, s)]" "k \<notin> fst ` set before" "s \<in> {''running'', ''completed''}"
    unfolding rs.inside_def by blast
  show ?thesis
  proof (rule among_bind, rule among_end_task(2) [OF laws v(1,3,4)])
    fix e u assume "\<not> pg_healthy (pg E)" "view_of E i u = Some v"
    then show "rs.stopped E i before ty e u" using v by (auto simp: rs.stopped_def)
  next
    fix u assume u: "view_of E i u = Some (v\<lparr>rv_steps := before @ [(k, ty, ''failed'')]\<rparr>)"
    show "among E i (pbind (atomic (fail_workflow E i m')) (\<lambda>_. Done (Inl x))) Q (rs.stopped E i before ty) u"
      by (rule among_bind, rule among_run_row(2) [OF laws u]) (use v in \<open>auto simp: rs.stopped_def\<close>)
  qed
qed

text \<open>A cancelled step is left as it is.\<close>

lemma inside_stopped: "rs.inside E i before k ty u \<Longrightarrow> rs.stopped E i before ty CancelledError u"
  by (auto simp: rs.inside_def rs.stopped_def)

lemma among_chain_step:
  fixes E :: "('r, 'd, 'v) env" and w :: "('r, 'd, 'v) world"
  assumes laws: "pg_laws (pg E)" and r: "reached E i n evs aprs w" and n: "n < 4" "ty = chain ! n"
    and body: "body_among E i ty ev ap F body"
    and next_step: "\<And>k a u. F a \<Longrightarrow> reached E i (Suc n) (evs @ ev) (aprs @ ap a) u \<Longrightarrow> among E i (rest k a) Q X u"
    and stop: "\<And>x u v. view_of E i u = Some v \<Longrightarrow> halted (pg_healthy (pg E)) x v \<Longrightarrow> X x u"
  shows "among E i (pbind (atomic (create_task E ty i p)) (\<lambda>k. pbind (guarded_co E i label body k) (rest k))) Q X w"
proof -
  from r obtain v where v: "view_of E i w = Some v" "rv_status v = ''running''" "map snd (rv_steps v) = finished n"
    "distinct (map fst (rv_steps v))" "rv_events v = evs" "rv_approvals v = aprs"
    unfolding reached_def by blast
  have "n < length chain" using n(1) by (simp add: chain_def)
  then have Suc: "finished (Suc n) = finished n @ [(ty, ''completed'')]"
    by (simp add: finished_def take_Suc_conv_app_nth n(2))
  have halt: "X x u" if "rs.stopped E i (rv_steps v) ty x u" for x u
    using stopped_halted [of E i "rv_steps v" n x u] that v(3) n stop by auto
  have down: "X x u" if "\<not> pg_healthy (pg E)" "view_of E i u = Some v" for x u
    by (rule halt) (use that v in \<open>auto simp: rs.stopped_def\<close>)
  have guard: "among E i (guarded_co E i label body k) (\<lambda>a. among E i (rest k a) Q X) X u"
    if k: "k \<notin> fst ` set (rv_steps v)" and u: "view_of E i u = Some (v\<lparr>rv_steps := rv_steps v @ [(k, ty, ''running'')]\<rparr>)" for k u
  proof -
    let ?v = "v\<lparr>rv_steps := rv_steps v @ [(k, ty, ''running'')]\<rparr>"
    have at: "at_task ?v (rv_steps v) k ty" using k v(2) by (simp add: at_task_def)
    show ?thesis
      unfolding guarded_co_def
      by (rule among_catch, rule among_mono [OF body [unfolded body_among_def, rule_format, OF at u]])
        (use v k Suc in \<open>auto intro!: next_step among_mono [OF among_guard_stops [OF laws, where Q = "\<lambda>_ _. False"]] halt intro: inside_stopped
          simp: reached_def image_iff\<close>)
  qed
  show ?thesis
    by (rule among_bind, rule among_create_task [OF laws v(1)], rule among_bind, erule (1) guard) (erule (1) down)
qed

lemma among_chain_end:
  assumes laws: "pg_laws (pg E)" and r: "reached E i 4 (evs @ [''summary_done'', ''social_done'', ''approval_sent'']) [a] w"
    and d: "get_or d ''workflow_id'' JNull = JInt i" "get_or d ''approval_id'' JNull = JInt a"
    and ret: "\<And>r v u. view_of E i u = Some v \<Longrightarrow> succeeded i evs r v \<Longrightarrow> Q r u"
    and stop: "\<And>x u v. view_of E i u = Some v \<Longrightarrow> halted (pg_healthy (pg E)) x v \<Longrightarrow> X x u"
  shows "among E i (pbind (atomic (finish_workflow E i)) (\<lambda>_. Done (Inr d))) Q X w"
proof -
  from r obtain v where v: "view_of E i w = Some v" "rv_status v = ''running''" "map snd (rv_steps v) = finished 4"
    "distinct (map fst (rv_steps v))" "rv_events v = evs @ [''summary_done'', ''social_done'', ''approval_sent'']"
    "rv_approvals v = [a]"
    unfolding reached_def by blast
  show ?thesis
  proof (rule among_bind, rule among_run_row(3) [OF laws v(1)])
    fix x u assume "\<not> pg_healthy (pg E)" "view_of E i u = Some v"
    then show "X x u" using v by (intro stop [of u v]) (auto simp: halted_def)
  next
    fix u assume u: "view_of E i u = Some (v\<lparr>rv_status := ''completed'', rv_events := rv_events v @ [''workflow_completed'']\<rparr>)"
    have "Q d u" by (rule ret [OF u]) (use v d in \<open>simp add: succeeded_def\<close>)
    then show "among E i (Done (Inr d)) Q X u" by simp
  qed
qed

lemma among_steps:
  assumes laws: "pg_laws (pg E)" and start: "reached E i 0 evs [] w"
    and ret: "\<And>r v u. view_of E i u = Some v \<Longrightarrow> succeeded i evs r v \<Longrightarrow> Q r u"
    and stop: "\<And>x u v. view_of E i u = Some v \<Longrightarrow> halted (pg_healthy (pg E)) x v \<Longrightarrow> X x u"
  shows "among E i (steps_co E i repo sha subject author diff) Q X w"
  unfolding steps_co_def
  by (rule among_chain_step [OF laws start _ _ body_among_summarize [OF laws]], simp, simp add: chain_def,
      rule among_chain_step [OF laws _ _ _ body_among_draft [OF laws]], assumption, simp, simp add: chain_def,
      rule among_chain_step [OF laws _ _ _ body_among_save [OF laws]], assumption, simp, simp add: chain_def,
      rule among_chain_step [OF laws _ _ _ body_among_approval [OF laws]], assumption, simp, simp add: chain_def, assumption)
    (rule among_chain_end [OF laws, where i = i and evs = evs], simp add: numeral_eq_Suc,
     auto simp: get_or_def intro: ret stop)

section \<open>From the claim to the end\<close>

text \<open>Awaits of a coroutine that owns nothing, and the one by which it takes a run.\<close>

lemma pbind_Done [simp]: "pbind (Done (Inr a)) k = k a" "pbind (Done (Inl e)) k = Done (Inl e)"
  by (simp_all add: pbind_def)

lemma well_later:
  assumes "\<And>K. proper E None K m"
    and "\<And>u. good (db E u) \<Longrightarrow> evolves (db E w) (db E u) \<Longrightarrow> wp m (\<lambda>a. Q (Inr a) None) (\<lambda>e. Q (Inl e) None) u"
  shows "el.well E (atomic m) None w Q"
proof (rule el.well_atomic)
  fix u assume u: "good (db E u)" "el.since E None w u"
  from assms(1) [of "\<lambda>_. True"] u
  have "wp m (\<lambda>_ u'. good (db E u') \<and> only_own None (db E u) (db E u')) (\<lambda>_ u'. db E u' = db E u) u"
    by (simp add: proper_def)
  from wp_conj [OF this assms(2)] u
  show "wp m (\<lambda>a u'. good (db E u') \<and> el.frame E None u u' \<and> (\<exists>own'. el.takes E None own' u u' \<and> Q (Inr a) own' u'))
      (\<lambda>e u'. good (db E u') \<and> el.frame E None u u' \<and> (\<exists>own'. el.takes E None own' u u' \<and> Q (Inl e) own' u')) u"
    by (auto simp: el.frame_def el.takes_def el.since_def only_own_def elim!: wp_mono)
qed

lemma well_none:
  "(\<And>K. proper E None K m) \<Longrightarrow> (\<And>u. wp m (\<lambda>a. Q (Inr a) None) (\<lambda>e. Q (Inl e) None) u) \<Longrightarrow> el.well E (atomic m) None w Q"
  by (rule well_later)

lemma well_takes:
  assumes m: "proper E None (\<lambda>_. True) m"
    and new: "\<And>u. wp m (\<lambda>i u'. i \<notin> keys (db E u) \<and> i \<in> keys (db E u')) (\<lambda>_ _. True) u"
    and q: "\<And>u. tables_ok (db E u) \<Longrightarrow> wp m (\<lambda>i. Q (Inr i) (Some i)) (\<lambda>e. Q (Inl e) None) u"
  shows "el.well E (atomic m) None w Q"
proof (rule el.well_atomic)
  fix u assume u: "good (db E u)"
  with m have "wp m (\<lambda>_ u'. good (db E u') \<and> only_own None (db E u) (db E u')) (\<lambda>_ u'. db E u' = db E u) u"
    by (simp add: proper_def)
  from wp_conj [OF this wp_conj [OF new q]] u
  show "wp m (\<lambda>a u'. good (db E u') \<and> el.frame E None u u' \<and> (\<exists>own'. el.takes E None own' u u' \<and> Q (Inr a) own' u'))
      (\<lambda>e u'. good (db E u') \<and> el.frame E None u u' \<and> (\<exists>own'. el.takes E None own' u u' \<and> Q (Inl e) own' u')) u"
    by (auto simp: good_def el.frame_def el.takes_def only_own_def elim!: wp_mono)
qed

lemma well_among: "among E i p Q X w \<Longrightarrow> (\<And>a u. Q a u \<Longrightarrow> R (Inr a) (Some i) u) \<Longrightarrow>
    (\<And>e u. X e u \<Longrightarrow> R (Inl e) (Some i) u) \<Longrightarrow> el.well E p (Some i) w R"
  unfolding among_def by (erule el.well_mono) (auto split: sum.splits)

text \<open>
  How a commit run ends: it was skipped or raised before it had a workflow; or its workflow is
  completed, or halted, or still without a task when the id could not be put beside the claim.
\<close>

definition commit_ends :: "('r, 'd, 'v) env \<Rightarrow> exn + dict \<Rightarrow> int option \<Rightarrow> ('r, 'd, 'v) world \<Rightarrow> bool" where
  "commit_ends E r own w \<longleftrightarrow>
     (case own of
        None \<Rightarrow> (case r of Inr d \<Rightarrow> (\<exists>c. \<not> acquired c \<and> skip_result c = Inr d) | Inl _ \<Rightarrow> True)
      | Some i \<Rightarrow> (\<exists>v. view_of E i w = Some v \<and>
          (case r of
             Inr d \<Rightarrow> succeeded i [''workflow_started''] d v
           | Inl x \<Rightarrow> halted (pg_healthy (pg E)) x v \<or> (rv_status v = ''running'' \<and> rv_steps v = []))))"

lemma commit_ends_early [simp]: "commit_ends E (Inl x) None w"
  by (simp add: commit_ends_def)

lemma commit_ends_owned:
  "view_of E i w = Some v \<Longrightarrow> succeeded i [''workflow_started''] d v \<Longrightarrow> commit_ends E (Inr d) (Some i) w"
  "view_of E i w = Some v \<Longrightarrow> halted (pg_healthy (pg E)) x v \<Longrightarrow> commit_ends E (Inl x) (Some i) w"
  by (simp_all add: commit_ends_def)

text \<open>The steps run with the workflow id in the context, which is put back at the end.\<close>

lemma among_bound:
  fixes E :: "('r, 'd, 'v) env" and w :: "('r, 'd, 'v) world"
  assumes "\<And>u. view_of E i u = Some v \<Longrightarrow>
      among E i p (\<lambda>a u. \<exists>v. view_of E i u = Some v \<and> Q a v) (\<lambda>e u. \<exists>v. view_of E i u = Some v \<and> X e v) u"
    and w: "view_of E i w = Some v"
  shows "among E i (pbind (atomic (bind_workflow x)) (\<lambda>token. pfinally p (atomic (reset_workflow token))))
    (\<lambda>a u. \<exists>v. view_of E i u = Some v \<and> Q a v) (\<lambda>e u. \<exists>v. view_of E i u = Some v \<and> X e v) w"
proof -
  have ctx [simp]: "view_of E i (u\<lparr>w_ctx := c\<rparr>) = view_of E i u" for u :: "('r, 'd, 'v) world" and c
    by (simp add: view_of_def)
  have reset: "among E i (atomic (reset_workflow token)) (\<lambda>_ u. \<exists>v. view_of E i u = Some v \<and> R v) Y u"
    if "view_of E i u = Some v'" "R v'" for token R u Y v'
    by (rule among_atomic [OF proper_beside(18) that(1) TrueI]) (use that in \<open>auto simp: reset_workflow_def\<close>)
  show ?thesis
    by (rule among_bind, rule among_atomic [OF proper_beside(17) w TrueI])
      (auto simp: bind_workflow_def intro!: among_finally among_mono [OF assms(1)] elim: reset)
qed

lemma well_redis: "(\<And>r. Q r None) \<Longrightarrow> el.well E (atomic (on_redis f)) None w (\<lambda>r own _. Q r own)"
  by (rule well_none [OF proper_beside(12)]) (simp add: wp_def split: sum.split prod.split)

lemma well_acquire:
  assumes "\<And>c. Q (Inr c) None" and "\<And>e. Q (Inl e) None"
  shows "el.well E (acquire_co E repo sha) None w (\<lambda>r own _. Q r own)"
  unfolding acquire_co_def
  by (rule el.well_bind [where Q = "\<lambda>_ own _. own = None"], rule well_redis)
    (auto simp: assms intro!: el.well_bind [where Q = "\<lambda>_ own _. own = None"] well_redis)

lemma well_commit:
  fixes E :: "('r, 'd, 'v) env"
  assumes laws: "pg_laws (pg E)"
  shows "el.well E (commit_co E payload) None w (commit_ends E)"
proof -
  let ?repo = "get_or payload ''repo'' JNull" and ?sha = "get_or payload ''sha'' JNull"
  let ?subject = "get_or payload ''subject'' (JStr [])" and ?author = "get_or payload ''author'' (JStr [])"
    and ?diff = "get_or payload ''diff'' (JStr [])"
  let ?fin = "\<lambda>i d v. succeeded i [''workflow_started''] d v"
    and ?hlt = "\<lambda>x v. halted (pg_healthy (pg E)) x v \<or> (rv_status v = ''running'' \<and> rv_steps v = [])"
  have steps: "among E i (steps_co E i ?repo ?sha ?subject ?author ?diff)
      (\<lambda>d u. \<exists>v. view_of E i u = Some v \<and> ?fin i d v) (\<lambda>e u. \<exists>v. view_of E i u = Some v \<and> ?hlt e v) u"
    if "reached E i 0 [''workflow_started''] [] u" for i and u :: "('r, 'd, 'v) world"
    by (rule among_steps [OF laws that]) blast+
  have run: "el.well E (pbind (atomic (attach_workflow_id E (py_str ?repo) (py_str ?sha) i)) (\<lambda>_.
      pbind (atomic (bind_workflow (Some i))) (\<lambda>token.
      pfinally (steps_co E i ?repo ?sha ?subject ?author ?diff) (atomic (reset_workflow token))))) (Some i) u (commit_ends E)"
    if r: "reached E i 0 [''workflow_started''] [] u" for i and u :: "('r, 'd, 'v) world"
  proof -
    from r obtain v where v: "view_of E i u = Some v" "rv_status v = ''running''" "rv_steps v = []"
      by (auto simp: reached_def finished_def)
    have same: "reached E i 0 [''workflow_started''] [] u'" if "view_of E i u' = Some v" for u' :: "('r, 'd, 'v) world"
      using r v(1) that by (simp add: reached_def)
    have keeps: "keeps (db E) (attach_workflow_id E (py_str ?repo) (py_str ?sha) i)"
      unfolding attach_workflow_id_def by (intro wp_ops)
    show ?thesis
      by (rule well_among, rule among_bind, rule among_beside [OF proper_beside(13) keeps v(1)],
          rule among_bound [OF steps [OF same]], assumption, assumption)
        (use v in \<open>auto simp: commit_ends_def\<close>)
  qed
  have new: "el.well E (atomic (create_workflow E ?repo ?sha)) None u
      (\<lambda>r own w. case r of Inr i \<Rightarrow> own = Some i \<and> reached E i 0 [''workflow_started''] [] w | Inl _ \<Rightarrow> own = None)" for u
    by (rule well_takes [OF proper_create(1) [OF laws] creates(1) [OF laws]], rule wp_create_workflow [OF laws]) auto
  have claimed: "el.well E (acquire_co E (py_str ?repo) (py_str ?sha)) None w (\<lambda>_ own _. own = None)"
    by (rule well_acquire) simp_all
  show ?thesis
  proof (cases "require_keys payload [''repo'', ''sha'']")
    case (Inr a)
    have skip: "commit_ends E (skip_result c) None u" if "\<not> acquired c" for c and u :: "('r, 'd, 'v) world"
      using that by (cases "skip_result c") (auto simp: commit_ends_def)
    show ?thesis
      unfolding commit_co_def Inr Let_def pbind_Done
      by (rule el.well_bind [OF claimed]) (auto simp: skip intro!: el.well_bind [OF new] run)
  qed (simp add: commit_co_def)
qed

end
