(* ===== verification/Concurrent_Demos.thy ===== *)
theory Concurrent_Demos
  imports Concurrent_Runs
begin

text \<open>
  A demo request, a daily summary and a decision among others: what \<^verbatim>\<open>Concurrent_Runs\<close> shows of a
  commit run, for the other coroutines. The rules of the steps follow those of \<^verbatim>\<open>Demo_Forge\<close>.
\<close>

section \<open>A demo run between its awaits\<close>

lemma among_stands:
  fixes E :: "('r, 'd, 'v) env"
  assumes "proper E (Some i) K m" and "dr.stands (E, a) i evs st aprs w"
    and "\<And>t. run_of t i = Some \<lparr>rv_status = ''running'', rv_events = evs, rv_steps = st, rv_approvals = aprs\<rparr> \<Longrightarrow> K t"
    and "\<And>u. dr.stands (E, a) i evs st aprs u \<Longrightarrow> wp m Q X u"
  shows "among E i (atomic m) Q X w"
  by (rule among_atomic [OF assms(1)]) (use assms(2-4) in \<open>auto simp: dr.stands_def\<close>)

lemma among_start_step:
  assumes "pg_laws (pg E)" and "dr.stands (E, a) i evs st aprs w"
    and "\<And>k w'. k \<notin> fst ` set st \<Longrightarrow> dr.stands (E, a) i evs (st @ [(k, ty, ''running'')]) aprs w' \<Longrightarrow> Q k w'"
    and "\<And>x w'. demo_halt E D i st ty w' \<Longrightarrow> X x w'"
  shows "among E i (atomic (create_task E ty i p)) Q X w"
  by (rule among_stands [OF proper_create_task [OF assms(1)] assms(2) TrueI],
      rule wp_start_step [OF assms(1)], assumption, erule (1) assms(3), erule assms(4))

lemma among_end_step:
  assumes "pg_laws (pg E)" and "dr.stands (E, a) i evs (st @ [(k, ty, s)]) aprs w" and "k \<notin> fst ` set st"
    and "\<And>x w'. demo_halt E D i st ty w' \<Longrightarrow> X x w'"
  shows "(\<And>w'. dr.stands (E, a) i evs (st @ [(k, ty, ''completed'')]) aprs w' \<Longrightarrow> Q () w') \<Longrightarrow>
      among E i (atomic (complete_task E k r)) Q X w"
    and "(\<And>w'. dr.stands (E, a) i evs (st @ [(k, ty, ''failed'')]) aprs w' \<Longrightarrow> Q () w') \<Longrightarrow>
      among E i (atomic (fail_task E k m)) Q X w"
  by (rule among_stands [OF proper_end_task(1) [OF assms(1)] assms(2)], erule step_owned, simp,
      rule wp_complete_step [OF assms(1) _ assms(3)], assumption, assumption, erule assms(4))
    (rule among_stands [OF proper_end_task(2) [OF assms(1)] assms(2)], erule step_owned, simp,
      rule wp_fail_step [OF assms(1) _ assms(3)], assumption, assumption, erule assms(4))

lemma among_give_up:
  fixes E :: "('r, 'd, 'v) env"
  assumes laws: "pg_laws (pg E)" and w: "dr.stands (E, a) i evs (st @ [(k, ty, s)]) aprs w" and k: "k \<notin> fst ` set st"
    and bad: "\<not> willing D" and exc: "\<And>x w'. demo_halt E D i st ty w' \<Longrightarrow> X x w'"
  shows "among E i (give_up_co E i k terr rerr msg) Q X w"
  unfolding give_up_co_def
proof (rule among_bind, rule among_end_step(2) [OF laws w k exc], assumption)
  fix w1 assume w1: "dr.stands (E, a) i evs (st @ [(k, ty, ''failed'')]) aprs w1"
  show "among E i (pbind (atomic (fail_demo E i rerr)) (\<lambda>_. Done (Inl (RuntimeError msg)))) Q X w1"
  proof (rule among_bind, rule among_stands [OF proper_run_row(4) [OF laws] w1 TrueI])
    fix u assume u: "dr.stands (E, a) i evs (st @ [(k, ty, ''failed'')]) aprs u"
    show "wp (fail_demo E i rerr) (\<lambda>_. among E i (Done (Inl (RuntimeError msg))) Q X) X u"
      by (rule wp_mono [OF wp_fail_demo [OF laws u [unfolded dr.stands_def prod.case]]])
        (use bad k in \<open>auto intro!: exc simp: demo_halt_def smooth_def\<close>)
  qed
qed

lemma among_run_process:
  assumes "dr.stands (E, a) i evs st aprs w"
    and "\<And>r w'. (willing D \<Longrightarrow> fst r = 0) \<Longrightarrow> dr.stands (E, a) i evs st aprs w' \<Longrightarrow> Q r w'"
    and "\<And>e w'. \<not> forge_answers D \<Longrightarrow> dr.stands (E, a) i evs st aprs w' \<Longrightarrow> X e w'"
  shows "among E i (atomic (run_process D cmd limit)) Q X w"
  by (rule among_stands [OF proper_beside(14) assms(1) TrueI], rule wp_run_process, assumption) (auto intro: assms(2,3))

lemma among_make_step:
  fixes E :: "('r, 'd, 'v) env" and w :: "('r, 'd, 'v) world"
  assumes laws: "pg_laws (pg E)" and w: "dr.stands (E, a) i evs st aprs w"
    and bad: "\<And>k rc out err w'. k \<notin> fst ` set st \<Longrightarrow> \<not> willing D \<Longrightarrow> dr.stands (E, a) i evs (st @ [(k, ty, ''running'')]) aprs w' \<Longrightarrow>
      among E i (fail k rc out err) Q X w'"
    and ret: "\<And>k w'. k \<notin> fst ` set st \<Longrightarrow> dr.stands (E, a) i evs (st @ [(k, ty, ''completed'')]) aprs w' \<Longrightarrow> Q () w'"
    and exc: "\<And>x w'. demo_halt E D i st ty w' \<Longrightarrow> X x w'"
  shows "among E i (pbind (atomic (create_task E ty i p)) (\<lambda>k.
     pbind (atomic (run_process D cmd limit)) (\<lambda>(rc, out, err).
       if rc \<noteq> 0 then fail k rc out err else atomic (complete_task E k (res out))))) Q X w"
proof (rule among_bind, rule among_start_step [OF laws w _ exc])
  fix k and w1 :: "('r, 'd, 'v) world"
  assume k: "k \<notin> fst ` set st" and w1: "dr.stands (E, a) i evs (st @ [(k, ty, ''running'')]) aprs w1"
  show "among E i (pbind (atomic (run_process D cmd limit)) (\<lambda>(rc, out, err).
       if rc \<noteq> 0 then fail k rc out err else atomic (complete_task E k (res out)))) Q X w1"
  proof (rule among_bind, rule among_run_process [OF w1, where D = D])
    fix r :: "int \<times> string \<times> string" and w2 :: "('r, 'd, 'v) world"
    assume zero: "willing D \<Longrightarrow> fst r = 0" and w2: "dr.stands (E, a) i evs (st @ [(k, ty, ''running'')]) aprs w2"
    obtain rc out err where r: "r = (rc, out, err)" by (cases r)
    have "among E i (atomic (complete_task E k (res out))) Q X w2"
      by (rule among_end_step(1) [OF laws w2 k exc]) (assumption, erule ret [OF k])
    with bad [OF k _ w2] zero show "among E i (case r of (rc, out, err) \<Rightarrow>
       if rc \<noteq> 0 then fail k rc out err else atomic (complete_task E k (res out))) Q X w2" by (auto simp: r)
  qed (rule exc, rule halt_standing(2), erule forge_not_smooth, assumption, rule k)
qed

lemma among_check_tools:
  assumes laws: "pg_laws (pg E)" and w: "dr.stands (E, a) i evs st aprs w"
    and ret: "\<And>k w'. k \<notin> fst ` set st \<Longrightarrow> dr.stands (E, a) i evs (st @ [(k, ''check_tools'', ''completed'')]) aprs w' \<Longrightarrow> Q () w'"
    and exc: "\<And>x w'. demo_halt E D i st ''check_tools'' w' \<Longrightarrow> X x w'"
  shows "among E i (check_tools_co E D i sc) Q X w"
  unfolding check_tools_co_def
  by (rule among_make_step [OF laws w, where D = D], rule among_give_up [OF laws, where D = D], assumption, assumption, assumption,
      erule exc, erule (1) ret, erule exc)

lemma among_capture:
  assumes laws: "pg_laws (pg E)" and w: "dr.stands (E, a) i evs st aprs w"
    and ret: "\<And>k w'. k \<notin> fst ` set st \<Longrightarrow> dr.stands (E, a) i evs (st @ [(k, ''capture'', ''completed'')]) aprs w' \<Longrightarrow> Q () w'"
    and exc: "\<And>x w'. demo_halt E D i st ''capture'' w' \<Longrightarrow> X x w'"
  shows "among E i (capture_co E D i sc) Q X w"
  unfolding capture_co_def
  by (rule among_make_step [OF laws w, where D = D], rule among_give_up [OF laws, where D = D], assumption, assumption, assumption,
      erule exc, erule (1) ret, erule exc)

lemma among_render:
  assumes laws: "pg_laws (pg E)" and w: "dr.stands (E, a) i evs st aprs w"
    and ret: "\<And>k s w'. s \<in> {''completed'', ''failed''} \<Longrightarrow> k \<notin> fst ` set st \<Longrightarrow>
      dr.stands (E, a) i evs (st @ [(k, ''render_mp4'', s)]) aprs w' \<Longrightarrow> Q () w'"
    and exc: "\<And>x w'. demo_halt E D i st ''render_mp4'' w' \<Longrightarrow> X x w'"
  shows "among E i (render_co E D i sc) Q X w"
  unfolding render_co_def
  by (rule among_make_step [OF laws w, where D = D], rule among_end_step(2) [OF laws, where D = D], assumption, assumption,
      erule exc, rule ret [where s = "''failed''"], simp, assumption, assumption,
      rule ret [where s = "''completed''"], simp, assumption, assumption, erule exc)

lemma among_manifest:
  fixes E :: "('r, 'd, 'v) env" and w :: "('r, 'd, 'v) world"
  assumes laws: "pg_laws (pg E)" and w: "dr.stands (E, a) i evs st aprs w"
    and ret: "\<And>k m w'. k \<notin> fst ` set st \<Longrightarrow> dr.stands (E, a) i evs (st @ [(k, ''manifest'', ''completed'')]) aprs w' \<Longrightarrow> Q m w'"
    and exc: "\<And>x w'. demo_halt E D i st ''manifest'' w' \<Longrightarrow> X x w'"
  shows "among E i (manifest_co E D i sc) Q X w"
  unfolding manifest_co_def
proof (rule among_bind, rule among_start_step [OF laws w _ exc])
  fix k and w1 :: "('r, 'd, 'v) world"
  let ?at = "dr.stands (E, a) i evs (st @ [(k, ''manifest'', ''running'')]) aprs"
  assume k: "k \<notin> fst ` set st" and w1: "?at w1"
  have tick: "?at (u\<lparr>w_tick := n\<rparr>) = ?at u" for u :: "('r, 'd, 'v) world" and n
    by (simp add: dr.stands_def view_of_def)
  have complete: "among E i (pbind (atomic (complete_task E k r)) (\<lambda>_. Done (Inr m))) Q X u" if "?at u" for r m u
    by (rule among_bind, rule among_end_step(1) [OF laws that k exc]) (assumption, simp add: ret [OF k])
  have build: "among E i (pbind (atomic (build_manifest E D sc)) (\<lambda>m. pbind (atomic (complete_task E k
      [(''artifact_count'', JInt (int (length (mf_artifacts m))))])) (\<lambda>_. Done (Inr m)))) Q X u" if "?at u" for u
    by (rule among_bind, rule among_stands [OF proper_beside(15) that TrueI], rule wp_build_manifest, assumption, erule complete,
        rule exc, rule halt_standing(2), erule forge_not_smooth, assumption, rule k)
  have give_up: "among E i (give_up_co E i k terr rerr msg) Q X u" if "?at u" "\<not> output_dir D p n" for terr rerr msg p n u
    by (rule among_give_up [OF laws that(1) k, where D = D]) (use that in \<open>auto simp: willing_def intro: exc\<close>)
  show "among E i (pbind (atomic fresh_tick) (\<lambda>n. if \<not> output_dir D (out_path D sc) n then
         give_up_co E i k ''DEMO_FORGE_MANIFEST_FAIL: outputs dir missing'' ''manifest computation failed''
           (''DEMO_FORGE_MANIFEST_FAIL: '' @ out_path D sc @ '' not found'')
       else pbind (atomic (build_manifest E D sc)) (\<lambda>m. pbind (atomic (complete_task E k
         [(''artifact_count'', JInt (int (length (mf_artifacts m))))])) (\<lambda>_. Done (Inr m))))) Q X w1"
    by (rule among_bind, rule among_stands [OF proper_beside(3) w1 TrueI]) (simp add: build give_up tick)
qed

lemma among_keep_manifest:
  assumes laws: "pg_laws (pg E)" and w: "dr.stands (E, a) i evs st aprs w"
    and ret: "\<And>m w'. dr.stands (E, a) i evs st aprs w' \<Longrightarrow> Q m w'"
    and exc: "\<And>x w'. \<not> smooth E D \<Longrightarrow> dr.stands (E, a) i evs st aprs w' \<Longrightarrow> X x w'"
  shows "among E i (atomic (keep_manifest E sc m)) Q X w"
  by (rule among_stands [OF proper_memory(3) [OF laws] w TrueI], rule wp_keep_manifest [OF laws, where D = D], assumption, erule ret, erule (1) exc)

lemma among_approve_demo:
  fixes E :: "('r, 'd, 'v) env" and w :: "('r, 'd, 'v) world"
  assumes laws: "pg_laws (pg E)" and w: "dr.stands (E, a) i evs st aprs w"
    and ret: "\<And>k b w'. k \<notin> fst ` set st \<Longrightarrow>
      dr.stands (E, a) i evs (st @ [(k, ''approve'', ''completed'')]) (aprs @ [b]) w' \<Longrightarrow> Q b w'"
    and exc: "\<And>x w'. demo_halt E D i st ''approve'' w' \<Longrightarrow> X x w'"
  shows "among E i (approve_demo_co E D i sc trigger m) Q X w"
  unfolding approve_demo_co_def
proof (rule among_bind, rule among_start_step [OF laws w _ exc])
  fix k and w1 :: "('r, 'd, 'v) world"
  let ?st = "st @ [(k, ''approve'', ''running'')]"
  assume k: "k \<notin> fst ` set st" and w1: "dr.stands (E, a) i evs ?st aprs w1"
  have halt: "X x u" if "\<not> smooth E D" "dr.stands (E, a) i evs ?st aprs' u" for x u aprs'
    by (rule exc, rule halt_standing(2) [OF that k])
  have complete: "among E i (pbind (atomic (complete_task E k r)) (\<lambda>_. Done (Inr b))) Q X u"
    if "dr.stands (E, a) i evs ?st (aprs @ [b]) u" for r b u
    by (rule among_bind, rule among_end_step(1) [OF laws that k exc]) (assumption, simp add: ret [OF k])
  have send: "among E i (pbind (send_co E req) (\<lambda>b. pbind (atomic (complete_task E k [(''approval_id'', JInt b)]))
      (\<lambda>_. Done (Inr b)))) Q X u"
    if "dr.stands (E, a) i evs ?st aprs u" "known_risk (ar_risk req)" "ar_workflow_id req = Some i" for req u
  proof (rule among_bind, rule among_send [OF laws that(1) [unfolded dr.stands_def prod.case] that(2,3)])
    show "X x u" if "\<not> (pg_healthy (pg E) \<and> uncancelled E)" "view_of E i u = Some (\<lparr>rv_status = ''running'',
        rv_events = evs, rv_steps = ?st, rv_approvals = aprs\<rparr>\<lparr>rv_approvals := as\<rparr>)" for as x u
      by (rule halt [where aprs' = as]) (use that in \<open>auto simp: smooth_def dr.stands_def\<close>)
  qed (rule complete, simp add: dr.stands_def)
  show "among E i (pbind (atomic (format_outputs E D m)) (\<lambda>outputs. pbind (send_co E
       \<lparr>ar_summary = ''Demo ready '' @ [em_dash] @ '' DEMO_'' @ sc @ '' ('' @ title_or sc ''unknown'' @ ''). Trigger: ''
          @ trigger @ ''. Approve to publish.'', ar_outputs = outputs, ar_affected = map art_name (mf_artifacts m),
        ar_risk = ''low'', ar_workflow_id = Some i, ar_task_id = Some k\<rparr>)
      (\<lambda>b. pbind (atomic (complete_task E k [(''approval_id'', JInt b)])) (\<lambda>_. Done (Inr b))))) Q X w1"
    by (rule among_bind, rule among_stands [OF proper_beside(16) w1 TrueI], rule wp_format_outputs, assumption, erule send,
        simp add: known_risk_def, simp, erule (1) halt [OF forge_not_smooth])
qed

lemma among_demo_tail:
  fixes E :: "('r, 'd, 'v) env" and w :: "('r, 'd, 'v) world"
  assumes laws: "pg_laws (pg E)" and at: "demo_at E skip i evs st [] (if skip then 2 else 3) w"
    and ret: "\<And>r v w'. view_of E i w' = Some v \<Longrightarrow> demo_done skip evs i sc r v \<Longrightarrow> Q r w'"
    and exc: "\<And>x v w'. view_of E i w' = Some v \<Longrightarrow> demo_stopped E D skip v \<Longrightarrow> X x w'"
  shows "among E i (pbind (manifest_co E D i sc) (\<lambda>m.
     pbind (atomic (keep_manifest E sc m)) (\<lambda>_.
     pbind (approve_demo_co E D i sc trigger m) (\<lambda>aid.
     pbind (atomic (finish_demo E aid i)) (\<lambda>_.
     Done (Inr [(''workflow_id'', JInt i), (''approval_id'', JInt aid), (''scenario'', JStr sc),
          (''artifact_count'', JInt (int (length (mf_artifacts m))))])))))) Q X w"
  (is "among E i (pbind _ (\<lambda>m. pbind _ (\<lambda>_. ?rest m))) Q X w" is "among E i (pbind _ (\<lambda>m. pbind _ (\<lambda>_. pbind _ (\<lambda>aid. ?end m aid)))) Q X w")
proof -
  let ?n = "if skip then 2 else 3"
  have n: "?n < length (demo_steps skip)" "''manifest'' = demo_steps skip ! ?n"
    "Suc ?n < length (demo_steps skip)" "''approve'' = demo_steps skip ! Suc ?n" "Suc (Suc ?n) = length (demo_steps skip)"
    by (auto simp: demo_steps_simps)
  have halt: "X x w''" if "demo_at E skip i evs st' aprs m w'" "m < length (demo_steps skip)" "ty = demo_steps skip ! m"
      "demo_halt E D i st' ty w''" for x st' aprs m ty and w' w'' :: "('r, 'd, 'v) world"
    using demo_at_halt [OF that] exc by blast
  have raised: "X x w''" if "demo_at E skip i evs st' aprs m w'" "\<not> smooth E D" "dr.stands (E, a) i evs st' aprs' w''"
    for x st' aprs aprs' m a and w' w'' :: "('r, 'd, 'v) world"
    using demo_at_raised [OF that] exc by blast
  have fin: "among E i (?end m b) Q X w1"
    if at1: "demo_at E skip i evs st1 [b] (length (demo_steps skip)) w1" for b m st1 and w1 :: "('r, 'd, 'v) world"
  proof (rule among_bind, rule among_stands [OF proper_run_row(5) [OF laws] demo_at_stands [OF at1] TrueI])
    fix u assume "dr.stands (E, 0) i evs st1 [b] u"
    then have u: "dr.stands (E, b) i evs st1 [b] u" by (simp add: dr.stands_def)
    show "wp (finish_demo E b i) (\<lambda>_. among E i (Done (Inr [(''workflow_id'', JInt i), (''approval_id'', JInt b), (''scenario'', JStr sc),
          (''artifact_count'', JInt (int (length (mf_artifacts m))))])) Q X) X u"
    proof (rule demo_rules(5) [OF laws u])
      show "X x w'" if "\<not> pg_healthy (pg E)" "dr.stands (E, b) i evs st1 [b] w'" for x w'
        by (rule raised [OF at1 not_smooth that(2)]) (rule that(1))
    next
      fix w' assume w': "view_of E i w' = Some \<lparr>rv_status = ''completed'', rv_events = evs @ [''demo_request_completed''],
          rv_steps = st1, rv_approvals = [b]\<rparr>"
      show "among E i (Done (Inr [(''workflow_id'', JInt i), (''approval_id'', JInt b), (''scenario'', JStr sc),
          (''artifact_count'', JInt (int (length (mf_artifacts m))))])) Q X w'"
        unfolding among_Done by (rule ret [OF w']) (use at1 in \<open>simp add: demo_at_def demo_done_def step_types_def get_or_def\<close>)
    qed
  qed
  have appr: "among E i (?rest m) Q X w1" if at1: "demo_at E skip i evs st1 [] (Suc ?n) w1" for m st1 and w1 :: "('r, 'd, 'v) world"
  proof (rule among_bind, rule among_approve_demo [OF laws demo_at_stands [OF at1], where D = D])
    fix k b and w' :: "('r, 'd, 'v) world"
    assume "k \<notin> fst ` set st1" "dr.stands (E, 0) i evs (st1 @ [(k, ''approve'', ''completed'')]) ([] @ [b]) w'"
    from demo_at_snoc [OF at1 this n(3,4)] show "among E i (?end m b) Q X w'" by (intro fin) (simp add: n(5))
  qed (rule halt [OF at1 n(3,4)])
  show ?thesis
  proof (rule among_bind, rule among_manifest [OF laws demo_at_stands [OF at], where D = D])
    fix k m and w1 :: "('r, 'd, 'v) world"
    assume k: "k \<notin> fst ` set st" and w1: "dr.stands (E, 0) i evs (st @ [(k, ''manifest'', ''completed'')]) [] w1"
    have at1: "demo_at E skip i evs (st @ [(k, ''manifest'', ''completed'')]) [] (Suc ?n) w'"
      if "dr.stands (E, 0) i evs (st @ [(k, ''manifest'', ''completed'')]) [] w'" for w'
      by (rule demo_at_snoc [OF at k that n(1,2)]) simp
    show "among E i (pbind (atomic (keep_manifest E sc m)) (\<lambda>_. ?rest m)) Q X w1"
      by (rule among_bind, rule among_keep_manifest [OF laws w1, where D = D], rule appr, erule at1)
        (rule raised [OF at1 [OF w1]], assumption, assumption)
  qed (rule halt [OF at n(1,2)])
qed

lemma among_demo_steps:
  fixes E :: "('r, 'd, 'v) env" and w :: "('r, 'd, 'v) world"
  assumes laws: "pg_laws (pg E)" and w: "dr.stands (E, 0) i evs [] [] w"
    and ret: "\<And>r v w'. view_of E i w' = Some v \<Longrightarrow> demo_done skip evs i sc r v \<Longrightarrow> Q r w'"
    and exc: "\<And>x v w'. view_of E i w' = Some v \<Longrightarrow> demo_stopped E D skip v \<Longrightarrow> X x w'"
  shows "among E i (demo_steps_co E D i sc trigger skip) Q X w"
proof -
  have n: "0 < length (demo_steps skip)" "''check_tools'' = demo_steps skip ! 0"
    "Suc 0 < length (demo_steps skip)" "''capture'' = demo_steps skip ! Suc 0"
    "\<not> skip \<Longrightarrow> Suc (Suc 0) < length (demo_steps skip)" "\<not> skip \<Longrightarrow> ''render_mp4'' = demo_steps skip ! Suc (Suc 0)"
    by (auto simp: demo_steps_simps)
  have halt: "X x w''" if "demo_at E skip i evs st' aprs m w'" "m < length (demo_steps skip)" "ty = demo_steps skip ! m"
      "demo_halt E D i st' ty w''" for x st' aprs m ty and w' w'' :: "('r, 'd, 'v) world"
    using demo_at_halt [OF that] exc by blast
  note tail = among_demo_tail [OF laws _ ret exc, where D = D]
  have at: "demo_at E skip i evs [] [] 0 w" using w by (simp add: demo_at_def)
  have render: "among E i (if \<not> skip then render_co E D i sc else Done (Inr ())) R X u"
    if at2: "demo_at E skip i evs st [] (Suc (Suc 0)) u" and r: "\<And>st' u'. demo_at E skip i evs st' [] (if skip then 2 else 3) u' \<Longrightarrow> R () u'"
    for R st u
  proof (cases skip)
    case False
    have "among E i (render_co E D i sc) R X u"
    proof (rule among_render [OF laws demo_at_stands [OF at2], where D = D])
      fix k s and u' :: "('r, 'd, 'v) world"
      assume s: "s \<in> {''completed'', ''failed''}" and k: "k \<notin> fst ` set st"
        and u': "dr.stands (E, 0) i evs (st @ [(k, ''render_mp4'', s)]) [] u'"
      show "R () u'"
        by (rule r [where st' = "st @ [(k, ''render_mp4'', s)]"]) (use demo_at_snoc [OF at2 k u' n(5,6)] False s in \<open>auto simp: numeral_3_eq_3\<close>)
    qed (rule halt [OF at2 n(5,6)], (rule False)+)
    with False show ?thesis by simp
  next
    case True
    with r [of st u] at2 show ?thesis by (simp add: numeral_2_eq_2)
  qed
  show ?thesis
    unfolding demo_steps_co_def
  proof (rule among_bind, rule among_check_tools [OF laws w, where D = D], rule among_bind)
    fix k1 and w1 :: "('r, 'd, 'v) world"
    assume "k1 \<notin> fst ` set ([] :: (int \<times> string \<times> string) list)" "dr.stands (E, 0) i evs ([] @ [(k1, ''check_tools'', ''completed'')]) [] w1"
    note at1 = demo_at_snoc [OF at this n(1,2), simplified]
    show "among E i (capture_co E D i sc) (\<lambda>_. among E i (pbind (if \<not> skip then render_co E D i sc else Done (Inr ())) (\<lambda>_.
        pbind (manifest_co E D i sc) (\<lambda>m. pbind (atomic (keep_manifest E sc m)) (\<lambda>_.
        pbind (approve_demo_co E D i sc trigger m) (\<lambda>aid. pbind (atomic (finish_demo E aid i)) (\<lambda>_.
        Done (Inr [(''workflow_id'', JInt i), (''approval_id'', JInt aid), (''scenario'', JStr sc),
          (''artifact_count'', JInt (int (length (mf_artifacts m))))]))))))) Q X) X w1"
    proof (rule among_capture [OF laws demo_at_stands [OF at1], where D = D], rule among_bind)
      fix k2 and w2 :: "('r, 'd, 'v) world"
      assume k2: "k2 \<notin> fst ` set [(k1, ''check_tools'', ''completed'')]"
        and w2: "dr.stands (E, 0) i evs ([(k1, ''check_tools'', ''completed'')] @ [(k2, ''capture'', ''completed'')]) [] w2"
      note at2 = demo_at_snoc [OF at1 k2 w2 n(3,4), simplified]
      show "among E i (if \<not> skip then render_co E D i sc else Done (Inr ())) (\<lambda>_. among E i (
        pbind (manifest_co E D i sc) (\<lambda>m. pbind (atomic (keep_manifest E sc m)) (\<lambda>_.
        pbind (approve_demo_co E D i sc trigger m) (\<lambda>aid. pbind (atomic (finish_demo E aid i)) (\<lambda>_.
        Done (Inr [(''workflow_id'', JInt i), (''approval_id'', JInt aid), (''scenario'', JStr sc),
          (''artifact_count'', JInt (int (length (mf_artifacts m))))])))))) Q X) X w2"
        by (rule render [OF at2], erule tail)
    qed (rule halt [OF at1 n(3,4)])
  qed (rule halt [OF at n(1,2)])
qed

section \<open>The other coroutines\<close>

text \<open>How a demo request ends: refused before it had a workflow, or done, or where it stopped.\<close>

definition demo_ends :: "('r, 'd, 'v) env \<Rightarrow> demo_env \<Rightarrow> dict \<Rightarrow> exn + dict \<Rightarrow> int option \<Rightarrow> ('r, 'd, 'v) world \<Rightarrow> bool" where
  "demo_ends E D payload r own w \<longleftrightarrow>
     (case own of
        None \<Rightarrow> (\<exists>x. r = Inl x)
      | Some i \<Rightarrow> (\<exists>v. view_of E i w = Some v \<and>
          (case r of
             Inr d \<Rightarrow> demo_done (truthy (get_or payload ''skip_render'' (JBool False))) [''demo_request_started''] i
               (scenario_of payload) d v
           | Inl x \<Rightarrow> demo_stopped E D (truthy (get_or payload ''skip_render'' (JBool False))) v)))"

lemma well_demo:
  fixes E :: "('r, 'd, 'v) env"
  assumes laws: "pg_laws (pg E)"
  shows "el.well E (demo_co E D payload) None w (demo_ends E D payload)"
proof -
  let ?sc = "scenario_of payload" and ?trigger = "py_str (get_or payload ''trigger'' (JStr ''manual''))"
    and ?skip = "truthy (get_or payload ''skip_render'' (JBool False))"
  let ?evs = "[''demo_request_started'']"
  have run: "el.well E (pbind (atomic (bind_workflow (Some i))) (\<lambda>token.
      pfinally (demo_steps_co E D i ?sc ?trigger ?skip) (atomic (reset_workflow token)))) (Some i) u (demo_ends E D payload)"
    if r: "dr.stands (E, 0) i ?evs [] [] u" for i and u :: "('r, 'd, 'v) world"
  proof (rule well_among, rule among_bound)
    let ?v = "\<lparr>rv_status = ''running'', rv_events = ?evs, rv_steps = [], rv_approvals = []\<rparr>"
    show "view_of E i u = Some ?v" using r by (simp add: dr.stands_def)
    fix u' assume "view_of E i u' = Some ?v"
    then have u': "dr.stands (E, 0) i ?evs [] [] u'" by (simp add: dr.stands_def)
    show "among E i (demo_steps_co E D i ?sc ?trigger ?skip)
      (\<lambda>d u. \<exists>v. view_of E i u = Some v \<and> demo_done ?skip ?evs i ?sc d v)
      (\<lambda>x u. \<exists>v. view_of E i u = Some v \<and> demo_stopped E D ?skip v) u'"
      by (rule among_demo_steps [OF laws u', where D = D]) blast+
  qed (simp_all add: demo_ends_def)
  have new: "el.well E (atomic (create_demo E D ?sc ?trigger ?skip)) None u
      (\<lambda>r own w. case r of Inr i \<Rightarrow> own = Some i \<and> dr.stands (E, 0) i ?evs [] [] w | Inl _ \<Rightarrow> own = None)" for u
    by (rule well_takes [OF proper_create(2) [OF laws] creates(2) [OF laws]], rule wp_create_demo [OF laws]) auto
  have tick: "el.well E (atomic fresh_tick) None w (\<lambda>r own _. own = None \<and> (\<exists>n. r = Inr n))"
    by (rule well_none [OF proper_beside(3)]) simp
  have "el.well E (pbind (atomic fresh_tick) (\<lambda>n. if \<not> has_makefile D n then Done (Inl (no_makefile D)) else
      pbind (atomic (create_demo E D ?sc ?trigger ?skip)) (\<lambda>i. pbind (atomic (bind_workflow (Some i))) (\<lambda>token.
      pfinally (demo_steps_co E D i ?sc ?trigger ?skip) (atomic (reset_workflow token)))))) None w (demo_ends E D payload)"
  proof (rule el.well_bind [OF tick])
    fix n and own :: "int option" and u :: "('r, 'd, 'v) world" assume "own = None \<and> (\<exists>m. (Inr n :: exn + nat) = Inr m)"
    then have own: "own = None" by simp
    have "el.well E (pbind (atomic (create_demo E D ?sc ?trigger ?skip)) (\<lambda>i. pbind (atomic (bind_workflow (Some i))) (\<lambda>token.
        pfinally (demo_steps_co E D i ?sc ?trigger ?skip) (atomic (reset_workflow token))))) None u (demo_ends E D payload)"
    proof (rule el.well_bind [OF new])
      fix i own' and u' :: "('r, 'd, 'v) world"
      assume "case Inr i of Inr i \<Rightarrow> own' = Some i \<and> dr.stands (E, 0) i ?evs [] [] u' | Inl _ \<Rightarrow> own' = None"
      then have own': "own' = Some i" "dr.stands (E, 0) i ?evs [] [] u'" by simp_all
      show "el.well E (pbind (atomic (bind_workflow (Some i))) (\<lambda>token.
          pfinally (demo_steps_co E D i ?sc ?trigger ?skip) (atomic (reset_workflow token)))) own' u' (demo_ends E D payload)"
        unfolding own'(1) by (rule run [OF own'(2)])
    qed (simp add: demo_ends_def)
    then show "el.well E (if \<not> has_makefile D n then Done (Inl (no_makefile D)) else
      pbind (atomic (create_demo E D ?sc ?trigger ?skip)) (\<lambda>i. pbind (atomic (bind_workflow (Some i))) (\<lambda>token.
      pfinally (demo_steps_co E D i ?sc ?trigger ?skip) (atomic (reset_workflow token))))) own u (demo_ends E D payload)"
      unfolding own by (simp add: demo_ends_def)
  qed simp
  then show ?thesis unfolding demo_co_def Let_def by (simp add: demo_ends_def)
qed

text \<open>
  A run of the daily summary owns nothing. What it reports is a summary of the table, its own or the
  one it found, with the date it reports.
\<close>

definition recorded :: "dict \<Rightarrow> tables \<Rightarrow> bool" where
  "recorded d t \<longleftrightarrow>
     (\<exists>m\<in>set (memories t). mem_category m = daily_category \<and> get_or d ''memory_id'' JNull = JInt (mem_id m) \<and>
        (\<exists>s. get_or d ''date'' JNull = JStr s \<and> ran_on s m))"

definition daily_ends :: "('r, 'd, 'v) env \<Rightarrow> exn + dict \<Rightarrow> int option \<Rightarrow> ('r, 'd, 'v) world \<Rightarrow> bool" where
  "daily_ends E r own w \<longleftrightarrow> own = None \<and> (\<forall>d. r = Inr d \<longrightarrow> recorded d (db E w))"

lemma evolves_memory:
  assumes "evolves t t'" and "m \<in> set (memories t)"
  shows "\<exists>m'\<in>set (memories t'). unembedded m' = unembedded m"
proof -
  from assms(1) have "set (map unembedded (memories t)) \<subseteq> set (map unembedded (memories t'))"
    by (intro set_mono_prefix) (simp add: evolves_def)
  with assms(2) have "unembedded m \<in> unembedded ` set (memories t')" by auto
  then show ?thesis by auto
qed

lemma recorded_later: "recorded d t \<Longrightarrow> evolves t t' \<Longrightarrow> recorded d t'"
proof -
  have u: "mem_category a = mem_category b \<and> mem_id a = mem_id b \<and> mem_meta a = mem_meta b"
    if "unembedded a = unembedded b" for a b
    using that by (cases a; cases b) (simp add: unembedded_def)
  assume "recorded d t" "evolves t t'"
  then obtain m s where "m \<in> set (memories t)" and m: "mem_category m = daily_category"
    "get_or d ''memory_id'' JNull = JInt (mem_id m)" "get_or d ''date'' JNull = JStr s" "ran_on s m"
    unfolding recorded_def by blast
  with evolves_memory [OF \<open>evolves t t'\<close>] obtain m' where "m' \<in> set (memories t')" "unembedded m' = unembedded m" by blast
  with u [of m' m] m show ?thesis unfolding recorded_def by (auto simp: ran_on_def)
qed

lemma daily_raises [simp]: "daily_ends E (Inl e) None w"
  by (simp add: daily_ends_def)

lemma well_reads: "(\<And>K. proper E None K m) \<Longrightarrow> el.well E (atomic m) None w (\<lambda>_ own _. own = None)"
  by (rule well_none) (simp_all add: wp_def split: prod.split sum.split)

lemma daily_bind:
  "(\<And>K. proper E None K m) \<Longrightarrow> (\<And>a u. el.well E (k a) None u (daily_ends E)) \<Longrightarrow> el.well E (pbind (atomic m) k) None w (daily_ends E)"
  "(\<And>a. el.well E (h a) None w (daily_ends E)) \<Longrightarrow> el.well E (pbind (Done r) h) None w (daily_ends E)"
  by (rule el.well_bind [OF well_reads], auto) (cases r, auto)

lemma daily_depths:
  fixes E :: "('r, 'd, 'v) env"
  assumes "\<And>a u. el.well E (k a) None u (daily_ends E)"
  shows "el.well E (pbind (depths_co E) k) None w (daily_ends E)"
proof -
  have d: "proper E None K (depth E q)" for q K unfolding depth_def by (rule proper_beside(12))
  have "el.well E (depths_co E) None w (\<lambda>_ own _. own = None)"
    unfolding depths_co_def
    by (rule el.well_bind [OF well_reads [OF d]], auto intro!: el.well_bind [OF well_reads [OF d]])
  then show ?thesis by (rule el.well_bind) (auto intro: assms)
qed

lemma well_write_summary:
  fixes E :: "('r, 'd, 'v) env"
  assumes laws: "pg_laws (pg E)"
  shows "el.well E (write_summary_co E D now) None w (daily_ends E)"
proof -
  have gather: "proper E None K (gather_counts E a b)" for K a b
    by (rule proper_keeps, rule keepsI, rule wp_mono [OF body_gather_counts [OF laws]]) auto
  have tail: "el.well E (pbind (atomic fresh_tick) (\<lambda>k. pbind (Done (make_log_dir D k)) (\<lambda>_. pbind (atomic (append_summary E now i s)) (\<lambda>_.
      Done (Inr d))))) None u (daily_ends E)" if d: "recorded d (db E u)" for i s d and u :: "('r, 'd, 'v) world"
  proof -
    have keep: "el.well E (atomic m) None u' (\<lambda>_ own w. own = None \<and> recorded d (db E w))"
      if "recorded d (db E u')" "\<And>K. proper E None K m" "keeps (db E) m" for u' and m :: "('r, 'd, 'v, 'x) act"
      by (rule well_later [OF that(2)], rule wp_mono [OF keeps_wp [OF that(3)]])
        (use recorded_later [OF that(1)] in auto)
    have app: "keeps (db E) (append_summary E now i s)" unfolding append_summary_def Let_def by (intro wp_ops)
    have tick: "keeps (db E) fresh_tick" by (rule wp_ops)
    show ?thesis
    proof (rule el.well_bind [OF keep [OF d proper_beside(3) tick]])
      fix k and own :: "int option" and u' :: "('r, 'd, 'v) world" assume "own = None \<and> recorded d (db E u')"
      then have u': "own = None" "recorded d (db E u')" by simp_all
      have "el.well E (pbind (atomic (append_summary E now i s)) (\<lambda>_. Done (Inr d))) None u' (daily_ends E)"
        by (rule el.well_bind [OF keep [OF u'(2) proper_beside(20) app]]) (auto simp: daily_ends_def)
      then show "el.well E (pbind (Done (make_log_dir D k)) (\<lambda>_. pbind (atomic (append_summary E now i s)) (\<lambda>_. Done (Inr d)))) own u' (daily_ends E)"
        unfolding u'(1) by (rule daily_bind(2))
    qed simp
  qed
  have row: "el.well E (atomic (session_scope E (add_memory E (summary_row now s)))) None u
      (\<lambda>r own w. own = None \<and> (\<forall>i. r = Inr i \<longrightarrow> recorded (summary_report now s i) (db E w)))" for s and u :: "('r, 'd, 'v) world"
    by (rule well_none [OF proper_memory(1) [OF laws]], rule wp_session_scope [OF laws session_body_statements(3) [OF laws]])
      (auto simp: recorded_def summary_report_def summary_row_def stamp_memory_def blank_memory_def ran_on_def get_or_def)
  have add: "el.well E (pbind (atomic (session_scope E (add_memory E (summary_row now s)))) (\<lambda>i. pbind (atomic fresh_tick) (\<lambda>k.
      pbind (Done (make_log_dir D k)) (\<lambda>_. pbind (atomic (append_summary E now i s)) (\<lambda>_. Done (Inr (summary_report now s i))))))) None u
      (daily_ends E)" for s and u :: "('r, 'd, 'v) world"
    by (rule el.well_bind [OF row]) (auto intro: tail)
  show ?thesis
    unfolding write_summary_co_def Let_def summary_report_def [symmetric]
    by (rule daily_bind(1) [OF gather], rule daily_depths, rule daily_bind(1) [OF proper_beside(3)],
        rule daily_bind(2), rule add)
qed

lemma well_daily:
  fixes E :: "('r, 'd, 'v) env"
  assumes laws: "pg_laws (pg E)"
  shows "el.well E (daily_co E D) None w (daily_ends E)"
proof -
  have "proper E None K (session_scope E (latest_summary E))" for K
    by (rule proper_session [OF laws body_latest_summary [OF laws]]) auto
  then have find: "el.well E (atomic (session_scope E (latest_summary E))) None u
      (\<lambda>r own w. own = None \<and> (\<forall>m. r = Inr (Some m) \<longrightarrow> m \<in> set (summaries (db E w))))" for u
    by (rule well_none, intro wp_session_scope [OF laws body_latest_summary [OF laws]]) (auto simp: newest_def)
  have found: "daily_ends E (Inr (already_ran (mem_id m) (iso_date now))) None u"
    if "m \<in> set (summaries (db E u))" "ran_on (iso_date now) m" for m now and u :: "('r, 'd, 'v) world"
    using that by (auto simp: daily_ends_def recorded_def already_ran_def summaries_def get_or_def)
  show ?thesis
    unfolding daily_co_def
    by (rule daily_bind(1) [OF proper_beside(1)], rule el.well_bind [OF find])
      (auto split: option.split intro: found well_write_summary [OF laws])
qed

end
