(* ===== verification/Side_By_Side.thy ===== *)
theory Side_By_Side
  imports Concurrent_Demos Api
begin

text \<open>
  The event loop of \<^verbatim>\<open>core/orchestrator/main.py\<close>: any number of handler runs, summaries and decisions,
  begun at any time and switched at any await. The theorems are about every state it can reach.
\<close>

section \<open>The coroutines of the loop\<close>

text \<open>Two endpoints of the API.\<close>

definition decide_co :: "('r, 'd, 'v) env \<Rightarrow> string option \<Rightarrow> int \<Rightarrow> string \<Rightarrow> (('r, 'd, 'v) world, dict) proc" where
  "decide_co E authorization i decision =
     pbind (Done (require_token (cfg E) authorization)) (\<lambda>_.
     pbind (atomic (decide E i decision)) (\<lambda>found.
       if \<not> found then Done (Inl (not_found ''approval''))
       else Done (Inr [(''approval_id'', JInt i), (''decision'', JStr decision)])))"

definition run_now_co :: "('r, 'd, 'v) env \<Rightarrow> daily_env \<Rightarrow> string option \<Rightarrow> (('r, 'd, 'v) world, dict) proc" where
  "run_now_co E D authorization = pbind (Done (require_token (cfg E) authorization)) (\<lambda>_. daily_co E D)"

lemma alone_api:
  "alone (decide_co E h i d) = decide_approval E h i d" "alone (run_now_co E D h) = run_summary_now E D h"
  by (simp_all add: decide_co_def decide_approval_def run_now_co_def run_summary_now_def gated_def alone_lift alone_daily cong: if_cong)

lemma well_decide: "pg_laws (pg E) \<Longrightarrow> el.well E (decide_co E h i d) None w (\<lambda>_ own _. own = None)"
proof -
  assume laws: "pg_laws (pg E)"
  have "el.well E (pbind (atomic (decide E i d)) (\<lambda>found. if \<not> found then Done (Inl (not_found ''approval''))
      else Done (Inr [(''approval_id'', JInt i), (''decision'', JStr d)]))) None w (\<lambda>_ own _. own = None)"
    by (rule el.well_bind [OF well_reads [OF proper_decide [OF laws]]]) auto
  then show ?thesis unfolding decide_co_def by (cases "require_token (cfg E) h") simp_all
qed

lemma well_run_now: "pg_laws (pg E) \<Longrightarrow> el.well E (run_now_co E D h) None w (daily_ends E)"
  unfolding run_now_co_def by (cases "require_token (cfg E) h") (simp_all add: well_daily)

text \<open>What the loop runs: a job of a worker, the summary of the scheduler, a request to the API.\<close>

datatype entry = Commit_Run dict | Demo_Run dict | Scheduled_Summary | Summary_Request "string option"
  | Decision_Request "string option" int string

fun coroutine_of :: "('r, 'd, 'v) env \<Rightarrow> demo_env \<Rightarrow> daily_env \<Rightarrow> entry \<Rightarrow> (('r, 'd, 'v) world, dict) proc" where
  "coroutine_of E D S (Commit_Run payload) = commit_co E payload"
| "coroutine_of E D S (Demo_Run payload) = demo_co E D payload"
| "coroutine_of E D S Scheduled_Summary = daily_co E S"
| "coroutine_of E D S (Summary_Request h) = run_now_co E S h"
| "coroutine_of E D S (Decision_Request h i d) = decide_co E h i d"

fun outcome :: "('r, 'd, 'v) env \<Rightarrow> demo_env \<Rightarrow> entry \<Rightarrow> exn + dict \<Rightarrow> int option \<Rightarrow> ('r, 'd, 'v) world \<Rightarrow> bool" where
  "outcome E D (Commit_Run payload) r own w = commit_ends E r own w"
| "outcome E D (Demo_Run payload) r own w = demo_ends E D payload r own w"
| "outcome E D (Decision_Request h i d) r own w = (own = None)"
| "outcome E D Scheduled_Summary r own w = daily_ends E r own w"
| "outcome E D (Summary_Request h) r own w = daily_ends E r own w"

lemma outcome_of:
  "outcome E D (Commit_Run p) = commit_ends E" "outcome E D (Demo_Run p) = demo_ends E D p"
  "outcome E D Scheduled_Summary = daily_ends E" "outcome E D (Summary_Request h) = daily_ends E"
  "outcome E D (Decision_Request h i d) = (\<lambda>_ own _. own = None)"
  by (simp_all add: fun_eq_iff)

lemma well_entry: "pg_laws (pg E) \<Longrightarrow> el.well E (coroutine_of E D S en) None w (outcome E D en)"
  by (cases en) (simp_all add: outcome_of well_commit well_demo well_daily well_run_now well_decide)

section \<open>The loop\<close>

text \<open>
  The world, and the tasks with the context variables of each. \<open>Turn\<close> is the next await of one of
  them, \<open>Begin\<close> begins one, \<open>Gone\<close> is one that is cancelled at its await, or finished and forgotten, and \<open>Beside\<close>
  is what everybody else does beside the database: the watchers, the clock, whoever uses Redis or
  only reads rows. \<open>B\<close> bounds it where a theorem needs a bound.
\<close>

record ('r, 'd, 'v) running =
  rn_entry :: entry
  rn_context :: context_vars
  rn_rest :: "(('r, 'd, 'v) world, dict) proc"

record ('r, 'd, 'v) event_loop =
  lp_world :: "('r, 'd, 'v) world"
  lp_tasks :: "('r, 'd, 'v) running list"

inductive loop_step ::
  "('r, 'd, 'v) env \<Rightarrow> demo_env \<Rightarrow> daily_env \<Rightarrow> (('r, 'd, 'v) world \<Rightarrow> ('r, 'd, 'v) world \<Rightarrow> bool) \<Rightarrow>
     ('r, 'd, 'v) event_loop \<Rightarrow> ('r, 'd, 'v) event_loop \<Rightarrow> bool"
  for E D S B where
  Turn: "j < length (lp_tasks s) \<Longrightarrow> rn_rest (lp_tasks s ! j) = Await u n \<Longrightarrow>
    v = (lp_world s)\<lparr>w_ctx := rn_context (lp_tasks s ! j)\<rparr> \<Longrightarrow>
    loop_step E D S B s (s\<lparr>lp_world := u v,
      lp_tasks := (lp_tasks s)[j := (lp_tasks s ! j)\<lparr>rn_context := w_ctx (u v), rn_rest := n v\<rparr>]\<rparr>)"
| Begin: "loop_step E D S B s
    (s\<lparr>lp_tasks := lp_tasks s @ [\<lparr>rn_entry = en, rn_context = c, rn_rest = coroutine_of E D S en\<rparr>]\<rparr>)"
| Gone: "j < length (lp_tasks s) \<Longrightarrow>
    loop_step E D S B s (s\<lparr>lp_tasks := take j (lp_tasks s) @ drop (Suc j) (lp_tasks s)\<rparr>)"
| Beside: "B (lp_world s) w \<Longrightarrow> db E w = db E (lp_world s) \<Longrightarrow> loop_step E D S B s (s\<lparr>lp_world := w\<rparr>)"

text \<open>The loop as a family of coroutines, each with its outcome; \<open>Z\<close> are the runs of before.\<close>

definition tasks_of :: "('r, 'd, 'v) env \<Rightarrow> demo_env \<Rightarrow> ('r, 'd, 'v) event_loop \<Rightarrow>
    ((('r, 'd, 'v) world, dict) proc \<times> (exn + dict \<Rightarrow> int option \<Rightarrow> ('r, 'd, 'v) world \<Rightarrow> bool)) list" where
  "tasks_of E D s = map (\<lambda>r. (rn_rest r, outcome E D (rn_entry r))) (lp_tasks s)"

lemma tasks_of_length [simp]: "length (tasks_of E D s) = length (lp_tasks s)"
  by (simp add: tasks_of_def)

lemma loop_step_together:
  assumes laws: "pg_laws (pg E)" and step: "loop_step E D S B s s'" and t: "el.together E Z (lp_world s) (tasks_of E D s)"
  shows "el.together E Z (lp_world s') (tasks_of E D s') \<and> evolves (db E (lp_world s)) (db E (lp_world s')) \<and>
    (\<forall>i\<in>Z. own_rows i (db E (lp_world s')) = own_rows i (db E (lp_world s)))"
  using step
proof cases
  case (Turn j u n v)
  let ?r = "lp_tasks s ! j"
  have v: "db E v = db E (lp_world s)" using Turn(4) by simp
  have "good (db E v)" using t v unfolding el.together_def by simp
  then have "el.together E Z v (tasks_of E D s)" by (rule el.together_beside [OF t]) (simp_all add: v)
  note moved = el.together_move [OF this, of j u n "outcome E D (rn_entry ?r)"]
  have at: "tasks_of E D s ! j = (Await u n, outcome E D (rn_entry ?r))" using Turn(2,3) by (simp add: tasks_of_def)
  have "tasks_of E D s' = (tasks_of E D s)[j := (n v, outcome E D (rn_entry ?r))]"
    using Turn by (simp add: tasks_of_def map_update)
  with moved at Turn(1,2) v show ?thesis by simp
next
  case (Begin en c)
  have "tasks_of E D s' = tasks_of E D s @ [(coroutine_of E D S en, outcome E D en)]"
    using Begin by (simp add: tasks_of_def)
  with Begin el.together_begin [OF t well_entry [OF laws]] show ?thesis by simp
next
  case (Gone j)
  have "tasks_of E D s' = take j (tasks_of E D s) @ drop (Suc j) (tasks_of E D s)"
    using Gone by (simp add: tasks_of_def take_map drop_map)
  with Gone el.together_drop [OF t, of j] show ?thesis by simp
next
  case (Beside w)
  have "good (db E w)" using t Beside unfolding el.together_def by simp
  then have "el.together E Z w (tasks_of E D s)" by (rule el.together_beside [OF t]) (simp_all add: Beside)
  with Beside show ?thesis by (simp add: tasks_of_def)
qed

lemma loop_together:
  assumes laws: "pg_laws (pg E)" and run: "(loop_step E D S B)\<^sup>*\<^sup>* s s'" and start: "lp_tasks s = []" "good (db E (lp_world s))"
  shows "el.together E (keys (db E (lp_world s))) (lp_world s') (tasks_of E D s') \<and> evolves (db E (lp_world s)) (db E (lp_world s')) \<and>
    (\<forall>i\<in>keys (db E (lp_world s)). own_rows i (db E (lp_world s')) = own_rows i (db E (lp_world s)))"
  using run
proof (induction rule: rtranclp_induct)
  case base
  show ?case using start el.together_none [of E "lp_world s" "keys (db E (lp_world s))"] by (simp add: tasks_of_def)
next
  case (step u v)
  from loop_step_together [OF laws step(2) conjunct1 [OF step(3)]] step(3) show ?case by (auto intro: evolves_trans)
qed

lemma loop_good:
  assumes "pg_laws (pg E)" and "(loop_step E D S B)\<^sup>*\<^sup>* s s'" and "lp_tasks s = []" and "good (db E (lp_world s))"
  shows "good (db E (lp_world s'))"
  using loop_together [OF assms] unfolding el.together_def by blast

section \<open>What the loop keeps\<close>

lemma own_rows_view_of:
  assumes "view_of E i w0 = Some v" and "el.since E (Some i) w0 w" and "good (db E w)"
  shows "view_of E i w = Some v"
proof -
  have "tables_ok (db E w0)" "tables_ok (db E w)" using assms(1,3) by (simp_all add: view_of_def run_of_Some good_def)
  from own_rows_view [OF this, of i] assms(1,2) show ?thesis by (simp add: el.since_def view_of_def)
qed

text \<open>What a finished coroutine left stays: its run is its own, and summaries are kept.\<close>

lemma outcome_since:
  assumes o: "outcome E D en r own w0" and s: "el.since E own w0 w" and g: "good (db E w)"
  shows "outcome E D en r own w"
proof -
  have v: "view_of E i w = Some v" if "own = Some i" "view_of E i w0 = Some v" for i v
    by (rule own_rows_view_of [OF that(2) _ g]) (use s that(1) in simp)
  have "recorded d (db E w0) \<Longrightarrow> recorded d (db E w)" for d
    by (erule recorded_later) (use s in \<open>simp add: el.since_def\<close>)
  with v o show ?thesis
    by (cases en) (auto simp: commit_ends_def demo_ends_def daily_ends_def split: option.splits sum.splits)
qed

lemma loop_outcomes:
  assumes t: "el.together E Z w (tasks_of E D s)"
  shows "\<exists>own. (\<forall>j<length (lp_tasks s). \<forall>i. own j = Some i \<longrightarrow>
        i \<notin> Z \<and> (\<forall>k<length (lp_tasks s). k \<noteq> j \<longrightarrow> own k \<noteq> Some i)) \<and>
      (\<forall>j<length (lp_tasks s). \<forall>r. rn_rest (lp_tasks s ! j) = Done r \<longrightarrow> outcome E D (rn_entry (lp_tasks s ! j)) r (own j) w)"
proof -
  from t obtain os where ok: "good (db E w)" and apart: "\<forall>j<length (lp_tasks s). \<forall>i. os ! j = Some i \<longrightarrow>
        i \<notin> Z \<and> (\<forall>k<length (lp_tasks s). k \<noteq> j \<longrightarrow> os ! k \<noteq> Some i)"
    and each: "\<And>j. j < length (lp_tasks s) \<Longrightarrow> \<exists>w0. el.since E (os ! j) w0 w \<and>
      el.well E (fst (tasks_of E D s ! j)) (os ! j) w0 (snd (tasks_of E D s ! j))"
    unfolding el.together_def tasks_of_length by blast
  have "outcome E D (rn_entry (lp_tasks s ! j)) r (os ! j) w" if j: "j < length (lp_tasks s)" "rn_rest (lp_tasks s ! j) = Done r" for j r
  proof -
    from each [OF j(1)] j obtain w0 where "el.since E (os ! j) w0 w" "outcome E D (rn_entry (lp_tasks s ! j)) r (os ! j) w0"
      by (auto simp: tasks_of_def)
    then show ?thesis by (auto intro: outcome_since ok)
  qed
  with apart show ?thesis by (intro exI [of _ "\<lambda>j. os ! j"]) blast
qed

text \<open>C10: However the event loop interleaves commit runs, demo requests, summaries and decisions at their
  awaits, and whatever is cancelled, every workflow, task, memory and approval id stays unique, every
  row keeps to the statuses, risk levels and decisions the code writes, a row is decided or completed
  exactly when its time says so, and tasks and approvals refer to workflows that exist.
\<close>

theorem interleaving_keeps_tables:
  assumes "pg_laws (pg E)" and "(loop_step E D S B)\<^sup>*\<^sup>* s s'" and "lp_tasks s = []"
    and "tables_ok (db E (lp_world s))" and "rows_ok (db E (lp_world s))"
  shows "tables_ok (db E (lp_world s')) \<and> rows_ok (db E (lp_world s'))"
proof -
  have "good (db E (lp_world s))" using assms(4,5) by (simp add: good_def)
  from loop_good [OF assms(1-3) this] show ?thesis by (simp add: good_def)
qed

text \<open>C11: Runs do not touch each other's rows: in every interleaving a workflow that no coroutine of the
  loop created keeps its row, its tasks and its approvals but for the operator's decisions, and no
  workflow, task, memory or approval is ever removed.
\<close>

theorem interleaving_isolates_runs:
  assumes "pg_laws (pg E)" and "(loop_step E D S B)\<^sup>*\<^sup>* s s'" and "lp_tasks s = []"
    and "tables_ok (db E (lp_world s))" and "rows_ok (db E (lp_world s))"
  shows "(\<forall>i\<in>keys (db E (lp_world s)). own_rows i (db E (lp_world s')) = own_rows i (db E (lp_world s))) \<and>
    evolves (db E (lp_world s)) (db E (lp_world s'))"
proof -
  have "good (db E (lp_world s))" using assms(4,5) by (simp add: good_def)
  from loop_together [OF assms(1-3) this] show ?thesis by blast
qed


section \<open>The handlers are one of the schedules\<close>

fun runs_alone :: "('r, 'd, 'v) env \<Rightarrow> demo_env \<Rightarrow> daily_env \<Rightarrow> entry \<Rightarrow> ('r, 'd, 'v, dict) act" where
  "runs_alone E D S (Commit_Run payload) = run_commit_pipeline E payload"
| "runs_alone E D S (Demo_Run payload) = run_demo_forge_request E D payload"
| "runs_alone E D S Scheduled_Summary = run_daily_summary E S"
| "runs_alone E D S (Summary_Request h) = run_summary_now E S h"
| "runs_alone E D S (Decision_Request h i d) = decide_approval E h i d"

lemma alone_coroutine: "alone (coroutine_of E D S en) = runs_alone E D S en"
  by (cases en) (simp_all add: alone_commit alone_demo alone_daily alone_api)

text \<open>One task makes all its turns while the others wait.\<close>

lemma turns_alone:
  assumes "j < length (lp_tasks s)" and "rn_rest (lp_tasks s ! j) = p"
    and "alone p ((lp_world s)\<lparr>w_ctx := rn_context (lp_tasks s ! j)\<rparr>) = (r, w')"
  shows "\<exists>c. (loop_step E D S B)\<^sup>*\<^sup>* s (s\<lparr>lp_world := w'\<lparr>w_ctx := c\<rparr>,
    lp_tasks := (lp_tasks s)[j := (lp_tasks s ! j)\<lparr>rn_context := w_ctx w', rn_rest := Done r\<rparr>]\<rparr>)"
  using assms
proof (induction p arbitrary: s)
  case (Done q)
  let ?v = "(lp_world s)\<lparr>w_ctx := rn_context (lp_tasks s ! j)\<rparr>"
  from Done(3) have q: "q = r" "w' = ?v" by (simp_all add: alone.simps)
  have "(lp_tasks s)[j := (lp_tasks s ! j)\<lparr>rn_context := w_ctx ?v, rn_rest := Done r\<rparr>] = lp_tasks s"
    using Done(2) q(1) by (simp add: list_update_same_conv Done(1))
  then show ?case unfolding q(2) by (intro exI [of _ "w_ctx (lp_world s)"]) simp
next
  case (Await u n)
  let ?r = "lp_tasks s ! j"
  let ?v = "(lp_world s)\<lparr>w_ctx := rn_context ?r\<rparr>"
  let ?s = "s\<lparr>lp_world := u ?v, lp_tasks := (lp_tasks s)[j := ?r\<lparr>rn_context := w_ctx (u ?v), rn_rest := n ?v\<rparr>]\<rparr>"
  have 1: "loop_step E D S B s ?s" by (rule Turn [OF Await(2,3) refl])
  have "\<exists>c. (loop_step E D S B)\<^sup>*\<^sup>* ?s (?s\<lparr>lp_world := w'\<lparr>w_ctx := c\<rparr>,
    lp_tasks := (lp_tasks ?s)[j := (lp_tasks ?s ! j)\<lparr>rn_context := w_ctx w', rn_rest := Done r\<rparr>]\<rparr>)"
    by (rule Await(1) [of "n ?v"]) (use Await(2-4) in simp_all)
  then obtain c where "(loop_step E D S B)\<^sup>*\<^sup>* ?s (?s\<lparr>lp_world := w'\<lparr>w_ctx := c\<rparr>,
    lp_tasks := (lp_tasks ?s)[j := (lp_tasks ?s ! j)\<lparr>rn_context := w_ctx w', rn_rest := Done r\<rparr>]\<rparr>)" ..
  with 1 Await(2) show ?case by (intro exI [of _ c]) (simp add: converse_rtranclp_into_rtranclp)
qed

lemma schedule_alone:
  assumes "runs_alone E D S en (w\<lparr>w_ctx := c\<rparr>) = (r, w')"
  shows "\<exists>c'. (loop_step E D S B)\<^sup>*\<^sup>* \<lparr>lp_world = w, lp_tasks = ts\<rparr>
       \<lparr>lp_world = w'\<lparr>w_ctx := c'\<rparr>, lp_tasks = ts @ [\<lparr>rn_entry = en, rn_context = w_ctx w', rn_rest = Done r\<rparr>]\<rparr>"
proof -
  let ?s = "\<lparr>lp_world = w, lp_tasks = ts @ [\<lparr>rn_entry = en, rn_context = c, rn_rest = coroutine_of E D S en\<rparr>]\<rparr>"
  have 1: "loop_step E D S B \<lparr>lp_world = w, lp_tasks = ts\<rparr> ?s"
    using Begin [of E D S B "\<lparr>lp_world = w, lp_tasks = ts\<rparr>" en c] by simp
  have "\<exists>c'. (loop_step E D S B)\<^sup>*\<^sup>* ?s (?s\<lparr>lp_world := w'\<lparr>w_ctx := c'\<rparr>,
      lp_tasks := (lp_tasks ?s)[length ts := (lp_tasks ?s ! length ts)\<lparr>rn_context := w_ctx w', rn_rest := Done r\<rparr>]\<rparr>)"
    by (rule turns_alone [where p = "coroutine_of E D S en"]) (simp_all add: alone_coroutine assms)
  then obtain c' where "(loop_step E D S B)\<^sup>*\<^sup>* ?s
       \<lparr>lp_world = w'\<lparr>w_ctx := c'\<rparr>, lp_tasks = ts @ [\<lparr>rn_entry = en, rn_context = w_ctx w', rn_rest = Done r\<rparr>]\<rparr>" by auto
  with 1 show ?thesis by (meson converse_rtranclp_into_rtranclp)
qed


section \<open>Runs side by side\<close>

text \<open>A commit run and a demo request over a table with a run of before, for the witnesses.\<close>

definition earlier :: tables where
  "earlier = empty_tables\<lparr>workflows := [(blank_workflow ''commit_pipeline'')
     \<lparr>wf_id := 7, wf_status := ''completed'', wf_logs := [JNull], wf_completed_at := Some 0\<rparr>]\<rparr>"

lemma earlier_good: "tables_ok earlier" "rows_ok earlier" "keys earlier = {7}"
  by (simp_all add: earlier_def empty_tables_def tables_ok_def refers_def rows_ok_def row_ok_defs keys_def blank_defs)

lemma two_runs:
  obtains s' d d' where "(loop_step tame_env small_forge no_log_file (\<lambda>_ _. True))\<^sup>*\<^sup>* \<lparr>lp_world = mem_world earlier, lp_tasks = []\<rparr> s'"
    and "map (\<lambda>r. (rn_entry r, rn_rest r)) (lp_tasks s') = [(Commit_Run small_payload, Done (Inr d)), (Demo_Run demo_payload, Done (Inr d'))]"
proof -
  let ?L = "(loop_step tame_env small_forge no_log_file (\<lambda>_ _. True))\<^sup>*\<^sup>*" and ?w = "mem_world earlier"
  let ?s0 = "\<lparr>lp_world = ?w, lp_tasks = []\<rparr>"
  obtain d w1 where d: "run_commit_pipeline tame_env small_payload (?w\<lparr>w_ctx := w_ctx ?w\<rparr>) = (Inr d, w1)"
    using pipeline_returns [OF tame_answering _ _ _ small_text_payload, of "?w"] earlier_good
    by (auto simp: held_def wp_def split: prod.splits sum.splits)
  let ?t1 = "\<lparr>rn_entry = Commit_Run small_payload, rn_context = w_ctx w1, rn_rest = Done (Inr d)\<rparr>"
  obtain c where 1: "?L ?s0 \<lparr>lp_world = w1\<lparr>w_ctx := c\<rparr>, lp_tasks = [?t1]\<rparr>"
    using schedule_alone [of tame_env small_forge no_log_file "Commit_Run small_payload" "w_ctx ?w" ?w "Inr d" w1 "\<lambda>_ _. True" "[]"] d by auto
  have "good (db tame_env (lp_world ?s0))" using earlier_good by (simp add: good_def)
  from loop_good [OF _ 1 _ this] have ok: "tables_ok (db tame_env (w1\<lparr>w_ctx := c\<rparr>))" by (simp add: good_def)
  have "wp (run_demo_forge_request tame_env small_forge demo_payload) (\<lambda>_ _. True) (\<lambda>_ _. False) (w1\<lparr>w_ctx := c\<rparr>)"
    by (rule wp_run_demo) (use ok small_forge_smooth in \<open>auto simp: demo_stopped_def valid_scenarios_def small_forge_def smooth_def\<close>)
  then obtain d' w2 where d': "run_demo_forge_request tame_env small_forge demo_payload (w1\<lparr>w_ctx := c\<rparr>) = (Inr d', w2)"
    by (auto simp: wp_def split: prod.splits sum.splits)
  obtain c' where "?L \<lparr>lp_world = w1\<lparr>w_ctx := c\<rparr>, lp_tasks = [?t1]\<rparr>
      \<lparr>lp_world = w2\<lparr>w_ctx := c'\<rparr>, lp_tasks = [?t1] @ [\<lparr>rn_entry = Demo_Run demo_payload, rn_context = w_ctx w2, rn_rest = Done (Inr d')\<rparr>]\<rparr>"
    using schedule_alone [of tame_env small_forge no_log_file "Demo_Run demo_payload" c "w1\<lparr>w_ctx := c\<rparr>" "Inr d'" w2 "\<lambda>_ _. True" "[?t1]"] d' by auto
  from rtranclp_trans [OF 1 this] show thesis by (rule that) simp
qed

theorem interleaving_keeps_tables_witness:
  "\<exists>s'. (loop_step tame_env small_forge no_log_file (\<lambda>_ _. True))\<^sup>*\<^sup>* \<lparr>lp_world = mem_world earlier, lp_tasks = []\<rparr> s' \<and>
     length (lp_tasks s') = 2 \<and> tables_ok (db tame_env (lp_world s')) \<and> rows_ok (db tame_env (lp_world s'))"
proof -
  obtain s' d d' where s': "(loop_step tame_env small_forge no_log_file (\<lambda>_ _. True))\<^sup>*\<^sup>* \<lparr>lp_world = mem_world earlier, lp_tasks = []\<rparr> s'"
    "map (\<lambda>r. (rn_entry r, rn_rest r)) (lp_tasks s') = [(Commit_Run small_payload, Done (Inr d)), (Demo_Run demo_payload, Done (Inr d'))]"
    by (rule two_runs)
  from arg_cong [OF s'(2), of length] have "length (lp_tasks s') = 2" by simp
  with interleaving_keeps_tables [OF _ s'(1)] s'(1) earlier_good show ?thesis by auto
qed

theorem interleaving_isolates_runs_witness:
  "\<exists>s' d d'. (loop_step tame_env small_forge no_log_file (\<lambda>_ _. True))\<^sup>*\<^sup>* \<lparr>lp_world = mem_world earlier, lp_tasks = []\<rparr> s' \<and>
     map rn_rest (lp_tasks s') = [Done (Inr d), Done (Inr d')] \<and> own_rows 7 (db tame_env (lp_world s')) = own_rows 7 earlier"
proof -
  obtain s' d d' where s': "(loop_step tame_env small_forge no_log_file (\<lambda>_ _. True))\<^sup>*\<^sup>* \<lparr>lp_world = mem_world earlier, lp_tasks = []\<rparr> s'"
    "map (\<lambda>r. (rn_entry r, rn_rest r)) (lp_tasks s') = [(Commit_Run small_payload, Done (Inr d)), (Demo_Run demo_payload, Done (Inr d'))]"
    by (rule two_runs)
  from arg_cong [OF s'(2), of "map snd"] have "map rn_rest (lp_tasks s') = [Done (Inr d), Done (Inr d')]" by (simp add: comp_def)
  with interleaving_isolates_runs [OF _ s'(1)] s'(1) earlier_good show ?thesis by auto
qed


section \<open>Two summaries on one day\<close>

text \<open>A turn of a task whose next await is \<open>m\<close>.\<close>

lemma turn_atomic:
  assumes "j < length (lp_tasks s)" and "rn_rest (lp_tasks s ! j) = pbind (atomic m) k"
    and "m ((lp_world s)\<lparr>w_ctx := rn_context (lp_tasks s ! j)\<rparr>) = (Inr a, v')"
  shows "loop_step E D S B s (s\<lparr>lp_world := v', lp_tasks := (lp_tasks s)[j := (lp_tasks s ! j)\<lparr>rn_context := w_ctx v', rn_rest := k a\<rparr>]\<rparr>)"
proof -
  have r: "rn_rest (lp_tasks s ! j) = Await (\<lambda>w. snd (m w)) (\<lambda>w. after (Done (fst (m w))) (\<lambda>r. case r of Inl e \<Rightarrow> Done (Inl e) | Inr a \<Rightarrow> k a))"
    using assms(2) by (simp add: pbind_def atomic_def)
  show ?thesis using Turn [OF assms(1) r refl, of E D S B] assms(3) by simp
qed

text \<open>The two turns by which a run of the summary finds none of today.\<close>

lemma turns_to_write:
  assumes laws: "pg_laws (pg E)" and j: "j < length (lp_tasks s)" and r: "rn_rest (lp_tasks s ! j) = daily_co E S"
    and reads: "\<And>w. \<exists>x w'. session_scope E (latest_summary E) w = (Inr x, w')"
    and today: "\<And>k. iso_date (clock E k) = today" and none: "\<forall>m\<in>set (summaries (db E (lp_world s))). \<not> ran_on today m"
  shows "\<exists>now w c. iso_date now = today \<and> db E w = db E (lp_world s) \<and>
    (loop_step E D S B)\<^sup>*\<^sup>* s (s\<lparr>lp_world := w, lp_tasks := (lp_tasks s)[j := (lp_tasks s ! j)\<lparr>rn_context := c, rn_rest := write_summary_co E S now\<rparr>]\<rparr>)"
proof -
  let ?v = "(lp_world s)\<lparr>w_ctx := rn_context (lp_tasks s ! j)\<rparr>"
  let ?now = "clock E (w_tick ?v)" and ?v1 = "?v\<lparr>w_tick := Suc (w_tick ?v)\<rparr>"
  let ?k = "\<lambda>now existing. case existing of
       Some r \<Rightarrow> if ran_on (iso_date now) r then Done (Inr (already_ran (mem_id r) (iso_date now))) else write_summary_co E S now
     | None \<Rightarrow> write_summary_co E S now"
  let ?s1 = "s\<lparr>lp_world := ?v1, lp_tasks := (lp_tasks s)[j := (lp_tasks s ! j)\<lparr>rn_context := w_ctx ?v1,
      rn_rest := pbind (atomic (session_scope E (latest_summary E))) (?k ?now)\<rparr>]\<rparr>"
  have now: "utc_now E ?v = (Inr ?now, ?v1)" by (simp add: utc_now_def bnd_def fresh_tick_def ret_def)
  have 1: "loop_step E D S B s ?s1"
    by (rule turn_atomic [where m = "utc_now E" and a = ?now]) (use j r now in \<open>simp_all add: daily_co_def\<close>)
  have same: "(lp_world s)\<lparr>w_tick := n, w_ctx := c\<rparr> = (lp_world s)\<lparr>w_ctx := c, w_tick := n\<rparr>" for n c by simp
  obtain x w' where x: "session_scope E (latest_summary E) ?v1 = (Inr x, w')" using reads [of ?v1] by blast
  have "wp (session_scope E (latest_summary E)) (\<lambda>x w'. db E w' = db E ?v1 \<and> newest (summaries (db E ?v1)) x) (\<lambda>_ _. True) ?v1"
    by (rule wp_session_scope [OF laws body_latest_summary [OF laws]]) simp_all
  from wp_returns [OF this x] have w': "db E w' = db E (lp_world s)" and n: "newest (summaries (db E (lp_world s))) x" by simp_all
  have k: "?k ?now x = write_summary_co E S ?now"
    using n none today by (auto simp: newest_def split: option.splits)
  have 2: "loop_step E D S B ?s1 (?s1\<lparr>lp_world := w', lp_tasks := (lp_tasks ?s1)[j := (lp_tasks ?s1 ! j)\<lparr>rn_context := w_ctx w',
      rn_rest := ?k ?now x\<rparr>]\<rparr>)"
    by (rule turn_atomic [where m = "session_scope E (latest_summary E)" and a = x]) (use j x in \<open>simp_all add: same\<close>)
  from 1 2 w' j today show ?thesis unfolding k
    by (intro exI [of _ ?now] exI [of _ w'] exI [of _ "w_ctx w'"]) (auto intro: converse_rtranclp_into_rtranclp)
qed

lemma turns_writing:
  assumes laws: "pg_laws (pg E)" "redis_laws (redis E)" and j: "j < length (lp_tasks s)"
    and r: "rn_rest (lp_tasks s ! j) = write_summary_co E S now"
    and writes: "\<And>now w. \<exists>d w'. write_summary E S now w = (Inr d, w')"
  shows "\<exists>w c st i. written (db E (lp_world s)) now st i (db E w) \<and>
    (loop_step E D S B)\<^sup>*\<^sup>* s (s\<lparr>lp_world := w, lp_tasks := (lp_tasks s)[j := (lp_tasks s ! j)\<lparr>rn_context := c,
      rn_rest := Done (Inr (summary_report now st i))\<rparr>]\<rparr>)"
proof -
  let ?v = "(lp_world s)\<lparr>w_ctx := rn_context (lp_tasks s ! j)\<rparr>"
  obtain d w where run: "write_summary E S now ?v = (Inr d, w)" using writes by blast
  from wp_returns [OF wp_write_summary [OF laws, of S now ?v] run]
  obtain st i where d: "d = summary_report now st i" and w: "written (db E (lp_world s)) now st i (db E w)" by auto
  have "alone (write_summary_co E S now) ?v = (Inr d, w)" by (simp add: alone_write_summary run)
  from turns_alone [OF j r this] obtain c where "(loop_step E D S B)\<^sup>*\<^sup>* s (s\<lparr>lp_world := w\<lparr>w_ctx := c\<rparr>,
    lp_tasks := (lp_tasks s)[j := (lp_tasks s ! j)\<lparr>rn_context := w_ctx w, rn_rest := Done (Inr d)\<rparr>]\<rparr>)" by blast
  with w show ?thesis unfolding d by (intro exI [of _ "w\<lparr>w_ctx := c\<rparr>"]) auto
qed

lemma written_today: "written t now st i t' \<Longrightarrow>
    length (filter (ran_on (iso_date now)) (summaries t')) = Suc (length (filter (ran_on (iso_date now)) (summaries t))) \<and>
    i \<notin> mem_id ` set (memories t) \<and> i \<in> mem_id ` set (memories t')"
  by (auto simp: written_def summaries_def ran_on_def stamp_memory_def summary_row_def blank_memory_def get_or_def)

text \<open>C13: The check for today's summary and its insertion are two sessions, so two runs can both write:
  when today has no summary yet, there is an interleaving of the scheduler and a request to
  \<^verbatim>\<open>/summary/run-now\<close> in which each reports a summary it wrote and the table holds two of
  the same date, for every environment in which a summary that finds none is written.
\<close>

theorem summaries_can_race:
  assumes laws: "pg_laws (pg E)" "redis_laws (redis E)" and h: "require_token (cfg E) h = Inr ()"
    and reads: "\<And>w. \<exists>x w'. session_scope E (latest_summary E) w = (Inr x, w')"
    and writes: "\<And>now w. \<exists>d w'. write_summary E S now w = (Inr d, w')"
    and today: "\<And>k. iso_date (clock E k) = today" and none: "\<forall>m\<in>set (summaries (db E w)). \<not> ran_on today m"
  shows "\<exists>s' d d' i i'. (loop_step E D S B)\<^sup>*\<^sup>* \<lparr>lp_world = w, lp_tasks = []\<rparr> s' \<and>
    map (\<lambda>r. (rn_entry r, rn_rest r)) (lp_tasks s') =
      [(Scheduled_Summary, Done (Inr d)), (Summary_Request h, Done (Inr d'))] \<and>
    get_or d ''memory_id'' JNull = JInt i \<and> get_or d' ''memory_id'' JNull = JInt i' \<and> i \<noteq> i' \<and>
    length (filter (ran_on today) (summaries (db E (lp_world s')))) = 2"
proof -
  let ?t = "\<lambda>en c p. \<lparr>rn_entry = en, rn_context = c, rn_rest = p\<rparr>"
  let ?A = "?t Scheduled_Summary" and ?B = "?t (Summary_Request h)" and ?c = "w_ctx w"
  let ?L = "(loop_step E D S B)\<^sup>*\<^sup>*" and ?s = "\<lambda>w a b. \<lparr>lp_world = w, lp_tasks = [a, b]\<rparr>"
  have co: "coroutine_of E D S (Summary_Request h) = daily_co E S" by (simp add: run_now_co_def h)
  have begin1: "loop_step E D S B \<lparr>lp_world = w, lp_tasks = []\<rparr> \<lparr>lp_world = w, lp_tasks = [?A ?c (daily_co E S)]\<rparr>"
    using Begin [of E D S B "\<lparr>lp_world = w, lp_tasks = []\<rparr>" Scheduled_Summary ?c] by simp
  have begin2: "loop_step E D S B \<lparr>lp_world = w, lp_tasks = [?A ?c (daily_co E S)]\<rparr> (?s w (?A ?c (daily_co E S)) (?B ?c (daily_co E S)))"
    using Begin [of E D S B "\<lparr>lp_world = w, lp_tasks = [?A ?c (daily_co E S)]\<rparr>" "Summary_Request h" ?c] by (simp add: co del: coroutine_of.simps)
  obtain n1 w1 c1 where 1: "iso_date n1 = today" "db E w1 = db E w"
    "?L (?s w (?A ?c (daily_co E S)) (?B ?c (daily_co E S))) (?s w1 (?A c1 (write_summary_co E S n1)) (?B ?c (daily_co E S)))"
    using turns_to_write [OF laws(1) _ _ reads today, where D = D and S = S and B = B and j = 0
        and s = "?s w (?A ?c (daily_co E S)) (?B ?c (daily_co E S))"] none by auto
  obtain n2 w2 c2 where 2: "iso_date n2 = today" "db E w2 = db E w1"
    "?L (?s w1 (?A c1 (write_summary_co E S n1)) (?B ?c (daily_co E S))) (?s w2 (?A c1 (write_summary_co E S n1)) (?B c2 (write_summary_co E S n2)))"
    using turns_to_write [OF laws(1) _ _ reads today, where D = D and S = S and B = B and j = 1
        and s = "?s w1 (?A c1 (write_summary_co E S n1)) (?B ?c (daily_co E S))"] none 1(2) by auto
  obtain w3 c3 st1 i1 where 3: "written (db E w2) n1 st1 i1 (db E w3)"
    "?L (?s w2 (?A c1 (write_summary_co E S n1)) (?B c2 (write_summary_co E S n2)))
      (?s w3 (?A c3 (Done (Inr (summary_report n1 st1 i1)))) (?B c2 (write_summary_co E S n2)))"
    using turns_writing [OF laws _ _ writes, where D = D and B = B and now = n1 and j = 0
        and s = "?s w2 (?A c1 (write_summary_co E S n1)) (?B c2 (write_summary_co E S n2))"] by auto
  obtain w4 c4 st2 i2 where 4: "written (db E w3) n2 st2 i2 (db E w4)"
    "?L (?s w3 (?A c3 (Done (Inr (summary_report n1 st1 i1)))) (?B c2 (write_summary_co E S n2)))
      (?s w4 (?A c3 (Done (Inr (summary_report n1 st1 i1)))) (?B c4 (Done (Inr (summary_report n2 st2 i2)))))"
    using turns_writing [OF laws _ _ writes, where D = D and B = B and now = n2 and j = 1
        and s = "?s w3 (?A c3 (Done (Inr (summary_report n1 st1 i1)))) (?B c2 (write_summary_co E S n2))"] by auto
  let ?fin = "?s w4 (?A c3 (Done (Inr (summary_report n1 st1 i1)))) (?B c4 (Done (Inr (summary_report n2 st2 i2))))"
  have run: "?L \<lparr>lp_world = w, lp_tasks = []\<rparr> ?fin"
    using begin1 begin2 1(3) 2(3) 3(2) 4(2) by (meson converse_rtranclp_into_rtranclp rtranclp_trans)
  have "filter (ran_on today) (summaries (db E w)) = []" using none by (simp add: filter_empty_conv)
  then have two: "length (filter (ran_on today) (summaries (db E w4))) = 2"
    using written_today [OF 3(1)] written_today [OF 4(1)] 1(1,2) 2(1,2) by simp
  have "i1 \<noteq> i2" using written_today [OF 3(1)] written_today [OF 4(1)] by metis
  with run two show ?thesis
    by (intro exI [of _ ?fin] exI [of _ "summary_report n1 st1 i1"] exI [of _ "summary_report n2 st2 i2"] exI [of _ i1] exI [of _ i2])
      (simp add: summary_report_def get_or_def)
qed

text \<open>The environment of the witnesses on a day that does not end.\<close>

abbreviation one_day :: "(mem_redis_state, mem_pg_state, unit) env" where
  "one_day \<equiv> quiet_env\<lparr>clock := \<lambda>_. 0\<rparr>"

lemma open_token: "require_token (default_settings dir) None = Inr ()"
  by (simp add: require_token_def default_settings_def)

lemma one_day_db: "db one_day (mem_world t) = t"
  using db_mem [of "default_settings ''/srv''" "\<lambda>_ _. Inl TimeoutError" "\<lambda>_ _ _. Inr (200, [])" "\<lambda>_ _ _. Inr ()" "mem_world t"]
  by (simp add: db_def)

lemma take_one: "take (Suc 0) xs = x # ys \<Longrightarrow> ys = []"
  by (cases xs) simp_all

lemma one_day_latest: "\<exists>x w'. session_scope one_day (latest_summary one_day) w = (Inr x, w')"
proof -
  have "wp (session_scope one_day (latest_summary one_day)) (\<lambda>_ _. True) (\<lambda>_ _. False) w"
    by (auto simp: latest_summary_def statement_defs session_scope_def scalar_one_or_none_def mem_pg_tables mem_table_run
        in_order_def take_limit_def Let_def split: list.splits dest: take_one)
  then show ?thesis by (auto simp: wp_def split: prod.splits sum.splits)
qed

lemma one_day_write: "\<exists>d w'. write_summary one_day no_log_file now w = (Inr d, w')"
proof -
  have "wp (write_summary one_day no_log_file now) (\<lambda>_ _. True) (\<lambda>_ _. False) w"
    by (simp add: write_summary_def gather_stats_def gather_counts_def
        append_summary_def count_defs statement_defs session_scope_def all_depths_def queue_names depth_def
        count_recent_error_lines_def no_log_file_def mem_pg_tables mem_table_run
        mem_count_run mem_redis_run in_order_def take_limit_def Let_def)
  then show ?thesis by (auto simp: wp_def split: prod.splits sum.splits)
qed

theorem summaries_can_race_witness:
  "\<exists>s' d d' i i'. (loop_step one_day small_forge no_log_file (\<lambda>_ _. True))\<^sup>*\<^sup>* \<lparr>lp_world = mem_world empty_tables, lp_tasks = []\<rparr> s' \<and>
    map (\<lambda>r. (rn_entry r, rn_rest r)) (lp_tasks s') =
      [(Scheduled_Summary, Done (Inr d)), (Summary_Request None, Done (Inr d'))] \<and>
    get_or d ''memory_id'' JNull = JInt i \<and> get_or d' ''memory_id'' JNull = JInt i' \<and> i \<noteq> i' \<and>
    length (filter (ran_on (iso_date 0)) (summaries (db one_day (lp_world s')))) = 2"
  by (rule summaries_can_race [OF _ _ _ one_day_latest one_day_write])
    (simp_all add: one_day_db open_token summaries_def empty_tables_def)

end
