(* ===== verification/Exclusive_Runs.thy ===== *)
theory Exclusive_Runs
  imports Side_By_Side
begin

text \<open>
  No commit is processed twice within the lifetime of a claim, in any schedule. The interface of
  \<^verbatim>\<open>Coroutines\<close> is interpreted a second time, on the claims in Redis: the keys in use are those
  claimed until a deadline, and a coroutine owns the key it claimed.
\<close>

section \<open>Claims that last\<close>

text \<open>
  Until the deadline \<open>L\<close>, the keys that are claimed until then at least; after it every key counts,
  so that nothing is promised any more.
\<close>

definition held_keys :: "('r, 'd, 'v) env \<Rightarrow> int \<Rightarrow> ('r, 'd, 'v) world \<Rightarrow> string set" where
  "held_keys E L w = (if redis_now E w < L then {k. \<exists>v x. redis_claims E w k = Some (v, x) \<and> L \<le> x} else UNIV)"

definition claims_stay :: "('r, 'd, 'v) env \<Rightarrow> int \<Rightarrow> ('r, 'd, 'v) world \<Rightarrow> ('r, 'd, 'v) world \<Rightarrow> bool" where
  "claims_stay E L w w' \<longleftrightarrow> redis_now E w \<le> redis_now E w' \<and> held_keys E L w \<subseteq> held_keys E L w'"

text \<open>The deadline of the claims made from now on.\<close>

definition in_window :: "('r, 'd, 'v) env \<Rightarrow> int \<Rightarrow> ('r, 'd, 'v) world \<Rightarrow> bool" where
  "in_window E L w \<longleftrightarrow> L \<le> redis_now E w + dedup_ttl_seconds (cfg E)"

lemma claims_stay_refl [simp]: "claims_stay E L w w"
  by (simp add: claims_stay_def)

lemma claims_stay_trans: "claims_stay E L u v \<Longrightarrow> claims_stay E L v w \<Longrightarrow> claims_stay E L u w"
  by (auto simp: claims_stay_def)

interpretation cl: shared_world "in_window E L" "held_keys E L" "\<lambda>_ _. ()" "claims_stay E L"
  for E :: "('r, 'd, 'v) env" and L
  by unfold_locales (auto intro: claims_stay_trans simp: claims_stay_def)

text \<open>
  A command of Redis that raises did nothing, or what it was to do (the answer was lost).
\<close>

definition raises_cleanly :: "'r redis_ops \<Rightarrow> bool" where
  "raises_cleanly R \<longleftrightarrow>
     (\<forall>k v ttl r e r'. rd_set_nx_ex R k v ttl r = (Inl e, r') \<or> rd_set_ex R k v ttl r = (Inl e, r') \<longrightarrow>
        vw_time R r \<le> vw_time R r' \<and> (vw_keys R r' = vw_keys R r \<or> vw_keys R r' = (vw_keys R r)(k \<mapsto> (v, vw_time R r' + ttl)))) \<and>
     (\<forall>k r e r'. rd_get R k r = (Inl e, r') \<or> rd_llen R k r = (Inl e, r') \<longrightarrow>
        vw_time R r \<le> vw_time R r' \<and> vw_keys R r' = vw_keys R r)"

lemma claims_stayI:
  assumes "in_window E L w" and "redis_now E w \<le> redis_now E w'"
    and "redis_claims E w' = redis_claims E w \<or>
      redis_claims E w' = (redis_claims E w)(k \<mapsto> (v, redis_now E w' + dedup_ttl_seconds (cfg E)))"
  shows "claims_stay E L w w'"
  using assms by (auto simp: claims_stay_def held_keys_def in_window_def)

section \<open>Steps that leave claims alone\<close>

definition spares :: "('r, 'd, 'v) env \<Rightarrow> ('r, 'd, 'v, 'a) act \<Rightarrow> bool" where
  "spares E m \<longleftrightarrow> (\<forall>L w. in_window E L w \<longrightarrow> claims_stay E L w (snd (m w)))"

lemma spares_same: "(\<And>w. w_redis (snd (m w)) = w_redis w) \<Longrightarrow> spares E m"
  by (auto simp: spares_def redis_now_def redis_claims_def intro!: claims_stayI)

lemma spares_beside: "keeps beside_db m \<Longrightarrow> spares E m"
  by (rule spares_same) (simp add: keeps_def beside_db_def)

lemma spares_context: "spares E (bind_workflow x)" "spares E (reset_workflow y)"
  by (rule spares_same, simp add: bind_workflow_def reset_workflow_def bnd_def thn_def asks_def modifies_def ret_def)+

lemma spares_redis:
  fixes E :: "('r, 'd, 'v) env"
  assumes laws: "redis_laws (redis E)" and clean: "raises_cleanly (redis E)"
  shows "spares E (on_redis (rd_set_nx_ex (redis E) k v (dedup_ttl_seconds (cfg E))))"
    and "spares E (on_redis (rd_set_ex (redis E) k v (dedup_ttl_seconds (cfg E))))"
    and "spares E (on_redis (rd_get (redis E) k))" and "spares E (on_redis (rd_llen (redis E) k))"
proof -
  let ?R = "redis E"
  have step: "spares E (on_redis f)"
    if f: "\<And>r a r'. f r = (a, r') \<Longrightarrow> vw_time ?R r \<le> vw_time ?R r' \<and> (vw_keys ?R r' = vw_keys ?R r \<or>
        (\<exists>k v. vw_keys ?R r' = (vw_keys ?R r)(k \<mapsto> (v, vw_time ?R r' + dedup_ttl_seconds (cfg E)))))"
    for f :: "'r \<Rightarrow> (exn + 'y) \<times> 'r"
    unfolding spares_def
  proof (intro allI impI)
    fix L w assume w: "in_window E L w"
    obtain a r' where "f (w_redis w) = (a, r')" by force
    with f [OF this] w show "claims_stay E L w (snd (on_redis f w))"
      by (auto simp: on_redis_def redis_now_def redis_claims_def intro!: claims_stayI)
  qed
  have nx: "vw_time ?R r \<le> vw_time ?R r' \<and> (vw_keys ?R r' = vw_keys ?R r \<or> vw_keys ?R r' = (vw_keys ?R r)(k \<mapsto> (v, vw_time ?R r' + dedup_ttl_seconds (cfg E))))"
    if "rd_set_nx_ex ?R k v (dedup_ttl_seconds (cfg E)) r = (a, r')" for r a r'
    using that redis_set_nx [OF laws, of k v _ r] clean by (cases a) (auto simp: raises_cleanly_def)
  have ex: "vw_time ?R r \<le> vw_time ?R r' \<and> (vw_keys ?R r' = vw_keys ?R r \<or> vw_keys ?R r' = (vw_keys ?R r)(k \<mapsto> (v, vw_time ?R r' + dedup_ttl_seconds (cfg E))))"
    if "rd_set_ex ?R k v (dedup_ttl_seconds (cfg E)) r = (a, r')" for r a r'
    using that redis_set [OF laws, of k v _ r] clean by (cases a) (auto simp: raises_cleanly_def)
  have get: "vw_time ?R r \<le> vw_time ?R r' \<and> vw_keys ?R r' = vw_keys ?R r" if "rd_get ?R k r = (a, r')" for r a r'
    using that redis_get [OF laws, of k r] clean by (cases a) (auto simp: raises_cleanly_def)
  have llen: "vw_time ?R r \<le> vw_time ?R r' \<and> vw_keys ?R r' = vw_keys ?R r" if "rd_llen ?R k r = (a, r')" for r a r'
    using that redis_llen [OF laws, of k r] clean by (cases a) (auto simp: raises_cleanly_def)
  show "spares E (on_redis (rd_set_nx_ex ?R k v (dedup_ttl_seconds (cfg E))))" by (rule step) (use nx in blast)
  show "spares E (on_redis (rd_set_ex ?R k v (dedup_ttl_seconds (cfg E))))" by (rule step) (use ex in blast)
  show "spares E (on_redis (rd_get ?R k))" by (rule step) (use get in blast)
  show "spares E (on_redis (rd_llen ?R k))" by (rule step) (use llen in blast)
qed

text \<open>Coroutines all of whose steps do.\<close>

primrec sparing :: "('r, 'd, 'v) env \<Rightarrow> (('r, 'd, 'v) world, 'a) proc \<Rightarrow> bool" where
  "sparing E (Done r) = True"
| "sparing E (Await u n) = ((\<forall>L w. in_window E L w \<longrightarrow> claims_stay E L w (u w)) \<and> (\<forall>w. sparing E (n w)))"

lemma sparing_after: "sparing E p \<Longrightarrow> (\<And>r. sparing E (h r)) \<Longrightarrow> sparing E (after p h)"
  by (induction p) auto

lemma sparing_atomic: "spares E m \<Longrightarrow> sparing E (atomic m)"
  by (auto simp: spares_def atomic_def)

lemma sparing_bind: "sparing E p \<Longrightarrow> (\<And>a. sparing E (k a)) \<Longrightarrow> sparing E (pbind p k)"
  unfolding pbind_def by (rule sparing_after) (auto split: sum.split)

lemma sparing_catch: "sparing E p \<Longrightarrow> (\<And>e. sparing E (h e)) \<Longrightarrow> sparing E (pcatch c p h)"
  unfolding pcatch_def by (rule sparing_after) (auto split: sum.split)

lemma sparing_finally: "sparing E p \<Longrightarrow> sparing E c \<Longrightarrow> sparing E (pfinally p c)"
  unfolding pfinally_def by (intro sparing_after) (auto split: sum.split)

lemma sparing_if: "sparing E p \<Longrightarrow> sparing E q \<Longrightarrow> sparing E (if b then p else q)"
  by simp

lemma sparing_Done: "sparing E (Done r)"
  by simp

lemma sparing_let: "(\<And>x. sparing E (f x)) \<Longrightarrow> sparing E (Let a f)"
  by simp

lemma sparing_pair: "(\<And>a b. sparing E (f a b)) \<Longrightarrow> sparing E (case x of (a, b) \<Rightarrow> f a b)"
  by (simp split: prod.split)

lemmas sparing_intros = sparing_bind sparing_catch sparing_finally sparing_if sparing_Done sparing_let sparing_pair

text \<open>Every coroutine of the loop.\<close>

lemma keeps_beside_deliveries:
  "keeps beside_db (deliver_file E n)" "keeps beside_db (deliver_discord E n)" "keeps beside_db (deliver_telegram E n)"
proof -
  have "keeps beside_db (modifies (\<lambda>w. w\<lparr>w_file := w_file w @ [l]\<rparr>))" for l
    by (rule keeps_modifies) (simp add: beside_db_def)
  then show "keeps beside_db (deliver_file E n)" unfolding deliver_file_def Let_def by (intro wp_ops)
  show "keeps beside_db (deliver_discord E n)" unfolding deliver_discord_def post_json_def by (intro wp_ops)
  show "keeps beside_db (deliver_telegram E n)" unfolding deliver_telegram_def post_json_def Let_def by (intro wp_ops)
qed

lemma sparing_send: "sparing E (send_co E req)"
  unfolding send_co_def
  by (intro sparing_intros sparing_atomic spares_beside keeps_beside_deliveries wp_ops)

lemma keeps_create_workflow: "keeps beside_db (create_workflow E repo sha)"
  unfolding create_workflow_def by (intro wp_ops)

lemma keeps_vec_upsert: "keeps beside_db (vec_upsert E ids docs metas)"
  unfolding vec_upsert_def by (intro wp_ops)

lemma sparing_steps: "sparing E (steps_co E i repo sha subject author diff)"
  unfolding steps_co_def guarded_co_def summarize_co_def draft_co_def save_co_def index_co_def approval_co_def close_co_def save_memory_def
  by (intro sparing_intros sparing_atomic sparing_send spares_beside keeps_vec_upsert wp_ops)

lemma sparing_commit:
  assumes "redis_laws (redis E)" and "raises_cleanly (redis E)"
  shows "sparing E (acquire_co E rp sh)" and "sparing E (atomic (attach_workflow_id E rp sh i))"
    and "sparing E (pbind (atomic (bind_workflow x)) (\<lambda>token. pfinally (steps_co E i repo sha subject author diff) (atomic (reset_workflow token))))"
    and "sparing E (commit_co E payload)"
  unfolding commit_co_def acquire_co_def attach_workflow_id_def create_workflow_def
  by (intro sparing_intros sparing_atomic sparing_steps spares_redis [OF assms] spares_context spares_beside wp_ops)+

lemma sparing_demo: "sparing E (demo_co E D payload)"
  unfolding demo_co_def demo_steps_co_def check_tools_co_def capture_co_def render_co_def manifest_co_def approve_demo_co_def
    give_up_co_def create_demo_def keep_manifest_def build_manifest_def format_outputs_def Let_def
  by (intro sparing_intros sparing_atomic sparing_send spares_context spares_beside wp_ops)

lemma sparing_daily:
  assumes "redis_laws (redis E)" and "raises_cleanly (redis E)"
  shows "sparing E (daily_co E D)"
proof -
  have depth: "spares E (depth E q)" for q unfolding depth_def by (rule spares_redis(4) [OF assms])
  have w: "sparing E (write_summary_co E D now)" for now
    unfolding write_summary_co_def depths_co_def gather_counts_def append_summary_def count_defs Let_def
    by (intro sparing_intros sparing_atomic depth spares_beside wp_ops)
  show ?thesis
    unfolding daily_co_def latest_summary_def
    by (intro sparing_intros sparing_atomic spares_beside wp_ops) (auto split: option.split intro: w)
qed

lemma sparing_coroutine:
  assumes "redis_laws (redis E)" and "raises_cleanly (redis E)"
  shows "sparing E (coroutine_of E D S en)"
proof -
  have "sparing E (run_now_co E S h)" for h unfolding run_now_co_def by (intro sparing_intros sparing_daily [OF assms])
  moreover have "sparing E (decide_co E h i d)" for h i d
  proof -
    have "keeps beside_db (case x of None \<Rightarrow> ret False | Some y \<Rightarrow> bnd (utc_now E) (\<lambda>t. bnd (update_approvals E (\<lambda>r. apr_id r = i)
        (\<lambda>r. r\<lparr>apr_decision := Some d, apr_decided_at := Some t\<rparr>)) (\<lambda>_. ret True)))" for x :: "approval option"
      by (cases x) (auto intro!: wp_ops)
    then show ?thesis unfolding decide_co_def decide_def by (intro sparing_intros sparing_atomic spares_beside wp_ops)
  qed
  ultimately show ?thesis
    by (cases en) (simp_all add: sparing_commit [OF assms] sparing_demo sparing_daily [OF assms])
qed

section \<open>A commit run owns its claim\<close>

lemma later_window: "claims_stay E L w w' \<Longrightarrow> in_window E L w \<Longrightarrow> in_window E L w'"
  by (auto simp: claims_stay_def in_window_def)

lemma well_sparing:
  "sparing E p \<Longrightarrow> cl.well E L p own w (\<lambda>_ ow u. ow = own \<and> redis_now E w \<le> redis_now E u)"
proof (induction p arbitrary: own w)
  case (Await u n)
  show ?case
    unfolding cl.well.simps
  proof (intro allI impI conjI)
    fix v assume v: "in_window E L v" "cl.since E L own w v"
    have s: "claims_stay E L v (u v)" using Await(2) v(1) by simp
    then show "in_window E L (u v)" by (rule later_window [OF _ v(1)])
    show "cl.frame E L own v (u v)" using s by (simp add: cl.frame_def)
    have "redis_now E w \<le> redis_now E (u v)" using s v(2) by (simp add: claims_stay_def cl.since_def)
    moreover have "sparing E (n v)" using Await(2) by simp
    from Await(1) [OF _ this] have "cl.well E L (n v) own (u v) (\<lambda>_ ow x. ow = own \<and> redis_now E (u v) \<le> redis_now E x)" by simp
    ultimately have "cl.well E L (n v) own (u v) (\<lambda>_ ow x. ow = own \<and> redis_now E w \<le> redis_now E x)"
      by (elim cl.well_mono) auto
    then show "\<exists>own'. cl.takes E L own own' v (u v) \<and> cl.well E L (n v) own' (u v) (\<lambda>_ ow x. ow = own \<and> redis_now E w \<le> redis_now E x)"
      by (intro exI [of _ own]) (simp add: cl.takes_def)
  qed
qed simp

text \<open>Who wins the claim within the window owns its key.\<close>

lemma well_claim:
  fixes E :: "('r, 'd, 'v) env"
  assumes laws: "redis_laws (redis E)" and clean: "raises_cleanly (redis E)"
  shows "cl.well E L (acquire_co E rp sh) None w
    (\<lambda>r own u. \<forall>c. r = Inr c \<longrightarrow> acquired c \<longrightarrow> own = Some (dedup_key E rp sh) \<or> L \<le> redis_now E u)"
proof -
  let ?k = "dedup_key E rp sh" and ?ttl = "dedup_ttl_seconds (cfg E)"
  let ?m = "on_redis (rd_set_nx_ex (redis E) ?k pending_mark ?ttl) :: ('r, 'd, 'v, bool) act"
  let ?Q = "\<lambda>r own u. r = Inr True \<longrightarrow> own = Some ?k \<or> L \<le> redis_now E u"
  have won: "cl.takes E L None (if r = Inr True \<and> redis_now E u < L then Some ?k else None) v u"
    if m: "?m v = (r, u)" and v: "in_window E L v" for r v u
  proof (cases "r = Inr True \<and> redis_now E u < L")
    case True
    with m obtain r' where nx: "rd_set_nx_ex (redis E) ?k pending_mark ?ttl (w_redis v) = (Inr True, r')" and u: "u = v\<lparr>w_redis := r'\<rparr>"
      by (auto simp: on_redis_def split: prod.splits)
    from redis_set_nx [OF laws nx] True v show ?thesis
      by (auto simp: cl.takes_def held_keys_def in_window_def redis_now_def redis_claims_def u)
  qed (auto simp: cl.takes_def)
  have claim: "cl.well E L (atomic ?m) None w ?Q"
    unfolding atomic_def cl.well.simps
  proof (intro allI impI conjI)
    fix v assume v: "in_window E L v" "cl.since E L None w v"
    obtain r u where m: "?m v = (r, u)" by force
    from spares_redis(1) [OF laws clean, of ?k pending_mark] v(1) have "claims_stay E L v (snd (?m v))" unfolding spares_def by blast
    then have s: "claims_stay E L v u" by (simp add: m)
    show "in_window E L (snd (?m v))" using later_window [OF s v(1)] m by simp
    show "cl.frame E L None v (snd (?m v))" using s m by (simp add: cl.frame_def)
    show "\<exists>own'. cl.takes E L None own' v (snd (?m v)) \<and> ?Q (fst (?m v)) own' (snd (?m v))"
      using won [OF m v(1)] m by (intro exI [of _ "if r = Inr True \<and> redis_now E u < L then Some ?k else None"]) auto
  qed
  show ?thesis
    unfolding acquire_co_def
  proof (rule cl.well_bind [OF claim])
    fix a own and u :: "('r, 'd, 'v) world"
    let ?P = "\<lambda>r own u. \<forall>c. r = Inr c \<longrightarrow> acquired c \<longrightarrow> own = Some ?k \<or> L \<le> redis_now E u"
    assume q: "?Q (Inr a) own u"
    have "cl.well E L (pbind (atomic (on_redis (rd_get (redis E) ?k))) (\<lambda>x. Done (Inr \<lparr>acquired = False, existing_value = x\<rparr>))) own u ?P"
      by (rule cl.well_bind [OF well_sparing [OF sparing_atomic [OF spares_redis(3) [OF laws clean]]]]) simp_all
    with q show "cl.well E L (if a then Done (Inr \<lparr>acquired = True, existing_value = None\<rparr>)
        else pbind (atomic (on_redis (rd_get (redis E) ?k))) (\<lambda>x. Done (Inr \<lparr>acquired = False, existing_value = x\<rparr>))) own u ?P"
      by simp
  qed simp
qed

definition run_claims :: "('r, 'd, 'v) env \<Rightarrow> int \<Rightarrow> dict \<Rightarrow> exn + dict \<Rightarrow> string option \<Rightarrow> ('r, 'd, 'v) world \<Rightarrow> bool" where
  "run_claims E L payload r own w \<longleftrightarrow>
     (\<forall>d. r = Inr d \<longrightarrow> own = Some (claim_key E payload) \<or> L \<le> redis_now E w \<or> (\<exists>c. \<not> acquired c \<and> skip_result c = Inr d))"

lemma well_commit_claims:
  fixes E :: "('r, 'd, 'v) env"
  assumes laws: "redis_laws (redis E)" and clean: "raises_cleanly (redis E)"
  shows "cl.well E L (commit_co E payload) None w (run_claims E L payload)"
proof (cases "require_keys payload [''repo'', ''sha'']")
  case (Inr a)
  let ?repo = "get_or payload ''repo'' JNull" and ?sha = "get_or payload ''sha'' JNull"
  let ?subject = "get_or payload ''subject'' (JStr [])" and ?author = "get_or payload ''author'' (JStr [])"
    and ?diff = "get_or payload ''diff'' (JStr [])"
  let ?rest = "pbind (atomic (create_workflow E ?repo ?sha)) (\<lambda>i.
         pbind (atomic (attach_workflow_id E (py_str ?repo) (py_str ?sha) i)) (\<lambda>_.
         pbind (atomic (bind_workflow (Some i))) (\<lambda>token.
         pfinally (steps_co E i ?repo ?sha ?subject ?author ?diff) (atomic (reset_workflow token)))))"
  have rest: "sparing E ?rest"
    by (intro sparing_bind sparing_atomic spares_beside keeps_create_workflow sparing_commit(2,3) [OF laws clean])
  show ?thesis
    unfolding commit_co_def Inr Let_def pbind_Done
  proof (rule cl.well_bind [OF well_claim [OF laws clean]])
    fix c own and u :: "('r, 'd, 'v) world"
    assume q: "\<forall>c'. (Inr c :: exn + claim_result) = Inr c' \<longrightarrow> acquired c' \<longrightarrow>
      own = Some (dedup_key E (py_str ?repo) (py_str ?sha)) \<or> L \<le> redis_now E u"
    show "cl.well E L (if \<not> acquired c then Done (skip_result c) else ?rest) own u (run_claims E L payload)"
    proof (cases "acquired c")
      case True
      with q have "own = Some (claim_key E payload) \<or> L \<le> redis_now E u" by (simp add: claim_key_def)
      then have "cl.well E L ?rest own u (run_claims E L payload)"
        by (intro cl.well_mono [OF well_sparing [OF rest]]) (auto simp: run_claims_def)
      with True show ?thesis by simp
    qed (auto simp: run_claims_def)
  qed (simp add: run_claims_def)
qed (simp add: commit_co_def run_claims_def)

section \<open>The loop\<close>

text \<open>What the coroutines establish about the commit with the key \<open>q\<close>.\<close>

fun claims_of :: "('r, 'd, 'v) env \<Rightarrow> int \<Rightarrow> string \<Rightarrow> entry \<Rightarrow> exn + dict \<Rightarrow> string option \<Rightarrow> ('r, 'd, 'v) world \<Rightarrow> bool" where
  "claims_of E L q (Commit_Run payload) r own w = (claim_key E payload = q \<longrightarrow> run_claims E L payload r own w)"
| "claims_of E L q _ r own w = True"

lemma well_claims_of:
  assumes "redis_laws (redis E)" and "raises_cleanly (redis E)"
  shows "cl.well E L (coroutine_of E D S en) None w (claims_of E L q en)"
proof (cases "\<exists>payload. en = Commit_Run payload")
  case True
  then obtain payload where en: "en = Commit_Run payload" by blast
  show ?thesis unfolding en coroutine_of.simps by (rule cl.well_mono [OF well_commit_claims [OF assms]]) simp
next
  case False
  then have "claims_of E L q en r own u" for r own and u by (cases en) auto
  then show ?thesis by (intro cl.well_mono [OF well_sparing [OF sparing_coroutine [OF assms]]])
qed

text \<open>What everybody else does to Redis: time passes, and no live claim is deleted or shortened.\<close>

definition claims_last :: "('r, 'd, 'v) env \<Rightarrow> ('r, 'd, 'v) world \<Rightarrow> ('r, 'd, 'v) world \<Rightarrow> bool" where
  "claims_last E w w' \<longleftrightarrow>
     redis_now E w \<le> redis_now E w' \<and>
     (\<forall>k v x. redis_claims E w k = Some (v, x) \<and> redis_now E w' < x \<longrightarrow>
        (\<exists>v' x'. redis_claims E w' k = Some (v', x') \<and> x \<le> x'))"

lemma claims_last_stay: "claims_last E w w' \<Longrightarrow> claims_stay E L w w'"
  unfolding claims_last_def claims_stay_def held_keys_def by (auto split: if_splits) force

lemma loop_sparing:
  assumes "redis_laws (redis E)" and "raises_cleanly (redis E)" and "(loop_step E D S B)\<^sup>*\<^sup>* s0 s" and "lp_tasks s0 = []"
  shows "\<forall>r\<in>set (lp_tasks s). sparing E (rn_rest r)"
  using assms(3)
proof (induction rule: rtranclp_induct)
  case (step s s')
  from step(2) show ?case
  proof cases
    case (Turn j u n v)
    then have "sparing E (Await u n)" using step(3) nth_mem by metis
    with Turn step(3) show ?thesis by (auto dest!: set_update_subset_insert [THEN subsetD])
  next
    case (Gone j)
    with step(3) show ?thesis by (auto dest: in_set_takeD in_set_dropD)
  qed (use step(3) sparing_coroutine [OF assms(1,2)] in auto)
qed (simp add: assms(4))

abbreviation claiming :: "('r, 'd, 'v) env \<Rightarrow> int \<Rightarrow> string \<Rightarrow> ('r, 'd, 'v) event_loop \<Rightarrow>
    ((('r, 'd, 'v) world, dict) proc \<times> (exn + dict \<Rightarrow> string option \<Rightarrow> ('r, 'd, 'v) world \<Rightarrow> bool)) list" where
  "claiming E L q s \<equiv> map (\<lambda>r. (rn_rest r, claims_of E L q (rn_entry r))) (lp_tasks s)"

lemma claiming_step:
  assumes "redis_laws (redis E)" and "raises_cleanly (redis E)" and step: "loop_step E D S (claims_last E) s s'"
    and t: "cl.together E L {} (lp_world s) (claiming E L q s)"
  shows "cl.together E L {} (lp_world s') (claiming E L q s')"
proof -
  have beside: "cl.together E L {} w (claiming E L q s)" if "claims_stay E L (lp_world s) w" for w
    by (rule cl.together_beside [OF t]) (use that t later_window in \<open>auto simp: cl.together_def\<close>)
  from step show ?thesis
  proof cases
    case (Turn j u n v)
    let ?Q = "claims_of E L q (rn_entry (lp_tasks s ! j))"
    have same: "redis_now E v = redis_now E (lp_world s)" "redis_claims E v = redis_claims E (lp_world s)"
      using Turn(4) by (simp_all add: redis_now_def redis_claims_def)
    then have "cl.together E L {} v (claiming E L q s)"
      by (intro beside) (simp add: claims_stay_def held_keys_def)
    from cl.together_move(1) [OF this, of j u n ?Q] Turn
    have "cl.together E L {} (u v) ((claiming E L q s)[j := (n v, ?Q)])" by simp
    moreover have "claiming E L q s' = (claiming E L q s)[j := (n v, ?Q)]" using Turn by (simp add: map_update)
    ultimately show ?thesis using Turn(1) by simp
  next
    case (Begin en c)
    with cl.together_begin [OF t well_claims_of [OF assms(1,2)]] show ?thesis by simp
  next
    case (Gone j)
    with cl.together_drop [OF t, of j] show ?thesis by (simp add: take_map drop_map)
  next
    case (Beside w)
    with beside [OF claims_last_stay] show ?thesis by simp
  qed
qed

lemma claiming_start:
  assumes "\<forall>r\<in>set rs. sparing E (rn_rest r) \<and> (\<forall>p. rn_entry r = Commit_Run p \<longrightarrow> claim_key E p \<noteq> q)" and "in_window E L w"
  shows "cl.together E L {} w (map (\<lambda>r. (rn_rest r, claims_of E L q (rn_entry r))) rs)"
  using assms(1)
proof (induction rs rule: rev_induct)
  case Nil
  show ?case using cl.together_none [OF assms(2), of "{}"] by simp
next
  case (snoc r rs)
  from snoc(2) have other: "\<forall>p. rn_entry r = Commit_Run p \<longrightarrow> claim_key E p \<noteq> q" and spares: "sparing E (rn_rest r)" by simp_all
  have "claims_of E L q (rn_entry r) x own u" for x own and u using other by (cases "rn_entry r") auto
  then have "cl.well E L (rn_rest r) None w (claims_of E L q (rn_entry r))"
    by (intro cl.well_mono [OF well_sparing [OF spares]])
  from cl.together_begin [OF snoc(1) this] snoc(2) show ?case by simp
qed

lemma claiming_end:
  assumes t: "cl.together E L {} (lp_world s) (claiming E L q s)" and soon: "redis_now E (lp_world s) < L"
    and j: "j < length (lp_tasks s)" "rn_entry (lp_tasks s ! j) = Commit_Run p" "rn_rest (lp_tasks s ! j) = Done (Inr d)"
      "claim_key E p = q"
    and k: "k < length (lp_tasks s)" "rn_entry (lp_tasks s ! k) = Commit_Run p'" "rn_rest (lp_tasks s ! k) = Done (Inr d')"
      "claim_key E p' = q"
    and "j \<noteq> k"
  shows "\<exists>c. \<not> acquired c \<and> (skip_result c = Inr d \<or> skip_result c = Inr d')"
proof -
  from t obtain os where apart: "\<And>j i. j < length (lp_tasks s) \<Longrightarrow> os ! j = Some i \<Longrightarrow>
      (\<forall>k<length (lp_tasks s). k \<noteq> j \<longrightarrow> os ! k \<noteq> Some i)"
    and each: "\<And>j. j < length (lp_tasks s) \<Longrightarrow> \<exists>w0. cl.since E L (os ! j) w0 (lp_world s) \<and>
      cl.well E L (fst (claiming E L q s ! j)) (os ! j) w0 (snd (claiming E L q s ! j))"
    unfolding cl.together_def length_map by blast
  have got: "os ! i = Some q \<or> (\<exists>c. \<not> acquired c \<and> skip_result c = Inr x)"
    if i: "i < length (lp_tasks s)" "rn_entry (lp_tasks s ! i) = Commit_Run z" "rn_rest (lp_tasks s ! i) = Done (Inr x)" "claim_key E z = q"
    for i x z
  proof -
    from each [OF i(1)] i obtain w0 where w0: "cl.since E L (os ! i) w0 (lp_world s)" and r: "run_claims E L z (Inr x) (os ! i) w0"
      by auto
    from w0 soon have "redis_now E w0 < L" by (simp add: cl.since_def claims_stay_def)
    with r i(4) show ?thesis by (auto simp: run_claims_def)
  qed
  from got [OF j] got [OF k] apart [OF j(1), of q] k(1) \<open>j \<noteq> k\<close> show ?thesis by auto
qed

section \<open>Properties\<close>


text \<open>The same commit twice, for the witness.\<close>

lemma mem_raises_cleanly: "raises_cleanly mem_redis"
  by (simp add: raises_cleanly_def mem_redis_run mr_set_nx_ex_def mem_redis_def)

text \<open>A run makes two Redis commands when it wins its claim; the in-memory clock counts them.\<close>

lemma small_claims:
  assumes free: "mr_live (mr_tick (w_redis w)) (dedup_key tame_env ''/r'' ''ab'') = None"
  shows "wp (run_commit_pipeline tame_env small_payload) (\<lambda>_ u. mr_time (w_redis u) = mr_time (w_redis w) + 2) (\<lambda>_ _. True) w"
proof -
  let ?Q = "\<lambda>(_ :: dict) u. mr_time (w_redis u) = mr_time (w_redis w) + 2"
  let ?K = "dedup_key tame_env ''/r'' ''ab''"
  have steps: "wp (finally_do (run_pipeline_steps tame_env i (JStr ''/r'') (JStr ''ab'') (JStr []) (JStr []) (JStr [])) (reset_workflow old)) ?Q (\<lambda>_ _. True) u"
    if "mr_time (w_redis u) = mr_time (w_redis w) + 2" for i old u
    using that by (auto simp: reset_workflow_def beside_db_def intro!: wp_mono [OF keeps_wp [OF keeps_run_pipeline_steps]])
  have rest: "wp (bnd (create_workflow tame_env (JStr ''/r'') (JStr ''ab'')) (\<lambda>wfid.
         bnd (attach_workflow_id tame_env ''/r'' ''ab'' wfid) (\<lambda>_.
         bnd (bind_workflow (Some wfid)) (\<lambda>token.
         finally_do (run_pipeline_steps tame_env wfid (JStr ''/r'') (JStr ''ab'') (JStr []) (JStr []) (JStr [])) (reset_workflow token))))) ?Q (\<lambda>_ _. True) u"
    if "mr_time (w_redis u) = mr_time (w_redis w) + 1" for u
    unfolding wp_bnd [of "create_workflow _ _ _"]
    by (rule wp_mono [OF keeps_wp [OF keeps_create_workflow]])
      (use that in \<open>auto simp: attach_workflow_id_def bind_workflow_def mem_redis_run mr_tick_def beside_db_def simp del: wp_finally intro!: steps\<close>)
  have acq: "acquire tame_env ''/r'' ''ab'' w = (Inr \<lparr>acquired = True, existing_value = None\<rparr>,
      w\<lparr>w_redis := (mr_tick (w_redis w))\<lparr>mr_keys := (mr_keys (w_redis w))(?K \<mapsto> (pending_mark, mr_time (w_redis w) + 1 + 3600))\<rparr>\<rparr>)"
    using free by (simp add: acquire_def mem_run mr_set_nx_ex_def default_settings_def)
  show ?thesis
    unfolding run_commit_pipeline_def small_payload_def
    by (simp add: Let_def require_keys_def has_key_def get_or_def wp_bnd [of "acquire _ _ _"] wp_def [of "acquire _ _ _"] acq del: wp_bnd)
      (rule rest, simp add: mr_tick_def)
qed

lemma small_skipped:
  assumes "mr_keys (w_redis w) (dedup_key tame_env ''/r'' ''ab'') = Some (str_of_int i, x)" and "0 < i" and "mr_time (w_redis w) + 2 < x"
  shows "\<exists>d. run_commit_pipeline tame_env small_payload w = (Inr d, w\<lparr>w_redis := mr_tick (mr_tick (w_redis w))\<rparr>)"
proof -
  have "str_of_int i \<noteq> []" using py_isdigit_str_of_int [of i] assms(2) by (auto simp: py_isdigit_def)
  with assms show ?thesis
    by (simp add: run_commit_pipeline_def Let_def require_keys_def small_payload_def has_key_def get_or_def
        acquire_def mem_run mr_set_nx_ex_def mr_live_def mr_tick_def skip_result_def py_isdigit_str_of_int int_of_isdigit_str_of_int)
qed

lemma same_commit_twice:
  obtains s' d d' where "(loop_step tame_env small_forge no_log_file B)\<^sup>*\<^sup>* \<lparr>lp_world = mem_world earlier, lp_tasks = []\<rparr> s'"
    and "map (\<lambda>r. (rn_entry r, rn_rest r)) (lp_tasks s') = [(Commit_Run small_payload, Done (Inr d)), (Commit_Run small_payload, Done (Inr d'))]"
    and "redis_now tame_env (lp_world s') = 4"
proof -
  let ?L = "(loop_step tame_env small_forge no_log_file B)\<^sup>*\<^sup>*" and ?w = "mem_world earlier"
  let ?K = "dedup_key tame_env ''/r'' ''ab''"
  have key: "claim_key tame_env small_payload = ?K" by (simp add: claim_key_def small_payload_def get_or_def)
  have free: "held (redis_claims tame_env ?w (claim_key tame_env small_payload)) (redis_now tame_env ?w) = None"
    "mr_live (mr_tick (w_redis ?w)) ?K = None"
    by (simp_all add: held_def mr_live_def mr_tick_def mem_world_def)
  have "wp (run_commit_pipeline tame_env small_payload) (\<lambda>_ u. \<exists>i. ran tame_env small_payload i ?w u) (\<lambda>_ _. True) ?w"
    by (rule wp_run_commit_pipeline) (use free(1) earlier_good in \<open>auto simp: skipped_def\<close>)
  from wp_conj [OF wp_conj [OF pipeline_returns [OF tame_answering _ _ _ small_text_payload free(1)] this] small_claims [OF free(2)]]
  obtain d w1 i where d: "run_commit_pipeline tame_env small_payload (?w\<lparr>w_ctx := w_ctx ?w\<rparr>) = (Inr d, w1)"
    and ran: "ran tame_env small_payload i ?w w1" and time: "mr_time (w_redis w1) = 2"
    using earlier_good by (auto simp: wp_def mem_world_def split: prod.splits sum.splits)
  let ?t1 = "\<lparr>rn_entry = Commit_Run small_payload, rn_context = w_ctx w1, rn_rest = Done (Inr d)\<rparr>"
  obtain c where 1: "?L \<lparr>lp_world = ?w, lp_tasks = []\<rparr> \<lparr>lp_world = w1\<lparr>w_ctx := c\<rparr>, lp_tasks = [?t1]\<rparr>"
    using schedule_alone [of tame_env small_forge no_log_file "Commit_Run small_payload" "w_ctx ?w" ?w "Inr d" w1 B "[]"] d by auto
  from ran obtain x where x: "mr_keys (w_redis w1) ?K = Some (str_of_int i, x)" "3600 \<le> x" "0 < i"
    unfolding ran_def attached_def key by (auto simp: default_settings_def mem_world_def)
  have "\<exists>d'. run_commit_pipeline tame_env small_payload (w1\<lparr>w_ctx := c\<rparr>) =
      (Inr d', w1\<lparr>w_ctx := c, w_redis := mr_tick (mr_tick (w_redis w1))\<rparr>)"
    using small_skipped [of "w1\<lparr>w_ctx := c\<rparr>" i x] x time by simp
  then obtain d' w2 where d': "run_commit_pipeline tame_env small_payload (w1\<lparr>w_ctx := c\<rparr>) = (Inr d', w2)"
    and t2: "mr_time (w_redis w2) = 4" by (auto simp: mr_tick_def time)
  obtain c' where "?L \<lparr>lp_world = w1\<lparr>w_ctx := c\<rparr>, lp_tasks = [?t1]\<rparr>
      \<lparr>lp_world = w2\<lparr>w_ctx := c'\<rparr>, lp_tasks = [?t1] @ [\<lparr>rn_entry = Commit_Run small_payload, rn_context = w_ctx w2, rn_rest = Done (Inr d')\<rparr>]\<rparr>"
    using schedule_alone [of tame_env small_forge no_log_file "Commit_Run small_payload" c "w1\<lparr>w_ctx := c\<rparr>" "Inr d'" w2 B "[?t1]"] d' by auto
  from rtranclp_trans [OF 1 this] show thesis by (rule that) (use t2 in simp_all)
qed


end
