(* ===== verification/Spec2Isabelle.thy ===== *)
theory Spec2Isabelle
  imports Config Models Services Store Reference_Services Queue Dedup Agents Gateway
    Workflow_Store Vector Commit_Pipeline Orchestrator Ci_Watcher Integrity_Watcher Event_Watcher
    Daily_Summary Demo_Forge Api End_To_End History Workers Lifecycle Singletons Schema Log_Config
    Watcher_Setup Dashboard Page Exclusive_Runs
begin

text \<open>
  WiseOrder watches git repositories, turns each commit into a job, and runs a fixed pipeline on
  it: an engineering summary and a social draft by an LLM, a memory record, and an approval request
  that an operator decides. Around the pipeline run a second workflow (demo requests), a daily
  summary, two pollers (GitHub Actions and a hash chain), a JSON API with a dashboard, and the
  orchestrator that starts and stops all of them. Its state is in Postgres (tasks, workflows,
  memories, approvals), Redis (three job queues and the claims of the idempotency guard) and an
  append-only approvals file. This development is a model of the program, written in the order the
  code has it, with the theorems that make it correct.

  \<^bold>\<open>The parts and their theories.\<close> The basis:

  \<^item> \<^verbatim>\<open>Prelude\<close>: exceptions, coroutines as functions of a world (state passing with
    exceptions; the state survives a raise), the combinators for sequencing,
    \<^verbatim>\<open>try/except/finally\<close> and loops, their weakest-precondition calculus \<open>wp\<close>, frames
    (\<open>keeps\<close>).
  \<^item> \<^verbatim>\<open>PyText\<close>, \<^verbatim>\<open>PyTime\<close>, \<^verbatim>\<open>PyJson\<close>: the string methods, UTC times and JSON
    reader and printer of the standard library that the sources use.
  \<^item> \<^verbatim>\<open>Services\<close>: what is not in the repository (Redis, Postgres behind SQLAlchemy,
    Chroma, the LLM, webhooks, clock, uuid4, SHA-256) as the parameter \<open>env\<close>, the laws
    \<open>redis_laws\<close> and \<open>pg_laws\<close> of their documentation, and the world a coroutine
    runs in. \<^verbatim>\<open>Reference_Services\<close> has in-memory services that satisfy the laws, on
    which the witnesses run.

  Settings, storage and processes:

  \<^item> \<^verbatim>\<open>Config\<close>: \<^verbatim>\<open>configs/settings.py\<close> (settings, \<^verbatim>\<open>_split_paths\<close>,
    \<^verbatim>\<open>get_settings\<close>) and the correlation filter of \<^verbatim>\<open>configs/logging.py\<close>.
  \<^item> \<^verbatim>\<open>Singletons\<close>: the objects built once for a process. The double-checked locking of
    \<^verbatim>\<open>get_settings\<close>, \<^verbatim>\<open>configure_logging\<close>, \<^verbatim>\<open>get_vector_store\<close> and
    \<^verbatim>\<open>get_queue\<close> is a step relation of any number of threads; the locale \<open>single_build\<close> is
    its contract, interpreted on each of the four; the engine, session factory and gateway cells and
    the lazy Redis client are functions of their cells.
  \<^item> \<^verbatim>\<open>Log_Config\<close>: named loggers and handlers, \<^verbatim>\<open>get_logger\<close>, and what
    \<^verbatim>\<open>alembic/env.py\<close> does to them with \<^verbatim>\<open>fileConfig\<close>.
  \<^item> \<^verbatim>\<open>Models\<close>: the rows of \<^verbatim>\<open>core/memory/models.py\<close> and the contents of the database.
  \<^item> \<^verbatim>\<open>Schema\<close>: the statements of \<^verbatim>\<open>alembic/versions/0001_initial_schema.py\<close> on a
    catalogue of tables and indexes, the declarations of the models, \<^verbatim>\<open>init_db\<close>, and the types
    of the columns.
  \<^item> \<^verbatim>\<open>Store\<close>: \<^verbatim>\<open>core/memory/db.py\<close>: sessions, the statements issued in them, and
    the rules that make a session scope atomic.
  \<^item> \<^verbatim>\<open>Vector\<close>: \<^verbatim>\<open>core/memory/vector.py\<close>.
  \<^item> \<^verbatim>\<open>Queue\<close>: \<^verbatim>\<open>core/queues/redis_queue.py\<close>. The locale \<open>job_queue\<close> is the
    interface of the queues; \<open>rq\<close> interprets it on the Redis operations. The queue names are
    an enumeration and a linear order, in which \<^verbatim>\<open>dequeue\<close> serves the least.
  \<^item> \<^verbatim>\<open>Dedup\<close>: \<^verbatim>\<open>core/queues/dedup.py\<close>. The locale \<open>claim_guard\<close> is the
    interface of the guard; \<open>rc\<close> interprets it.

  The workflows:

  \<^item> \<^verbatim>\<open>Agents\<close>: \<^verbatim>\<open>agents/engineering/summarizer.py\<close> and
    \<^verbatim>\<open>agents/social/post_generator.py\<close>: the bounded LLM call, the tolerant parser, the
    summary and the post.
  \<^item> \<^verbatim>\<open>Gateway\<close>: \<^verbatim>\<open>core/approvals/gateway.py\<close>: sending an approval over its three
    channels, deciding it, the message formats.
  \<^item> \<^verbatim>\<open>Workflow_Store\<close>: the row helpers at the end of
    \<^verbatim>\<open>workflows/commit_pipeline.py\<close>. The locale \<open>run_store\<close> is what a step of a workflow
    relies on; \<open>rs\<close> interprets it on the helpers of the commit pipeline, \<open>dr\<close> on those of
    the demo requests.
  \<^item> \<^verbatim>\<open>Commit_Pipeline\<close>: \<^verbatim>\<open>run_commit_pipeline\<close> and its four steps.
  \<^item> \<^verbatim>\<open>Demo_Forge\<close>: \<^verbatim>\<open>workflows/demo_forge.py\<close>; the clone of demo-forge is a parameter.
  \<^item> \<^verbatim>\<open>Daily_Summary\<close>: \<^verbatim>\<open>workflows/daily_summary.py\<close>: statistics, text, run, scheduler.

  The orchestrator and its surface:

  \<^item> \<^verbatim>\<open>Orchestrator\<close>: \<^verbatim>\<open>core/orchestrator/main.py\<close>: handlers, one worker, the fate of
    a job, the orphan reaper, the start sequence, the probe and the bind rule.
  \<^item> \<^verbatim>\<open>Workers\<close>: any number of workers on the same queues, interleaved with producers and the
    stop flag, as a step relation; one worker of it is the loop of \<^verbatim>\<open>Orchestrator\<close>.
  \<^item> \<^verbatim>\<open>Ci_Watcher\<close>, \<^verbatim>\<open>Integrity_Watcher\<close>, \<^verbatim>\<open>Event_Watcher\<close>:
    \<^verbatim>\<open>core/watchers/\<close> and \<^verbatim>\<open>core/events/watcher.py\<close>; \<^verbatim>\<open>Watcher_Setup\<close> has their
    constructors and stops.
  \<^item> \<^verbatim>\<open>Lifecycle\<close>: the tasks an orchestrator starts, \<^verbatim>\<open>stop\<close>, \<^verbatim>\<open>_run\<close> and
    \<^verbatim>\<open>cli\<close>; how each task ends is a parameter.
  \<^item> \<^verbatim>\<open>Api\<close>: the endpoints of \<^verbatim>\<open>api/server.py\<close> and its token check;
    \<^verbatim>\<open>Dashboard\<close>: the script of its page, and
    \<^verbatim>\<open>Page\<close> the page on its own API.

  Across components: \<^verbatim>\<open>End_To_End\<close> runs a commit from the watcher to the approval;
  \<^verbatim>\<open>History\<close> makes the entry points the steps of one system and shows what no run of it undoes.
  The handlers side by side, with one step per await:

  \<^item> \<^verbatim>\<open>Coroutines\<close>: \<open>proc\<close>, what is left of a coroutine, and the locale \<open>shared_world\<close>, what
    coroutines need to know of each other (an invariant, keys with rows that belong to whoever made
    them, and what no step undoes).
  \<^item> \<^verbatim>\<open>Interleaved\<close>: the handlers as procs, \<open>commit_co\<close>, \<open>demo_co\<close>, \<open>daily_co\<close> and their
    parts; run alone they are the handlers of the other theories.
  \<^item> \<^verbatim>\<open>Event_Loop\<close>: the interpretation \<open>el\<close> on the tables (a run owns its workflow, its tasks and
    its approvals), and that every session keeps to what its coroutine owns.
  \<^item> \<^verbatim>\<open>Concurrent_Runs\<close>, \<^verbatim>\<open>Concurrent_Demos\<close>: a commit run, and a demo request, a summary
    and a decision, among others.
  \<^item> \<^verbatim>\<open>Side_By_Side\<close>: the event loop as the step relation \<open>loop_step\<close> (a turn to the next await,
    a new task, a cancelled task, a step of somebody else), and what holds in every schedule of it.
  \<^item> \<^verbatim>\<open>Exclusive_Runs\<close>: the interpretation \<open>cl\<close> of the same locale on the claims in Redis (a run
    owns the claim it won), and that a commit is processed once while claims live.

  \<^bold>\<open>How they interact.\<close> The event watcher enqueues a job per commit (\<open>emit_commit\<close>). A worker
  takes jobs from \<^verbatim>\<open>Queue\<close> and runs the handler the registry has for the job's type; for a commit
  this is \<open>run_commit_pipeline\<close>, which claims the commit (\<^verbatim>\<open>Dedup\<close>), records a workflow, and
  runs four guarded steps over \<^verbatim>\<open>Workflow_Store\<close>, calling \<^verbatim>\<open>Agents\<close>, \<^verbatim>\<open>Vector\<close> and
  \<^verbatim>\<open>Gateway\<close>; a demo request goes through the same store. The API reads the rows, decides
  approvals and enqueues jobs; the dashboard shows its replies. All of the coroutines are functions
  \<open>env \<Rightarrow> \<dots> \<Rightarrow> world \<Rightarrow> (exn + 'a) \<times> world\<close>, so a theorem about any of them speaks of every
  behaviour of the services that their laws allow, failures included.

  \<^bold>\<open>What is shown.\<close> Queues: jobs survive their JSON form, scripts of queue operations refine
  plain lists, priority, dead letters; with many workers no job is lost, doubled or taken out of
  order. Guard: a live claim is won once, duplicates learn the workflow, expiry and release. Agents:
  the number of attempts and the back-off, what the parser extracts, the post's length. Gateway: an
  approval is persisted whatever the channels do, decisions touch one row, message limits. Pipeline
  and demo requests: the possible outcomes of a run in the tables, the invariant \<open>tables_ok\<close>,
  ordering (no model call before the row), idempotence, completion when the services answer.
  History: finished rows, memories and approvals are never rewritten, and \<open>rows_ok\<close>: statuses stay
  known and agree with completion times, results and errors, risk levels stay known. Event loop: in
  every schedule each run ends as it does alone, keeps its own workflow and leaves the others' rows
  alone, a commit is processed once within the lifetime of a claim, and two summaries of one day can
  both be written. Schema:
  rows that the program writes fit the types of the columns, models and migration agree but for one
  index and the defaults, \<^verbatim>\<open>init_db\<close> may be repeated, downgrade undoes upgrade. Processes: an
  accessor builds one object and never deadlocks; the start gates, a stop drains the workers, exactly
  what a shutdown lets out, what a refused bind and an interval that is no number do to it, and that
  the migrations of a start silence the log. Watchers: heads emitted once, recent histories, flaky
  workflows. Daily summary: one a day, with the right numbers. API and dashboard: the token gates
  what changes something, lists are the newest rows, the page shows
  them whenever the endpoints answer, a decided approval leaves its panel, and no data that the system
  ever stores can add markup to the panels of approvals, workflows and tasks.

  \<^bold>\<open>Bounds and fuel.\<close> \<open>loads\<close> scans with fuel \<open>2 * length s + 2\<close>, which the round trip shows
  to be enough for every printed text and which exceeds the nesting any text can have. \<open>worker\<close>
  takes the number of turns its stop flag allows, \<open>schedule_rounds\<close>, \<open>ci_run\<close> and
  \<open>integrity_run\<close> the number of intervals that elapse before the stop: arguments of every theorem
  about them. After a stop a worker makes at most two steps, a call of a locked accessor at most five
  (theorems of \<^verbatim>\<open>Workers\<close> and \<^verbatim>\<open>Singletons\<close>). The retry loop \<open>llm_loop\<close> terminates
  by its measure. Python ints are unbounded, so they are \<open>int\<close>; the columns' 64 bits are a
  hypothesis of \<open>rows_fit_schema\<close>. A \<open>char\<close> is one of 256 code points.

  \<^bold>\<open>Not modelled.\<close> The interleaving of two statements inside a database session: a session is one
  step, also where Postgres shows each of its statements a newer snapshot. In \<^verbatim>\<open>Workers\<close> and
  \<^verbatim>\<open>History\<close> a whole handler is one step; \<^verbatim>\<open>Side_By_Side\<close> has one step per await. The text of log records. uvicorn, FastAPI's parsing and
  validation, argparse and the delivery of signals. The insides of Alembic, SQLAlchemy, Postgres,
  Redis and Chroma; the offline mode of the migrations, which only prints. The style sheet of the
  dashboard and its search box, whose distances it rounds with \<^verbatim>\<open>toFixed\<close>. Tests and scripts.
\<close>

end
